(* ===== verification/Prelude.thy ===== *)
theory Prelude
  imports
    Main
    "HOL-Library.Word"
    "HOL-Library.Multiset"
    "HOL-Library.AList"
    "HOL-Library.Char_ord"
    "HOL-Library.List_Lexorder"
    "HOL-Library.Product_Lexorder"
    "HOL-Library.Sublist"
begin

text \<open>
  The shared library of the development.  It holds the result type every fallible operation
  returns, Rust's checked, saturating and wrapping integer operations, hash maps as association
  lists, ordered maps as sorted ones, and two of the interfaces the components are proved against:
  \<open>ledger\<close> (a balance table with a total) and \<open>safety\<close> (a step relation with an invariant).

  Integers are natural numbers together with an explicit width: \<open>checked_add 128\<close> is
  \<^verbatim>\<open>u128::checked_add\<close>.  A plain \<^verbatim>\<open>+\<close> of the sources that can overflow is
  \<open>wrapping_add\<close>, which is what a release build does (the crate sets no overflow checks).
  A Rust string is the list of its UTF-8 bytes, so \<open>length\<close> is \<^verbatim>\<open>str::len\<close> and the
  lexicographic order on \<^typ>\<open>string\<close> is the byte order Rust compares with.
\<close>

named_theorems arith_defs \<open>definitions of the fixed-width integer operations\<close>
named_theorems result_simps \<open>inversion of results of the error monad\<close>

subsection \<open>Errors and results\<close>

text \<open>One constructor for every error message of the sources that are modelled, grouped by file.\<close>

datatype (plugins only: code) wallet_error =
    AddressNotHex | AddressLength | SignatureNotHex | SignatureLength | BadPublicKey
  | SignatureMismatch | AccountSignatureLength | BadAccountKey | AccountAddressMismatch
  | BadAccountSignature

datatype (plugins only: code) staking_error =
    InvalidValidator | BelowMinimumDelegation | SelfDelegation | DelegationOverflow
  | ZeroUndelegation | NoDelegation | UndelegateTooMuch | ReleaseOverflow
  | ClaimOverflow | NothingToClaim | BadPenalty | DuplicateSlash | SlashOverflow

datatype (plugins only: code) raw_error =
    RawNotHex | RawFieldCount | RawU64Range | RawU128Range | RawAddressLength
  | RawCalldataTarget | RawCalldataUtf8 | RawCalldataUnsupported | RawNoChainId
  | RawChainIdMismatch | RawRecoveryId | RawScalarLength | RawBadScalars | RawRecover
  | RawFeeOverflow | RawNoMarker | RawFieldMismatch
  | RlpEmpty | RlpTrailing | RlpKind | RlpOverflow | RlpTruncated | RlpLengthField

datatype (plugins only: code) event_error =
    BadEventId | ZeroExecuteAt | ZeroReward | EmptyIncident | ZeroCompensation
  | ZeroProtocol | BadBootstrapReward | DuplicateRegistration | BadMilestoneReward
  | BadPolicyHash | BadInterestTerms | ZeroInterest | BadHolderTerms | ZeroHolderReward
  | WrongPenalty | WrongSlashId | BadDelegationTerms | ZeroDelegationReward
  | BadServiceTerms | WrongServiceEpoch | ZeroServiceReward | BadTreasuryCount
  | ZeroTreasury | BadAddress | BadRewardAddress | DuplicateEventId | EventMismatch
  | BadAttestation | NodeKeyHex | NodeKeyFormat | PeerIdMismatch | NodeSignatureHex
  | NodeSignatureMismatch

datatype (plugins only: code) chain_error =
    CheckpointHash | EmptyBlock | NoGenesis | NotNextBlock | BadBlockHash | WrongGenesis
  | TamperedBlock nat | BrokenLink nat | LiquidOverflow | DelegatedOverflow
  | UnbondingOverflow | TotalOverflow | SupplyCapExceeded | EventTooEarly string
  | EventAlreadyExecuted string | FoundationShort | EventCreditOverflow | PenaltyCreditOverflow
  | StakingReceiver | TransferToStaking | ClaimAmountNotZero | ZeroAmount
  | BadNonce nat nat | DebitOverflow | InsufficientBalance | CreditOverflow
  | ClaimCreditOverflow | FeeSplitOverflow | ProducerOverflow | FoundationOverflow

datatype (plugins only: code) genesis_error =
    ZeroChainId | ZeroMaxSupply | DuplicateBalance | GenesisSupplyOverflow
  | GenesisSupplyTooLarge | BadLockedAddress | TooFewValidators | BadGenesisValidator
  | BadBlockBytes | BadActiveBytes | TestNetworkName | DevelopmentBalance
  | WrongMaxSupply | WrongFoundationAllocation

datatype (plugins only: code) mempool_error =
    DuplicateTransaction | TransactionTooLarge | NonceIndexCorrupt | ReplacementUnderpriced

datatype (plugins only: code) consensus_error =
    ProposalHeight | ProposalBlockHash | NotDoubleVote | CertificateBlockHash | ZeroPower
  | MixedVotes | UnknownPrecommit | PowerOverflow | NoQuorum | NoValidators | BadValidator
  | PastRound | WrongPhaseForProposal | NotProposer string | EmptyProposal | ProposalRound
  | UnknownProposer | PrevotesWithoutRound | LockedValue | ValidRoundNotPast
  | TooManyPrevotes | PrevoteMismatch | UnknownPrevoter | DuplicatePrevoter
  | NoPrevoteQuorum | VoteRound | UnknownVoter | WrongPhaseForVote | DoubleVote
  | VoteForOtherBlock | RoundOverflow | NotNil | BadEraConfig | TooSmallSet
  | ActivationOverflow | WalDoubleVote | WalHistoryConflict | WalRecord nat | WalEncode | WalIo | FinalityConflict nat
  | RoundChangeZeroPower | MixedRoundChange | UnknownRoundChanger | RoundChangePowerOverflow
  | NoRoundChangeQuorum

datatype (plugins only: code) recovery_error =
    NoRecoveryValidators | ZeroRecoveryPower string | DuplicateRecoveryValidator string
  | RecoveryPowerOverflow | UnknownApprover string

datatype (plugins only: code) reward_error =
    RateTooHigh | ZeroMinimumBalance | ZeroDailyTotal | BadCampaignName | BadCampaignPeriod

datatype (plugins only: code) sync_error =
    EmptyAttestations | MixedAttestations | UnknownAttester | AttestationQuorum
  | SnapshotMismatch | BadPeerCount | SnapshotZeroPower | SnapshotPowerOverflow
  | OtherSnapshotChunk | ChunkIndexRange | ChunkHashMismatch | ChunksMissing | CompressedSize
  | SnapshotIdMismatch | SnapshotDecompress | SnapshotDecode | TipMismatch | ZeroChunkBytes
  | BadChunkCount | BadHashLength | ManifestChanged | SchedulerLimits | OtherAssignment
  | ChunkFileMissing

datatype (plugins only: code) policy_error =
    BadStakeBps | BadRankLimit | BadValidatorCounts | BadUptimeBps | ZeroCirculation
  | DuplicateValidatorKey | DuplicateStakeAccount | BadValidatorKey | BadStakeAccount
  | BadCountryCode | EmptyEndpoint | TooFewSelected nat nat

datatype (plugins only: code) traffic_error =
    BadSlots | BadDiversityLimits | BadBootstrapLimit | BadMinimumUptime | BadEpochLength
  | BadPoolShare | BadRewardLimits | BadUptimeSeconds | WrongEpoch | SelfReceipt | EmptyMessage
  | UptimeTooShort | RewardAddressConflict | BadTrafficAddress

datatype (plugins only: code) account_error =
    NoKeys | BadKeys | BadThreshold | StalePolicy | NoThreshold | WeightTooLow
  | RecoveryTooEarly | NoNewKeys

datatype (plugins only: code) module_error =
    BadModuleKey | BadModule | UnknownModule | NoMigration | MigrationNotForward
  | MigrationOvershoot | ModuleRejected string

datatype (plugins only: code) upgrade_error =
    DuplicateUpgradeHeight | UnsupportedVersion nat nat | BadPruningPolicy

datatype (plugins only: code) signal_error =
    BadSignalId | BadSignalTarget | SignalExpired | BadSignalPayload | SignalSeen

datatype (plugins only: code) signer_error =
    SignerMissing | NoSigners | SignerKeyLength | SignerRefused | SignerFailed

datatype (plugins only: code) runtime_error =
    SnapshotBlockMissing | NotCanonical | NotProposePhase | NotMyTurn | NoPrevoteProof
  | ValidBlockMissing | ValidBlockMismatch | NoTip | NotNextProposal | NoCandidate
  | FinalizedHashMismatch | OtherChainRoundChange | RoundChangeHeight | UnregisteredRoundChange
  | RoundTooFar | ValidRoundInFuture | ValidValueNotNext | RoundNumberOverflow
  | OtherChainSnapshot | SnapshotRootMismatch | CertificateHashMismatch | CanonicalMissing
  | FinalityViolation nat | SyncGap | NotFinalized | ValidatorSetFixed | TimeBeforePrevious
  | ClockBeforeEpoch | TimeInFuture | ProtocolTooOld | DelegateInactive | BootstrapTargets
  | InterestMismatch | HolderMismatch | SlashTarget | DelegationMismatch | ServiceMismatch
  | BuiltinEventId | InterestEventId | HolderEventId | SlashEventId | DelegationEventId
  | ServiceEventId

datatype (plugins only: code) storage_error =
    SqliteFailed string | UnsupportedSchema nat | MetadataMissing string | MetadataNegative string
  | LegacyCorrupt | LegacySchema | StateEncode | StateDecode | StateSchema | ActiveLimit
  | BlockTooLarge | NoLocalSnapshot | OtherChainState | StateRootMismatch | StartFailed string
  | RestoreManifest

datatype (plugins only: code) rpc_error =
    MissingParam nat | BadQuantity | UnmanagedAccount | FeeOverflow | LocalOnly | UnknownMethod string
  | DelegationTooEarly | InactiveValidator | MalformedRequest | BadAction | SupplyOverflow
  | BadTransactionHash | KeystoreFailed

datatype error =
    EWallet wallet_error
  | EStaking staking_error
  | ERaw raw_error
  | EEvent event_error
  | EChain chain_error
  | EGenesis genesis_error
  | EMempool mempool_error
  | EConsensus consensus_error
  | ERecovery recovery_error
  | EReward reward_error
  | ESync sync_error
  | EPolicy policy_error
  | ETraffic traffic_error
  | EAccount account_error
  | EModule module_error
  | EUpgrade upgrade_error
  | ESignal signal_error
  | ESigner signer_error
  | ERuntime runtime_error
  | EStorage storage_error
  | ERpc rpc_error

datatype 'a result = Err error | Ok 'a

fun rbind :: "'a result \<Rightarrow> ('a \<Rightarrow> 'b result) \<Rightarrow> 'b result" where
  "rbind (Err e) f = Err e"
| "rbind (Ok x) f = f x"

fun is_ok :: "'a result \<Rightarrow> bool" where
  "is_ok (Ok _) = True"
| "is_ok (Err _) = False"

text \<open>\<^verbatim>\<open>Option::ok_or\<close> followed by the question mark operator.\<close>

fun ok_or :: "'a option \<Rightarrow> error \<Rightarrow> 'a result" where
  "ok_or None e = Err e"
| "ok_or (Some x) e = Ok x"

lemma rbind_cong [fundef_cong]:
  "r = r' \<Longrightarrow> (\<And>x. r' = Ok x \<Longrightarrow> f x = g x) \<Longrightarrow> rbind r f = rbind r' g"
  by (cases r') auto

lemma rbind_Ok_iff [simp, result_simps]:
  "rbind r f = Ok y \<longleftrightarrow> (\<exists>x. r = Ok x \<and> f x = Ok y)"
  by (cases r) auto

lemma ok_or_Ok_iff [simp, result_simps]: "ok_or x e = Ok y \<longleftrightarrow> x = Some y"
  by (cases x) auto

lemma if_Err_Ok_iff [simp, result_simps]:
  "(if b then Err e else r) = Ok y \<longleftrightarrow> \<not> b \<and> r = Ok y"
  by simp

lemma is_ok_iff: "is_ok r \<longleftrightarrow> (\<exists>x. r = Ok x)"
  by (cases r) auto

text \<open>A \<^verbatim>\<open>for\<close> loop whose body may return early with an error.\<close>

fun for_each :: "('a \<Rightarrow> 's \<Rightarrow> 's result) \<Rightarrow> 'a list \<Rightarrow> 's \<Rightarrow> 's result" where
  "for_each f [] s = Ok s"
| "for_each f (x # xs) s = rbind (f x s) (for_each f xs)"

lemma for_each_append:
  "for_each f (xs @ ys) s = rbind (for_each f xs s) (for_each f ys)"
proof (induction xs arbitrary: s)
  case (Cons x xs)
  then show ?case by (cases "f x s") simp_all
qed simp

text \<open>What every iteration keeps, the loop keeps.\<close>

lemma for_each_invariant:
  assumes "for_each f xs s = Ok s'" and "P s"
    and "\<And>x s s'. x \<in> set xs \<Longrightarrow> P s \<Longrightarrow> f x s = Ok s' \<Longrightarrow> P s'"
  shows "P s'"
  using assms
proof (induction xs arbitrary: s)
  case (Cons x xs)
  then obtain t where "f x s = Ok t" and "for_each f xs t = Ok s'" by auto
  moreover from this(1) Cons.prems have "P t" by auto
  ultimately show ?case using Cons.IH Cons.prems(3) by auto
qed simp

subsection \<open>Fixed-width integers\<close>

definition checked_add :: "nat \<Rightarrow> nat \<Rightarrow> nat \<Rightarrow> nat option" where
  "checked_add w a b = (if a + b < 2 ^ w then Some (a + b) else None)"

definition checked_mul :: "nat \<Rightarrow> nat \<Rightarrow> nat \<Rightarrow> nat option" where
  "checked_mul w a b = (if a * b < 2 ^ w then Some (a * b) else None)"

definition saturating_add :: "nat \<Rightarrow> nat \<Rightarrow> nat \<Rightarrow> nat" where
  "saturating_add w a b = min (a + b) (2 ^ w - 1)"

definition saturating_mul :: "nat \<Rightarrow> nat \<Rightarrow> nat \<Rightarrow> nat" where
  "saturating_mul w a b = min (a * b) (2 ^ w - 1)"

definition saturating_sub :: "nat \<Rightarrow> nat \<Rightarrow> nat" where
  "saturating_sub a b = a - b"

definition wrapping_add :: "nat \<Rightarrow> nat \<Rightarrow> nat \<Rightarrow> nat" where
  "wrapping_add w a b = (a + b) mod 2 ^ w"

definition wrapping_sub :: "nat \<Rightarrow> nat \<Rightarrow> nat \<Rightarrow> nat" where
  "wrapping_sub w a b = (a + 2 ^ w - b) mod 2 ^ w"

definition div_ceil :: "nat \<Rightarrow> nat \<Rightarrow> nat" where
  "div_ceil a b = a div b + (if a mod b > 0 then 1 else 0)"

declare checked_add_def [arith_defs] checked_mul_def [arith_defs]
  saturating_add_def [arith_defs] saturating_mul_def [arith_defs]
  saturating_sub_def [arith_defs] wrapping_add_def [arith_defs] wrapping_sub_def [arith_defs]

lemma checked_add_Some [simp]:
  "checked_add w a b = Some c \<longleftrightarrow> c = a + b \<and> a + b < 2 ^ w"
  by (auto simp: checked_add_def)

lemma checked_mul_Some [simp]:
  "checked_mul w a b = Some c \<longleftrightarrow> c = a * b \<and> a * b < 2 ^ w"
  by (auto simp: checked_mul_def)

lemma saturating_add_le: "saturating_add w a b \<le> a + b"
  by (simp add: saturating_add_def)

lemma saturating_add_exact: "a + b < 2 ^ w \<Longrightarrow> saturating_add w a b = a + b"
  by (simp add: saturating_add_def)

lemma saturating_mul_le: "saturating_mul w a b \<le> a * b"
  by (simp add: saturating_mul_def)

lemma saturating_mul_exact: "a * b < 2 ^ w \<Longrightarrow> saturating_mul w a b = a * b"
  by (simp add: saturating_mul_def)

lemma saturating_add_bound: "saturating_add w a b < 2 ^ w"
proof -
  have "(0::nat) < 2 ^ w" by simp
  then show ?thesis unfolding saturating_add_def by linarith
qed

text \<open>
  The quorum test of the sources compares two saturated products.  Saturation never makes it
  pass when the exact comparison fails.
\<close>

lemma saturating_quorum_sound:
  assumes "saturating_mul w t b < saturating_mul w p a"
  shows "t * b < p * a"
  using assms by (auto simp: saturating_mul_def min_def split: if_splits)

lemma saturating_quorum_complete:
  assumes "t * b < p * a" and "t * b < 2 ^ w - 1"
  shows "saturating_mul w t b < saturating_mul w p a"
  using assms by (auto simp: saturating_mul_def min_def)

definition wrapping_mul :: "nat \<Rightarrow> nat \<Rightarrow> nat \<Rightarrow> nat" where
  "wrapping_mul w a b = (a * b) mod 2 ^ w"

declare wrapping_mul_def [arith_defs]

text \<open>\<^verbatim>\<open>Iterator::sum\<close> of a release build.\<close>

definition wrapping_sum :: "nat \<Rightarrow> nat list \<Rightarrow> nat" where
  "wrapping_sum w xs = foldl (wrapping_add w) 0 xs"

lemma wrapping_sum_mod: "wrapping_sum w xs = sum_list xs mod 2 ^ w"
proof (induction xs rule: rev_induct)
  case (snoc x xs)
  then show ?case by (simp add: wrapping_sum_def wrapping_add_def mod_add_left_eq)
qed (simp add: wrapping_sum_def)

lemma wrapping_sum_exact: "sum_list xs < 2 ^ w \<Longrightarrow> wrapping_sum w xs = sum_list xs"
  by (simp add: wrapping_sum_mod)

text \<open>A checked sum over a list, \<^verbatim>\<open>try_fold(0, checked_add)\<close>.\<close>

fun checked_sum_from :: "nat \<Rightarrow> nat \<Rightarrow> nat list \<Rightarrow> nat option" where
  "checked_sum_from w acc [] = Some acc"
| "checked_sum_from w acc (x # xs) =
     (case checked_add w acc x of None \<Rightarrow> None | Some s \<Rightarrow> checked_sum_from w s xs)"

definition checked_sum :: "nat \<Rightarrow> nat list \<Rightarrow> nat option" where
  "checked_sum w xs = checked_sum_from w 0 xs"

lemma checked_sum_from_Some:
  "checked_sum_from w acc xs = Some s \<Longrightarrow> s = acc + sum_list xs"
  by (induction xs arbitrary: acc) (fastforce split: option.splits)+

lemma checked_sum_from_complete:
  "acc + sum_list xs < 2 ^ w \<Longrightarrow> checked_sum_from w acc xs = Some (acc + sum_list xs)"
proof (induction xs arbitrary: acc)
  case (Cons x xs)
  then show ?case by (simp add: checked_add_def add.assoc)
qed simp

lemma checked_sum_Some: "checked_sum w xs = Some s \<Longrightarrow> s = sum_list xs"
  by (auto simp: checked_sum_def dest: checked_sum_from_Some)

lemma checked_sum_complete: "sum_list xs < 2 ^ w \<Longrightarrow> checked_sum w xs = Some (sum_list xs)"
  by (simp add: checked_sum_def checked_sum_from_complete)

subsection \<open>Hash maps\<close>

text \<open>
  A \<^verbatim>\<open>HashMap\<close> is an association list with one entry per key; \<^verbatim>\<open>insert\<close> overwrites in
  place or appends.  The iteration order of the model is the order of the list, one of the orders
  Rust allows.
\<close>

type_synonym ('k, 'v) hmap = "('k \<times> 'v) list"

definition hm_get :: "('k, 'v) hmap \<Rightarrow> 'k \<Rightarrow> 'v option" where
  "hm_get m k = map_of m k"

definition hm_insert :: "('k, 'v) hmap \<Rightarrow> 'k \<Rightarrow> 'v \<Rightarrow> ('k, 'v) hmap" where
  "hm_insert m k v = AList.update k v m"

definition hm_remove :: "('k, 'v) hmap \<Rightarrow> 'k \<Rightarrow> ('k, 'v) hmap" where
  "hm_remove m k = AList.delete k m"

definition hm_contains :: "('k, 'v) hmap \<Rightarrow> 'k \<Rightarrow> bool" where
  "hm_contains m k = (hm_get m k \<noteq> None)"

text \<open>\<^verbatim>\<open>get(k).copied().unwrap_or(0)\<close>\<close>

definition hm_get0 :: "('k, nat) hmap \<Rightarrow> 'k \<Rightarrow> nat" where
  "hm_get0 m k = (case hm_get m k of None \<Rightarrow> 0 | Some v \<Rightarrow> v)"

definition hm_wf :: "('k, 'v) hmap \<Rightarrow> bool" where
  "hm_wf m = distinct (map fst m)"

definition hm_total :: "('k, nat) hmap \<Rightarrow> nat" where
  "hm_total m = sum_list (map snd m)"

definition hm_from_list :: "('k \<times> 'v) list \<Rightarrow> ('k, 'v) hmap" where
  "hm_from_list kvs = foldl (\<lambda>m (k, v). hm_insert m k v) [] kvs"

lemma hm_get_insert [simp]:
  "hm_get (hm_insert m k v) k' = (if k' = k then Some v else hm_get m k')"
  by (simp add: hm_get_def hm_insert_def update_conv')

lemma hm_get_remove [simp]:
  "hm_get (hm_remove m k) k' = (if k' = k then None else hm_get m k')"
  by (simp add: hm_get_def hm_remove_def delete_conv')

lemma hm_get_Nil [simp]: "hm_get [] k = None"
  by (simp add: hm_get_def)

lemma hm_get0_insert [simp]:
  "hm_get0 (hm_insert m k v) k' = (if k' = k then v else hm_get0 m k')"
  by (simp add: hm_get0_def)

lemma hm_wf_Nil [simp]: "hm_wf []"
  by (simp add: hm_wf_def)

lemma hm_wf_insert [simp]: "hm_wf m \<Longrightarrow> hm_wf (hm_insert m k v)"
  by (simp add: hm_wf_def hm_insert_def distinct_update)

lemma hm_wf_remove [simp]: "hm_wf m \<Longrightarrow> hm_wf (hm_remove m k)"
  by (simp add: hm_wf_def hm_remove_def distinct_delete)

lemma hm_wf_from_list: "hm_wf (hm_from_list kvs)"
proof -
  have "hm_wf m \<Longrightarrow> hm_wf (foldl (\<lambda>m (k, v). hm_insert m k v) m kvs)" for m
    by (induction kvs arbitrary: m) auto
  then show ?thesis by (simp add: hm_from_list_def)
qed

lemma hm_total_insert: "hm_total (hm_insert m k v) + hm_get0 m k = hm_total m + v"
  by (induction m) (auto simp: hm_total_def hm_insert_def hm_get0_def hm_get_def)

lemma hm_get_in_set: "hm_get m k = Some v \<Longrightarrow> (k, v) \<in> set m"
  by (simp add: hm_get_def map_of_SomeD)

lemma hm_insert_keys [simp]: "fst ` set (hm_insert m k v) = insert k (fst ` set m)"
  by (auto simp: hm_insert_def update_conv' simp flip: dom_map_of_conv_image_fst)

lemma hm_get_dom: "hm_get m k \<noteq> None \<longleftrightarrow> k \<in> fst ` set m"
  by (simp add: hm_get_def map_of_eq_None_iff)

text \<open>The entries of a table, summed over any set of keys, stay below its total.\<close>

lemma hm_total_sum: "hm_wf m \<Longrightarrow> hm_total m = (\<Sum>k \<in> fst ` set m. hm_get0 m k)"
proof (induction m)
  case (Cons e m)
  obtain k v where e: "e = (k, v)" by (cases e)
  with Cons.prems have new: "k \<notin> fst ` set m" by (simp add: hm_wf_def)
  then have "(\<Sum>x \<in> fst ` set m. hm_get0 (e # m) x) = (\<Sum>x \<in> fst ` set m. hm_get0 m x)"
    by (intro sum.cong) (auto simp: e hm_get0_def hm_get_def)
  with Cons new show ?case
    by (simp add: e hm_total_def hm_wf_def hm_get0_def hm_get_def)
qed (simp add: hm_total_def)

lemma hm_get0_le_total: "hm_get0 m k \<le> hm_total m"
  by (induction m) (auto simp: hm_total_def hm_get0_def hm_get_def)

lemma hm_from_list_snoc [simp]:
  "hm_from_list (kvs @ [(k, v)]) = hm_insert (hm_from_list kvs) k v"
  by (simp add: hm_from_list_def)

lemma hm_from_list_Nil [simp]: "hm_from_list [] = []"
  by (simp add: hm_from_list_def)

lemma hm_from_list_keys: "fst ` set (hm_from_list kvs) = fst ` set kvs"
proof (induction kvs rule: rev_induct)
  case (snoc kv kvs)
  obtain k v where "kv = (k, v)" by (cases kv)
  with snoc show ?case by simp
qed simp

lemma hm_from_list_total: "hm_total (hm_from_list kvs) \<le> sum_list (map snd kvs)"
proof (induction kvs rule: rev_induct)
  case (snoc kv kvs)
  obtain k v where "kv = (k, v)" by (cases kv)
  with snoc hm_total_insert [of "hm_from_list kvs" k v] show ?case by simp
qed (simp add: hm_total_def)

lemma hm_sum_le_total:
  assumes "hm_wf m" and "A \<subseteq> fst ` set m"
  shows "(\<Sum>k \<in> A. hm_get0 m k) \<le> hm_total m"
  unfolding hm_total_sum [OF assms(1)] using assms(2) by (intro sum_mono2) auto

subsection \<open>Ordered maps\<close>

text \<open>
  A \<^verbatim>\<open>BTreeMap\<close> is an association list in ascending key order; \<open>bt_entry\<close> is
  \<^verbatim>\<open>entry(k).or_insert(d)\<close> followed by an update in place, \<open>bt_insert\<close> is \<^verbatim>\<open>insert\<close>.
\<close>

fun bt_entry :: "'k::linorder \<Rightarrow> 'v \<Rightarrow> ('v \<Rightarrow> 'v) \<Rightarrow> ('k \<times> 'v) list \<Rightarrow> ('k \<times> 'v) list" where
  "bt_entry k d f [] = [(k, f d)]"
| "bt_entry k d f ((k', v) # m) =
     (if k < k' then (k, f d) # (k', v) # m
      else if k = k' then (k', f v) # m
      else (k', v) # bt_entry k d f m)"

definition bt_insert :: "'k::linorder \<Rightarrow> 'v \<Rightarrow> ('k \<times> 'v) list \<Rightarrow> ('k \<times> 'v) list" where
  "bt_insert k v m = bt_entry k v (\<lambda>_. v) m"

abbreviation bt_sorted :: "('k::linorder \<times> 'v) list \<Rightarrow> bool" where
  "bt_sorted m \<equiv> sorted_wrt (<) (map fst m)"

lemma bt_entry_keys [simp]: "fst ` set (bt_entry k d f m) = insert k (fst ` set m)"
  by (induction m rule: bt_entry.induct) auto

lemma bt_entry_sorted: "bt_sorted m \<Longrightarrow> bt_sorted (bt_entry k d f m)"
proof (induction k d f m rule: bt_entry.induct)
  case (2 k d f k' v m)
  have "\<forall>x \<in> fst ` set (bt_entry k d f m). x = k \<or> x \<in> fst ` set m" by simp
  with 2 show ?case by (force simp del: bt_entry_keys)
qed simp

lemma bt_entry_get:
  "bt_sorted m \<Longrightarrow> map_of (bt_entry k d f m) k' =
     (if k' = k then Some (f (case map_of m k of None \<Rightarrow> d | Some v \<Rightarrow> v)) else map_of m k')"
proof (induction k d f m rule: bt_entry.induct)
  case (2 k d f k' v m)
  have "k < k' \<Longrightarrow> map_of m k = None"
    using "2.prems" by (force simp: map_of_eq_None_iff)
  with 2 show ?case by auto
qed simp

lemma bt_sorted_distinct: "bt_sorted m \<Longrightarrow> distinct (map fst m)"
  by (simp add: strict_sorted_iff)

subsection \<open>Lists\<close>

text \<open>\<^verbatim>\<open>iter_mut().find(p)\<close> followed by an update of the element found.\<close>

fun update_first :: "('a \<Rightarrow> bool) \<Rightarrow> ('a \<Rightarrow> 'a) \<Rightarrow> 'a list \<Rightarrow> 'a list" where
  "update_first p f [] = []"
| "update_first p f (x # xs) = (if p x then f x # xs else x # update_first p f xs)"

lemma update_first_sum:
  fixes g :: "'a \<Rightarrow> nat"
  assumes "find p xs = Some x"
  shows "sum_list (map g (update_first p f xs)) + g x = sum_list (map g xs) + g (f x)"
  using assms by (induction xs) (auto split: if_splits)

lemma update_first_map:
  assumes "\<And>x. p x \<Longrightarrow> key (f x) = key x"
  shows "map key (update_first p f xs) = map key xs"
  using assms by (induction xs) auto

lemma update_first_set:
  "find p xs = Some x \<Longrightarrow> set (update_first p f xs) \<subseteq> insert (f x) (set xs)"
  by (induction xs) (auto split: if_splits)

lemma find_Some_in: "find p xs = Some x \<Longrightarrow> x \<in> set xs \<and> p x"
  by (auto simp: find_Some_iff)

lemma sum_list_sort_key [simp]:
  fixes g :: "'a \<Rightarrow> nat"
  shows "sum_list (map g (sort_key k xs)) = sum_list (map g xs)"
  by (metis mset_map mset_sort sum_mset_sum_list)

lemma sum_list_filter_zero:
  fixes g :: "'a \<Rightarrow> nat"
  shows "sum_list (map g (filter (\<lambda>x. g x > 0) xs)) = sum_list (map g xs)"
  by (induction xs) auto

lemma sum_list_partition:
  fixes g :: "'a \<Rightarrow> nat"
  shows "sum_list (map g (filter p xs)) + sum_list (map g (filter (\<lambda>x. \<not> p x) xs)) = sum_list (map g xs)"
  by (induction xs) auto

lemma distinct_map_filter: "distinct (map f xs) \<Longrightarrow> distinct (map f (filter p xs))"
  by (induction xs) auto

lemma distinct_map_sort_key [simp]: "distinct (map f (sort_key k xs)) = distinct (map f xs)"
  by (metis (no_types, lifting) distinct_map distinct_sort set_sort)

text \<open>\<^verbatim>\<open>Vec::remove\<close> at an index in range.\<close>

definition remove_nth :: "nat \<Rightarrow> 'a list \<Rightarrow> 'a list" where
  "remove_nth i xs = take i xs @ drop (Suc i) xs"

lemma length_remove_nth: "i < length xs \<Longrightarrow> length (remove_nth i xs) = length xs - 1"
  by (simp add: remove_nth_def)

lemma remove_nth_split:
  assumes "i < length xs"
  shows "xs = take i xs @ xs ! i # drop (Suc i) xs" and "mset xs = add_mset (xs ! i) (mset (remove_nth i xs))"
proof -
  show split: "xs = take i xs @ xs ! i # drop (Suc i) xs" using assms by (rule id_take_nth_drop)
  show "mset xs = add_mset (xs ! i) (mset (remove_nth i xs))"
    by (subst split) (simp add: remove_nth_def)
qed

lemma distinct_map_remove:
  assumes "i < length xs" and "distinct (map f xs)"
  shows "distinct (map f (remove_nth i xs))" and "f (xs ! i) \<notin> f ` set (remove_nth i xs)"
    and "f ` set xs = insert (f (xs ! i)) (f ` set (remove_nth i xs))"
proof -
  have "distinct (map f (take i xs @ xs ! i # drop (Suc i) xs))"
    using assms remove_nth_split(1) by metis
  then show "distinct (map f (remove_nth i xs))" and "f (xs ! i) \<notin> f ` set (remove_nth i xs)"
    by (auto simp: remove_nth_def)
  have "set xs = insert (xs ! i) (set (remove_nth i xs))"
    using arg_cong [OF remove_nth_split(2) [OF assms(1)], of set_mset] by simp
  then show "f ` set xs = insert (f (xs ! i)) (f ` set (remove_nth i xs))" by simp
qed

subsection \<open>Interface: a ledger with a total\<close>

text \<open>
  What the chain relies on when it moves money: storing a balance changes one account and the
  total by the difference.
\<close>

locale ledger =
  fixes bal :: "'m \<Rightarrow> 'k \<Rightarrow> nat"
    and put :: "'m \<Rightarrow> 'k \<Rightarrow> nat \<Rightarrow> 'm"
    and total :: "'m \<Rightarrow> nat"
  assumes bal_put: "bal (put m k v) k' = (if k' = k then v else bal m k')"
    and total_put: "total (put m k v) + bal m k = total m + v"
    and bal_le_total: "bal m k \<le> total m"
begin

lemma total_credit: "total (put m k (bal m k + a)) = total m + a"
  using total_put [of m k "bal m k + a"] by simp

lemma total_debit: "a \<le> bal m k \<Longrightarrow> total (put m k (bal m k - a)) + a = total m"
  using total_put [of m k "bal m k - a"] by linarith

lemma total_transfer:
  assumes "a \<le> bal m k"
  shows "total (put (put m k (bal m k - a)) k' (bal (put m k (bal m k - a)) k' + a)) = total m"
  using total_credit [of "put m k (bal m k - a)" k' a] total_debit [OF assms] by linarith

end

interpretation hml: ledger hm_get0 hm_insert hm_total
  by unfold_locales (simp_all add: hm_total_insert hm_get0_le_total)

subsection \<open>Interface: step relations and invariants\<close>

text \<open>
  A component whose state only changes through its operations: an invariant that holds at the
  start and that every step keeps holds in every reachable state.
\<close>

locale safety =
  fixes start :: "'s \<Rightarrow> bool"
    and step :: "'s \<Rightarrow> 's \<Rightarrow> bool"
    and inv :: "'s \<Rightarrow> bool"
  assumes inv_start: "start s \<Longrightarrow> inv s"
    and inv_step: "inv s \<Longrightarrow> step s t \<Longrightarrow> inv t"
begin

lemma inv_steps: "step\<^sup>*\<^sup>* s t \<Longrightarrow> inv s \<Longrightarrow> inv t"
  by (induction rule: rtranclp_induct) (auto intro: inv_step)

lemma inv_reachable: "start s \<Longrightarrow> step\<^sup>*\<^sup>* s t \<Longrightarrow> inv t"
  using inv_start inv_steps by blast

end

end
