(* ===== verification/Bytes.thy ===== *)
theory Bytes
  imports Prelude
begin

text \<open>
  Strings and byte strings: the functions of the Rust standard library that the sources call on
  \<^verbatim>\<open>str\<close> and \<^verbatim>\<open>u8\<close>, the big-endian integer encodings, and the length-prefixed text
  encoding \<^verbatim>\<open>push_text\<close> that every signed message of the sources is built from.
\<close>

type_synonym u8 = "8 word"

subsection \<open>Strings as byte sequences\<close>

definition as_bytes :: "string \<Rightarrow> u8 list" where
  "as_bytes s = map of_char s"

definition str_of :: "u8 list \<Rightarrow> string" where
  "str_of bs = map (\<lambda>b. char_of (unat b)) bs"

lemma of_char_u8: "(of_char c :: u8) = word_of_nat (of_char c)"
  by (rule of_nat_of_char [symmetric])

lemma unat_of_char [simp]: "unat (of_char c :: u8) = of_char c"
proof -
  have "(of_char c :: nat) < 256" by (rule nat_of_char_less_256)
  then show ?thesis unfolding of_char_u8 by (simp add: unat_of_nat)
qed

lemma str_of_as_bytes [simp]: "str_of (as_bytes s) = s"
  by (simp add: str_of_def as_bytes_def comp_def)

lemma as_bytes_inj [simp]: "as_bytes s = as_bytes t \<longleftrightarrow> s = t"
  by (metis str_of_as_bytes)

lemma length_as_bytes [simp]: "length (as_bytes s) = length s"
  by (simp add: as_bytes_def)

lemma as_bytes_append [simp]: "as_bytes (s @ t) = as_bytes s @ as_bytes t"
  by (simp add: as_bytes_def)

definition starts_with :: "string \<Rightarrow> string \<Rightarrow> bool" where
  "starts_with s p = (take (length p) s = p)"

definition strip_prefix :: "string \<Rightarrow> string \<Rightarrow> string option" where
  "strip_prefix p s = (if starts_with s p then Some (drop (length p) s) else None)"

lemma strip_prefix_Some [simp]: "strip_prefix p s = Some r \<longleftrightarrow> s = p @ r"
  by (auto simp: strip_prefix_def starts_with_def) (metis append_take_drop_id)

lemma starts_with_set: "starts_with s p \<Longrightarrow> c \<in> set p \<Longrightarrow> c \<in> set s"
  by (metis in_set_takeD starts_with_def)

lemma starts_with_append [simp]: "starts_with (p @ r) p"
  by (simp add: starts_with_def)

text \<open>\<^verbatim>\<open>trim_start_matches("0x")\<close> removes the prefix as often as it is there.\<close>

function trim_0x :: "string \<Rightarrow> string" where
  "trim_0x s = (if starts_with s ''0x'' then trim_0x (drop 2 s) else s)"
  by pat_completeness auto
termination
proof (relation "measure length")
  fix s :: string
  assume "starts_with s ''0x''"
  then have "s \<noteq> []" by (auto simp: starts_with_def)
  then show "(drop 2 s, s) \<in> measure length" by simp
qed simp

declare trim_0x.simps [simp del]

lemma trim_0x_not_prefixed: "\<not> starts_with (trim_0x s) ''0x''"
  by (induction s rule: trim_0x.induct) (metis trim_0x.simps)

lemma trim_0x_idem [simp]: "trim_0x (trim_0x s) = trim_0x s"
  by (subst trim_0x.simps) (simp add: trim_0x_not_prefixed)

definition is_ascii_digit :: "char \<Rightarrow> bool" where
  "is_ascii_digit c = (let n = of_char c :: nat in 48 \<le> n \<and> n \<le> 57)"

definition is_ascii_hexdigit :: "char \<Rightarrow> bool" where
  "is_ascii_hexdigit c =
     (let n = of_char c :: nat
      in 48 \<le> n \<and> n \<le> 57 \<or> 65 \<le> n \<and> n \<le> 70 \<or> 97 \<le> n \<and> n \<le> 102)"

definition is_ascii_alphanumeric :: "char \<Rightarrow> bool" where
  "is_ascii_alphanumeric c =
     (let n = of_char c :: nat
      in 48 \<le> n \<and> n \<le> 57 \<or> 65 \<le> n \<and> n \<le> 90 \<or> 97 \<le> n \<and> n \<le> 122)"

definition to_lower_char :: "char \<Rightarrow> char" where
  "to_lower_char c =
     (let n = of_char c :: nat in if 65 \<le> n \<and> n \<le> 90 then char_of (n + 32) else c)"

definition to_ascii_lowercase :: "string \<Rightarrow> string" where
  "to_ascii_lowercase s = map to_lower_char s"

definition eq_ignore_ascii_case :: "string \<Rightarrow> string \<Rightarrow> bool" where
  "eq_ignore_ascii_case s t = (to_ascii_lowercase s = to_ascii_lowercase t)"

lemma to_lower_char_idem [simp]: "to_lower_char (to_lower_char c) = to_lower_char c"
proof (cases "65 \<le> (of_char c :: nat) \<and> (of_char c :: nat) \<le> 90")
  case True
  then have "(of_char (char_of ((of_char c :: nat) + 32)) :: nat) = of_char c + 32"
    by (simp add: take_bit_eq_mod)
  with True show ?thesis by (simp add: to_lower_char_def Let_def)
next
  case False
  then have "to_lower_char c = c" by (auto simp: to_lower_char_def Let_def)
  then show ?thesis by simp
qed

lemma to_ascii_lowercase_idem [simp]:
  "to_ascii_lowercase (to_ascii_lowercase s) = to_ascii_lowercase s"
  by (simp add: to_ascii_lowercase_def)

text \<open>
  \<^verbatim>\<open>str::trim().is_empty()\<close>: the string holds white space only.  White space is Unicode's
  \<^verbatim>\<open>White_Space\<close> property, read off the UTF-8 bytes.
\<close>

fun blank_bytes :: "nat list \<Rightarrow> bool" where
  "blank_bytes [] = True"
| "blank_bytes (a # as) =
     (if 9 \<le> a \<and> a \<le> 13 \<or> a = 32 then blank_bytes as
      else (case as of
        [] \<Rightarrow> False
      | b # bs \<Rightarrow>
          (if a = 194 \<and> (b = 133 \<or> b = 160) then blank_bytes bs
           else (case bs of
             [] \<Rightarrow> False
           | c # cs \<Rightarrow>
               (if a = 225 \<and> b = 154 \<and> c = 128
                   \<or> a = 226 \<and> b = 128 \<and> (128 \<le> c \<and> c \<le> 138 \<or> c = 168 \<or> c = 169 \<or> c = 175)
                   \<or> a = 226 \<and> b = 129 \<and> c = 159
                   \<or> a = 227 \<and> b = 128 \<and> c = 128
                then blank_bytes cs else False)))))"

definition is_blank :: "string \<Rightarrow> bool" where
  "is_blank s = blank_bytes (map of_char s)"

text \<open>\<^verbatim>\<open>u64::to_string\<close> in decimal.\<close>

fun decimal :: "nat \<Rightarrow> string" where
  "decimal n = (if n < 10 then [char_of (48 + n)] else decimal (n div 10) @ [char_of (48 + n mod 10)])"

declare decimal.simps [simp del]

fun decimal_value :: "nat \<Rightarrow> string \<Rightarrow> nat" where
  "decimal_value acc [] = acc"
| "decimal_value acc (c # cs) = decimal_value (10 * acc + (of_char c - 48)) cs"

lemma decimal_value_append:
  "decimal_value acc (s @ t) = decimal_value (decimal_value acc s) t"
  by (induction s arbitrary: acc) simp_all

lemma of_char_digit: "d < 10 \<Longrightarrow> (of_char (char_of (48 + d)) :: nat) = 48 + d"
  by (simp add: take_bit_eq_mod)

lemma decimal_value_decimal: "decimal_value 0 (decimal n) = n"
proof (induction n rule: decimal.induct)
  case (1 n)
  show ?case
  proof (cases "n < 10")
    case True
    then show ?thesis by (simp add: decimal.simps [of n] of_char_digit)
  next
    case False
    with 1 have "decimal_value 0 (decimal (n div 10)) = n div 10" by simp
    moreover have "n mod 10 < 10" by simp
    ultimately show ?thesis using False
      by (simp only: decimal.simps [of n] if_False decimal_value_append decimal_value.simps
          of_char_digit) simp
  qed
qed

lemma decimal_inj [simp]: "decimal m = decimal n \<longleftrightarrow> m = n"
  by (metis decimal_value_decimal)

subsection \<open>UTF-8\<close>

text \<open>\<^verbatim>\<open>std::str::from_utf8\<close>: the well-formed byte sequences of the Unicode standard.\<close>

fun utf8_ok :: "nat list \<Rightarrow> bool" where
  "utf8_ok [] = True"
| "utf8_ok (a # as) =
     (if a < 128 then utf8_ok as
      else (case as of
        [] \<Rightarrow> False
      | b # bs \<Rightarrow>
          (if 194 \<le> a \<and> a \<le> 223 \<and> 128 \<le> b \<and> b \<le> 191 then utf8_ok bs
           else (case bs of
             [] \<Rightarrow> False
           | c # cs \<Rightarrow>
               (if 128 \<le> c \<and> c \<le> 191 \<and>
                   (a = 224 \<and> 160 \<le> b \<and> b \<le> 191
                    \<or> (225 \<le> a \<and> a \<le> 236 \<or> 238 \<le> a \<and> a \<le> 239) \<and> 128 \<le> b \<and> b \<le> 191
                    \<or> a = 237 \<and> 128 \<le> b \<and> b \<le> 159)
                then utf8_ok cs
                else (case cs of
                  [] \<Rightarrow> False
                | d # ds \<Rightarrow>
                    (if 128 \<le> c \<and> c \<le> 191 \<and> 128 \<le> d \<and> d \<le> 191 \<and>
                        (a = 240 \<and> 144 \<le> b \<and> b \<le> 191
                         \<or> 241 \<le> a \<and> a \<le> 243 \<and> 128 \<le> b \<and> b \<le> 191
                         \<or> a = 244 \<and> 128 \<le> b \<and> b \<le> 143)
                     then utf8_ok ds else False)))))))"

definition from_utf8 :: "u8 list \<Rightarrow> string option" where
  "from_utf8 bs = (if utf8_ok (map unat bs) then Some (str_of bs) else None)"

subsection \<open>Big-endian integers\<close>

text \<open>\<^verbatim>\<open>to_be_bytes\<close> of an integer of \<open>w\<close> bytes.\<close>

fun be_bytes :: "nat \<Rightarrow> nat \<Rightarrow> u8 list" where
  "be_bytes 0 n = []"
| "be_bytes (Suc w) n = be_bytes w (n div 256) @ [word_of_nat n]"

definition from_be :: "u8 list \<Rightarrow> nat" where
  "from_be bs = foldl (\<lambda>acc b. acc * 256 + unat b) 0 bs"

lemma length_be_bytes [simp]: "length (be_bytes w n) = w"
  by (induction w arbitrary: n) simp_all

lemma from_be_snoc [simp]: "from_be (bs @ [b]) = from_be bs * 256 + unat b"
  by (simp add: from_be_def)

lemma from_be_Nil [simp]: "from_be [] = 0"
  by (simp add: from_be_def)

lemma from_be_Cons: "from_be (b # bs) = unat b * 256 ^ length bs + from_be bs"
  by (induction bs rule: rev_induct) (simp_all add: from_be_def algebra_simps)

lemma from_be_skip_zeros: "from_be (dropWhile (\<lambda>b. b = 0) bs) = from_be bs"
  by (induction bs) (simp_all add: from_be_Cons)

lemma from_be_be_bytes: "from_be (be_bytes w n) = n mod 256 ^ w"
proof (induction w arbitrary: n)
  case (Suc w)
  have "from_be (be_bytes (Suc w) n) = (n div 256 mod 256 ^ w) * 256 + n mod 256"
    by (simp add: Suc unat_of_nat)
  also have "\<dots> = n mod (256 * 256 ^ w)"
    by (simp add: mod_mult2_eq mult.commute)
  finally show ?case by simp
qed simp

lemma from_be_bound: "from_be bs < 256 ^ length bs"
proof (induction bs rule: rev_induct)
  case (snoc b bs)
  have "unat b < 256" using unsigned_less [of b, where ?'a = nat] by simp
  with snoc show ?case by simp
qed simp

lemma be_bytes_from_be: "be_bytes (length bs) (from_be bs) = bs"
proof (induction bs rule: rev_induct)
  case (snoc b bs)
  have b: "unat b < 256" using unsigned_less [of b, where ?'a = nat] by simp
  have "(from_be bs * 256 + unat b) div 256 = from_be bs" using b by simp
  moreover have "(word_of_nat (from_be bs * 256 + unat b) :: u8) = b"
  proof -
    have "(word_of_nat (from_be bs * 256 + unat b) :: u8) = word_of_nat (from_be bs) * 256 + b"
      by simp
    also have "(256 :: u8) = 0" by simp
    finally show ?thesis by simp
  qed
  ultimately show ?case using snoc by simp
qed simp

subsection \<open>Interface: encodings that can be split off\<close>

text \<open>
  A signed message of the sources is a concatenation of encoded fields.  A field whose encoding
  is no proper prefix of another one's can be read back whatever follows it, so equal messages
  have equal fields.
\<close>

locale prefix_code =
  fixes enc :: "'a \<Rightarrow> u8 list"
    and ok :: "'a \<Rightarrow> bool"
  assumes prefix: "ok x \<Longrightarrow> ok y \<Longrightarrow> enc x @ r = enc y @ s \<Longrightarrow> x = y \<and> r = s"
begin

lemma split_iff: "ok x \<Longrightarrow> ok y \<Longrightarrow> enc x @ r = enc y @ s \<longleftrightarrow> x = y \<and> r = s"
  using prefix by blast

lemma enc_inj: "ok x \<Longrightarrow> ok y \<Longrightarrow> enc x = enc y \<Longrightarrow> x = y"
  using prefix [of x y "[]" "[]"] by simp

lemma concat_inj:
  assumes "length xs = length ys" and "\<forall>x \<in> set xs. ok x" and "\<forall>y \<in> set ys. ok y"
    and "concat (map enc xs) @ r = concat (map enc ys) @ s"
  shows "xs = ys \<and> r = s"
  using assms
proof (induction xs ys rule: list_induct2)
  case (Cons x xs y ys)
  then show ?case using prefix [of x y "concat (map enc xs) @ r" "concat (map enc ys) @ s"] by simp
qed simp

end

interpretation be: prefix_code "be_bytes w" "\<lambda>n. n < 256 ^ w" for w
proof
  fix x y r s
  assume "x < 256 ^ w" and "y < 256 ^ w" and eq: "be_bytes w x @ r = be_bytes w y @ s"
  from eq have bytes: "be_bytes w x = be_bytes w y" and "r = s" by auto
  have "x mod 256 ^ w = y mod 256 ^ w"
    using arg_cong [OF bytes, of from_be] by (simp only: from_be_be_bytes)
  with \<open>x < 256 ^ w\<close> \<open>y < 256 ^ w\<close> \<open>r = s\<close> show "x = y \<and> r = s" by simp
qed

text \<open>\<^verbatim>\<open>push_text\<close>: the length as eight big-endian bytes, then the bytes of the text.\<close>

definition push_text :: "string \<Rightarrow> u8 list" where
  "push_text v = be_bytes 8 (length v) @ as_bytes v"

definition text_ok :: "string \<Rightarrow> bool" where
  "text_ok s = (length s < 2 ^ 64)"

interpretation ptext: prefix_code push_text text_ok
proof
  fix x y :: string and r s
  assume "text_ok x" and "text_ok y" and eq: "push_text x @ r = push_text y @ s"
  have width: "(256 :: nat) ^ 8 = 2 ^ 64" by simp
  have "length x = length y \<and> as_bytes x @ r = as_bytes y @ s"
  proof (rule be.prefix [of _ 8])
    show "length x < 256 ^ 8" and "length y < 256 ^ 8"
      using \<open>text_ok x\<close> \<open>text_ok y\<close> by (simp_all only: width text_ok_def)
    show "be_bytes 8 (length x) @ as_bytes x @ r = be_bytes 8 (length y) @ as_bytes y @ s"
      using eq by (simp only: push_text_def append_assoc)
  qed
  then have "length (as_bytes x) = length (as_bytes y)" and "as_bytes x @ r = as_bytes y @ s"
    by simp_all
  then show "x = y \<and> r = s" by (metis append_eq_append_conv as_bytes_inj)
qed

lemma length_push_text [simp]: "length (push_text v) = 8 + length v"
  by (simp add: push_text_def)

end
