(* ===== verification/Model.thy ===== *)
theory Model
  imports Bytes
begin

text \<open>
  The data the components exchange (\<^verbatim>\<open>src/src/model.rs\<close> and the structures of
  \<^verbatim>\<open>consensus.rs\<close>, \<^verbatim>\<open>scheduled_event.rs\<close>, \<^verbatim>\<open>staking.rs\<close>, \<^verbatim>\<open>genesis.rs\<close>,
  \<^verbatim>\<open>network.rs\<close> and \<^verbatim>\<open>node_emission.rs\<close> that a block can carry), the record \<open>ext\<close> of the
  functions of other crates, and the functions of \<^verbatim>\<open>model.rs\<close>: signing bytes, transaction ids
  and block hashes.  A struct is a record whose fields carry a prefix of the struct's name.
\<close>

subsection \<open>Transactions\<close>

datatype transaction_action =
    Transfer
  | Delegate string
  | Undelegate string
  | ClaimUnbonded

record transaction =
  tx_from :: string
  tx_to :: string
  tx_amount :: nat
  tx_fee :: nat
  tx_nonce :: nat
  tx_action :: transaction_action
  tx_signature :: string

subsection \<open>Validators, votes and evidence\<close>

record validator =
  val_id :: string
  val_voting_power :: nat

datatype vote_type = Prevote | Precommit

record consensus_message =
  msg_height :: nat
  msg_round :: nat
  msg_validator_id :: string
  msg_vote_type :: vote_type
  msg_block_hash :: string
  msg_signature :: string

record double_vote_evidence =
  evd_first :: consensus_message
  evd_second :: consensus_message

subsection \<open>Scheduled events\<close>

record event_payment =
  pay_address :: string
  pay_amount :: nat

record validator_registration =
  vreg_validator_id :: string
  vreg_peer_id :: string
  vreg_signature_hex :: string

record node_reward_registration =
  nreg_reward_address :: string
  nreg_peer_id :: string
  nreg_signature_hex :: string
  nreg_registration_signer :: string
  nreg_node_public_key_hex :: string
  nreg_node_signature_hex :: string
  nreg_reward_signature_hex :: string

record node_service_attestation =
  att_peer_id :: string
  att_reward_address :: string
  att_epoch :: nat
  att_observed_at :: nat
  att_uptime_bps :: nat
  att_network_group :: string
  att_validator_id :: string
  att_signature_hex :: string

datatype scheduled_event_action =
    TreasuryDistribution "event_payment list"
  | PeriodicProducerReward string nat
  | IncidentCompensation string string nat
  | ProtocolCheckpoint nat
  | BootstrapValidatorReward "validator_registration list" nat
  | NodeMilestoneReward "node_reward_registration list" nat
  | ValidatorDailyInterest nat string nat "event_payment list"
  | HolderDailyReward nat string nat "event_payment list"
  | DoubleVoteSlash double_vote_evidence nat
  | DelegationDailyReward nat string nat "event_payment list"
  | NodeServiceDailyReward nat nat "node_service_attestation list" "event_payment list"

record scheduled_event =
  ev_id :: string
  ev_execute_at :: nat
  ev_action :: scheduled_event_action

subsection \<open>Blocks\<close>

record block =
  blk_height :: nat
  blk_previous_hash :: string
  blk_timestamp :: nat
  blk_producer :: string
  blk_transactions :: "transaction list"
  blk_system_events :: "scheduled_event list"
  blk_hash :: string

subsection \<open>Staking and genesis\<close>

record delegation_position =
  dep_delegator :: string
  dep_validator :: string
  dep_amount :: nat
  dep_delegated_at :: nat

record unbonding_entry =
  unb_delegator :: string
  unb_validator :: string
  unb_amount :: nat
  unb_release_at :: nat

record staking_state =
  stk_delegations :: "delegation_position list"
  stk_unbonding :: "unbonding_entry list"
  stk_applied_slashes :: "string list"

definition staking_default :: staking_state where
  "staking_default = \<lparr>stk_delegations = [], stk_unbonding = [], stk_applied_slashes = []\<rparr>"

record genesis_config =
  gen_chain_id :: nat
  gen_network_name :: string
  gen_genesis_time :: nat
  gen_max_supply :: nat
  gen_initial_balances :: "(string \<times> nat) list"
  gen_locked_addresses :: "string list"
  gen_validators :: "validator list"
  gen_max_block_bytes :: nat
  gen_max_active_block_bytes :: nat

subsection \<open>Functions of other crates\<close>

text \<open>
  What the sources call in \<^verbatim>\<open>sha2\<close>, \<^verbatim>\<open>sha3\<close>, \<^verbatim>\<open>hex\<close>, \<^verbatim>\<open>ed25519-dalek\<close>,
  \<^verbatim>\<open>k256\<close>, \<^verbatim>\<open>libp2p\<close> and \<^verbatim>\<open>serde_json\<close> is a parameter of the model: one record, passed
  to every definition that uses it.  The fields, in order: the two hash functions; hex encoding
  and decoding; the public key of an Ed25519 signing key, signing, the check that 32 bytes are a
  public key, verification; the check that 32 bytes are a secp256k1 signing key, the uncompressed
  point of its public key, signing, decoding a public key to its uncompressed point, the check
  that 64 bytes are a signature, verification, the check of the two scalars, public key recovery;
  the peer id of a libp2p key and verification with it; JSON encodings.
\<close>

record ext =
  sha256 :: "u8 list \<Rightarrow> u8 list"
  keccak256 :: "u8 list \<Rightarrow> u8 list"
  hex_encode :: "u8 list \<Rightarrow> string"
  hex_decode :: "string \<Rightarrow> u8 list option"
  ed25519_public :: "u8 list \<Rightarrow> u8 list"
  ed25519_sign :: "u8 list \<Rightarrow> u8 list \<Rightarrow> u8 list"
  ed25519_key_ok :: "u8 list \<Rightarrow> bool"
  ed25519_verify :: "u8 list \<Rightarrow> u8 list \<Rightarrow> u8 list \<Rightarrow> bool"
  secp_key_ok :: "u8 list \<Rightarrow> bool"
  secp_public :: "u8 list \<Rightarrow> u8 list"
  secp_sign :: "u8 list \<Rightarrow> u8 list \<Rightarrow> u8 list"
  secp_point :: "u8 list \<Rightarrow> u8 list option"
  secp_signature_ok :: "u8 list \<Rightarrow> bool"
  secp_verify :: "u8 list \<Rightarrow> u8 list \<Rightarrow> u8 list \<Rightarrow> bool"
  secp_scalars_ok :: "u8 list \<Rightarrow> u8 list \<Rightarrow> bool"
  secp_recover :: "u8 list \<Rightarrow> u8 list \<Rightarrow> u8 list \<Rightarrow> nat \<Rightarrow> u8 list option"
  libp2p_peer_id :: "u8 list \<Rightarrow> string option"
  libp2p_verify :: "u8 list \<Rightarrow> u8 list \<Rightarrow> u8 list \<Rightarrow> bool"
  json_transaction :: "transaction \<Rightarrow> u8 list"
  json_event :: "scheduled_event \<Rightarrow> u8 list"
  json_evidence :: "double_vote_evidence \<Rightarrow> u8 list"
  json_staking :: "staking_state \<Rightarrow> u8 list"
  json_genesis :: "genesis_config \<Rightarrow> u8 list"

text \<open>
  A small concrete instance, used where a theorem is applied at a concrete input: hexadecimal
  digits are the standard ones, the hash is the byte sum, and a signature is the public key
  written twice.
\<close>

definition toy_hex_digit :: "nat \<Rightarrow> char" where
  "toy_hex_digit n = (if n < 10 then char_of (48 + n) else char_of (87 + n))"

definition toy_hex_value :: "char \<Rightarrow> nat option" where
  "toy_hex_value c =
     (let n = of_char c :: nat
      in if 48 \<le> n \<and> n \<le> 57 then Some (n - 48)
         else if 97 \<le> n \<and> n \<le> 102 then Some (n - 87)
         else if 65 \<le> n \<and> n \<le> 70 then Some (n - 55) else None)"

fun toy_hex_encode :: "u8 list \<Rightarrow> string" where
  "toy_hex_encode [] = []"
| "toy_hex_encode (b # bs) =
     toy_hex_digit (unat b div 16) # toy_hex_digit (unat b mod 16) # toy_hex_encode bs"

fun toy_hex_decode :: "string \<Rightarrow> u8 list option" where
  "toy_hex_decode [] = Some []"
| "toy_hex_decode [c] = None"
| "toy_hex_decode (c # d # s) =
     (case (toy_hex_value c, toy_hex_value d, toy_hex_decode s) of
        (Some x, Some y, Some bs) \<Rightarrow> Some (word_of_nat (16 * x + y) # bs)
      | _ \<Rightarrow> None)"

definition toy_hash :: "u8 list \<Rightarrow> u8 list" where
  "toy_hash bs = sum_list bs # replicate 31 0"

definition toy_ext :: ext where
  "toy_ext = \<lparr>
     sha256 = toy_hash,
     keccak256 = toy_hash,
     hex_encode = toy_hex_encode,
     hex_decode = toy_hex_decode,
     ed25519_public = (\<lambda>k. k),
     ed25519_sign = (\<lambda>k m. k @ k),
     ed25519_key_ok = (\<lambda>pk. length pk = 32),
     ed25519_verify = (\<lambda>pk m s. s = pk @ pk),
     secp_key_ok = (\<lambda>k. length k = 32),
     secp_public = (\<lambda>k. 4 # k @ k),
     secp_sign = (\<lambda>k m. k @ k),
     secp_point = (\<lambda>p. Some p),
     secp_signature_ok = (\<lambda>s. length s = 64),
     secp_verify = (\<lambda>p m s. p = 4 # s),
     secp_scalars_ok = (\<lambda>r s. True),
     secp_recover = (\<lambda>d r s v. Some (4 # r @ s)),
     libp2p_peer_id = (\<lambda>k. Some (str_of k)),
     libp2p_verify = (\<lambda>k m s. s = k),
     json_transaction = (\<lambda>tx. be_bytes 8 (tx_nonce tx)),
     json_event = (\<lambda>ev. as_bytes (ev_id ev)),
     json_evidence = (\<lambda>e. as_bytes (msg_block_hash (evd_first e)) @ be_bytes 1 0
        @ as_bytes (msg_block_hash (evd_second e))),
     json_staking = (\<lambda>st. be_bytes 8 (length (stk_delegations st))),
     json_genesis = (\<lambda>g. be_bytes 8 (gen_chain_id g))\<rparr>"

lemmas toy_simps = toy_ext_def toy_hash_def toy_hex_digit_def toy_hex_value_def

subsection \<open>Signing bytes and transaction ids\<close>

definition is_transfer :: "transaction_action \<Rightarrow> bool" where
  "is_transfer a = (case a of Transfer \<Rightarrow> True | _ \<Rightarrow> False)"

fun consensus_bytes :: "transaction_action \<Rightarrow> u8 list" where
  "consensus_bytes Transfer = [0]"
| "consensus_bytes (Delegate validator) = 1 # push_text validator"
| "consensus_bytes (Undelegate validator) = 2 # push_text validator"
| "consensus_bytes ClaimUnbonded = [3]"

definition action_suffix :: "transaction_action \<Rightarrow> u8 list" where
  "action_suffix a =
     (if \<not> is_transfer a then as_bytes ''IEUM-TX-ACTION-V1'' @ consensus_bytes a else [])"

definition signing_bytes :: "transaction \<Rightarrow> u8 list" where
  "signing_bytes tx =
     push_text (tx_from tx) @ push_text (tx_to tx) @ be_bytes 16 (tx_amount tx)
     @ be_bytes 16 (tx_fee tx) @ be_bytes 8 (tx_nonce tx) @ action_suffix (tx_action tx)"

definition tx_id :: "ext \<Rightarrow> transaction \<Rightarrow> string" where
  "tx_id E tx = hex_encode E (sha256 E (signing_bytes tx @ as_bytes (tx_signature tx)))"

subsection \<open>Block hashes\<close>

definition event_consensus_bytes :: "ext \<Rightarrow> scheduled_event \<Rightarrow> u8 list" where
  "event_consensus_bytes E ev = json_event E ev"

definition block_preimage :: "ext \<Rightarrow> block \<Rightarrow> u8 list" where
  "block_preimage E b =
     be_bytes 8 (blk_height b) @ as_bytes (blk_previous_hash b) @ be_bytes 8 (blk_timestamp b)
     @ as_bytes (blk_producer b)
     @ concat (map (\<lambda>tx. as_bytes (tx_id E tx)) (blk_transactions b))
     @ concat (map (\<lambda>ev. as_bytes (ev_id ev) @ event_consensus_bytes E ev) (blk_system_events b))"

definition calculate_hash :: "ext \<Rightarrow> block \<Rightarrow> string" where
  "calculate_hash E b = hex_encode E (sha256 E (block_preimage E b))"

definition block_new :: "ext \<Rightarrow> nat \<Rightarrow> string \<Rightarrow> nat \<Rightarrow> string \<Rightarrow> transaction list \<Rightarrow> block" where
  "block_new E height previous_hash timestamp producer transactions =
     (let b = \<lparr>blk_height = height, blk_previous_hash = previous_hash, blk_timestamp = timestamp,
               blk_producer = producer, blk_transactions = transactions,
               blk_system_events = [], blk_hash = []\<rparr>
      in b\<lparr>blk_hash := calculate_hash E b\<rparr>)"

definition genesis_at :: "ext \<Rightarrow> nat \<Rightarrow> block" where
  "genesis_at E timestamp =
     block_new E 0 (replicate 64 (CHR ''0'')) timestamp ''genesis'' []"

definition block_genesis :: "ext \<Rightarrow> block" where
  "block_genesis E = genesis_at E 0"

definition with_system_events :: "ext \<Rightarrow> block \<Rightarrow> scheduled_event list \<Rightarrow> block" where
  "with_system_events E b events =
     (let b' = b\<lparr>blk_system_events := events\<rparr> in b'\<lparr>blk_hash := calculate_hash E b'\<rparr>)"

subsection \<open>What the encodings commit to\<close>

text \<open>The hash field is not part of what is hashed.\<close>

lemma calculate_hash_update_hash [simp]:
  "calculate_hash E (b\<lparr>blk_hash := h\<rparr>) = calculate_hash E b"
  by (simp add: calculate_hash_def block_preimage_def)

lemma block_new_hash [simp]:
  "blk_hash (block_new E h p t q txs) = calculate_hash E (block_new E h p t q txs)"
  by (simp add: block_new_def Let_def calculate_hash_def block_preimage_def)

lemma block_new_fields [simp]:
  "blk_height (block_new E h p t q txs) = h"
  "blk_previous_hash (block_new E h p t q txs) = p"
  "blk_timestamp (block_new E h p t q txs) = t"
  "blk_producer (block_new E h p t q txs) = q"
  "blk_transactions (block_new E h p t q txs) = txs"
  "blk_system_events (block_new E h p t q txs) = []"
  by (simp_all add: block_new_def Let_def)

lemma with_system_events_hash [simp]:
  "blk_hash (with_system_events E b evs) = calculate_hash E (with_system_events E b evs)"
  by (simp add: with_system_events_def Let_def)

lemma genesis_at_wf [simp]: "blk_hash (genesis_at E t) = calculate_hash E (genesis_at E t)"
  by (simp add: genesis_at_def)

text \<open>The values the fields of a Rust transaction can hold.\<close>

fun action_ok :: "transaction_action \<Rightarrow> bool" where
  "action_ok (Delegate v) = text_ok v"
| "action_ok (Undelegate v) = text_ok v"
| "action_ok _ = True"

definition tx_ok :: "transaction \<Rightarrow> bool" where
  "tx_ok tx \<longleftrightarrow> text_ok (tx_from tx) \<and> text_ok (tx_to tx) \<and> tx_amount tx < 2 ^ 128
     \<and> tx_fee tx < 2 ^ 128 \<and> tx_nonce tx < 2 ^ 64 \<and> action_ok (tx_action tx)"

lemma is_transfer_iff [simp]: "is_transfer a \<longleftrightarrow> a = Transfer"
  by (cases a) (simp_all add: is_transfer_def)

lemma consensus_bytes_inj:
  assumes "action_ok a" and "action_ok b" and "consensus_bytes a = consensus_bytes b"
  shows "a = b"
  using assms by (cases a; cases b) (auto dest: ptext.enc_inj)

lemma action_suffix_inj:
  assumes "action_ok a" and "action_ok b" and "action_suffix a = action_suffix b"
  shows "a = b"
  using assms consensus_bytes_inj [of a b]
  by (cases "a = Transfer"; cases "b = Transfer") (auto simp: action_suffix_def as_bytes_def)

lemma width_16: "(n :: nat) < 2 ^ 128 \<longleftrightarrow> n < 256 ^ 16"
  by simp

lemma width_8: "(n :: nat) < 2 ^ 64 \<longleftrightarrow> n < 256 ^ 8"
  by simp

lemma width_4: "(n :: nat) < 2 ^ 32 \<longleftrightarrow> n < 256 ^ 4"
  by simp

lemmas split_16 = be.split_iff [of _ 16, folded width_16]
lemmas split_8 = be.split_iff [of _ 8, folded width_8]
lemmas split_4 = be.split_iff [of _ 4, folded width_4]

text \<open>
  C27.  The bytes a sender signs determine every field of the transaction but the signature: two
  transactions with the same signing bytes have the same sender, receiver, amount, fee, nonce
  and action, so a signature cannot be moved to a different payment.
\<close>

theorem signing_bytes_injective:
  assumes "tx_ok a" and "tx_ok b" and "signing_bytes a = signing_bytes b"
  shows "a\<lparr>tx_signature := s\<rparr> = b\<lparr>tx_signature := s\<rparr>"
proof -
  have eq: "tx_from a = tx_from b \<and> tx_to a = tx_to b \<and> tx_amount a = tx_amount b
    \<and> tx_fee a = tx_fee b \<and> tx_nonce a = tx_nonce b
    \<and> action_suffix (tx_action a) = action_suffix (tx_action b)"
    using assms unfolding tx_ok_def signing_bytes_def
    by (simp only: ptext.split_iff split_16 split_8)
  moreover have "tx_action a = tx_action b"
    using assms eq action_suffix_inj by (auto simp: tx_ok_def)
  ultimately show ?thesis by (cases a; cases b) simp
qed

definition sample_transfer :: "string \<Rightarrow> transaction" where
  "sample_transfer signature = \<lparr>tx_from = ''alice'', tx_to = ''bob'', tx_amount = 5, tx_fee = 1,
     tx_nonce = 0, tx_action = Delegate ''v'', tx_signature = signature\<rparr>"

theorem signing_bytes_injective_witness:
  "(sample_transfer ''x'')\<lparr>tx_signature := []\<rparr> = (sample_transfer ''y'')\<lparr>tx_signature := []\<rparr>"
  by (rule signing_bytes_injective)
    (simp_all add: sample_transfer_def tx_ok_def text_ok_def signing_bytes_def)

end
