(* ===== verification/Rewards.thy ===== *)
theory Rewards
  imports Model
begin

text \<open>
  The daily reward policies that are paid from the foundation's balance:
  \<^verbatim>\<open>src/src/validator_interest.rs\<close> and \<^verbatim>\<open>src/src/holder_rewards.rs\<close>.  Loading and saving
  the policy files is input and output and is left out; a policy's hash takes the JSON bytes of
  the policy as an argument.  The interface \<open>capped_payout\<close> is the contract all daily payout
  loops share, the delegation rewards of \<^verbatim>\<open>staking.rs\<close> included.
\<close>

subsection \<open>Interface: payouts under a daily cap\<close>

locale capped_payout =
  fixes pay :: "nat \<Rightarrow> 'a list \<Rightarrow> event_payment list"
    and due :: "'a \<Rightarrow> nat"
    and who :: "'a \<Rightarrow> string"
  assumes pay_Nil: "pay r [] = []"
    and pay_Cons: "pay r (x # xs) =
      (if min (due x) r = 0 then pay r xs
       else \<lparr>pay_address = who x, pay_amount = min (due x) r\<rparr> # pay (r - min (due x) r) xs)"
begin

lemma pay_total: "sum_list (map pay_amount (pay r xs)) = min (sum_list (map due xs)) r"
proof (induction xs arbitrary: r)
  case (Cons x xs)
  show ?case
  proof (cases "min (due x) r = 0")
    case True
    then consider "due x = 0" | "r = 0" by linarith
    then show ?thesis using Cons True by cases (simp_all add: pay_Cons)
  next
    case False
    have "sum_list (map pay_amount (pay r (x # xs)))
        = min (due x) r + min (sum_list (map due xs)) (r - min (due x) r)"
      using False Cons by (simp add: pay_Cons)
    also have "\<dots> = min (due x + sum_list (map due xs)) r" by arith
    finally show ?thesis by simp
  qed
qed (simp add: pay_Nil)

lemma pay_within_cap: "sum_list (map pay_amount (pay r xs)) \<le> r"
  by (simp add: pay_total)

lemma pay_positive: "p \<in> set (pay r xs) \<Longrightarrow> 0 < pay_amount p"
  by (induction xs arbitrary: r) (auto simp: pay_Nil pay_Cons split: if_splits)

lemma pay_source:
  "p \<in> set (pay r xs) \<Longrightarrow> \<exists>x \<in> set xs. pay_address p = who x \<and> pay_amount p \<le> due x"
proof (induction xs arbitrary: r)
  case (Cons x xs)
  then show ?case by (fastforce simp: pay_Cons split: if_splits)
qed (simp add: pay_Nil)

lemma pay_address_subseq: "subseq (map pay_address (pay r xs)) (map who xs)"
  by (induction xs arbitrary: r) (auto simp: pay_Nil pay_Cons)

lemma pay_distinct:
  assumes "distinct (map who xs)"
  shows "distinct (map pay_address (pay r xs))"
  using assms pay_address_subseq [of r xs] by (metis subseq_conv_nths distinct_nthsI)

lemma pay_nothing_left: "pay 0 xs = []"
  by (induction xs) (simp_all add: pay_Nil pay_Cons)

end

subsection \<open>Validator interest\<close>

record validator_interest_policy =
  vip_enabled :: bool
  vip_annual_rate_bps :: nat
  vip_minimum_balance :: nat
  vip_maximum_daily_total :: nat

definition validator_interest_default :: validator_interest_policy where
  "validator_interest_default = \<lparr>vip_enabled = True, vip_annual_rate_bps = 500,
     vip_minimum_balance = 10 ^ 18, vip_maximum_daily_total = 1000 * 10 ^ 18\<rparr>"

definition interest_policy_validate :: "validator_interest_policy \<Rightarrow> unit result" where
  "interest_policy_validate p =
     (if vip_annual_rate_bps p > 5000 then Err (EReward RateTooHigh)
      else if vip_minimum_balance p = 0 then Err (EReward ZeroMinimumBalance)
      else if vip_maximum_daily_total p = 0 then Err (EReward ZeroDailyTotal)
      else Ok ())"

definition interest_policy_hash ::
  "ext \<Rightarrow> (validator_interest_policy \<Rightarrow> u8 list) \<Rightarrow> validator_interest_policy \<Rightarrow> string" where
  "interest_policy_hash E json p = hex_encode E (sha256 E (json p))"

definition round_to_twelve_decimals :: "nat \<Rightarrow> nat" where
  "round_to_twelve_decimals value =
     saturating_add 128 value (1000000 div 2) div 1000000 * 1000000"

definition IEUM_MAINNET_GENESIS_TIME :: nat where
  "IEUM_MAINNET_GENESIS_TIME = 1787238000"

definition mainnet_daily_reward_active :: "nat \<Rightarrow> nat \<Rightarrow> bool" where
  "mainnet_daily_reward_active chain_id timestamp =
     (chain_id \<noteq> 21004 \<or> timestamp \<ge> saturating_add 64 IEUM_MAINNET_GENESIS_TIME 86400)"

definition kst_day :: "nat \<Rightarrow> nat" where
  "kst_day timestamp = saturating_add 64 timestamp 32400 div 86400"

definition interest_event_id :: "nat \<Rightarrow> string" where
  "interest_event_id timestamp = ''ieum-validator-interest-v1-'' @ decimal (kst_day timestamp)"

definition interest_execute_at :: "nat \<Rightarrow> nat" where
  "interest_execute_at timestamp =
     saturating_sub (saturating_mul 64 (kst_day timestamp) 86400) 32400"

text \<open>One day's simple interest on a balance, before rounding and before the cap.\<close>

definition daily_interest :: "nat \<Rightarrow> nat \<Rightarrow> nat" where
  "daily_interest rate_bps balance = saturating_mul 128 balance rate_bps div 10000 div 365"

fun interest_loop ::
  "validator_interest_policy \<Rightarrow> (string, nat) hmap \<Rightarrow> nat \<Rightarrow> validator list \<Rightarrow> event_payment list" where
  "interest_loop p balances remaining [] = []"
| "interest_loop p balances remaining (v # vs) =
     (let balance = hm_get0 balances (val_id v)
      in if balance < vip_minimum_balance p \<or> remaining = 0
         then interest_loop p balances remaining vs
         else let amount = min (round_to_twelve_decimals
                                  (daily_interest (vip_annual_rate_bps p) balance)) remaining
              in if amount > 0
                 then \<lparr>pay_address = val_id v, pay_amount = amount\<rparr>
                        # interest_loop p balances (remaining - amount) vs
                 else interest_loop p balances remaining vs)"

definition interest_payments ::
  "validator_interest_policy \<Rightarrow> validator list \<Rightarrow> (string, nat) hmap \<Rightarrow> event_payment list" where
  "interest_payments p validators balances =
     (if \<not> vip_enabled p \<or> vip_annual_rate_bps p = 0 then []
      else interest_loop p balances (vip_maximum_daily_total p) (sort_key val_id validators))"

definition interest_due :: "validator_interest_policy \<Rightarrow> (string, nat) hmap \<Rightarrow> validator \<Rightarrow> nat" where
  "interest_due p balances v =
     (let balance = hm_get0 balances (val_id v)
      in if balance < vip_minimum_balance p then 0
         else round_to_twelve_decimals (daily_interest (vip_annual_rate_bps p) balance))"

interpretation interest: capped_payout "interest_loop p balances" "interest_due p balances" val_id
  for p balances
  by unfold_locales (auto simp: interest_due_def Let_def)

subsection \<open>Holder rewards\<close>

record holder_reward_policy =
  hrp_enabled :: bool
  hrp_campaign_name :: string
  hrp_starts_at :: nat
  hrp_ends_at :: nat
  hrp_annual_rate_bps :: nat
  hrp_minimum_balance :: nat
  hrp_maximum_daily_total :: nat

text \<open>The default campaign name is a Korean text; these are its UTF-8 bytes.\<close>

definition holder_reward_default :: holder_reward_policy where
  "holder_reward_default = \<lparr>hrp_enabled = False,
     hrp_campaign_name = map char_of [236, 157, 180, 236, 157, 140, 32, 236, 178, 171, 32, 235, 179, 180,
       236, 156, 160, 32, 236, 157, 145, 236, 155, 144, 32, 236, 157, 180, 235, 178, 164, 237, 138, 184 :: nat],
     hrp_starts_at = 0, hrp_ends_at = 0, hrp_annual_rate_bps = 500, hrp_minimum_balance = 10 ^ 18,
     hrp_maximum_daily_total = 100 * 10 ^ 18\<rparr>"

definition holder_policy_validate :: "holder_reward_policy \<Rightarrow> unit result" where
  "holder_policy_validate p =
     (if is_blank (hrp_campaign_name p) \<or> length (hrp_campaign_name p) > 80
      then Err (EReward BadCampaignName)
      else if hrp_annual_rate_bps p > 5000 then Err (EReward RateTooHigh)
      else if hrp_minimum_balance p = 0 \<or> hrp_maximum_daily_total p = 0
      then Err (EReward ZeroDailyTotal)
      else if hrp_enabled p \<and> (hrp_starts_at p = 0 \<or> hrp_ends_at p \<le> hrp_starts_at p)
      then Err (EReward BadCampaignPeriod)
      else Ok ())"

definition holder_policy_active :: "holder_reward_policy \<Rightarrow> nat \<Rightarrow> bool" where
  "holder_policy_active p timestamp =
     (hrp_enabled p \<and> hrp_starts_at p \<le> timestamp \<and> timestamp \<le> hrp_ends_at p)"

definition holder_policy_hash ::
  "ext \<Rightarrow> (holder_reward_policy \<Rightarrow> u8 list) \<Rightarrow> holder_reward_policy \<Rightarrow> string" where
  "holder_policy_hash E json p = hex_encode E (sha256 E (json p))"

definition holder_event_id :: "nat \<Rightarrow> string" where
  "holder_event_id timestamp =
     ''ieum-holder-reward-v1-'' @ decimal (wrapping_add 64 timestamp 32400 div 86400)"

definition holder_execute_at :: "nat \<Rightarrow> nat" where
  "holder_execute_at timestamp =
     wrapping_sub 64 (wrapping_add 64 timestamp 32400 div 86400 * 86400) 32400"

definition round_12 :: "nat \<Rightarrow> nat" where
  "round_12 amount = saturating_add 128 amount (1000000 div 2) div 1000000 * 1000000"

definition holder_accounts ::
  "holder_reward_policy \<Rightarrow> (string, nat) hmap \<Rightarrow> string set \<Rightarrow> (string \<times> nat) list" where
  "holder_accounts p balances excluded =
     sort_key fst
       (map (\<lambda>(address, balance). (to_ascii_lowercase address, balance))
         (filter (\<lambda>(address, balance). starts_with address ''0x''
                    \<and> balance \<ge> hrp_minimum_balance p
                    \<and> to_ascii_lowercase address \<notin> excluded) balances))"

fun holder_loop ::
  "holder_reward_policy \<Rightarrow> nat \<Rightarrow> (string \<times> nat) list \<Rightarrow> event_payment list" where
  "holder_loop p remaining [] = []"
| "holder_loop p remaining ((address, balance) # rest) =
     (let amount = min (round_12 (daily_interest (hrp_annual_rate_bps p) balance)) remaining;
          paid = (if amount > 0 then [\<lparr>pay_address = address, pay_amount = amount\<rparr>] else []);
          remaining' = remaining - amount
      in paid @ (if remaining' = 0 then [] else holder_loop p remaining' rest))"

definition holder_payments ::
  "holder_reward_policy \<Rightarrow> (string, nat) hmap \<Rightarrow> string set \<Rightarrow> event_payment list" where
  "holder_payments p balances excluded =
     (if \<not> hrp_enabled p \<or> hrp_annual_rate_bps p = 0 then []
      else holder_loop p (hrp_maximum_daily_total p) (holder_accounts p balances excluded))"

definition holder_due :: "holder_reward_policy \<Rightarrow> string \<times> nat \<Rightarrow> nat" where
  "holder_due p ab = round_12 (daily_interest (hrp_annual_rate_bps p) (snd ab))"

lemma holder_loop_none_left: "holder_loop p 0 xs = []"
  by (cases xs) auto

interpretation holder: capped_payout "holder_loop p" "holder_due p" fst for p
proof
  fix r :: nat and x :: "string \<times> nat" and xs
  show "holder_loop p r (x # xs) =
      (if min (holder_due p x) r = 0 then holder_loop p r xs
       else \<lparr>pay_address = fst x, pay_amount = min (holder_due p x) r\<rparr>
              # holder_loop p (r - min (holder_due p x) r) xs)"
    by (cases x; cases "r = 0")
      (auto simp: holder_due_def Let_def holder_loop_none_left)
qed simp

subsection \<open>What the policies promise\<close>

text \<open>
  A day's validator interest never exceeds the policy's daily total, every payment is
  positive and goes to a validator, and no validator is paid more than one day's interest on
  a balance that meets the minimum.
\<close>

theorem interest_payments_capped:
  "sum_list (map pay_amount (interest_payments p vs bs)) \<le> vip_maximum_daily_total p
   \<and> list_all (\<lambda>pmt. 0 < pay_amount pmt
        \<and> list_ex (\<lambda>v. pay_address pmt = val_id v \<and> pay_amount pmt \<le> interest_due p bs v) vs)
       (interest_payments p vs bs)"
proof (cases "\<not> vip_enabled p \<or> vip_annual_rate_bps p = 0")
  case True
  then show ?thesis by (auto simp: interest_payments_def)
next
  case False
  then have eq: "interest_payments p vs bs
      = interest_loop p bs (vip_maximum_daily_total p) (sort_key val_id vs)"
    by (auto simp: interest_payments_def)
  show ?thesis
    unfolding eq list_all_iff list_ex_iff
    using interest.pay_within_cap interest.pay_positive interest.pay_source
    by (metis set_sort)
qed

text \<open>Distinct holders after lower-casing are paid at most once a day.\<close>

lemma holder_payments_distinct:
  assumes "distinct (map fst (holder_accounts p bs ex))"
  shows "distinct (map pay_address (holder_payments p bs ex))"
  using assms holder.pay_distinct by (simp add: holder_payments_def)

lemma holder_payments_capped:
  "sum_list (map pay_amount (holder_payments p bs ex)) \<le> hrp_maximum_daily_total p"
  using holder.pay_within_cap [of p] by (simp add: holder_payments_def)

text \<open>An excluded address is never paid; the foundation is excluded by the consensus rules.\<close>

lemma holder_payments_excluded:
  assumes "pmt \<in> set (holder_payments p bs ex)"
  shows "pay_address pmt \<notin> ex"
proof -
  from assms obtain x where "x \<in> set (holder_accounts p bs ex)" and "pay_address pmt = fst x"
    using holder.pay_source [of pmt p "hrp_maximum_daily_total p" "holder_accounts p bs ex"]
    by (auto simp: holder_payments_def split: if_splits)
  then show ?thesis by (auto simp: holder_accounts_def)
qed

text \<open>The rounding moves an amount by at most half a unit of the twelfth decimal.\<close>

lemma round_12_error:
  assumes "a + 500000 < 2 ^ 128"
  shows "a \<le> round_12 a + 500000" and "round_12 a \<le> a + 500000"
  using assms by (simp_all add: round_12_def saturating_add_exact)

end
