(* ===== verification/Staking.thy ===== *)
theory Staking
  imports Rewards
begin

text \<open>
  Delegated stake: \<^verbatim>\<open>src/src/staking.rs\<close>.  The operations take the state and return the new
  one; where the source fails half-way through an update, the model drops the state with the
  error, as every caller does (they work on a clone and propagate the error).

  The lemmas show what the ledger relies on: each operation changes the total stake by exactly
  the amount it moves, the well-formedness invariant (one position per delegator and validator,
  positive amounts within 128 bits, sorted, no slash applied twice) is kept by all of them, and
  locked money cannot be claimed before its release time.
\<close>

definition STAKING_SYSTEM_ADDRESS :: string where
  "STAKING_SYSTEM_ADDRESS = ''0x0000000000000000000000000000000000021004''"

definition MINIMUM_DELEGATION :: nat where
  "MINIMUM_DELEGATION = 1000000000000000000"

definition UNBONDING_SECONDS :: nat where
  "UNBONDING_SECONDS = 7 * 24 * 60 * 60"

definition DOUBLE_VOTE_SLASH_BPS :: nat where
  "DOUBLE_VOTE_SLASH_BPS = 500"

definition BPS_DENOMINATOR :: nat where
  "BPS_DENOMINATOR = 10000"

subsection \<open>Operations\<close>

abbreviation is_position :: "string \<Rightarrow> string \<Rightarrow> delegation_position \<Rightarrow> bool" where
  "is_position delegator validator \<equiv>
     (\<lambda>p. dep_delegator p = delegator \<and> dep_validator p = validator)"

definition delegated_to :: "staking_state \<Rightarrow> string \<Rightarrow> string \<Rightarrow> nat" where
  "delegated_to st delegator validator =
     (case find (is_position delegator validator) (stk_delegations st) of
        None \<Rightarrow> 0 | Some p \<Rightarrow> dep_amount p)"

definition total_delegated_to :: "staking_state \<Rightarrow> string \<Rightarrow> nat" where
  "total_delegated_to st validator =
     foldl (\<lambda>sum p. saturating_add 128 sum (dep_amount p)) 0
       (filter (\<lambda>p. dep_validator p = validator) (stk_delegations st))"

definition stk_sort :: "staking_state \<Rightarrow> staking_state" where
  "stk_sort st = st\<lparr>
     stk_delegations := sort_key (\<lambda>p. (dep_delegator p, dep_validator p)) (stk_delegations st),
     stk_unbonding := sort_key (\<lambda>e. (unb_release_at e, unb_delegator e, unb_validator e))
       (stk_unbonding st)\<rparr>"

definition validate_validator :: "string \<Rightarrow> unit result" where
  "validate_validator validator =
     (if length validator \<noteq> 64 \<or> \<not> list_all is_ascii_hexdigit validator
      then Err (EStaking InvalidValidator) else Ok ())"

definition delegate_at ::
  "staking_state \<Rightarrow> string \<Rightarrow> string \<Rightarrow> nat \<Rightarrow> nat \<Rightarrow> staking_state result" where
  "delegate_at st delegator validator amount delegated_at =
     rbind (validate_validator validator) (\<lambda>_.
     if amount < MINIMUM_DELEGATION then Err (EStaking BelowMinimumDelegation) else
     if delegator = validator then Err (EStaking SelfDelegation) else
     (case find (is_position delegator validator) (stk_delegations st) of
        Some p \<Rightarrow>
          rbind (ok_or (checked_add 128 (dep_amount p) amount) (EStaking DelegationOverflow)) (\<lambda>a.
          Ok (stk_sort (st\<lparr>stk_delegations :=
            update_first (is_position delegator validator)
              (\<lambda>p. p\<lparr>dep_amount := a, dep_delegated_at := max (dep_delegated_at p) delegated_at\<rparr>)
              (stk_delegations st)\<rparr>)))
      | None \<Rightarrow>
          Ok (stk_sort (st\<lparr>stk_delegations := stk_delegations st @
            [\<lparr>dep_delegator = delegator, dep_validator = validator, dep_amount = amount,
              dep_delegated_at = delegated_at\<rparr>]\<rparr>))))"

definition delegate :: "staking_state \<Rightarrow> string \<Rightarrow> string \<Rightarrow> nat \<Rightarrow> staking_state result" where
  "delegate st delegator validator amount = delegate_at st delegator validator amount 0"

definition mature_delegated_by :: "staking_state \<Rightarrow> string \<Rightarrow> nat \<Rightarrow> nat \<Rightarrow> nat" where
  "mature_delegated_by st delegator timestamp maturity_seconds =
     foldl (\<lambda>sum p. saturating_add 128 sum (dep_amount p)) 0
       (filter (\<lambda>p. dep_delegator p = delegator
                  \<and> saturating_add 64 (dep_delegated_at p) maturity_seconds \<le> timestamp)
          (stk_delegations st))"

definition undelegate ::
  "staking_state \<Rightarrow> string \<Rightarrow> string \<Rightarrow> nat \<Rightarrow> nat \<Rightarrow> (nat \<times> staking_state) result" where
  "undelegate st delegator validator amount block_timestamp =
     (if amount = 0 then Err (EStaking ZeroUndelegation) else
      rbind (ok_or (find (is_position delegator validator) (stk_delegations st))
               (EStaking NoDelegation)) (\<lambda>p.
      if dep_amount p < amount then Err (EStaking UndelegateTooMuch) else
      let delegations = filter (\<lambda>p. dep_amount p > 0)
            (update_first (is_position delegator validator)
               (\<lambda>p. p\<lparr>dep_amount := dep_amount p - amount\<rparr>) (stk_delegations st))
      in rbind (ok_or (checked_add 64 block_timestamp UNBONDING_SECONDS) (EStaking ReleaseOverflow))
           (\<lambda>release_at.
         Ok (release_at, stk_sort (st\<lparr>
           stk_delegations := delegations,
           stk_unbonding := stk_unbonding st @
             [\<lparr>unb_delegator = delegator, unb_validator = validator, unb_amount = amount,
               unb_release_at = release_at\<rparr>]\<rparr>)))))"

definition claim :: "staking_state \<Rightarrow> string \<Rightarrow> nat \<Rightarrow> (nat \<times> staking_state) result" where
  "claim st delegator block_timestamp =
     (let due = (\<lambda>e. unb_delegator e = delegator \<and> unb_release_at e \<le> block_timestamp)
      in rbind (ok_or (checked_sum 128 (map unb_amount (filter due (stk_unbonding st))))
                  (EStaking ClaimOverflow)) (\<lambda>amount.
         if amount = 0 then Err (EStaking NothingToClaim)
         else Ok (amount, st\<lparr>stk_unbonding := filter (\<lambda>e. \<not> due e) (stk_unbonding st)\<rparr>)))"

text \<open>One of the two loops of \<^verbatim>\<open>slash\<close>: cut every selected amount and add up the cuts.\<close>

fun slash_loop ::
  "('a \<Rightarrow> bool) \<Rightarrow> ('a \<Rightarrow> nat) \<Rightarrow> (nat \<Rightarrow> 'a \<Rightarrow> 'a) \<Rightarrow> nat \<Rightarrow> nat \<Rightarrow> 'a list \<Rightarrow> (nat \<times> 'a list) result" where
  "slash_loop sel amt upd penalty_bps tot [] = Ok (tot, [])"
| "slash_loop sel amt upd penalty_bps tot (x # xs) =
     (if sel x then
        let cut = saturating_mul 128 (amt x) penalty_bps div BPS_DENOMINATOR
        in rbind (ok_or (checked_add 128 tot cut) (EStaking SlashOverflow)) (\<lambda>tot'.
           rbind (slash_loop sel amt upd penalty_bps tot' xs) (\<lambda>(t, ys).
           Ok (t, upd (amt x - cut) x # ys)))
      else
        rbind (slash_loop sel amt upd penalty_bps tot xs) (\<lambda>(t, ys). Ok (t, x # ys)))"

definition slash ::
  "staking_state \<Rightarrow> string \<Rightarrow> string \<Rightarrow> nat \<Rightarrow> (nat \<times> staking_state) result" where
  "slash st evidence_id validator penalty_bps =
     (if \<not> (1 \<le> penalty_bps \<and> penalty_bps \<le> DOUBLE_VOTE_SLASH_BPS) then Err (EStaking BadPenalty)
      else if evidence_id \<in> set (stk_applied_slashes st) then Err (EStaking DuplicateSlash)
      else
        rbind (slash_loop (\<lambda>p. dep_validator p = validator) dep_amount (\<lambda>a p. p\<lparr>dep_amount := a\<rparr>)
                 penalty_bps 0 (stk_delegations st)) (\<lambda>(total, delegations).
        rbind (slash_loop (\<lambda>e. unb_validator e = validator) unb_amount (\<lambda>a e. e\<lparr>unb_amount := a\<rparr>)
                 penalty_bps total (stk_unbonding st)) (\<lambda>(total', unbonding).
        Ok (total', \<lparr>
          stk_delegations = filter (\<lambda>p. dep_amount p > 0) delegations,
          stk_unbonding = filter (\<lambda>e. unb_amount e > 0) unbonding,
          stk_applied_slashes = sort (stk_applied_slashes st @ [evidence_id])\<rparr>))))"

definition slash_event_id :: "ext \<Rightarrow> double_vote_evidence \<Rightarrow> string" where
  "slash_event_id E evidence =
     ''ieum-slash-v1-'' @ hex_encode E (sha256 E (json_evidence E evidence))"

definition reward_event_id :: "nat \<Rightarrow> string" where
  "reward_event_id timestamp = ''ieum-delegation-reward-v1-'' @ decimal (kst_day timestamp)"

fun stake_totals :: "delegation_position list \<Rightarrow> (string \<times> nat) list \<Rightarrow> (string \<times> nat) list" where
  "stake_totals [] totals = totals"
| "stake_totals (p # ps) totals =
     stake_totals ps
       (bt_entry (dep_delegator p) 0 (\<lambda>e. saturating_add 128 e (dep_amount p)) totals)"

definition delegation_due :: "nat \<Rightarrow> string \<times> nat \<Rightarrow> nat" where
  "delegation_due rate ab =
     (let raw = saturating_mul 128 (snd ab) rate div 10000 div 365
      in saturating_add 128 raw 500000 div 1000000 * 1000000)"

fun rewards_loop :: "nat \<Rightarrow> nat \<Rightarrow> (string \<times> nat) list \<Rightarrow> event_payment list" where
  "rewards_loop rate remaining [] = []"
| "rewards_loop rate remaining ((address, stake) # rest) =
     (if remaining = 0 then []
      else let amount = min (delegation_due rate (address, stake)) remaining
           in if amount > 0
              then \<lparr>pay_address = address, pay_amount = amount\<rparr>
                     # rewards_loop rate (remaining - amount) rest
              else rewards_loop rate remaining rest)"

definition calculate_rewards :: "staking_state \<Rightarrow> nat \<Rightarrow> nat \<Rightarrow> event_payment list" where
  "calculate_rewards st annual_rate_bps maximum_daily_total =
     rewards_loop annual_rate_bps maximum_daily_total (stake_totals (stk_delegations st) [])"

interpretation delegation: capped_payout "rewards_loop rate" "delegation_due rate" fst for rate
proof
  fix r :: nat and x :: "string \<times> nat" and xs
  have none: "rewards_loop rate 0 ys = []" for ys by (cases ys) auto
  show "rewards_loop rate r (x # xs) =
      (if min (delegation_due rate x) r = 0 then rewards_loop rate r xs
       else \<lparr>pay_address = fst x, pay_amount = min (delegation_due rate x) r\<rparr>
              # rewards_loop rate (r - min (delegation_due rate x) r) xs)"
    by (cases x; cases "r = 0") (auto simp: none Let_def)
qed simp

subsection \<open>Conservation\<close>

definition stake_delegated :: "staking_state \<Rightarrow> nat" where
  "stake_delegated st = sum_list (map dep_amount (stk_delegations st))"

definition stake_unbonding :: "staking_state \<Rightarrow> nat" where
  "stake_unbonding st = sum_list (map unb_amount (stk_unbonding st))"

definition stake_total :: "staking_state \<Rightarrow> nat" where
  "stake_total st = stake_delegated st + stake_unbonding st"

lemma stake_total_default [simp]: "stake_total staking_default = 0"
  by (simp add: stake_total_def stake_delegated_def stake_unbonding_def staking_default_def)

lemma stake_total_sort [simp]: "stake_total (stk_sort st) = stake_total st"
  by (simp add: stake_total_def stake_delegated_def stake_unbonding_def stk_sort_def)

lemma delegate_at_total:
  assumes "delegate_at st d v a t = Ok st'"
  shows "stake_total st' = stake_total st + a"
proof (cases "find (is_position d v) (stk_delegations st)")
  case None
  with assms show ?thesis
    by (auto simp: delegate_at_def stake_total_def stake_delegated_def stake_unbonding_def
        stk_sort_def)
next
  case (Some p)
  have "sum_list (map dep_amount (update_first (is_position d v)
          (\<lambda>q. q\<lparr>dep_amount := dep_amount p + a, dep_delegated_at := max (dep_delegated_at q) t\<rparr>)
          (stk_delegations st))) = sum_list (map dep_amount (stk_delegations st)) + a"
    using update_first_sum [OF Some, of dep_amount
        "\<lambda>q. q\<lparr>dep_amount := dep_amount p + a, dep_delegated_at := max (dep_delegated_at q) t\<rparr>"]
    by simp
  with assms Some show ?thesis
    by (auto simp: delegate_at_def stake_total_def stake_delegated_def stake_unbonding_def
        stk_sort_def)
qed

lemma undelegate_total:
  assumes "undelegate st d v a t = Ok (r, st')"
  shows "stake_total st' = stake_total st"
proof -
  from assms obtain p where p: "find (is_position d v) (stk_delegations st) = Some p"
    and le: "a \<le> dep_amount p"
    by (auto simp: undelegate_def Let_def split: if_splits)
  let ?ds = "update_first (is_position d v) (\<lambda>p. p\<lparr>dep_amount := dep_amount p - a\<rparr>)
    (stk_delegations st)"
  have "sum_list (map dep_amount ?ds) + a = sum_list (map dep_amount (stk_delegations st))"
    using update_first_sum [OF p, of dep_amount "\<lambda>p. p\<lparr>dep_amount := dep_amount p - a\<rparr>"] le
    by simp
  moreover have "stake_total st' = sum_list (map dep_amount (filter (\<lambda>p. dep_amount p > 0) ?ds))
      + stake_unbonding st + a"
    using assms p le
    by (auto simp: undelegate_def Let_def stake_total_def stake_delegated_def stake_unbonding_def
        stk_sort_def split: if_splits)
  ultimately show ?thesis
    by (simp add: sum_list_filter_zero stake_total_def stake_delegated_def)
qed

lemma claim_total:
  assumes "claim st d t = Ok (a, st')"
  shows "stake_total st' + a = stake_total st"
proof -
  let ?due = "\<lambda>e. unb_delegator e = d \<and> unb_release_at e \<le> t"
  from assms have "a = sum_list (map unb_amount (filter ?due (stk_unbonding st)))"
    and "st' = st\<lparr>stk_unbonding := filter (\<lambda>e. \<not> ?due e) (stk_unbonding st)\<rparr>"
    by (auto simp: claim_def Let_def dest: checked_sum_Some split: if_splits)
  with sum_list_partition [of unb_amount ?due "stk_unbonding st"] show ?thesis
    by (simp add: stake_total_def stake_delegated_def stake_unbonding_def)
qed

lemma slash_loop_total:
  assumes "\<And>a x. amt (upd a x) = a"
    and "slash_loop sel amt upd b t xs = Ok (t', ys)" and "b \<le> BPS_DENOMINATOR"
  shows "sum_list (map amt ys) + t' = sum_list (map amt xs) + t"
  using assms(2)
proof (induction xs arbitrary: t ys)
  case (Cons x xs)
  have "saturating_mul 128 (amt x) b div BPS_DENOMINATOR \<le> amt x"
  proof -
    have "saturating_mul 128 (amt x) b \<le> amt x * BPS_DENOMINATOR"
      using saturating_mul_le [of 128 "amt x" b] mult_le_mono2 [OF assms(3), of "amt x"] by linarith
    then show ?thesis by (simp add: BPS_DENOMINATOR_def)
  qed
  with Cons show ?case by (fastforce simp: Let_def assms(1) split: if_splits prod.splits)
qed simp

lemma slash_total:
  assumes "slash st i v b = Ok (a, st')"
  shows "stake_total st' + a = stake_total st"
proof -
  from assms have "b \<le> BPS_DENOMINATOR"
    by (auto simp: slash_def DOUBLE_VOTE_SLASH_BPS_def BPS_DENOMINATOR_def split: if_splits)
  with assms show ?thesis
    by (auto simp: slash_def stake_total_def stake_delegated_def stake_unbonding_def
        sum_list_filter_zero split: if_splits prod.splits dest!: slash_loop_total [rotated])
qed

subsection \<open>The invariant\<close>

abbreviation position_key :: "delegation_position \<Rightarrow> string \<times> string" where
  "position_key \<equiv> (\<lambda>p. (dep_delegator p, dep_validator p))"

abbreviation entry_key :: "unbonding_entry \<Rightarrow> nat \<times> string \<times> string" where
  "entry_key \<equiv> (\<lambda>e. (unb_release_at e, unb_delegator e, unb_validator e))"

definition amount_ok :: "nat \<Rightarrow> bool" where
  "amount_ok a \<longleftrightarrow> 0 < a \<and> a < 2 ^ 128"

definition staking_inv :: "staking_state \<Rightarrow> bool" where
  "staking_inv st \<longleftrightarrow>
     distinct (map position_key (stk_delegations st))
     \<and> sorted (map position_key (stk_delegations st))
     \<and> list_all (\<lambda>p. amount_ok (dep_amount p)) (stk_delegations st)
     \<and> sorted (map entry_key (stk_unbonding st))
     \<and> list_all (\<lambda>e. amount_ok (unb_amount e)) (stk_unbonding st)
     \<and> distinct (stk_applied_slashes st) \<and> sorted (stk_applied_slashes st)"

text \<open>Every change of the staking state made by the ledger is one of these steps.\<close>

inductive staking_step :: "staking_state \<Rightarrow> staking_state \<Rightarrow> bool" where
  step_delegate: "delegate_at st d v a t = Ok st' \<Longrightarrow> a < 2 ^ 128 \<Longrightarrow> staking_step st st'"
| step_undelegate: "undelegate st d v a t = Ok (r, st') \<Longrightarrow> staking_step st st'"
| step_claim: "claim st d t = Ok (a, st') \<Longrightarrow> staking_step st st'"
| step_slash: "slash st i v b = Ok (a, st') \<Longrightarrow> staking_step st st'"

lemma staking_inv_default: "staking_inv staking_default"
  by (simp add: staking_inv_def staking_default_def)

lemma find_position_None:
  "find (is_position d v) ps = None \<longleftrightarrow> (d, v) \<notin> set (map position_key ps)"
  by (auto simp: find_None_iff)

lemma sort_position_keys:
  "sorted (map position_key (sort_key position_key ps))"
  "sorted (map entry_key (sort_key entry_key es))"
  by (rule sorted_sort_key)+

lemma delegate_at_inv:
  assumes "delegate_at st d v a t = Ok st'" and "a < 2 ^ 128" and "staking_inv st"
  shows "staking_inv st'"
proof (cases "find (is_position d v) (stk_delegations st)")
  case None
  with assms have "0 < a" and st': "st' = stk_sort (st\<lparr>stk_delegations := stk_delegations st @
      [\<lparr>dep_delegator = d, dep_validator = v, dep_amount = a, dep_delegated_at = t\<rparr>]\<rparr>)"
    by (auto simp: delegate_at_def MINIMUM_DELEGATION_def)
  with assms(2,3) None show ?thesis
    unfolding find_position_None st'
    by (simp add: staking_inv_def stk_sort_def amount_ok_def list_all_iff sort_position_keys)
next
  case (Some p)
  let ?f = "\<lambda>q. q\<lparr>dep_amount := dep_amount p + a, dep_delegated_at := max (dep_delegated_at q) t\<rparr>"
  let ?ds = "update_first (is_position d v) ?f (stk_delegations st)"
  from Some assms have "0 < a" and "dep_amount p + a < 2 ^ 128"
    and st': "st' = stk_sort (st\<lparr>stk_delegations := ?ds\<rparr>)"
    by (auto simp: delegate_at_def MINIMUM_DELEGATION_def)
  moreover have "map position_key ?ds = map position_key (stk_delegations st)"
    by (rule update_first_map) simp
  moreover have "set ?ds \<subseteq> insert (?f p) (set (stk_delegations st))"
    using Some by (rule update_first_set)
  ultimately show ?thesis
    using assms(3) unfolding st'
    by (auto simp: staking_inv_def stk_sort_def amount_ok_def list_all_iff sort_position_keys)
qed

lemma undelegate_inv:
  assumes "undelegate st d v a t = Ok (r, st')" and "staking_inv st"
  shows "staking_inv st'"
proof -
  let ?f = "\<lambda>p. p\<lparr>dep_amount := dep_amount p - a\<rparr>"
  let ?ds = "update_first (is_position d v) ?f (stk_delegations st)"
  from assms obtain p where p: "find (is_position d v) (stk_delegations st) = Some p"
    and a: "0 < a" "a \<le> dep_amount p"
    and st': "st' = stk_sort (st\<lparr>stk_delegations := filter (\<lambda>p. dep_amount p > 0) ?ds,
      stk_unbonding := stk_unbonding st @ [\<lparr>unb_delegator = d, unb_validator = v,
        unb_amount = a, unb_release_at = r\<rparr>]\<rparr>)"
    by (auto simp: undelegate_def Let_def split: if_splits)
  have keys: "map position_key ?ds = map position_key (stk_delegations st)"
    by (rule update_first_map) simp
  have mem: "set ?ds \<subseteq> insert (?f p) (set (stk_delegations st))"
    using p by (rule update_first_set)
  have "amount_ok (dep_amount p)"
    using find_Some_in [OF p] assms(2) by (auto simp: staking_inv_def list_all_iff)
  then have "a < 2 ^ 128" and small: "dep_amount (?f p) < 2 ^ 128"
    using a by (auto simp: amount_ok_def)
  moreover have "list_all (\<lambda>p. amount_ok (dep_amount p)) (filter (\<lambda>p. dep_amount p > 0) ?ds)"
    using mem small assms(2) by (auto simp: staking_inv_def list_all_iff amount_ok_def)
  moreover have "distinct (map position_key (filter (\<lambda>p. dep_amount p > 0) ?ds))"
    by (rule distinct_map_filter) (use keys assms(2) in \<open>simp add: staking_inv_def\<close>)
  ultimately show ?thesis
    using assms(2) a(1) unfolding st'
    by (simp add: staking_inv_def stk_sort_def sort_position_keys list_all_iff amount_ok_def)
qed

lemma claim_inv:
  assumes "claim st d t = Ok (a, st')" and "staking_inv st"
  shows "staking_inv st'"
  using assms
  by (auto simp: claim_def Let_def staking_inv_def list_all_iff sorted_filter split: if_splits)

lemma slash_loop_keys:
  assumes "\<And>a x. key (upd a x) = key x"
    and "slash_loop sel amt upd b t xs = Ok (t', ys)"
  shows "map key ys = map key xs"
  using assms(2) by (induction xs arbitrary: t ys) (auto simp: Let_def assms(1) split: if_splits prod.splits)

lemma slash_loop_bound:
  assumes "\<And>a x. amt (upd a x) = a"
    and "slash_loop sel amt upd b t xs = Ok (t', ys)"
    and "list_all (\<lambda>x. amt x < m) xs"
  shows "list_all (\<lambda>x. amt x < m) ys"
  using assms(2,3)
  by (induction xs arbitrary: t ys)
    (auto simp: Let_def assms(1) split: if_splits prod.splits intro: less_imp_diff_less)

lemma slash_inv:
  assumes "slash st i v b = Ok (a, st')" and "staking_inv st"
  shows "staking_inv st'"
proof -
  from assms(1) obtain t ds us where
    ds: "slash_loop (\<lambda>p. dep_validator p = v) dep_amount (\<lambda>a p. p\<lparr>dep_amount := a\<rparr>) b 0
           (stk_delegations st) = Ok (t, ds)"
    and us: "slash_loop (\<lambda>e. unb_validator e = v) unb_amount (\<lambda>a e. e\<lparr>unb_amount := a\<rparr>) b t
           (stk_unbonding st) = Ok (a, us)"
    and fresh: "i \<notin> set (stk_applied_slashes st)"
    and st': "st' = \<lparr>stk_delegations = filter (\<lambda>p. dep_amount p > 0) ds,
          stk_unbonding = filter (\<lambda>e. unb_amount e > 0) us,
          stk_applied_slashes = sort (stk_applied_slashes st @ [i])\<rparr>"
    by (auto simp: slash_def split: if_splits prod.splits)
  have keys: "map position_key ds = map position_key (stk_delegations st)"
    "map entry_key us = map entry_key (stk_unbonding st)"
    using slash_loop_keys [OF _ ds, of position_key] slash_loop_keys [OF _ us, of entry_key] by auto
  have bounds: "list_all (\<lambda>p. dep_amount p < 2 ^ 128) ds" "list_all (\<lambda>e. unb_amount e < 2 ^ 128) us"
    using slash_loop_bound [OF _ ds, of "2 ^ 128"] slash_loop_bound [OF _ us, of "2 ^ 128"] assms(2)
    by (auto simp: staking_inv_def amount_ok_def list_all_iff)
  show ?thesis
    using assms(2) keys bounds fresh unfolding st'
    by (auto simp: staking_inv_def amount_ok_def list_all_iff intro!: sorted_filter distinct_map_filter)
qed

lemma staking_step_inv: "staking_step st st' \<Longrightarrow> staking_inv st \<Longrightarrow> staking_inv st'"
  by (cases rule: staking_step.cases)
    (auto intro: delegate_at_inv undelegate_inv claim_inv slash_inv)

interpretation staking: safety "\<lambda>st. st = staking_default" staking_step staking_inv
  by unfold_locales (auto intro: staking_inv_default staking_step_inv)

text \<open>
  C28.  Whatever sequence of delegations, undelegations, claims and slashes the ledger runs from
  the empty staking state, there is at most one position per delegator and validator, every
  position and every unbonding entry holds a positive amount within 128 bits, the lists stay in
  the order the state hash is computed in, and no slash is recorded twice.
\<close>

theorem staking_reachable_inv:
  assumes "staking_step\<^sup>*\<^sup>* staking_default st"
  shows "staking_inv st"
  using assms staking.inv_reachable by blast

text \<open>A delegation of two coins to a 64-digit validator key is such a sequence.\<close>

definition sample_validator :: string where
  "sample_validator = replicate 64 (CHR ''1'')"

definition sample_stake :: staking_state where
  "sample_stake = \<lparr>stk_delegations = [\<lparr>dep_delegator = ''alice'', dep_validator = sample_validator,
     dep_amount = 2000000000000000000, dep_delegated_at = 5\<rparr>], stk_unbonding = [],
     stk_applied_slashes = []\<rparr>"

lemma sample_delegation:
  "delegate_at staking_default ''alice'' sample_validator 2000000000000000000 5 = Ok sample_stake"
proof -
  have "length ''alice'' \<noteq> length sample_validator" by (simp add: sample_validator_def)
  then have "''alice'' \<noteq> sample_validator" by metis
  moreover have "validate_validator sample_validator = Ok ()"
    by (simp add: validate_validator_def sample_validator_def is_ascii_hexdigit_def list_all_iff)
  ultimately show ?thesis
    by (simp add: delegate_at_def staking_default_def MINIMUM_DELEGATION_def stk_sort_def
        sample_stake_def)
qed

theorem staking_reachable_inv_witness: "staking_inv sample_stake"
proof (rule staking_reachable_inv)
  show "staking_step\<^sup>*\<^sup>* staking_default sample_stake"
    by (rule r_into_rtranclp, rule step_delegate [OF sample_delegation]) simp
qed

subsection \<open>The unbonding period\<close>

lemma undelegate_entry:
  assumes "undelegate st d v a t = Ok (r, st')"
  shows "r = t + UNBONDING_SECONDS"
    and "\<lparr>unb_delegator = d, unb_validator = v, unb_amount = a, unb_release_at = r\<rparr>
           \<in> set (stk_unbonding st')"
    and "0 < a"
  using assms by (auto simp: undelegate_def Let_def stk_sort_def split: if_splits)

lemma claim_keeps_locked:
  assumes "claim st d t = Ok (c, st')" and "e \<in> set (stk_unbonding st)" and "t < unb_release_at e"
  shows "e \<in> set (stk_unbonding st')"
  using assms by (auto simp: claim_def Let_def split: if_splits)

lemma claim_succeeds:
  assumes "e \<in> set (stk_unbonding st)" and "unb_delegator e = d" and "unb_release_at e \<le> t"
    and "0 < unb_amount e" and "stake_unbonding st < 2 ^ 128"
  obtains c st' where "claim st d t = Ok (c, st')" and "unb_amount e \<le> c"
proof -
  let ?due = "\<lambda>e. unb_delegator e = d \<and> unb_release_at e \<le> t"
  let ?c = "sum_list (map unb_amount (filter ?due (stk_unbonding st)))"
  have "?c \<le> stake_unbonding st"
    using sum_list_partition [of unb_amount ?due "stk_unbonding st"]
    by (simp add: stake_unbonding_def)
  with assms(5) have "checked_sum 128 (map unb_amount (filter ?due (stk_unbonding st))) = Some ?c"
    by (intro checked_sum_complete) linarith
  moreover have "unb_amount e \<le> ?c"
    using assms(1-3) by (intro member_le_sum_list) auto
  moreover from this assms(4) have "?c \<noteq> 0" by linarith
  ultimately have "claim st d t =
      Ok (?c, st\<lparr>stk_unbonding := filter (\<lambda>e. \<not> ?due e) (stk_unbonding st)\<rparr>)"
    by (simp only: claim_def Let_def ok_or.simps rbind.simps if_False)
  with \<open>unb_amount e \<le> ?c\<close> that show thesis by blast
qed

text \<open>
  C29.  Undelegated money is locked for seven days: the entry an undelegation creates is released
  exactly \<open>UNBONDING_SECONDS\<close> after the block's timestamp, no claim at an earlier time removes
  it, and a claim of its owner at the release time succeeds and pays at least its amount.
\<close>

theorem unbonding_is_locked:
  assumes "undelegate st d v a t = Ok (r, st1)" and "stake_unbonding st1 < 2 ^ 128"
  shows "r = t + UNBONDING_SECONDS
    \<and> (\<forall>d' t' c st2. t' < r \<longrightarrow> claim st1 d' t' = Ok (c, st2) \<longrightarrow>
         \<lparr>unb_delegator = d, unb_validator = v, unb_amount = a, unb_release_at = r\<rparr>
           \<in> set (stk_unbonding st2))
    \<and> (\<exists>c st2. claim st1 d r = Ok (c, st2) \<and> a \<le> c)"
proof -
  let ?e = "\<lparr>unb_delegator = d, unb_validator = v, unb_amount = a, unb_release_at = r\<rparr>"
  note entry = undelegate_entry [OF assms(1)]
  obtain c st2 where "claim st1 d r = Ok (c, st2)" and "a \<le> c"
    using claim_succeeds [of ?e st1 d r] entry assms(2) by auto
  moreover have "?e \<in> set (stk_unbonding st2)"
    if "t' < r" and "claim st1 d' t' = Ok (c, st2)" for d' t' c st2
    using claim_keeps_locked [OF that(2) entry(2)] that(1) by simp
  ultimately show ?thesis using entry(1) by blast
qed

definition sample_unbonding :: staking_state where
  "sample_unbonding = \<lparr>stk_delegations = [\<lparr>dep_delegator = ''alice'', dep_validator = sample_validator,
     dep_amount = 1999999999999999993, dep_delegated_at = 5\<rparr>],
     stk_unbonding = [\<lparr>unb_delegator = ''alice'', unb_validator = sample_validator, unb_amount = 7,
       unb_release_at = 604900\<rparr>],
     stk_applied_slashes = []\<rparr>"

lemma sample_undelegation:
  "undelegate sample_stake ''alice'' sample_validator 7 100 = Ok (604900, sample_unbonding)"
  by (simp add: undelegate_def sample_stake_def sample_unbonding_def stk_sort_def checked_add_def
      UNBONDING_SECONDS_def)

theorem unbonding_is_locked_witness:
  "(604900 :: nat) = 100 + UNBONDING_SECONDS
    \<and> (\<exists>c st2. claim sample_unbonding ''alice'' 604900 = Ok (c, st2) \<and> 7 \<le> c)"
proof -
  have "stake_unbonding sample_unbonding < 2 ^ 128"
    by (simp add: stake_unbonding_def sample_unbonding_def)
  from unbonding_is_locked [OF sample_undelegation this] show ?thesis by blast
qed

subsection \<open>Slashing\<close>

definition slash_cut :: "nat \<Rightarrow> nat \<Rightarrow> nat" where
  "slash_cut penalty_bps a = a * penalty_bps div BPS_DENOMINATOR"

lemma slash_loop_exact:
  assumes "\<forall>x \<in> set xs. amt x * b < 2 ^ 128"
    and "tot + sum_list (map (\<lambda>x. slash_cut b (amt x)) (filter sel xs)) < 2 ^ 128"
  shows "slash_loop sel amt upd b tot xs =
    Ok (tot + sum_list (map (\<lambda>x. slash_cut b (amt x)) (filter sel xs)),
        map (\<lambda>x. if sel x then upd (amt x - slash_cut b (amt x)) x else x) xs)"
  using assms
proof (induction xs arbitrary: tot)
  case (Cons x xs)
  then show ?case
    by (cases "sel x")
      (simp_all add: saturating_mul_exact slash_cut_def checked_add_def Let_def add.assoc)
qed simp

lemma slash_cut_le: "b \<le> BPS_DENOMINATOR \<Longrightarrow> slash_cut b a \<le> a"
proof -
  assume "b \<le> BPS_DENOMINATOR"
  then have "a * b div BPS_DENOMINATOR \<le> a * BPS_DENOMINATOR div BPS_DENOMINATOR"
    by (intro div_le_mono mult_le_mono2)
  then show ?thesis by (simp add: slash_cut_def BPS_DENOMINATOR_def)
qed

lemma slash_cuts_le:
  assumes "b \<le> BPS_DENOMINATOR"
  shows "sum_list (map (\<lambda>x. slash_cut b (amt x)) (filter sel xs)) \<le> sum_list (map amt xs)"
proof (induction xs)
  case (Cons x xs)
  with slash_cut_le [OF assms, of "amt x"] show ?case by simp
qed simp

text \<open>
  A slash takes exactly the configured share of every delegation to the offending validator
  and of every entry that is still unbonding from it, leaves every other position alone, reports
  the sum of the cuts, and records the evidence; while the stake is within a five-hundredth of
  the 128-bit range (the supply cap keeps it far below) it cannot fail on fresh evidence.
\<close>

theorem slash_exact:
  assumes "1 \<le> b" and "b \<le> DOUBLE_VOTE_SLASH_BPS" and "i \<notin> set (stk_applied_slashes st)"
    and "stake_total st * DOUBLE_VOTE_SLASH_BPS < 2 ^ 128"
  shows "slash st i v b = Ok
    (sum_list (map (\<lambda>p. slash_cut b (dep_amount p))
       (filter (\<lambda>p. dep_validator p = v) (stk_delegations st)))
     + sum_list (map (\<lambda>e. slash_cut b (unb_amount e))
       (filter (\<lambda>e. unb_validator e = v) (stk_unbonding st))),
     \<lparr>stk_delegations = filter (\<lambda>p. dep_amount p > 0)
        (map (\<lambda>p. if dep_validator p = v
                  then p\<lparr>dep_amount := dep_amount p - slash_cut b (dep_amount p)\<rparr> else p)
          (stk_delegations st)),
      stk_unbonding = filter (\<lambda>e. unb_amount e > 0)
        (map (\<lambda>e. if unb_validator e = v
                  then e\<lparr>unb_amount := unb_amount e - slash_cut b (unb_amount e)\<rparr> else e)
          (stk_unbonding st)),
      stk_applied_slashes = sort (stk_applied_slashes st @ [i])\<rparr>)"
proof -
  have b: "b \<le> BPS_DENOMINATOR"
    using assms(2) by (simp add: DOUBLE_VOTE_SLASH_BPS_def BPS_DENOMINATOR_def)
  have small: "a * b < 2 ^ 128" if "a \<le> stake_total st" for a
    using mult_le_mono [OF that assms(2)] assms(4) by (rule le_less_trans)
  have "stake_total st \<le> stake_total st * DOUBLE_VOTE_SLASH_BPS"
    by (simp add: DOUBLE_VOTE_SLASH_BPS_def)
  from this assms(4) have tot: "stake_total st < 2 ^ 128" by (rule le_less_trans)
  have "dep_amount p \<le> stake_total st" if "p \<in> set (stk_delegations st)" for p
    using member_le_sum_list [of "dep_amount p" "map dep_amount (stk_delegations st)"] that
    by (simp add: stake_total_def stake_delegated_def)
  then have ds: "\<forall>p \<in> set (stk_delegations st). dep_amount p * b < 2 ^ 128"
    using small by blast
  have "unb_amount e \<le> stake_total st" if "e \<in> set (stk_unbonding st)" for e
    using member_le_sum_list [of "unb_amount e" "map unb_amount (stk_unbonding st)"] that
    by (simp add: stake_total_def stake_unbonding_def)
  then have us: "\<forall>e \<in> set (stk_unbonding st). unb_amount e * b < 2 ^ 128"
    using small by blast
  note cuts = slash_cuts_le [OF b, of dep_amount "\<lambda>p. dep_validator p = v" "stk_delegations st"]
    slash_cuts_le [OF b, of unb_amount "\<lambda>e. unb_validator e = v" "stk_unbonding st"]
  show ?thesis
    using assms(1-3) tot cuts
    by (simp add: slash_def slash_loop_exact [OF ds] slash_loop_exact [OF us] stake_total_def
        stake_delegated_def stake_unbonding_def)
qed

theorem slash_exact_witness:
  "slash sample_unbonding ''proof'' sample_validator 500 = Ok (99999999999999999,
     \<lparr>stk_delegations = [\<lparr>dep_delegator = ''alice'', dep_validator = sample_validator,
        dep_amount = 1899999999999999994, dep_delegated_at = 5\<rparr>],
      stk_unbonding = [\<lparr>unb_delegator = ''alice'', unb_validator = sample_validator, unb_amount = 7,
        unb_release_at = 604900\<rparr>],
      stk_applied_slashes = [''proof'']\<rparr>)"
proof -
  have "stake_total sample_unbonding * DOUBLE_VOTE_SLASH_BPS < 2 ^ 128"
    by (simp add: stake_total_def stake_delegated_def stake_unbonding_def sample_unbonding_def
        DOUBLE_VOTE_SLASH_BPS_def)
  from slash_exact [OF _ _ _ this, of 500 "''proof''" sample_validator] show ?thesis
    by (simp add: sample_unbonding_def DOUBLE_VOTE_SLASH_BPS_def slash_cut_def BPS_DENOMINATOR_def)
qed

subsection \<open>Delegation rewards\<close>

lemma stake_totals_sorted: "bt_sorted m \<Longrightarrow> bt_sorted (stake_totals ps m)"
  by (induction ps m rule: stake_totals.induct) (simp_all add: bt_entry_sorted)

text \<open>
  A day's delegation rewards stay within the daily maximum, pay every delegator at most
  once and never pay zero.
\<close>

theorem delegation_rewards_capped:
  "sum_list (map pay_amount (calculate_rewards st rate cap)) \<le> cap
   \<and> distinct (map pay_address (calculate_rewards st rate cap))
   \<and> list_all (\<lambda>p. 0 < pay_amount p) (calculate_rewards st rate cap)"
proof -
  have "distinct (map fst (stake_totals (stk_delegations st) []))"
    by (intro bt_sorted_distinct stake_totals_sorted) simp
  then show ?thesis
    unfolding calculate_rewards_def list_all_iff
    using delegation.pay_within_cap delegation.pay_distinct delegation.pay_positive by blast
qed

end
