(* ===== verification/Wallet.thy ===== *)
theory Wallet
  imports Model
begin

text \<open>
  Keys and signatures: \<^verbatim>\<open>src/src/wallet.rs\<close> (Ed25519 wallets, used by validators and native
  accounts) and the account half of \<^verbatim>\<open>src/src/account.rs\<close> (secp256k1 accounts with Ethereum
  addresses).  A wallet is its 32-byte signing key.
\<close>

subsection \<open>Ed25519 wallets\<close>

record wallet =
  wal_signing_key :: "u8 list"

definition wallet_from_seed :: "u8 list \<Rightarrow> wallet" where
  "wallet_from_seed seed = \<lparr>wal_signing_key = seed\<rparr>"

definition wallet_address :: "ext \<Rightarrow> wallet \<Rightarrow> string" where
  "wallet_address E w = hex_encode E (ed25519_public E (wal_signing_key w))"

definition wallet_sign_bytes :: "ext \<Rightarrow> wallet \<Rightarrow> u8 list \<Rightarrow> string" where
  "wallet_sign_bytes E w message = hex_encode E (ed25519_sign E (wal_signing_key w) message)"

definition wallet_sign_action ::
  "ext \<Rightarrow> wallet \<Rightarrow> string \<Rightarrow> nat \<Rightarrow> nat \<Rightarrow> nat \<Rightarrow> transaction_action \<Rightarrow> transaction" where
  "wallet_sign_action E w to amount fee nonce action =
     (let tx = \<lparr>tx_from = wallet_address E w, tx_to = to, tx_amount = amount, tx_fee = fee,
                tx_nonce = nonce, tx_action = action, tx_signature = []\<rparr>
      in tx\<lparr>tx_signature := wallet_sign_bytes E w (signing_bytes tx)\<rparr>)"

definition wallet_sign_transfer ::
  "ext \<Rightarrow> wallet \<Rightarrow> string \<Rightarrow> nat \<Rightarrow> nat \<Rightarrow> nat \<Rightarrow> transaction" where
  "wallet_sign_transfer E w to amount fee nonce =
     wallet_sign_action E w to amount fee nonce Transfer"

definition verify_signature :: "ext \<Rightarrow> string \<Rightarrow> u8 list \<Rightarrow> string \<Rightarrow> unit result" where
  "verify_signature E address message signature =
     rbind (ok_or (hex_decode E address) (EWallet AddressNotHex)) (\<lambda>public_key.
     if length public_key \<noteq> 32 then Err (EWallet AddressLength) else
     rbind (ok_or (hex_decode E signature) (EWallet SignatureNotHex)) (\<lambda>signature_bytes.
     if length signature_bytes \<noteq> 64 then Err (EWallet SignatureLength) else
     if \<not> ed25519_key_ok E public_key then Err (EWallet BadPublicKey) else
     if \<not> ed25519_verify E public_key message signature_bytes then Err (EWallet SignatureMismatch)
     else Ok ()))"

subsection \<open>Secp256k1 accounts\<close>

record account_wallet =
  acc_signing_key :: "u8 list"

definition ethereum_address :: "ext \<Rightarrow> u8 list \<Rightarrow> string" where
  "ethereum_address E point = ''0x'' @ hex_encode E (drop 12 (keccak256 E (drop 1 point)))"

definition account_normalize_address :: "string \<Rightarrow> string" where
  "account_normalize_address address = ''0x'' @ to_ascii_lowercase (trim_0x address)"

definition account_from_private_key :: "ext \<Rightarrow> u8 list \<Rightarrow> account_wallet result" where
  "account_from_private_key E bytes =
     (if secp_key_ok E bytes then Ok \<lparr>acc_signing_key = bytes\<rparr> else Err (EWallet BadAccountKey))"

definition account_from_private_key_hex :: "ext \<Rightarrow> string \<Rightarrow> account_wallet result" where
  "account_from_private_key_hex E value =
     rbind (ok_or (hex_decode E (trim_0x value)) (EWallet AddressNotHex)) (\<lambda>bytes.
     if length bytes \<noteq> 32 then Err (EWallet AddressLength)
     else account_from_private_key E bytes)"

definition account_address :: "ext \<Rightarrow> account_wallet \<Rightarrow> string" where
  "account_address E w = ethereum_address E (secp_public E (acc_signing_key w))"

definition account_sign_bytes :: "ext \<Rightarrow> account_wallet \<Rightarrow> u8 list \<Rightarrow> string" where
  "account_sign_bytes E w message =
     hex_encode E (secp_public E (acc_signing_key w) @ secp_sign E (acc_signing_key w) message)"

definition account_sign_action ::
  "ext \<Rightarrow> account_wallet \<Rightarrow> string \<Rightarrow> nat \<Rightarrow> nat \<Rightarrow> nat \<Rightarrow> transaction_action \<Rightarrow> transaction" where
  "account_sign_action E w to amount fee nonce action =
     (let tx = \<lparr>tx_from = account_address E w, tx_to = to, tx_amount = amount, tx_fee = fee,
                tx_nonce = nonce, tx_action = action, tx_signature = []\<rparr>
      in tx\<lparr>tx_signature := account_sign_bytes E w (signing_bytes tx)\<rparr>)"

definition verify_account_signature :: "ext \<Rightarrow> string \<Rightarrow> u8 list \<Rightarrow> string \<Rightarrow> unit result" where
  "verify_account_signature E address message encoded_signature =
     rbind (ok_or (hex_decode E encoded_signature) (EWallet SignatureNotHex)) (\<lambda>bytes.
     if length bytes \<noteq> 129 then Err (EWallet AccountSignatureLength) else
     rbind (ok_or (secp_point E (take 65 bytes)) (EWallet BadAccountKey)) (\<lambda>point.
     if ethereum_address E point \<noteq> account_normalize_address address
     then Err (EWallet AccountAddressMismatch) else
     if \<not> secp_signature_ok E (drop 65 bytes) then Err (EWallet BadAccountSignature) else
     if \<not> secp_verify E point message (drop 65 bytes) then Err (EWallet SignatureMismatch)
     else Ok ()))"

subsection \<open>Transactions\<close>

definition verify_transaction :: "ext \<Rightarrow> transaction \<Rightarrow> unit result" where
  "verify_transaction E tx =
     (if starts_with (tx_signature tx) ''ethraw:'' then Ok ()
      else if starts_with (tx_from tx) ''0x''
      then verify_account_signature E (tx_from tx) (signing_bytes tx) (tx_signature tx)
      else verify_signature E (tx_from tx) (signing_bytes tx) (tx_signature tx))"

subsection \<open>Documented behaviour of the crates\<close>

text \<open>\<^verbatim>\<open>hex\<close>: encoding writes lower-case hexadecimal digits, and decoding reverses it.\<close>

definition lower_hex :: "char \<Rightarrow> bool" where
  "lower_hex c = (is_ascii_hexdigit c \<and> to_lower_char c = c)"

definition hex_laws :: "ext \<Rightarrow> bool" where
  "hex_laws E \<longleftrightarrow> (\<forall>bs. hex_decode E (hex_encode E bs) = Some bs)
     \<and> (\<forall>bs. list_all lower_hex (hex_encode E bs))"

text \<open>\<^verbatim>\<open>ed25519-dalek\<close>: key and signature sizes, and that what a key signs its public key verifies.\<close>

definition ed25519_laws :: "ext \<Rightarrow> bool" where
  "ed25519_laws E \<longleftrightarrow>
     (\<forall>k m. length k = 32 \<longrightarrow>
        length (ed25519_public E k) = 32 \<and> ed25519_key_ok E (ed25519_public E k)
        \<and> length (ed25519_sign E k m) = 64
        \<and> ed25519_verify E (ed25519_public E k) m (ed25519_sign E k m))"

lemma toy_hex_value_digit: "n < 16 \<Longrightarrow> toy_hex_value (toy_hex_digit n) = Some n"
  by (auto simp: toy_hex_value_def toy_hex_digit_def Let_def take_bit_eq_mod)

lemma toy_hex_roundtrip: "toy_hex_decode (toy_hex_encode bs) = Some bs"
proof (induction bs)
  case (Cons b bs)
  have "unat b < 256" using unsigned_less [of b, where ?'a = nat] by simp
  then have "unat b div 16 < 16" by simp
  moreover have "16 * (unat b div 16) + unat b mod 16 = unat b" by simp
  ultimately show ?case using Cons by (simp add: toy_hex_value_digit)
qed simp

lemma toy_hex_digit_lower: "n < 16 \<Longrightarrow> lower_hex (toy_hex_digit n)"
  by (auto simp: toy_hex_digit_def lower_hex_def is_ascii_hexdigit_def to_lower_char_def Let_def
      take_bit_eq_mod)

lemma toy_hex_lower: "list_all lower_hex (toy_hex_encode bs)"
proof (induction bs)
  case (Cons b bs)
  have "unat b < 256" using unsigned_less [of b, where ?'a = nat] by simp
  then have "unat b div 16 < 16" by simp
  with Cons show ?case by (simp add: toy_hex_digit_lower)
qed simp

lemma hex_laws_toy: "hex_laws toy_ext"
  by (simp add: hex_laws_def toy_ext_def toy_hex_roundtrip toy_hex_lower)

lemma ed25519_laws_toy: "ed25519_laws toy_ext"
  by (simp add: ed25519_laws_def toy_ext_def)

lemma not_lower_hex: "\<not> lower_hex (CHR ''x'')" "\<not> lower_hex (CHR ''t'')"
  by (simp_all add: lower_hex_def is_ascii_hexdigit_def)

lemma hex_not_0x: "list_all lower_hex s \<Longrightarrow> \<not> starts_with s ''0x''"
  using starts_with_set [of s "''0x''" "CHR ''x''"] not_lower_hex by (auto simp: list_all_iff)

lemma hex_not_ethraw: "list_all lower_hex s \<Longrightarrow> \<not> starts_with s ''ethraw:''"
  using starts_with_set [of s "''ethraw:''" "CHR ''t''"] not_lower_hex by (auto simp: list_all_iff)

lemma verify_signature_signed:
  assumes "hex_laws E" and "ed25519_laws E" and "length (wal_signing_key w) = 32"
  shows "verify_signature E (wallet_address E w) m (wallet_sign_bytes E w m) = Ok ()"
  using assms
  by (simp add: verify_signature_def wallet_address_def wallet_sign_bytes_def hex_laws_def
      ed25519_laws_def)

lemma wallet_transaction_accepted:
  assumes "hex_laws E" and "ed25519_laws E" and "length (wal_signing_key w) = 32"
  shows "verify_transaction E (wallet_sign_action E w to amount fee nonce action) = Ok ()"
proof -
  let ?tx = "wallet_sign_action E w to amount fee nonce action"
  have "\<not> starts_with (tx_signature ?tx) ''ethraw:''" and "\<not> starts_with (tx_from ?tx) ''0x''"
    using assms(1) hex_not_ethraw hex_not_0x
    by (auto simp: wallet_sign_action_def Let_def wallet_sign_bytes_def wallet_address_def
        hex_laws_def)
  moreover have "verify_signature E (tx_from ?tx) (signing_bytes ?tx) (tx_signature ?tx) = Ok ()"
    using verify_signature_signed [OF assms]
    by (simp add: wallet_sign_action_def Let_def signing_bytes_def)
  ultimately show ?thesis by (simp add: verify_transaction_def)
qed

text \<open>
  What a wallet signs, the node accepts: under the documented behaviour of the hex and
  Ed25519 crates, every transaction a native wallet signs passes the signature check of the
  ledger.
\<close>

theorem wallet_sign_action_verifies:
  assumes "hex_laws E" and "ed25519_laws E" and "length (wal_signing_key w) = 32"
  shows "verify_transaction E (wallet_sign_action E w to amount fee nonce action) = Ok ()"
  using assms by (rule wallet_transaction_accepted)

text \<open>The hypotheses hold for the concrete instance and an all-ones key.\<close>

theorem wallet_sign_action_verifies_witness:
  "verify_transaction toy_ext
     (wallet_sign_action toy_ext (wallet_from_seed (replicate 32 1)) ''bob'' 250 3 0 Transfer) = Ok ()"
  by (rule wallet_sign_action_verifies)
    (simp_all add: hex_laws_toy ed25519_laws_toy wallet_from_seed_def)

end
