(* ===== verification/TrafficRewards.thy ===== *)
theory TrafficRewards
  imports Model
begin

text \<open>
  Peer selection and relay rewards (\<^verbatim>\<open>src/src/traffic_rewards.rs\<close>): the balanced choice of
  connections, the ledger of relay receipts, and the lottery among the nodes that qualify.
\<close>

definition TRAFFIC_BPS_DENOMINATOR :: nat where
  "TRAFFIC_BPS_DENOMINATOR = 10000"

subsection \<open>Balanced peers\<close>

record traffic_policy =
  tp_target_connections :: nat
  tp_nearby_slots :: nat
  tp_diversity_slots :: nat
  tp_low_load_slots :: nat
  tp_max_per_country :: nat
  tp_max_per_asn :: nat
  tp_max_bootstrap_connections :: nat
  tp_minimum_uptime_bps :: nat

definition traffic_policy_default :: traffic_policy where
  "traffic_policy_default = \<lparr>tp_target_connections = 12, tp_nearby_slots = 4, tp_diversity_slots = 4,
     tp_low_load_slots = 4, tp_max_per_country = 3, tp_max_per_asn = 2, tp_max_bootstrap_connections = 1,
     tp_minimum_uptime_bps = 8000\<rparr>"

definition traffic_policy_validate :: "traffic_policy \<Rightarrow> unit result" where
  "traffic_policy_validate p =
     (if tp_target_connections p = 0
        \<or> wrapping_add 64 (wrapping_add 64 (tp_nearby_slots p) (tp_diversity_slots p)) (tp_low_load_slots p)
          \<noteq> tp_target_connections p
      then Err (ETraffic BadSlots)
      else if tp_max_per_country p = 0 \<or> tp_max_per_asn p = 0 then Err (ETraffic BadDiversityLimits)
      else if tp_max_bootstrap_connections p > tp_target_connections p then Err (ETraffic BadBootstrapLimit)
      else if tp_minimum_uptime_bps p > TRAFFIC_BPS_DENOMINATOR then Err (ETraffic BadMinimumUptime)
      else Ok ())"

record peer_candidate =
  pc_peer_id :: string
  pc_country_code :: string
  pc_asn :: nat
  pc_latency_ms :: nat
  pc_uptime_bps :: nat
  pc_capacity :: nat
  pc_active_connections :: nat
  pc_is_bootstrap :: bool

definition load_bps :: "peer_candidate \<Rightarrow> nat" where
  "load_bps c =
     (if pc_capacity c = 0 then TRAFFIC_BPS_DENOMINATOR
      else min (pc_active_connections c * TRAFFIC_BPS_DENOMINATOR div pc_capacity c) TRAFFIC_BPS_DENOMINATOR)"

definition country_count :: "peer_candidate list \<Rightarrow> string \<Rightarrow> nat" where
  "country_count peers country = length (filter (\<lambda>p. pc_country_code p = country) peers)"

definition asn_count :: "peer_candidate list \<Rightarrow> nat \<Rightarrow> nat" where
  "asn_count peers asn = length (filter (\<lambda>p. pc_asn p = asn) peers)"

definition slot_refused :: "traffic_policy \<Rightarrow> bool \<Rightarrow> peer_candidate list \<Rightarrow> peer_candidate \<Rightarrow> bool" where
  "slot_refused p relaxed_diversity selected c \<longleftrightarrow>
     list_ex (\<lambda>q. pc_peer_id q = pc_peer_id c) selected \<or> pc_uptime_bps c < tp_minimum_uptime_bps p
     \<or> (pc_is_bootstrap c \<and> length (filter pc_is_bootstrap selected) \<ge> tp_max_bootstrap_connections p)
     \<or> (\<not> relaxed_diversity \<and> (country_count selected (pc_country_code c) \<ge> tp_max_per_country p
          \<or> asn_count selected (pc_asn c) \<ge> tp_max_per_asn p))"

fun fill_loop :: "traffic_policy \<Rightarrow> bool \<Rightarrow> nat \<Rightarrow> peer_candidate list \<Rightarrow> peer_candidate list \<Rightarrow> peer_candidate list" where
  "fill_loop p relaxed target [] selected = selected"
| "fill_loop p relaxed target (c # cs) selected =
     (if length selected \<ge> target then selected
      else if slot_refused p relaxed selected c then fill_loop p relaxed target cs selected
      else fill_loop p relaxed target cs (selected @ [c]))"

definition fill_slots ::
  "traffic_policy \<Rightarrow> peer_candidate list \<Rightarrow> nat \<Rightarrow> peer_candidate list \<Rightarrow> bool \<Rightarrow> peer_candidate list" where
  "fill_slots p candidates cnt selected relaxed_diversity =
     fill_loop p relaxed_diversity (wrapping_add 64 (length selected) cnt) candidates selected"

definition unique_candidates :: "peer_candidate list \<Rightarrow> peer_candidate list" where
  "unique_candidates candidates =
     map snd (foldl (\<lambda>m c.
       if is_blank (pc_peer_id c) \<or> is_blank (pc_country_code c) \<or> pc_capacity c = 0 \<or> hm_contains m (pc_peer_id c)
       then m else hm_insert m (pc_peer_id c) c) [] candidates)"

definition select_balanced_peers :: "traffic_policy \<Rightarrow> peer_candidate list \<Rightarrow> peer_candidate list result" where
  "select_balanced_peers p candidates =
     rbind (traffic_policy_validate p) (\<lambda>_.
     let candidates = unique_candidates candidates;
         nearby = sort_key (\<lambda>c. (pc_latency_ms c, - int (pc_uptime_bps c), pc_peer_id c)) candidates;
         selected1 = fill_slots p nearby (tp_nearby_slots p) [] False;
         diverse = sort_key (\<lambda>c. (country_count selected1 (pc_country_code c), asn_count selected1 (pc_asn c),
           - int (pc_uptime_bps c), pc_latency_ms c, pc_peer_id c)) candidates;
         selected2 = fill_slots p diverse (tp_diversity_slots p) selected1 False;
         low_load = sort_key (\<lambda>c. (load_bps c, - int (pc_uptime_bps c), pc_latency_ms c, pc_peer_id c)) candidates;
         selected3 = fill_slots p low_load (tp_low_load_slots p) selected2 False;
         fallback = sort_key (\<lambda>c. (load_bps c, pc_latency_ms c, - int (pc_uptime_bps c), pc_peer_id c)) candidates;
         selected4 = fill_slots p fallback (saturating_sub (tp_target_connections p) (length selected3)) selected3 True
     in Ok (take (tp_target_connections p) selected4))"

subsection \<open>Relay receipts\<close>

record relay_receipt =
  rr_relay_peer_id :: string
  rr_reward_address :: string
  rr_verifier_peer_id :: string
  rr_message_id :: string
  rr_payload_bytes :: nat
  rr_observed_at :: nat
  rr_relay_started_at :: nat

record reward_policy =
  rp_epoch_seconds :: nat
  rp_pool_fee_bps :: nat
  rp_minimum_distinct_verifiers :: nat
  rp_maximum_receipts_per_verifier :: nat
  rp_maximum_points_per_node :: nat
  rp_winner_count :: nat
  rp_minimum_uptime_seconds :: nat

definition reward_policy_default :: reward_policy where
  "reward_policy_default = \<lparr>rp_epoch_seconds = 24 * 60 * 60, rp_pool_fee_bps = 2500,
     rp_minimum_distinct_verifiers = 3, rp_maximum_receipts_per_verifier = 200,
     rp_maximum_points_per_node = 10000, rp_winner_count = 10, rp_minimum_uptime_seconds = 60 * 60\<rparr>"

definition reward_policy_validate :: "reward_policy \<Rightarrow> unit result" where
  "reward_policy_validate p =
     (if \<not> (24 * 60 * 60 \<le> rp_epoch_seconds p \<and> rp_epoch_seconds p \<le> 7 * 24 * 60 * 60) then Err (ETraffic BadEpochLength)
      else if rp_pool_fee_bps p > TRAFFIC_BPS_DENOMINATOR then Err (ETraffic BadPoolShare)
      else if rp_minimum_distinct_verifiers p < 2 \<or> rp_maximum_receipts_per_verifier p = 0
        \<or> rp_maximum_points_per_node p = 0 \<or> rp_winner_count p = 0 then Err (ETraffic BadRewardLimits)
      else if rp_minimum_uptime_seconds p < 60 * 60 \<or> rp_minimum_uptime_seconds p > rp_epoch_seconds p
      then Err (ETraffic BadUptimeSeconds)
      else Ok ())"

definition pool_share :: "reward_policy \<Rightarrow> nat \<Rightarrow> nat" where
  "pool_share p foundation_fees = saturating_mul 128 foundation_fees (rp_pool_fee_bps p) div TRAFFIC_BPS_DENOMINATOR"

record eligible_node =
  el_peer_id :: string
  el_reward_address :: string
  el_points :: nat
  el_distinct_verifiers :: nat

record node_contribution =
  nc_reward_address :: string
  nc_points :: nat
  nc_verifiers :: "string set"

record contribution_ledger =
  cl_policy :: reward_policy
  cl_epoch :: nat
  cl_seen :: "(string \<times> string) set"
  cl_verifier_counts :: "(string, nat) hmap"
  cl_nodes :: "(string, node_contribution) hmap"

definition contribution_ledger_new :: "reward_policy \<Rightarrow> nat \<Rightarrow> contribution_ledger result" where
  "contribution_ledger_new policy epoch =
     rbind (reward_policy_validate policy) (\<lambda>_.
     Ok \<lparr>cl_policy = policy, cl_epoch = epoch, cl_seen = {}, cl_verifier_counts = [], cl_nodes = []\<rparr>)"

definition traffic_validate_reward_address :: "string \<Rightarrow> unit result" where
  "traffic_validate_reward_address address =
     (let is_account = starts_with address ''0x'' \<and> length address = 42 \<and> list_all is_ascii_hexdigit (drop 2 address);
          is_legacy = length address = 64 \<and> list_all is_ascii_hexdigit address
      in if \<not> is_account \<and> \<not> is_legacy then Err (ETraffic BadTrafficAddress) else Ok ())"

definition receipt_points :: "relay_receipt \<Rightarrow> nat" where
  "receipt_points r = min (max (div_ceil (rr_payload_bytes r) (64 * 1024)) 1) 16"

text \<open>
  \<^verbatim>\<open>record_validated\<close> changes its tables before it finds a conflicting reward address, so it returns
  the ledger together with the result.
\<close>

definition receipt_check :: "contribution_ledger \<Rightarrow> relay_receipt \<Rightarrow> unit result" where
  "receipt_check l r =
     (let p = cl_policy l in
      if rr_observed_at r div rp_epoch_seconds p \<noteq> cl_epoch l then Err (ETraffic WrongEpoch)
      else if rr_relay_peer_id r = rr_verifier_peer_id r then Err (ETraffic SelfReceipt)
      else if rr_payload_bytes r = 0 \<or> is_blank (rr_message_id r) then Err (ETraffic EmptyMessage)
      else if rr_relay_started_at r = 0
        \<or> saturating_sub (rr_observed_at r) (rr_relay_started_at r) < rp_minimum_uptime_seconds p
      then Err (ETraffic UptimeTooShort)
      else traffic_validate_reward_address (rr_reward_address r))"

definition contribution_of :: "contribution_ledger \<Rightarrow> relay_receipt \<Rightarrow> node_contribution" where
  "contribution_of l r =
     (case hm_get (cl_nodes l) (rr_relay_peer_id r) of
        Some c \<Rightarrow> c
      | None \<Rightarrow> \<lparr>nc_reward_address = rr_reward_address r, nc_points = 0, nc_verifiers = {}\<rparr>)"

definition count_receipt :: "contribution_ledger \<Rightarrow> relay_receipt \<Rightarrow> contribution_ledger \<times> bool result" where
  "count_receipt l r =
     (let contribution = contribution_of l r in
      if nc_reward_address contribution \<noteq> rr_reward_address r then (l, Err (ETraffic RewardAddressConflict))
      else (l\<lparr>cl_nodes := hm_insert (cl_nodes l) (rr_relay_peer_id r)
              (contribution\<lparr>nc_points := min (saturating_add 64 (nc_points contribution) (receipt_points r))
                   (rp_maximum_points_per_node (cl_policy l)),
                 nc_verifiers := insert (rr_verifier_peer_id r) (nc_verifiers contribution)\<rparr>)\<rparr>, Ok True))"

definition record_validated :: "contribution_ledger \<Rightarrow> relay_receipt \<Rightarrow> contribution_ledger \<times> bool result" where
  "record_validated l r =
     (case receipt_check l r of Err e \<Rightarrow> (l, Err e) | Ok _ \<Rightarrow>
      let verifier = rr_verifier_peer_id r; dedupe = (verifier, rr_message_id r) in
      if dedupe \<in> cl_seen l then (l, Ok False) else
      let verifier_count = hm_get0 (cl_verifier_counts l) verifier;
          l1 = l\<lparr>cl_seen := insert dedupe (cl_seen l),
                 cl_verifier_counts := hm_insert (cl_verifier_counts l) verifier verifier_count\<rparr> in
      if verifier_count \<ge> rp_maximum_receipts_per_verifier (cl_policy l) then (l1, Ok False) else
      count_receipt (l1\<lparr>cl_verifier_counts := hm_insert (cl_verifier_counts l1) verifier (verifier_count + 1)\<rparr>) r)"

definition eligible_nodes :: "contribution_ledger \<Rightarrow> eligible_node list" where
  "eligible_nodes l =
     sort_key el_peer_id (map (\<lambda>(peer_id, c). \<lparr>el_peer_id = peer_id, el_reward_address = nc_reward_address c,
         el_points = nc_points c, el_distinct_verifiers = card (nc_verifiers c)\<rparr>)
       (filter (\<lambda>(_, c). card (nc_verifiers c) \<ge> rp_minimum_distinct_verifiers (cl_policy l)) (cl_nodes l)))"

subsection \<open>The lottery\<close>

record lottery_payment =
  lot_peer_id :: string
  lot_reward_address :: string
  lot_amount :: nat

function integer_sqrt_loop :: "nat \<Rightarrow> nat \<Rightarrow> nat \<Rightarrow> nat" where
  "integer_sqrt_loop v left right =
     (if left \<le> right then
        (let middle = left + (right - left) div 2
         in if middle \<le> v div middle then integer_sqrt_loop v (middle + 1) right
            else integer_sqrt_loop v left (middle - 1))
      else right)"
  by pat_completeness auto
termination
proof (relation "measure (\<lambda>(v, left, right). right + 1 - left)", goal_cases)
  case (3 v left right middle)
  then have "0 < middle" "left \<le> middle" "middle \<le> right" by (cases middle; auto)+
  then have "middle - 1 + 1 - left < right + 1 - left" by linarith
  then show ?case by (simp only: in_measure prod.case)
qed auto

declare integer_sqrt_loop.simps [simp del]

definition integer_sqrt :: "nat \<Rightarrow> nat" where
  "integer_sqrt v = (if v < 2 then v else integer_sqrt_loop v 1 (min v (2 ^ 32 - 1)))"

fun pick_index :: "nat \<Rightarrow> nat \<Rightarrow> nat list \<Rightarrow> nat" where
  "pick_index index cursor [] = 0"
| "pick_index index cursor (w # ws) = (if cursor < w then index else pick_index (index + 1) (cursor - w) ws)"

definition be_value :: "u8 list \<Rightarrow> nat" where
  "be_value bs = foldl (\<lambda>n b. n * 256 + unat b) 0 bs"

text \<open>
  One round; the remainder by a zero total, where the program would panic, does not arise because
  every weight is at least one.
\<close>

fun lottery_rounds :: "ext \<Rightarrow> u8 list \<Rightarrow> nat \<Rightarrow> nat \<Rightarrow> nat \<Rightarrow> eligible_node list \<Rightarrow> lottery_payment list" where
  "lottery_rounds E seed amount round 0 remaining = []"
| "lottery_rounds E seed amount round (Suc n) remaining =
     (let weights = map (\<lambda>node. integer_sqrt (max (el_points node) 1)) remaining;
          whole = wrapping_sum 64 weights;
          cursor = be_value (take 8 (sha256 E (seed @ be_bytes 8 round))) mod whole;
          selected = pick_index 0 cursor weights;
          node = remaining ! selected
      in \<lparr>lot_peer_id = el_peer_id node, lot_reward_address = el_reward_address node, lot_amount = amount\<rparr>
         # lottery_rounds E seed amount (round + 1) n (remove_nth selected remaining))"

definition draw_lottery :: "ext \<Rightarrow> u8 list \<Rightarrow> nat \<Rightarrow> nat \<Rightarrow> eligible_node list \<Rightarrow> lottery_payment list" where
  "draw_lottery E seed pool winner_count nodes =
     (if pool = 0 \<or> winner_count = 0 \<or> nodes = [] then [] else
      let remaining = sort_key el_peer_id nodes;
          draws = min winner_count (length remaining);
          amount = pool div draws
      in if amount = 0 then [] else lottery_rounds E seed amount 0 draws remaining)"

subsection \<open>The integer square root\<close>

lemma integer_sqrt_loop_correct:
  assumes "0 < left" and "left \<le> right + 1" and "(left - 1) * (left - 1) \<le> v" and "v < (right + 1) * (right + 1)"
  shows "integer_sqrt_loop v left right * integer_sqrt_loop v left right \<le> v
    \<and> v < (integer_sqrt_loop v left right + 1) * (integer_sqrt_loop v left right + 1)"
  using assms
proof (induction v left right rule: integer_sqrt_loop.induct)
  case (1 v left right)
  show ?case
  proof (cases "left \<le> right")
    case True
    define middle where "middle = left + (right - left) div 2"
    have mid: "left \<le> middle" "middle \<le> right" using True by (auto simp: middle_def)
    have pos: "0 < middle" using mid(1) "1.prems"(1) by linarith
    have div: "middle \<le> v div middle \<longleftrightarrow> middle * middle \<le> v" using pos by (simp add: less_eq_div_iff_mult_less_eq)
    show ?thesis
    proof (cases "middle * middle \<le> v")
      case le: True
      have eq: "integer_sqrt_loop v left right = integer_sqrt_loop v (middle + 1) right"
        using True le div by (subst integer_sqrt_loop.simps) (simp add: Let_def flip: middle_def)
      show ?thesis unfolding eq
        using "1.IH"(1) [OF True middle_def] le div mid "1.prems"(4) by simp
    next
      case gt: False
      have eq: "integer_sqrt_loop v left right = integer_sqrt_loop v left (middle - 1)"
        using True gt div by (subst integer_sqrt_loop.simps) (simp add: Let_def flip: middle_def)
      show ?thesis unfolding eq
        using "1.IH"(2) [OF True middle_def] gt div mid pos "1.prems" by simp
    qed
  next
    case False
    with "1.prems"(2) have "left = right + 1" by simp
    with False "1.prems" show ?thesis by (subst (1 2 3 4) integer_sqrt_loop.simps) simp
  qed
qed

lemma integer_sqrt_correct:
  assumes "v < 2 ^ 64"
  shows "integer_sqrt v * integer_sqrt v \<le> v" and "v < (integer_sqrt v + 1) * (integer_sqrt v + 1)"
proof -
  have "integer_sqrt v * integer_sqrt v \<le> v \<and> v < (integer_sqrt v + 1) * (integer_sqrt v + 1)"
  proof (cases "v < 2")
    case True
    then show ?thesis by (auto simp: integer_sqrt_def)
  next
    case False
    let ?r = "min v (2 ^ 32 - 1)"
    have "v < (?r + 1) * (?r + 1)"
    proof (cases "v \<le> 2 ^ 32 - 1")
      case True
      then have "?r = v" by simp
      then show ?thesis by simp
    next
      case False
      then have "?r + 1 = 2 ^ 32" by simp
      then show ?thesis using assms by simp
    qed
    then show ?thesis using integer_sqrt_loop_correct [of 1 ?r v] False by (simp add: integer_sqrt_def)
  qed
  then show "integer_sqrt v * integer_sqrt v \<le> v" and "v < (integer_sqrt v + 1) * (integer_sqrt v + 1)" by auto
qed

lemma integer_sqrt_pos: "0 < v \<Longrightarrow> v < 2 ^ 64 \<Longrightarrow> 0 < integer_sqrt v"
  using integer_sqrt_correct(2) [of v] by (cases "integer_sqrt v") auto

lemma integer_sqrt_small: "v < 2 ^ 64 \<Longrightarrow> integer_sqrt v < 2 ^ 32"
proof (rule ccontr)
  assume v: "v < 2 ^ 64" and "\<not> integer_sqrt v < 2 ^ 32"
  then have "2 ^ 32 * 2 ^ 32 \<le> integer_sqrt v * integer_sqrt v" by (intro mult_le_mono) simp_all
  with integer_sqrt_correct(1) [OF v] v show False by simp
qed

subsection \<open>The winners\<close>

lemma pick_index_less: "cursor < sum_list ws \<Longrightarrow> pick_index i cursor ws < i + length ws"
proof (induction ws arbitrary: i cursor)
  case (Cons w ws)
  show ?case
  proof (cases "cursor < w")
    case False
    with Cons.prems have "cursor - w < sum_list ws" by simp
    from Cons.IH [OF this, of "i + 1"] False show ?thesis by simp
  qed simp
qed simp

text \<open>The node picked is the one whose weight covers the cursor.\<close>

lemma pick_index_covers:
  "cursor < sum_list ws \<Longrightarrow> i \<le> pick_index i cursor ws
   \<and> sum_list (take (pick_index i cursor ws - i) ws) \<le> cursor
   \<and> cursor < sum_list (take (Suc (pick_index i cursor ws - i)) ws)"
proof (induction ws arbitrary: i cursor)
  case (Cons w ws)
  show ?case
  proof (cases "cursor < w")
    case False
    with Cons.prems have "cursor - w < sum_list ws" by simp
    note IH = Cons.IH [OF this, of "i + 1"]
    then have "pick_index (i + 1) (cursor - w) ws - i = Suc (pick_index (i + 1) (cursor - w) ws - (i + 1))" by linarith
    with IH False show ?thesis by (simp; linarith)
  qed simp
qed simp

definition node_weights :: "eligible_node list \<Rightarrow> nat list" where
  "node_weights nodes = map (\<lambda>node. integer_sqrt (max (el_points node) 1)) nodes"

lemma node_weights_sum:
  assumes "\<forall>n \<in> set nodes. el_points n < 2 ^ 64" and "length nodes \<le> 2 ^ 32" and "nodes \<noteq> []"
  shows "0 < sum_list (node_weights nodes)" and "wrapping_sum 64 (node_weights nodes) = sum_list (node_weights nodes)"
proof -
  have w: "0 < x \<and> x < 2 ^ 32" if "x \<in> set (node_weights nodes)" for x
  proof -
    from that obtain n where n: "n \<in> set nodes" and x: "x = integer_sqrt (max (el_points n) 1)" by (auto simp: node_weights_def)
    have "max (el_points n) 1 < 2 ^ 64" using n assms(1) by simp
    then show ?thesis unfolding x using integer_sqrt_pos integer_sqrt_small by simp
  qed
  then show "0 < sum_list (node_weights nodes)" using assms(3) by (cases nodes) (auto simp: node_weights_def)
  have "sum_list ws \<le> length ws * (2 ^ 32 - 1)" if "\<forall>x \<in> set ws. x < 2 ^ 32" for ws :: "nat list"
    using that by (induction ws) auto
  then have "sum_list (node_weights nodes) \<le> length (node_weights nodes) * (2 ^ 32 - 1)" using w by blast
  also have "\<dots> \<le> 2 ^ 32 * (2 ^ 32 - 1)" using assms(2) by (intro mult_le_mono1) (simp add: node_weights_def)
  also have "\<dots> < 2 ^ 64" by simp
  finally show "wrapping_sum 64 (node_weights nodes) = sum_list (node_weights nodes)" by (rule wrapping_sum_exact)
qed

definition payment_of :: "nat \<Rightarrow> eligible_node \<Rightarrow> lottery_payment" where
  "payment_of amount node = \<lparr>lot_peer_id = el_peer_id node, lot_reward_address = el_reward_address node, lot_amount = amount\<rparr>"

lemma lottery_rounds_winners:
  assumes "\<forall>n \<in> set nodes. el_points n < 2 ^ 64" and "length nodes \<le> 2 ^ 32" and "k \<le> length nodes"
  shows "\<exists>winners. lottery_rounds E seed amount round k nodes = map (payment_of amount) winners
    \<and> mset winners \<subseteq># mset nodes \<and> length winners = k"
  using assms
proof (induction k arbitrary: round nodes)
  case (Suc k)
  then have ne: "nodes \<noteq> []" by auto
  let ?w = "node_weights nodes"
  note w = node_weights_sum [OF Suc.prems(1,2) ne]
  let ?i = "pick_index 0 (be_value (take 8 (sha256 E (seed @ be_bytes 8 round))) mod wrapping_sum 64 ?w) ?w"
  have "?i < length ?w" unfolding w(2) using pick_index_less [of _ ?w 0] w(1) by simp
  then have i: "?i < length nodes" by (simp add: node_weights_def)
  have m: "mset nodes = add_mset (nodes ! ?i) (mset (remove_nth ?i nodes))" by (rule remove_nth_split(2) [OF i])
  have sub: "set (remove_nth ?i nodes) \<subseteq> set nodes" using arg_cong [OF m, of set_mset] by auto
  have "\<forall>n \<in> set (remove_nth ?i nodes). el_points n < 2 ^ 64" using Suc.prems(1) sub by blast
  moreover have "length (remove_nth ?i nodes) \<le> 2 ^ 32" "k \<le> length (remove_nth ?i nodes)"
    using Suc.prems(2,3) length_remove_nth [OF i] by linarith+
  ultimately obtain ws where ws: "lottery_rounds E seed amount (round + 1) k (remove_nth ?i nodes) = map (payment_of amount) ws"
    "mset ws \<subseteq># mset (remove_nth ?i nodes)" "length ws = k" using Suc.IH by blast
  have "lottery_rounds E seed amount round (Suc k) nodes = map (payment_of amount) (nodes ! ?i # ws)"
    using ws(1) by (simp add: Let_def payment_of_def node_weights_def)
  moreover have "mset (nodes ! ?i # ws) \<subseteq># mset nodes" unfolding m using ws(2) by simp
  ultimately show ?case using ws(3) by (intro exI [of _ "nodes ! ?i # ws"]) simp
qed auto

subsection \<open>The ledger of receipts\<close>

inductive ledger_step :: "contribution_ledger \<Rightarrow> contribution_ledger \<Rightarrow> bool" where
  receipt: "ledger_step l (fst (record_validated l r))"

definition node_ok :: "reward_policy \<Rightarrow> string \<Rightarrow> node_contribution \<Rightarrow> bool" where
  "node_ok p peer c \<longleftrightarrow> nc_points c \<le> rp_maximum_points_per_node p \<and> finite (nc_verifiers c) \<and> peer \<notin> nc_verifiers c"

definition contribution_inv :: "reward_policy \<Rightarrow> contribution_ledger \<Rightarrow> bool" where
  "contribution_inv p l \<longleftrightarrow> cl_policy l = p \<and> hm_wf (cl_nodes l)
     \<and> (\<forall>peer c. hm_get (cl_nodes l) peer = Some c \<longrightarrow> node_ok p peer c)
     \<and> (\<forall>v. hm_get0 (cl_verifier_counts l) v \<le> rp_maximum_receipts_per_verifier p)"

lemma receipt_check_self: "receipt_check l r = Ok u \<Longrightarrow> rr_relay_peer_id r \<noteq> rr_verifier_peer_id r"
  by (auto simp: receipt_check_def Let_def split: if_splits)

lemma count_receipt_inv:
  assumes "contribution_inv p l" and "rr_relay_peer_id r \<noteq> rr_verifier_peer_id r"
  shows "contribution_inv p (fst (count_receipt l r))"
proof -
  let ?c = "contribution_of l r"
  let ?c' = "?c\<lparr>nc_points := min (saturating_add 64 (nc_points ?c) (receipt_points r)) (rp_maximum_points_per_node (cl_policy l)),
    nc_verifiers := insert (rr_verifier_peer_id r) (nc_verifiers ?c)\<rparr>"
  have "node_ok p (rr_relay_peer_id r) ?c"
    using assms(1) by (auto simp: contribution_of_def contribution_inv_def node_ok_def split: option.splits)
  then have "node_ok p (rr_relay_peer_id r) ?c'" using assms by (auto simp: node_ok_def contribution_inv_def)
  then show ?thesis using assms(1) by (auto simp: count_receipt_def contribution_inv_def Let_def)
qed

lemma record_validated_inv: "contribution_inv p l \<Longrightarrow> contribution_inv p (fst (record_validated l r))"
proof -
  assume inv: "contribution_inv p l"
  let ?v = "rr_verifier_peer_id r" and ?n = "hm_get0 (cl_verifier_counts l) (rr_verifier_peer_id r)"
  show ?thesis
  proof (cases "receipt_check l r")
    case (Ok u)
    define l1 where "l1 = l\<lparr>cl_seen := insert (?v, rr_message_id r) (cl_seen l),
      cl_verifier_counts := hm_insert (cl_verifier_counts l) ?v ?n\<rparr>"
    define l2 where "l2 = l1\<lparr>cl_verifier_counts := hm_insert (cl_verifier_counts l1) ?v (Suc ?n)\<rparr>"
    have l1: "contribution_inv p l1" using inv by (auto simp: contribution_inv_def l1_def)
    have "contribution_inv p l2" if "?n < rp_maximum_receipts_per_verifier (cl_policy l)"
      using inv that by (auto simp: contribution_inv_def l2_def l1_def)
    from count_receipt_inv [OF this receipt_check_self [OF Ok]] inv l1 Ok show ?thesis
      by (auto simp: record_validated_def Let_def simp flip: l1_def l2_def)
  qed (use inv in \<open>simp add: record_validated_def\<close>)
qed

interpretation contribution: safety "\<lambda>l. \<exists>epoch. contribution_ledger_new p epoch = Ok l" ledger_step "contribution_inv p" for p
proof
  show "contribution_inv p l" if "\<exists>epoch. contribution_ledger_new p epoch = Ok l" for l
    using that by (auto simp: contribution_ledger_new_def contribution_inv_def hm_get0_def)
  show "contribution_inv p l'" if "contribution_inv p l" "ledger_step l l'" for l l'
    using that(2,1) by cases (auto intro: record_validated_inv)
qed

definition eligible_of :: "string \<times> node_contribution \<Rightarrow> eligible_node" where
  "eligible_of = (\<lambda>(peer_id, c). \<lparr>el_peer_id = peer_id, el_reward_address = nc_reward_address c,
     el_points = nc_points c, el_distinct_verifiers = card (nc_verifiers c)\<rparr>)"

lemma eligible_nodes_facts:
  assumes "contribution_inv p l"
  shows "distinct (map el_peer_id (eligible_nodes l))" and "length (eligible_nodes l) \<le> length (cl_nodes l)"
    and "n \<in> set (eligible_nodes l) \<Longrightarrow> \<exists>c. hm_get (cl_nodes l) (el_peer_id n) = Some c \<and> n = eligible_of (el_peer_id n, c)
      \<and> rp_minimum_distinct_verifiers p \<le> card (nc_verifiers c)"
proof -
  let ?f = "filter (\<lambda>(_, c). card (nc_verifiers c) \<ge> rp_minimum_distinct_verifiers (cl_policy l)) (cl_nodes l)"
  have el: "eligible_nodes l = sort_key el_peer_id (map eligible_of ?f)"
    by (simp add: eligible_nodes_def eligible_of_def)
  have id: "el_peer_id (eligible_of e) = fst e" for e by (simp add: eligible_of_def case_prod_beta)
  have wf: "distinct (map fst (cl_nodes l))" and pol: "cl_policy l = p" using assms by (simp_all add: contribution_inv_def hm_wf_def)
  show "distinct (map el_peer_id (eligible_nodes l))"
    unfolding el distinct_map_sort_key using distinct_map_filter [OF wf] by (simp add: comp_def id)
  show "length (eligible_nodes l) \<le> length (cl_nodes l)" by (simp add: el)
  show "\<exists>c. hm_get (cl_nodes l) (el_peer_id n) = Some c \<and> n = eligible_of (el_peer_id n, c)
      \<and> rp_minimum_distinct_verifiers p \<le> card (nc_verifiers c)" if "n \<in> set (eligible_nodes l)"
  proof -
    from that obtain peer c where "(peer, c) \<in> set (cl_nodes l)" "n = eligible_of (peer, c)"
      "rp_minimum_distinct_verifiers p \<le> card (nc_verifiers c)" by (auto simp: el pol)
    then show ?thesis using wf by (auto simp: id hm_get_def)
  qed
qed

lemma distinct_map_submset:
  assumes "mset xs \<subseteq># mset ys" and "distinct (map f ys)"
  shows "distinct (map f xs)"
proof -
  obtain zs where "mset ys = mset (xs @ zs)" using assms(1) by (metis ex_mset mset_append subset_mset.add_diff_inverse)
  then have "distinct (map f (xs @ zs))" using assms(2) by (metis mset_eq_imp_distinct_iff mset_map)
  then show ?thesis by simp
qed

text \<open>The nodes that take part are those enough peers vouched for.\<close>

definition vouched :: "contribution_ledger \<Rightarrow> string set" where
  "vouched l = {peer. \<exists>c. hm_get (cl_nodes l) peer = Some c
     \<and> rp_minimum_distinct_verifiers (cl_policy l) \<le> card (nc_verifiers c)}"

lemma eligible_count:
  assumes "contribution_inv p l"
  shows "length (eligible_nodes l) = card (vouched l)"
proof -
  let ?P = "\<lambda>(_, c). card (nc_verifiers c) \<ge> rp_minimum_distinct_verifiers (cl_policy l)"
  have wf: "distinct (map fst (cl_nodes l))" using assms by (simp add: contribution_inv_def hm_wf_def)
  have "vouched l = fst ` set (filter ?P (cl_nodes l))"
    using wf by (force simp: vouched_def hm_get_def dest: map_of_SomeD)
  moreover have "distinct (map fst (filter ?P (cl_nodes l)))" using wf by (rule distinct_map_filter)
  ultimately show ?thesis using distinct_card [of "map fst (filter ?P (cl_nodes l))"] by (simp add: eligible_nodes_def)
qed

lemma draw_lottery_winners:
  assumes inv: "contribution_inv p l" and "rp_maximum_points_per_node p < 2 ^ 64" and "length (cl_nodes l) \<le> 2 ^ 32"
    and draws_def: "draws = min k (length (eligible_nodes l))"
  shows "\<exists>ws. draw_lottery E seed pool k (eligible_nodes l) = map (payment_of (pool div draws)) ws
    \<and> mset ws \<subseteq># mset (eligible_nodes l) \<and> length ws = (if pool < draws then 0 else draws)"
proof (cases "pool < draws \<or> draws = 0")
  case True
  then have "draw_lottery E seed pool k (eligible_nodes l) = []" by (auto simp: draw_lottery_def draws_def Let_def)
  with True show ?thesis by auto
next
  case False
  let ?sorted = "sort_key el_peer_id (eligible_nodes l)"
  note el = eligible_nodes_facts [OF inv]
  have "draw_lottery E seed pool k (eligible_nodes l) = lottery_rounds E seed (pool div draws) 0 draws ?sorted"
    using False by (auto simp: draw_lottery_def draws_def Let_def div_eq_0_iff)
  moreover have "\<forall>n \<in> set ?sorted. el_points n < 2 ^ 64"
  proof
    fix n assume "n \<in> set ?sorted"
    with el(3) obtain c where "hm_get (cl_nodes l) (el_peer_id n) = Some c" "n = eligible_of (el_peer_id n, c)" by auto
    then have "el_points n \<le> rp_maximum_points_per_node p"
      using inv unfolding contribution_inv_def node_ok_def eligible_of_def by (metis eligible_node.select_convs(3) prod.case)
    with assms(2) show "el_points n < 2 ^ 64" by (rule le_less_trans [rotated])
  qed
  from lottery_rounds_winners [OF this, of draws E seed "pool div draws" 0] obtain ws where
    "lottery_rounds E seed (pool div draws) 0 draws ?sorted = map (payment_of (pool div draws)) ws"
    "mset ws \<subseteq># mset (eligible_nodes l)" "length ws = draws"
    using el(2) assms(3) by (auto simp: draws_def simp del: power_numeral)
  ultimately show ?thesis using False by auto
qed

text \<open>
  C39.  The relay lottery.  On every ledger of receipts, when the pool has at least one unit for
  each of the winners asked for, or for each node that the required number of peers vouched for if
  there are fewer, exactly that many are drawn, and nobody otherwise.  The winners are distinct
  nodes that enough other peers vouched for, each is paid at its own reward address, and all are
  paid the same, the pool divided by their number.  (Points per node are below \<^verbatim>\<open>2^64\<close>, their type;
  with at most \<^verbatim>\<open>2^32\<close> nodes the weights do not overflow.)
\<close>

theorem lottery_sound:
  assumes "contribution_ledger_new p epoch = Ok l0" and "rp_maximum_points_per_node p < 2 ^ 64"
    and "ledger_step\<^sup>*\<^sup>* l0 l" and "length (cl_nodes l) \<le> 2 ^ 32"
  shows "length (draw_lottery E seed pool k (eligible_nodes l))
      = (if pool < min k (card (vouched l)) then 0 else min k (card (vouched l)))
    \<and> distinct (map lot_peer_id (draw_lottery E seed pool k (eligible_nodes l)))
    \<and> list_all (\<lambda>w. lot_amount w = pool div min k (card (vouched l))
        \<and> (\<exists>c. hm_get (cl_nodes l) (lot_peer_id w) = Some c \<and> lot_reward_address w = nc_reward_address c
          \<and> rp_minimum_distinct_verifiers p \<le> card (nc_verifiers c - {lot_peer_id w})))
        (draw_lottery E seed pool k (eligible_nodes l))"
proof -
  let ?w = "draw_lottery E seed pool k (eligible_nodes l)" and ?amount = "pool div min k (card (vouched l))"
  have inv: "contribution_inv p l" using contribution.inv_reachable [OF _ assms(3)] assms(1) by blast
  note el = eligible_nodes_facts [OF inv] and n = eligible_count [OF inv]
  obtain ws where ws: "?w = map (payment_of ?amount) ws" "mset ws \<subseteq># mset (eligible_nodes l)"
    "length ws = (if pool < min k (card (vouched l)) then 0 else min k (card (vouched l)))"
    using draw_lottery_winners [OF inv assms(2,4) refl] unfolding n by blast
  have ids: "map lot_peer_id ?w = map el_peer_id ws" by (simp add: ws(1) payment_of_def)
  have dist: "distinct (map el_peer_id ws)" by (rule distinct_map_submset [OF ws(2) el(1)])
  have "lot_amount x = ?amount \<and> (\<exists>c. hm_get (cl_nodes l) (lot_peer_id x) = Some c \<and> lot_reward_address x = nc_reward_address c
      \<and> rp_minimum_distinct_verifiers p \<le> card (nc_verifiers c - {lot_peer_id x}))" if "x \<in> set ?w" for x
  proof -
    from that obtain y where y: "y \<in> set ws" and x: "x = payment_of ?amount y" by (auto simp: ws(1))
    have "y \<in> set (eligible_nodes l)" using y set_mset_mono [OF ws(2)] by auto
    from el(3) [OF this] obtain c where c: "hm_get (cl_nodes l) (el_peer_id y) = Some c"
      "y = eligible_of (el_peer_id y, c)" "rp_minimum_distinct_verifiers p \<le> card (nc_verifiers c)" by blast
    have "el_peer_id y \<notin> nc_verifiers c" using c(1) inv by (simp add: contribution_inv_def node_ok_def)
    moreover have "el_reward_address y = nc_reward_address c"
      using c(2) by (metis (no_types, lifting) case_prod_conv eligible_node.select_convs(2) eligible_of_def)
    ultimately show ?thesis using c by (simp add: x payment_of_def)
  qed
  then show ?thesis using dist ws(3) unfolding ids by (simp add: list_all_iff ws(1))
qed

definition sample_policy_epoch :: contribution_ledger where
  "sample_policy_epoch = \<lparr>cl_policy = reward_policy_default, cl_epoch = 0, cl_seen = {}, cl_verifier_counts = [], cl_nodes = []\<rparr>"

text \<open>Two relays, each vouched for by the same three peers.\<close>

definition sample_receipt :: "string \<Rightarrow> string \<Rightarrow> relay_receipt" where
  "sample_receipt relay verifier = \<lparr>rr_relay_peer_id = relay, rr_reward_address = ''0x'' @ replicate 40 (CHR ''a''),
     rr_verifier_peer_id = verifier, rr_message_id = relay, rr_payload_bytes = 1, rr_observed_at = 7200, rr_relay_started_at = 1\<rparr>"

definition sample_receipts :: contribution_ledger where
  "sample_receipts = foldl (\<lambda>l r. fst (record_validated l r)) sample_policy_epoch
     [sample_receipt ''r'' ''x'', sample_receipt ''r'' ''y'', sample_receipt ''r'' ''z'',
      sample_receipt ''s'' ''x'', sample_receipt ''s'' ''y'', sample_receipt ''s'' ''z'']"

lemma ledger_steps: "ledger_step\<^sup>*\<^sup>* l (foldl (\<lambda>l r. fst (record_validated l r)) l rs)"
proof (induction rs arbitrary: l)
  case (Cons r rs)
  show ?case using Cons.IH [of "fst (record_validated l r)"] ledger_step.receipt [of l r]
    by (simp add: converse_rtranclp_into_rtranclp)
qed simp

lemma sample_receipt_ok:
  "receipt_check l (sample_receipt relay verifier) = Ok ()"
  if "cl_policy l = reward_policy_default" "cl_epoch l = 0" "relay \<noteq> verifier" "\<not> is_blank relay"
  using that by (simp add: receipt_check_def sample_receipt_def reward_policy_default_def saturating_sub_def
      traffic_validate_reward_address_def starts_with_def list_all_iff is_ascii_hexdigit_def)

lemma sample_record:
  assumes "cl_policy l = reward_policy_default" and "cl_epoch l = 0" and "relay \<noteq> verifier" and "\<not> is_blank relay"
    and "(verifier, relay) \<notin> cl_seen l" and "hm_get0 (cl_verifier_counts l) verifier < 200"
    and "nc_reward_address (contribution_of l (sample_receipt relay verifier)) = rr_reward_address (sample_receipt relay verifier)"
  shows "fst (record_validated l (sample_receipt relay verifier)) = l\<lparr>cl_seen := insert (verifier, relay) (cl_seen l),
      cl_verifier_counts := hm_insert (hm_insert (cl_verifier_counts l) verifier (hm_get0 (cl_verifier_counts l) verifier))
        verifier (hm_get0 (cl_verifier_counts l) verifier + 1),
      cl_nodes := hm_insert (cl_nodes l) relay (let c = contribution_of l (sample_receipt relay verifier) in
        c\<lparr>nc_points := min (saturating_add 64 (nc_points c) 1) 10000, nc_verifiers := insert verifier (nc_verifiers c)\<rparr>)\<rparr>"
proof -
  have fields: "rr_relay_peer_id (sample_receipt relay verifier) = relay" "rr_verifier_peer_id (sample_receipt relay verifier) = verifier"
    "rr_message_id (sample_receipt relay verifier) = relay" "receipt_points (sample_receipt relay verifier) = 1"
    by (simp_all add: sample_receipt_def receipt_points_def div_ceil_def)
  have same: "contribution_of (l\<lparr>cl_seen := a, cl_verifier_counts := b\<rparr>) r = contribution_of l r" for a b r
    by (simp add: contribution_of_def)
  show ?thesis using assms
    by (simp add: record_validated_def sample_receipt_ok fields Let_def count_receipt_def same) (simp add: reward_policy_default_def)
qed

lemma sample_receipts_nodes:
  "map fst (cl_nodes sample_receipts) = [''r'', ''s'']" "vouched sample_receipts = {''r'', ''s''}"
proof -
  let ?c = "\<lparr>nc_reward_address = ''0x'' @ replicate 40 (CHR ''a''), nc_points = 3, nc_verifiers = {''x'', ''y'', ''z''}\<rparr>"
  have fields: "rr_relay_peer_id (sample_receipt relay verifier) = relay"
    "rr_reward_address (sample_receipt relay verifier) = ''0x'' @ replicate 40 (CHR ''a'')" for relay verifier
    by (simp_all add: sample_receipt_def)
  have blank: "\<not> is_blank ''r''" "\<not> is_blank ''s''" by (simp_all add: is_blank_def)
  have nodes: "cl_nodes sample_receipts = [(''r'', ?c), (''s'', ?c)] \<and> cl_policy sample_receipts = reward_policy_default"
    unfolding sample_receipts_def
    by (simp add: sample_record blank sample_policy_epoch_def contribution_of_def fields hm_get0_def
        hm_get_def hm_insert_def saturating_add_def insert_commute Let_def)
  then show "map fst (cl_nodes sample_receipts) = [''r'', ''s'']" by simp
  show "vouched sample_receipts = {''r'', ''s''}"
    using nodes by (auto simp: vouched_def hm_get_def reward_policy_default_def)
qed

theorem lottery_sound_witness:
  "length (draw_lottery toy_ext [] 101 10 (eligible_nodes sample_receipts)) = 2
     \<and> list_all (\<lambda>w. lot_amount w = 50) (draw_lottery toy_ext [] 101 10 (eligible_nodes sample_receipts))"
proof -
  have start: "contribution_ledger_new reward_policy_default 0 = Ok sample_policy_epoch"
    by (simp add: contribution_ledger_new_def sample_policy_epoch_def reward_policy_validate_def reward_policy_default_def
        TRAFFIC_BPS_DENOMINATOR_def)
  have steps: "ledger_step\<^sup>*\<^sup>* sample_policy_epoch sample_receipts"
    unfolding sample_receipts_def by (rule ledger_steps)
  have "length (cl_nodes sample_receipts) = 2" using arg_cong [OF sample_receipts_nodes(1), of length] by simp
  then show ?thesis
    using lottery_sound [OF start _ steps, of toy_ext "[]" 101 10]
    by (simp add: reward_policy_default_def sample_receipts_nodes(2) list_all_iff flip: numeral_2_eq_2)
qed

subsection \<open>Limits on the chosen peers\<close>

definition within_limits :: "traffic_policy \<Rightarrow> peer_candidate list \<Rightarrow> bool" where
  "within_limits p sel \<longleftrightarrow> distinct (map pc_peer_id sel) \<and> (\<forall>c \<in> set sel. tp_minimum_uptime_bps p \<le> pc_uptime_bps c)
     \<and> length (filter pc_is_bootstrap sel) \<le> tp_max_bootstrap_connections p"

definition diverse_enough :: "traffic_policy \<Rightarrow> peer_candidate list \<Rightarrow> bool" where
  "diverse_enough p sel \<longleftrightarrow> (\<forall>country. country_count sel country \<le> tp_max_per_country p)
     \<and> (\<forall>asn. asn_count sel asn \<le> tp_max_per_asn p)"

lemma fill_loop_limits:
  "within_limits p sel \<Longrightarrow> within_limits p (fill_loop p relaxed target cs sel)
    \<and> set (fill_loop p relaxed target cs sel) \<subseteq> set sel \<union> set cs
    \<and> (\<not> relaxed \<longrightarrow> diverse_enough p sel \<longrightarrow> diverse_enough p (fill_loop p relaxed target cs sel))"
proof (induction cs arbitrary: sel)
  case (Cons c cs)
  show ?case
  proof (cases "length sel < target \<and> \<not> slot_refused p relaxed sel c")
    case True
    then have "within_limits p (sel @ [c])" and div: "\<not> relaxed \<Longrightarrow> diverse_enough p sel \<Longrightarrow> diverse_enough p (sel @ [c])"
      using Cons.prems by (auto simp: slot_refused_def within_limits_def diverse_enough_def country_count_def asn_count_def
          list_ex_iff not_less_eq_eq)
    from Cons.IH [OF this(1)] div True show ?thesis by auto
  next
    case False
    with Cons show ?thesis by auto
  qed
qed simp

lemma unique_candidates_subset: "set (unique_candidates cs) \<subseteq> set cs"
proof -
  let ?f = "\<lambda>m c. if is_blank (pc_peer_id c) \<or> is_blank (pc_country_code c) \<or> pc_capacity c = 0 \<or> hm_contains m (pc_peer_id c)
    then m else hm_insert m (pc_peer_id c) c"
  have "snd ` set (foldl ?f m cs) \<subseteq> snd ` set m \<union> set cs" for m
  proof (induction cs arbitrary: m)
    case (Cons c cs)
    have "snd ` set (?f m c) \<subseteq> insert c (snd ` set m)"
    proof -
      have "snd ` set (hm_insert m (pc_peer_id c) c) \<subseteq> insert c (snd ` set m)"
        by (induction m) (auto simp: hm_insert_def)
      then show ?thesis by auto
    qed
    moreover note Cons.IH [of "?f m c"]
    ultimately have "snd ` set (foldl ?f (?f m c) cs) \<subseteq> insert c (snd ` set m) \<union> set cs" by (meson Un_mono order_refl order_trans)
    then show ?case by simp
  qed simp
  from this [of "[]"] show ?thesis by (simp add: unique_candidates_def)
qed

lemma within_limits_take: "within_limits p sel \<Longrightarrow> within_limits p (take n sel)"
proof -
  assume lim: "within_limits p sel"
  have "filter pc_is_bootstrap sel = filter pc_is_bootstrap (take n sel) @ filter pc_is_bootstrap (drop n sel)"
    by (metis append_take_drop_id filter_append)
  then have "length (filter pc_is_bootstrap (take n sel)) \<le> length (filter pc_is_bootstrap sel)" by simp
  with lim show ?thesis
    by (auto simp: within_limits_def take_map [symmetric] dest: in_set_takeD intro: order_trans)
qed

text \<open>
  The chosen peers are candidates, pairwise different, reliable enough, and within the limits on
  connections and bootstrap nodes.
\<close>

lemma balanced_peers_limits:
  assumes "select_balanced_peers p cs = Ok sel"
  shows "within_limits p sel" and "length sel \<le> tp_target_connections p" and "set sel \<subseteq> set cs"
proof -
  define ok where "ok s \<longleftrightarrow> within_limits p s \<and> set s \<subseteq> set (unique_candidates cs)" for s
  have nil: "ok []" by (simp add: ok_def within_limits_def)
  have fill: "ok (fill_slots p xs n s r)" if "ok s" "set xs = set (unique_candidates cs)" for xs n s r
    using fill_loop_limits [of p s r _ xs] that unfolding ok_def fill_slots_def by blast
  have "\<exists>s. sel = take (tp_target_connections p) s \<and> ok s"
    using assms
    by (clarsimp simp: select_balanced_peers_def Let_def) (rule exI, rule conjI, rule refl, intro fill nil set_sort)
  then obtain s where sel: "sel = take (tp_target_connections p) s" and s: "ok s" by blast
  from s show "within_limits p sel" by (simp add: sel ok_def within_limits_take)
  from s show "set sel \<subseteq> set cs"
    using unique_candidates_subset [of cs] set_take_subset [of _ s] unfolding sel ok_def by blast
  show "length sel \<le> tp_target_connections p" by (simp add: sel)
qed

end
