(* ===== verification/NodeEmission.thy ===== *)
theory NodeEmission
  imports Staking Wallet TrafficRewards
begin

text \<open>
  Rewards of public nodes (\<^verbatim>\<open>src/src/node_emission.rs\<close>): the emission schedule that halves
  every year, the service attestations validators sign, the daily service payments with their
  eligibility rules, and the weighted settlement of the daily pool.
\<close>

subsection \<open>Constants\<close>

definition IEUM :: nat where
  "IEUM = 10 ^ 18"

definition MAX_SUPPLY :: nat where
  "MAX_SUPPLY = 210000000 * IEUM"

definition TOTAL_NODE_EMISSION :: nat where
  "TOTAL_NODE_EMISSION = (210000000 - 21070100) * IEUM"

definition REWARD_ACTIVATION_HEIGHT :: nat where
  "REWARD_ACTIVATION_HEIGHT = 100"

definition REWARD_ACTIVATION_UNIX :: nat where
  "REWARD_ACTIVATION_UNIX = IEUM_MAINNET_GENESIS_TIME"

definition REWARD_END_UNIX :: nat where
  "REWARD_END_UNIX = 2240611199"

definition REWARD_EPOCH_SECONDS :: nat where
  "REWARD_EPOCH_SECONDS = 86400"

definition HALVING_SECONDS :: nat where
  "HALVING_SECONDS = 365 * REWARD_EPOCH_SECONDS"

definition SERVICE_BOND :: nat where
  "SERVICE_BOND = 100 * IEUM"

definition SERVICE_BOND_MATURITY_SECONDS :: nat where
  "SERVICE_BOND_MATURITY_SECONDS = 7 * REWARD_EPOCH_SECONDS"

definition SERVICE_MINIMUM_UPTIME_BPS :: nat where
  "SERVICE_MINIMUM_UPTIME_BPS = 8000"

definition SERVICE_MINIMUM_VALIDATORS :: nat where
  "SERVICE_MINIMUM_VALIDATORS = 3"

definition SERVICE_MAX_REWARDED_PER_NETWORK_GROUP :: nat where
  "SERVICE_MAX_REWARDED_PER_NETWORK_GROUP = 2"

definition SERVICE_DAILY_POOL_CAP :: nat where
  "SERVICE_DAILY_POOL_CAP = 1000 * IEUM"

lemmas emission_constants = IEUM_def MAX_SUPPLY_def TOTAL_NODE_EMISSION_def
  REWARD_ACTIVATION_UNIX_def REWARD_END_UNIX_def REWARD_EPOCH_SECONDS_def HALVING_SECONDS_def
  IEUM_MAINNET_GENESIS_TIME_def

subsection \<open>Emission schedule\<close>

definition is_reward_active :: "nat \<Rightarrow> nat \<Rightarrow> bool" where
  "is_reward_active height timestamp =
     (height \<ge> REWARD_ACTIVATION_HEIGHT
      \<and> REWARD_ACTIVATION_UNIX \<le> timestamp \<and> timestamp \<le> REWARD_END_UNIX)"

definition halving_index :: "nat \<Rightarrow> nat option" where
  "halving_index timestamp =
     (if \<not> (REWARD_ACTIVATION_UNIX \<le> timestamp \<and> timestamp \<le> REWARD_END_UNIX) then None
      else Some ((timestamp - REWARD_ACTIVATION_UNIX) div HALVING_SECONDS mod 2 ^ 32))"

definition reward_year_count :: nat where
  "reward_year_count = ((REWARD_END_UNIX - REWARD_ACTIVATION_UNIX) div HALVING_SECONDS + 1) mod 2 ^ 32"

definition year_share :: "nat \<Rightarrow> nat" where
  "year_share year_index =
     wrapping_mul 128 TOTAL_NODE_EMISSION (2 ^ (reward_year_count - year_index - 1))
       div (2 ^ reward_year_count - 1)"

definition annual_budget :: "nat \<Rightarrow> nat" where
  "annual_budget year_index =
     (let years = reward_year_count in
      if year_index \<ge> years then 0
      else if year_index + 1 = years
      then wrapping_sub 128 TOTAL_NODE_EMISSION (wrapping_sum 128 (map year_share [0..<year_index]))
      else year_share year_index)"

definition daily_budget :: "nat \<Rightarrow> nat" where
  "daily_budget timestamp =
     (case halving_index timestamp of
        None \<Rightarrow> 0
      | Some year \<Rightarrow>
          let start = REWARD_ACTIVATION_UNIX + year * HALVING_SECONDS;
              stop = min (start + HALVING_SECONDS - 1) REWARD_END_UNIX;
              days = div_ceil (stop - start + 1) REWARD_EPOCH_SECONDS
          in annual_budget year div days)"

definition remaining_budget :: "nat \<Rightarrow> nat" where
  "remaining_budget distributed =
     saturating_sub TOTAL_NODE_EMISSION (min distributed TOTAL_NODE_EMISSION)"

subsection \<open>Service attestations\<close>

definition attestation_bytes :: "node_service_attestation \<Rightarrow> u8 list" where
  "attestation_bytes a =
     as_bytes (''ieum-node-service-v1:'' @ att_peer_id a @ '':'' @ att_reward_address a @ '':''
       @ decimal (att_epoch a) @ '':'' @ decimal (att_observed_at a) @ '':''
       @ decimal (att_uptime_bps a) @ '':'' @ att_network_group a @ '':'' @ att_validator_id a)"

definition attestation_verify :: "ext \<Rightarrow> node_service_attestation \<Rightarrow> unit result" where
  "attestation_verify E a =
     (if att_peer_id a = [] \<or> length (att_reward_address a) \<noteq> 42
        \<or> \<not> starts_with (att_reward_address a) ''0x''
        \<or> \<not> list_all is_ascii_hexdigit (drop 2 (att_reward_address a))
        \<or> att_epoch a \<noteq> att_observed_at a div REWARD_EPOCH_SECONDS
        \<or> att_uptime_bps a > 10000 \<or> att_network_group a = [] \<or> length (att_network_group a) > 96
      then Err (EEvent BadAttestation)
      else verify_signature E (att_validator_id a) (attestation_bytes a) (att_signature_hex a))"

definition service_event_id :: "nat \<Rightarrow> string" where
  "service_event_id epoch = ''ieum-node-service-reward-v1-'' @ decimal epoch"

subsection \<open>Daily service payments\<close>

type_synonym service_groups = "((string \<times> string) \<times> node_service_attestation list) list"

definition group_attestation ::
  "ext \<Rightarrow> nat \<Rightarrow> validator list \<Rightarrow> string list \<Rightarrow> node_service_attestation
   \<Rightarrow> service_groups \<Rightarrow> service_groups result" where
  "group_attestation E epoch validators validator_peer_ids a groups =
     rbind (attestation_verify E a) (\<lambda>_.
     if att_epoch a \<noteq> epoch \<or> att_validator_id a \<notin> set (map val_id validators)
       \<or> att_peer_id a \<in> set validator_peer_ids \<or> att_uptime_bps a < SERVICE_MINIMUM_UPTIME_BPS
     then Ok groups
     else Ok (bt_entry (att_peer_id a, att_reward_address a) [] (\<lambda>proofs. proofs @ [a]) groups))"

definition network_counts :: "node_service_attestation list \<Rightarrow> (string, nat) hmap" where
  "network_counts proofs =
     foldl (\<lambda>m p. hm_insert m (att_network_group p) (hm_get0 m (att_network_group p) + 1)) [] proofs"

text \<open>\<^verbatim>\<open>max_by\<close>: the larger count, and among equal counts the smaller group name.\<close>

fun best_group :: "(string, nat) hmap \<Rightarrow> (string \<times> nat) option" where
  "best_group [] = None"
| "best_group (e # m) =
     Some (foldl (\<lambda>l r. if snd r < snd l \<or> (snd l = snd r \<and> fst l < fst r) then l else r) e m)"

fun service_eligible ::
  "staking_state \<Rightarrow> nat \<Rightarrow> service_groups \<Rightarrow> string list \<Rightarrow> (string \<times> string \<times> string) list" where
  "service_eligible st timestamp [] used = []"
| "service_eligible st timestamp (((peer_id, reward_address), proofs) # groups) used =
     (if length (remdups (map att_validator_id proofs)) < SERVICE_MINIMUM_VALIDATORS
        \<or> mature_delegated_by st reward_address timestamp SERVICE_BOND_MATURITY_SECONDS < SERVICE_BOND
      then service_eligible st timestamp groups used
      else if reward_address \<in> set used then service_eligible st timestamp groups used
      else (case best_group (network_counts proofs) of
          None \<Rightarrow> service_eligible st timestamp groups (reward_address # used)
        | Some (network_group, seen) \<Rightarrow>
            if seen < SERVICE_MINIMUM_VALIDATORS
            then service_eligible st timestamp groups (reward_address # used)
            else (peer_id, reward_address, network_group)
                 # service_eligible st timestamp groups (reward_address # used)))"

fun retain_network ::
  "(string, nat) hmap \<Rightarrow> (string \<times> string \<times> string) list \<Rightarrow> (string \<times> string \<times> string) list" where
  "retain_network per_network [] = []"
| "retain_network per_network ((p, a, g) # xs) =
     (let seen = hm_get0 per_network g in
      if seen \<ge> SERVICE_MAX_REWARDED_PER_NETWORK_GROUP then retain_network (hm_insert per_network g seen) xs
      else (p, a, g) # retain_network (hm_insert per_network g (seen + 1)) xs)"

text \<open>Everybody but the last receives the same share; the last one receives what is left.\<close>

fun split_pool :: "nat \<Rightarrow> nat \<Rightarrow> nat \<Rightarrow> string list \<Rightarrow> event_payment list" where
  "split_pool pool each assigned [] = []"
| "split_pool pool each assigned (address # rest) =
     (let amount = (if rest = [] then pool - assigned else each)
      in \<lparr>pay_address = address, pay_amount = amount\<rparr> # split_pool pool each (assigned + amount) rest)"

definition calculate_service_payments ::
  "ext \<Rightarrow> nat \<Rightarrow> node_service_attestation list \<Rightarrow> validator list \<Rightarrow> string list \<Rightarrow> staking_state
   \<Rightarrow> nat \<Rightarrow> event_payment list result" where
  "calculate_service_payments E timestamp attestations validators validator_peer_ids st foundation_balance =
     (let epoch = timestamp div REWARD_EPOCH_SECONDS in
      rbind (for_each (group_attestation E epoch validators validator_peer_ids) attestations []) (\<lambda>groups.
      let eligible = retain_network [] (sort (service_eligible st timestamp groups [])) in
      if eligible = [] then Ok [] else
      let pool = min (min (daily_budget timestamp) SERVICE_DAILY_POOL_CAP) foundation_balance in
      if pool = 0 then Ok [] else
      Ok (split_pool pool (pool div length eligible) 0 (map (\<lambda>(_, a, _). a) eligible))))"

subsection \<open>Weighted settlement\<close>

definition MAIN_NODE_PEER_IDS :: "string list" where
  "MAIN_NODE_PEER_IDS = [[], [], [], []]"

definition is_main_node :: "string \<Rightarrow> bool" where
  "is_main_node peer_id = (peer_id \<noteq> [] \<and> peer_id \<in> set MAIN_NODE_PEER_IDS)"

definition node_weight :: "eligible_node \<Rightarrow> nat" where
  "node_weight node = max (el_points node) 1 * (if is_main_node (el_peer_id node) then 15000 else 10000)"

fun settle_loop :: "nat \<Rightarrow> nat \<Rightarrow> nat \<Rightarrow> eligible_node list \<Rightarrow> lottery_payment list" where
  "settle_loop pool total_weight assigned [] = []"
| "settle_loop pool total_weight assigned (node # rest) =
     (let amount = (if rest = [] then wrapping_sub 128 pool assigned
                    else saturating_mul 128 pool (node_weight node) div total_weight);
          payments = settle_loop pool total_weight (assigned + amount) rest
      in if amount > 0
         then \<lparr>lot_peer_id = el_peer_id node, lot_reward_address = el_reward_address node,
               lot_amount = amount\<rparr> # payments
         else payments)"

definition settle_daily_rewards ::
  "nat \<Rightarrow> nat \<Rightarrow> nat \<Rightarrow> eligible_node list \<Rightarrow> lottery_payment list" where
  "settle_daily_rewards height timestamp already_distributed eligible =
     (if \<not> is_reward_active height timestamp \<or> eligible = [] then [] else
      let pool = min (daily_budget timestamp) (remaining_budget already_distributed) in
      if pool = 0 then [] else
      let nodes = sort_key el_peer_id eligible in
      settle_loop pool (wrapping_sum 128 (map node_weight nodes)) 0 nodes)"

subsection \<open>The schedule\<close>

lemma reward_years: "reward_year_count = 15"
  by (simp add: reward_year_count_def emission_constants)

lemma annual_budgets_sum: "sum_list (map annual_budget [0..<reward_year_count]) = TOTAL_NODE_EMISSION"
  by (simp add: reward_years annual_budget_def year_share_def upt_rec emission_constants
      wrapping_mul_def wrapping_sub_def wrapping_sum_def wrapping_add_def Let_def)

lemma annual_budget_halves: "list_all (\<lambda>year. 2 * annual_budget (year + 1) \<le> annual_budget year) [0..<13]"
  by (simp add: reward_years annual_budget_def year_share_def emission_constants
      wrapping_mul_def upt_rec Let_def)

subsection \<open>Service payments\<close>

definition counts_for ::
  "ext \<Rightarrow> nat \<Rightarrow> validator list \<Rightarrow> string list \<Rightarrow> node_service_attestation list \<Rightarrow> string \<Rightarrow> string
   \<Rightarrow> node_service_attestation set" where
  "counts_for E timestamp validators peers attestations peer_id address =
     {a \<in> set attestations. attestation_verify E a = Ok () \<and> att_epoch a = timestamp div REWARD_EPOCH_SECONDS
        \<and> att_validator_id a \<in> val_id ` set validators \<and> att_peer_id a = peer_id \<and> peer_id \<notin> set peers
        \<and> SERVICE_MINIMUM_UPTIME_BPS \<le> att_uptime_bps a \<and> att_reward_address a = address}"

definition groups_ok ::
  "ext \<Rightarrow> nat \<Rightarrow> validator list \<Rightarrow> string list \<Rightarrow> node_service_attestation list \<Rightarrow> service_groups \<Rightarrow> bool" where
  "groups_ok E timestamp validators peers attestations groups \<longleftrightarrow> bt_sorted groups
     \<and> (\<forall>((p, a), proofs) \<in> set groups. set proofs \<subseteq> counts_for E timestamp validators peers attestations p a)"

lemma bt_entry_forall:
  assumes "\<forall>(k', v) \<in> set m. P k' v" and "P k (f d)" and "\<And>v. P k v \<Longrightarrow> P k (f v)"
  shows "\<forall>(k', v) \<in> set (bt_entry k d f m). P k' v"
  using assms by (induction k d f m rule: bt_entry.induct) auto

lemma group_attestation_ok:
  assumes "group_attestation E (timestamp div REWARD_EPOCH_SECONDS) validators peers a groups = Ok groups'"
    and "groups_ok E timestamp validators peers attestations groups" and "a \<in> set attestations"
  shows "groups_ok E timestamp validators peers attestations groups'"
proof -
  let ?C = "counts_for E timestamp validators peers attestations"
  let ?P = "\<lambda>(p, a) proofs. set proofs \<subseteq> ?C p a"
  let ?m = "bt_entry (att_peer_id a, att_reward_address a) [] (\<lambda>proofs. proofs @ [a]) groups"
  from assms(1) consider "groups' = groups"
    | "groups' = ?m" "a \<in> ?C (att_peer_id a) (att_reward_address a)"
    using assms(3) by (auto simp: group_attestation_def counts_for_def not_less split: if_splits)
  then show ?thesis
  proof cases
    case 2
    have "\<forall>(k, proofs) \<in> set ?m. ?P k proofs"
      using assms(2) 2(2) by (intro bt_entry_forall) (auto simp: groups_ok_def)
    with assms(2) 2(1) show ?thesis by (auto simp: groups_ok_def bt_entry_sorted)
  qed (use assms(2) in simp)
qed

lemma groups_loop_ok:
  assumes "for_each (group_attestation E (timestamp div REWARD_EPOCH_SECONDS) validators peers) attestations [] = Ok groups"
  shows "groups_ok E timestamp validators peers attestations groups"
  using assms
  by (rule for_each_invariant) (auto simp: groups_ok_def [of _ _ _ _ _ "[]"] intro: group_attestation_ok)

lemma service_eligible_sound:
  assumes "(p, a, g) \<in> set (service_eligible st timestamp groups used)"
  shows "a \<notin> set used \<and> SERVICE_BOND \<le> mature_delegated_by st a timestamp SERVICE_BOND_MATURITY_SECONDS
    \<and> (\<exists>proofs. ((p, a), proofs) \<in> set groups
         \<and> SERVICE_MINIMUM_VALIDATORS \<le> card (att_validator_id ` set proofs))"
  using assms
proof (induction groups arbitrary: used)
  case (Cons e groups)
  obtain p' a' proofs where e: "e = ((p', a'), proofs)" by (cases e) auto
  let ?rest = "\<lambda>used. (p, a, g) \<in> set (service_eligible st timestamp groups used)"
  have "?rest used \<or> ?rest (a' # used) \<or> (p = p' \<and> a = a' \<and> a' \<notin> set used
      \<and> SERVICE_MINIMUM_VALIDATORS \<le> length (remdups (map att_validator_id proofs))
      \<and> SERVICE_BOND \<le> mature_delegated_by st a' timestamp SERVICE_BOND_MATURITY_SECONDS)"
    using Cons.prems unfolding e
    by (simp split: if_splits option.splits prod.splits) (auto simp: not_less not_le)
  then show ?case
  proof (elim disjE)
    assume "?rest used"
    from Cons.IH [OF this] show ?thesis by auto
  next
    assume "?rest (a' # used)"
    from Cons.IH [OF this] show ?thesis by auto
  qed (auto simp: e length_remdups_card_conv)
qed simp

lemma service_eligible_distinct: "distinct (map (\<lambda>(_, a, _). a) (service_eligible st timestamp groups used))"
proof (induction st timestamp groups used rule: service_eligible.induct)
  case (2 st timestamp peer_id reward_address proofs groups used)
  have "reward_address \<notin> (\<lambda>(_, a, _). a) ` set (service_eligible st timestamp groups (reward_address # used))"
    using service_eligible_sound [of _ reward_address _ st timestamp groups "reward_address # used"] by auto
  with 2 show ?case by (auto split: option.splits)
qed simp

lemma retain_network_subseq: "subseq (retain_network m xs) xs"
  by (induction m xs rule: retain_network.induct) (auto simp: Let_def)

lemma retain_network_limit:
  "length (filter (\<lambda>(_, _, g). g = n) (retain_network m xs)) + hm_get0 m n
     \<le> max SERVICE_MAX_REWARDED_PER_NETWORK_GROUP (hm_get0 m n)"
proof (induction m xs rule: retain_network.induct)
  case (2 m p a g xs)
  then show ?case by (auto simp: Let_def split: if_splits)
qed simp

lemma split_pool_total:
  "xs \<noteq> [] \<Longrightarrow> assigned + each * length xs \<le> pool \<Longrightarrow>
   sum_list (map pay_amount (split_pool pool each assigned xs)) = pool - assigned"
proof (induction pool each assigned xs rule: split_pool.induct)
  case (2 pool each assigned address rest)
  then show ?case by (cases rest) (auto simp: Let_def)
qed simp

lemma split_pool_addresses: "map pay_address (split_pool pool each assigned xs) = xs"
  by (induction pool each assigned xs rule: split_pool.induct) (simp_all add: Let_def)

lemma service_payments_eligible:
  assumes "calculate_service_payments E timestamp attestations validators peers st foundation = Ok ps" and "ps \<noteq> []"
  obtains groups eligible where "groups_ok E timestamp validators peers attestations groups"
    and "eligible = retain_network [] (sort (service_eligible st timestamp groups []))"
    and "map pay_address ps = map (\<lambda>(_, a, _). a) eligible"
    and "sum_list (map pay_amount ps) = min (min (daily_budget timestamp) SERVICE_DAILY_POOL_CAP) foundation"
proof -
  let ?pool = "min (min (daily_budget timestamp) SERVICE_DAILY_POOL_CAP) foundation"
  obtain groups where loop: "for_each (group_attestation E (timestamp div REWARD_EPOCH_SECONDS) validators peers)
      attestations [] = Ok groups"
    using assms by (auto simp: calculate_service_payments_def Let_def)
  define eligible where "eligible = retain_network [] (sort (service_eligible st timestamp groups []))"
  have ne: "eligible \<noteq> []" and ps: "ps = split_pool ?pool (?pool div length eligible) 0 (map (\<lambda>(_, a, _). a) eligible)"
    using assms loop by (auto simp: calculate_service_payments_def Let_def eligible_def split: if_splits)
  have "?pool div length eligible * length eligible \<le> ?pool" by (rule div_times_less_eq_dividend)
  then have "sum_list (map pay_amount ps) = ?pool"
    unfolding ps using ne by (subst split_pool_total) simp_all
  moreover have "map pay_address ps = map (\<lambda>(_, a, _). a) eligible" unfolding ps by (rule split_pool_addresses)
  ultimately show thesis using groups_loop_ok [OF loop] eligible_def that by blast
qed

text \<open>
  C30.  Service rewards go to proven nodes.  The daily payments of public nodes add up to the
  day's pool, which neither the emission schedule, the daily cap nor the foundation's balance is
  exceeded by; no address is paid twice; and every paid address has a matured bond of at least 100
  IEUM and is attested for this day, with the required uptime, by at least three different
  registered validators whose signatures verify.
\<close>

theorem service_payments_sound:
  assumes "calculate_service_payments E timestamp attestations validators peers st foundation = Ok ps" and "ps \<noteq> []"
  shows "sum_list (map pay_amount ps) = min (min (daily_budget timestamp) SERVICE_DAILY_POOL_CAP) foundation
    \<and> distinct (map pay_address ps)
    \<and> (\<forall>p \<in> set ps. SERVICE_BOND \<le> mature_delegated_by st (pay_address p) timestamp SERVICE_BOND_MATURITY_SECONDS
        \<and> (\<exists>peer. SERVICE_MINIMUM_VALIDATORS \<le>
             card (att_validator_id ` counts_for E timestamp validators peers attestations peer (pay_address p))))"
proof (intro conjI ballI)
  obtain groups eligible where g: "groups_ok E timestamp validators peers attestations groups"
    and el: "eligible = retain_network [] (sort (service_eligible st timestamp groups []))"
    and addr: "map pay_address ps = map (\<lambda>(_, a, _). a) eligible"
    and total: "sum_list (map pay_amount ps) = min (min (daily_budget timestamp) SERVICE_DAILY_POOL_CAP) foundation"
    by (rule service_payments_eligible [OF assms])
  show "sum_list (map pay_amount ps) = min (min (daily_budget timestamp) SERVICE_DAILY_POOL_CAP) foundation"
    by (rule total)
  have sub: "subseq eligible (sort (service_eligible st timestamp groups []))"
    unfolding el by (rule retain_network_subseq)
  have "distinct (map (\<lambda>(_, a, _). a) (sort (service_eligible st timestamp groups [])))"
    using distinct_map_sort_key [of "\<lambda>(_, a, _). a" "\<lambda>x. x"] service_eligible_distinct by blast
  then show "distinct (map pay_address ps)"
    unfolding addr using subseq_map [OF sub] by (metis distinct_nthsI subseq_conv_nths)
  fix p assume "p \<in> set ps"
  then have "pay_address p \<in> set (map (\<lambda>(_, a, _). a) eligible)" using addr by (metis image_eqI list.set_map)
  then obtain peer n where "(peer, pay_address p, n) \<in> set eligible" by auto
  then have "(peer, pay_address p, n) \<in> set (service_eligible st timestamp groups [])"
    using list_emb_set [OF sub] by auto
  note sound = service_eligible_sound [OF this]
  then show "SERVICE_BOND \<le> mature_delegated_by st (pay_address p) timestamp SERVICE_BOND_MATURITY_SECONDS" by blast
  from sound obtain proofs where pr: "((peer, pay_address p), proofs) \<in> set groups"
    and card: "SERVICE_MINIMUM_VALIDATORS \<le> card (att_validator_id ` set proofs)" by blast
  let ?C = "counts_for E timestamp validators peers attestations peer (pay_address p)"
  have "att_validator_id ` set proofs \<subseteq> att_validator_id ` ?C" using g pr unfolding groups_ok_def by fastforce
  moreover have "finite ?C" by (simp add: counts_for_def)
  ultimately have "card (att_validator_id ` set proofs) \<le> card (att_validator_id ` ?C)"
    by (intro card_mono) auto
  with card show "\<exists>peer. SERVICE_MINIMUM_VALIDATORS \<le>
      card (att_validator_id ` counts_for E timestamp validators peers attestations peer (pay_address p))"
    by (intro exI [of _ peer]) simp
qed

text \<open>
  The emission schedule.  The yearly budgets add up to exactly what is left of the maximum
  supply after Genesis, each year's budget is at least twice the next one's (up to the last two
  years), and outside the reward period nothing is emitted.
\<close>

theorem emission_schedule:
  "sum_list (map annual_budget [0..<reward_year_count]) + 21070100 * IEUM = MAX_SUPPLY
   \<and> list_all (\<lambda>year. 2 * annual_budget (year + 1) \<le> annual_budget year) [0..<reward_year_count - 2]
   \<and> (\<forall>t. (REWARD_ACTIVATION_UNIX \<le> t \<and> t \<le> REWARD_END_UNIX) \<or> daily_budget t = 0)"
  using annual_budget_halves unfolding annual_budgets_sum
  by (auto simp: reward_years MAX_SUPPLY_def TOTAL_NODE_EMISSION_def IEUM_def daily_budget_def
      halving_index_def split: option.splits)

subsection \<open>A concrete settlement\<close>

definition service_time :: nat where
  "service_time = REWARD_ACTIVATION_UNIX"

definition service_address :: string where
  "service_address = ''0x'' @ replicate 40 (CHR ''1'')"

definition service_wallet :: "u8 \<Rightarrow> wallet" where
  "service_wallet k = \<lparr>wal_signing_key = replicate 32 k\<rparr>"

definition service_proof :: "u8 \<Rightarrow> node_service_attestation" where
  "service_proof k =
     (let a = \<lparr>att_peer_id = ''peer'', att_reward_address = service_address,
        att_epoch = service_time div REWARD_EPOCH_SECONDS, att_observed_at = service_time,
        att_uptime_bps = 9000, att_network_group = ''net'',
        att_validator_id = wallet_address toy_ext (service_wallet k), att_signature_hex = []\<rparr>
      in a\<lparr>att_signature_hex := wallet_sign_bytes toy_ext (service_wallet k) (attestation_bytes a)\<rparr>)"

definition service_validators :: "validator list" where
  "service_validators = map (\<lambda>k. \<lparr>val_id = wallet_address toy_ext (service_wallet k), val_voting_power = 1\<rparr>) [1, 2, 3]"

definition service_stake :: staking_state where
  "service_stake = staking_default\<lparr>stk_delegations := [\<lparr>dep_delegator = service_address,
     dep_validator = [], dep_amount = SERVICE_BOND, dep_delegated_at = 0\<rparr>]\<rparr>"

lemma service_proof_ok: "attestation_verify toy_ext (service_proof k) = Ok ()"
proof -
  have "starts_with service_address ''0x''" "list_all is_ascii_hexdigit (drop 2 service_address)"
    "length service_address = 42"
    by (simp_all add: service_address_def starts_with_def list_all_iff is_ascii_hexdigit_def)
  then show ?thesis
    using verify_signature_signed [OF hex_laws_toy ed25519_laws_toy, of "service_wallet k"]
    by (simp add: attestation_verify_def service_proof_def Let_def service_wallet_def attestation_bytes_def)
qed

lemma service_ids_distinct:
  "wallet_address toy_ext (service_wallet j) = wallet_address toy_ext (service_wallet k) \<longleftrightarrow> j = k"
  using hex_laws_toy by (auto simp: wallet_address_def service_wallet_def toy_ext_def hex_laws_def) (metis option.inject replicate_eq_replicate zero_neq_numeral)

lemma service_proof_fields [simp]:
  "att_peer_id (service_proof k) = ''peer''" "att_reward_address (service_proof k) = service_address"
  "att_epoch (service_proof k) = service_time div REWARD_EPOCH_SECONDS"
  "att_uptime_bps (service_proof k) = 9000" "att_network_group (service_proof k) = ''net''"
  "att_validator_id (service_proof k) = wallet_address toy_ext (service_wallet k)"
  by (simp_all add: service_proof_def Let_def)

lemma service_group_step:
  assumes "k \<in> {1, 2, 3}"
  shows "group_attestation toy_ext (service_time div REWARD_EPOCH_SECONDS) service_validators [] (service_proof k) groups
     = Ok (bt_entry (''peer'', service_address) [] (\<lambda>proofs. proofs @ [service_proof k]) groups)"
proof -
  have "wallet_address toy_ext (service_wallet k) \<in> set (map val_id service_validators)"
    using assms by (auto simp: service_validators_def)
  then show ?thesis
    by (simp add: group_attestation_def service_proof_ok SERVICE_MINIMUM_UPTIME_BPS_def del: set_map)
qed

lemma service_groups_eval:
  "for_each (group_attestation toy_ext (service_time div REWARD_EPOCH_SECONDS) service_validators [])
     (map service_proof [1, 2, 3]) [] = Ok [((''peer'', service_address), map service_proof [1, 2, 3])]"
  by (simp add: service_group_step)

lemma service_bond_eval:
  "mature_delegated_by service_stake service_address service_time SERVICE_BOND_MATURITY_SECONDS = SERVICE_BOND"
  by (simp add: mature_delegated_by_def service_stake_def saturating_add_def service_time_def SERVICE_BOND_def
      SERVICE_BOND_MATURITY_SECONDS_def emission_constants)

lemma service_eligible_eval:
  "service_eligible service_stake service_time [((''peer'', service_address), map service_proof [1, 2, 3])] []
     = [(''peer'', service_address, ''net'')]"
  by (simp add: service_bond_eval SERVICE_MINIMUM_VALIDATORS_def service_ids_distinct network_counts_def
      hm_insert_def hm_get0_def hm_get_def)

lemma service_budget_pos: "0 < daily_budget service_time"
  by (simp add: daily_budget_def halving_index_def service_time_def annual_budget_def reward_years
      year_share_def wrapping_mul_def emission_constants div_ceil_def Let_def)

lemma service_payments_eval:
  "\<exists>ps. calculate_service_payments toy_ext service_time (map service_proof [1, 2, 3]) service_validators []
     service_stake IEUM = Ok ps \<and> ps \<noteq> []"
  unfolding calculate_service_payments_def Let_def service_groups_eval rbind.simps service_eligible_eval
  using service_budget_pos
  by (simp add: SERVICE_MAX_REWARDED_PER_NETWORK_GROUP_def hm_get0_def SERVICE_DAILY_POOL_CAP_def IEUM_def)

theorem service_payments_sound_witness:
  "\<exists>ps :: event_payment list. ps \<noteq> [] \<and> sum_list (map pay_amount ps) = min (min (daily_budget service_time) SERVICE_DAILY_POOL_CAP) IEUM
     \<and> distinct (map pay_address ps)"
proof -
  obtain ps where ps: "calculate_service_payments toy_ext service_time (map service_proof [1, 2, 3]) service_validators []
     service_stake IEUM = Ok ps" "ps \<noteq> []" using service_payments_eval by (elim exE conjE)
  note sound = service_payments_sound [OF ps]
  show ?thesis
    by (intro exI [of _ ps] conjI) (rule ps(2), rule conjunct1 [OF sound], rule conjunct1 [OF conjunct2 [OF sound]])
qed

end
