(* ===== verification/Votes.thy ===== *)
theory Votes
  imports Wallet
begin

text \<open>
  The signed messages of consensus (\<^verbatim>\<open>src/src/consensus.rs\<close>, lines 36 to 397): votes,
  proposals, double-vote evidence and finality certificates, what each of them signs, and how
  each is verified.  The interface \<open>weighted_quorum\<close> states what a set of voters that passed
  a two-thirds test guarantees, and \<open>vote_tally\<close> what a loop over signed votes computes; the
  certificate check is interpreted in both here, the vote count of the state machine in \<open>Bft\<close>,
  the other certificates where they are defined.
\<close>

subsection \<open>Votes\<close>

fun vote_code :: "vote_type \<Rightarrow> u8" where
  "vote_code Prevote = 1"
| "vote_code Precommit = 2"

definition message_unsigned_bytes :: "nat \<Rightarrow> nat \<Rightarrow> string \<Rightarrow> vote_type \<Rightarrow> string \<Rightarrow> u8 list" where
  "message_unsigned_bytes height round validator_id vote_type block_hash =
     as_bytes ''IEUM-CONSENSUS-V1'' @ be_bytes 8 height @ be_bytes 4 round @ [vote_code vote_type]
     @ push_text validator_id @ push_text block_hash"

definition message_verify :: "ext \<Rightarrow> consensus_message \<Rightarrow> unit result" where
  "message_verify E m =
     verify_signature E (msg_validator_id m)
       (message_unsigned_bytes (msg_height m) (msg_round m) (msg_validator_id m) (msg_vote_type m)
         (msg_block_hash m)) (msg_signature m)"

definition message_signed ::
  "ext \<Rightarrow> nat \<Rightarrow> nat \<Rightarrow> wallet \<Rightarrow> vote_type \<Rightarrow> string \<Rightarrow> consensus_message" where
  "message_signed E height round validator vote_type block_hash =
     (let validator_id = wallet_address E validator in
      \<lparr>msg_height = height, msg_round = round, msg_validator_id = validator_id,
       msg_vote_type = vote_type, msg_block_hash = block_hash,
       msg_signature = wallet_sign_bytes E validator
         (message_unsigned_bytes height round validator_id vote_type block_hash)\<rparr>)"

definition message_from_signature ::
  "ext \<Rightarrow> nat \<Rightarrow> nat \<Rightarrow> string \<Rightarrow> vote_type \<Rightarrow> string \<Rightarrow> string \<Rightarrow> consensus_message result" where
  "message_from_signature E height round validator_id vote_type block_hash signature =
     (let message = \<lparr>msg_height = height, msg_round = round, msg_validator_id = validator_id,
        msg_vote_type = vote_type, msg_block_hash = block_hash, msg_signature = signature\<rparr>
      in rbind (message_verify E message) (\<lambda>_. Ok message))"

subsection \<open>Proposals\<close>

record signed_proposal =
  prop_height :: nat
  prop_round :: nat
  prop_proposer_id :: string
  prop_valid_round :: "nat option"
  prop_valid_round_prevotes :: "consensus_message list"
  prop_block :: block
  prop_signature :: string

definition U32_MAX :: nat where
  "U32_MAX = 2 ^ 32 - 1"

definition proposal_unsigned_bytes ::
  "nat \<Rightarrow> nat \<Rightarrow> string \<Rightarrow> string \<Rightarrow> nat option \<Rightarrow> consensus_message list \<Rightarrow> u8 list" where
  "proposal_unsigned_bytes height round proposer_id block_hash valid_round prevotes =
     (let sorted = sort_key msg_validator_id prevotes in
      as_bytes ''IEUM-PROPOSAL-V3'' @ be_bytes 8 height @ be_bytes 4 round
      @ push_text proposer_id @ push_text block_hash
      @ be_bytes 4 (case valid_round of None \<Rightarrow> U32_MAX | Some r \<Rightarrow> r)
      @ be_bytes 8 (length sorted)
      @ concat (map (\<lambda>v. push_text (msg_validator_id v) @ push_text (msg_signature v)) sorted))"

definition proposal_verify :: "ext \<Rightarrow> signed_proposal \<Rightarrow> unit result" where
  "proposal_verify E p =
     (if prop_height p \<noteq> blk_height (prop_block p) then Err (EConsensus ProposalHeight)
      else if blk_hash (prop_block p) \<noteq> calculate_hash E (prop_block p)
      then Err (EConsensus ProposalBlockHash)
      else verify_signature E (prop_proposer_id p)
        (proposal_unsigned_bytes (prop_height p) (prop_round p) (prop_proposer_id p)
          (blk_hash (prop_block p)) (prop_valid_round p) (prop_valid_round_prevotes p))
        (prop_signature p))"

definition proposal_with_certificate ::
  "ext \<Rightarrow> nat \<Rightarrow> nat \<Rightarrow> wallet \<Rightarrow> block \<Rightarrow> nat option \<Rightarrow> consensus_message list \<Rightarrow> signed_proposal" where
  "proposal_with_certificate E height round proposer block valid_round prevotes =
     (let proposer_id = wallet_address E proposer in
      \<lparr>prop_height = height, prop_round = round, prop_proposer_id = proposer_id,
       prop_valid_round = valid_round, prop_valid_round_prevotes = prevotes, prop_block = block,
       prop_signature = wallet_sign_bytes E proposer
         (proposal_unsigned_bytes height round proposer_id (blk_hash block) valid_round prevotes)\<rparr>)"

definition proposal_from_signature ::
  "ext \<Rightarrow> nat \<Rightarrow> nat \<Rightarrow> string \<Rightarrow> block \<Rightarrow> nat option \<Rightarrow> consensus_message list \<Rightarrow> string
   \<Rightarrow> signed_proposal result" where
  "proposal_from_signature E height round proposer_id block valid_round prevotes signature =
     (let proposal = \<lparr>prop_height = height, prop_round = round, prop_proposer_id = proposer_id,
        prop_valid_round = valid_round, prop_valid_round_prevotes = prevotes, prop_block = block,
        prop_signature = signature\<rparr>
      in rbind (proposal_verify E proposal) (\<lambda>_. Ok proposal))"

subsection \<open>Double-vote evidence\<close>

definition evidence_verify :: "ext \<Rightarrow> double_vote_evidence \<Rightarrow> unit result" where
  "evidence_verify E e =
     rbind (message_verify E (evd_first e)) (\<lambda>_.
     rbind (message_verify E (evd_second e)) (\<lambda>_.
     if msg_height (evd_first e) \<noteq> msg_height (evd_second e)
       \<or> msg_round (evd_first e) \<noteq> msg_round (evd_second e)
       \<or> msg_vote_type (evd_first e) \<noteq> msg_vote_type (evd_second e)
       \<or> msg_validator_id (evd_first e) \<noteq> msg_validator_id (evd_second e)
       \<or> msg_block_hash (evd_first e) = msg_block_hash (evd_second e)
     then Err (EConsensus NotDoubleVote) else Ok ()))"

definition evidence_new ::
  "ext \<Rightarrow> consensus_message \<Rightarrow> consensus_message \<Rightarrow> double_vote_evidence result" where
  "evidence_new E first second =
     (let evidence = \<lparr>evd_first = first, evd_second = second\<rparr>
      in rbind (evidence_verify E evidence) (\<lambda>_. Ok evidence))"

fun vote_type_debug :: "vote_type \<Rightarrow> string" where
  "vote_type_debug Prevote = ''Prevote''"
| "vote_type_debug Precommit = ''Precommit''"

definition evidence_id :: "double_vote_evidence \<Rightarrow> string" where
  "evidence_id e =
     msg_validator_id (evd_first e) @ '':'' @ decimal (msg_height (evd_first e)) @ '':''
     @ decimal (msg_round (evd_first e)) @ '':'' @ vote_type_debug (msg_vote_type (evd_first e))"

subsection \<open>Finality certificates\<close>

record finality_certificate =
  cert_block :: block
  cert_round :: nat
  cert_precommits :: "consensus_message list"

definition validator_powers :: "validator list \<Rightarrow> (string, nat) hmap" where
  "validator_powers validators =
     hm_from_list (map (\<lambda>v. (val_id v, val_voting_power v)) validators)"

definition certificate_vote ::
  "ext \<Rightarrow> finality_certificate \<Rightarrow> (string, nat) hmap \<Rightarrow> consensus_message
   \<Rightarrow> string list \<times> nat \<Rightarrow> (string list \<times> nat) result" where
  "certificate_vote E c powers vote = (\<lambda>(voters, signed_power).
     if msg_height vote \<noteq> blk_height (cert_block c) \<or> msg_round vote \<noteq> cert_round c
       \<or> msg_vote_type vote \<noteq> Precommit \<or> msg_block_hash vote \<noteq> blk_hash (cert_block c)
     then Err (EConsensus MixedVotes) else
     rbind (message_verify E vote) (\<lambda>_.
     rbind (ok_or (hm_get powers (msg_validator_id vote)) (EConsensus UnknownPrecommit)) (\<lambda>power.
     if msg_validator_id vote \<in> set voters then Ok (voters, signed_power) else
     rbind (ok_or (checked_add 128 signed_power power) (EConsensus PowerOverflow)) (\<lambda>signed_power'.
     Ok (msg_validator_id vote # voters, signed_power')))))"

definition certificate_verify :: "ext \<Rightarrow> finality_certificate \<Rightarrow> validator list \<Rightarrow> unit result" where
  "certificate_verify E c validators =
     (if blk_hash (cert_block c) \<noteq> calculate_hash E (cert_block c)
      then Err (EConsensus CertificateBlockHash) else
      let total_power = wrapping_sum 128 (map val_voting_power validators) in
      if total_power = 0 then Err (EConsensus ZeroPower) else
      let powers = validator_powers validators in
      rbind (for_each (certificate_vote E c powers) (cert_precommits c) ([], 0))
        (\<lambda>(voters, signed_power).
      if wrapping_mul 128 signed_power 3 \<le> wrapping_mul 128 total_power 2
      then Err (EConsensus NoQuorum) else Ok ()))"

subsection \<open>Interface: weighted quorums\<close>

text \<open>
  The only thing consensus needs of its membership tests: a group of voters that passes holds
  more than two thirds of the total power, which the members do not exceed.
\<close>

locale weighted_quorum =
  fixes members :: "'s \<Rightarrow> 'v set"
    and power :: "'s \<Rightarrow> 'v \<Rightarrow> nat"
    and total :: "'s \<Rightarrow> nat"
    and quorum :: "'s \<Rightarrow> 'v set \<Rightarrow> bool"
  assumes finite_members: "finite (members s)"
    and members_total: "quorum s Q \<Longrightarrow> sum (power s) (members s) \<le> total s"
    and quorum_weight: "quorum s Q \<Longrightarrow> 2 * total s < 3 * sum (power s) (Q \<inter> members s)"
begin

lemma overlap:
  assumes "quorum s A" and "quorum s B"
  shows "total s < 3 * sum (power s) (A \<inter> B \<inter> members s)"
proof -
  let ?w = "sum (power s)"
  have "?w (A \<inter> members s) + ?w (B \<inter> members s)
      = ?w ((A \<inter> members s) \<union> (B \<inter> members s)) + ?w ((A \<inter> members s) \<inter> (B \<inter> members s))"
    using finite_members by (intro sum.union_inter [symmetric]) auto
  moreover have "?w ((A \<inter> members s) \<union> (B \<inter> members s)) \<le> ?w (members s)"
    using finite_members by (intro sum_mono2) auto
  moreover have "(A \<inter> members s) \<inter> (B \<inter> members s) = A \<inter> B \<inter> members s" by auto
  ultimately show ?thesis
    using quorum_weight [OF assms(1)] quorum_weight [OF assms(2)] members_total [OF assms(1)] by simp
qed

lemma honest_overlap:
  assumes "quorum s A" and "quorum s B" and "3 * sum (power s) (F \<inter> members s) \<le> total s"
  obtains v where "v \<in> A" and "v \<in> B" and "v \<in> members s" and "v \<notin> F"
proof -
  have "\<not> A \<inter> B \<inter> members s \<subseteq> F"
  proof
    assume "A \<inter> B \<inter> members s \<subseteq> F"
    then have "sum (power s) (A \<inter> B \<inter> members s) \<le> sum (power s) (F \<inter> members s)"
      using finite_members by (intro sum_mono2) auto
    with overlap [OF assms(1,2)] assms(3) show False by simp
  qed
  then show thesis using that by blast
qed

end

subsection \<open>What a verified certificate shows\<close>

definition total_voting_power :: "validator list \<Rightarrow> nat" where
  "total_voting_power validators = sum_list (map val_voting_power validators)"

definition signers :: "consensus_message list \<Rightarrow> string set" where
  "signers votes = msg_validator_id ` set votes"

definition good_vote :: "ext \<Rightarrow> nat \<Rightarrow> nat \<Rightarrow> vote_type \<Rightarrow> string \<Rightarrow> consensus_message \<Rightarrow> bool" where
  "good_vote E height round t h vote \<longleftrightarrow> msg_height vote = height \<and> msg_round vote = round
     \<and> msg_vote_type vote = t \<and> msg_block_hash vote = h \<and> message_verify E vote = Ok ()"

abbreviation cert_good_vote :: "ext \<Rightarrow> finality_certificate \<Rightarrow> consensus_message \<Rightarrow> bool" where
  "cert_good_vote E c \<equiv>
     good_vote E (blk_height (cert_block c)) (cert_round c) Precommit (blk_hash (cert_block c))"

lemma good_votes_conflict:
  assumes "good_vote E h r t x m" and "good_vote E h r t y m'" and "x \<noteq> y"
    and "msg_validator_id m = msg_validator_id m'"
  shows "evidence_verify E \<lparr>evd_first = m, evd_second = m'\<rparr> = Ok ()"
  using assms by (simp add: good_vote_def evidence_verify_def)

lemma certificate_vote_Ok:
  "certificate_vote E c powers vote (vs, p) = Ok (vs', p') \<longleftrightarrow>
     cert_good_vote E c vote \<and> hm_get powers (msg_validator_id vote) \<noteq> None \<and>
     (if msg_validator_id vote \<in> set vs then vs' = vs \<and> p' = p
      else vs' = msg_validator_id vote # vs \<and> p' = p + hm_get0 powers (msg_validator_id vote)
        \<and> p' < 2 ^ 128)"
  by (cases "message_verify E vote"; cases "hm_get powers (msg_validator_id vote)")
    (auto simp: certificate_vote_def good_vote_def hm_get0_def checked_add_def)

definition counted :: "(string, nat) hmap \<Rightarrow> string list \<times> nat \<Rightarrow> bool" where
  "counted powers s \<longleftrightarrow> set (fst s) \<subseteq> fst ` set powers \<and> snd s = (\<Sum>v \<in> set (fst s). hm_get0 powers v)"

lemma validator_powers_wf: "hm_wf (validator_powers validators)"
  by (simp add: validator_powers_def hm_wf_from_list)

lemma validator_powers_keys: "fst ` set (validator_powers validators) = val_id ` set validators"
  by (simp add: validator_powers_def hm_from_list_keys image_image)

lemma validator_powers_total: "hm_total (validator_powers validators) \<le> total_voting_power validators"
  using hm_from_list_total [of "map (\<lambda>v. (val_id v, val_voting_power v)) validators"]
  by (simp add: validator_powers_def total_voting_power_def comp_def)

definition signed_power :: "validator list \<Rightarrow> string set \<Rightarrow> nat" where
  "signed_power validators Q = (\<Sum>v \<in> Q. hm_get0 (validator_powers validators) v)"

definition power_quorum :: "validator list \<Rightarrow> string set \<Rightarrow> bool" where
  "power_quorum validators Q \<longleftrightarrow> Q \<subseteq> val_id ` set validators
     \<and> 2 * total_voting_power validators < 3 * signed_power validators Q"

interpretation cq: weighted_quorum "\<lambda>validators. val_id ` set validators"
  "\<lambda>validators. hm_get0 (validator_powers validators)" total_voting_power power_quorum
proof
  fix vs :: "validator list" and Q
  show "finite (val_id ` set vs)" by simp
  show "sum (hm_get0 (validator_powers vs)) (val_id ` set vs) \<le> total_voting_power vs"
    using hm_total_sum [OF validator_powers_wf] validator_powers_total [of vs]
    by (simp add: validator_powers_keys)
  assume "power_quorum vs Q"
  then show "2 * total_voting_power vs < 3 * sum (hm_get0 (validator_powers vs)) (Q \<inter> val_id ` set vs)"
    by (simp add: power_quorum_def signed_power_def Int_absorb2)
qed

lemma signed_power_le_total:
  assumes "Q \<subseteq> val_id ` set validators"
  shows "signed_power validators Q \<le> total_voting_power validators"
proof -
  have "signed_power validators Q \<le> hm_total (validator_powers validators)"
    unfolding signed_power_def using assms
    by (intro hm_sum_le_total [OF validator_powers_wf]) (simp add: validator_powers_keys)
  also have "\<dots> \<le> total_voting_power validators" by (rule validator_powers_total)
  finally show ?thesis .
qed

subsection \<open>Interface: counting signed votes\<close>

text \<open>
  The certificates of the sources (finality, round change, snapshot) all count votes the same way:
  a vote that is not for this certificate, does not verify or comes from an unknown validator is
  an error, a repeated voter counts once, and the sum is compared with two thirds.  The interface
  states what one step of such a loop does; the loop and the comparison are treated here once.
\<close>

locale vote_tally =
  fixes step :: "(string, nat) hmap \<Rightarrow> 'v \<Rightarrow> string list \<times> nat \<Rightarrow> (string list \<times> nat) result"
    and voter :: "'v \<Rightarrow> string"
    and good :: "'v \<Rightarrow> bool"
  assumes step_Ok: "step powers vote (vs, p) = Ok (vs', p') \<longleftrightarrow>
     good vote \<and> hm_get powers (voter vote) \<noteq> None \<and>
     (if voter vote \<in> set vs then vs' = vs \<and> p' = p
      else vs' = voter vote # vs \<and> p' = p + hm_get0 powers (voter vote) \<and> p' < 2 ^ 128)"
begin

lemma loop_sound:
  assumes "for_each (step powers) votes (vs, p) = Ok (vs', p')" and "counted powers (vs, p)"
  shows "(\<forall>v \<in> set votes. good v \<and> voter v \<in> fst ` set powers)
    \<and> counted powers (vs', p') \<and> set vs' = set vs \<union> voter ` set votes"
  using assms
proof (induction votes arbitrary: vs p)
  case (Cons v votes)
  then obtain vs1 p1 where step: "step powers v (vs, p) = Ok (vs1, p1)"
    and rest: "for_each (step powers) votes (vs1, p1) = Ok (vs', p')" by auto
  from step have reg: "voter v \<in> fst ` set powers" and good: "good v"
    unfolding step_Ok hm_get_dom by blast+
  have vs1: "set vs1 = insert (voter v) (set vs)"
    using step by (auto simp: step_Ok split: if_splits)
  have "counted powers (vs1, p1)"
    using step Cons.prems(2) reg by (auto simp: step_Ok counted_def split: if_splits)
  from Cons.IH [OF rest this] reg good vs1 show ?case by auto
qed simp

lemma loop_complete:
  assumes "hm_wf powers" and "hm_total powers < 2 ^ 128" and "counted powers (vs, p)"
    and "\<forall>v \<in> set votes. good v \<and> voter v \<in> fst ` set powers"
  shows "\<exists>s. for_each (step powers) votes (vs, p) = Ok s"
  using assms(3,4)
proof (induction votes arbitrary: vs p)
  case (Cons v votes)
  let ?id = "voter v"
  let ?s = "if ?id \<in> set vs then (vs, p) else (?id # vs, p + hm_get0 powers ?id)"
  have cnt: "counted powers ?s" using Cons.prems by (auto simp: counted_def)
  then have "snd ?s \<le> hm_total powers"
    using hm_sum_le_total [OF assms(1), of "set (fst ?s)"] by (simp add: counted_def)
  with assms(2) have "snd ?s < 2 ^ 128" by (rule le_less_trans [rotated])
  then have "step powers v (vs, p) = Ok (fst ?s, snd ?s)"
    using Cons.prems(2) hm_get_dom [of powers ?id] unfolding step_Ok by auto
  with Cons.IH [of "fst ?s" "snd ?s"] cnt Cons.prems(2) show ?case by simp
qed simp

lemma tally_iff:
  assumes total: "3 * total_voting_power validators < 2 ^ 128"
  shows "(wrapping_sum 128 (map val_voting_power validators) \<noteq> 0
      \<and> (\<exists>s. for_each (step (validator_powers validators)) votes ([], 0) = Ok s
        \<and> \<not> wrapping_mul 128 (snd s) 3 \<le> wrapping_mul 128 (wrapping_sum 128 (map val_voting_power validators)) 2))
    \<longleftrightarrow> (\<forall>v \<in> set votes. good v) \<and> power_quorum validators (voter ` set votes)"
    (is "?L \<longleftrightarrow> ?G \<and> power_quorum validators ?Q")
proof -
  let ?p = "validator_powers validators" and ?T = "total_voting_power validators"
  let ?loop = "for_each (step ?p) votes ([], 0)"
  note wf = validator_powers_wf [of validators]
  have small: "?T < 2 ^ 128" using total by linarith
  then have t: "wrapping_sum 128 (map val_voting_power validators) = ?T"
    unfolding total_voting_power_def by (rule wrapping_sum_exact)
  have ptotal: "hm_total ?p < 2 ^ 128" using validator_powers_total [of validators] small by (rule le_less_trans)
  have c0: "counted ?p ([], 0)" by (simp add: counted_def)
  have sound: "?G \<and> ?Q \<subseteq> val_id ` set validators \<and> snd s = signed_power validators ?Q" if "?loop = Ok s" for s
    using loop_sound [of ?p _ "[]" 0 "fst s" "snd s", OF _ c0] that
    by (auto simp: counted_def signed_power_def validator_powers_keys)
  have exact: "\<not> wrapping_mul 128 q 3 \<le> wrapping_mul 128 ?T 2 \<longleftrightarrow> 2 * ?T < 3 * q" if "q \<le> ?T" for q
  proof -
    have "3 * q < 2 ^ 128" and "2 * ?T < 2 ^ 128" using that total by linarith+
    then show ?thesis by (simp only: wrapping_mul_def mult.commute [of _ 2] mult.commute [of _ 3] mod_less not_le)
  qed
  note bound = signed_power_le_total [of ?Q validators]
  have "?G \<Longrightarrow> ?Q \<subseteq> val_id ` set validators \<Longrightarrow> \<exists>s. ?loop = Ok s"
    by (rule loop_complete [OF wf ptotal c0]) (auto simp: validator_powers_keys)
  then show ?thesis unfolding t power_quorum_def
    using sound exact bound by (metis less_nat_zero_code mult_0_right le_zero_eq)
qed

end

interpretation cv: vote_tally "certificate_vote E c" msg_validator_id "cert_good_vote E c" for E c
  by unfold_locales (rule certificate_vote_Ok)

lemma certificate_verify_iff:
  assumes total: "3 * total_voting_power validators < 2 ^ 128"
  shows "certificate_verify E c validators = Ok () \<longleftrightarrow>
    blk_hash (cert_block c) = calculate_hash E (cert_block c)
    \<and> (\<forall>v \<in> set (cert_precommits c). cert_good_vote E c v)
    \<and> power_quorum validators (signers (cert_precommits c))"
  unfolding signers_def cv.tally_iff [OF total, symmetric] certificate_verify_def Let_def
  by (auto simp: case_prod_beta)

lemma message_signed_verify:
  assumes "hex_laws E" and "ed25519_laws E" and "length (wal_signing_key w) = 32"
  shows "message_verify E (message_signed E h r w t x) = Ok ()"
  using verify_signature_signed [OF assms] by (simp add: message_verify_def message_signed_def Let_def)

subsection \<open>Concrete certificates\<close>

definition sample_wallet :: wallet where
  "sample_wallet = \<lparr>wal_signing_key = replicate 32 1\<rparr>"

definition sample_validators :: "validator list" where
  "sample_validators = [\<lparr>val_id = wallet_address toy_ext sample_wallet, val_voting_power = 1\<rparr>]"

definition sample_certificate :: "nat \<Rightarrow> finality_certificate" where
  "sample_certificate t =
     (let b = genesis_at toy_ext t in
      \<lparr>cert_block = b, cert_round = 0,
       cert_precommits = [message_signed toy_ext 0 0 sample_wallet Precommit (blk_hash b)]\<rparr>)"

lemma sample_total: "total_voting_power sample_validators = 1"
  by (simp add: total_voting_power_def sample_validators_def)

lemma sample_certificate_fields:
  "cert_block (sample_certificate t) = genesis_at toy_ext t"
  "cert_round (sample_certificate t) = 0"
  "blk_height (genesis_at toy_ext t) = 0"
  by (simp_all add: sample_certificate_def Let_def genesis_at_def)

lemma sample_certificate_premises:
  "\<forall>v \<in> set (cert_precommits (sample_certificate t)).
     cert_good_vote toy_ext (sample_certificate t) v \<and> msg_validator_id v \<in> val_id ` set sample_validators"
  "signed_power sample_validators (signers (cert_precommits (sample_certificate t))) = 1"
  using message_signed_verify [OF hex_laws_toy ed25519_laws_toy, of sample_wallet]
  by (simp_all add: sample_certificate_def good_vote_def sample_validators_def Let_def genesis_at_def
      message_signed_def signed_power_def signers_def validator_powers_def hm_from_list_def
      hm_get0_def hm_get_def hm_insert_def sample_wallet_def)

lemma sample_certificate_ok:
  "certificate_verify toy_ext (sample_certificate t) sample_validators = Ok ()"
proof -
  have "3 * total_voting_power sample_validators < 2 ^ 128" by (simp add: sample_total)
  from certificate_verify_iff [OF this] show ?thesis
    using sample_certificate_premises [of t]
    by (auto simp: sample_total sample_certificate_fields sample_certificate_def Let_def power_quorum_def signers_def)
qed

lemma sum_be_bytes: "sum_list (be_bytes w 0) = 0" "sum_list (be_bytes (Suc w) 1) = 1"
proof -
  show zero: "sum_list (be_bytes w 0) = 0" for w by (induction w) simp_all
  show "sum_list (be_bytes (Suc w) 1) = 1" by (simp add: zero)
qed

lemma sample_hashes_differ:
  "calculate_hash toy_ext (genesis_at toy_ext 0) \<noteq> calculate_hash toy_ext (genesis_at toy_ext 1)"
proof
  assume "calculate_hash toy_ext (genesis_at toy_ext 0) = calculate_hash toy_ext (genesis_at toy_ext 1)"
  then have "hex_decode toy_ext (calculate_hash toy_ext (genesis_at toy_ext 0))
      = hex_decode toy_ext (calculate_hash toy_ext (genesis_at toy_ext 1))" by simp
  moreover have "hex_decode toy_ext (calculate_hash toy_ext b) = Some (sha256 toy_ext (block_preimage toy_ext b))" for b
    using hex_laws_toy by (simp add: hex_laws_def calculate_hash_def)
  ultimately have "sum_list (block_preimage toy_ext (genesis_at toy_ext 0))
      = sum_list (block_preimage toy_ext (genesis_at toy_ext 1))"
    by (simp add: toy_ext_def toy_hash_def)
  with sum_be_bytes [of 7] sum_be_bytes(1) [of 8] show False
    by (simp add: block_preimage_def genesis_at_def del: be_bytes.simps)
qed

subsection \<open>Properties\<close>

text \<open>
  C7.  The certificate check, exactly.  A finality certificate is accepted if and only if its
  block hash is the hash of its block, every precommit is a correctly signed vote of a registered
  validator for this block at this height and round, and the validators that signed, each counted
  once however often its vote is repeated, hold more than two thirds of all voting power.
\<close>

theorem certificate_verify_exact:
  assumes "3 * total_voting_power validators < 2 ^ 128"
  shows "certificate_verify E c validators = Ok () \<longleftrightarrow>
    blk_hash (cert_block c) = calculate_hash E (cert_block c)
    \<and> list_all (\<lambda>v. msg_height v = blk_height (cert_block c) \<and> msg_round v = cert_round c
        \<and> msg_vote_type v = Precommit \<and> msg_block_hash v = blk_hash (cert_block c)
        \<and> message_verify E v = Ok () \<and> msg_validator_id v \<in> val_id ` set validators) (cert_precommits c)
    \<and> 2 * total_voting_power validators < 3 * signed_power validators (signers (cert_precommits c))"
  unfolding certificate_verify_iff [OF assms] good_vote_def list_all_iff power_quorum_def signers_def by blast

theorem certificate_verify_exact_witness:
  "certificate_verify toy_ext (sample_certificate 0) sample_validators = Ok ()"
  using certificate_verify_exact [of sample_validators toy_ext "sample_certificate 0"]
    sample_certificate_premises [of 0]
  by (simp add: sample_total sample_certificate_fields list_all_iff good_vote_def)

text \<open>
  C8.  Accountable agreement.  Two accepted certificates for different blocks at the same height
  and round convict validators with more than a third of the voting power: each of them signed a
  precommit in both certificates, and the two votes are double-vote evidence that verifies.  So
  while at most a third of the power misbehaves, a round finalizes at most one block.
\<close>

theorem certificate_accountability:
  assumes "3 * total_voting_power validators < 2 ^ 128"
    and "certificate_verify E c validators = Ok ()" and "certificate_verify E d validators = Ok ()"
    and "blk_height (cert_block c) = blk_height (cert_block d)" and "cert_round c = cert_round d"
    and "blk_hash (cert_block c) \<noteq> blk_hash (cert_block d)"
  shows "\<exists>D. D \<subseteq> val_id ` set validators \<and> total_voting_power validators < 3 * signed_power validators D
    \<and> (\<forall>v \<in> D. \<exists>m \<in> set (cert_precommits c). \<exists>m' \<in> set (cert_precommits d).
        msg_validator_id m = v \<and> evidence_verify E \<lparr>evd_first = m, evd_second = m'\<rparr> = Ok ())"
proof (intro exI conjI ballI)
  let ?C = "signers (cert_precommits c)" and ?D = "signers (cert_precommits d)"
  let ?V = "val_id ` set validators"
  have q: "power_quorum validators ?C" "power_quorum validators ?D"
    using assms(2,3) unfolding certificate_verify_iff [OF assms(1)] by blast+
  show "?C \<inter> ?D \<inter> ?V \<subseteq> ?V" by blast
  show "total_voting_power validators < 3 * signed_power validators (?C \<inter> ?D \<inter> ?V)"
    using cq.overlap [OF q] by (simp add: signed_power_def)
  fix v assume "v \<in> ?C \<inter> ?D \<inter> ?V"
  then obtain m m' where m: "m \<in> set (cert_precommits c)" "m' \<in> set (cert_precommits d)"
    and id: "msg_validator_id m = v" "msg_validator_id m' = v" by (auto simp: signers_def)
  have "cert_good_vote E c m" and "cert_good_vote E d m'"
    using m assms(2,3) unfolding certificate_verify_iff [OF assms(1)] by blast+
  then have "evidence_verify E \<lparr>evd_first = m, evd_second = m'\<rparr> = Ok ()"
    using assms(4-6) id by (intro good_votes_conflict) auto
  with m id show "\<exists>m \<in> set (cert_precommits c). \<exists>m' \<in> set (cert_precommits d).
      msg_validator_id m = v \<and> evidence_verify E \<lparr>evd_first = m, evd_second = m'\<rparr> = Ok ()" by blast
qed

theorem certificate_accountability_witness:
  "\<exists>D. D \<subseteq> val_id ` set sample_validators \<and> 1 < 3 * signed_power sample_validators D
    \<and> (\<forall>v \<in> D. \<exists>m \<in> set (cert_precommits (sample_certificate 0)).
        \<exists>m' \<in> set (cert_precommits (sample_certificate 1)).
        msg_validator_id m = v \<and> evidence_verify toy_ext \<lparr>evd_first = m, evd_second = m'\<rparr> = Ok ())"
proof -
  have "3 * total_voting_power sample_validators < 2 ^ 128" by (simp add: sample_total)
  from certificate_accountability [OF this sample_certificate_ok sample_certificate_ok, of 0 1]
  show ?thesis using sample_hashes_differ
    by (simp only: sample_certificate_fields sample_total genesis_at_wf simp_thms)
qed

text \<open>
  Domain separation.  The bytes of a vote determine its height, round, voter, type and
  block, and are never the bytes of a proposal: a signature on one consensus message can not be
  presented as a signature on another one.
\<close>

theorem vote_bytes_binding:
  assumes "h < 2 ^ 64" "h' < 2 ^ 64" "r < 2 ^ 32" "r' < 2 ^ 32"
    and "text_ok v" "text_ok v'" "text_ok x" "text_ok x'"
  shows "(message_unsigned_bytes h r v t x = message_unsigned_bytes h' r' v' t' x'
      \<longleftrightarrow> h = h' \<and> r = r' \<and> v = v' \<and> t = t' \<and> x = x')
    \<and> message_unsigned_bytes h r v t x \<noteq> proposal_unsigned_bytes k q p y vr prevotes"
proof
  have code: "vote_code t = vote_code t' \<longleftrightarrow> t = t'" by (cases t; cases t') simp_all
  have end1: "push_text x = push_text x' \<longleftrightarrow> x = x'" using assms(7,8) ptext.enc_inj by blast
  show "message_unsigned_bytes h r v t x = message_unsigned_bytes h' r' v' t' x'
      \<longleftrightarrow> h = h' \<and> r = r' \<and> v = v' \<and> t = t' \<and> x = x'"
    unfolding message_unsigned_bytes_def same_append_eq
      split_8 [OF assms(1,2)] split_4 [OF assms(3,4)]
    using assms(5,6) by (auto simp: code end1 ptext.split_iff)
  have "take 7 (message_unsigned_bytes h r v t x) \<noteq> take 7 (proposal_unsigned_bytes k q p y vr prevotes)"
    by (simp add: message_unsigned_bytes_def proposal_unsigned_bytes_def Let_def as_bytes_def)
  then show "message_unsigned_bytes h r v t x \<noteq> proposal_unsigned_bytes k q p y vr prevotes" by auto
qed

theorem vote_bytes_binding_witness:
  "message_unsigned_bytes 1 0 ''a'' Prevote ''h'' \<noteq> message_unsigned_bytes 1 0 ''a'' Precommit ''h''"
  using vote_bytes_binding [of 1 1 0 0 "''a''" "''a''" "''h''" "''h''" Prevote Precommit]
  by (simp add: text_ok_def)

end
