(* ===== verification/ScheduledEvent.thy ===== *)
theory ScheduledEvent
  imports NodeEmission Votes
begin

text \<open>
  Scheduled system events (\<^verbatim>\<open>src/src/scheduled_event.rs\<close>) and the node registrations they
  carry (\<^verbatim>\<open>src/src/network.rs\<close>, lines 88 to 156): which events are well formed, which are due
  at a block's timestamp, and the check that a block carries exactly the due ones.
\<close>

subsection \<open>Registrations\<close>

definition registration_signer :: "node_reward_registration \<Rightarrow> string" where
  "registration_signer r =
     (if nreg_registration_signer r = [] then nreg_reward_address r else nreg_registration_signer r)"

definition node_registration_bytes :: "string \<Rightarrow> string \<Rightarrow> u8 list" where
  "node_registration_bytes reward_address peer_id =
     as_bytes (''ieum-node-reward-registration-v1:'' @ reward_address @ '':'' @ peer_id)"

definition validator_registration_bytes :: "string \<Rightarrow> string \<Rightarrow> u8 list" where
  "validator_registration_bytes validator_id peer_id =
     as_bytes (''ieum-validator-registration-v1:'' @ validator_id @ '':'' @ peer_id)"

definition verify_node_identity :: "ext \<Rightarrow> node_reward_registration \<Rightarrow> unit result" where
  "verify_node_identity E r =
     rbind (ok_or (hex_decode E (nreg_node_public_key_hex r)) (EEvent NodeKeyHex)) (\<lambda>key.
     rbind (ok_or (libp2p_peer_id E key) (EEvent NodeKeyFormat)) (\<lambda>peer_id.
     if peer_id \<noteq> nreg_peer_id r then Err (EEvent PeerIdMismatch) else
     rbind (ok_or (hex_decode E (nreg_node_signature_hex r)) (EEvent NodeSignatureHex)) (\<lambda>signature.
     if \<not> libp2p_verify E key (node_registration_bytes (nreg_reward_address r) (nreg_peer_id r)) signature
     then Err (EEvent NodeSignatureMismatch) else Ok ())))"

definition verify_reward_address :: "ext \<Rightarrow> node_reward_registration \<Rightarrow> unit result" where
  "verify_reward_address E r =
     (if nreg_reward_signature_hex r = [] then Err (EEvent NodeSignatureMismatch)
      else verify_account_signature E (nreg_reward_address r)
        (node_registration_bytes (nreg_reward_address r) (nreg_peer_id r))
        (nreg_reward_signature_hex r))"

subsection \<open>Addresses\<close>

definition validate_address :: "string \<Rightarrow> unit result" where
  "validate_address address =
     (let value = (case strip_prefix ''0x'' address of Some v \<Rightarrow> v | None \<Rightarrow> address)
      in if length value \<noteq> 40 \<or> \<not> list_all is_ascii_hexdigit value then Err (EEvent BadAddress) else Ok ())"

definition validate_reward_address :: "string \<Rightarrow> unit result" where
  "validate_reward_address address =
     (let is_account = starts_with address ''0x'' \<and> length address = 42
            \<and> list_all is_ascii_hexdigit (drop 2 address);
          is_legacy = length address = 64 \<and> list_all is_ascii_hexdigit address
      in if \<not> is_account \<and> \<not> is_legacy then Err (EEvent BadRewardAddress) else Ok ())"

subsection \<open>Validation of an event\<close>

definition event_id_ok :: "string \<Rightarrow> bool" where
  "event_id_ok i = (i \<noteq> [] \<and> length i \<le> 128
     \<and> list_all (\<lambda>c. is_ascii_alphanumeric c \<or> c \<in> set ''-_.'') i)"

definition payload_hash :: "ext \<Rightarrow> scheduled_event \<Rightarrow> string" where
  "payload_hash E ev = hex_encode E (sha256 E (event_consensus_bytes E ev))"

definition policy_hash_ok :: "string \<Rightarrow> bool" where
  "policy_hash_ok h = (length h = 64 \<and> list_all is_ascii_hexdigit h)"

text \<open>The loop over payments, with the address check and the error of its event type.\<close>

definition check_payment ::
  "(string \<Rightarrow> unit result) \<Rightarrow> event_error \<Rightarrow> event_payment \<Rightarrow> unit \<Rightarrow> unit result" where
  "check_payment address_check zero p u =
     rbind (address_check (pay_address p)) (\<lambda>_.
     if pay_amount p = 0 then Err (EEvent zero) else Ok ())"

abbreviation check_payments ::
  "(string \<Rightarrow> unit result) \<Rightarrow> event_error \<Rightarrow> event_payment list \<Rightarrow> unit result" where
  "check_payments address_check zero ps \<equiv> for_each (check_payment address_check zero) ps ()"

definition check_validator_registration ::
  "ext \<Rightarrow> validator_registration \<Rightarrow> string list \<times> string list \<Rightarrow> (string list \<times> string list) result" where
  "check_validator_registration E r = (\<lambda>(peers, addresses).
     if vreg_peer_id r \<in> set peers \<or> vreg_validator_id r \<in> set addresses
     then Err (EEvent DuplicateRegistration) else
     rbind (verify_signature E (vreg_validator_id r)
       (validator_registration_bytes (vreg_validator_id r) (vreg_peer_id r)) (vreg_signature_hex r)) (\<lambda>_.
     Ok (vreg_peer_id r # peers, vreg_validator_id r # addresses)))"

definition check_node_registration ::
  "ext \<Rightarrow> node_reward_registration \<Rightarrow> string list \<times> string list \<Rightarrow> (string list \<times> string list) result" where
  "check_node_registration E r = (\<lambda>(peers, addresses).
     rbind (validate_reward_address (nreg_reward_address r)) (\<lambda>_.
     rbind (verify_node_identity E r) (\<lambda>_.
     if nreg_peer_id r \<in> set peers \<or> nreg_reward_address r \<in> set addresses
     then Err (EEvent DuplicateRegistration) else
     rbind (verify_signature E (registration_signer r)
       (node_registration_bytes (nreg_reward_address r) (nreg_peer_id r)) (nreg_signature_hex r)) (\<lambda>_.
     Ok (nreg_peer_id r # peers, nreg_reward_address r # addresses)))))"

definition check_attestation :: "ext \<Rightarrow> nat \<Rightarrow> node_service_attestation \<Rightarrow> unit \<Rightarrow> unit result" where
  "check_attestation E epoch a u =
     rbind (attestation_verify E a) (\<lambda>_.
     if att_epoch a \<noteq> epoch then Err (EEvent WrongServiceEpoch) else Ok ())"

fun validate_action :: "ext \<Rightarrow> string \<Rightarrow> scheduled_event_action \<Rightarrow> unit result" where
  "validate_action E i (TreasuryDistribution recipients) =
     (if recipients = [] \<or> length recipients > 10000 then Err (EEvent BadTreasuryCount)
      else check_payments validate_address ZeroTreasury recipients)"
| "validate_action E i (PeriodicProducerReward producer amount) =
     rbind (validate_address producer) (\<lambda>_.
     if amount = 0 then Err (EEvent ZeroReward) else Ok ())"
| "validate_action E i (IncidentCompensation incident_id victim amount) =
     (if is_blank incident_id then Err (EEvent EmptyIncident) else
      rbind (validate_address victim) (\<lambda>_.
      if amount = 0 then Err (EEvent ZeroCompensation) else Ok ()))"
| "validate_action E i (ProtocolCheckpoint protocol_version) =
     (if protocol_version = 0 then Err (EEvent ZeroProtocol) else Ok ())"
| "validate_action E i (BootstrapValidatorReward registrations amount) =
     (if length registrations \<noteq> 4 \<or> amount = 0 then Err (EEvent BadBootstrapReward) else
      rbind (for_each (check_validator_registration E) registrations ([], [])) (\<lambda>_. Ok ()))"
| "validate_action E i (NodeMilestoneReward registrations amount) =
     (if length registrations \<noteq> 100 \<or> amount = 0 then Err (EEvent BadMilestoneReward) else
      rbind (for_each (check_node_registration E) registrations ([], [])) (\<lambda>_. Ok ()))"
| "validate_action E i (ValidatorDailyInterest snapshot_height policy_hash annual_rate_bps payments) =
     (if \<not> policy_hash_ok policy_hash then Err (EEvent BadPolicyHash)
      else if annual_rate_bps > 5000 \<or> payments = [] then Err (EEvent BadInterestTerms)
      else check_payments validate_reward_address ZeroInterest payments)"
| "validate_action E i (HolderDailyReward snapshot_height policy_hash annual_rate_bps payments) =
     (if \<not> policy_hash_ok policy_hash \<or> annual_rate_bps > 5000 \<or> payments = []
      then Err (EEvent BadHolderTerms)
      else check_payments validate_address ZeroHolderReward payments)"
| "validate_action E i (DoubleVoteSlash evidence penalty_bps) =
     rbind (evidence_verify E evidence) (\<lambda>_.
     if penalty_bps \<noteq> DOUBLE_VOTE_SLASH_BPS then Err (EEvent WrongPenalty)
     else if i \<noteq> slash_event_id E evidence then Err (EEvent WrongSlashId) else Ok ())"
| "validate_action E i (DelegationDailyReward snapshot_height policy_hash annual_rate_bps payments) =
     (if \<not> policy_hash_ok policy_hash \<or> annual_rate_bps > 5000 \<or> payments = []
      then Err (EEvent BadDelegationTerms)
      else check_payments validate_reward_address ZeroDelegationReward payments)"
| "validate_action E i (NodeServiceDailyReward snapshot_height epoch attestations payments) =
     (if i \<noteq> service_event_id epoch \<or> length attestations < SERVICE_MINIMUM_VALIDATORS
        \<or> length attestations > 10000 \<or> payments = [] \<or> length payments > 10000
      then Err (EEvent BadServiceTerms) else
      rbind (for_each (check_attestation E epoch) attestations ()) (\<lambda>_.
      check_payments validate_address ZeroServiceReward payments))"

definition event_validate :: "ext \<Rightarrow> scheduled_event \<Rightarrow> unit result" where
  "event_validate E ev =
     (if \<not> event_id_ok (ev_id ev) then Err (EEvent BadEventId)
      else if ev_execute_at ev = 0 then Err (EEvent ZeroExecuteAt)
      else validate_action E (ev_id ev) (ev_action ev))"

subsection \<open>The schedule\<close>

type_synonym event_schedule = "scheduled_event list"

definition schedule_check :: "ext \<Rightarrow> scheduled_event \<Rightarrow> string list \<Rightarrow> string list result" where
  "schedule_check E ev ids =
     rbind (event_validate E ev) (\<lambda>_.
     if ev_id ev \<in> set ids then Err (EEvent DuplicateEventId) else Ok (ev_id ev # ids))"

definition schedule_validate :: "ext \<Rightarrow> event_schedule \<Rightarrow> unit result" where
  "schedule_validate E events = rbind (for_each (schedule_check E) events []) (\<lambda>_. Ok ())"

definition due :: "event_schedule \<Rightarrow> nat \<Rightarrow> string set \<Rightarrow> scheduled_event list" where
  "due events timestamp executed =
     sort_key (\<lambda>ev. (ev_execute_at ev, ev_id ev))
       (filter (\<lambda>ev. ev_execute_at ev \<le> timestamp \<and> ev_id ev \<notin> executed) events)"

definition validate_block_events ::
  "event_schedule \<Rightarrow> nat \<Rightarrow> scheduled_event list \<Rightarrow> string set \<Rightarrow> unit result" where
  "validate_block_events schedule timestamp events executed =
     (if events \<noteq> due schedule timestamp executed then Err (EEvent EventMismatch) else Ok ())"

definition next_pending_at :: "event_schedule \<Rightarrow> string set \<Rightarrow> nat option" where
  "next_pending_at events executed =
     (case map ev_execute_at (filter (\<lambda>ev. ev_id ev \<notin> executed) events) of
        [] \<Rightarrow> None
      | t # ts \<Rightarrow> Some (fold min ts t))"

end
