(* ===== verification/RawTransaction.thy ===== *)
theory RawTransaction
  imports Wallet Staking
begin

unbundle bit_operations_syntax

text \<open>
  Ethereum legacy transactions: \<^verbatim>\<open>src/src/raw_transaction.rs\<close>.  The RLP decoder and encoder
  are modelled in full; secp256k1 recovery and Keccak are functions of the record \<^typ>\<open>ext\<close>.
  A slice of the input is its bytes, and \<^verbatim>\<open>usize\<close> has 64 bits.  The loops that shift a byte
  into an accumulator are kept at the width of the source (64 and 128 bit words).
\<close>

subsection \<open>Integers\<close>

definition shift_in_64 :: "u8 list \<Rightarrow> 64 word" where
  "shift_in_64 value = foldl (\<lambda>acc byte. push_bit 8 acc OR ucast byte) 0 value"

definition shift_in_128 :: "u8 list \<Rightarrow> 128 word" where
  "shift_in_128 value = foldl (\<lambda>acc byte. push_bit 8 acc OR ucast byte) 0 value"

definition value_u64 :: "u8 list \<Rightarrow> nat result" where
  "value_u64 value =
     (if length value > 8 then Err (ERaw RawU64Range) else Ok (unat (shift_in_64 value)))"

definition value_u128 :: "u8 list \<Rightarrow> nat result" where
  "value_u128 value =
     (if length value > 16 then Err (ERaw RawU128Range) else Ok (unat (shift_in_128 value)))"

definition padded_scalar :: "u8 list \<Rightarrow> u8 list result" where
  "padded_scalar value =
     (if length value > 32 then Err (ERaw RawScalarLength)
      else Ok (replicate (32 - length value) 0 @ value))"

subsection \<open>Decoding\<close>

definition read_length :: "u8 list \<Rightarrow> nat \<Rightarrow> nat \<Rightarrow> nat result" where
  "read_length input start width =
     (if width = 0 \<or> width > 8 \<or> start + width > length input then Err (ERaw RlpLengthField)
      else Ok (unat (shift_in_64 (take width (drop start input)))))"

definition item_header :: "u8 list \<Rightarrow> nat \<Rightarrow> (bool \<times> nat \<times> nat) result" where
  "item_header input pre =
     (if pre \<le> 127 then Ok (False, 0, 1)
      else if pre \<le> 183 then Ok (False, 1, pre - 128)
      else if pre \<le> 191 then
        (let width = pre - 183
         in rbind (read_length input 1 width) (\<lambda>len. Ok (False, 1 + width, len)))
      else if pre \<le> 247 then Ok (True, 1, pre - 192)
      else
        (let width = pre - 247
         in rbind (read_length input 1 width) (\<lambda>len. Ok (True, 1 + width, len))))"

definition decode_item :: "u8 list \<Rightarrow> bool \<Rightarrow> (u8 list \<times> nat) result" where
  "decode_item input require_list =
     (case input of
        [] \<Rightarrow> Err (ERaw RlpEmpty)
      | first # _ \<Rightarrow>
          rbind (item_header input (unat first)) (\<lambda>(is_list, start, len).
          if require_list \<noteq> is_list then Err (ERaw RlpKind) else
          rbind (ok_or (checked_add 64 start len) (ERaw RlpOverflow)) (\<lambda>stop.
          if stop > length input then Err (ERaw RlpTruncated)
          else Ok (take (stop - start) (drop start input), stop))))"

lemma item_header_progress:
  "item_header input pre = Ok (is_list, start, len) \<Longrightarrow> 0 < start + len"
  by (auto simp: item_header_def Let_def split: if_splits)

lemma decode_item_progress: "decode_item input b = Ok (v, n) \<Longrightarrow> 0 < n \<and> n \<le> length input"
  by (auto simp: decode_item_def split: list.splits prod.splits if_splits dest: item_header_progress)

function decode_fields :: "u8 list \<Rightarrow> u8 list list result" where
  "decode_fields payload =
     (if payload = [] then Ok []
      else rbind (decode_item payload False) (\<lambda>(value, size).
        rbind (decode_fields (drop size payload)) (\<lambda>fields. Ok (value # fields))))"
  by pat_completeness auto
termination by (relation "measure length") (auto dest: decode_item_progress)

declare decode_fields.simps [simp del]

definition decode_list :: "u8 list \<Rightarrow> u8 list list result" where
  "decode_list input =
     rbind (decode_item input True) (\<lambda>(payload, consumed).
     if consumed \<noteq> length input then Err (ERaw RlpTrailing) else decode_fields payload)"

subsection \<open>Encoding\<close>

text \<open>\<^verbatim>\<open>position(|byte| *byte != 0)\<close>, or the given default.\<close>

definition first_nonzero :: "u8 list \<Rightarrow> nat \<Rightarrow> nat" where
  "first_nonzero bytes dflt =
     (let n = length (takeWhile (\<lambda>b. b = 0) bytes) in if n = length bytes then dflt else n)"

definition encode_length :: "nat \<Rightarrow> nat \<Rightarrow> nat \<Rightarrow> u8 list" where
  "encode_length len short_base long_base =
     (if len \<le> 55 then [word_of_nat (short_base + len)]
      else
        (let bytes = be_bytes 8 len;
             encoded = drop (first_nonzero bytes (length bytes - 1)) bytes
         in word_of_nat (long_base + length encoded) # encoded))"

definition encode_bytes :: "u8 list \<Rightarrow> u8 list" where
  "encode_bytes value =
     (if length value = 1 \<and> unat (hd value) < 128 then value
      else encode_length (length value) 128 183 @ value)"

definition encode_u64 :: "nat \<Rightarrow> u8 list" where
  "encode_u64 value =
     (if value = 0 then encode_bytes []
      else let bytes = be_bytes 8 value in encode_bytes (drop (first_nonzero bytes 7) bytes))"

definition encode_u128 :: "nat \<Rightarrow> u8 list" where
  "encode_u128 value =
     (if value = 0 then encode_bytes []
      else let bytes = be_bytes 16 value in encode_bytes (drop (first_nonzero bytes 15) bytes))"

definition encode_list :: "u8 list list \<Rightarrow> u8 list" where
  "encode_list items =
     (let payload = concat items in encode_length (length payload) 192 247 @ payload)"

subsection \<open>Transactions\<close>

definition decode_action :: "ext \<Rightarrow> u8 list \<Rightarrow> u8 list \<Rightarrow> transaction_action result" where
  "decode_action E to data =
     (if data = [] then Ok Transfer
      else if ''0x'' @ hex_encode E to \<noteq> STAKING_SYSTEM_ADDRESS then Err (ERaw RawCalldataTarget)
      else rbind (ok_or (from_utf8 data) (ERaw RawCalldataUtf8)) (\<lambda>txt.
        if txt = ''claim'' then Ok ClaimUnbonded
        else (case strip_prefix ''delegate:'' txt of
          Some v \<Rightarrow> rbind (validate_validator v) (\<lambda>_. Ok (Delegate v))
        | None \<Rightarrow> (case strip_prefix ''undelegate:'' txt of
            Some v \<Rightarrow> rbind (validate_validator v) (\<lambda>_. Ok (Undelegate v))
          | None \<Rightarrow> Err (ERaw RawCalldataUnsupported)))))"

definition eip155_signing :: "nat \<Rightarrow> nat \<Rightarrow> nat \<Rightarrow> u8 list \<Rightarrow> nat \<Rightarrow> u8 list \<Rightarrow> nat \<Rightarrow> u8 list" where
  "eip155_signing nonce gas_price gas_limit to amount data chain_id =
     encode_list [encode_u64 nonce, encode_u64 gas_price, encode_u64 gas_limit, encode_bytes to,
       encode_u128 amount, encode_bytes data, encode_u64 chain_id, encode_bytes [], encode_bytes []]"

definition decode_legacy :: "ext \<Rightarrow> string \<Rightarrow> nat \<Rightarrow> transaction result" where
  "decode_legacy E raw_hex expected_chain_id =
     rbind (ok_or (hex_decode E (trim_0x raw_hex)) (ERaw RawNotHex)) (\<lambda>raw.
     rbind (decode_list raw) (\<lambda>fields.
     if length fields \<noteq> 9 then Err (ERaw RawFieldCount) else
     rbind (value_u64 (fields ! 0)) (\<lambda>nonce.
     rbind (value_u64 (fields ! 1)) (\<lambda>gas_price.
     rbind (value_u64 (fields ! 2)) (\<lambda>gas_limit.
     let to = fields ! 3 in
     if length to \<noteq> 20 then Err (ERaw RawAddressLength) else
     rbind (value_u128 (fields ! 4)) (\<lambda>amount.
     rbind (decode_action E to (fields ! 5)) (\<lambda>action.
     rbind (value_u64 (fields ! 6)) (\<lambda>v.
     if v < 35 then Err (ERaw RawNoChainId) else
     let chain_id = (v - 35) div 2 in
     if chain_id \<noteq> expected_chain_id then Err (ERaw RawChainIdMismatch) else
     rbind (padded_scalar (fields ! 7)) (\<lambda>r.
     rbind (padded_scalar (fields ! 8)) (\<lambda>s.
     if \<not> secp_scalars_ok E r s then Err (ERaw RawBadScalars) else
     let digest = keccak256 E
           (eip155_signing nonce gas_price gas_limit to amount (fields ! 5) chain_id) in
     rbind (ok_or (secp_recover E digest r s ((v - 35) mod 2)) (ERaw RawRecover)) (\<lambda>point.
     let address = ''0x'' @ hex_encode E (drop 12 (keccak256 E (drop 1 point))) in
     rbind (ok_or (checked_mul 128 gas_price gas_limit) (ERaw RawFeeOverflow)) (\<lambda>fee.
     Ok \<lparr>tx_from = address, tx_to = ''0x'' @ hex_encode E to, tx_amount = amount, tx_fee = fee,
         tx_nonce = nonce, tx_action = action,
         tx_signature = ''ethraw:'' @ hex_encode E raw\<rparr>))))))))))))"

definition verify_embedded :: "ext \<Rightarrow> transaction \<Rightarrow> nat \<Rightarrow> unit result" where
  "verify_embedded E tx expected_chain_id =
     rbind (ok_or (strip_prefix ''ethraw:'' (tx_signature tx)) (ERaw RawNoMarker)) (\<lambda>raw.
     rbind (ok_or (hex_decode E raw) (ERaw RawNotHex)) (\<lambda>bytes.
     rbind (decode_list bytes) (\<lambda>fields.
     if length fields \<noteq> 9 then Err (ERaw RawFieldCount) else
     rbind (value_u64 (fields ! 6)) (\<lambda>v.
     if v < 35 then Err (ERaw RawNoChainId) else
     rbind (decode_legacy E raw expected_chain_id) (\<lambda>decoded.
     if decoded = tx then Ok () else Err (ERaw RawFieldMismatch))))))"

definition ethereum_fee_terms :: "ext \<Rightarrow> transaction \<Rightarrow> nat \<times> nat" where
  "ethereum_fee_terms E tx =
     (case strip_prefix ''ethraw:'' (tx_signature tx) of
        None \<Rightarrow> (tx_fee tx, 1)
      | Some raw \<Rightarrow> (case hex_decode E raw of
          None \<Rightarrow> (tx_fee tx, 1)
        | Some bytes \<Rightarrow> (case decode_list bytes of
            Err _ \<Rightarrow> (tx_fee tx, 1)
          | Ok fs \<Rightarrow>
              if length fs \<noteq> 9 then (tx_fee tx, 1)
              else (case (value_u64 (fs ! 1), value_u64 (fs ! 2)) of
                (Ok gas_price, Ok gas_limit) \<Rightarrow>
                  if checked_mul 128 gas_price gas_limit = Some (tx_fee tx)
                  then (gas_price, gas_limit) else (tx_fee tx, 1)
              | _ \<Rightarrow> (tx_fee tx, 1)))))"

subsection \<open>The integer loops read big-endian numbers\<close>

lemma shift_in_step:
  fixes acc :: "'a::len word" and b :: u8
  assumes "8 \<le> LENGTH('a)" and "unat acc * 256 + unat b < 2 ^ LENGTH('a)"
  shows "unat (push_bit 8 acc OR ucast b) = unat acc * 256 + unat b"
proof -
  have b: "unat b < 256" using unsigned_less [of b, where ?'a = nat] by simp
  have lim: "(256 :: nat) \<le> 2 ^ LENGTH('a)"
    using power_increasing [OF assms(1), of "2 :: nat"] by simp
  have disj: "push_bit 8 acc AND (ucast b :: 'a word) = 0"
    by (rule bit_eqI) (auto simp: bit_simps bit_imp_le_length dest: bit_imp_le_length)
  have "push_bit 8 acc OR ucast b = push_bit 8 acc + (ucast b :: 'a word)"
    using disj by (simp add: disjunctive_add_eq_or bit_eq_iff bit_simps)
  also have "\<dots> = word_of_nat (unat acc * 256 + unat b)"
    by (simp add: push_bit_eq_mult)
  finally show ?thesis using assms(2) by (simp only: unat_of_nat mod_less)
qed

lemma shift_in_unat:
  assumes "8 * length v \<le> LENGTH('a::len)" and "8 \<le> LENGTH('a)"
  shows "unat (foldl (\<lambda>acc byte. push_bit 8 acc OR ucast byte) (0 :: 'a word) (v :: u8 list)) = from_be v"
  using assms(1)
proof (induction v rule: rev_induct)
  case (snoc b v)
  have "from_be (v @ [b]) < 256 ^ length (v @ [b])" by (rule from_be_bound)
  also have "(256 :: nat) ^ length (v @ [b]) = 2 ^ (8 * length (v @ [b]))"
    using power_mult [of "2 :: nat" 8 "length (v @ [b])"] by simp
  also have "\<dots> \<le> 2 ^ LENGTH('a)" using snoc.prems by (intro power_increasing) simp_all
  finally have "from_be (v @ [b]) < 2 ^ LENGTH('a)" .
  with snoc show ?case by (simp add: shift_in_step [OF assms(2)])
qed simp

lemma shift_in_64_from_be: "length v \<le> 8 \<Longrightarrow> unat (shift_in_64 v) = from_be v"
  unfolding shift_in_64_def by (rule shift_in_unat) simp_all

lemma shift_in_128_from_be: "length v \<le> 16 \<Longrightarrow> unat (shift_in_128 v) = from_be v"
  unfolding shift_in_128_def by (rule shift_in_unat) simp_all

lemma value_u64_eq [simp]: "value_u64 v = Ok n \<longleftrightarrow> length v \<le> 8 \<and> n = from_be v"
  by (auto simp: value_u64_def shift_in_64_from_be)

lemma value_u128_eq [simp]: "value_u128 v = Ok n \<longleftrightarrow> length v \<le> 16 \<and> n = from_be v"
  by (auto simp: value_u128_def shift_in_128_from_be)

subsection \<open>RLP round trips\<close>

lemma drop_first_nonzero:
  "from_be bs \<noteq> 0 \<Longrightarrow> drop (first_nonzero bs k) bs = dropWhile (\<lambda>b. b = 0) bs"
proof -
  assume "from_be bs \<noteq> 0"
  then have "dropWhile (\<lambda>b. b = 0) bs \<noteq> []"
    using from_be_skip_zeros [of bs] by (metis from_be_Nil)
  then have "length (takeWhile (\<lambda>b. b = 0) bs) \<noteq> length bs"
    using takeWhile_dropWhile_id [of "\<lambda>b. b = 0" bs] by (metis append_Nil2 append_eq_append_conv)
  then show ?thesis by (simp add: first_nonzero_def Let_def dropWhile_eq_drop)
qed

definition minimal_be :: "nat \<Rightarrow> nat \<Rightarrow> u8 list" where
  "minimal_be w n = dropWhile (\<lambda>b. b = 0) (be_bytes w n)"

lemma be_bytes_zero: "b \<in> set (be_bytes w 0) \<Longrightarrow> b = 0"
  by (induction w) auto

lemma minimal_be_zero: "minimal_be w 0 = []"
  by (simp add: minimal_be_def be_bytes_zero)

lemma minimal_be_drop:
  assumes "n < 256 ^ w" and "0 < n"
  shows "drop (first_nonzero (be_bytes w n) k) (be_bytes w n) = minimal_be w n"
proof -
  have "from_be (be_bytes w n) = n" using assms(1) unfolding from_be_be_bytes by (rule mod_less)
  then show ?thesis using assms(2) by (simp only: drop_first_nonzero minimal_be_def)
qed

lemma minimal_be_value: "n < 256 ^ w \<Longrightarrow> from_be (minimal_be w n) = n"
  by (simp add: minimal_be_def from_be_skip_zeros from_be_be_bytes)

lemma minimal_be_length: "length (minimal_be w n) \<le> w"
  using length_dropWhile_le [of "\<lambda>b. b = 0" "be_bytes w n"] by (simp add: minimal_be_def)

lemma minimal_be_pos: "0 < n \<Longrightarrow> n < 256 ^ w \<Longrightarrow> 0 < length (minimal_be w n)"
  using minimal_be_value [of n w] by (cases "minimal_be w n") auto

lemma encode_u64_eq:
  assumes "n < 2 ^ 64"
  shows "encode_u64 n = encode_bytes (minimal_be 8 n)"
proof (cases "n = 0")
  case False
  have "n < 256 ^ 8" using assms by (simp only: width_8)
  then show ?thesis using False
    by (simp add: encode_u64_def Let_def minimal_be_drop)
qed (simp add: encode_u64_def minimal_be_zero)

lemma encode_u128_eq:
  assumes "n < 2 ^ 128"
  shows "encode_u128 n = encode_bytes (minimal_be 16 n)"
proof (cases "n = 0")
  case False
  have "n < 256 ^ 16" using assms by (simp only: width_16)
  then show ?thesis using False
    by (simp add: encode_u128_def Let_def minimal_be_drop)
qed (simp add: encode_u128_def minimal_be_zero)

lemma encode_length_long:
  assumes "55 < n" and "n < 2 ^ 64"
  shows "encode_length n sb lb = word_of_nat (lb + length (minimal_be 8 n)) # minimal_be 8 n"
proof -
  have n: "n < 256 ^ 8" using assms(2) by (simp only: width_8)
  have "0 < n" using assms(1) by simp
  show ?thesis
    using assms(1) unfolding encode_length_def Let_def minimal_be_drop [OF n \<open>0 < n\<close>] by simp
qed

lemma read_length_minimal:
  assumes "0 < n" and "n < 2 ^ 64"
  shows "read_length (h # minimal_be 8 n @ r) 1 (length (minimal_be 8 n)) = Ok n"
proof -
  have n: "n < 256 ^ 8" using assms(2) by (simp only: width_8)
  show ?thesis
    using minimal_be_length [of 8 n] minimal_be_pos [OF assms(1) n] minimal_be_value [OF n]
    by (simp add: read_length_def shift_in_64_from_be)
qed

text \<open>Reading a header back gives the kind, its own length and the length of the payload.\<close>

lemma unat_header: "k < 256 \<Longrightarrow> unat (word_of_nat k :: u8) = k"
  by (simp add: unat_of_nat)

lemma item_header_encode_length:
  assumes "n < 2 ^ 64" and "encode_length n sb lb = h # hs"
    and kind: "(sb, lb, is_list) = (128, 183, False) \<or> (sb, lb, is_list) = (192, 247, True)"
  shows "item_header (h # hs @ r) (unat h) = Ok (is_list, Suc (length hs), n)"
proof (cases "n \<le> 55")
  case True
  with assms(2) have hw: "h = word_of_nat (sb + n)" and hs: "hs = []"
    by (simp_all add: encode_length_def del: of_nat_add)
  have "sb + n < 256" using True kind by auto
  with hw have "unat h = sb + n" by (simp only: unat_header)
  with True kind hs show ?thesis by (elim disjE) (simp_all add: item_header_def)
next
  case False
  let ?m = "minimal_be 8 n"
  have n: "n < 256 ^ 8" using assms(1) by (simp only: width_8)
  have len: "0 < length ?m" "length ?m \<le> 8"
    using False minimal_be_pos [OF _ n] minimal_be_length [of 8 n] by auto
  have "encode_length n sb lb = word_of_nat (lb + length ?m) # ?m"
    using False assms(1) by (intro encode_length_long) simp_all
  with assms(2) have hw: "h = word_of_nat (lb + length ?m)" and hs: "hs = ?m"
    by (metis list.inject)+
  have "lb + length ?m < 256" using len kind by auto
  with hw have h: "unat h = lb + length ?m" by (simp only: unat_header)
  have "read_length (h # ?m @ r) 1 (length ?m) = Ok n"
    using False assms(1) by (intro read_length_minimal) simp_all
  with kind len h hs show ?thesis by (elim disjE) (simp_all add: item_header_def Let_def)
qed

lemma encode_length_Cons:
  obtains h hs where "encode_length n sb lb = h # hs" and "length hs \<le> 8"
proof (cases "n \<le> 55")
  case False
  then show thesis using that by (simp add: encode_length_def Let_def)
qed (use that in \<open>simp add: encode_length_def\<close>)

lemma decode_item_encoded:
  assumes "length payload + 9 < 2 ^ 64"
    and "(sb, lb, is_list) = (128, 183, False) \<or> (sb, lb, is_list) = (192, 247, True)"
  shows "decode_item (encode_length (length payload) sb lb @ payload @ r) is_list =
    Ok (payload, length (encode_length (length payload) sb lb @ payload))"
proof -
  obtain h hs where enc: "encode_length (length payload) sb lb = h # hs" and hs: "length hs \<le> 8"
    by (rule encode_length_Cons)
  have "item_header (h # hs @ payload @ r) (unat h) = Ok (is_list, Suc (length hs), length payload)"
    using assms enc by (intro item_header_encode_length) auto
  moreover have "checked_add 64 (Suc (length hs)) (length payload)
      = Some (Suc (length hs) + length payload)"
    using assms(1) hs by (simp add: checked_add_def)
  ultimately show ?thesis by (simp add: decode_item_def enc)
qed

lemma decode_item_encode_bytes:
  assumes "length v + 9 < 2 ^ 64"
  shows "decode_item (encode_bytes v @ r) False = Ok (v, length (encode_bytes v))"
proof (cases "length v = 1 \<and> unat (hd v) < 128")
  case True
  then obtain b where "v = [b]" and "unat b < 128" by (cases v) auto
  then show ?thesis by (simp add: encode_bytes_def decode_item_def item_header_def checked_add_def)
next
  case False
  then have "encode_bytes v = encode_length (length v) 128 183 @ v" by (auto simp: encode_bytes_def)
  then show ?thesis using decode_item_encoded [OF assms, of 128 183 False r] by simp
qed

lemma encode_bytes_nonempty: "encode_bytes v \<noteq> []"
  by (cases "length v \<le> 55") (auto simp: encode_bytes_def encode_length_def Let_def)

lemma decode_fields_encode:
  assumes "\<forall>v \<in> set vs. length v + 9 < 2 ^ 64"
  shows "decode_fields (concat (map encode_bytes vs)) = Ok vs"
  using assms
proof (induction vs)
  case Nil
  show ?case by (simp add: decode_fields.simps)
next
  case (Cons v vs)
  then have "decode_item (encode_bytes v @ concat (map encode_bytes vs)) False
      = Ok (v, length (encode_bytes v))"
    by (intro decode_item_encode_bytes) simp
  with Cons show ?case
    by (subst decode_fields.simps) (simp add: encode_bytes_nonempty)
qed

lemma decode_list_encode:
  assumes "length (concat (map encode_bytes vs)) + 9 < 2 ^ 64"
    and "\<forall>v \<in> set vs. length v + 9 < 2 ^ 64"
  shows "decode_list (encode_list (map encode_bytes vs)) = Ok vs"
proof -
  let ?p = "concat (map encode_bytes vs)"
  have "decode_item (encode_length (length ?p) 192 247 @ ?p @ []) True
      = Ok (?p, length (encode_length (length ?p) 192 247 @ ?p))"
    using assms(1) by (intro decode_item_encoded) simp_all
  with decode_fields_encode [OF assms(2)] show ?thesis
    by (simp add: decode_list_def encode_list_def Let_def)
qed

text \<open>
  C26.  The RLP decoder reads back what the encoder writes: a list of byte strings of any
  lengths whose encoding fits the address space decodes to exactly these strings, and a signed
  64-bit or 128-bit field reads back as the number that was encoded.
\<close>

theorem rlp_roundtrip:
  assumes "length (concat (map encode_bytes vs)) + 9 < 2 ^ 64"
    and "\<forall>v \<in> set vs. length v + 9 < 2 ^ 64"
    and "n < 2 ^ 64" and "m < 2 ^ 128"
  shows "decode_list (encode_list (map encode_bytes vs)) = Ok vs
    \<and> rbind (decode_item (encode_u64 n @ r) False) (\<lambda>(v, _). value_u64 v) = Ok n
    \<and> rbind (decode_item (encode_u128 m @ r) False) (\<lambda>(v, _). value_u128 v) = Ok m"
proof (intro conjI)
  show "decode_list (encode_list (map encode_bytes vs)) = Ok vs"
    using assms(1,2) by (rule decode_list_encode)
  have n: "n < 256 ^ 8" and m: "m < 256 ^ 16" using assms(3,4) by (simp_all only: width_8 width_16)
  show "rbind (decode_item (encode_u64 n @ r) False) (\<lambda>(v, _). value_u64 v) = Ok n"
    using minimal_be_length [of 8 n] minimal_be_value [OF n]
    by (simp add: encode_u64_eq [OF assms(3)] decode_item_encode_bytes)
  show "rbind (decode_item (encode_u128 m @ r) False) (\<lambda>(v, _). value_u128 v) = Ok m"
    using minimal_be_length [of 16 m] minimal_be_value [OF m]
    by (simp add: encode_u128_eq [OF assms(4)] decode_item_encode_bytes)
qed

theorem rlp_roundtrip_witness:
  "decode_list (encode_list (map encode_bytes [[], [7], [200, 1]])) = Ok [[], [7], [200, 1]]
   \<and> rbind (decode_item (encode_u64 1024 @ []) False) (\<lambda>(v, _). value_u64 v) = Ok 1024"
  using rlp_roundtrip [of "[[], [7], [200, 1]]" 1024 0 "[]"]
  by (simp add: encode_bytes_def encode_length_def)

subsection \<open>Decoding and checking an embedded transaction\<close>

lemma trim_0x_hex [simp]: "hex_laws E \<Longrightarrow> trim_0x (hex_encode E bs) = hex_encode E bs"
  by (subst trim_0x.simps) (simp add: hex_laws_def hex_not_0x)

lemma hex_decode_encode [simp]: "hex_laws E \<Longrightarrow> hex_decode E (hex_encode E bs) = Some bs"
  by (simp add: hex_laws_def)

text \<open>What an accepted legacy transaction has passed, and what it carries.\<close>

lemma decode_legacy_Ok:
  assumes "decode_legacy E raw_hex cid = Ok tx"
  obtains raw fields v where "hex_decode E (trim_0x raw_hex) = Some raw"
    and "decode_list raw = Ok fields" and "length fields = 9" and "value_u64 (fields ! 6) = Ok v"
    and "35 \<le> v" and "(v - 35) div 2 = cid" and "tx_signature tx = ''ethraw:'' @ hex_encode E raw"
  using assms that
  by (auto simp: decode_legacy_def Let_def split: if_splits option.splits)

lemma decode_legacy_canonical:
  assumes "hex_laws E" and "hex_decode E (trim_0x raw_hex) = Some raw"
  shows "decode_legacy E (hex_encode E raw) cid = decode_legacy E raw_hex cid"
  using assms by (simp add: decode_legacy_def)

lemma verify_embedded_decoded:
  assumes "hex_laws E" and "decode_legacy E raw_hex cid = Ok tx"
  shows "verify_embedded E tx cid = Ok ()"
proof -
  obtain raw fields v where *: "hex_decode E (trim_0x raw_hex) = Some raw"
    "decode_list raw = Ok fields" "length fields = 9" "value_u64 (fields ! 6) = Ok v"
    "35 \<le> v" "tx_signature tx = ''ethraw:'' @ hex_encode E raw"
    using decode_legacy_Ok [OF assms(2)] by metis
  have "strip_prefix ''ethraw:'' (tx_signature tx) = Some (hex_encode E raw)"
    using *(6) by simp
  with * assms show ?thesis
    by (simp add: verify_embedded_def decode_legacy_canonical)
qed

definition sample_fields :: "u8 list list" where
  "sample_fields = [[], [1], [2], replicate 20 17, [5], [], [37], [3], [4]]"

lemma sample_decodes:
  "\<exists>tx. decode_legacy toy_ext (toy_hex_encode (encode_list (map encode_bytes sample_fields))) 1 = Ok tx"
proof -
  have "decode_list (encode_list (map encode_bytes sample_fields)) = Ok sample_fields"
    by (rule decode_list_encode) (simp_all add: sample_fields_def encode_bytes_def encode_length_def)
  moreover have "hex_encode toy_ext = toy_hex_encode" by (simp add: toy_ext_def)
  ultimately show ?thesis
    using hex_laws_toy trim_0x_hex [of toy_ext] hex_decode_encode [of toy_ext]
    by (simp add: decode_legacy_def Let_def sample_fields_def decode_action_def padded_scalar_def
        from_be_def value_u64_eq toy_ext_def checked_mul_def)
qed

text \<open>
  What the RPC entry point decodes, block validation accepts: a transaction that
  \<^verbatim>\<open>decode_legacy\<close> reads from any spelling of a signed payload carries that payload, and the
  ledger's check, which decodes the payload again and compares every field, passes.
\<close>

theorem decode_legacy_verifies:
  assumes "hex_laws E" and "decode_legacy E raw_hex cid = Ok tx"
  shows "tx_signature tx = ''ethraw:'' @ hex_encode E (the (hex_decode E (trim_0x raw_hex)))
    \<and> verify_embedded E tx cid = Ok ()"
  using verify_embedded_decoded [OF assms] assms(2) by (auto elim: decode_legacy_Ok)

theorem decode_legacy_verifies_witness:
  "\<exists>tx. decode_legacy toy_ext (toy_hex_encode (encode_list (map encode_bytes sample_fields))) 1 = Ok tx
     \<and> verify_embedded toy_ext tx 1 = Ok ()"
  using sample_decodes decode_legacy_verifies [OF hex_laws_toy] by blast

text \<open>
  An embedded transaction is bound to one network: once it passes the check with one
  chain id it fails it with every other, so it cannot be replayed on another chain.
\<close>

theorem embedded_chain_binding:
  assumes "verify_embedded E tx a = Ok ()" and "a \<noteq> b"
  shows "\<not> is_ok (verify_embedded E tx b)"
proof
  assume "is_ok (verify_embedded E tx b)"
  then have "verify_embedded E tx b = Ok ()" by (cases "verify_embedded E tx b") auto
  with assms show False
    by (auto simp: verify_embedded_def split: if_splits elim!: decode_legacy_Ok)
qed

theorem embedded_chain_binding_witness:
  "\<exists>tx. verify_embedded toy_ext tx 1 = Ok () \<and> \<not> is_ok (verify_embedded toy_ext tx 2)"
proof -
  obtain tx where "verify_embedded toy_ext tx 1 = Ok ()"
    using sample_decodes verify_embedded_decoded [OF hex_laws_toy] by blast
  with embedded_chain_binding [of toy_ext tx 1 2] show ?thesis by auto
qed

end
