(* ===== verification/Genesis.thy ===== *)
theory Genesis
  imports Rewards Wallet
begin

text \<open>
  The genesis configuration (\<^verbatim>\<open>src/src/genesis.rs\<close>): its validation, the stricter checks of
  a production network, and its hash.
\<close>

definition IEUM_BASE_UNIT :: nat where
  "IEUM_BASE_UNIT = 1000000000000000000"

definition IEUM_MAX_SUPPLY :: nat where
  "IEUM_MAX_SUPPLY = 210000000 * IEUM_BASE_UNIT"

definition IEUM_FOUNDATION_ALLOCATION :: nat where
  "IEUM_FOUNDATION_ALLOCATION = 21000000 * IEUM_BASE_UNIT"

definition IEUM_FOUNDATION_ADDRESS :: string where
  "IEUM_FOUNDATION_ADDRESS = ''0x356456ff1216b57a6f8891b195b42d296789b67d''"

definition KNOWN_DEVELOPMENT_ADDRESSES :: "string list" where
  "KNOWN_DEVELOPMENT_ADDRESSES =
     [''0xB0E5863D0DDf7e105e409Fee0eCC0123a362e14B'', ''0x3252b7b65e50B54508974dB8d634134B0bd6be90'',
      ''0xf0DCB0Ea878057Ff5C78C4737023f900ECe09e7B'', ''0xD5ac7674AC15E3Df0B7D737CF8Cb8f2Ea713F329'']"

definition genesis_balance_step ::
  "string \<times> nat \<Rightarrow> string list \<times> nat \<Rightarrow> (string list \<times> nat) result" where
  "genesis_balance_step = (\<lambda>(address, balance) (seen, minted).
     if to_ascii_lowercase address \<in> set seen then Err (EGenesis DuplicateBalance) else
     rbind (ok_or (checked_add 128 minted balance) (EGenesis GenesisSupplyOverflow)) (\<lambda>minted'.
     Ok (to_ascii_lowercase address # seen, minted')))"

definition genesis_locked_step :: "string list \<Rightarrow> string \<Rightarrow> string list \<Rightarrow> string list result" where
  "genesis_locked_step balance_addresses address locked =
     (let normalized = to_ascii_lowercase address in
      if normalized \<notin> set balance_addresses \<or> normalized \<in> set locked
      then Err (EGenesis BadLockedAddress) else Ok (normalized # locked))"

definition genesis_validator_step :: "ext \<Rightarrow> validator \<Rightarrow> string list \<Rightarrow> string list result" where
  "genesis_validator_step E v ids =
     (if val_voting_power v = 0
        \<or> (case hex_decode E (val_id v) of Some bytes \<Rightarrow> length bytes \<noteq> 32 | None \<Rightarrow> True)
        \<or> val_id v \<in> set ids
      then Err (EGenesis BadGenesisValidator) else Ok (val_id v # ids))"

definition genesis_validate :: "ext \<Rightarrow> genesis_config \<Rightarrow> unit result" where
  "genesis_validate E g =
     (if gen_chain_id g = 0 then Err (EGenesis ZeroChainId)
      else if gen_max_supply g = 0 then Err (EGenesis ZeroMaxSupply) else
      rbind (for_each genesis_balance_step (gen_initial_balances g) ([], 0)) (\<lambda>(seen, minted).
      if minted > gen_max_supply g then Err (EGenesis GenesisSupplyTooLarge) else
      rbind (for_each (genesis_locked_step seen) (gen_locked_addresses g) []) (\<lambda>_.
      if length (gen_validators g) < 4 then Err (EGenesis TooFewValidators) else
      rbind (for_each (genesis_validator_step E) (gen_validators g) []) (\<lambda>_.
      if gen_max_block_bytes g = 0 \<or> gen_max_block_bytes g > 4 * 1024 * 1024
      then Err (EGenesis BadBlockBytes)
      else if gen_max_active_block_bytes g = 0 \<or> gen_max_active_block_bytes g > 100000000
      then Err (EGenesis BadActiveBytes) else Ok ()))))"

definition genesis_hash :: "ext \<Rightarrow> genesis_config \<Rightarrow> string result" where
  "genesis_hash E g =
     rbind (genesis_validate E g) (\<lambda>_. Ok (hex_encode E (sha256 E (json_genesis E g))))"

definition validate_production_safety :: "ext \<Rightarrow> genesis_config \<Rightarrow> unit result" where
  "validate_production_safety E g =
     rbind (genesis_validate E g) (\<lambda>_.
     if sublist ''test'' (to_ascii_lowercase (gen_network_name g)) then Err (EGenesis TestNetworkName)
     else if \<exists>(address, balance) \<in> set (gen_initial_balances g). balance > 0
       \<and> (\<exists>known \<in> set KNOWN_DEVELOPMENT_ADDRESSES. eq_ignore_ascii_case address known)
     then Err (EGenesis DevelopmentBalance)
     else if gen_max_supply g \<noteq> IEUM_MAX_SUPPLY then Err (EGenesis WrongMaxSupply)
     else
       let foundation = (case find (\<lambda>(address, _). eq_ignore_ascii_case address IEUM_FOUNDATION_ADDRESS)
                                (gen_initial_balances g) of Some (_, b) \<Rightarrow> b | None \<Rightarrow> 0)
       in if foundation \<noteq> IEUM_FOUNDATION_ALLOCATION then Err (EGenesis WrongFoundationAllocation)
          else Ok ())"

subsection \<open>What validation establishes\<close>

lemma genesis_balance_loop:
  assumes "for_each genesis_balance_step bs (seen, minted) = Ok (seen', minted')"
  shows "minted' = minted + sum_list (map snd bs)
    \<and> distinct (map (to_ascii_lowercase \<circ> fst) bs)
    \<and> set (map (to_ascii_lowercase \<circ> fst) bs) \<inter> set seen = {}
    \<and> set seen' = set seen \<union> set (map (to_ascii_lowercase \<circ> fst) bs)"
  using assms
proof (induction bs arbitrary: seen minted)
  case (Cons b bs)
  obtain a v where b: "b = (a, v)" by (cases b)
  from Cons.prems obtain s1 where step: "genesis_balance_step (a, v) (seen, minted) = Ok s1"
    and rest1: "for_each genesis_balance_step bs s1 = Ok (seen', minted')" by (auto simp: b)
  from step have new: "to_ascii_lowercase a \<notin> set seen" and s1: "s1 = (to_ascii_lowercase a # seen, minted + v)"
    by (auto simp: genesis_balance_step_def)
  note rest = rest1 [unfolded s1]
  from Cons.IH [OF rest] new show ?case by (auto simp: b)
qed simp

lemma genesis_validator_loop:
  assumes "for_each (genesis_validator_step E) vs ids = Ok ids'"
  shows "distinct (map val_id vs) \<and> set (map val_id vs) \<inter> set ids = {}
    \<and> (\<forall>v \<in> set vs. 0 < val_voting_power v)"
  using assms
proof (induction vs arbitrary: ids)
  case (Cons v vs)
  then obtain ids1 where step: "genesis_validator_step E v ids = Ok ids1"
    and rest: "for_each (genesis_validator_step E) vs ids1 = Ok ids'" by auto
  from step have "val_id v \<notin> set ids" "0 < val_voting_power v" "ids1 = val_id v # ids"
    by (auto simp: genesis_validator_step_def)
  with Cons.IH [OF rest] show ?case by auto
qed simp

lemma genesis_validate_Ok:
  assumes "genesis_validate E g = Ok ()"
  shows "sum_list (map snd (gen_initial_balances g)) \<le> gen_max_supply g
    \<and> distinct (map (to_ascii_lowercase \<circ> fst) (gen_initial_balances g))
    \<and> 4 \<le> length (gen_validators g) \<and> distinct (map val_id (gen_validators g))
    \<and> (\<forall>v \<in> set (gen_validators g). 0 < val_voting_power v)"
proof -
  from assms obtain seen minted ids where
    loop: "for_each genesis_balance_step (gen_initial_balances g) ([], 0) = Ok (seen, minted)"
    and minted: "minted \<le> gen_max_supply g" and four: "4 \<le> length (gen_validators g)"
    and vals: "for_each (genesis_validator_step E) (gen_validators g) [] = Ok ids"
    by (auto simp: genesis_validate_def split: if_splits)
  from genesis_balance_loop [OF loop] genesis_validator_loop [OF vals] minted four show ?thesis by simp
qed

end
