(* ===== verification/Chain.thy ===== *)
theory Chain
  imports ScheduledEvent RawTransaction Genesis
begin

text \<open>
  The ledger (\<^verbatim>\<open>src/src/chain.rs\<close>): the chain state, transactions, system events, the supply
  cap, \<^verbatim>\<open>apply_block\<close> and \<^verbatim>\<open>verify_and_rebuild\<close>.  A block is applied to copies of the
  balances, nonces and staking state, so the functions here return either an error or the new
  state, and an error leaves the chain as it was.
\<close>

subsection \<open>State\<close>

definition FOUNDATION_FEE_ADDRESS :: string where
  "FOUNDATION_FEE_ADDRESS = IEUM_FOUNDATION_ADDRESS"

definition FOUNDATION_FEE_BPS :: nat where
  "FOUNDATION_FEE_BPS = 2000"

definition FEE_BPS_DENOMINATOR :: nat where
  "FEE_BPS_DENOMINATOR = 10000"

record blockchain =
  ch_chain_id :: nat
  ch_genesis_commitment :: string
  ch_blocks :: "block list"
  ch_initial_balances :: "(string, nat) hmap"
  ch_balances :: "(string, nat) hmap"
  ch_next_nonces :: "(string, nat) hmap"
  ch_executed_events :: "string set"
  ch_staking :: staking_state

text \<open>The three maps that \<^verbatim>\<open>apply_transactions\<close> borrows mutably.\<close>

record work =
  wk_balances :: "(string, nat) hmap"
  wk_nonces :: "(string, nat) hmap"
  wk_staking :: staking_state

definition normalize_address :: "string \<Rightarrow> string" where
  "normalize_address address =
     (if starts_with address ''0x'' then ''0x'' @ to_ascii_lowercase (trim_0x address) else address)"

subsection \<open>Construction\<close>

definition with_chain_id :: "ext \<Rightarrow> nat \<Rightarrow> (string \<times> nat) list \<Rightarrow> blockchain" where
  "with_chain_id E chain_id initial_balances =
     (let balances = hm_from_list initial_balances in
      \<lparr>ch_chain_id = chain_id, ch_genesis_commitment = blk_hash (block_genesis E),
       ch_blocks = [block_genesis E], ch_initial_balances = balances, ch_balances = balances,
       ch_next_nonces = [], ch_executed_events = {}, ch_staking = staking_default\<rparr>)"

definition chain_new :: "ext \<Rightarrow> (string \<times> nat) list \<Rightarrow> blockchain" where
  "chain_new E initial_balances = with_chain_id E 21004 initial_balances"

definition from_genesis :: "ext \<Rightarrow> genesis_config \<Rightarrow> blockchain result" where
  "from_genesis E g =
     rbind (genesis_validate E g) (\<lambda>_.
     let balances = map (\<lambda>(address, balance). (normalize_address address, balance)) (gen_initial_balances g);
         chain = with_chain_id E (gen_chain_id g) balances
     in rbind (genesis_hash E g) (\<lambda>commitment.
        Ok (chain\<lparr>ch_blocks := [genesis_at E (gen_genesis_time g)], ch_genesis_commitment := commitment\<rparr>)))"

definition from_snapshot_with_events ::
  "nat \<Rightarrow> string \<Rightarrow> nat \<Rightarrow> string \<Rightarrow> (string, nat) hmap \<Rightarrow> (string, nat) hmap \<Rightarrow> string set \<Rightarrow> blockchain result" where
  "from_snapshot_with_events chain_id genesis_commitment height block_hash balances next_nonces executed_events =
     (if length (trim_0x block_hash) \<noteq> 64 then Err (EChain CheckpointHash) else
      let anchor = \<lparr>blk_height = height, blk_previous_hash = [], blk_timestamp = 0,
        blk_producer = ''checkpoint'', blk_transactions = [], blk_system_events = [],
        blk_hash = trim_0x block_hash\<rparr>
      in Ok \<lparr>ch_chain_id = chain_id, ch_genesis_commitment = genesis_commitment, ch_blocks = [anchor],
        ch_initial_balances = balances, ch_balances = balances, ch_next_nonces = next_nonces,
        ch_executed_events = executed_events, ch_staking = staking_default\<rparr>)"

definition from_snapshot ::
  "nat \<Rightarrow> string \<Rightarrow> nat \<Rightarrow> string \<Rightarrow> (string, nat) hmap \<Rightarrow> (string, nat) hmap \<Rightarrow> blockchain result" where
  "from_snapshot chain_id genesis_commitment height block_hash balances next_nonces =
     from_snapshot_with_events chain_id genesis_commitment height block_hash balances next_nonces {}"

subsection \<open>Queries\<close>

definition balance_of :: "blockchain \<Rightarrow> string \<Rightarrow> nat" where
  "balance_of c address = hm_get0 (ch_balances c) address"

definition tip_height :: "blockchain \<Rightarrow> nat" where
  "tip_height c = (if ch_blocks c = [] then 0 else blk_height (last (ch_blocks c)))"

definition tip_hash :: "blockchain \<Rightarrow> string" where
  "tip_hash c = (if ch_blocks c = [] then [] else blk_hash (last (ch_blocks c)))"

definition block_by_height :: "blockchain \<Rightarrow> nat \<Rightarrow> block option" where
  "block_by_height c height = find (\<lambda>b. blk_height b = height) (ch_blocks c)"

definition block_by_hash :: "blockchain \<Rightarrow> string \<Rightarrow> block option" where
  "block_by_hash c hash = find (\<lambda>b. blk_hash b = trim_0x hash) (ch_blocks c)"

fun find_transaction :: "ext \<Rightarrow> string \<Rightarrow> nat \<Rightarrow> transaction list \<Rightarrow> (nat \<times> transaction) option" where
  "find_transaction E hash i [] = None"
| "find_transaction E hash i (tx # txs) =
     (if tx_id E tx = hash then Some (i, tx) else find_transaction E hash (i + 1) txs)"

fun find_in_blocks :: "ext \<Rightarrow> string \<Rightarrow> block list \<Rightarrow> (block \<times> nat \<times> transaction) option" where
  "find_in_blocks E hash [] = None"
| "find_in_blocks E hash (b # bs) =
     (case find_transaction E hash 0 (blk_transactions b) of
        Some (i, tx) \<Rightarrow> Some (b, i, tx)
      | None \<Rightarrow> find_in_blocks E hash bs)"

definition transaction_by_hash :: "ext \<Rightarrow> blockchain \<Rightarrow> string \<Rightarrow> (block \<times> nat \<times> transaction) option" where
  "transaction_by_hash E c hash = find_in_blocks E (trim_0x hash) (ch_blocks c)"

definition chain_next_nonce :: "blockchain \<Rightarrow> string \<Rightarrow> nat" where
  "chain_next_nonce c address = hm_get0 (ch_next_nonces c) address"

subsection \<open>Moving money\<close>

definition credit_balance ::
  "(string, nat) hmap \<Rightarrow> string \<Rightarrow> nat \<Rightarrow> chain_error \<Rightarrow> (string, nat) hmap result" where
  "credit_balance balances address amount overflow =
     (if amount = 0 then Ok balances else
      rbind (ok_or (checked_add 128 (hm_get0 balances address) amount) (EChain overflow)) (\<lambda>b.
      Ok (hm_insert balances address b)))"

definition transfer_from_foundation ::
  "string \<times> nat \<Rightarrow> (string, nat) hmap \<Rightarrow> (string, nat) hmap result" where
  "transfer_from_foundation = (\<lambda>(receiver, amount) balances.
     let foundation = hm_get0 balances FOUNDATION_FEE_ADDRESS in
     if foundation < amount then Err (EChain FoundationShort) else
     credit_balance (hm_insert balances FOUNDATION_FEE_ADDRESS (foundation - amount))
       (normalize_address receiver) amount EventCreditOverflow)"

definition validate_supply_cap :: "(string, nat) hmap \<Rightarrow> staking_state \<Rightarrow> unit result" where
  "validate_supply_cap balances st =
     rbind (ok_or (checked_sum 128 (map snd balances)) (EChain LiquidOverflow)) (\<lambda>liquid.
     rbind (ok_or (checked_sum 128 (map dep_amount (stk_delegations st))) (EChain DelegatedOverflow)) (\<lambda>delegated.
     rbind (ok_or (checked_sum 128 (map unb_amount (stk_unbonding st))) (EChain UnbondingOverflow)) (\<lambda>unbonding.
     rbind (ok_or (case checked_add 128 liquid delegated of
         None \<Rightarrow> None | Some v \<Rightarrow> checked_add 128 v unbonding) (EChain TotalOverflow)) (\<lambda>total.
     if total > IEUM_MAX_SUPPLY then Err (EChain SupplyCapExceeded) else Ok ()))))"

definition from_snapshot_with_staking ::
  "nat \<Rightarrow> string \<Rightarrow> nat \<Rightarrow> string \<Rightarrow> (string, nat) hmap \<Rightarrow> (string, nat) hmap \<Rightarrow> string set
   \<Rightarrow> staking_state \<Rightarrow> blockchain result" where
  "from_snapshot_with_staking chain_id genesis_commitment height block_hash balances next_nonces executed_events st =
     rbind (from_snapshot_with_events chain_id genesis_commitment height block_hash balances next_nonces
       executed_events) (\<lambda>chain.
     let chain' = chain\<lparr>ch_staking := st\<rparr> in
     rbind (validate_supply_cap (ch_balances chain') (ch_staking chain')) (\<lambda>_. Ok chain'))"

subsection \<open>System events\<close>

definition pay_all :: "event_payment list \<Rightarrow> (string, nat) hmap \<Rightarrow> (string, nat) hmap result" where
  "pay_all payments balances =
     for_each transfer_from_foundation (map (\<lambda>p. (pay_address p, pay_amount p)) payments) balances"

fun apply_action ::
  "string \<Rightarrow> scheduled_event_action \<Rightarrow> (string, nat) hmap \<times> staking_state
   \<Rightarrow> ((string, nat) hmap \<times> staking_state) result" where
  "apply_action i (TreasuryDistribution recipients) (balances, st) =
     rbind (pay_all recipients balances) (\<lambda>b. Ok (b, st))"
| "apply_action i (PeriodicProducerReward producer amount) (balances, st) =
     rbind (transfer_from_foundation (producer, amount) balances) (\<lambda>b. Ok (b, st))"
| "apply_action i (IncidentCompensation incident_id victim amount) (balances, st) =
     rbind (transfer_from_foundation (victim, amount) balances) (\<lambda>b. Ok (b, st))"
| "apply_action i (ProtocolCheckpoint protocol_version) (balances, st) = Ok (balances, st)"
| "apply_action i (BootstrapValidatorReward registrations amount) (balances, st) =
     rbind (for_each transfer_from_foundation (map (\<lambda>r. (vreg_validator_id r, amount)) registrations) balances)
       (\<lambda>b. Ok (b, st))"
| "apply_action i (NodeMilestoneReward registrations amount) (balances, st) =
     rbind (for_each transfer_from_foundation (map (\<lambda>r. (nreg_reward_address r, amount)) registrations) balances)
       (\<lambda>b. Ok (b, st))"
| "apply_action i (ValidatorDailyInterest snapshot_height policy_hash rate payments) (balances, st) =
     rbind (pay_all payments balances) (\<lambda>b. Ok (b, st))"
| "apply_action i (HolderDailyReward snapshot_height policy_hash rate payments) (balances, st) =
     rbind (pay_all payments balances) (\<lambda>b. Ok (b, st))"
| "apply_action i (DoubleVoteSlash evidence penalty_bps) (balances, st) =
     rbind (slash st i (msg_validator_id (evd_first evidence)) penalty_bps) (\<lambda>(slashed, st').
     rbind (credit_balance balances FOUNDATION_FEE_ADDRESS slashed PenaltyCreditOverflow) (\<lambda>b. Ok (b, st')))"
| "apply_action i (DelegationDailyReward snapshot_height policy_hash rate payments) (balances, st) =
     rbind (pay_all payments balances) (\<lambda>b. Ok (b, st))"
| "apply_action i (NodeServiceDailyReward snapshot_height epoch attestations payments) (balances, st) =
     rbind (pay_all payments balances) (\<lambda>b. Ok (b, st))"

definition apply_system_event ::
  "ext \<Rightarrow> nat \<Rightarrow> scheduled_event \<Rightarrow> (string, nat) hmap \<times> string set \<times> staking_state
   \<Rightarrow> ((string, nat) hmap \<times> string set \<times> staking_state) result" where
  "apply_system_event E block_timestamp ev = (\<lambda>(balances, executed, st).
     rbind (event_validate E ev) (\<lambda>_.
     if ev_execute_at ev > block_timestamp then Err (EChain (EventTooEarly (ev_id ev)))
     else if ev_id ev \<in> executed then Err (EChain (EventAlreadyExecuted (ev_id ev)))
     else rbind (apply_action (ev_id ev) (ev_action ev) (balances, st)) (\<lambda>(balances', st').
     Ok (balances', insert (ev_id ev) executed, st'))))"

definition apply_system_events ::
  "ext \<Rightarrow> scheduled_event list \<Rightarrow> nat \<Rightarrow> (string, nat) hmap \<times> string set \<times> staking_state
   \<Rightarrow> ((string, nat) hmap \<times> string set \<times> staking_state) result" where
  "apply_system_events E events block_timestamp = for_each (apply_system_event E block_timestamp) events"

subsection \<open>Transactions\<close>

definition verify_tx :: "ext \<Rightarrow> nat \<Rightarrow> transaction \<Rightarrow> unit result" where
  "verify_tx E chain_id tx =
     (if starts_with (tx_signature tx) ''ethraw:'' then verify_embedded E tx chain_id
      else verify_transaction E tx)"

definition check_tx_form :: "transaction \<Rightarrow> unit result" where
  "check_tx_form tx =
     (if \<not> is_transfer (tx_action tx) \<and> normalize_address (tx_to tx) \<noteq> STAKING_SYSTEM_ADDRESS
      then Err (EChain StakingReceiver)
      else if is_transfer (tx_action tx) \<and> normalize_address (tx_to tx) = STAKING_SYSTEM_ADDRESS
      then Err (EChain TransferToStaking)
      else if tx_action tx = ClaimUnbonded \<and> tx_amount tx \<noteq> 0 then Err (EChain ClaimAmountNotZero)
      else if tx_amount tx = 0 \<and> tx_action tx \<noteq> ClaimUnbonded then Err (EChain ZeroAmount)
      else Ok ())"

definition debit_amount :: "transaction \<Rightarrow> nat" where
  "debit_amount tx =
     (case tx_action tx of Transfer \<Rightarrow> tx_amount tx | Delegate _ \<Rightarrow> tx_amount tx | _ \<Rightarrow> 0)"

definition perform_tx ::
  "nat \<Rightarrow> transaction \<Rightarrow> (string, nat) hmap \<Rightarrow> staking_state \<Rightarrow> ((string, nat) hmap \<times> staking_state) result" where
  "perform_tx block_timestamp tx balances st =
     (case tx_action tx of
        Transfer \<Rightarrow>
          rbind (credit_balance balances (tx_to tx) (tx_amount tx) CreditOverflow) (\<lambda>b. Ok (b, st))
      | Delegate validator \<Rightarrow>
          rbind (delegate_at st (tx_from tx) validator (tx_amount tx) block_timestamp) (\<lambda>st'. Ok (balances, st'))
      | Undelegate validator \<Rightarrow>
          rbind (undelegate st (tx_from tx) validator (tx_amount tx) block_timestamp) (\<lambda>(_, st'). Ok (balances, st'))
      | ClaimUnbonded \<Rightarrow>
          rbind (claim st (tx_from tx) block_timestamp) (\<lambda>(claimed, st').
          rbind (credit_balance balances (tx_from tx) claimed ClaimCreditOverflow) (\<lambda>b. Ok (b, st'))))"

definition split_fee :: "transaction \<Rightarrow> string \<Rightarrow> (string, nat) hmap \<Rightarrow> (string, nat) hmap result" where
  "split_fee tx producer balances =
     rbind (ok_or (checked_mul 128 (tx_fee tx) FOUNDATION_FEE_BPS) (EChain FeeSplitOverflow)) (\<lambda>scaled.
     let foundation_fee = scaled div FEE_BPS_DENOMINATOR;
         producer_fee = tx_fee tx - foundation_fee
     in rbind (credit_balance balances producer producer_fee ProducerOverflow) (\<lambda>b.
        credit_balance b FOUNDATION_FEE_ADDRESS foundation_fee FoundationOverflow))"

definition apply_transaction :: "ext \<Rightarrow> nat \<Rightarrow> string \<Rightarrow> nat \<Rightarrow> transaction \<Rightarrow> work \<Rightarrow> work result" where
  "apply_transaction E chain_id producer block_timestamp tx w =
     rbind (verify_tx E chain_id tx) (\<lambda>_.
     rbind (check_tx_form tx) (\<lambda>_.
     let expected_nonce = hm_get0 (wk_nonces w) (tx_from tx) in
     if tx_nonce tx \<noteq> expected_nonce then Err (EChain (BadNonce expected_nonce (tx_nonce tx))) else
     rbind (ok_or (checked_add 128 (debit_amount tx) (tx_fee tx)) (EChain DebitOverflow)) (\<lambda>total.
     let sender = hm_get0 (wk_balances w) (tx_from tx) in
     if sender < total then Err (EChain InsufficientBalance) else
     rbind (perform_tx block_timestamp tx (hm_insert (wk_balances w) (tx_from tx) (sender - total))
              (wk_staking w)) (\<lambda>(balances, st).
     rbind (split_fee tx producer balances) (\<lambda>balances'.
     Ok \<lparr>wk_balances = balances',
         wk_nonces = hm_insert (wk_nonces w) (tx_from tx) (wrapping_add 64 expected_nonce 1),
         wk_staking = st\<rparr>)))))"

definition apply_transactions ::
  "ext \<Rightarrow> nat \<Rightarrow> transaction list \<Rightarrow> string \<Rightarrow> nat \<Rightarrow> work \<Rightarrow> work result" where
  "apply_transactions E chain_id transactions producer block_timestamp =
     for_each (apply_transaction E chain_id producer block_timestamp) transactions"

subsection \<open>Blocks\<close>

definition chain_work :: "blockchain \<Rightarrow> work" where
  "chain_work c = \<lparr>wk_balances = ch_balances c, wk_nonces = ch_next_nonces c, wk_staking = ch_staking c\<rparr>"

text \<open>What both \<^verbatim>\<open>apply_block\<close> and \<^verbatim>\<open>verify_and_rebuild\<close> do with the contents of a block.\<close>

definition run_block ::
  "ext \<Rightarrow> nat \<Rightarrow> block \<Rightarrow> work \<times> string set \<Rightarrow> (work \<times> string set) result" where
  "run_block E chain_id b = (\<lambda>(w, executed).
     rbind (apply_transactions E chain_id (blk_transactions b) (blk_producer b) (blk_timestamp b) w) (\<lambda>w1.
     rbind (apply_system_events E (blk_system_events b) (blk_timestamp b)
              (wk_balances w1, executed, wk_staking w1)) (\<lambda>(balances, executed', st).
     Ok (w1\<lparr>wk_balances := balances, wk_staking := st\<rparr>, executed'))))"

definition apply_block :: "ext \<Rightarrow> blockchain \<Rightarrow> block \<Rightarrow> blockchain result" where
  "apply_block E c b =
     (if ch_blocks c = [] then Err (EChain NoGenesis) else
      let previous = last (ch_blocks c) in
      if blk_height b \<noteq> wrapping_add 64 (blk_height previous) 1 \<or> blk_previous_hash b \<noteq> blk_hash previous
      then Err (EChain NotNextBlock)
      else if blk_hash b \<noteq> calculate_hash E b then Err (EChain BadBlockHash) else
      rbind (run_block E (ch_chain_id c) b (chain_work c, ch_executed_events c)) (\<lambda>(w, executed).
      rbind (validate_supply_cap (wk_balances w) (wk_staking w)) (\<lambda>_.
      Ok (c\<lparr>ch_blocks := ch_blocks c @ [b], ch_balances := wk_balances w, ch_next_nonces := wk_nonces w,
            ch_executed_events := executed, ch_staking := wk_staking w\<rparr>))))"

definition add_block :: "ext \<Rightarrow> nat \<Rightarrow> blockchain \<Rightarrow> transaction list \<Rightarrow> string \<Rightarrow> blockchain result" where
  "add_block E now c transactions producer =
     (if transactions = [] then Err (EChain EmptyBlock)
      else if ch_blocks c = [] then Err (EChain NoGenesis) else
      let previous = last (ch_blocks c) in
      apply_block E c (block_new E (wrapping_add 64 (blk_height previous) 1) (blk_hash previous) now
        producer transactions))"

definition genesis_block_ok :: "block \<Rightarrow> bool" where
  "genesis_block_ok g \<longleftrightarrow> blk_height g = 0 \<and> blk_previous_hash g = replicate 64 (CHR ''0'')
     \<and> blk_producer g = ''genesis'' \<and> blk_transactions g = [] \<and> blk_system_events g = []"

text \<open>The loop of \<^verbatim>\<open>verify_and_rebuild\<close> from the second block on.\<close>

fun rebuild_blocks ::
  "ext \<Rightarrow> nat \<Rightarrow> nat \<Rightarrow> block \<Rightarrow> block list \<Rightarrow> work \<times> string set \<Rightarrow> (work \<times> string set) result" where
  "rebuild_blocks E chain_id index previous [] s = Ok s"
| "rebuild_blocks E chain_id index previous (b # bs) s =
     (if blk_hash b \<noteq> calculate_hash E b then Err (EChain (TamperedBlock index))
      else if blk_height b \<noteq> wrapping_add 64 (blk_height previous) 1 \<or> blk_previous_hash b \<noteq> blk_hash previous
      then Err (EChain (BrokenLink index))
      else rbind (run_block E chain_id b s) (rebuild_blocks E chain_id (index + 1) b bs))"

definition verify_and_rebuild :: "ext \<Rightarrow> blockchain \<Rightarrow> blockchain result" where
  "verify_and_rebuild E c =
     (case ch_blocks c of
        [] \<Rightarrow> Err (EChain NoGenesis)
      | genesis # rest \<Rightarrow>
          if \<not> genesis_block_ok genesis then Err (EChain WrongGenesis)
          else if blk_hash genesis \<noteq> calculate_hash E genesis then Err (EChain (TamperedBlock 0)) else
          rbind (rebuild_blocks E (ch_chain_id c) 1 genesis rest
                   (\<lparr>wk_balances = ch_initial_balances c, wk_nonces = [], wk_staking = staking_default\<rparr>, {}))
            (\<lambda>(w, executed).
          rbind (validate_supply_cap (wk_balances w) (wk_staking w)) (\<lambda>_.
          Ok (c\<lparr>ch_balances := wk_balances w, ch_next_nonces := wk_nonces w,
                ch_executed_events := executed, ch_staking := wk_staking w\<rparr>))))"

definition state_bytes :: "ext \<Rightarrow> staking_state \<Rightarrow> u8 list" where
  "state_bytes E st = json_staking E st"

definition state_preimage :: "ext \<Rightarrow> blockchain \<Rightarrow> u8 list" where
  "state_preimage E c =
     concat (map (\<lambda>(address, balance). as_bytes address @ be_bytes 16 balance
                    @ be_bytes 8 (chain_next_nonce c address)) (sort_key fst (ch_balances c)))
     @ concat (map (\<lambda>event_id. as_bytes ''event:'' @ as_bytes event_id)
         (sorted_list_of_set (ch_executed_events c)))
     @ (if stk_delegations (ch_staking c) \<noteq> [] \<or> stk_unbonding (ch_staking c) \<noteq> []
          \<or> stk_applied_slashes (ch_staking c) \<noteq> []
        then as_bytes ''staking-v1:'' @ state_bytes E (ch_staking c) else [])"

definition state_hash :: "ext \<Rightarrow> blockchain \<Rightarrow> string" where
  "state_hash E c = hex_encode E (sha256 E (state_preimage E c))"

end
