(* ===== verification/ChainSafety.thy ===== *)
theory ChainSafety
  imports Chain
begin

text \<open>
  What the ledger guarantees: money is neither created nor destroyed, the supply stays under the
  cap, no transaction is executed twice and none out of order, every system event runs at most
  once, and replaying the stored blocks gives back the state that applying them one by one built.
\<close>

subsection \<open>Conservation of money\<close>

lemma credit_balance_Ok:
  "credit_balance b a n e = Ok b' \<longleftrightarrow>
     b' = (if n = 0 then b else hm_insert b a (hm_get0 b a + n)) \<and> (n = 0 \<or> hm_get0 b a + n < 2 ^ 128)"
  by (auto simp: credit_balance_def)

lemma credit_balance_total: "credit_balance b a n e = Ok b' \<Longrightarrow> hm_total b' = hm_total b + n"
  using hml.total_credit [of b a n] by (auto simp: credit_balance_Ok split: if_splits)

lemma transfer_from_foundation_total:
  "transfer_from_foundation p b = Ok b' \<Longrightarrow> hm_total b' = hm_total b"
proof (cases p)
  case (Pair r n)
  assume "transfer_from_foundation p b = Ok b'"
  then have le: "n \<le> hm_get0 b FOUNDATION_FEE_ADDRESS"
    and credit: "credit_balance (hm_insert b FOUNDATION_FEE_ADDRESS (hm_get0 b FOUNDATION_FEE_ADDRESS - n))
      (normalize_address r) n EventCreditOverflow = Ok b'"
    by (auto simp: transfer_from_foundation_def Pair Let_def)
  from credit_balance_total [OF credit] hml.total_debit [OF le] show ?thesis by simp
qed

lemma foundation_transfers_total: "for_each transfer_from_foundation ps b = Ok b' \<Longrightarrow> hm_total b' = hm_total b"
  by (erule for_each_invariant) (auto dest: transfer_from_foundation_total)

definition money :: "(string, nat) hmap \<times> staking_state \<Rightarrow> nat" where
  "money s = hm_total (fst s) + stake_total (snd s)"

lemma apply_action_money:
  "apply_action i a (b, st) = Ok (b', st') \<Longrightarrow> money (b', st') = money (b, st)"
  by (cases a)
    (auto simp: money_def pay_all_def dest!: foundation_transfers_total transfer_from_foundation_total
      slash_total credit_balance_total)

lemma apply_system_events_money:
  assumes "apply_system_events E evs t (b, x, st) = Ok (b', x', st')"
  shows "money (b', st') = money (b, st)"
proof -
  have "(\<lambda>(b, _, st). money (b, st)) (b', x', st') = money (b, st)"
    using assms unfolding apply_system_events_def
    by (rule for_each_invariant) (auto simp: apply_system_event_def dest!: apply_action_money)
  then show ?thesis by simp
qed

lemma perform_tx_money:
  assumes "perform_tx t tx b st = Ok (b', st')"
  shows "money (b', st') = money (b, st) + debit_amount tx"
  using assms
  by (cases "tx_action tx")
    (auto simp: perform_tx_def money_def debit_amount_def
      dest!: credit_balance_total delegate_at_total undelegate_total claim_total)

lemma split_fee_total:
  assumes "split_fee tx p b = Ok b'"
  shows "hm_total b' = hm_total b + tx_fee tx"
proof -
  let ?f = "tx_fee tx * FOUNDATION_FEE_BPS div FEE_BPS_DENOMINATOR"
  have "?f \<le> tx_fee tx" by (simp add: FOUNDATION_FEE_BPS_def FEE_BPS_DENOMINATOR_def)
  with assms show ?thesis by (auto simp: split_fee_def Let_def dest!: credit_balance_total)
qed

definition work_money :: "work \<Rightarrow> nat" where
  "work_money w = money (wk_balances w, wk_staking w)"

lemma apply_transaction_Ok:
  assumes "apply_transaction E cid p t tx w = Ok w'"
  obtains b st b' where "tx_nonce tx = hm_get0 (wk_nonces w) (tx_from tx)"
    and "debit_amount tx + tx_fee tx \<le> hm_get0 (wk_balances w) (tx_from tx)"
    and "perform_tx t tx (hm_insert (wk_balances w) (tx_from tx)
      (hm_get0 (wk_balances w) (tx_from tx) - (debit_amount tx + tx_fee tx))) (wk_staking w) = Ok (b, st)"
    and "split_fee tx p b = Ok b'"
    and "w' = \<lparr>wk_balances = b', wk_nonces = hm_insert (wk_nonces w) (tx_from tx)
      (wrapping_add 64 (tx_nonce tx) 1), wk_staking = st\<rparr>"
    and "verify_tx E cid tx = Ok ()" and "check_tx_form tx = Ok ()"
  using assms that by (auto simp: apply_transaction_def Let_def not_less split: prod.splits)

lemma apply_transaction_money:
  assumes "apply_transaction E cid p t tx w = Ok w'"
  shows "work_money w' = work_money w"
proof -
  from assms obtain b st b' where le: "debit_amount tx + tx_fee tx \<le> hm_get0 (wk_balances w) (tx_from tx)"
    and perform: "perform_tx t tx (hm_insert (wk_balances w) (tx_from tx)
      (hm_get0 (wk_balances w) (tx_from tx) - (debit_amount tx + tx_fee tx))) (wk_staking w) = Ok (b, st)"
    and fee: "split_fee tx p b = Ok b'" and w': "wk_balances w' = b'" "wk_staking w' = st"
    by (auto elim: apply_transaction_Ok)
  from perform_tx_money [OF perform] split_fee_total [OF fee] hml.total_debit [OF le]
  show ?thesis by (simp add: work_money_def money_def w')
qed

lemma apply_transactions_money: "apply_transactions E cid txs p t w = Ok w' \<Longrightarrow> work_money w' = work_money w"
  unfolding apply_transactions_def
  by (erule for_each_invariant) (auto dest: apply_transaction_money)

lemma run_block_money:
  assumes "run_block E cid b (w, x) = Ok (w', x')"
  shows "work_money w' = work_money w"
  using assms
  by (auto simp: run_block_def work_money_def money_def
      dest!: apply_transactions_money apply_system_events_money)

subsection \<open>Nonces\<close>

definition sender_txs :: "string \<Rightarrow> transaction list \<Rightarrow> transaction list" where
  "sender_txs a txs = filter (\<lambda>tx. tx_from tx = a) txs"

text \<open>The transactions of a sender carry consecutive nonces from the stored one on.\<close>

definition nonces_run :: "string \<Rightarrow> nat \<Rightarrow> transaction list \<Rightarrow> nat \<Rightarrow> bool" where
  "nonces_run a n txs n' \<longleftrightarrow> n' = n + length (sender_txs a txs)
     \<and> map tx_nonce (sender_txs a txs) = [n..<n']"

lemma nonces_run_append:
  "nonces_run a n xs k \<Longrightarrow> nonces_run a k ys m \<Longrightarrow> nonces_run a n (xs @ ys) m"
  by (auto simp: nonces_run_def sender_txs_def upt_add_eq_append [symmetric])

lemma apply_transactions_nonces:
  assumes "apply_transactions E cid txs p t w = Ok w'"
    and "hm_get0 (wk_nonces w) a + length (sender_txs a txs) < 2 ^ 64"
  shows "nonces_run a (hm_get0 (wk_nonces w) a) txs (hm_get0 (wk_nonces w') a)"
  using assms
proof (induction txs arbitrary: w)
  case Nil
  then show ?case by (simp add: apply_transactions_def nonces_run_def sender_txs_def)
next
  case (Cons tx txs)
  from Cons.prems(1) obtain w1 where step: "apply_transaction E cid p t tx w = Ok w1"
    and rest: "apply_transactions E cid txs p t w1 = Ok w'" by (auto simp: apply_transactions_def)
  let ?n = "hm_get0 (wk_nonces w) a"
  from step have nonce: "tx_nonce tx = hm_get0 (wk_nonces w) (tx_from tx)"
    and w1: "wk_nonces w1 = hm_insert (wk_nonces w) (tx_from tx) (wrapping_add 64 (tx_nonce tx) 1)"
    by (auto elim: apply_transaction_Ok)
  show ?case
  proof (cases "tx_from tx = a")
    case True
    have room: "?n + 1 + length (sender_txs a txs) < 2 ^ 64"
      using Cons.prems(2) True by (simp add: sender_txs_def)
    then have "?n + 1 < 2 ^ 64" by linarith
    then have n1: "hm_get0 (wk_nonces w1) a = ?n + 1"
      using nonce w1 True by (simp only: hm_get0_insert wrapping_add_def mod_less if_True refl)
    with Cons.IH [OF rest] room have "nonces_run a (?n + 1) txs (hm_get0 (wk_nonces w') a)" by simp
    with nonce True show ?thesis by (auto simp: nonces_run_def sender_txs_def upt_rec)
  next
    case False
    then have "hm_get0 (wk_nonces w1) a = ?n" by (simp add: w1)
    with Cons.IH [OF rest] Cons.prems(2) False show ?thesis by (simp add: nonces_run_def sender_txs_def)
  qed
qed

definition block_txs :: "block list \<Rightarrow> transaction list" where
  "block_txs bs = concat (map blk_transactions bs)"

definition block_events :: "block list \<Rightarrow> scheduled_event list" where
  "block_events bs = concat (map blk_system_events bs)"

lemma run_block_Ok:
  assumes "run_block E cid b (w, x) = Ok (w', x')"
  obtains w1 where "apply_transactions E cid (blk_transactions b) (blk_producer b) (blk_timestamp b) w = Ok w1"
    and "apply_system_events E (blk_system_events b) (blk_timestamp b) (wk_balances w1, x, wk_staking w1)
      = Ok (wk_balances w', x', wk_staking w')"
    and "wk_nonces w' = wk_nonces w1"
  using assms that by (auto simp: run_block_def)

lemma run_blocks_nonces:
  assumes "for_each (run_block E cid) bs (w, x) = Ok (w', x')"
    and "hm_get0 (wk_nonces w) a + length (sender_txs a (block_txs bs)) < 2 ^ 64"
  shows "nonces_run a (hm_get0 (wk_nonces w) a) (block_txs bs) (hm_get0 (wk_nonces w') a)"
  using assms
proof (induction bs arbitrary: w x)
  case Nil
  then show ?case by (simp add: nonces_run_def sender_txs_def block_txs_def)
next
  case (Cons b bs)
  then obtain w2 x2 where step: "run_block E cid b (w, x) = Ok (w2, x2)"
    and rest: "for_each (run_block E cid) bs (w2, x2) = Ok (w', x')" by auto
  obtain w1 where txs: "apply_transactions E cid (blk_transactions b) (blk_producer b) (blk_timestamp b) w = Ok w1"
    and w1: "wk_nonces w2 = wk_nonces w1" by (rule run_block_Ok [OF step])
  have len: "hm_get0 (wk_nonces w) a + length (sender_txs a (blk_transactions b))
      + length (sender_txs a (block_txs bs)) < 2 ^ 64"
    using Cons.prems(2) by (simp add: sender_txs_def block_txs_def)
  have one: "nonces_run a (hm_get0 (wk_nonces w) a) (blk_transactions b) (hm_get0 (wk_nonces w2) a)"
    unfolding w1 using len by (intro apply_transactions_nonces [OF txs]) linarith
  moreover have "nonces_run a (hm_get0 (wk_nonces w2) a) (block_txs bs) (hm_get0 (wk_nonces w') a)"
    using one len by (intro Cons.IH [OF rest]) (simp add: nonces_run_def)
  ultimately show ?case using nonces_run_append by (fastforce simp: block_txs_def)
qed

subsection \<open>Events run once\<close>

lemma apply_system_events_ids:
  assumes "apply_system_events E evs t (b, x, st) = Ok (b', x', st')"
  shows "distinct (map ev_id evs) \<and> ev_id ` set evs \<inter> x = {} \<and> x' = x \<union> ev_id ` set evs
    \<and> (\<forall>e \<in> set evs. ev_execute_at e \<le> t \<and> event_validate E e = Ok ())"
  using assms
proof (induction evs arbitrary: b x st)
  case (Cons e evs)
  from Cons.prems obtain s1 where step: "apply_system_event E t e (b, x, st) = Ok s1"
    and rest: "for_each (apply_system_event E t) evs s1 = Ok (b', x', st')"
    by (auto simp: apply_system_events_def)
  from step obtain b1 st1 where s1: "s1 = (b1, insert (ev_id e) x, st1)" and new: "ev_id e \<notin> x"
    and ok: "ev_execute_at e \<le> t" "event_validate E e = Ok ()"
    by (auto simp: apply_system_event_def not_less)
  from rest s1 have "apply_system_events E evs t (b1, insert (ev_id e) x, st1) = Ok (b', x', st')"
    by (simp add: apply_system_events_def)
  from Cons.IH [OF this] new ok show ?case by auto
qed (simp add: apply_system_events_def)

lemma run_blocks_events:
  assumes "for_each (run_block E cid) bs (w, x) = Ok (w', x')"
  shows "distinct (map ev_id (block_events bs)) \<and> ev_id ` set (block_events bs) \<inter> x = {}
    \<and> x' = x \<union> ev_id ` set (block_events bs)"
  using assms
proof (induction bs arbitrary: w x)
  case (Cons b bs)
  then obtain w2 x2 where step: "run_block E cid b (w, x) = Ok (w2, x2)"
    and rest: "for_each (run_block E cid) bs (w2, x2) = Ok (w', x')" by auto
  obtain w1 :: work where
    "apply_system_events E (blk_system_events b) (blk_timestamp b) (wk_balances w1, x, wk_staking w1)
      = Ok (wk_balances w2, x2, wk_staking w2)" using step by (blast elim: run_block_Ok)
  note now = apply_system_events_ids [OF this]
  have "block_events (b # bs) = blk_system_events b @ block_events bs"
    by (simp add: block_events_def)
  with now Cons.IH [OF rest] show ?case by (simp add: Int_Un_distrib Int_Un_distrib2 image_Un Un_assoc) blast
qed (simp add: block_events_def)

subsection \<open>Supply and staking along a chain\<close>

lemma supply_cap_128: "IEUM_MAX_SUPPLY < 2 ^ 128"
  by (simp add: IEUM_MAX_SUPPLY_def IEUM_BASE_UNIT_def)

lemma validate_supply_cap_iff:
  "validate_supply_cap b st = Ok () \<longleftrightarrow> money (b, st) \<le> IEUM_MAX_SUPPLY"
proof
  assume "validate_supply_cap b st = Ok ()"
  then show "money (b, st) \<le> IEUM_MAX_SUPPLY"
    by (auto simp: validate_supply_cap_def money_def hm_total_def stake_total_def stake_delegated_def
        stake_unbonding_def dest!: checked_sum_Some split: option.splits)
next
  assume le: "money (b, st) \<le> IEUM_MAX_SUPPLY"
  have parts: "hm_total b < 2 ^ 128" "stake_delegated st < 2 ^ 128" "stake_unbonding st < 2 ^ 128"
    "hm_total b + stake_delegated st < 2 ^ 128" "hm_total b + stake_delegated st + stake_unbonding st < 2 ^ 128"
    using le supply_cap_128 by (simp_all only: money_def stake_total_def fst_conv snd_conv)
  then show "validate_supply_cap b st = Ok ()"
    using le unfolding validate_supply_cap_def hm_total_def stake_delegated_def stake_unbonding_def
    by (simp add: checked_sum_complete checked_add_def money_def stake_total_def hm_total_def
        stake_delegated_def stake_unbonding_def)
qed

definition work_ok :: "nat \<Rightarrow> work \<Rightarrow> bool" where
  "work_ok m w \<longleftrightarrow> work_money w = m \<and> staking_inv (wk_staking w)"

lemma perform_tx_staking:
  assumes "perform_tx t tx b st = Ok (b', st')" and "staking_inv st"
    and "debit_amount tx < 2 ^ 128"
  shows "staking_inv st'"
  using assms
  by (cases "tx_action tx")
    (auto simp: perform_tx_def debit_amount_def intro: delegate_at_inv undelegate_inv claim_inv
      simp del: One_nat_def)

lemma apply_transaction_work_ok:
  assumes "apply_transaction E cid p t tx w = Ok w'" and "work_ok m w" and "m < 2 ^ 128"
  shows "work_ok m w'"
proof -
  from assms(1) obtain b st b' where le: "debit_amount tx + tx_fee tx \<le> hm_get0 (wk_balances w) (tx_from tx)"
    and perform: "perform_tx t tx b (wk_staking w) = Ok (b', wk_staking w')"
    by (auto elim: apply_transaction_Ok)
  have "hm_get0 (wk_balances w) (tx_from tx) \<le> hm_total (wk_balances w)" by (rule hml.bal_le_total)
  also have "\<dots> \<le> m" using assms(2) by (simp add: work_ok_def work_money_def money_def)
  finally have "debit_amount tx < 2 ^ 128" using le assms(3) by linarith
  with perform assms(2) have "staking_inv (wk_staking w')"
    by (auto simp: work_ok_def dest: perform_tx_staking)
  with apply_transaction_money [OF assms(1)] assms(2) show ?thesis by (simp add: work_ok_def)
qed

lemma apply_action_staking:
  "apply_action i a (b, st) = Ok (b', st') \<Longrightarrow> staking_inv st \<Longrightarrow> staking_inv st'"
  by (cases a) (auto intro: slash_inv)

lemma apply_system_events_staking:
  assumes "apply_system_events E evs t (b, x, st) = Ok (b', x', st')" and "staking_inv st"
  shows "staking_inv st'"
proof -
  have "(\<lambda>(_, _, st). staking_inv st) (b', x', st')"
    using assms(1) unfolding apply_system_events_def
    by (rule for_each_invariant) (auto simp: assms(2) apply_system_event_def dest: apply_action_staking)
  then show ?thesis by simp
qed

lemma run_block_work_ok:
  assumes "run_block E cid b (w, x) = Ok (w', x')" and "work_ok m w" and "m < 2 ^ 128"
  shows "work_ok m w'"
proof -
  obtain w1 where txs: "apply_transactions E cid (blk_transactions b) (blk_producer b) (blk_timestamp b) w = Ok w1"
    and evs: "apply_system_events E (blk_system_events b) (blk_timestamp b) (wk_balances w1, x, wk_staking w1)
      = Ok (wk_balances w', x', wk_staking w')" by (rule run_block_Ok [OF assms(1)])
  have "work_ok m w1"
    using txs unfolding apply_transactions_def
    by (rule for_each_invariant) (use assms in \<open>auto intro: apply_transaction_work_ok\<close>)
  with apply_system_events_staking [OF evs] run_block_money [OF assms(1)] assms(2)
  show ?thesis by (simp add: work_ok_def)
qed

lemma run_blocks_work_ok:
  assumes "for_each (run_block E cid) bs (w, x) = Ok (w', x')" and "work_ok m w" and "m < 2 ^ 128"
  shows "work_ok m w'"
proof -
  have "(\<lambda>(w, _). work_ok m w) (w', x')"
    using assms(1) by (rule for_each_invariant) (use assms in \<open>auto intro: run_block_work_ok\<close>)
  then show ?thesis by simp
qed

subsection \<open>Linked blocks and reachable chains\<close>

fun linked :: "ext \<Rightarrow> block \<Rightarrow> block list \<Rightarrow> bool" where
  "linked E previous [] \<longleftrightarrow> True"
| "linked E previous (b # bs) \<longleftrightarrow> blk_hash b = calculate_hash E b
     \<and> blk_height b = wrapping_add 64 (blk_height previous) 1 \<and> blk_previous_hash b = blk_hash previous
     \<and> linked E b bs"

lemma linked_snoc:
  "linked E g (bs @ [b]) \<longleftrightarrow> linked E g bs \<and> blk_hash b = calculate_hash E b
     \<and> blk_height b = wrapping_add 64 (blk_height (last (g # bs))) 1
     \<and> blk_previous_hash b = blk_hash (last (g # bs))"
  by (induction bs arbitrary: g) auto

lemma rebuild_blocks_iff:
  "rebuild_blocks E cid i g bs s = Ok s' \<longleftrightarrow> linked E g bs \<and> for_each (run_block E cid) bs s = Ok s'"
  by (induction bs arbitrary: i g s) auto

definition initial_work :: "blockchain \<Rightarrow> work" where
  "initial_work c = \<lparr>wk_balances = ch_initial_balances c, wk_nonces = [], wk_staking = staking_default\<rparr>"

definition chain_inv :: "ext \<Rightarrow> blockchain \<Rightarrow> bool" where
  "chain_inv E c \<longleftrightarrow> hm_total (ch_initial_balances c) \<le> IEUM_MAX_SUPPLY \<and> (\<exists>g bs. ch_blocks c = g # bs
     \<and> genesis_block_ok g \<and> blk_hash g = calculate_hash E g \<and> linked E g bs
     \<and> for_each (run_block E (ch_chain_id c)) bs (initial_work c, {}) = Ok (chain_work c, ch_executed_events c))"

definition chain_start :: "ext \<Rightarrow> blockchain \<Rightarrow> bool" where
  "chain_start E c \<longleftrightarrow> hm_total (ch_initial_balances c) \<le> IEUM_MAX_SUPPLY
     \<and> ((\<exists>cid bs. c = with_chain_id E cid bs) \<or> (\<exists>g. from_genesis E g = Ok c))"

inductive chain_step :: "ext \<Rightarrow> blockchain \<Rightarrow> blockchain \<Rightarrow> bool" for E where
  step_apply: "apply_block E c b = Ok c' \<Longrightarrow> chain_step E c c'"
| step_rebuild: "verify_and_rebuild E c = Ok c' \<Longrightarrow> chain_step E c c'"

lemma genesis_at_ok: "genesis_block_ok (genesis_at E t)"
  by (simp add: genesis_block_ok_def genesis_at_def)

lemma chain_start_inv: "chain_start E c \<Longrightarrow> chain_inv E c"
  by (auto simp: chain_start_def chain_inv_def from_genesis_def with_chain_id_def Let_def block_genesis_def
      genesis_at_ok initial_work_def chain_work_def)

lemma chain_inv_work:
  assumes "chain_inv E c"
  shows "work_ok (hm_total (ch_initial_balances c)) (chain_work c)"
proof -
  obtain bs where run: "for_each (run_block E (ch_chain_id c)) bs (initial_work c, {})
      = Ok (chain_work c, ch_executed_events c)"
    and cap: "hm_total (ch_initial_balances c) \<le> IEUM_MAX_SUPPLY" using assms by (auto simp: chain_inv_def)
  have "work_ok (hm_total (ch_initial_balances c)) (initial_work c)"
    by (simp add: work_ok_def work_money_def money_def initial_work_def staking_inv_def stake_total_def
        stake_delegated_def stake_unbonding_def staking_default_def)
  moreover have "hm_total (ch_initial_balances c) < 2 ^ 128"
    using cap supply_cap_128 by (rule le_less_trans)
  ultimately show ?thesis by (rule run_blocks_work_ok [OF run])
qed

lemma apply_block_Ok:
  assumes "apply_block E c b = Ok c'"
  obtains w x where "ch_blocks c \<noteq> []" and "blk_hash b = calculate_hash E b"
    and "blk_height b = wrapping_add 64 (blk_height (last (ch_blocks c))) 1"
    and "blk_previous_hash b = blk_hash (last (ch_blocks c))"
    and "run_block E (ch_chain_id c) b (chain_work c, ch_executed_events c) = Ok (w, x)"
    and "money (wk_balances w, wk_staking w) \<le> IEUM_MAX_SUPPLY"
    and "c' = c\<lparr>ch_blocks := ch_blocks c @ [b], ch_balances := wk_balances w, ch_next_nonces := wk_nonces w,
            ch_executed_events := x, ch_staking := wk_staking w\<rparr>"
  using assms that by (auto simp: apply_block_def Let_def validate_supply_cap_iff split: if_splits)

lemma apply_block_inv:
  assumes "apply_block E c b = Ok c'" and "chain_inv E c"
  shows "chain_inv E c'"
proof -
  obtain g bs where c: "ch_blocks c = g # bs" "genesis_block_ok g" "blk_hash g = calculate_hash E g" "linked E g bs"
    "for_each (run_block E (ch_chain_id c)) bs (initial_work c, {}) = Ok (chain_work c, ch_executed_events c)"
    and cap: "hm_total (ch_initial_balances c) \<le> IEUM_MAX_SUPPLY"
    using assms(2) by (auto simp: chain_inv_def)
  obtain w x where b: "blk_hash b = calculate_hash E b"
    "blk_height b = wrapping_add 64 (blk_height (last (ch_blocks c))) 1"
    "blk_previous_hash b = blk_hash (last (ch_blocks c))"
    and run: "run_block E (ch_chain_id c) b (chain_work c, ch_executed_events c) = Ok (w, x)"
    and c': "c' = c\<lparr>ch_blocks := ch_blocks c @ [b], ch_balances := wk_balances w, ch_next_nonces := wk_nonces w,
            ch_executed_events := x, ch_staking := wk_staking w\<rparr>"
    by (rule apply_block_Ok [OF assms(1)])
  have "linked E g (bs @ [b])" using c(1,4) b by (simp add: linked_snoc)
  moreover have "for_each (run_block E (ch_chain_id c)) (bs @ [b]) (initial_work c, {}) = Ok (w, x)"
    using c(5) run by (simp add: for_each_append)
  ultimately show ?thesis
    using c(1-3) cap by (simp add: chain_inv_def c' initial_work_def chain_work_def)
qed

lemma verify_and_rebuild_id:
  assumes "chain_inv E c"
  shows "verify_and_rebuild E c = Ok c"
proof -
  obtain g bs where c: "ch_blocks c = g # bs" "genesis_block_ok g" "blk_hash g = calculate_hash E g" "linked E g bs"
    "for_each (run_block E (ch_chain_id c)) bs (initial_work c, {}) = Ok (chain_work c, ch_executed_events c)"
    using assms by (auto simp: chain_inv_def)
  then have "rebuild_blocks E (ch_chain_id c) 1 g bs (initial_work c, {}) = Ok (chain_work c, ch_executed_events c)"
    by (simp add: rebuild_blocks_iff)
  moreover have "validate_supply_cap (ch_balances c) (ch_staking c) = Ok ()"
    using chain_inv_work [OF assms] assms
    by (simp add: validate_supply_cap_iff work_ok_def work_money_def chain_work_def chain_inv_def)
  ultimately show ?thesis
    using c(1-3) by (simp add: verify_and_rebuild_def initial_work_def chain_work_def)
qed

interpretation chain: safety "chain_start E" "chain_step E" "chain_inv E" for E
proof
  show "chain_inv E c" if "chain_start E c" for c using that by (rule chain_start_inv)
  show "chain_inv E c'" if "chain_inv E c" and "chain_step E c c'" for c c'
    using that(2,1) by (cases rule: chain_step.cases) (auto dest: apply_block_inv simp: verify_and_rebuild_id)
qed

lemma chain_steps_initial:
  "(chain_step E)\<^sup>*\<^sup>* c c' \<Longrightarrow> ch_initial_balances c' = ch_initial_balances c"
proof (induction rule: rtranclp_induct)
  case (step c1 c2)
  from step.hyps(2) have "ch_initial_balances c2 = ch_initial_balances c1"
    by (cases rule: chain_step.cases)
      (auto elim!: apply_block_Ok simp: verify_and_rebuild_def split: list.splits if_splits)
  with step.IH show ?case by simp
qed simp

text \<open>Heights count up from the genesis block while they fit 64 bits.\<close>

lemma linked_heights:
  assumes "linked E g bs" and "i < length (g # bs)" and "blk_height g + length bs < 2 ^ 64"
  shows "blk_height ((g # bs) ! i) = blk_height g + i"
  using assms
proof (induction bs arbitrary: g i)
  case (Cons b bs)
  have "blk_height g + 1 < 2 ^ 64" using Cons.prems(3) unfolding list.size by linarith
  then have h: "blk_height b = blk_height g + 1"
    using Cons.prems(1) by (simp add: wrapping_add_def)
  have room: "blk_height b + length bs < 2 ^ 64" using Cons.prems(3) unfolding h list.size by linarith
  show ?case
  proof (cases i)
    case (Suc j)
    have "blk_height ((b # bs) ! j) = blk_height b + j"
      using Cons.prems(1,2) Suc room by (intro Cons.IH) simp_all
    with Suc h show ?thesis by simp
  qed simp
qed simp

lemma find_height:
  assumes "\<And>j. j < length bs \<Longrightarrow> blk_height (bs ! j) = k + j" and "i < length bs"
  shows "find (\<lambda>b. blk_height b = k + i) bs = Some (bs ! i)"
  unfolding find_Some_iff using assms by (intro exI [of _ i]) simp

subsection \<open>A concrete chain\<close>

definition payer :: wallet where
  "payer = \<lparr>wal_signing_key = replicate 32 1\<rparr>"

definition payer_id :: string where
  "payer_id = wallet_address toy_ext payer"

definition sample_tx :: transaction where
  "sample_tx = wallet_sign_action toy_ext payer ''bob'' 10 10 0 Transfer"

definition sample_chain :: blockchain where
  "sample_chain = with_chain_id toy_ext 7 [(payer_id, 1000)]"

definition sample_next :: block where
  "sample_next = block_new toy_ext 1 (blk_hash (block_genesis toy_ext)) 5 ''prod'' [sample_tx]"

definition sample_after :: blockchain where
  "sample_after = sample_chain\<lparr>ch_blocks := [block_genesis toy_ext, sample_next],
     ch_balances := [(payer_id, 980), (''bob'', 10), (''prod'', 8), (FOUNDATION_FEE_ADDRESS, 2)],
     ch_next_nonces := [(payer_id, 1)]\<rparr>"

lemma payer_length: "length payer_id = 64"
proof -
  have "length (toy_hex_encode bs) = 2 * length bs" for bs by (induction bs) simp_all
  then show ?thesis by (simp add: payer_id_def wallet_address_def payer_def toy_ext_def)
qed

lemma payer_distinct: "payer_id \<noteq> ''bob''" "payer_id \<noteq> ''prod''" "payer_id \<noteq> FOUNDATION_FEE_ADDRESS"
proof -
  have "payer_id \<noteq> s" if "length s \<noteq> 64" for s using that payer_length by blast
  then show "payer_id \<noteq> ''bob''" "payer_id \<noteq> ''prod''" "payer_id \<noteq> FOUNDATION_FEE_ADDRESS"
    by (simp_all add: FOUNDATION_FEE_ADDRESS_def IEUM_FOUNDATION_ADDRESS_def)
qed

lemma sample_tx_fields:
  "tx_from sample_tx = payer_id" "tx_to sample_tx = ''bob''" "tx_amount sample_tx = 10" "tx_fee sample_tx = 10"
  "tx_nonce sample_tx = 0" "tx_action sample_tx = Transfer"
  by (simp_all add: sample_tx_def wallet_sign_action_def Let_def payer_id_def)

lemma sample_tx_verifies: "verify_tx toy_ext cid sample_tx = Ok ()"
proof -
  have "list_all lower_hex (tx_signature sample_tx)"
    using hex_laws_toy by (simp add: sample_tx_def wallet_sign_action_def Let_def wallet_sign_bytes_def hex_laws_def)
  then have "\<not> starts_with (tx_signature sample_tx) ''ethraw:''" by (rule hex_not_ethraw)
  moreover have "verify_transaction toy_ext sample_tx = Ok ()"
    unfolding sample_tx_def
    by (rule wallet_transaction_accepted [OF hex_laws_toy ed25519_laws_toy]) (simp add: payer_def)
  ultimately show ?thesis by (simp add: verify_tx_def)
qed

lemma sample_form: "check_tx_form sample_tx = Ok ()"
  by (simp add: check_tx_form_def sample_tx_fields normalize_address_def starts_with_def STAKING_SYSTEM_ADDRESS_def)

lemma sample_transaction:
  "apply_transaction toy_ext 7 ''prod'' 5 sample_tx (chain_work sample_chain) = Ok (chain_work sample_after)"
  using payer_distinct
  by (simp add: apply_transaction_def sample_tx_verifies sample_form sample_tx_fields chain_work_def
      sample_chain_def sample_after_def with_chain_id_def Let_def hm_from_list_def debit_amount_def perform_tx_def
      credit_balance_def split_fee_def FOUNDATION_FEE_BPS_def FEE_BPS_DENOMINATOR_def checked_add_def checked_mul_def
      hm_get0_def hm_get_def hm_insert_def wrapping_add_def FOUNDATION_FEE_ADDRESS_def IEUM_FOUNDATION_ADDRESS_def)

lemma sample_apply: "apply_block toy_ext sample_chain sample_next = Ok sample_after"
proof -
  have "run_block toy_ext 7 sample_next (chain_work sample_chain, {}) = Ok (chain_work sample_after, {})"
    by (simp add: run_block_def sample_next_def apply_transactions_def sample_transaction apply_system_events_def)
  moreover have "validate_supply_cap (ch_balances sample_after) (ch_staking sample_after) = Ok ()"
    by (simp add: validate_supply_cap_iff money_def sample_after_def sample_chain_def with_chain_id_def Let_def
        hm_total_def stake_total_def stake_delegated_def stake_unbonding_def staking_default_def
        IEUM_MAX_SUPPLY_def IEUM_BASE_UNIT_def)
  ultimately show ?thesis
    by (simp add: apply_block_def Let_def sample_chain_def with_chain_id_def sample_next_def block_genesis_def
        genesis_at_def wrapping_add_def chain_work_def sample_after_def)
qed

lemma sample_chain_start: "chain_start toy_ext sample_chain"
proof -
  have "hm_total (ch_initial_balances sample_chain) \<le> IEUM_MAX_SUPPLY"
    by (simp add: sample_chain_def with_chain_id_def Let_def hm_from_list_def hm_insert_def
        hm_total_def IEUM_MAX_SUPPLY_def IEUM_BASE_UNIT_def)
  then show ?thesis unfolding chain_start_def sample_chain_def by blast
qed

lemma sample_steps: "(chain_step toy_ext)\<^sup>*\<^sup>* sample_chain sample_after"
  using sample_apply by (blast intro: step_apply)

subsection \<open>Properties\<close>

text \<open>
  C5.  Conservation of money.  On every chain that grows from its genesis by applying blocks (and
  by rebuilding it from storage), liquid balances, delegated stake and stake that is being
  released always add up to exactly the genesis supply: transfers, fees, delegation, release,
  slashing and every reward event only move money.  A genesis within the supply cap is what
  \<open>chain_start\<close> starts from (\<^verbatim>\<open>from_genesis\<close> itself does not check it); so the cap holds ever after, and
  no balance exceeds it.
\<close>

theorem supply_conserved:
  assumes "chain_start E c0" and "(chain_step E)\<^sup>*\<^sup>* c0 c"
  shows "hm_total (ch_balances c) + stake_delegated (ch_staking c) + stake_unbonding (ch_staking c)
      = hm_total (ch_initial_balances c0)
    \<and> hm_total (ch_initial_balances c0) \<le> IEUM_MAX_SUPPLY \<and> balance_of c a \<le> IEUM_MAX_SUPPLY"
proof -
  have inv: "chain_inv E c" using assms by (rule chain.inv_reachable)
  have init: "ch_initial_balances c = ch_initial_balances c0" using assms(2) by (rule chain_steps_initial)
  have total: "hm_total (ch_balances c) + stake_total (ch_staking c) = hm_total (ch_initial_balances c0)"
    using chain_inv_work [OF inv] by (simp add: work_ok_def work_money_def money_def chain_work_def init)
  have cap: "hm_total (ch_initial_balances c0) \<le> IEUM_MAX_SUPPLY" using assms(1) by (simp add: chain_start_def)
  have "balance_of c a \<le> hm_total (ch_balances c)" unfolding balance_of_def by (rule hml.bal_le_total)
  with total cap show ?thesis by (simp add: stake_total_def)
qed

theorem supply_conserved_witness:
  "hm_total (ch_balances sample_after) + stake_delegated (ch_staking sample_after)
     + stake_unbonding (ch_staking sample_after) = 1000 \<and> balance_of sample_after ''bob'' \<le> IEUM_MAX_SUPPLY"
  using supply_conserved [OF sample_chain_start sample_steps, of "''bob''"]
  by (simp add: sample_chain_def with_chain_id_def Let_def hm_from_list_def hm_insert_def hm_total_def)

text \<open>
  C10.  No replay, no gaps.  The transactions of one sender in a chain, in the order of the blocks,
  carry the nonces 0, 1, 2 and so on, and the stored next nonce is their number.  No signed
  transaction is ever executed twice.
\<close>

theorem nonces_sequential:
  assumes "chain_start E c0" and "(chain_step E)\<^sup>*\<^sup>* c0 c"
    and "length (sender_txs a (block_txs (tl (ch_blocks c)))) < 2 ^ 64"
  shows "map tx_nonce (sender_txs a (block_txs (tl (ch_blocks c)))) = [0..<chain_next_nonce c a]"
proof -
  have "chain_inv E c" using assms(1,2) by (rule chain.inv_reachable)
  then have run: "for_each (run_block E (ch_chain_id c)) (tl (ch_blocks c)) (initial_work c, {})
      = Ok (chain_work c, ch_executed_events c)" by (auto simp: chain_inv_def)
  have zero: "hm_get0 (wk_nonces (initial_work c)) a = 0" by (simp add: initial_work_def hm_get0_def)
  show ?thesis
    using run_blocks_nonces [OF run, of a] assms(3)
    by (simp add: zero nonces_run_def chain_work_def chain_next_nonce_def)
qed

theorem nonces_sequential_witness:
  "map tx_nonce (sender_txs payer_id (block_txs (tl (ch_blocks sample_after)))) = [0..<chain_next_nonce sample_after payer_id]"
proof (rule nonces_sequential [OF sample_chain_start sample_steps])
  show "length (sender_txs payer_id (block_txs (tl (ch_blocks sample_after)))) < 2 ^ 64"
    by (simp add: sample_after_def sample_next_def block_txs_def sender_txs_def sample_tx_fields)
qed

text \<open>
  C11.  System events run exactly once.  The events in the blocks of a chain have pairwise different
  ids, and the set of executed ids is the set of their ids.
\<close>

theorem events_executed_once:
  assumes "chain_start E c0" and "(chain_step E)\<^sup>*\<^sup>* c0 c"
  shows "distinct (map ev_id (block_events (tl (ch_blocks c))))
    \<and> ch_executed_events c = ev_id ` set (block_events (tl (ch_blocks c)))"
proof -
  have "chain_inv E c" using assms by (rule chain.inv_reachable)
  then have "for_each (run_block E (ch_chain_id c)) (tl (ch_blocks c)) (initial_work c, {})
      = Ok (chain_work c, ch_executed_events c)" by (auto simp: chain_inv_def)
  from run_blocks_events [OF this] show ?thesis by simp
qed

theorem events_executed_once_witness:
  "ch_executed_events sample_after = ev_id ` set (block_events (tl (ch_blocks sample_after)))"
  using events_executed_once [OF sample_chain_start sample_steps] by blast

text \<open>
  C12.  Rebuilding is the inverse of building.  A chain that was built block by block passes
  \<^verbatim>\<open>verify_and_rebuild\<close>, and recomputing everything from genesis gives the same balances,
  nonces, executed events and stakes.
\<close>

theorem rebuild_reproduces:
  assumes "chain_start E c0" and "(chain_step E)\<^sup>*\<^sup>* c0 c"
  shows "verify_and_rebuild E c = Ok c"
  using assms by (intro verify_and_rebuild_id) (rule chain.inv_reachable)

theorem rebuild_reproduces_witness: "verify_and_rebuild toy_ext sample_after = Ok sample_after"
  by (rule rebuild_reproduces [OF sample_chain_start sample_steps])

definition fresh_chain :: "blockchain \<Rightarrow> blockchain" where
  "fresh_chain c = c\<lparr>ch_blocks := take 1 (ch_blocks c), ch_balances := ch_initial_balances c,
     ch_next_nonces := [], ch_executed_events := {}, ch_staking := staking_default\<rparr>"

definition chain_with :: "blockchain \<Rightarrow> block list \<Rightarrow> work \<times> string set \<Rightarrow> blockchain" where
  "chain_with c bs s = c\<lparr>ch_blocks := bs, ch_balances := wk_balances (fst s), ch_next_nonces := wk_nonces (fst s),
     ch_executed_events := snd s, ch_staking := wk_staking (fst s)\<rparr>"

lemma apply_block_run:
  assumes "run_block E (ch_chain_id c) b s = Ok s'" and "linked E (last bs) [b]" and "bs \<noteq> []"
    and "work_money (fst s) \<le> IEUM_MAX_SUPPLY"
  shows "apply_block E (chain_with c bs s) b = Ok (chain_with c (bs @ [b]) s')"
proof -
  obtain w x w' x' where s: "s = (w, x)" "s' = (w', x')" by (cases s; cases s')
  have "work_money w' = work_money w" using assms(1) by (simp add: s run_block_money)
  then have "validate_supply_cap (wk_balances w') (wk_staking w') = Ok ()"
    using assms(4) by (simp add: s validate_supply_cap_iff work_money_def)
  moreover have "chain_work (chain_with c bs s) = w" by (simp add: chain_work_def chain_with_def s)
  ultimately show ?thesis
    using assms(1-3) by (simp add: apply_block_def Let_def chain_with_def s)
qed

lemma apply_blocks_run:
  assumes "for_each (run_block E (ch_chain_id c)) ys s = Ok s'" and "linked E (last bs) ys" and "bs \<noteq> []"
    and "work_money (fst s) \<le> IEUM_MAX_SUPPLY"
  shows "for_each (\<lambda>b c. apply_block E c b) ys (chain_with c bs s) = Ok (chain_with c (bs @ ys) s')"
  using assms
proof (induction ys arbitrary: bs s)
  case (Cons y ys)
  then obtain s1 where step: "run_block E (ch_chain_id c) y s = Ok s1"
    and rest: "for_each (run_block E (ch_chain_id c)) ys s1 = Ok s'" by auto
  have "work_money (fst s1) = work_money (fst s)"
    using step run_block_money [of E "ch_chain_id c" y "fst s" "snd s" "fst s1" "snd s1"] by simp
  then have "for_each (\<lambda>b c. apply_block E c b) ys (chain_with c (bs @ [y]) s1) = Ok (chain_with c ((bs @ [y]) @ ys) s')"
    using Cons.prems by (intro Cons.IH [OF rest]) simp_all
  moreover have "apply_block E (chain_with c bs s) y = Ok (chain_with c (bs @ [y]) s1)"
    using Cons.prems by (intro apply_block_run [OF step]) simp_all
  ultimately show ?case by simp
qed simp

text \<open>
  C13.  Rebuilding trusts nothing but the blocks.  Whatever balances, nonces, executed events and
  stakes a stored chain claims, if \<^verbatim>\<open>verify_and_rebuild\<close> accepts it then the state it installs
  is the one obtained by applying the blocks, one after the other, to a fresh chain that has only
  the genesis block and the initial balances.
\<close>

theorem rebuild_sound:
  assumes "verify_and_rebuild E c = Ok c'" and "hm_total (ch_initial_balances c) \<le> IEUM_MAX_SUPPLY"
  shows "for_each (\<lambda>b c. apply_block E c b) (tl (ch_blocks c)) (fresh_chain c) = Ok c'"
proof -
  obtain g bs where c: "ch_blocks c = g # bs" by (cases "ch_blocks c") (use assms(1) in \<open>auto simp: verify_and_rebuild_def\<close>)
  let ?s = "(initial_work c, {} :: string set)"
  from assms(1) c obtain w x where
    reb: "rebuild_blocks E (ch_chain_id c) 1 g bs ?s = Ok (w, x)"
    and c': "c' = chain_with c (g # bs) (w, x)"
    by (auto simp: verify_and_rebuild_def initial_work_def chain_with_def split: if_splits)
  have fresh: "fresh_chain c = chain_with c [g] ?s"
    by (simp add: fresh_chain_def chain_with_def initial_work_def c)
  have "work_money (initial_work c) \<le> IEUM_MAX_SUPPLY"
    using assms(2) by (simp add: work_money_def money_def initial_work_def stake_total_def stake_delegated_def
        stake_unbonding_def staking_default_def)
  with reb apply_blocks_run [of E c bs ?s "(w, x)" "[g]"] show ?thesis
    unfolding fresh c' by (simp add: c rebuild_blocks_iff)
qed

theorem rebuild_sound_witness:
  "for_each (\<lambda>b c. apply_block toy_ext c b) (tl (ch_blocks sample_after)) (fresh_chain sample_after) = Ok sample_after"
proof (rule rebuild_sound)
  show "verify_and_rebuild toy_ext sample_after = Ok sample_after"
    using chain.inv_reachable [OF sample_chain_start sample_steps] by (rule verify_and_rebuild_id)
  show "hm_total (ch_initial_balances sample_after) \<le> IEUM_MAX_SUPPLY"
    using chain.inv_reachable [OF sample_chain_start sample_steps] by (simp add: chain_inv_def)
qed

text \<open>
  C24.  The effect of a transfer on every account.  The sender pays amount and fee, the receiver
  gets the amount, the foundation a fifth of the fee rounded down and the block producer all the
  rest of it, also when some of these accounts coincide; stakes do not change and the sender's
  nonce advances by one.
\<close>

theorem transfer_effect:
  assumes "apply_transaction E cid producer t tx w = Ok w'" and "tx_action tx = Transfer"
    and "tx_nonce tx + 1 < 2 ^ 64"
  shows "hm_get0 (wk_balances w') a + (if a = tx_from tx then tx_amount tx + tx_fee tx else 0)
      = hm_get0 (wk_balances w) a + (if a = tx_to tx then tx_amount tx else 0)
        + (if a = producer then tx_fee tx - tx_fee tx * 2000 div 10000 else 0)
        + (if a = FOUNDATION_FEE_ADDRESS then tx_fee tx * 2000 div 10000 else 0)
    \<and> wk_staking w' = wk_staking w
    \<and> hm_get0 (wk_nonces w') a = hm_get0 (wk_nonces w) a + (if a = tx_from tx then 1 else 0)"
proof -
  have get: "credit_balance b k n e = Ok b' \<Longrightarrow> hm_get0 b' a = hm_get0 b a + (if a = k then n else 0)"
    for b b' k n e by (auto simp: credit_balance_Ok)
  from assms(1,2) obtain b b' where nonce: "tx_nonce tx = hm_get0 (wk_nonces w) (tx_from tx)"
    and le: "tx_amount tx + tx_fee tx \<le> hm_get0 (wk_balances w) (tx_from tx)"
    and b: "credit_balance (hm_insert (wk_balances w) (tx_from tx)
      (hm_get0 (wk_balances w) (tx_from tx) - (tx_amount tx + tx_fee tx))) (tx_to tx) (tx_amount tx) CreditOverflow = Ok b"
    and fee: "split_fee tx producer b = Ok b'"
    and w': "w' = \<lparr>wk_balances = b', wk_nonces = hm_insert (wk_nonces w) (tx_from tx) (wrapping_add 64 (tx_nonce tx) 1),
      wk_staking = wk_staking w\<rparr>"
    by (auto simp: debit_amount_def perform_tx_def elim!: apply_transaction_Ok)
  from fee obtain b1 where "credit_balance b producer (tx_fee tx - tx_fee tx * 2000 div 10000) ProducerOverflow = Ok b1"
    and "credit_balance b1 FOUNDATION_FEE_ADDRESS (tx_fee tx * 2000 div 10000) FoundationOverflow = Ok b'"
    by (auto simp: split_fee_def Let_def FOUNDATION_FEE_BPS_def FEE_BPS_DENOMINATOR_def)
  from get [OF b] get [OF this(1)] get [OF this(2)] le
  have "hm_get0 b' a + (if a = tx_from tx then tx_amount tx + tx_fee tx else 0)
      = hm_get0 (wk_balances w) a + (if a = tx_to tx then tx_amount tx else 0)
        + (if a = producer then tx_fee tx - tx_fee tx * 2000 div 10000 else 0)
        + (if a = FOUNDATION_FEE_ADDRESS then tx_fee tx * 2000 div 10000 else 0)" by simp
  moreover have "wrapping_add 64 (tx_nonce tx) 1 = tx_nonce tx + 1"
    using assms(3) unfolding wrapping_add_def by (rule mod_less)
  ultimately show ?thesis using nonce by (simp add: w')
qed

theorem transfer_effect_witness:
  "hm_get0 (wk_balances (chain_work sample_after)) ''bob'' = 10"
  using transfer_effect [OF sample_transaction, of "''bob''"] payer_distinct(1)
  by (simp add: sample_tx_fields chain_work_def sample_chain_def with_chain_id_def Let_def hm_from_list_def
      hm_insert_def hm_get0_def hm_get_def FOUNDATION_FEE_ADDRESS_def IEUM_FOUNDATION_ADDRESS_def)

text \<open>
  Blocks are found where they are.  The block at position \<open>i\<close> of a chain has height
  \<open>i\<close>, its hash is the hash of its contents, it names its predecessor's hash, and looking a
  block up by that height finds it.
\<close>

theorem block_lookup:
  assumes "chain_start E c0" and "(chain_step E)\<^sup>*\<^sup>* c0 c" and "length (ch_blocks c) < 2 ^ 64"
    and "i < length (ch_blocks c)"
  shows "block_by_height c i = Some (ch_blocks c ! i)
    \<and> blk_height (ch_blocks c ! i) = i \<and> tip_height c = length (ch_blocks c) - 1"
proof -
  have "chain_inv E c" using assms(1,2) by (rule chain.inv_reachable)
  then obtain g bs where c: "ch_blocks c = g # bs" and g: "blk_height g = 0" and lk: "linked E g bs"
    by (auto simp: chain_inv_def genesis_block_ok_def)
  have room: "blk_height g + length bs < 2 ^ 64" using assms(3) unfolding c g list.size by linarith
  have h: "blk_height (ch_blocks c ! j) = 0 + j" if "j < length (ch_blocks c)" for j
    using linked_heights [OF lk _ room, of j] that by (simp add: c g)
  have "block_by_height c i = Some (ch_blocks c ! i)"
    unfolding block_by_height_def using find_height [of "ch_blocks c" 0 i, OF h] assms(4) by simp
  moreover have "tip_height c = length (ch_blocks c) - 1"
  proof -
    have "ch_blocks c \<noteq> []" by (simp add: c)
    with h [of "length (ch_blocks c) - 1"] show ?thesis by (simp add: tip_height_def last_conv_nth)
  qed
  ultimately show ?thesis using h [OF assms(4)] by simp
qed

theorem block_lookup_witness: "block_by_height sample_after 1 = Some sample_next"
  using block_lookup [OF sample_chain_start sample_steps, of 1] by (simp add: sample_after_def)

end
