(* ===== verification/Bft.thy ===== *)
theory Bft
  imports Votes
begin

text \<open>
  The consensus state machine \<^verbatim>\<open>BftConsensus\<close> (\<^verbatim>\<open>src/src/consensus.rs\<close>, lines 405 to
  772): propose, prevote, precommit, with locking, valid values, evidence collection and round
  changes.  An operation that takes \<^verbatim>\<open>&mut self\<close> returns the new state together with its
  result, because several of them change the state and then fail: a vote is recorded before it is
  found to be for another block, and evidence is stored on the path that rejects a double vote.
\<close>

subsection \<open>State\<close>

datatype consensus_phase = Waiting | Propose | PrevotePhase | PrecommitPhase | Finalized

type_synonym vote_key = "nat \<times> nat \<times> vote_type \<times> string"

record bft =
  bft_validators :: "(string, nat) hmap"
  bft_total_power :: nat
  bft_height :: nat
  bft_round :: nat
  bft_phase :: consensus_phase
  bft_proposal :: "string option"
  bft_votes :: "(vote_type \<times> string, string list) hmap"
  bft_vote_history :: "(vote_key, string) hmap"
  bft_vote_messages :: "(vote_key, consensus_message) hmap"
  bft_locked_value :: "string option"
  bft_locked_round :: "nat option"
  bft_valid_value :: "string option"
  bft_valid_round :: "nat option"
  bft_evidence :: "double_vote_evidence list"
  bft_finalized :: "string option"

type_synonym 'a action = "bft \<times> 'a result"

subsection \<open>Operations\<close>

definition bft_add_validator :: "validator \<Rightarrow> (string, nat) hmap \<Rightarrow> (string, nat) hmap result" where
  "bft_add_validator v m =
     (if val_voting_power v = 0 \<or> hm_contains m (val_id v) then Err (EConsensus BadValidator)
      else Ok (hm_insert m (val_id v) (val_voting_power v)))"

definition bft_new :: "validator list \<Rightarrow> bft result" where
  "bft_new validators =
     (if validators = [] then Err (EConsensus NoValidators) else
      rbind (for_each bft_add_validator validators []) (\<lambda>m. Ok
        \<lparr>bft_validators = m, bft_total_power = wrapping_sum 64 (map snd m), bft_height = 0,
         bft_round = 0, bft_phase = Waiting, bft_proposal = None, bft_votes = [],
         bft_vote_history = [], bft_vote_messages = [], bft_locked_value = None,
         bft_locked_round = None, bft_valid_value = None, bft_valid_round = None,
         bft_evidence = [], bft_finalized = None\<rparr>))"

definition start_round :: "bft \<Rightarrow> nat \<Rightarrow> nat \<Rightarrow> unit action" where
  "start_round s height round =
     (if height < bft_height s \<or> (height = bft_height s \<and> round < bft_round s)
      then (s, Err (EConsensus PastRound)) else
      let s1 = (if height > bft_height s
                then s\<lparr>bft_locked_value := None, bft_locked_round := None, bft_valid_value := None,
                       bft_valid_round := None\<rparr> else s)
      in (s1\<lparr>bft_height := height, bft_round := round, bft_phase := Propose, bft_proposal := None,
             bft_votes := [], bft_finalized := None\<rparr>, Ok ()))"

definition expected_proposer :: "bft \<Rightarrow> string" where
  "expected_proposer s =
     (let ids = sort (map fst (bft_validators s))
      in ids ! (wrapping_add 64 (saturating_sub (bft_height s) 1) (bft_round s) mod length ids))"

definition propose :: "bft \<Rightarrow> string \<Rightarrow> string \<Rightarrow> unit action" where
  "propose s proposer block_hash =
     (if bft_phase s \<noteq> Propose then (s, Err (EConsensus WrongPhaseForProposal))
      else if proposer \<noteq> expected_proposer s
      then (s, Err (EConsensus (NotProposer (expected_proposer s))))
      else if block_hash = [] then (s, Err (EConsensus EmptyProposal))
      else (s\<lparr>bft_proposal := Some block_hash, bft_phase := PrevotePhase\<rparr>, Ok ()))"

text \<open>
  The loop over a list of prevotes that claims a quorum, which \<^verbatim>\<open>verify_valid_round_certificate\<close>
  and \<^verbatim>\<open>adopt_valid_value\<close> share, and the test after it.
\<close>

definition prevote_step ::
  "ext \<Rightarrow> (string, nat) hmap \<Rightarrow> nat \<Rightarrow> nat \<Rightarrow> string \<Rightarrow> consensus_message
   \<Rightarrow> string list \<times> nat \<Rightarrow> (string list \<times> nat) result" where
  "prevote_step E validators height round block_hash vote = (\<lambda>(voters, power).
     if msg_height vote \<noteq> height \<or> msg_round vote \<noteq> round \<or> msg_vote_type vote \<noteq> Prevote
       \<or> msg_block_hash vote \<noteq> block_hash
     then Err (EConsensus PrevoteMismatch) else
     rbind (message_verify E vote) (\<lambda>_.
     rbind (ok_or (hm_get validators (msg_validator_id vote)) (EConsensus UnknownPrevoter)) (\<lambda>voting_power.
     if msg_validator_id vote \<in> set voters then Err (EConsensus DuplicatePrevoter) else
     rbind (ok_or (checked_add 64 power voting_power) (EConsensus PowerOverflow)) (\<lambda>power'.
     Ok (msg_validator_id vote # voters, power')))))"

definition check_prevotes ::
  "ext \<Rightarrow> bft \<Rightarrow> nat \<Rightarrow> nat \<Rightarrow> string \<Rightarrow> consensus_message list \<Rightarrow> unit result" where
  "check_prevotes E s height round block_hash prevotes =
     (if length prevotes > length (bft_validators s) then Err (EConsensus TooManyPrevotes) else
      rbind (for_each (prevote_step E (bft_validators s) height round block_hash) prevotes ([], 0))
        (\<lambda>(voters, power).
      if saturating_mul 64 power 3 \<le> saturating_mul 64 (bft_total_power s) 2
      then Err (EConsensus NoPrevoteQuorum) else Ok ()))"

definition verify_valid_round_certificate :: "ext \<Rightarrow> bft \<Rightarrow> signed_proposal \<Rightarrow> nat \<Rightarrow> unit result" where
  "verify_valid_round_certificate E s p valid_round =
     (if valid_round \<ge> prop_round p then Err (EConsensus ValidRoundNotPast)
      else check_prevotes E s (prop_height p) valid_round (blk_hash (prop_block p))
        (prop_valid_round_prevotes p))"

definition unlock_allowed :: "bft \<Rightarrow> signed_proposal \<Rightarrow> bool" where
  "unlock_allowed s p =
     (case (prop_valid_round p, bft_locked_round s) of
        (Some valid_round, Some locked_round) \<Rightarrow> locked_round \<le> valid_round
      | _ \<Rightarrow> False)"

definition lock_blocks :: "bft \<Rightarrow> signed_proposal \<Rightarrow> bool" where
  "lock_blocks s p =
     (case bft_locked_value s of
        None \<Rightarrow> False
      | Some locked_value \<Rightarrow> locked_value \<noteq> blk_hash (prop_block p) \<and> \<not> unlock_allowed s p)"

definition handle_proposal :: "ext \<Rightarrow> bft \<Rightarrow> signed_proposal \<Rightarrow> unit action" where
  "handle_proposal E s p =
     (if prop_height p \<noteq> bft_height s \<or> prop_round p \<noteq> bft_round s
      then (s, Err (EConsensus ProposalRound))
      else if \<not> hm_contains (bft_validators s) (prop_proposer_id p)
      then (s, Err (EConsensus UnknownProposer))
      else (case proposal_verify E p of Err e \<Rightarrow> (s, Err e) | Ok _ \<Rightarrow>
        (case (case prop_valid_round p of
                 Some valid_round \<Rightarrow> verify_valid_round_certificate E s p valid_round
               | None \<Rightarrow> if prop_valid_round_prevotes p \<noteq> [] then Err (EConsensus PrevotesWithoutRound)
                         else Ok ()) of
           Err e \<Rightarrow> (s, Err e)
         | Ok _ \<Rightarrow>
             if lock_blocks s p then (s, Err (EConsensus LockedValue)) else
             let s1 = (case prop_valid_round p of
                         Some valid_round \<Rightarrow> s\<lparr>bft_valid_value := Some (blk_hash (prop_block p)),
                                              bft_valid_round := Some valid_round\<rparr>
                       | None \<Rightarrow> s)
             in propose s1 (prop_proposer_id p) (blk_hash (prop_block p)))))"

definition has_quorum :: "bft \<Rightarrow> vote_type \<times> string \<Rightarrow> bool" where
  "has_quorum s key =
     (let ids = (case hm_get (bft_votes s) key of None \<Rightarrow> [] | Some ids \<Rightarrow> ids);
          power = wrapping_sum 64 (List.map_filter (hm_get (bft_validators s)) ids)
      in saturating_mul 64 power 3 > saturating_mul 64 (bft_total_power s) 2)"

definition phase_accepts :: "consensus_phase \<Rightarrow> vote_type \<Rightarrow> bool" where
  "phase_accepts phase t =
     (case (phase, t) of
        (PrevotePhase, Prevote) \<Rightarrow> True
      | (PrecommitPhase, Prevote) \<Rightarrow> True
      | (PrecommitPhase, Precommit) \<Rightarrow> True
      | (Finalized, Prevote) \<Rightarrow> True
      | (Finalized, Precommit) \<Rightarrow> True
      | _ \<Rightarrow> False)"

definition history_key :: "consensus_message \<Rightarrow> vote_key" where
  "history_key m = (msg_height m, msg_round m, msg_vote_type m, msg_validator_id m)"

definition record_evidence :: "ext \<Rightarrow> bft \<Rightarrow> consensus_message \<Rightarrow> bft" where
  "record_evidence E s m =
     (case hm_get (bft_vote_messages s) (history_key m) of
        None \<Rightarrow> s
      | Some first \<Rightarrow>
          (case evidence_new E first m of
             Err _ \<Rightarrow> s
           | Ok evidence \<Rightarrow>
               if \<exists>known \<in> set (bft_evidence s). evidence_id known = evidence_id evidence then s
               else s\<lparr>bft_evidence := bft_evidence s @ [evidence]\<rparr>))"

definition record_vote :: "bft \<Rightarrow> consensus_message \<Rightarrow> bft" where
  "record_vote s m =
     s\<lparr>bft_vote_history := hm_insert (bft_vote_history s) (history_key m) (msg_block_hash m),
       bft_vote_messages := hm_insert (bft_vote_messages s) (history_key m) m\<rparr>"

definition count_vote :: "bft \<Rightarrow> consensus_message \<Rightarrow> bft" where
  "count_vote s m =
     (let key = (msg_vote_type m, msg_block_hash m);
          ids = (case hm_get (bft_votes s) key of None \<Rightarrow> [] | Some ids \<Rightarrow> ids)
      in s\<lparr>bft_votes := hm_insert (bft_votes s) key (List.insert (msg_validator_id m) ids)\<rparr>)"

definition advance_phase :: "bft \<Rightarrow> consensus_message \<Rightarrow> bft" where
  "advance_phase s m =
     (if has_quorum s (msg_vote_type m, msg_block_hash m) \<and> bft_phase s \<noteq> Finalized
      then (case msg_vote_type m of
              Prevote \<Rightarrow>
                if bft_phase s = PrevotePhase
                then s\<lparr>bft_valid_value := Some (msg_block_hash m), bft_valid_round := Some (bft_round s),
                       bft_locked_value := Some (msg_block_hash m),
                       bft_locked_round := Some (bft_round s), bft_phase := PrecommitPhase\<rparr>
                else s
            | Precommit \<Rightarrow> s\<lparr>bft_phase := Finalized, bft_finalized := Some (msg_block_hash m)\<rparr>)
      else s)"

definition handle :: "ext \<Rightarrow> bft \<Rightarrow> consensus_message \<Rightarrow> unit action" where
  "handle E s m =
     (if msg_height m \<noteq> bft_height s \<or> msg_round m \<noteq> bft_round s
      then (s, Err (EConsensus VoteRound))
      else if \<not> hm_contains (bft_validators s) (msg_validator_id m)
      then (s, Err (EConsensus UnknownVoter))
      else (case message_verify E m of Err e \<Rightarrow> (s, Err e) | Ok _ \<Rightarrow>
        if \<not> phase_accepts (bft_phase s) (msg_vote_type m)
        then (s, Err (EConsensus WrongPhaseForVote))
        else (case hm_get (bft_vote_history s) (history_key m) of
            Some previous_hash \<Rightarrow>
              if previous_hash \<noteq> msg_block_hash m
              then (record_evidence E s m, Err (EConsensus DoubleVote))
              else if bft_proposal s \<noteq> Some (msg_block_hash m)
              then (s, Err (EConsensus VoteForOtherBlock))
              else (advance_phase (count_vote s m) m, Ok ())
          | None \<Rightarrow>
              let s1 = record_vote s m in
              if bft_proposal s1 \<noteq> Some (msg_block_hash m)
              then (s1, Err (EConsensus VoteForOtherBlock))
              else (advance_phase (count_vote s1 m) m, Ok ()))))"

definition prevote_certificate :: "bft \<Rightarrow> string \<Rightarrow> nat \<Rightarrow> consensus_message list" where
  "prevote_certificate s block_hash round =
     sort_key msg_validator_id (filter (\<lambda>vote. msg_height vote = bft_height s
       \<and> msg_round vote = round \<and> msg_vote_type vote = Prevote \<and> msg_block_hash vote = block_hash)
       (map snd (bft_vote_messages s)))"

definition adopt_valid_value ::
  "ext \<Rightarrow> bft \<Rightarrow> string \<Rightarrow> nat \<Rightarrow> consensus_message list \<Rightarrow> unit action" where
  "adopt_valid_value E s block_hash valid_round prevotes =
     (case check_prevotes E s (bft_height s) valid_round block_hash prevotes of
        Err e \<Rightarrow> (s, Err e)
      | Ok _ \<Rightarrow>
          (if (case bft_valid_round s of None \<Rightarrow> True | Some known \<Rightarrow> valid_round > known)
           then (foldl record_vote (s\<lparr>bft_valid_value := Some block_hash,
                   bft_valid_round := Some valid_round\<rparr>) prevotes, Ok ())
           else (s, Ok ())))"

definition take_evidence :: "bft \<Rightarrow> bft \<times> double_vote_evidence list" where
  "take_evidence s = (s\<lparr>bft_evidence := []\<rparr>, bft_evidence s)"

definition on_timeout :: "bft \<Rightarrow> nat action" where
  "on_timeout s =
     (case checked_add 32 (bft_round s) 1 of
        None \<Rightarrow> (s, Err (EConsensus RoundOverflow))
      | Some next_round \<Rightarrow>
          (case start_round s (bft_height s) next_round of
             (s1, Err e) \<Rightarrow> (s1, Err e)
           | (s1, Ok _) \<Rightarrow> (s1, Ok next_round)))"

definition locked_value :: "bft \<Rightarrow> (string \<times> nat) option" where
  "locked_value s =
     (case (bft_locked_value s, bft_locked_round s) of (Some v, Some r) \<Rightarrow> Some (v, r) | _ \<Rightarrow> None)"

definition valid_value :: "bft \<Rightarrow> (string \<times> nat) option" where
  "valid_value s =
     (case (bft_valid_value s, bft_valid_round s) of (Some v, Some r) \<Rightarrow> Some (v, r) | _ \<Rightarrow> None)"

subsection \<open>Quorums\<close>

text \<open>
  A quorum certificate in the abstract: correctly signed votes of one type for one block at one
  height and round, by registered validators that together hold more than two thirds of the power.
\<close>

definition quorum_of ::
  "ext \<Rightarrow> (string, nat) hmap \<Rightarrow> nat \<Rightarrow> nat \<Rightarrow> vote_type \<Rightarrow> string \<Rightarrow> bool" where
  "quorum_of E vals h r t x \<longleftrightarrow> (\<exists>votes.
     (\<forall>v \<in> set votes. good_vote E h r t x v \<and> msg_validator_id v \<in> fst ` set vals)
     \<and> 2 * hm_total vals < 3 * (\<Sum>v \<in> signers votes. hm_get0 vals v))"

definition voters_of ::
  "ext \<Rightarrow> nat \<Rightarrow> nat \<Rightarrow> vote_type \<Rightarrow> string \<Rightarrow> string set" where
  "voters_of E h r t x = {msg_validator_id m | m. good_vote E h r t x m}"

lemma sum_map_filter:
  fixes vals :: "('k, nat) hmap"
  assumes "distinct ids"
  shows "sum_list (List.map_filter (hm_get vals) ids) = (\<Sum>v \<in> set ids. hm_get0 vals v)"
  using assms
  by (induction ids) (auto simp: List.map_filter_simps hm_get0_def split: option.splits)

lemma quorum_ofI:
  assumes "\<forall>v \<in> set ids. v \<in> fst ` set vals \<and> v \<in> voters_of E h r t x"
    and "2 * hm_total vals < 3 * (\<Sum>v \<in> set ids. hm_get0 vals v)"
  shows "quorum_of E vals h r t x"
proof -
  have "\<forall>v \<in> set ids. \<exists>m. good_vote E h r t x m \<and> msg_validator_id m = v"
    using assms(1) by (force simp: voters_of_def)
  then obtain f where f: "\<forall>v \<in> set ids. good_vote E h r t x (f v) \<and> msg_validator_id (f v) = v"
    by metis
  then have "signers (map f ids) = set ids" by (force simp: signers_def)
  with f assms show ?thesis unfolding quorum_of_def by (intro exI [of _ "map f ids"]) auto
qed

lemma prevote_step_Ok:
  "prevote_step E vals h r x vote (vs, p) = Ok (vs', p') \<longleftrightarrow>
     good_vote E h r Prevote x vote \<and> hm_get vals (msg_validator_id vote) \<noteq> None
     \<and> msg_validator_id vote \<notin> set vs \<and> vs' = msg_validator_id vote # vs
     \<and> p' = p + hm_get0 vals (msg_validator_id vote) \<and> p' < 2 ^ 64"
  by (cases "message_verify E vote"; cases "hm_get vals (msg_validator_id vote)")
    (auto simp: prevote_step_def good_vote_def hm_get0_def checked_add_def)

lemma prevote_loop_sound:
  assumes "for_each (prevote_step E vals h r x) votes (vs, p) = Ok (vs', p')"
    and "counted vals (vs, p)"
  shows "(\<forall>v \<in> set votes. good_vote E h r Prevote x v \<and> msg_validator_id v \<in> fst ` set vals)
    \<and> counted vals (vs', p') \<and> set vs' = set vs \<union> signers votes"
  using assms
proof (induction votes arbitrary: vs p)
  case (Cons v votes)
  then obtain vs1 p1 where step: "prevote_step E vals h r x v (vs, p) = Ok (vs1, p1)"
    and rest: "for_each (prevote_step E vals h r x) votes (vs1, p1) = Ok (vs', p')" by auto
  from step have reg: "msg_validator_id v \<in> fst ` set vals" and good: "good_vote E h r Prevote x v"
    unfolding prevote_step_Ok hm_get_dom by blast+
  have "counted vals (vs1, p1)"
    using step Cons.prems(2) reg by (auto simp: prevote_step_Ok counted_def)
  from Cons.IH [OF rest this] reg good step show ?case
    by (auto simp: signers_def prevote_step_Ok)
qed (simp add: signers_def)

lemma check_prevotes_quorum:
  assumes "check_prevotes E s h r x prevotes = Ok ()"
    and "bft_total_power s = hm_total (bft_validators s)"
  shows "quorum_of E (bft_validators s) h r Prevote x"
    and "\<forall>v \<in> set prevotes. good_vote E h r Prevote x v
       \<and> msg_validator_id v \<in> fst ` set (bft_validators s)"
    and "2 * hm_total (bft_validators s) < 3 * (\<Sum>v \<in> signers prevotes. hm_get0 (bft_validators s) v)"
proof -
  let ?vals = "bft_validators s"
  obtain vs p where loop: "for_each (prevote_step E ?vals h r x) prevotes ([], 0) = Ok (vs, p)"
    and q: "saturating_mul 64 (bft_total_power s) 2 < saturating_mul 64 p 3"
    using assms(1) by (auto simp: check_prevotes_def not_le)
  have "counted ?vals ([], 0)" by (simp add: counted_def)
  from prevote_loop_sound [OF loop this]
  have good: "\<forall>v \<in> set prevotes. good_vote E h r Prevote x v \<and> msg_validator_id v \<in> fst ` set ?vals"
    and p: "p = (\<Sum>v \<in> signers prevotes. hm_get0 ?vals v)" by (auto simp: counted_def)
  show "\<forall>v \<in> set prevotes. good_vote E h r Prevote x v \<and> msg_validator_id v \<in> fst ` set ?vals"
    by (rule good)
  from saturating_quorum_sound [OF q] assms(2) p
  show power: "2 * hm_total ?vals < 3 * (\<Sum>v \<in> signers prevotes. hm_get0 ?vals v)" by simp
  with good show "quorum_of E ?vals h r Prevote x" unfolding quorum_of_def by blast
qed

subsection \<open>The invariant\<close>

definition validators_inv :: "bft \<Rightarrow> bool" where
  "validators_inv s \<longleftrightarrow> hm_wf (bft_validators s) \<and> hm_total (bft_validators s) < 2 ^ 64
     \<and> bft_total_power s = hm_total (bft_validators s)"

definition votes_inv :: "ext \<Rightarrow> bft \<Rightarrow> bool" where
  "votes_inv E s \<longleftrightarrow> (\<forall>t x ids. hm_get (bft_votes s) (t, x) = Some ids \<longrightarrow> distinct ids
     \<and> (\<forall>v \<in> set ids. v \<in> fst ` set (bft_validators s) \<and> v \<in> voters_of E (bft_height s) (bft_round s) t x))"

definition history_inv :: "ext \<Rightarrow> bft \<Rightarrow> bool" where
  "history_inv E s \<longleftrightarrow>
     (\<forall>k. hm_get (bft_vote_history s) k = map_option msg_block_hash (hm_get (bft_vote_messages s) k))
     \<and> (\<forall>k m. hm_get (bft_vote_messages s) k = Some m \<longrightarrow> history_key m = k
         \<and> message_verify E m = Ok () \<and> msg_validator_id m \<in> fst ` set (bft_validators s))"

definition lock_inv :: "ext \<Rightarrow> bft \<Rightarrow> bool" where
  "lock_inv E s \<longleftrightarrow> (bft_locked_value s = None \<longleftrightarrow> bft_locked_round s = None)
     \<and> (\<forall>x r. bft_locked_value s = Some x \<and> bft_locked_round s = Some r \<longrightarrow>
         r \<le> bft_round s \<and> quorum_of E (bft_validators s) (bft_height s) r Prevote x)"

definition valid_inv :: "ext \<Rightarrow> bft \<Rightarrow> bool" where
  "valid_inv E s \<longleftrightarrow> (bft_valid_value s = None \<longleftrightarrow> bft_valid_round s = None)
     \<and> (\<forall>x r. bft_valid_value s = Some x \<and> bft_valid_round s = Some r \<longrightarrow>
         quorum_of E (bft_validators s) (bft_height s) r Prevote x)"

definition phase_inv :: "ext \<Rightarrow> bft \<Rightarrow> bool" where
  "phase_inv E s \<longleftrightarrow>
     (bft_phase s \<in> {PrecommitPhase, Finalized} \<longrightarrow> bft_proposal s \<noteq> None
        \<and> bft_locked_value s = bft_proposal s \<and> bft_locked_round s = Some (bft_round s))
     \<and> (bft_phase s = Finalized \<longleftrightarrow> bft_finalized s \<noteq> None)
     \<and> (\<forall>x. bft_finalized s = Some x \<longrightarrow> bft_proposal s = Some x
         \<and> quorum_of E (bft_validators s) (bft_height s) (bft_round s) Precommit x)"

definition evidence_inv :: "ext \<Rightarrow> bft \<Rightarrow> bool" where
  "evidence_inv E s \<longleftrightarrow> distinct (map evidence_id (bft_evidence s))
     \<and> (\<forall>e \<in> set (bft_evidence s). evidence_verify E e = Ok ()
         \<and> msg_validator_id (evd_first e) \<in> fst ` set (bft_validators s))"

definition bft_inv :: "ext \<Rightarrow> bft \<Rightarrow> bool" where
  "bft_inv E s \<longleftrightarrow> validators_inv s \<and> votes_inv E s \<and> history_inv E s \<and> lock_inv E s
     \<and> valid_inv E s \<and> phase_inv E s \<and> evidence_inv E s"

lemmas bft_inv_defs = bft_inv_def validators_inv_def votes_inv_def history_inv_def lock_inv_def
  valid_inv_def phase_inv_def evidence_inv_def

lemma has_quorum_power:
  assumes "has_quorum s (t, x)" and "validators_inv s" and "votes_inv E s"
  obtains ids where "hm_get (bft_votes s) (t, x) = Some ids"
    and "2 * hm_total (bft_validators s) < 3 * (\<Sum>v \<in> set ids. hm_get0 (bft_validators s) v)"
proof -
  let ?vals = "bft_validators s"
  define ids where "ids = (case hm_get (bft_votes s) (t, x) of None \<Rightarrow> [] | Some ids \<Rightarrow> ids)"
  have "distinct ids \<and> (\<forall>v \<in> set ids. v \<in> fst ` set ?vals)"
    using assms(3) by (cases "hm_get (bft_votes s) (t, x)") (simp_all add: votes_inv_def ids_def)
  then have ids: "distinct ids" "set ids \<subseteq> fst ` set ?vals" by blast+
  have "(\<Sum>v \<in> set ids. hm_get0 ?vals v) \<le> hm_total ?vals"
    using assms(2) ids(2) by (intro hm_sum_le_total) (auto simp: validators_inv_def)
  also have "\<dots> < 2 ^ 64" using assms(2) unfolding validators_inv_def by blast
  finally have "wrapping_sum 64 (List.map_filter (hm_get ?vals) ids) = (\<Sum>v \<in> set ids. hm_get0 ?vals v)"
    unfolding sum_map_filter [OF ids(1), symmetric] by (rule wrapping_sum_exact)
  with assms(1) have "saturating_mul 64 (bft_total_power s) 2
      < saturating_mul 64 (\<Sum>v \<in> set ids. hm_get0 ?vals v) 3"
    unfolding has_quorum_def Let_def ids_def [symmetric] by metis
  from saturating_quorum_sound [OF this] assms(2)
  have power: "2 * hm_total ?vals < 3 * (\<Sum>v \<in> set ids. hm_get0 ?vals v)" by (simp add: validators_inv_def)
  then have "hm_get (bft_votes s) (t, x) = Some ids"
    by (cases "hm_get (bft_votes s) (t, x)") (simp_all add: ids_def)
  then show thesis using power by (rule that)
qed

lemma has_quorum_sound:
  assumes "has_quorum s (t, x)" and "validators_inv s" and "votes_inv E s"
  shows "quorum_of E (bft_validators s) (bft_height s) (bft_round s) t x"
proof -
  obtain ids where ids: "hm_get (bft_votes s) (t, x) = Some ids"
    and power: "2 * hm_total (bft_validators s) < 3 * (\<Sum>v \<in> set ids. hm_get0 (bft_validators s) v)"
    using has_quorum_power [OF assms] .
  from ids assms(3) have "\<forall>v \<in> set ids. v \<in> fst ` set (bft_validators s)
      \<and> v \<in> voters_of E (bft_height s) (bft_round s) t x"
    unfolding votes_inv_def by blast
  then show ?thesis using power by (rule quorum_ofI)
qed

subsection \<open>Every operation keeps the invariant\<close>

lemma start_round_inv:
  assumes "bft_inv E s"
  shows "bft_inv E (fst (start_round s h r))"
proof (cases "h < bft_height s \<or> (h = bft_height s \<and> r < bft_round s)")
  case False
  then have past: "bft_height s \<le> h" "h = bft_height s \<Longrightarrow> bft_round s \<le> r" by auto
  let ?s = "fst (start_round s h r)"
  have "validators_inv ?s" "history_inv E ?s" "evidence_inv E ?s"
    using assms False by (simp_all add: bft_inv_defs start_round_def Let_def)
  moreover have "votes_inv E ?s" "phase_inv E ?s"
    using False by (auto simp: votes_inv_def phase_inv_def start_round_def Let_def)
  moreover have "lock_inv E ?s" "valid_inv E ?s"
    using assms False past
    by (auto simp: bft_inv_def lock_inv_def valid_inv_def start_round_def Let_def
        split: option.splits)
  ultimately show ?thesis by (simp add: bft_inv_def)
qed (use assms in \<open>simp add: start_round_def\<close>)

lemma propose_inv:
  assumes "bft_inv E s"
  shows "bft_inv E (fst (propose s p x))"
proof (cases "bft_phase s = Propose")
  case True
  then have "bft_finalized s = None" using assms by (simp add: bft_inv_def phase_inv_def)
  with assms have "bft_inv E (s\<lparr>bft_proposal := Some x, bft_phase := PrevotePhase\<rparr>)"
    by (simp add: bft_inv_defs)
  with assms show ?thesis by (simp add: propose_def)
qed (use assms in \<open>simp add: propose_def\<close>)

lemma valid_update_inv:
  assumes "bft_inv E s" and "quorum_of E (bft_validators s) (bft_height s) r Prevote x"
  shows "bft_inv E (s\<lparr>bft_valid_value := Some x, bft_valid_round := Some r\<rparr>)"
  using assms by (simp add: bft_inv_defs)

lemma handle_proposal_inv:
  assumes "bft_inv E s"
  shows "bft_inv E (fst (handle_proposal E s p))"
proof -
  have total: "bft_total_power s = hm_total (bft_validators s)"
    using assms by (simp add: bft_inv_def validators_inv_def)
  have "bft_inv E (s\<lparr>bft_valid_value := Some (blk_hash (prop_block p)), bft_valid_round := Some r\<rparr>)"
    if "verify_valid_round_certificate E s p r = Ok ()" "prop_height p = bft_height s" for r
    using that by (auto simp: verify_valid_round_certificate_def
        intro: valid_update_inv [OF assms] check_prevotes_quorum(1) [OF _ total])
  with assms show ?thesis
    by (auto simp: handle_proposal_def Let_def propose_inv split: result.splits option.splits)
qed

lemma record_vote_inv:
  assumes "bft_inv E s" and "message_verify E m = Ok ()"
    and "msg_validator_id m \<in> fst ` set (bft_validators s)"
  shows "bft_inv E (record_vote s m)"
  using assms by (simp add: bft_inv_defs record_vote_def)

lemma record_evidence_inv:
  assumes "bft_inv E s"
  shows "bft_inv E (record_evidence E s m)"
proof (cases "hm_get (bft_vote_messages s) (history_key m)")
  case (Some first)
  then have reg: "msg_validator_id first \<in> fst ` set (bft_validators s)"
    using assms unfolding bft_inv_def history_inv_def by metis
  show ?thesis
  proof (cases "evidence_new E first m")
    case (Ok e)
    then have "e = \<lparr>evd_first = first, evd_second = m\<rparr>" and "evidence_verify E e = Ok ()"
      by (auto simp: evidence_new_def Let_def)
    with reg assms Some Ok show ?thesis
      by (auto simp: bft_inv_defs record_evidence_def)
  qed (use assms Some in \<open>simp add: record_evidence_def\<close>)
qed (use assms in \<open>simp add: record_evidence_def\<close>)

lemma count_vote_inv:
  assumes "bft_inv E s" and "good_vote E (bft_height s) (bft_round s) (msg_vote_type m) (msg_block_hash m) m"
    and "msg_validator_id m \<in> fst ` set (bft_validators s)"
  shows "bft_inv E (count_vote s m)"
proof -
  have "msg_validator_id m \<in> voters_of E (bft_height s) (bft_round s) (msg_vote_type m) (msg_block_hash m)"
    using assms(2) by (auto simp: voters_of_def)
  with assms have "votes_inv E (count_vote s m)"
    by (auto simp: bft_inv_def votes_inv_def count_vote_def Let_def split: option.splits if_splits)
  with assms(1) show ?thesis
    by (simp add: bft_inv_defs count_vote_def Let_def)
qed

lemma advance_phase_inv:
  assumes "bft_inv E s" and "phase_accepts (bft_phase s) (msg_vote_type m)"
    and "bft_proposal s = Some (msg_block_hash m)"
  shows "bft_inv E (advance_phase s m)"
proof (cases "has_quorum s (msg_vote_type m, msg_block_hash m) \<and> bft_phase s \<noteq> Finalized")
  case True
  then have "quorum_of E (bft_validators s) (bft_height s) (bft_round s) (msg_vote_type m) (msg_block_hash m)"
    using has_quorum_sound assms(1) by (simp add: bft_inv_def)
  with True assms show ?thesis
    by (cases "msg_vote_type m"; cases "bft_phase s")
      (auto simp: bft_inv_defs advance_phase_def phase_accepts_def)
next
  case False
  then have "advance_phase s m = s" by (auto simp: advance_phase_def)
  with assms(1) show ?thesis by simp
qed

lemma handle_inv:
  assumes "bft_inv E s"
  shows "bft_inv E (fst (handle E s m))"
proof (cases "msg_height m = bft_height s \<and> msg_round m = bft_round s
    \<and> hm_contains (bft_validators s) (msg_validator_id m) \<and> message_verify E m = Ok ()
    \<and> phase_accepts (bft_phase s) (msg_vote_type m)")
  case True
  then have reg: "msg_validator_id m \<in> fst ` set (bft_validators s)"
    and good: "good_vote E (bft_height s) (bft_round s) (msg_vote_type m) (msg_block_hash m) m"
    by (simp_all add: hm_contains_def good_vote_def hm_get_dom [symmetric])
  have accept: "bft_inv E (advance_phase (count_vote s1 m) m)"
    if "bft_inv E s1" "bft_height s1 = bft_height s" "bft_round s1 = bft_round s"
      "bft_phase s1 = bft_phase s" "bft_validators s1 = bft_validators s"
      "bft_proposal s1 = Some (msg_block_hash m)" for s1
  proof (rule advance_phase_inv)
    show "bft_inv E (count_vote s1 m)"
      using that reg good by (intro count_vote_inv) simp_all
  qed (use True that in \<open>simp_all add: count_vote_def Let_def\<close>)
  have "bft_inv E (record_vote s m)" using True reg assms by (intro record_vote_inv) simp_all
  with True assms show ?thesis
    by (auto simp: handle_def Let_def record_vote_def record_evidence_inv accept split: option.splits)
qed (use assms in \<open>auto simp: handle_def split: result.splits\<close>)

lemma foldl_record_vote_inv:
  assumes "bft_inv E s"
    and "\<forall>m \<in> set ms. message_verify E m = Ok () \<and> msg_validator_id m \<in> fst ` set (bft_validators s)"
  shows "bft_inv E (foldl record_vote s ms)"
  using assms
proof (induction ms arbitrary: s)
  case (Cons m ms)
  have "bft_validators (record_vote s m) = bft_validators s" by (simp add: record_vote_def)
  with Cons show ?case by (simp add: record_vote_inv)
qed simp

lemma adopt_valid_value_inv:
  assumes "bft_inv E s"
  shows "bft_inv E (fst (adopt_valid_value E s x r prevotes))"
proof (cases "check_prevotes E s (bft_height s) r x prevotes")
  case (Ok u)
  then have ok: "check_prevotes E s (bft_height s) r x prevotes = Ok ()" by simp
  have "bft_total_power s = hm_total (bft_validators s)"
    using assms by (simp add: bft_inv_def validators_inv_def)
  note quorum = check_prevotes_quorum [OF ok this]
  have "bft_inv E (s\<lparr>bft_valid_value := Some x, bft_valid_round := Some r\<rparr>)"
    using assms quorum(1) by (rule valid_update_inv)
  then have "bft_inv E (foldl record_vote (s\<lparr>bft_valid_value := Some x, bft_valid_round := Some r\<rparr>) prevotes)"
    using quorum(2) by (intro foldl_record_vote_inv) (simp_all add: good_vote_def)
  with assms Ok show ?thesis by (simp add: adopt_valid_value_def)
qed (use assms in \<open>simp add: adopt_valid_value_def\<close>)

lemma take_evidence_inv: "bft_inv E s \<Longrightarrow> bft_inv E (fst (take_evidence s))"
  by (simp add: bft_inv_defs take_evidence_def)

lemma on_timeout_inv: "bft_inv E s \<Longrightarrow> bft_inv E (fst (on_timeout s))"
  using start_round_inv [of E s "bft_height s" "bft_round s + 1"]
  by (auto simp: on_timeout_def checked_add_def split: prod.splits result.splits)

subsection \<open>Reachable states\<close>

inductive bft_step :: "ext \<Rightarrow> bft \<Rightarrow> bft \<Rightarrow> bool" for E where
  start_round: "bft_step E s (fst (start_round s h r))"
| propose: "bft_step E s (fst (propose s p x))"
| handle_proposal: "bft_step E s (fst (handle_proposal E s q))"
| handle: "bft_step E s (fst (handle E s m))"
| adopt: "bft_step E s (fst (adopt_valid_value E s x r prevotes))"
| take_evidence: "bft_step E s (fst (take_evidence s))"
| timeout: "bft_step E s (fst (on_timeout s))"

definition bft_start :: "bft \<Rightarrow> bool" where
  "bft_start s \<longleftrightarrow> (\<exists>validators. bft_new validators = Ok s \<and> total_voting_power validators < 2 ^ 64)"

lemma bft_add_validators:
  assumes "for_each bft_add_validator validators m = Ok m'" and "hm_wf m"
  shows "hm_wf m' \<and> hm_total m' = hm_total m + total_voting_power validators"
  using assms
proof (induction validators arbitrary: m)
  case (Cons v vs)
  then obtain m1 where step: "bft_add_validator v m = Ok m1"
    and rest': "for_each bft_add_validator vs m1 = Ok m'" by auto
  from step have new: "hm_get m (val_id v) = None"
    and m1: "m1 = hm_insert m (val_id v) (val_voting_power v)"
    by (auto simp: bft_add_validator_def hm_contains_def)
  note rest = rest' [unfolded m1]
  from new have "hm_total (hm_insert m (val_id v) (val_voting_power v)) = hm_total m + val_voting_power v"
    using hm_total_insert [of m "val_id v" "val_voting_power v"] by (simp add: hm_get0_def)
  with Cons.IH [OF rest] Cons.prems(2) show ?case by (simp add: total_voting_power_def)
qed (simp add: total_voting_power_def)

lemma bft_start_inv: "bft_start s \<Longrightarrow> bft_inv E s"
proof -
  assume "bft_start s"
  then obtain vs m where m: "for_each bft_add_validator vs [] = Ok m" and small: "total_voting_power vs < 2 ^ 64"
    and s: "bft_new vs = Ok s" by (auto simp: bft_start_def bft_new_def)
  have wf: "hm_wf m" and total: "hm_total m < 2 ^ 64"
    using bft_add_validators [OF m] small by (simp_all add: hm_total_def)
  from total have "wrapping_sum 64 (map snd m) = hm_total m"
    unfolding hm_total_def by (rule wrapping_sum_exact)
  with m s wf total show ?thesis by (auto simp: bft_new_def bft_inv_defs)
qed

interpretation bft: safety bft_start "bft_step E" "bft_inv E" for E
proof
  show "bft_inv E s" if "bft_start s" for s using that by (rule bft_start_inv)
  show "bft_inv E t" if "bft_inv E s" and "bft_step E s t" for s t
    using that(2,1)
    by (cases rule: bft_step.cases)
      (simp_all add: start_round_inv propose_inv handle_proposal_inv handle_inv adopt_valid_value_inv
        take_evidence_inv on_timeout_inv)
qed

end
