(* ===== verification/BftSafety.thy ===== *)
theory BftSafety
  imports Bft
begin

text \<open>
  What every run of the consensus state machine guarantees: a node never finalizes two blocks in
  one round whatever messages it receives, a finalized block can be certified to others, two
  nodes that disagree convict more than a third of the voting power, the lock is respected, and
  the evidence a node collects is exactly what the double votes it sees justify.
\<close>

subsection \<open>Precommits are never forgotten\<close>

text \<open>
  The history keeps the first precommit of every validator in every round for good; adopting a
  valid value overwrites prevotes only.  \<open>kept s t\<close> says that a later state \<open>t\<close> has the same
  validators, has not gone back in height or round, and remembers every precommit of \<open>s\<close>.
\<close>

definition kept :: "bft \<Rightarrow> bft \<Rightarrow> bool" where
  "kept s t \<longleftrightarrow> bft_validators t = bft_validators s
     \<and> (bft_height s, bft_round s) \<le> (bft_height t, bft_round t)
     \<and> (\<forall>h r v x. hm_get (bft_vote_history s) (h, r, Precommit, v) = Some x
         \<longrightarrow> hm_get (bft_vote_history t) (h, r, Precommit, v) = Some x)"

definition committed :: "bft \<Rightarrow> nat \<Rightarrow> nat \<Rightarrow> string \<Rightarrow> bool" where
  "committed s h r x \<longleftrightarrow> 2 * hm_total (bft_validators s) < 3 * (\<Sum>v \<in> {v \<in> fst ` set (bft_validators s).
     hm_get (bft_vote_history s) (h, r, Precommit, v) = Some x}. hm_get0 (bft_validators s) v)"

definition precommit_inv :: "bft \<Rightarrow> bool" where
  "precommit_inv s \<longleftrightarrow>
     (\<forall>x ids v. hm_get (bft_votes s) (Precommit, x) = Some ids \<and> v \<in> set ids \<longrightarrow>
        hm_get (bft_vote_history s) (bft_height s, bft_round s, Precommit, v) = Some x)
     \<and> (\<forall>x. bft_finalized s = Some x \<longrightarrow> committed s (bft_height s) (bft_round s) x)"

lemma kept_refl [simp]: "kept s s"
  by (simp add: kept_def)

lemma kept_trans: "kept s t \<Longrightarrow> kept t u \<Longrightarrow> kept s u"
  unfolding kept_def by (elim conjE, intro conjI) (simp, erule (1) order_trans, blast)

lemma committed_kept:
  assumes "kept s t" and "committed s h r x"
  shows "committed t h r x"
proof -
  let ?vals = "bft_validators s"
  have "(\<Sum>v \<in> {v \<in> fst ` set ?vals. hm_get (bft_vote_history s) (h, r, Precommit, v) = Some x}. hm_get0 ?vals v)
     \<le> (\<Sum>v \<in> {v \<in> fst ` set ?vals. hm_get (bft_vote_history t) (h, r, Precommit, v) = Some x}. hm_get0 ?vals v)"
    using assms(1) by (intro sum_mono2) (auto simp: kept_def)
  moreover have "bft_validators t = ?vals" using assms(1) by (simp add: kept_def)
  ultimately show ?thesis using assms(2) by (simp add: committed_def)
qed

lemma committed_unique:
  assumes "hm_wf (bft_validators s)" and "committed s h r x" and "committed s h r y"
  shows "x = y"
proof (rule ccontr)
  assume "x \<noteq> y"
  let ?vals = "bft_validators s"
  let ?A = "\<lambda>x. {v \<in> fst ` set ?vals. hm_get (bft_vote_history s) (h, r, Precommit, v) = Some x}"
  have "(\<Sum>v \<in> ?A x. hm_get0 ?vals v) + (\<Sum>v \<in> ?A y. hm_get0 ?vals v) = (\<Sum>v \<in> ?A x \<union> ?A y. hm_get0 ?vals v)"
    using \<open>x \<noteq> y\<close> by (intro sum.union_disjoint [symmetric]) auto
  also have "\<dots> \<le> hm_total ?vals" using assms(1) by (intro hm_sum_le_total) auto
  finally show False using assms(2,3) by (simp add: committed_def)
qed

lemma start_round_kept: "kept s (fst (start_round s h r))"
  by (auto simp: start_round_def kept_def Let_def)

lemma propose_kept: "kept s (fst (propose s p x))"
  by (simp add: propose_def kept_def)

lemma handle_proposal_kept: "kept s (fst (handle_proposal E s p))"
  by (auto simp: handle_proposal_def Let_def propose_def kept_def split: result.splits option.splits)

lemma record_evidence_kept: "kept s (record_evidence E s m)"
  by (auto simp: record_evidence_def kept_def split: option.splits result.splits)

lemma record_vote_kept:
  "hm_get (bft_vote_history s) (history_key m) = None \<or> msg_vote_type m = Prevote \<Longrightarrow> kept s (record_vote s m)"
  by (auto simp: record_vote_def kept_def history_key_def)

lemma advance_count_kept: "kept s (advance_phase (count_vote s m) m)"
  by (auto simp: kept_def advance_phase_def count_vote_def Let_def split: vote_type.splits)

lemma handle_kept: "kept s (fst (handle E s m))"
  using record_vote_kept [of s m]
  by (auto simp: handle_def Let_def record_evidence_kept
      intro: advance_count_kept kept_trans [OF _ advance_count_kept] split: result.splits option.splits)

lemma foldl_record_vote_kept:
  "\<forall>m \<in> set ms. msg_vote_type m = Prevote \<Longrightarrow> kept s (foldl record_vote s ms)"
proof (induction ms arbitrary: s)
  case (Cons m ms)
  then have "kept s (record_vote s m)" by (intro record_vote_kept) simp
  with Cons show ?case by (auto intro: kept_trans)
qed simp

lemma check_prevotes_types:
  assumes "check_prevotes E s h r x prevotes = Ok ()"
  shows "\<forall>m \<in> set prevotes. msg_vote_type m = Prevote"
proof -
  have "counted vals ([], 0)" for vals by (simp add: counted_def)
  from prevote_loop_sound [OF _ this] assms show ?thesis
    by (fastforce simp: check_prevotes_def good_vote_def)
qed

lemma adopt_kept: "kept s (fst (adopt_valid_value E s x r prevotes))"
proof (cases "check_prevotes E s (bft_height s) r x prevotes")
  case (Ok u)
  let ?s = "s\<lparr>bft_valid_value := Some x, bft_valid_round := Some r\<rparr>"
  have "kept s ?s" by (simp add: kept_def)
  moreover have "kept ?s (foldl record_vote ?s prevotes)"
    using Ok check_prevotes_types by (intro foldl_record_vote_kept) simp
  ultimately have "kept s (foldl record_vote ?s prevotes)" by (rule kept_trans)
  with Ok show ?thesis by (simp add: adopt_valid_value_def)
qed (simp add: adopt_valid_value_def)

lemma on_timeout_kept: "kept s (fst (on_timeout s))"
  using start_round_kept [of s "bft_height s" "bft_round s + 1"]
  by (auto simp: on_timeout_def checked_add_def split: prod.splits result.splits)

lemma take_evidence_kept: "kept s (fst (take_evidence s))"
  by (simp add: take_evidence_def kept_def)

lemma bft_step_kept:
  assumes "bft_step E s t"
  shows "kept s t"
  using assms
  by (cases rule: bft_step.cases)
    (simp_all add: start_round_kept propose_kept handle_proposal_kept handle_kept adopt_kept
      on_timeout_kept take_evidence_kept)

lemma bft_steps_kept: "(bft_step E)\<^sup>*\<^sup>* s t \<Longrightarrow> kept s t"
  by (induction rule: rtranclp_induct) (auto intro: kept_trans bft_step_kept)

subsection \<open>A finalized block was precommitted by a recorded quorum\<close>

text \<open>A step that neither counts votes nor finalizes keeps the precommit invariant.\<close>

lemma precommit_inv_kept:
  assumes "precommit_inv s" and "kept s t"
    and "bft_votes t = bft_votes s" and "bft_finalized t = bft_finalized s"
    and "bft_height t = bft_height s" and "bft_round t = bft_round s"
  shows "precommit_inv t"
  using assms committed_kept [OF assms(2)] by (auto simp: precommit_inv_def kept_def)

lemma start_round_precommit: "precommit_inv s \<Longrightarrow> precommit_inv (fst (start_round s h r))"
  by (auto simp: start_round_def precommit_inv_def Let_def)

lemma propose_precommit: "precommit_inv s \<Longrightarrow> precommit_inv (fst (propose s p x))"
  by (erule precommit_inv_kept [OF _ propose_kept]) (simp_all add: propose_def)

lemma handle_proposal_precommit: "precommit_inv s \<Longrightarrow> precommit_inv (fst (handle_proposal E s p))"
  by (erule precommit_inv_kept [OF _ handle_proposal_kept])
    (auto simp: handle_proposal_def Let_def propose_def split: result.splits option.splits)

lemma foldl_record_vote_fields:
  "bft_votes (foldl record_vote s ms) = bft_votes s" "bft_finalized (foldl record_vote s ms) = bft_finalized s"
  "bft_height (foldl record_vote s ms) = bft_height s" "bft_round (foldl record_vote s ms) = bft_round s"
  by (induction ms arbitrary: s) (simp_all add: record_vote_def)

lemma adopt_precommit: "precommit_inv s \<Longrightarrow> precommit_inv (fst (adopt_valid_value E s x r prevotes))"
  by (erule precommit_inv_kept [OF _ adopt_kept])
    (auto simp: adopt_valid_value_def foldl_record_vote_fields split: result.splits)

lemma count_vote_precommit:
  assumes "precommit_inv s" and "hm_get (bft_vote_history s) (history_key m) = Some (msg_block_hash m)"
    and "msg_height m = bft_height s" and "msg_round m = bft_round s"
  shows "precommit_inv (count_vote s m)"
proof -
  let ?s = "count_vote s m"
  have "hm_get (bft_vote_history s) (bft_height s, bft_round s, Precommit, v) = Some x"
    if "hm_get (bft_votes ?s) (Precommit, x) = Some ids" "v \<in> set ids" for x ids v
  proof (cases "(Precommit, x) = (msg_vote_type m, msg_block_hash m) \<and> v = msg_validator_id m")
    case True
    with assms show ?thesis by (simp add: history_key_def)
  next
    case False
    with that have "\<exists>ids'. hm_get (bft_votes s) (Precommit, x) = Some ids' \<and> v \<in> set ids'"
      by (auto simp: count_vote_def Let_def split: option.splits if_splits)
    with assms(1) show ?thesis unfolding precommit_inv_def by blast
  qed
  with assms(1) show ?thesis
    by (simp add: precommit_inv_def committed_def count_vote_def Let_def)
qed

lemma advance_phase_precommit:
  assumes "precommit_inv s" and "bft_inv E s"
  shows "precommit_inv (advance_phase s m)"
proof (cases "has_quorum s (msg_vote_type m, msg_block_hash m) \<and> msg_vote_type m = Precommit")
  case True
  let ?x = "msg_block_hash m" and ?vals = "bft_validators s"
  have "has_quorum s (Precommit, ?x)" using True by metis
  then obtain ids where ids: "hm_get (bft_votes s) (Precommit, ?x) = Some ids"
    and power: "2 * hm_total ?vals < 3 * (\<Sum>v \<in> set ids. hm_get0 ?vals v)"
    using assms(2) unfolding bft_inv_def by (elim has_quorum_power conjE)
  have "set ids \<subseteq> {v \<in> fst ` set ?vals. hm_get (bft_vote_history s)
      (bft_height s, bft_round s, Precommit, v) = Some ?x}"
    using ids assms unfolding bft_inv_def votes_inv_def precommit_inv_def by blast
  then have "(\<Sum>v \<in> set ids. hm_get0 ?vals v) \<le> (\<Sum>v \<in> {v \<in> fst ` set ?vals. hm_get (bft_vote_history s)
      (bft_height s, bft_round s, Precommit, v) = Some ?x}. hm_get0 ?vals v)"
    by (intro sum_mono2) auto
  with power have "committed s (bft_height s) (bft_round s) ?x" by (simp add: committed_def)
  with assms(1) True show ?thesis by (auto simp: advance_phase_def precommit_inv_def committed_def)
next
  case False
  with assms(1) show ?thesis
    by (cases "msg_vote_type m") (auto simp: advance_phase_def precommit_inv_def committed_def)
qed

lemma handle_precommit:
  assumes "precommit_inv s" and "bft_inv E s"
  shows "precommit_inv (fst (handle E s m))"
proof (cases "msg_height m = bft_height s \<and> msg_round m = bft_round s
    \<and> hm_contains (bft_validators s) (msg_validator_id m) \<and> message_verify E m = Ok ()
    \<and> phase_accepts (bft_phase s) (msg_vote_type m)")
  case True
  then have reg: "msg_validator_id m \<in> fst ` set (bft_validators s)"
    and good: "good_vote E (bft_height s) (bft_round s) (msg_vote_type m) (msg_block_hash m) m"
    by (simp_all add: hm_contains_def good_vote_def hm_get_dom [symmetric])
  let ?r = "record_vote s m"
  have rec: "bft_inv E ?r" using True reg assms(2) by (intro record_vote_inv) simp_all
  have accept: "precommit_inv (advance_phase (count_vote s1 m) m)"
    if "precommit_inv s1" "bft_inv E s1" "bft_height s1 = bft_height s" "bft_round s1 = bft_round s"
      "bft_validators s1 = bft_validators s"
      "hm_get (bft_vote_history s1) (history_key m) = Some (msg_block_hash m)" for s1
    using that True reg good
    by (intro advance_phase_precommit [where E = E] count_vote_precommit count_vote_inv) simp_all
  show ?thesis
  proof (cases "hm_get (bft_vote_history s) (history_key m)")
    case None
    have "precommit_inv ?r"
      using assms(1) record_vote_kept [of s m] None
      by (rule_tac precommit_inv_kept) (simp_all add: record_vote_def)
    with True None rec accept [of ?r] show ?thesis by (auto simp: handle_def Let_def record_vote_def)
  next
    case (Some x)
    have "precommit_inv (record_evidence E s m)"
      using assms(1) record_evidence_kept [of s E m]
      by (rule precommit_inv_kept) (auto simp: record_evidence_def split: option.splits result.splits)
    with True Some assms accept [of s] show ?thesis by (auto simp: handle_def)
  qed
qed (use assms in \<open>auto simp: handle_def split: result.splits\<close>)

lemma on_timeout_precommit: "precommit_inv s \<Longrightarrow> precommit_inv (fst (on_timeout s))"
  using start_round_precommit [of s "bft_height s" "bft_round s + 1"]
  by (auto simp: on_timeout_def checked_add_def split: prod.splits result.splits)

lemma take_evidence_precommit: "precommit_inv s \<Longrightarrow> precommit_inv (fst (take_evidence s))"
  by (simp add: take_evidence_def precommit_inv_def committed_def)

definition bft_safe :: "ext \<Rightarrow> bft \<Rightarrow> bool" where
  "bft_safe E s \<longleftrightarrow> bft_inv E s \<and> precommit_inv s"

interpretation bfts: safety bft_start "bft_step E" "bft_safe E" for E
proof
  show "bft_safe E s" if "bft_start s" for s
    using that bft_start_inv [OF that, of E]
    by (auto simp: bft_safe_def bft_start_def bft_new_def precommit_inv_def)
  show "bft_safe E t" if "bft_safe E s" and "bft_step E s t" for s t
  proof -
    have "bft_inv E t" using that bft.inv_step unfolding bft_safe_def by blast
    moreover have "precommit_inv t"
      using that(2,1) unfolding bft_safe_def
      by (cases rule: bft_step.cases)
        (simp_all add: start_round_precommit propose_precommit handle_proposal_precommit
          handle_precommit adopt_precommit on_timeout_precommit take_evidence_precommit)
    ultimately show ?thesis by (simp add: bft_safe_def)
  qed
qed

subsection \<open>Quorum certificates of two nodes\<close>

definition machine_quorum :: "ext \<Rightarrow> (string, nat) hmap \<Rightarrow> string set \<Rightarrow> bool" where
  "machine_quorum E vals Q \<longleftrightarrow> hm_wf vals \<and> (\<exists>h r t x votes.
     (\<forall>v \<in> set votes. good_vote E h r t x v \<and> msg_validator_id v \<in> fst ` set vals)
     \<and> 2 * hm_total vals < 3 * (\<Sum>v \<in> signers votes. hm_get0 vals v) \<and> Q = signers votes)"

interpretation mq: weighted_quorum "\<lambda>vals. fst ` set vals" hm_get0 hm_total "machine_quorum E" for E
proof
  fix vals :: "(string, nat) hmap" and Q
  show "finite (fst ` set vals)" by simp
  assume q: "machine_quorum E vals Q"
  then show "sum (hm_get0 vals) (fst ` set vals) \<le> hm_total vals"
    using hm_total_sum [of vals] by (simp add: machine_quorum_def)
  from q have "Q \<subseteq> fst ` set vals" by (auto simp: machine_quorum_def signers_def)
  then have "Q \<inter> fst ` set vals = Q" by blast
  with q show "2 * hm_total vals < 3 * sum (hm_get0 vals) (Q \<inter> fst ` set vals)"
    by (auto simp: machine_quorum_def)
qed

lemma quorum_of_conflict:
  assumes "hm_wf vals" and "quorum_of E vals h r t x" and "quorum_of E vals h r t y" and "x \<noteq> y"
  shows "\<exists>D. D \<subseteq> fst ` set vals \<and> hm_total vals < 3 * (\<Sum>v \<in> D. hm_get0 vals v)
    \<and> (\<forall>v \<in> D. \<exists>e. evidence_verify E e = Ok () \<and> msg_validator_id (evd_first e) = v)"
proof -
  obtain a where a: "\<forall>v \<in> set a. good_vote E h r t x v \<and> msg_validator_id v \<in> fst ` set vals"
    and qa: "machine_quorum E vals (signers a)"
    using assms(1,2) unfolding quorum_of_def machine_quorum_def by blast
  obtain b where b: "\<forall>v \<in> set b. good_vote E h r t y v \<and> msg_validator_id v \<in> fst ` set vals"
    and qb: "machine_quorum E vals (signers b)"
    using assms(1,3) unfolding quorum_of_def machine_quorum_def by blast
  let ?D = "signers a \<inter> signers b \<inter> fst ` set vals"
  have "\<exists>e. evidence_verify E e = Ok () \<and> msg_validator_id (evd_first e) = v" if "v \<in> ?D" for v
  proof -
    obtain m m' where "m \<in> set a" "m' \<in> set b" "msg_validator_id m = v" "msg_validator_id m' = v"
      using \<open>v \<in> ?D\<close> by (auto simp: signers_def)
    with a b assms(4) show ?thesis
      using good_votes_conflict [of E h r t x m y m']
      by (intro exI [of _ "\<lparr>evd_first = m, evd_second = m'\<rparr>"]) simp
  qed
  with mq.overlap [OF qa qb] show ?thesis by (intro exI [of _ ?D]) auto
qed

lemma bft_new_validators:
  assumes "bft_new vs = Ok s"
  shows "bft_validators s = validator_powers vs"
proof -
  have "m' = foldl (\<lambda>m (k, v). hm_insert m k v) m (map (\<lambda>v. (val_id v, val_voting_power v)) vs)"
    if "for_each bft_add_validator vs m = Ok m'" for m m'
    using that
    by (induction vs arbitrary: m) (auto simp: bft_add_validator_def cong del: if_weak_cong split: if_splits)
  with assms show ?thesis by (auto simp: bft_new_def validator_powers_def hm_from_list_def)
qed

lemma bft_new_total:
  assumes "bft_new vs = Ok s"
  shows "hm_total (validator_powers vs) = total_voting_power vs"
proof -
  obtain m where "for_each bft_add_validator vs [] = Ok m" and "bft_validators s = m"
    using assms by (auto simp: bft_new_def)
  with bft_add_validators [of vs "[]" m] bft_new_validators [OF assms] show ?thesis
    by (simp add: hm_total_def)
qed

lemma reachable_facts:
  assumes "bft_new vs = Ok s0" and "total_voting_power vs < 2 ^ 64" and "(bft_step E)\<^sup>*\<^sup>* s0 s"
  shows "bft_safe E s" and "bft_validators s = validator_powers vs"
proof -
  have "bft_start s0" using assms(1,2) unfolding bft_start_def by blast
  then show "bft_safe E s" using assms(3) by (rule bfts.inv_reachable)
  show "bft_validators s = validator_powers vs"
    using bft_steps_kept [OF assms(3)] bft_new_validators [OF assms(1)] by (simp add: kept_def)
qed

lemma finalized_quorum:
  "bft_safe E s \<Longrightarrow> bft_finalized s = Some x \<Longrightarrow>
   quorum_of E (bft_validators s) (bft_height s) (bft_round s) Precommit x"
  by (simp add: bft_safe_def bft_inv_def phase_inv_def)

subsection \<open>A concrete run\<close>

text \<open>One validator, height 1, round 0: the round is started, a block is proposed, prevoted and precommitted.\<close>

definition sample_id :: string where
  "sample_id = wallet_address toy_ext sample_wallet"

definition sample_start :: bft where
  "sample_start = \<lparr>bft_validators = [(sample_id, 1)], bft_total_power = 1, bft_height = 0,
     bft_round = 0, bft_phase = Waiting, bft_proposal = None, bft_votes = [],
     bft_vote_history = [], bft_vote_messages = [], bft_locked_value = None,
     bft_locked_round = None, bft_valid_value = None, bft_valid_round = None,
     bft_evidence = [], bft_finalized = None\<rparr>"

definition sample_vote :: "vote_type \<Rightarrow> string \<Rightarrow> consensus_message" where
  "sample_vote t x = message_signed toy_ext 1 0 sample_wallet t x"

definition sample_locked :: "string \<Rightarrow> bft" where
  "sample_locked x = fst (handle toy_ext (fst (propose (fst (start_round sample_start 1 0)) sample_id x))
     (sample_vote Prevote x))"

definition sample_final :: "string \<Rightarrow> bft" where
  "sample_final x = fst (handle toy_ext (sample_locked x) (sample_vote Precommit x))"

lemma sample_new: "bft_new sample_validators = Ok sample_start"
  by (simp add: bft_new_def sample_validators_def bft_add_validator_def hm_contains_def
      sample_start_def sample_id_def wrapping_sum_def wrapping_add_def hm_insert_def)

lemma sample_total_64: "total_voting_power sample_validators < 2 ^ 64"
  by (simp add: sample_total)

lemma sample_vote_fields [simp]:
  "msg_height (sample_vote t x) = 1" "msg_round (sample_vote t x) = 0"
  "msg_validator_id (sample_vote t x) = sample_id" "msg_vote_type (sample_vote t x) = t"
  "msg_block_hash (sample_vote t x) = x" "message_verify toy_ext (sample_vote t x) = Ok ()"
  using message_signed_verify [OF hex_laws_toy ed25519_laws_toy, of sample_wallet 1 0 t x]
  by (simp_all add: sample_vote_def message_signed_def Let_def sample_id_def sample_wallet_def)

lemma sample_locked_reachable: "(bft_step toy_ext)\<^sup>*\<^sup>* sample_start (sample_locked x)"
  unfolding sample_locked_def
  by (meson bft_step.start_round bft_step.propose bft_step.handle rtranclp.rtrancl_into_rtrancl rtranclp.rtrancl_refl)

lemma sample_final_reachable: "(bft_step toy_ext)\<^sup>*\<^sup>* sample_start (sample_final x)"
  unfolding sample_final_def
  by (meson sample_locked_reachable bft_step.handle rtranclp.rtrancl_into_rtrancl)

lemmas sample_eval = handle_def start_round_def propose_def expected_proposer_def phase_accepts_def
  advance_phase_def count_vote_def record_vote_def has_quorum_def history_key_def hm_contains_def
  hm_get_def hm_insert_def Let_def wrapping_sum_def wrapping_add_def saturating_mul_def
  saturating_sub_def List.map_filter_def

lemma sample_locked_state:
  "x \<noteq> [] \<Longrightarrow> sample_locked x = sample_start\<lparr>bft_height := 1, bft_phase := PrecommitPhase,
     bft_proposal := Some x, bft_votes := [((Prevote, x), [sample_id])],
     bft_vote_history := [((1, 0, Prevote, sample_id), x)],
     bft_vote_messages := [((1, 0, Prevote, sample_id), sample_vote Prevote x)],
     bft_locked_value := Some x, bft_locked_round := Some 0, bft_valid_value := Some x,
     bft_valid_round := Some 0\<rparr>"
  by (simp add: sample_locked_def sample_start_def sample_eval)

lemma sample_final_state:
  "x \<noteq> [] \<Longrightarrow> bft_finalized (sample_final x) = Some x \<and> bft_height (sample_final x) = 1
     \<and> bft_round (sample_final x) = 0"
  by (simp add: sample_final_def sample_locked_state sample_start_def sample_eval)

subsection \<open>Properties\<close>

text \<open>
  C6.  Finality is final.  Whatever proposals, votes, adoptions, timeouts and restarts of a round
  a node processes, and however many validators misbehave, it never finalizes two different
  blocks in the same round of the same height.
\<close>

theorem bft_local_finality:
  assumes "bft_start s0" and "(bft_step E)\<^sup>*\<^sup>* s0 s" and "(bft_step E)\<^sup>*\<^sup>* s t"
    and "bft_finalized s = Some x" and "bft_finalized t = Some y"
    and "bft_height s = bft_height t" and "bft_round s = bft_round t"
  shows "x = y"
proof -
  have s: "bft_safe E s" using assms(1,2) by (rule bfts.inv_reachable)
  have t: "bft_safe E t" using assms(3) s by (rule bfts.inv_steps)
  have "committed s (bft_height s) (bft_round s) x" and "committed t (bft_height t) (bft_round t) y"
    using s t assms(4,5) by (simp_all add: bft_safe_def precommit_inv_def)
  with assms(3,6,7) show ?thesis
    using committed_unique [of t] committed_kept [OF bft_steps_kept] t
    by (metis bft_safe_def bft_inv_def validators_inv_def)
qed

theorem bft_local_finality_witness:
  "bft_finalized (fst (handle toy_ext (sample_final ''x'') (sample_vote Precommit ''x''))) \<noteq> Some ''y''"
proof
  let ?t = "fst (handle toy_ext (sample_final ''x'') (sample_vote Precommit ''x''))"
  assume y: "bft_finalized ?t = Some ''y''"
  have start: "bft_start sample_start" using sample_new sample_total_64 unfolding bft_start_def by blast
  have "bft_height ?t = bft_height (sample_final ''x'')" "bft_round ?t = bft_round (sample_final ''x'')"
    by (auto simp: handle_def Let_def record_vote_def record_evidence_def advance_phase_def count_vote_def
        split: option.splits result.splits vote_type.splits)
  moreover have "(bft_step toy_ext)\<^sup>*\<^sup>* (sample_final ''x'') ?t"
    by (intro r_into_rtranclp bft_step.handle)
  ultimately show False
    using bft_local_finality [OF start sample_final_reachable, of "''x''" ?t "''x''" "''y''"] y
    sample_final_state [of "''x''"]
    by simp
qed

text \<open>
  C9.  What the state machine finalizes can be proved to others: the node has seen precommits
  that, attached to the finalized block, make a certificate the certificate check accepts against
  the same validator list.
\<close>

theorem finalized_certifiable:
  assumes "bft_new vs = Ok s0" and "total_voting_power vs < 2 ^ 64" and "(bft_step E)\<^sup>*\<^sup>* s0 s"
    and "bft_finalized s = Some (blk_hash b)" and "blk_hash b = calculate_hash E b"
    and "blk_height b = bft_height s"
  shows "\<exists>votes. certificate_verify E \<lparr>cert_block = b, cert_round = bft_round s, cert_precommits = votes\<rparr> vs = Ok ()"
proof -
  note reach = reachable_facts [OF assms(1-3)]
  from finalized_quorum [OF reach(1) assms(4)] obtain votes where
    votes: "\<forall>v \<in> set votes. good_vote E (bft_height s) (bft_round s) Precommit (blk_hash b) v
        \<and> msg_validator_id v \<in> val_id ` set vs"
      "2 * total_voting_power vs < 3 * signed_power vs (signers votes)"
    unfolding quorum_of_def reach(2) signed_power_def validator_powers_keys bft_new_total [OF assms(1)]
    by blast
  have "3 * total_voting_power vs < 2 ^ 128" using assms(2) by simp
  from certificate_verify_iff [OF this] votes assms(5,6) show ?thesis
    by (intro exI [of _ votes]) (auto simp: power_quorum_def signers_def)
qed

theorem finalized_certifiable_witness:
  "\<exists>votes. certificate_verify toy_ext \<lparr>cert_block = block_new toy_ext 1 [] 0 [] [], cert_round = 0,
     cert_precommits = votes\<rparr> sample_validators = Ok ()"
proof -
  let ?b = "block_new toy_ext 1 [] 0 [] []"
  have "blk_hash ?b \<noteq> []" by (simp add: calculate_hash_def toy_ext_def toy_hash_def)
  note final = sample_final_state [OF this]
  from finalized_certifiable [OF sample_new sample_total_64 sample_final_reachable, of "blk_hash ?b" ?b] final
  show ?thesis by simp
qed

text \<open>
  Agreement between nodes, with accountability.  If two nodes with the same validators
  finalize different blocks in the same round of the same height, validators with more than a
  third of the voting power each signed conflicting precommits, and the evidence verifies.
\<close>

theorem bft_agreement:
  assumes "bft_new vs = Ok s0" and "total_voting_power vs < 2 ^ 64"
    and "(bft_step E)\<^sup>*\<^sup>* s0 s" and "(bft_step E)\<^sup>*\<^sup>* s0 t"
    and "bft_finalized s = Some x" and "bft_finalized t = Some y" and "x \<noteq> y"
    and "bft_height s = bft_height t" and "bft_round s = bft_round t"
  shows "\<exists>D. D \<subseteq> val_id ` set vs \<and> total_voting_power vs < 3 * signed_power vs D
    \<and> (\<forall>v \<in> D. \<exists>e. evidence_verify E e = Ok () \<and> msg_validator_id (evd_first e) = v)"
proof -
  note s = reachable_facts [OF assms(1,2,3)] and t = reachable_facts [OF assms(1,2,4)]
  from finalized_quorum [OF s(1) assms(5)] finalized_quorum [OF t(1) assms(6)] assms(8,9)
  have "quorum_of E (validator_powers vs) (bft_height s) (bft_round s) Precommit x"
    and "quorum_of E (validator_powers vs) (bft_height s) (bft_round s) Precommit y"
    by (simp_all add: s(2) t(2))
  from quorum_of_conflict [OF validator_powers_wf this assms(7)] show ?thesis
    by (simp add: validator_powers_keys signed_power_def bft_new_total [OF assms(1)])
qed

theorem bft_agreement_witness:
  "\<exists>D. D \<subseteq> val_id ` set sample_validators \<and> 1 < 3 * signed_power sample_validators D
    \<and> (\<forall>v \<in> D. \<exists>e. evidence_verify toy_ext e = Ok () \<and> msg_validator_id (evd_first e) = v)"
  using bft_agreement [OF sample_new sample_total_64 sample_final_reachable [of "''x''"]
      sample_final_reachable [of "''y''"], of "''x''" "''y''"]
    sample_final_state [of "''x''"] sample_final_state [of "''y''"]
  by (simp add: sample_total)

text \<open>
  The lock.  A node locked on a block accepts a proposal for another block only with a
  proof of a prevote quorum for that other block, from a round that is not older than the lock and
  older than the current one; and what a node is locked on itself had a prevote quorum.
\<close>

theorem lock_respected:
  assumes "bft_start s0" and "(bft_step E)\<^sup>*\<^sup>* s0 s" and "locked_value s = Some (x, lr)"
    and "snd (handle_proposal E s p) = Ok ()" and "blk_hash (prop_block p) \<noteq> x"
  shows "quorum_of E (bft_validators s) (bft_height s) lr Prevote x
    \<and> (\<exists>vr. prop_valid_round p = Some vr \<and> lr \<le> vr \<and> vr < bft_round s
       \<and> quorum_of E (bft_validators s) (bft_height s) vr Prevote (blk_hash (prop_block p)))"
proof -
  have inv: "bft_inv E s" using assms(1,2) by (rule bft.inv_reachable)
  have lock: "bft_locked_value s = Some x" "bft_locked_round s = Some lr"
    using assms(3) by (auto simp: locked_value_def split: option.splits)
  with inv have "quorum_of E (bft_validators s) (bft_height s) lr Prevote x"
    by (simp add: bft_inv_def lock_inv_def)
  moreover from assms(4,5) lock obtain vr where vr: "prop_valid_round p = Some vr" "lr \<le> vr"
    "verify_valid_round_certificate E s p vr = Ok ()" "prop_height p = bft_height s" "prop_round p = bft_round s"
    by (auto simp: handle_proposal_def lock_blocks_def unlock_allowed_def
        split: if_splits result.splits option.splits)
  moreover from vr have "vr < bft_round s" "quorum_of E (bft_validators s) (bft_height s) vr Prevote (blk_hash (prop_block p))"
    using inv check_prevotes_quorum(1) [of E s]
    by (auto simp: verify_valid_round_certificate_def bft_inv_def validators_inv_def not_le)
  ultimately show ?thesis by blast
qed

definition sample_block :: block where
  "sample_block = block_new toy_ext 1 [] 0 [] []"

definition sample_proposal :: signed_proposal where
  "sample_proposal = proposal_with_certificate toy_ext 1 1 sample_wallet sample_block (Some 0)
     [sample_vote Prevote (blk_hash sample_block)]"

lemma sample_proposal_accepted:
  "snd (handle_proposal toy_ext (fst (on_timeout (sample_locked ''x''))) sample_proposal) = Ok ()"
proof -
  have "proposal_verify toy_ext sample_proposal = Ok ()"
    using verify_signature_signed [OF hex_laws_toy ed25519_laws_toy, of sample_wallet]
    by (simp add: proposal_verify_def sample_proposal_def proposal_with_certificate_def Let_def
        sample_block_def sample_wallet_def)
  moreover have "blk_hash sample_block \<noteq> []"
    by (simp add: sample_block_def calculate_hash_def toy_ext_def toy_hash_def)
  moreover have "prop_height sample_proposal = 1" "prop_round sample_proposal = 1"
    "prop_proposer_id sample_proposal = sample_id" "prop_valid_round sample_proposal = Some 0"
    "prop_valid_round_prevotes sample_proposal = [sample_vote Prevote (blk_hash sample_block)]"
    "prop_block sample_proposal = sample_block"
    by (simp_all add: sample_proposal_def proposal_with_certificate_def Let_def sample_id_def)
  ultimately show ?thesis
    by (simp add: handle_proposal_def on_timeout_def checked_add_def sample_locked_state sample_start_def
        lock_blocks_def unlock_allowed_def verify_valid_round_certificate_def check_prevotes_def
        prevote_step_def sample_eval)
qed

theorem lock_respected_witness:
  "\<exists>vr. quorum_of toy_ext [(sample_id, 1)] 1 vr Prevote (blk_hash sample_block)"
proof -
  let ?s = "fst (on_timeout (sample_locked ''x''))"
  have "bft_start sample_start" using sample_new sample_total_64 unfolding bft_start_def by blast
  moreover have "(bft_step toy_ext)\<^sup>*\<^sup>* sample_start ?s"
    using sample_locked_reachable bft_step.timeout by (meson rtranclp.rtrancl_into_rtrancl)
  moreover have s: "locked_value ?s = Some (''x'', 0)" "bft_validators ?s = [(sample_id, 1)]" "bft_height ?s = 1"
    by (simp_all add: on_timeout_def checked_add_def sample_locked_state sample_start_def start_round_def
        locked_value_def)
  moreover have "blk_hash (prop_block sample_proposal) = blk_hash sample_block"
    by (simp add: sample_proposal_def proposal_with_certificate_def Let_def)
  moreover have "blk_hash sample_block \<noteq> ''x''"
    by (simp add: sample_block_def calculate_hash_def toy_ext_def toy_hash_def)
  ultimately show ?thesis
    using lock_respected [OF _ _ _ sample_proposal_accepted, of sample_start "''x''" 0] by metis
qed

text \<open>
  C25.  Evidence.  In every reachable state the collected evidence verifies, accuses registered
  validators only and is kept once per validator, height, round and vote type; and a vote rejected
  as a double vote always leaves evidence of that kind behind.
\<close>

theorem evidence_complete:
  assumes "bft_start s0" and "(bft_step E)\<^sup>*\<^sup>* s0 s" and "snd (handle E s m) = Err (EConsensus DoubleVote)"
    and "message_verify E m = Ok ()"
  shows "let s' = fst (handle E s m) in
    (\<exists>e \<in> set (bft_evidence s'). evidence_id e = evidence_id \<lparr>evd_first = m, evd_second = m\<rparr>)
    \<and> (\<forall>e \<in> set (bft_evidence s'). evidence_verify E e = Ok () \<and> hm_contains (bft_validators s') (msg_validator_id (evd_first e)))
    \<and> distinct (map evidence_id (bft_evidence s'))"
proof -
  have inv: "bft_inv E s" using assms(1,2) by (rule bft.inv_reachable)
  have after: "bft_inv E (fst (handle E s m))" using inv by (rule handle_inv)
  from assms(3,4) obtain prev where prev: "hm_get (bft_vote_history s) (history_key m) = Some prev"
    "prev \<noteq> msg_block_hash m" and s': "fst (handle E s m) = record_evidence E s m"
    by (auto simp: handle_def Let_def split: if_splits option.splits)
  obtain first where first: "hm_get (bft_vote_messages s) (history_key m) = Some first"
    "msg_block_hash first = prev" "history_key first = history_key m" "message_verify E first = Ok ()"
  proof -
    have hist: "history_inv E s" using inv by (simp add: bft_inv_def)
    then have "map_option msg_block_hash (hm_get (bft_vote_messages s) (history_key m)) = Some prev"
      using prev(1) unfolding history_inv_def by (metis (no_types))
    then obtain first where "hm_get (bft_vote_messages s) (history_key m) = Some first"
      and "msg_block_hash first = prev" by auto
    with hist show thesis using that unfolding history_inv_def by blast
  qed
  let ?e = "\<lparr>evd_first = first, evd_second = m\<rparr>"
  have "evidence_new E first m = Ok ?e"
    using first prev(2) assms(4) by (simp add: evidence_new_def evidence_verify_def history_key_def Let_def)
  then have "\<exists>e \<in> set (bft_evidence (record_evidence E s m)). evidence_id e = evidence_id ?e"
    by (auto simp: record_evidence_def first(1))
  moreover have "evidence_id ?e = evidence_id \<lparr>evd_first = m, evd_second = m\<rparr>"
    using first(3) by (simp add: evidence_id_def history_key_def)
  ultimately show ?thesis
    using after unfolding s' Let_def bft_inv_def evidence_inv_def hm_contains_def hm_get_dom by simp
qed

theorem evidence_complete_witness:
  "\<exists>e \<in> set (bft_evidence (fst (handle toy_ext (sample_locked ''x'') (sample_vote Prevote ''y'')))).
     evidence_verify toy_ext e = Ok ()"
proof -
  have start: "bft_start sample_start" using sample_new sample_total_64 unfolding bft_start_def by blast
  have double: "snd (handle toy_ext (sample_locked ''x'') (sample_vote Prevote ''y'')) = Err (EConsensus DoubleVote)"
    by (simp add: sample_locked_state sample_start_def sample_eval)
  from evidence_complete [OF start sample_locked_reachable double sample_vote_fields(6)]
  show ?thesis unfolding Let_def by (elim conjE bexE) (rule bexI, rule conjunct1, erule (1) bspec)
qed

end
