(* ===== verification/Mempool.thy ===== *)
theory Mempool
  imports Model
begin

text \<open>
  The pool of pending transactions (\<^verbatim>\<open>src/src/mempool.rs\<close>): admission with replacement by fee,
  eviction, selection for a block, and the pending nonce.  Every error of \<^verbatim>\<open>add\<close> is returned
  before the pool is changed, so it returns either an error or the new pool.
\<close>

subsection \<open>State and operations\<close>

record mempool =
  mp_transactions :: "transaction list"
  mp_ids :: "string set"
  mp_sender_nonce :: "(string \<times> nat, string) hmap"
  mp_total_bytes :: nat
  mp_max_transactions :: nat
  mp_max_bytes :: nat

definition with_limits :: "nat \<Rightarrow> nat \<Rightarrow> mempool" where
  "with_limits max_transactions max_bytes =
     \<lparr>mp_transactions = [], mp_ids = {}, mp_sender_nonce = [], mp_total_bytes = 0,
      mp_max_transactions = max max_transactions 1, mp_max_bytes = max max_bytes 1\<rparr>"

definition mempool_default :: mempool where
  "mempool_default = with_limits 10000 (16 * 1024 * 1024)"

definition tx_size :: "ext \<Rightarrow> transaction \<Rightarrow> nat" where
  "tx_size E tx = length (json_transaction E tx)"

definition tx_key :: "transaction \<Rightarrow> string \<times> nat" where
  "tx_key tx = (tx_from tx, tx_nonce tx)"

definition remove_at :: "ext \<Rightarrow> mempool \<Rightarrow> nat \<Rightarrow> transaction \<times> mempool" where
  "remove_at E m position =
     (let tx = mp_transactions m ! position in
      (tx, m\<lparr>mp_transactions := remove_nth position (mp_transactions m),
             mp_ids := mp_ids m - {tx_id E tx},
             mp_sender_nonce := hm_remove (mp_sender_nonce m) (tx_key tx),
             mp_total_bytes := saturating_sub (mp_total_bytes m) (tx_size E tx)\<rparr>))"

text \<open>\<^verbatim>\<open>position\<close> of the first match and \<^verbatim>\<open>min_by_key\<close> (the first minimum) as indices.\<close>

fun find_index :: "('a \<Rightarrow> bool) \<Rightarrow> 'a list \<Rightarrow> nat option" where
  "find_index p [] = None"
| "find_index p (x # xs) = (if p x then Some 0 else map_option Suc (find_index p xs))"

fun min_index :: "('a \<Rightarrow> nat) \<Rightarrow> 'a list \<Rightarrow> nat option" where
  "min_index f [] = None"
| "min_index f (x # xs) =
     (case min_index f xs of
        None \<Rightarrow> Some 0
      | Some i \<Rightarrow> if f x \<le> f (xs ! i) then Some 0 else Some (Suc i))"

lemma find_index_Some: "find_index p xs = Some i \<Longrightarrow> i < length xs \<and> p (xs ! i)"
  by (induction xs arbitrary: i) (auto split: if_splits)

lemma find_index_None: "find_index p xs = None \<longleftrightarrow> (\<forall>x \<in> set xs. \<not> p x)"
  by (induction xs) auto

lemma min_index_Some: "min_index f xs = Some i \<Longrightarrow> i < length xs \<and> (\<forall>x \<in> set xs. f (xs ! i) \<le> f x)"
proof (induction xs arbitrary: i)
  case (Cons x xs)
  show ?case
  proof (cases "min_index f xs")
    case None
    with Cons.prems show ?thesis by (cases xs) (auto split: option.splits if_splits)
  next
    case (Some j)
    with Cons show ?thesis by (fastforce split: if_splits)
  qed
qed simp

lemma min_index_None: "min_index f xs = None \<longleftrightarrow> xs = []"
  by (cases xs) (auto split: option.splits)

definition over_limit :: "mempool \<Rightarrow> nat \<Rightarrow> bool" where
  "over_limit m sz = (length (mp_transactions m) \<ge> mp_max_transactions m
     \<or> saturating_add 64 (mp_total_bytes m) sz > mp_max_bytes m)"

function evict :: "ext \<Rightarrow> mempool \<Rightarrow> nat \<Rightarrow> mempool" where
  "evict E m sz =
     (if over_limit m sz then
        (case min_index tx_fee (mp_transactions m) of
           None \<Rightarrow> m
         | Some position \<Rightarrow> evict E (snd (remove_at E m position)) sz)
      else m)"
  by pat_completeness auto
termination
  by (relation "measure (\<lambda>(E, m, sz). length (mp_transactions m))")
    (auto simp: remove_at_def Let_def length_remove_nth dest!: min_index_Some)

declare evict.simps [simp del]

definition minimum_fee :: "transaction \<Rightarrow> nat" where
  "minimum_fee previous = saturating_add 128 (tx_fee previous) (max (tx_fee previous div 10) 1)"

text \<open>The replacement of a pending transaction with the same sender and nonce.\<close>

definition replace_pending :: "ext \<Rightarrow> mempool \<Rightarrow> transaction \<Rightarrow> mempool result" where
  "replace_pending E m tx =
     (case hm_get (mp_sender_nonce m) (tx_key tx) of
        None \<Rightarrow> Ok m
      | Some previous_id \<Rightarrow>
          rbind (ok_or (find_index (\<lambda>e. tx_id E e = previous_id) (mp_transactions m))
                   (EMempool NonceIndexCorrupt)) (\<lambda>position.
          let previous = mp_transactions m ! position in
          if tx_fee tx < minimum_fee previous then Err (EMempool ReplacementUnderpriced)
          else Ok (m\<lparr>mp_total_bytes := saturating_sub (mp_total_bytes m) (tx_size E previous),
                     mp_ids := mp_ids m - {previous_id},
                     mp_transactions := remove_nth position (mp_transactions m)\<rparr>)))"

definition insert_tx :: "ext \<Rightarrow> mempool \<Rightarrow> transaction \<Rightarrow> mempool" where
  "insert_tx E m tx =
     m\<lparr>mp_ids := insert (tx_id E tx) (mp_ids m),
       mp_sender_nonce := hm_insert (mp_sender_nonce m) (tx_key tx) (tx_id E tx),
       mp_total_bytes := saturating_add 64 (mp_total_bytes m) (tx_size E tx),
       mp_transactions := mp_transactions m @ [tx]\<rparr>"

definition mempool_add :: "ext \<Rightarrow> mempool \<Rightarrow> transaction \<Rightarrow> mempool result" where
  "mempool_add E m tx =
     (if tx_id E tx \<in> mp_ids m then Err (EMempool DuplicateTransaction) else
      let sz = tx_size E tx in
      if sz > mp_max_bytes m then Err (EMempool TransactionTooLarge) else
      rbind (replace_pending E m tx) (\<lambda>m1. Ok (insert_tx E (evict E m1 sz) tx)))"

definition mempool_len :: "mempool \<Rightarrow> nat" where
  "mempool_len m = length (mp_transactions m)"

definition mempool_is_empty :: "mempool \<Rightarrow> bool" where
  "mempool_is_empty m = (mp_transactions m = [])"

definition mempool_snapshot :: "mempool \<Rightarrow> nat \<Rightarrow> transaction list" where
  "mempool_snapshot m max_count = take max_count (mp_transactions m)"

definition mempool_transaction_by_hash :: "ext \<Rightarrow> mempool \<Rightarrow> string \<Rightarrow> transaction option" where
  "mempool_transaction_by_hash E m hash =
     (let wanted = (case strip_prefix ''0x'' hash of Some v \<Rightarrow> v | None \<Rightarrow> hash)
      in find (\<lambda>tx. eq_ignore_ascii_case (tx_id E tx) wanted) (mp_transactions m))"

definition pending_at :: "mempool \<Rightarrow> string \<Rightarrow> nat \<Rightarrow> bool" where
  "pending_at m address nonce =
     list_ex (\<lambda>tx. eq_ignore_ascii_case (tx_from tx) address \<and> tx_nonce tx = nonce) (mp_transactions m)"

function mempool_next_nonce :: "mempool \<Rightarrow> string \<Rightarrow> nat \<Rightarrow> nat" where
  "mempool_next_nonce m address next =
     (if pending_at m address next then
        (case checked_add 64 next 1 of
           None \<Rightarrow> next
         | Some incremented \<Rightarrow> mempool_next_nonce m address incremented)
      else next)"
  by pat_completeness auto
termination
  by (relation "measure (\<lambda>(m, a, next). 2 ^ 64 - next)") (auto simp: checked_add_def split: if_splits)

declare mempool_next_nonce.simps [simp del]

definition drain_order :: "transaction list \<Rightarrow> transaction list" where
  "drain_order txs = sort_key (\<lambda>tx. (- int (tx_fee tx), tx_nonce tx)) txs"

fun drain_loop :: "ext \<Rightarrow> nat \<Rightarrow> mempool \<Rightarrow> transaction list \<times> mempool" where
  "drain_loop E 0 m = ([], m)"
| "drain_loop E (Suc n) m =
     (if mp_transactions m = [] then ([], m)
      else let (tx, m1) = remove_at E m 0; (selected, m2) = drain_loop E n m1 in (tx # selected, m2))"

definition mempool_drain :: "ext \<Rightarrow> mempool \<Rightarrow> nat \<Rightarrow> transaction list \<times> mempool" where
  "mempool_drain E m max_count =
     drain_loop E max_count (m\<lparr>mp_transactions := drain_order (mp_transactions m)\<rparr>)"

definition add_ignoring :: "ext \<Rightarrow> mempool \<Rightarrow> transaction \<Rightarrow> mempool" where
  "add_ignoring E m tx = (case mempool_add E m tx of Ok m' \<Rightarrow> m' | Err _ \<Rightarrow> m)"

definition retain_valid :: "ext \<Rightarrow> (transaction \<Rightarrow> bool) \<Rightarrow> mempool \<Rightarrow> mempool" where
  "retain_valid E valid m =
     foldl (add_ignoring E) (with_limits (mp_max_transactions m) (mp_max_bytes m))
       (filter valid (mp_transactions m))"

subsection \<open>The invariant\<close>

text \<open>
  The indices describe the list: \<open>mp_ids\<close> holds its ids, the nonce index its senders and nonces,
  and the byte counter its size; nothing occurs twice; and both limits hold.
\<close>

definition pool_bytes :: "ext \<Rightarrow> transaction list \<Rightarrow> nat" where
  "pool_bytes E txs = sum_list (map (tx_size E) txs)"

definition index_inv :: "ext \<Rightarrow> mempool \<Rightarrow> bool" where
  "index_inv E m \<longleftrightarrow> distinct (map (tx_id E) (mp_transactions m)) \<and> distinct (map tx_key (mp_transactions m))
     \<and> mp_ids m = tx_id E ` set (mp_transactions m)
     \<and> (\<forall>tx \<in> set (mp_transactions m). hm_get (mp_sender_nonce m) (tx_key tx) = Some (tx_id E tx))
     \<and> mp_total_bytes m = pool_bytes E (mp_transactions m)"

definition only_keys :: "mempool \<Rightarrow> (string \<times> nat) set \<Rightarrow> bool" where
  "only_keys m K \<longleftrightarrow> (\<forall>k. hm_get (mp_sender_nonce m) k \<noteq> None \<longrightarrow> k \<in> tx_key ` set (mp_transactions m) \<union> K)"

definition limits_inv :: "mempool \<Rightarrow> bool" where
  "limits_inv m \<longleftrightarrow> 0 < mp_max_transactions m \<and> 0 < mp_max_bytes m \<and> mp_max_bytes m < 2 ^ 64 - 1
     \<and> length (mp_transactions m) \<le> mp_max_transactions m \<and> mp_total_bytes m \<le> mp_max_bytes m"

definition mempool_inv :: "ext \<Rightarrow> mempool \<Rightarrow> bool" where
  "mempool_inv E m \<longleftrightarrow> index_inv E m \<and> only_keys m {} \<and> limits_inv m"

lemma pool_bytes_remove:
  "i < length txs \<Longrightarrow> pool_bytes E txs = tx_size E (txs ! i) + pool_bytes E (remove_nth i txs)"
  unfolding pool_bytes_def sum_mset_sum_list [symmetric] mset_map
  by (simp add: remove_nth_split(2))

text \<open>Taking one transaction out, with or without its nonce entry.\<close>

lemma index_inv_remove:
  assumes "index_inv E m" and "i < length (mp_transactions m)"
    and "m' = m\<lparr>mp_transactions := remove_nth i (mp_transactions m), mp_ids := mp_ids m - {tx_id E (mp_transactions m ! i)},
      mp_total_bytes := mp_total_bytes m - tx_size E (mp_transactions m ! i), mp_sender_nonce := sn\<rparr>"
    and "sn = mp_sender_nonce m \<or> sn = hm_remove (mp_sender_nonce m) (tx_key (mp_transactions m ! i))"
  shows "index_inv E m'"
proof -
  let ?txs = "mp_transactions m" and ?tx = "mp_transactions m ! i"
  have d: "distinct (map (tx_id E) ?txs)" "distinct (map tx_key ?txs)" using assms(1) by (simp_all add: index_inv_def)
  note ids = distinct_map_remove [OF assms(2) d(1)] and keys = distinct_map_remove [OF assms(2) d(2)]
  have sub: "set (remove_nth i ?txs) \<subseteq> set ?txs" using set_take_subset set_drop_subset by (fastforce simp: remove_nth_def)
  have "hm_get sn (tx_key tx) = Some (tx_id E tx)" if "tx \<in> set (remove_nth i ?txs)" for tx
  proof -
    have "tx_key tx \<noteq> tx_key ?tx" using that keys(2) by (metis imageI)
    moreover have "hm_get (mp_sender_nonce m) (tx_key tx) = Some (tx_id E tx)"
      using that sub assms(1) unfolding index_inv_def by blast
    ultimately show ?thesis using assms(4) by (elim disjE) simp_all
  qed
  moreover have "mp_ids m - {tx_id E ?tx} = tx_id E ` set (remove_nth i ?txs)"
    using assms(1) ids(2,3) by (auto simp: index_inv_def)
  ultimately show ?thesis
    using ids(1) keys(1) assms(1) pool_bytes_remove [OF assms(2), of E]
    by (simp add: assms(3) index_inv_def)
qed

lemma remove_at_state:
  "snd (remove_at E m i) = m\<lparr>mp_transactions := remove_nth i (mp_transactions m),
     mp_ids := mp_ids m - {tx_id E (mp_transactions m ! i)},
     mp_total_bytes := mp_total_bytes m - tx_size E (mp_transactions m ! i),
     mp_sender_nonce := hm_remove (mp_sender_nonce m) (tx_key (mp_transactions m ! i))\<rparr>"
  by (simp add: remove_at_def Let_def saturating_sub_def)

lemma remove_at_index: "index_inv E m \<Longrightarrow> i < length (mp_transactions m) \<Longrightarrow> index_inv E (snd (remove_at E m i))"
  by (rule index_inv_remove [OF _ _ remove_at_state]) auto

lemma remove_at_keys:
  assumes "index_inv E m" and "only_keys m K" and "i < length (mp_transactions m)"
  shows "only_keys (snd (remove_at E m i)) K"
proof -
  have "distinct (map tx_key (mp_transactions m))" using assms(1) by (simp add: index_inv_def)
  note keys = distinct_map_remove(3) [OF assms(3) this]
  show ?thesis using assms(2) keys by (auto simp: only_keys_def remove_at_state)
qed

lemma evict_inv:
  assumes "index_inv E m" and "only_keys m K"
  shows "index_inv E (evict E m sz) \<and> only_keys (evict E m sz) K
    \<and> mp_max_transactions (evict E m sz) = mp_max_transactions m \<and> mp_max_bytes (evict E m sz) = mp_max_bytes m
    \<and> mset (mp_transactions (evict E m sz)) \<subseteq># mset (mp_transactions m)
    \<and> (over_limit (evict E m sz) sz \<longrightarrow> mp_transactions (evict E m sz) = [])"
  using assms
proof (induction E m sz rule: evict.induct)
  case (1 E m sz)
  show ?case
  proof (cases "over_limit m sz \<and> mp_transactions m \<noteq> []")
    case True
    then obtain i where i: "min_index tx_fee (mp_transactions m) = Some i"
      using min_index_None [of tx_fee "mp_transactions m"] by auto
    then have lt: "i < length (mp_transactions m)" using min_index_Some by blast
    have sub: "mset (mp_transactions (snd (remove_at E m i))) \<subseteq># mset (mp_transactions m)"
      using remove_nth_split(2) [OF lt] by (simp add: remove_at_state)
    have eq: "evict E m sz = evict E (snd (remove_at E m i)) sz"
      using True i by (subst evict.simps) simp
    have limits: "mp_max_transactions (snd (remove_at E m i)) = mp_max_transactions m"
      "mp_max_bytes (snd (remove_at E m i)) = mp_max_bytes m" by (simp_all add: remove_at_state)
    from "1.IH" [OF conjunct1 [OF True] i remove_at_index [OF "1.prems"(1) lt] remove_at_keys [OF "1.prems" lt]]
    show ?thesis unfolding eq limits using sub by (meson subset_mset.order_trans)
  next
    case False
    then have "evict E m sz = m"
      by (subst evict.simps) (auto simp: min_index_None split: option.splits)
    with False "1.prems" show ?thesis by auto
  qed
qed

text \<open>A pending nonce entry leads to the pending transaction: the index is never corrupt.\<close>

lemma pending_position:
  assumes "hm_get (mp_sender_nonce m) (tx_key tx) = Some pid" and "mempool_inv E m"
  obtains i where "find_index (\<lambda>e. tx_id E e = pid) (mp_transactions m) = Some i" and "i < length (mp_transactions m)"
    and "tx_id E (mp_transactions m ! i) = pid" and "tx_key (mp_transactions m ! i) = tx_key tx"
proof -
  have inv: "index_inv E m" using assms(2) by (simp add: mempool_inv_def)
  have "tx_key tx \<in> tx_key ` set (mp_transactions m)"
    using assms unfolding mempool_inv_def only_keys_def by fastforce
  then obtain t where t: "t \<in> set (mp_transactions m)" "tx_key t = tx_key tx" by auto
  with assms(1) inv have pid: "tx_id E t = pid" unfolding index_inv_def by (metis option.inject)
  with t obtain i where i: "find_index (\<lambda>e. tx_id E e = pid) (mp_transactions m) = Some i"
    using find_index_None [of "\<lambda>e. tx_id E e = pid" "mp_transactions m"] by (metis not_None_eq)
  from find_index_Some [OF i] have lt: "i < length (mp_transactions m)" "tx_id E (mp_transactions m ! i) = pid" by auto
  with pid t inv have "t = mp_transactions m ! i" unfolding index_inv_def by (metis distinct_map inj_onD nth_mem)
  with that [OF i lt] t show thesis by simp
qed

lemma replace_pending_inv:
  assumes "replace_pending E m tx = Ok m1" and "mempool_inv E m" and "tx_id E tx \<notin> mp_ids m"
  shows "index_inv E m1 \<and> only_keys m1 {tx_key tx} \<and> tx_key tx \<notin> tx_key ` set (mp_transactions m1)
    \<and> tx_id E tx \<notin> mp_ids m1 \<and> mset (mp_transactions m1) \<subseteq># mset (mp_transactions m)
    \<and> mp_max_transactions m1 = mp_max_transactions m \<and> mp_max_bytes m1 = mp_max_bytes m"
proof (cases "hm_get (mp_sender_nonce m) (tx_key tx)")
  case None
  with assms(1) have "m1 = m" by (simp add: replace_pending_def)
  moreover have "tx_key tx \<notin> tx_key ` set (mp_transactions m)"
    using None assms(2) by (force simp: mempool_inv_def index_inv_def)
  ultimately show ?thesis using assms(2,3) by (auto simp: mempool_inv_def only_keys_def)
next
  case (Some pid)
  from pending_position [OF Some assms(2)] obtain i where i: "find_index (\<lambda>e. tx_id E e = pid) (mp_transactions m) = Some i"
    and lt: "i < length (mp_transactions m)" and pid: "tx_id E (mp_transactions m ! i) = pid"
    and key: "tx_key (mp_transactions m ! i) = tx_key tx" .
  have m1: "m1 = m\<lparr>mp_total_bytes := saturating_sub (mp_total_bytes m) (tx_size E (mp_transactions m ! i)),
      mp_ids := mp_ids m - {pid}, mp_transactions := remove_nth i (mp_transactions m)\<rparr>"
    using assms(1) Some i by (simp add: replace_pending_def Let_def split: if_splits)
  have inv: "index_inv E m" using assms(2) by (simp add: mempool_inv_def)
  have "index_inv E m1"
    by (rule index_inv_remove [OF inv lt, where sn = "mp_sender_nonce m"]) (simp_all add: m1 pid saturating_sub_def)
  moreover have d: "distinct (map tx_key (mp_transactions m))" using inv by (simp add: index_inv_def)
  note keys = distinct_map_remove [OF lt d]
  ultimately show ?thesis
    using assms(2,3) keys key remove_nth_split(2) [OF lt]
    by (auto simp: m1 mempool_inv_def only_keys_def)
qed

lemma insert_tx_inv:
  assumes "index_inv E m" and "only_keys m {tx_key tx}" and "tx_key tx \<notin> tx_key ` set (mp_transactions m)"
    and "tx_id E tx \<notin> mp_ids m" and "\<not> over_limit m (tx_size E tx)" and "mp_max_bytes m < 2 ^ 64 - 1"
    and "0 < mp_max_bytes m"
  shows "mempool_inv E (insert_tx E m tx)"
proof -
  have "\<not> saturating_add 64 (mp_total_bytes m) (tx_size E tx) > mp_max_bytes m"
    and len: "length (mp_transactions m) < mp_max_transactions m"
    using assms(5) unfolding over_limit_def by auto
  with assms(6) have sat: "saturating_add 64 (mp_total_bytes m) (tx_size E tx) = mp_total_bytes m + tx_size E tx"
    unfolding saturating_add_def by linarith
  then have room: "mp_total_bytes m + tx_size E tx \<le> mp_max_bytes m"
    using assms(5) unfolding over_limit_def by linarith
  have "hm_get (hm_insert (mp_sender_nonce m) (tx_key tx) (tx_id E tx)) (tx_key t) = Some (tx_id E t)"
    if "t \<in> set (mp_transactions m)" for t
  proof -
    have "tx_key t \<noteq> tx_key tx" using that assms(3) by (metis imageI)
    moreover have "hm_get (mp_sender_nonce m) (tx_key t) = Some (tx_id E t)"
      using that assms(1) unfolding index_inv_def by blast
    ultimately show ?thesis by simp
  qed
  moreover have "saturating_add 64 (mp_total_bytes m) (tx_size E tx) = pool_bytes E (mp_transactions m @ [tx])"
    using sat assms(1) by (simp add: index_inv_def pool_bytes_def)
  ultimately have "index_inv E (insert_tx E m tx)"
    using assms(1,3,4) by (simp add: index_inv_def insert_tx_def)
  moreover have "only_keys (insert_tx E m tx) {}" using assms(2) by (auto simp: only_keys_def insert_tx_def)
  moreover have "limits_inv (insert_tx E m tx)"
    using assms(6,7) room len by (simp add: limits_inv_def insert_tx_def sat)
  ultimately show ?thesis by (simp add: mempool_inv_def)
qed

lemma evicted_room:
  assumes "index_inv E m" and "only_keys m K" and "tx_size E tx \<le> mp_max_bytes m" and "0 < mp_max_transactions m"
    and "mp_max_bytes m < 2 ^ 64 - 1"
  shows "\<not> over_limit (evict E m (tx_size E tx)) (tx_size E tx)"
proof
  let ?m = "evict E m (tx_size E tx)"
  note ev = evict_inv [OF assms(1,2), of "tx_size E tx"]
  assume over: "over_limit ?m (tx_size E tx)"
  with ev have "mp_transactions ?m = []" by blast
  moreover from this ev have "mp_total_bytes ?m = 0" by (simp add: index_inv_def pool_bytes_def)
  ultimately show False
    using over ev assms(3,4) unfolding over_limit_def saturating_add_def by (simp del: power_numeral)
qed

lemma mempool_add_Ok:
  assumes "mempool_add E m tx = Ok m'"
  obtains m1 where "tx_id E tx \<notin> mp_ids m" and "tx_size E tx \<le> mp_max_bytes m"
    and "replace_pending E m tx = Ok m1" and "m' = insert_tx E (evict E m1 (tx_size E tx)) tx"
  using assms unfolding mempool_add_def Let_def by (auto split: if_splits)

lemma mempool_add_evicted:
  assumes "mempool_add E m tx = Ok m'" and "mempool_inv E m"
  obtains m1 m2 where "replace_pending E m tx = Ok m1" and "m2 = evict E m1 (tx_size E tx)" and "m' = insert_tx E m2 tx"
    and "index_inv E m2" and "only_keys m2 {tx_key tx}" and "tx_key tx \<notin> tx_key ` set (mp_transactions m2)"
    and "tx_id E tx \<notin> mp_ids m2" and "\<not> over_limit m2 (tx_size E tx)" and "mp_max_bytes m2 = mp_max_bytes m"
    and "mp_max_transactions m2 = mp_max_transactions m"
proof -
  from mempool_add_Ok [OF assms(1)] obtain m1 where new: "tx_id E tx \<notin> mp_ids m" "tx_size E tx \<le> mp_max_bytes m"
    and rep: "replace_pending E m tx = Ok m1" and m': "m' = insert_tx E (evict E m1 (tx_size E tx)) tx" by blast
  note r = replace_pending_inv [OF rep assms(2) new(1)]
  then have ri: "index_inv E m1" "only_keys m1 {tx_key tx}" by auto
  let ?m2 = "evict E m1 (tx_size E tx)"
  note ev = evict_inv [OF ri, of "tx_size E tx"]
  have sub: "set (mp_transactions ?m2) \<subseteq> set (mp_transactions m1)"
    using ev set_mset_mono by fastforce
  have "tx_key tx \<notin> tx_key ` set (mp_transactions ?m2)" using r sub by blast
  moreover have "tx_id E tx \<notin> mp_ids ?m2" using r ev sub by (auto simp: index_inv_def)
  moreover have "\<not> over_limit ?m2 (tx_size E tx)"
    using assms(2) new(2) r by (intro evicted_room [OF ri]) (simp_all add: mempool_inv_def limits_inv_def)
  ultimately show thesis using that [OF rep refl m'] ev r by simp
qed

lemma mempool_add_inv:
  assumes "mempool_add E m tx = Ok m'" and "mempool_inv E m"
  shows "mempool_inv E m'"
proof -
  from mempool_add_evicted [OF assms] obtain m2 where m': "m' = insert_tx E m2 tx"
    and m2: "index_inv E m2" "only_keys m2 {tx_key tx}" "tx_key tx \<notin> tx_key ` set (mp_transactions m2)"
      "tx_id E tx \<notin> mp_ids m2" "\<not> over_limit m2 (tx_size E tx)" "mp_max_bytes m2 = mp_max_bytes m" by metis
  have "mp_max_bytes m2 < 2 ^ 64 - 1" "0 < mp_max_bytes m2"
    using assms(2) m2(6) unfolding mempool_inv_def limits_inv_def by simp_all
  with m' m2 show ?thesis using insert_tx_inv by blast
qed

lemma with_limits_inv: "max_bytes < 2 ^ 64 - 1 \<Longrightarrow> mempool_inv E (with_limits max_transactions max_bytes)"
  by (simp add: mempool_inv_def index_inv_def only_keys_def limits_inv_def with_limits_def pool_bytes_def less_max_iff_disj)


subsection \<open>Eviction takes the cheapest\<close>

lemma remove_at_set:
  "i < length (mp_transactions m) \<Longrightarrow>
   set (mp_transactions m) = insert (mp_transactions m ! i) (set (mp_transactions (snd (remove_at E m i))))"
  using arg_cong [OF remove_nth_split(2), of i "mp_transactions m" set_mset] by (simp add: remove_at_state)

lemma evict_subset: "set (mp_transactions (evict E m sz)) \<subseteq> set (mp_transactions m)"
proof (induction E m sz rule: evict.induct)
  case (1 E m sz)
  have "set (mp_transactions (snd (remove_at E m i))) \<subseteq> set (mp_transactions m)"
    if "min_index tx_fee (mp_transactions m) = Some i" for i
    using remove_at_set [OF conjunct1 [OF min_index_Some [OF that]], of E] by blast
  note removed = this
  show ?case
  proof (cases "over_limit m sz \<and> mp_transactions m \<noteq> []")
    case True
    then obtain i where i: "min_index tx_fee (mp_transactions m) = Some i"
      using min_index_None [of tx_fee "mp_transactions m"] by auto
    with True have "evict E m sz = evict E (snd (remove_at E m i)) sz" by (subst evict.simps) simp
    with 1 [OF conjunct1 [OF True] i] removed [OF i] show ?thesis by simp
  qed (subst evict.simps, auto simp: min_index_None split: option.splits)
qed

lemma evict_cheapest:
  "r \<in> set (mp_transactions m) \<Longrightarrow> r \<notin> set (mp_transactions (evict E m sz))
   \<Longrightarrow> k \<in> set (mp_transactions (evict E m sz)) \<Longrightarrow> tx_fee r \<le> tx_fee k"
proof (induction E m sz rule: evict.induct)
  case (1 E m sz)
  show ?case
  proof (cases "over_limit m sz \<and> mp_transactions m \<noteq> []")
    case True
    then obtain i where i: "min_index tx_fee (mp_transactions m) = Some i"
      using min_index_None [of tx_fee "mp_transactions m"] by auto
    note least = min_index_Some [OF i]
    have eq: "evict E m sz = evict E (snd (remove_at E m i)) sz" using True i by (subst evict.simps) simp
    have "k \<in> set (mp_transactions m)" using "1.prems"(3) evict_subset by blast
    moreover have "r = mp_transactions m ! i \<or> r \<in> set (mp_transactions (snd (remove_at E m i)))"
      using "1.prems"(1) remove_at_set [OF conjunct1 [OF least], of E] by auto
    ultimately show ?thesis
      using "1.IH" [OF conjunct1 [OF True] i] "1.prems"(2,3) least unfolding eq by blast
  next
    case False
    then have "evict E m sz = m" by (subst evict.simps) (auto simp: min_index_None split: option.splits)
    with "1.prems" show ?thesis by simp
  qed
qed

subsection \<open>Draining\<close>

lemma drain_loop_eq:
  "fst (drain_loop E n m) = take n (mp_transactions m)
   \<and> mp_transactions (snd (drain_loop E n m)) = drop n (mp_transactions m)"
proof (induction n arbitrary: m)
  case (Suc n)
  show ?case
  proof (cases "mp_transactions m")
    case (Cons tx txs)
    obtain m1 where m1: "remove_at E m 0 = (tx, m1)" and txs: "mp_transactions m1 = txs"
      using Cons by (auto simp: remove_at_def remove_nth_def Let_def)
    with Suc.IH [of m1] Cons show ?thesis by (simp add: case_prod_beta)
  qed simp
qed simp

lemma drain_loop_inv: "mempool_inv E m \<Longrightarrow> mempool_inv E (snd (drain_loop E n m))"
proof (induction n arbitrary: m)
  case (Suc n)
  show ?case
  proof (cases "mp_transactions m = []")
    case False
    then have lt: "0 < length (mp_transactions m)" by simp
    have "mempool_inv E (snd (remove_at E m 0))"
      using Suc.prems remove_at_index [OF _ lt] remove_at_keys [OF _ _ lt] length_remove_nth [OF lt]
      unfolding mempool_inv_def limits_inv_def by (fastforce simp: remove_at_state simp del: power_numeral)
    from Suc.IH [OF this] False show ?thesis by (simp add: case_prod_beta)
  qed (use Suc.prems in simp)
qed simp

lemma drain_order_mset: "mset (drain_order txs) = mset txs"
  by (simp add: drain_order_def)

lemma reorder_inv:
  assumes "mempool_inv E m" and "mset txs = mset (mp_transactions m)"
  shows "mempool_inv E (m\<lparr>mp_transactions := txs\<rparr>)"
proof -
  have "set txs = set (mp_transactions m)" by (rule mset_eq_setD [OF assms(2)])
  moreover have "length txs = length (mp_transactions m)" by (rule mset_eq_length [OF assms(2)])
  moreover have "distinct (map (tx_id E) txs) = distinct (map (tx_id E) (mp_transactions m))"
    and "distinct (map tx_key txs) = distinct (map tx_key (mp_transactions m))"
    using assms(2) by (intro mset_eq_imp_distinct_iff, simp)+
  moreover have "pool_bytes E txs = pool_bytes E (mp_transactions m)"
    unfolding pool_bytes_def sum_mset_sum_list [symmetric] mset_map assms(2) ..
  ultimately show ?thesis using assms(1) by (simp add: mempool_inv_def index_inv_def only_keys_def limits_inv_def)
qed

lemma mempool_drain_inv: "mempool_inv E m \<Longrightarrow> mempool_inv E (snd (mempool_drain E m n))"
  unfolding mempool_drain_def by (intro drain_loop_inv reorder_inv drain_order_mset)

lemma retain_fold_inv: "mempool_inv E m \<Longrightarrow> mempool_inv E (foldl (add_ignoring E) m txs)"
proof (induction txs arbitrary: m)
  case (Cons tx txs)
  have "mempool_inv E (add_ignoring E m tx)"
    using Cons.prems mempool_add_inv by (auto simp: add_ignoring_def split: result.split)
  with Cons.IH show ?case by simp
qed simp

lemma add_ignoring_limits:
  "mempool_inv E m \<Longrightarrow> mp_max_transactions (foldl (add_ignoring E) m txs) = mp_max_transactions m
    \<and> mp_max_bytes (foldl (add_ignoring E) m txs) = mp_max_bytes m"
proof (induction txs arbitrary: m)
  case (Cons tx txs)
  have "mempool_inv E (add_ignoring E m tx)"
    using Cons.prems mempool_add_inv by (auto simp: add_ignoring_def split: result.split)
  moreover have "mp_max_transactions (add_ignoring E m tx) = mp_max_transactions m
    \<and> mp_max_bytes (add_ignoring E m tx) = mp_max_bytes m"
    using Cons.prems by (auto simp: add_ignoring_def insert_tx_def split: result.split elim!: mempool_add_evicted)
  ultimately show ?case using Cons.IH by simp
qed simp

lemma retain_valid_inv: "mempool_inv E m \<Longrightarrow> mempool_inv E (retain_valid E valid m)"
  unfolding retain_valid_def
  by (intro retain_fold_inv with_limits_inv) (simp only: mempool_inv_def limits_inv_def)


subsection \<open>Runs of a pool\<close>

inductive mempool_step :: "ext \<Rightarrow> mempool \<Rightarrow> mempool \<Rightarrow> bool" for E where
  add: "mempool_add E m tx = Ok m' \<Longrightarrow> mempool_step E m m'"
| drain: "mempool_step E m (snd (mempool_drain E m max_count))"
| retain: "mempool_step E m (retain_valid E valid m)"

interpretation mempool: safety "\<lambda>m. \<exists>n b. b < 2 ^ 64 - 1 \<and> m = with_limits n b" "mempool_step E" "mempool_inv E" for E
proof unfold_locales
  show "mempool_inv E m" if "\<exists>n b. b < 2 ^ 64 - 1 \<and> m = with_limits n b" for m
    using that with_limits_inv by blast
  show "mempool_inv E m'" if "mempool_inv E m" "mempool_step E m m'" for m m'
    using that(2,1)
    by cases (auto intro: mempool_add_inv mempool_drain_inv retain_valid_inv)
qed

subsection \<open>Admission\<close>

lemma distinct_map_append_last: "distinct (map f (xs @ [y])) \<Longrightarrow> x \<in> set xs \<Longrightarrow> f x \<noteq> f y"
proof -
  assume d: "distinct (map f (xs @ [y]))" and x: "x \<in> set xs"
  from d have "f y \<notin> f ` set xs" by simp
  with x show "f x \<noteq> f y" by (metis imageI)
qed

lemma remove_nth_filter:
  assumes "i < length xs" and "distinct (map f xs)"
  shows "remove_nth i xs = filter (\<lambda>x. f x \<noteq> f (xs ! i)) xs"
proof -
  have split: "xs = take i xs @ xs ! i # drop (Suc i) xs" using assms(1) by (rule id_take_nth_drop)
  have "f x \<noteq> f (xs ! i)" if "x \<in> set (take i xs) \<union> set (drop (Suc i) xs)" for x
    using that distinct_map_remove(2) [OF assms] by (metis imageI remove_nth_def set_append)
  then have "filter (\<lambda>x. f x \<noteq> f (xs ! i)) (take i xs) = take i xs"
    "filter (\<lambda>x. f x \<noteq> f (xs ! i)) (drop (Suc i) xs) = drop (Suc i) xs"
    by (auto simp: filter_id_conv)
  then show ?thesis by (subst (2) split) (simp add: remove_nth_def)
qed

lemma replace_pending_filter:
  assumes "replace_pending E m tx = Ok m1" and "mempool_inv E m"
  shows "mp_transactions m1 = filter (\<lambda>t. tx_key t \<noteq> tx_key tx) (mp_transactions m)
    \<and> mp_total_bytes m1 \<le> mp_total_bytes m
    \<and> mp_max_transactions m1 = mp_max_transactions m \<and> mp_max_bytes m1 = mp_max_bytes m"
proof (cases "hm_get (mp_sender_nonce m) (tx_key tx)")
  case None
  then have "tx_key t \<noteq> tx_key tx" if "t \<in> set (mp_transactions m)" for t
    using that assms(2) by (fastforce simp: mempool_inv_def index_inv_def)
  with None assms(1) show ?thesis by (simp add: replace_pending_def filter_id_conv)
next
  case (Some pid)
  from pending_position [OF Some assms(2)] obtain i where i: "find_index (\<lambda>e. tx_id E e = pid) (mp_transactions m) = Some i"
    and lt: "i < length (mp_transactions m)" and key: "tx_key (mp_transactions m ! i) = tx_key tx" by blast
  have d: "distinct (map tx_key (mp_transactions m))" using assms(2) by (simp add: mempool_inv_def index_inv_def)
  show ?thesis
    using assms(1) Some i remove_nth_filter [OF lt d]
    by (auto simp: replace_pending_def Let_def key saturating_sub_def split: if_splits)
qed

lemma replace_pending_Err:
  assumes "mempool_inv E m"
  shows "replace_pending E m tx = Err e \<longleftrightarrow>
    (\<exists>old \<in> set (mp_transactions m). tx_key old = tx_key tx \<and> tx_fee tx < minimum_fee old) \<and> e = EMempool ReplacementUnderpriced"
proof (cases "hm_get (mp_sender_nonce m) (tx_key tx)")
  case None
  then have "tx_key t \<noteq> tx_key tx" if "t \<in> set (mp_transactions m)" for t
    using that assms by (fastforce simp: mempool_inv_def index_inv_def)
  with None show ?thesis by (auto simp: replace_pending_def)
next
  case (Some pid)
  from pending_position [OF Some assms] obtain i where i: "find_index (\<lambda>e. tx_id E e = pid) (mp_transactions m) = Some i"
    and lt: "i < length (mp_transactions m)" and key: "tx_key (mp_transactions m ! i) = tx_key tx" by blast
  have "inj_on tx_key (set (mp_transactions m))" using assms by (simp add: mempool_inv_def index_inv_def distinct_map)
  with lt key have "(\<exists>old \<in> set (mp_transactions m). tx_key old = tx_key tx \<and> tx_fee tx < minimum_fee old)
    \<longleftrightarrow> tx_fee tx < minimum_fee (mp_transactions m ! i)" by (metis inj_onD nth_mem)
  then show ?thesis using Some i by (auto simp: replace_pending_def Let_def)
qed

lemma evict_not_over: "\<not> over_limit m sz \<Longrightarrow> evict E m sz = m"
  by (subst evict.simps) simp

lemma mempool_add_accepts:
  assumes "mempool_inv E m" and "tx_id E tx \<notin> tx_id E ` set (mp_transactions m)" and "tx_size E tx \<le> mp_max_bytes m"
    and "\<And>old. old \<in> set (mp_transactions m) \<Longrightarrow> tx_key old = tx_key tx \<Longrightarrow> minimum_fee old \<le> tx_fee tx"
  obtains m' where "mempool_add E m tx = Ok m'"
proof -
  have "tx_id E tx \<notin> mp_ids m" using assms(1,2) by (simp add: mempool_inv_def index_inv_def)
  moreover have "replace_pending E m tx \<noteq> Err e" for e
    using replace_pending_Err [OF assms(1), of tx e] assms(4) by (metis not_le)
  then obtain m1 where "replace_pending E m tx = Ok m1" by (cases "replace_pending E m tx") auto
  ultimately show thesis using that assms(3) by (simp add: mempool_add_def Let_def)
qed

lemma mempool_add_room:
  assumes "mempool_inv E m" and "mempool_add E m tx = Ok m'"
    and "length (mp_transactions m) < mp_max_transactions m" and "mp_total_bytes m + tx_size E tx \<le> mp_max_bytes m"
  shows "mp_transactions m' = filter (\<lambda>t. tx_key t \<noteq> tx_key tx) (mp_transactions m) @ [tx]"
proof -
  from mempool_add_evicted [OF assms(2,1)] obtain m1 where rep: "replace_pending E m tx = Ok m1"
    and m': "m' = insert_tx E (evict E m1 (tx_size E tx)) tx" by metis
  note m1 = replace_pending_filter [OF rep assms(1)]
  have "length (mp_transactions m1) < mp_max_transactions m1"
    using assms(3) m1 by (metis le_less_trans length_filter_le)
  moreover have "saturating_add 64 (mp_total_bytes m1) (tx_size E tx) \<le> mp_max_bytes m1"
    using assms(4) m1 saturating_add_le [of 64 "mp_total_bytes m1" "tx_size E tx"] by linarith
  ultimately show ?thesis
    using m1 m' evict_not_over [of m1 "tx_size E tx" E] by (simp add: over_limit_def insert_tx_def)
qed

text \<open>A pool with one pending transfer, for the examples.\<close>

definition sample_pool :: mempool where
  "sample_pool = insert_tx toy_ext (with_limits 2 1000) (sample_transfer ''x'')"

lemma toy_tx_size: "tx_size toy_ext tx = 8"
  by (simp add: tx_size_def toy_ext_def)

lemma sample_pool_add: "mempool_add toy_ext (with_limits 2 1000) (sample_transfer ''x'') = Ok sample_pool"
proof -
  have "\<not> over_limit (with_limits 2 1000) 8"
    by (simp add: over_limit_def with_limits_def saturating_add_def)
  note room = evict_not_over [OF this, of toy_ext]
  have "replace_pending toy_ext (with_limits 2 1000) (sample_transfer ''x'') = Ok (with_limits 2 1000)"
    by (simp add: replace_pending_def with_limits_def)
  moreover have "mp_ids (with_limits 2 1000) = {}" "mp_max_bytes (with_limits 2 1000) = 1000"
    by (simp_all add: with_limits_def)
  ultimately show ?thesis by (simp add: mempool_add_def toy_tx_size room sample_pool_def)
qed

lemma sample_pool_inv: "mempool_inv toy_ext sample_pool"
  by (rule mempool_add_inv [OF sample_pool_add with_limits_inv]) simp

lemma sample_pool_transactions: "mp_transactions sample_pool = [sample_transfer ''x'']"
  by (simp add: sample_pool_def insert_tx_def with_limits_def)

lemma sample_ids: "tx_id toy_ext (sample_transfer ''y'') \<noteq> tx_id toy_ext (sample_transfer ''x'')"
  by code_simp

text \<open>
  C35. On a well-formed pool \<^verbatim>\<open>add\<close> fails in exactly three ways: a duplicate id, a transaction larger
  than the whole pool, and a replacement that pays less than the old fee plus a tenth of it (at
  least one).  The error of a corrupt nonce index cannot occur.
\<close>

theorem mempool_add_errors:
  assumes "mempool_inv E m"
  shows "mempool_add E m tx = Err e \<longleftrightarrow>
    (if tx_id E tx \<in> tx_id E ` set (mp_transactions m) then e = EMempool DuplicateTransaction
     else if tx_size E tx > mp_max_bytes m then e = EMempool TransactionTooLarge
     else e = EMempool ReplacementUnderpriced
       \<and> (\<exists>old \<in> set (mp_transactions m). tx_key old = tx_key tx \<and> tx_fee tx < minimum_fee old))"
proof -
  have "mp_ids m = tx_id E ` set (mp_transactions m)" using assms by (simp add: mempool_inv_def index_inv_def)
  then show ?thesis
    using replace_pending_Err [OF assms, of tx e]
    by (cases "replace_pending E m tx") (auto simp: mempool_add_def Let_def)
qed

theorem mempool_add_errors_witness:
  "mempool_add toy_ext sample_pool (sample_transfer ''y'') = Err (EMempool ReplacementUnderpriced)"
  unfolding mempool_add_errors [OF sample_pool_inv] sample_pool_transactions using sample_ids
  by (simp add: sample_pool_def insert_tx_def with_limits_def toy_tx_size tx_key_def sample_transfer_def
      minimum_fee_def saturating_add_def)

text \<open>
  After a successful \<^verbatim>\<open>add\<close> the new transaction is pending and the one it replaces is not; of
  the others only the cheapest are evicted (none evicted pays more than one kept), and none is when
  the pool has room for the new one.
\<close>

theorem mempool_add_effect:
  assumes "mempool_inv E m" and "mempool_add E m tx = Ok m'"
  shows "\<exists>kept. mp_transactions m' = kept @ [tx]
    \<and> set kept \<subseteq> {t \<in> set (mp_transactions m). tx_key t \<noteq> tx_key tx}
    \<and> (\<forall>r \<in> set (mp_transactions m) - set kept. tx_key r \<noteq> tx_key tx \<longrightarrow> (\<forall>k \<in> set kept. tx_fee r \<le> tx_fee k))
    \<and> (length (mp_transactions m) < mp_max_transactions m \<and> mp_total_bytes m + tx_size E tx \<le> mp_max_bytes m
       \<longrightarrow> kept = filter (\<lambda>t. tx_key t \<noteq> tx_key tx) (mp_transactions m))"
proof -
  from mempool_add_evicted [OF assms(2,1)] obtain m1 where rep: "replace_pending E m tx = Ok m1"
    and m': "m' = insert_tx E (evict E m1 (tx_size E tx)) tx" by metis
  let ?kept = "mp_transactions (evict E m1 (tx_size E tx))"
  note m1 = replace_pending_filter [OF rep assms(1)]
  have "set ?kept \<subseteq> {t \<in> set (mp_transactions m). tx_key t \<noteq> tx_key tx}"
    using evict_subset m1 by fastforce
  moreover have "tx_fee r \<le> tx_fee k"
    if "r \<in> set (mp_transactions m) - set ?kept" "tx_key r \<noteq> tx_key tx" "k \<in> set ?kept" for r k
    by (rule evict_cheapest [of r m1]) (use that m1 in auto)
  moreover have "?kept = filter (\<lambda>t. tx_key t \<noteq> tx_key tx) (mp_transactions m)"
    if "length (mp_transactions m) < mp_max_transactions m" "mp_total_bytes m + tx_size E tx \<le> mp_max_bytes m"
    using mempool_add_room [OF assms that] by (simp add: m' insert_tx_def)
  ultimately show ?thesis by (intro exI [of _ ?kept]) (simp add: m' insert_tx_def)
qed

theorem mempool_add_effect_witness:
  "\<exists>m'. mempool_add toy_ext sample_pool ((sample_transfer ''y'')\<lparr>tx_fee := 2\<rparr>) = Ok m'
     \<and> mp_transactions m' = [(sample_transfer ''y'')\<lparr>tx_fee := 2\<rparr>]"
proof -
  let ?tx = "(sample_transfer ''y'')\<lparr>tx_fee := 2\<rparr>"
  have "tx_id toy_ext ?tx \<noteq> tx_id toy_ext (sample_transfer ''x'')" by code_simp
  with sample_pool_transactions have new: "tx_id toy_ext ?tx \<notin> tx_id toy_ext ` set (mp_transactions sample_pool)" by simp
  obtain m' where m': "mempool_add toy_ext sample_pool ?tx = Ok m'"
    by (rule mempool_add_accepts [OF sample_pool_inv new])
      (auto simp: toy_tx_size sample_pool_transactions sample_transfer_def minimum_fee_def saturating_add_def,
        simp add: sample_pool_def insert_tx_def with_limits_def)
  have same: "tx_key (sample_transfer ''x'') = tx_key ?tx" by (simp add: tx_key_def sample_transfer_def)
  from mempool_add_effect [OF sample_pool_inv m'] obtain kept where kept: "mp_transactions m' = kept @ [?tx]"
    "set kept \<subseteq> {t \<in> set (mp_transactions sample_pool). tx_key t \<noteq> tx_key ?tx}" by blast
  have "t \<notin> set kept" for t using kept(2) same unfolding sample_pool_transactions by auto
  then have "kept = []" using last_in_set by blast
  with m' kept show ?thesis by simp
qed

text \<open>
  C34. Every pool reached from an empty one by \<^verbatim>\<open>add\<close>, \<^verbatim>\<open>drain\<close> and \<^verbatim>\<open>retain_valid\<close> is well formed: the
  id set, the nonce index and the byte counter describe the list exactly, no id and no nonce of a
  sender is pending twice, and neither the count nor the bytes exceed their limits.
\<close>

theorem mempool_reachable_inv:
  assumes "b < 2 ^ 64 - 1" and "(mempool_step E)\<^sup>*\<^sup>* (with_limits n b) m"
  shows "mempool_inv E m"
  using mempool.inv_reachable [OF _ assms(2)] assms(1) by blast

theorem mempool_reachable_inv_witness: "mempool_inv toy_ext sample_pool"
  by (rule mempool_reachable_inv [where n = 2 and b = 1000])
    (use mempool_step.add [OF sample_pool_add] in auto)

text \<open>
  \<^verbatim>\<open>drain\<close> removes exactly what it returns: the first \<^verbatim>\<open>max_count\<close> transactions by descending fee,
  then ascending nonce; what stays pays no more than what is taken.
\<close>

theorem mempool_drain_exact:
  "fst (mempool_drain E m n) = take n (drain_order (mp_transactions m))
   \<and> mset (fst (mempool_drain E m n)) + mset (mp_transactions (snd (mempool_drain E m n))) = mset (mp_transactions m)
   \<and> length (fst (mempool_drain E m n)) = min n (length (mp_transactions m))
   \<and> sorted_wrt (\<lambda>s t. tx_fee s > tx_fee t \<or> tx_fee s = tx_fee t \<and> tx_nonce s \<le> tx_nonce t)
       (fst (mempool_drain E m n) @ mp_transactions (snd (mempool_drain E m n)))"
proof -
  let ?o = "drain_order (mp_transactions m)"
  have f: "fst (mempool_drain E m n) = take n ?o" and s: "mp_transactions (snd (mempool_drain E m n)) = drop n ?o"
    using drain_loop_eq by (simp_all add: mempool_drain_def)
  have "mset (take n ?o) + mset (drop n ?o) = mset (mp_transactions m)"
    by (metis append_take_drop_id drain_order_mset mset_append)
  moreover have "length ?o = length (mp_transactions m)" by (metis drain_order_mset size_mset)
  moreover have "sorted_wrt (\<lambda>s t. tx_fee s > tx_fee t \<or> tx_fee s = tx_fee t \<and> tx_nonce s \<le> tx_nonce t) ?o"
    unfolding drain_order_def
    by (rule sorted_wrt_mono_rel [OF _ sorted_sort_key [unfolded sorted_map]]) (auto simp: less_eq_prod_def)
  ultimately show ?thesis unfolding f s by simp
qed

text \<open>
  C36. \<^verbatim>\<open>next_nonce\<close> terminates with the least nonce from the finalized one on that the sender has not
  pending, or with the largest 64-bit nonce when every one up to it is pending.
\<close>

theorem mempool_next_nonce_least:
  assumes "finalized < 2 ^ 64"
  shows "finalized \<le> mempool_next_nonce m a finalized \<and> mempool_next_nonce m a finalized < 2 ^ 64
    \<and> (\<forall>k. finalized \<le> k \<and> k < mempool_next_nonce m a finalized \<longrightarrow> pending_at m a k)
    \<and> (pending_at m a (mempool_next_nonce m a finalized) \<longrightarrow> mempool_next_nonce m a finalized = 2 ^ 64 - 1)"
  using assms
proof (induction m a finalized rule: mempool_next_nonce.induct)
  case (1 m a n)
  show ?case
  proof (cases "pending_at m a n \<and> n + 1 < 2 ^ 64")
    case True
    then have c: "checked_add 64 n 1 = Some (Suc n)" unfolding checked_add_def by simp
    have eq: "mempool_next_nonce m a n = mempool_next_nonce m a (Suc n)"
      by (subst mempool_next_nonce.simps) (simp only: c conjunct1 [OF True] if_True option.case)
    have "Suc n < 2 ^ 64" using True by linarith
    note IH = "1.IH" [OF conjunct1 [OF True] c this]
    show ?thesis unfolding eq
      using IH True by (metis Suc_leD Suc_leI le_neq_implies_less)
  next
    case False
    then have "mempool_next_nonce m a n = n \<and> (pending_at m a n \<longrightarrow> n = 2 ^ 64 - 1)"
      using "1.prems" by (subst mempool_next_nonce.simps) (auto simp: checked_add_def)
    with "1.prems" show ?thesis by auto
  qed
qed

theorem mempool_next_nonce_least_witness: "mempool_next_nonce sample_pool ''ALICE'' 0 = 1"
proof -
  have p: "pending_at sample_pool ''ALICE'' k \<longleftrightarrow> k = 0" for k
  proof -
    have "eq_ignore_ascii_case ''alice'' ''ALICE''" by code_simp
    then show ?thesis by (auto simp: pending_at_def sample_pool_transactions sample_transfer_def)
  qed
  define n where "n = mempool_next_nonce sample_pool ''ALICE'' 0"
  have "(\<forall>k. 0 \<le> k \<and> k < n \<longrightarrow> k = 0) \<and> (n = 0 \<longrightarrow> n = 2 ^ 64 - 1)"
    using mempool_next_nonce_least [of 0 sample_pool "''ALICE''"] unfolding p n_def by simp
  then have "\<not> 1 < n" and "n \<noteq> 0" by auto
  then show ?thesis by (simp add: n_def)
qed

text \<open>
  \<^verbatim>\<open>retain_valid\<close> rebuilds the pool from the transactions that are still valid and loses none of
  them, whatever limit or fee rule \<^verbatim>\<open>add\<close> applies.
\<close>

theorem retain_valid_exact:
  assumes "mempool_inv E m"
  shows "mp_transactions (retain_valid E valid m) = filter valid (mp_transactions m)
    \<and> mempool_inv E (retain_valid E valid m)"
proof -
  let ?m0 = "with_limits (mp_max_transactions m) (mp_max_bytes m)"
  have bound: "mp_max_bytes m < 2 ^ 64 - 1" and pos: "0 < mp_max_transactions m" "0 < mp_max_bytes m"
    using assms by (simp_all only: mempool_inv_def limits_inv_def)
  have "mp_transactions (foldl (add_ignoring E) ?m0 txs) = txs"
    if "distinct (map (tx_id E) txs)" "distinct (map tx_key txs)" "length txs \<le> mp_max_transactions m"
      "pool_bytes E txs \<le> mp_max_bytes m" for txs
    using that
  proof (induction txs rule: rev_induct)
    case (snoc tx txs)
    let ?m = "foldl (add_ignoring E) ?m0 txs"
    have txs: "mp_transactions ?m = txs" using snoc by (simp add: pool_bytes_def)
    have inv: "mempool_inv E ?m" by (intro retain_fold_inv with_limits_inv bound)
    have same: "mp_max_transactions ?m = mp_max_transactions m" "mp_max_bytes ?m = mp_max_bytes m"
      using add_ignoring_limits [OF with_limits_inv [OF bound, of E "mp_max_transactions m"], of txs] pos
      by (simp_all add: with_limits_def max_def)
    have "mp_total_bytes ?m = pool_bytes E txs" using inv txs by (simp add: mempool_inv_def index_inv_def)
    then have room: "mp_total_bytes ?m + tx_size E tx \<le> mp_max_bytes ?m"
      using snoc.prems(4) by (simp add: pool_bytes_def same)
    obtain m' where m': "mempool_add E ?m tx = Ok m'"
    proof (rule mempool_add_accepts [OF inv, of tx])
      show "tx_id E tx \<notin> tx_id E ` set (mp_transactions ?m)" using snoc.prems(1) by (simp add: txs)
      show "tx_size E tx \<le> mp_max_bytes ?m" using room by simp
      show "minimum_fee old \<le> tx_fee tx" if "old \<in> set (mp_transactions ?m)" "tx_key old = tx_key tx" for old
        using that snoc.prems(2) unfolding txs by (metis distinct_map_append_last)
    qed
    have "mp_transactions m' = filter (\<lambda>t. tx_key t \<noteq> tx_key tx) txs @ [tx]"
      using mempool_add_room [OF inv m' _ room] snoc.prems(3) by (simp add: txs same)
    also have "filter (\<lambda>t. tx_key t \<noteq> tx_key tx) txs = txs" 
      using distinct_map_append_last [OF snoc.prems(2)] by (simp add: filter_id_conv)
    finally show ?case using add_ignoring_def [of E ?m tx] m' by simp
  qed (simp add: with_limits_def)
  moreover have "pool_bytes E (filter valid (mp_transactions m)) \<le> mp_max_bytes m"
    using assms sum_list_filter_le_nat [of "tx_size E" valid "mp_transactions m"]
    by (simp add: mempool_inv_def index_inv_def limits_inv_def pool_bytes_def del: power_numeral)
  moreover have "length (filter valid (mp_transactions m)) \<le> mp_max_transactions m"
    using assms length_filter_le [of valid "mp_transactions m"] unfolding mempool_inv_def limits_inv_def by linarith
  moreover have "distinct (map (tx_id E) (filter valid (mp_transactions m)))"
    "distinct (map tx_key (filter valid (mp_transactions m)))"
    using assms by (auto simp: mempool_inv_def index_inv_def distinct_map_filter)
  ultimately show ?thesis using retain_valid_inv [OF assms] by (simp add: retain_valid_def)
qed

theorem retain_valid_exact_witness:
  "mp_transactions (retain_valid toy_ext (\<lambda>tx. tx_nonce tx = 0) sample_pool) = [sample_transfer ''x'']"
  using retain_valid_exact [OF sample_pool_inv, of "\<lambda>tx. tx_nonce tx = 0"]
  by (simp add: sample_pool_transactions sample_transfer_def)

end
