(* ===== verification/ConsensusEra.thy ===== *)
theory ConsensusEra
  imports BftSafety
begin

text \<open>
  Round changes and validator eras (\<^verbatim>\<open>src/src/consensus_era.rs\<close>): the signed timeout signal,
  nil votes, the certificate that lets a node leave a round, and the manager that activates new
  validator sets at era boundaries.
\<close>

subsection \<open>Round changes\<close>

definition NIL_BLOCK_HASH :: string where
  "NIL_BLOCK_HASH = ''ieum:nil''"

record round_change_valid_value =
  rcv_block :: block
  rcv_valid_round :: nat
  rcv_prevotes :: "consensus_message list"

record signed_round_change =
  rc_chain_id :: nat
  rc_genesis_commitment :: string
  rc_height :: nat
  rc_round :: nat
  rc_validator_id :: string
  rc_valid_value :: "round_change_valid_value option"
  rc_signature :: string

definition push_round_change_text :: "string \<Rightarrow> u8 list" where
  "push_round_change_text v = be_bytes 8 (length v) @ as_bytes v"

text \<open>The last argument is ignored, as in the code: the carried value is not signed.\<close>

definition bytes_to_sign ::
  "nat \<Rightarrow> string \<Rightarrow> nat \<Rightarrow> nat \<Rightarrow> string \<Rightarrow> round_change_valid_value option \<Rightarrow> u8 list" where
  "bytes_to_sign chain_id genesis_commitment height round validator_id carried =
     as_bytes ''IEUM-ROUND-CHANGE-V1'' @ be_bytes 8 chain_id
     @ push_round_change_text genesis_commitment @ be_bytes 8 height @ be_bytes 4 round
     @ push_round_change_text validator_id"

definition round_change_with_valid_value ::
  "ext \<Rightarrow> nat \<Rightarrow> string \<Rightarrow> nat \<Rightarrow> nat \<Rightarrow> wallet \<Rightarrow> round_change_valid_value option \<Rightarrow> signed_round_change" where
  "round_change_with_valid_value E chain_id genesis_commitment height round w carried =
     (let validator_id = wallet_address E w in
      \<lparr>rc_chain_id = chain_id, rc_genesis_commitment = genesis_commitment, rc_height = height,
       rc_round = round, rc_validator_id = validator_id, rc_valid_value = carried,
       rc_signature = wallet_sign_bytes E w
         (bytes_to_sign chain_id genesis_commitment height round validator_id carried)\<rparr>)"

definition round_change_new :: "ext \<Rightarrow> nat \<Rightarrow> string \<Rightarrow> nat \<Rightarrow> nat \<Rightarrow> wallet \<Rightarrow> signed_round_change" where
  "round_change_new E chain_id genesis_commitment height round w =
     (let validator_id = wallet_address E w in
      \<lparr>rc_chain_id = chain_id, rc_genesis_commitment = genesis_commitment, rc_height = height,
       rc_round = round, rc_validator_id = validator_id, rc_valid_value = None,
       rc_signature = wallet_sign_bytes E w
         (bytes_to_sign chain_id genesis_commitment height round validator_id None)\<rparr>)"

definition round_change_verify :: "ext \<Rightarrow> signed_round_change \<Rightarrow> unit result" where
  "round_change_verify E m =
     verify_signature E (rc_validator_id m)
       (bytes_to_sign (rc_chain_id m) (rc_genesis_commitment m) (rc_height m) (rc_round m)
         (rc_validator_id m) (rc_valid_value m)) (rc_signature m)"

definition round_change_from_signature_with_valid_value ::
  "ext \<Rightarrow> nat \<Rightarrow> string \<Rightarrow> nat \<Rightarrow> nat \<Rightarrow> string \<Rightarrow> round_change_valid_value option \<Rightarrow> string
   \<Rightarrow> signed_round_change result" where
  "round_change_from_signature_with_valid_value E chain_id genesis_commitment height round validator_id
     carried signature =
     (let message = \<lparr>rc_chain_id = chain_id, rc_genesis_commitment = genesis_commitment,
        rc_height = height, rc_round = round, rc_validator_id = validator_id,
        rc_valid_value = carried, rc_signature = signature\<rparr>
      in rbind (round_change_verify E message) (\<lambda>_. Ok message))"

definition round_change_from_signature ::
  "ext \<Rightarrow> nat \<Rightarrow> string \<Rightarrow> nat \<Rightarrow> nat \<Rightarrow> string \<Rightarrow> string \<Rightarrow> signed_round_change result" where
  "round_change_from_signature E chain_id genesis_commitment height round validator_id signature =
     (let message = \<lparr>rc_chain_id = chain_id, rc_genesis_commitment = genesis_commitment,
        rc_height = height, rc_round = round, rc_validator_id = validator_id,
        rc_valid_value = None, rc_signature = signature\<rparr>
      in rbind (round_change_verify E message) (\<lambda>_. Ok message))"

subsection \<open>Nil votes and the round-change certificate\<close>

record nil_vote =
  nv_message :: consensus_message

definition nil_prevote :: "ext \<Rightarrow> nat \<Rightarrow> nat \<Rightarrow> wallet \<Rightarrow> nil_vote" where
  "nil_prevote E height round w = \<lparr>nv_message = message_signed E height round w Prevote NIL_BLOCK_HASH\<rparr>"

definition nil_precommit :: "ext \<Rightarrow> nat \<Rightarrow> nat \<Rightarrow> wallet \<Rightarrow> nil_vote" where
  "nil_precommit E height round w = \<lparr>nv_message = message_signed E height round w Precommit NIL_BLOCK_HASH\<rparr>"

definition nil_vote_verify :: "ext \<Rightarrow> nil_vote \<Rightarrow> unit result" where
  "nil_vote_verify E v =
     (if msg_block_hash (nv_message v) \<noteq> NIL_BLOCK_HASH then Err (EConsensus NotNil)
      else message_verify E (nv_message v))"

record round_change_certificate =
  rcc_height :: nat
  rcc_from_round :: nat
  rcc_votes :: "consensus_message list"

definition round_change_vote ::
  "ext \<Rightarrow> round_change_certificate \<Rightarrow> (string, nat) hmap \<Rightarrow> consensus_message
   \<Rightarrow> string list \<times> nat \<Rightarrow> (string list \<times> nat) result" where
  "round_change_vote E c powers vote = (\<lambda>(voters, signed).
     if msg_height vote \<noteq> rcc_height c \<or> msg_round vote \<noteq> rcc_from_round c
       \<or> msg_vote_type vote \<noteq> Precommit \<or> msg_block_hash vote \<noteq> NIL_BLOCK_HASH
     then Err (EConsensus MixedRoundChange) else
     rbind (message_verify E vote) (\<lambda>_.
     rbind (ok_or (hm_get powers (msg_validator_id vote)) (EConsensus UnknownRoundChanger)) (\<lambda>power.
     if msg_validator_id vote \<in> set voters then Ok (voters, signed) else
     rbind (ok_or (checked_add 128 signed power) (EConsensus RoundChangePowerOverflow)) (\<lambda>signed'.
     Ok (msg_validator_id vote # voters, signed')))))"

definition round_change_certificate_verify ::
  "ext \<Rightarrow> round_change_certificate \<Rightarrow> validator list \<Rightarrow> unit result" where
  "round_change_certificate_verify E c validators =
     (let total_power = wrapping_sum 128 (map val_voting_power validators) in
      if total_power = 0 then Err (EConsensus RoundChangeZeroPower) else
      let powers = validator_powers validators in
      rbind (for_each (round_change_vote E c powers) (rcc_votes c) ([], 0)) (\<lambda>(voters, signed).
      if wrapping_mul 128 signed 3 \<le> wrapping_mul 128 total_power 2
      then Err (EConsensus NoRoundChangeQuorum) else Ok ()))"

subsection \<open>Eras\<close>

record era_config =
  era_length :: nat
  activation_delay :: nat

definition era_config_default :: era_config where
  "era_config_default = \<lparr>era_length = 10000, activation_delay = 100\<rparr>"

record validator_set_update =
  vsu_requested_height :: nat
  vsu_activation_height :: nat
  vsu_validators :: "validator list"

record era_manager =
  em_config :: era_config
  em_active :: "validator list"
  em_pending :: "(nat \<times> validator_set_update) list"

fun any_bad_validator :: "validator list \<Rightarrow> string list \<Rightarrow> bool" where
  "any_bad_validator [] ids = False"
| "any_bad_validator (v # vs) ids =
     (val_voting_power v = 0 \<or> val_id v \<in> set ids \<or> any_bad_validator vs (val_id v # ids))"

definition validate_set :: "validator list \<Rightarrow> unit result" where
  "validate_set validators =
     (if length validators < 4 then Err (EConsensus TooSmallSet)
      else if any_bad_validator validators [] then Err (EConsensus BadValidator)
      else Ok ())"

definition era_manager_new :: "era_config \<Rightarrow> validator list \<Rightarrow> era_manager result" where
  "era_manager_new config validators =
     rbind (validate_set validators) (\<lambda>_.
     if era_length config = 0 \<or> activation_delay config = 0 then Err (EConsensus BadEraConfig)
     else Ok \<lparr>em_config = config, em_active = validators, em_pending = []\<rparr>)"

definition era_at :: "era_manager \<Rightarrow> nat \<Rightarrow> nat" where
  "era_at m height = height div era_length (em_config m)"

definition activation_height :: "era_config \<Rightarrow> nat \<Rightarrow> nat" where
  "activation_height config earliest =
     saturating_mul 64 (div_ceil earliest (era_length config)) (era_length config)"

definition era_schedule :: "era_manager \<Rightarrow> nat \<Rightarrow> validator list \<Rightarrow> (nat \<times> era_manager) result" where
  "era_schedule m requested_height validators =
     rbind (validate_set validators) (\<lambda>_.
     rbind (ok_or (checked_add 64 requested_height (activation_delay (em_config m)))
        (EConsensus ActivationOverflow)) (\<lambda>earliest.
     let activation = activation_height (em_config m) earliest in
     Ok (activation, m\<lparr>em_pending := bt_insert activation
       \<lparr>vsu_requested_height = requested_height, vsu_activation_height = activation,
        vsu_validators = validators\<rparr> (em_pending m)\<rparr>)))"

definition apply_height :: "era_manager \<Rightarrow> nat \<Rightarrow> validator_set_update option \<times> era_manager" where
  "apply_height m height =
     (case find (\<lambda>k. k \<le> height) (map fst (em_pending m)) of
        None \<Rightarrow> (None, m)
      | Some activation \<Rightarrow>
          (case map_of (em_pending m) activation of
             None \<Rightarrow> (None, m)
           | Some update \<Rightarrow>
               (Some update, m\<lparr>em_pending := AList.delete activation (em_pending m),
                               em_active := vsu_validators update\<rparr>)))"

subsection \<open>A round is left or finalized\<close>

abbreviation rc_good_vote :: "ext \<Rightarrow> round_change_certificate \<Rightarrow> consensus_message \<Rightarrow> bool" where
  "rc_good_vote E c \<equiv> good_vote E (rcc_height c) (rcc_from_round c) Precommit NIL_BLOCK_HASH"

lemma round_change_vote_Ok:
  "round_change_vote E c powers vote (vs, p) = Ok (vs', p') \<longleftrightarrow>
     rc_good_vote E c vote \<and> hm_get powers (msg_validator_id vote) \<noteq> None \<and>
     (if msg_validator_id vote \<in> set vs then vs' = vs \<and> p' = p
      else vs' = msg_validator_id vote # vs \<and> p' = p + hm_get0 powers (msg_validator_id vote)
        \<and> p' < 2 ^ 128)"
  by (cases "message_verify E vote"; cases "hm_get powers (msg_validator_id vote)")
    (auto simp: round_change_vote_def good_vote_def hm_get0_def checked_add_def)

interpretation rcv: vote_tally "round_change_vote E c" msg_validator_id "rc_good_vote E c" for E c
  by unfold_locales (rule round_change_vote_Ok)

lemma round_change_verify_iff:
  assumes "3 * total_voting_power validators < 2 ^ 128"
  shows "round_change_certificate_verify E c validators = Ok () \<longleftrightarrow>
    (\<forall>v \<in> set (rcc_votes c). rc_good_vote E c v) \<and> power_quorum validators (signers (rcc_votes c))"
  unfolding signers_def rcv.tally_iff [OF assms, symmetric] round_change_certificate_verify_def Let_def
  by (auto simp: case_prod_beta)

text \<open>
  C32.  A round is left or finalized, not both.  If a round-change certificate and a finality
  certificate for the same height and round are both accepted, validators with more than a third
  of the power signed a nil precommit and a precommit for the block, and these two votes are
  double-vote evidence that verifies.
\<close>

theorem round_change_excludes_finality:
  assumes "3 * total_voting_power validators < 2 ^ 128"
    and "round_change_certificate_verify E r validators = Ok ()" and "certificate_verify E c validators = Ok ()"
    and "rcc_height r = blk_height (cert_block c)" and "rcc_from_round r = cert_round c"
    and "blk_hash (cert_block c) \<noteq> NIL_BLOCK_HASH"
  shows "\<exists>D. D \<subseteq> val_id ` set validators \<and> total_voting_power validators < 3 * signed_power validators D
    \<and> (\<forall>v \<in> D. \<exists>m \<in> set (rcc_votes r). \<exists>m' \<in> set (cert_precommits c).
        msg_validator_id m = v \<and> evidence_verify E \<lparr>evd_first = m, evd_second = m'\<rparr> = Ok ())"
proof (intro exI conjI ballI)
  let ?R = "signers (rcc_votes r)" and ?C = "signers (cert_precommits c)" and ?V = "val_id ` set validators"
  note r = assms(2) [unfolded round_change_verify_iff [OF assms(1)]]
    and c = assms(3) [unfolded certificate_verify_iff [OF assms(1)]]
  show "?R \<inter> ?C \<inter> ?V \<subseteq> ?V" by blast
  show "total_voting_power validators < 3 * signed_power validators (?R \<inter> ?C \<inter> ?V)"
    using cq.overlap [of validators ?R ?C] r c by (simp add: signed_power_def)
  fix v assume "v \<in> ?R \<inter> ?C \<inter> ?V"
  then obtain m m' where m: "m \<in> set (rcc_votes r)" "m' \<in> set (cert_precommits c)"
    and id: "msg_validator_id m = v" "msg_validator_id m' = v" by (auto simp: signers_def)
  have "rc_good_vote E r m" and "cert_good_vote E c m'" using m r c by blast+
  then have "evidence_verify E \<lparr>evd_first = m, evd_second = m'\<rparr> = Ok ()"
    using good_votes_conflict [of E _ _ Precommit NIL_BLOCK_HASH m "blk_hash (cert_block c)" m'] assms(4-6) id by simp
  with m id show "\<exists>m \<in> set (rcc_votes r). \<exists>m' \<in> set (cert_precommits c).
      msg_validator_id m = v \<and> evidence_verify E \<lparr>evd_first = m, evd_second = m'\<rparr> = Ok ()" by blast
qed

lemma length_toy_hex: "length (toy_hex_encode bs) = 2 * length bs"
  by (induction bs) auto

definition sample_round_change :: round_change_certificate where
  "sample_round_change = \<lparr>rcc_height = 0, rcc_from_round = 0,
     rcc_votes = [message_signed toy_ext 0 0 sample_wallet Precommit NIL_BLOCK_HASH]\<rparr>"

lemma sample_round_change_ok:
  "round_change_certificate_verify toy_ext sample_round_change sample_validators = Ok ()"
proof -
  have small: "3 * total_voting_power sample_validators < 2 ^ 128" by (simp add: sample_total)
  have "power_quorum sample_validators (signers (cert_precommits (sample_certificate 0)))"
    using sample_certificate_ok [of 0] unfolding certificate_verify_iff [OF small] by blast
  moreover have "signers (cert_precommits (sample_certificate 0)) = signers (rcc_votes sample_round_change)"
    by (simp add: signers_def sample_certificate_def sample_round_change_def message_signed_def Let_def)
  ultimately show ?thesis
    using message_signed_verify [OF hex_laws_toy ed25519_laws_toy, of sample_wallet]
    unfolding round_change_verify_iff [OF small]
    by (simp add: sample_round_change_def good_vote_def sample_wallet_def message_signed_def Let_def)
qed

theorem round_change_excludes_finality_witness:
  "\<exists>D. D \<subseteq> val_id ` set sample_validators \<and> 1 < 3 * signed_power sample_validators D
    \<and> (\<forall>v \<in> D. \<exists>m \<in> set (rcc_votes sample_round_change). \<exists>m' \<in> set (cert_precommits (sample_certificate 0)).
        msg_validator_id m = v \<and> evidence_verify toy_ext \<lparr>evd_first = m, evd_second = m'\<rparr> = Ok ())"
proof -
  have small: "3 * total_voting_power sample_validators < 2 ^ 128" by (simp add: sample_total)
  have "length (calculate_hash toy_ext b) = 64" for b
    by (simp add: calculate_hash_def toy_ext_def toy_hash_def length_toy_hex del: toy_hex_encode.simps)
  then have "length (blk_hash (cert_block (sample_certificate 0))) = 64"
    using sample_certificate_ok [of 0] unfolding certificate_verify_iff [OF small] by metis
  then have "blk_hash (cert_block (sample_certificate 0)) \<noteq> NIL_BLOCK_HASH" by (auto simp: NIL_BLOCK_HASH_def)
  from round_change_excludes_finality [OF small sample_round_change_ok sample_certificate_ok _ _ this]
  show ?thesis by (simp add: sample_certificate_fields sample_round_change_def sample_total)
qed

subsection \<open>Activation of validator sets\<close>

lemma any_bad_validator_iff:
  "\<not> any_bad_validator vs ids \<longleftrightarrow>
     (\<forall>v \<in> set vs. 0 < val_voting_power v) \<and> distinct (map val_id vs) \<and> val_id ` set vs \<inter> set ids = {}"
  by (induction vs arbitrary: ids) auto

definition good_set :: "validator list \<Rightarrow> bool" where
  "good_set vs \<longleftrightarrow> 4 \<le> length vs \<and> (\<forall>v \<in> set vs. 0 < val_voting_power v) \<and> distinct (map val_id vs)"

lemma validate_set_Ok [simp]: "validate_set vs = Ok u \<longleftrightarrow> good_set vs"
  using any_bad_validator_iff [of vs "[]"] by (auto simp: validate_set_def good_set_def)

text \<open>A validated set is one the consensus state machine starts with.\<close>

lemma bft_add_validators_accept:
  "\<forall>v \<in> set vs. 0 < val_voting_power v \<Longrightarrow> distinct (map val_id vs) \<Longrightarrow> val_id ` set vs \<inter> fst ` set m = {}
   \<Longrightarrow> \<exists>m'. for_each bft_add_validator vs m = Ok m'"
proof (induction vs arbitrary: m)
  case (Cons v vs)
  have "hm_get m (val_id v) = None" using Cons.prems(3) hm_get_dom [of m "val_id v"] by auto
  then have step: "bft_add_validator v m = Ok (hm_insert m (val_id v) (val_voting_power v))"
    using Cons.prems(1) by (simp add: bft_add_validator_def hm_contains_def)
  have "\<exists>m'. for_each bft_add_validator vs (hm_insert m (val_id v) (val_voting_power v)) = Ok m'"
    using Cons.prems by (intro Cons.IH) auto
  with step show ?case by simp
qed simp

lemma good_set_bft: "good_set vs \<Longrightarrow> \<exists>s. bft_new vs = Ok s"
  using bft_add_validators_accept [of vs "[]"] by (auto simp: good_set_def bft_new_def)

text \<open>
  A node calls \<^verbatim>\<open>apply_height\<close> for every new height and schedules sets requested at the current
  height or later.
\<close>

inductive era_step :: "nat \<times> era_manager \<Rightarrow> nat \<times> era_manager \<Rightarrow> bool" where
  tick: "Suc h < 2 ^ 64 \<Longrightarrow> era_step (h, m) (Suc h, snd (apply_height m (Suc h)))"
| schedule: "h \<le> requested \<Longrightarrow> era_schedule m requested vs = Ok (a, m') \<Longrightarrow> era_step (h, m) (h, m')"

definition era_inv :: "nat \<times> era_manager \<Rightarrow> bool" where
  "era_inv = (\<lambda>(h, m). 0 < era_length (em_config m) \<and> 0 < activation_delay (em_config m)
     \<and> good_set (em_active m) \<and> bt_sorted (em_pending m)
     \<and> (\<forall>(k, u) \<in> set (em_pending m). h < k \<and> vsu_activation_height u = k
        \<and> vsu_requested_height u + activation_delay (em_config m) \<le> k
        \<and> (k < 2 ^ 64 - 1 \<longrightarrow> era_length (em_config m) dvd k) \<and> good_set (vsu_validators u)))"

lemma div_ceil_bounds:
  assumes "0 < b"
  shows "a \<le> div_ceil a b * b" and "div_ceil a b * b < a + b"
proof -
  have a: "a = a div b * b + a mod b" by simp
  have r: "a mod b < b" using assms by simp
  have "div_ceil a b * b = a div b * b + (if a mod b > 0 then b else 0)"
    by (simp add: div_ceil_def)
  then have "div_ceil a b * b = a div b * b + b \<and> 0 < a mod b \<or> div_ceil a b * b = a div b * b \<and> a mod b = 0"
    by simp
  with a r assms show "a \<le> div_ceil a b * b" and "div_ceil a b * b < a + b" by linarith+
qed

lemma activation_height_bounds:
  assumes "0 < era_length c" and "earliest < 2 ^ 64"
  shows "earliest \<le> activation_height c earliest" and "activation_height c earliest < earliest + era_length c"
    and "activation_height c earliest < 2 ^ 64 - 1 \<Longrightarrow> era_length c dvd activation_height c earliest"
  using div_ceil_bounds [OF assms(1), of earliest] assms(2)
  unfolding activation_height_def saturating_mul_def min_def by (auto split: if_splits simp del: power_numeral)

lemma era_schedule_Ok:
  assumes "era_schedule m requested vs = Ok (a, m')"
  shows "good_set vs \<and> requested + activation_delay (em_config m) < 2 ^ 64
    \<and> a = activation_height (em_config m) (requested + activation_delay (em_config m))
    \<and> m' = m\<lparr>em_pending := bt_insert a \<lparr>vsu_requested_height = requested, vsu_activation_height = a,
        vsu_validators = vs\<rparr> (em_pending m)\<rparr>"
  using assms by (auto simp: era_schedule_def Let_def)

lemma apply_height_next:
  assumes "\<forall>k \<in> fst ` set (em_pending m). h < k"
  shows "fst (apply_height m (Suc h)) = map_of (em_pending m) (Suc h)"
    and "snd (apply_height m (Suc h)) = m\<lparr>em_pending := AList.delete (Suc h) (em_pending m),
      em_active := (case map_of (em_pending m) (Suc h) of None \<Rightarrow> em_active m | Some u \<Rightarrow> vsu_validators u)\<rparr>"
proof -
  let ?keys = "map fst (em_pending m)"
  have due: "k \<le> Suc h \<longleftrightarrow> k = Suc h" if "k \<in> set ?keys" for k using that assms by (auto simp: le_Suc_eq)
  have "find (\<lambda>k. k \<le> Suc h) ?keys = (if Suc h \<in> set ?keys then Some (Suc h) else None)"
  proof (cases "find (\<lambda>k. k \<le> Suc h) ?keys")
    case None
    then show ?thesis using due by (auto simp: find_None_iff)
  next
    case (Some k)
    from find_Some_in [OF Some] have "k \<in> set ?keys" and "k = Suc h" using due by blast+
    with Some show ?thesis by simp
  qed
  note due_now = this
  show "fst (apply_height m (Suc h)) = map_of (em_pending m) (Suc h)"
  proof (cases "map_of (em_pending m) (Suc h)")
    case None
    then have "Suc h \<notin> set ?keys" by (simp add: map_of_eq_None_iff)
    with None due_now show ?thesis by (simp add: apply_height_def)
  next
    case (Some u)
    then have "Suc h \<in> set ?keys" by (force dest: map_of_SomeD)
    with Some due_now show ?thesis by (simp add: apply_height_def)
  qed
  show "snd (apply_height m (Suc h)) = m\<lparr>em_pending := AList.delete (Suc h) (em_pending m),
      em_active := (case map_of (em_pending m) (Suc h) of None \<Rightarrow> em_active m | Some u \<Rightarrow> vsu_validators u)\<rparr>"
  proof (cases "map_of (em_pending m) (Suc h)")
    case None
    then have new: "Suc h \<notin> set ?keys" by (simp add: map_of_eq_None_iff)
    then have "AList.delete (Suc h) (em_pending m) = em_pending m" by (simp add: delete_id)
    with None new due_now show ?thesis by (simp add: apply_height_def)
  next
    case (Some u)
    then have "Suc h \<in> set ?keys" by (force dest: map_of_SomeD)
    with Some due_now show ?thesis by (simp add: apply_height_def)
  qed
qed

lemma bt_sorted_delete: "bt_sorted m \<Longrightarrow> bt_sorted (AList.delete k m)"
  by (induction m) (auto simp: AList.delete_eq)

lemma bt_insert_set: "set (bt_insert k v m) \<subseteq> insert (k, v) (set m)"
proof -
  have "set (bt_entry k v (\<lambda>_. v) m) \<subseteq> insert (k, v) (set m)" 
    by (induction m) (auto split: if_splits)
  then show ?thesis by (simp add: bt_insert_def)
qed

lemma era_tick_inv: "era_inv (h, m) \<Longrightarrow> era_inv (Suc h, snd (apply_height m (Suc h)))"
proof -
  assume inv: "era_inv (h, m)"
  then have keys: "\<forall>k \<in> fst ` set (em_pending m). h < k" by (auto simp: era_inv_def)
  have later: "Suc h < k" if "(k, u) \<in> set (AList.delete (Suc h) (em_pending m))" for k u
    using that keys by (force simp: AList.delete_eq)
  have sub: "set (AList.delete (Suc h) (em_pending m)) \<subseteq> set (em_pending m)" by (auto simp: AList.delete_eq)
  have "good_set (case map_of (em_pending m) (Suc h) of None \<Rightarrow> em_active m | Some u \<Rightarrow> vsu_validators u)"
    using inv by (fastforce simp: era_inv_def split: option.splits dest: map_of_SomeD)
  with inv later sub show ?thesis
    unfolding apply_height_next(2) [OF keys] by (fastforce simp: era_inv_def bt_sorted_delete)
qed

lemma era_schedule_inv:
  assumes "era_inv (h, m)" and "h \<le> requested" and "era_schedule m requested vs = Ok (a, m')"
  shows "era_inv (h, m')"
proof -
  let ?c = "em_config m"
  from era_schedule_Ok [OF assms(3)] have s: "good_set vs" "requested + activation_delay ?c < 2 ^ 64"
    "a = activation_height ?c (requested + activation_delay ?c)"
    "m' = m\<lparr>em_pending := bt_insert a \<lparr>vsu_requested_height = requested, vsu_activation_height = a,
        vsu_validators = vs\<rparr> (em_pending m)\<rparr>" by auto
  have pos: "0 < era_length ?c" "0 < activation_delay ?c" using assms(1) by (auto simp: era_inv_def)
  note a = activation_height_bounds [OF pos(1) s(2), folded s(3)]
  have "h < a" using a(1) assms(2) pos(2) by linarith
  moreover have "bt_sorted (em_pending m')"
    using assms(1) by (simp add: era_inv_def s(4) bt_insert_def bt_entry_sorted)
  ultimately show ?thesis
    using assms(1) a(1,3) s(1) bt_insert_set [of a _ "em_pending m"]
    unfolding s(4) era_inv_def by fastforce
qed

interpretation era: safety "\<lambda>(h, m). h = 0 \<and> (\<exists>config vs. era_manager_new config vs = Ok m)" era_step era_inv
proof
  show "era_inv s" if "case s of (h, m) \<Rightarrow> h = 0 \<and> (\<exists>config vs. era_manager_new config vs = Ok m)" for s
    using that by (auto simp: era_manager_new_def era_inv_def split: if_splits)
  show "era_inv t" if "era_inv s" "era_step s t" for s t
    using that(2,1) by cases (auto intro: era_tick_inv era_schedule_inv)
qed

text \<open>Runs that remember the activation heights of the requests made on the way.\<close>

inductive era_run :: "nat \<times> era_manager \<Rightarrow> nat list \<Rightarrow> nat \<times> era_manager \<Rightarrow> bool" for s where
  stay: "era_run s [] s"
| advance: "era_run s asked (h, m) \<Longrightarrow> Suc h < 2 ^ 64 \<Longrightarrow> era_run s asked (Suc h, snd (apply_height m (Suc h)))"
| request: "era_run s asked (h, m) \<Longrightarrow> h \<le> requested \<Longrightarrow> era_schedule m requested vs = Ok (a, m')
     \<Longrightarrow> era_run s (asked @ [a]) (h, m')"

lemma map_of_bt_insert [simp]: "map_of (bt_insert k v m) j = (if j = k then Some v else map_of m j)"
proof -
  have "map_of (bt_entry k v (\<lambda>_. v) m) j = (if j = k then Some v else map_of m j)" by (induction m) auto
  then show ?thesis by (simp add: bt_insert_def)
qed

lemma era_run_steps: "era_run s asked t \<Longrightarrow> era_step\<^sup>*\<^sup>* s t"
  by (induction rule: era_run.induct) (blast intro: era_step.intros rtranclp.rtrancl_into_rtrancl)+

lemma era_pending_after: "era_inv (h, m) \<Longrightarrow> k \<in> fst ` set (em_pending m) \<Longrightarrow> h < k"
  by (auto simp: era_inv_def)

text \<open>An update is kept until its height and then becomes active, unless another request for that height replaces it.\<close>

lemma era_run_keeps:
  assumes "era_run s asked t" and "era_inv s" and "map_of (em_pending (snd s)) a = Some u" and "a \<notin> set asked"
  shows "(fst t < a \<longrightarrow> map_of (em_pending (snd t)) a = Some u) \<and> (fst t = a \<longrightarrow> em_active (snd t) = vsu_validators u)"
  using assms
proof (induction rule: era_run.induct)
  case stay
  then have "fst s < a" using era_pending_after [of "fst s" "snd s" a] by (force dest: map_of_SomeD)
  with stay show ?case by simp
next
  case (advance asked h m)
  have "era_inv (h, m)" using era.inv_steps [OF era_run_steps [OF advance.hyps(1)] advance.prems(1)] .
  then have keys: "\<forall>k \<in> fst ` set (em_pending m). h < k" using era_pending_after by blast
  show ?case using advance.IH [OF advance.prems] unfolding apply_height_next(2) [OF keys]
    by (auto simp: delete_conv)
next
  case (request asked h m requested vs b m')
  then have other: "a \<noteq> b" by simp
  from era_schedule_Ok [OF request.hyps(3)] obtain u' where m': "m' = m\<lparr>em_pending := bt_insert b u' (em_pending m)\<rparr>" by auto
  with request other show ?case by simp
qed

text \<open>
  C33.  Validator sets change on time, when a node calls \<^verbatim>\<open>apply_height\<close> once at every height and no
  request is back-dated (\<open>era_step\<close>, \<open>era_run\<close>).  Moving to the next height returns exactly the update
  scheduled for it, makes it active, and changes no other pending update.  A request that is
  accepted waits at least the activation delay and for an era boundary; until the height it
  returned it stays pending, and there it is the active set, whatever is requested meanwhile for
  other heights (a request for the same height replaces it).  The active set is always one the
  state machine accepts.
\<close>

theorem era_on_time:
  assumes "era_manager_new config vs = Ok m0" and "era_step\<^sup>*\<^sup>* (0, m0) (h, m)"
  shows "fst (apply_height m (Suc h)) = map_of (em_pending m) (Suc h)
    \<and> snd (apply_height m (Suc h)) = m\<lparr>em_pending := AList.delete (Suc h) (em_pending m),
        em_active := (case map_of (em_pending m) (Suc h) of None \<Rightarrow> em_active m | Some u \<Rightarrow> vsu_validators u)\<rparr>
    \<and> (\<exists>s. bft_new (em_active m) = Ok s)
    \<and> (\<forall>k u. map_of (em_pending m) k = Some u \<longrightarrow> h < k
        \<and> vsu_requested_height u + activation_delay (em_config m) \<le> k
        \<and> (k < 2 ^ 64 - 1 \<longrightarrow> era_length (em_config m) dvd k))
    \<and> (\<forall>requested new a m1 asked h' m'. h \<le> requested \<and> era_schedule m requested new = Ok (a, m1)
        \<and> era_run (h, m1) asked (h', m') \<and> a \<notin> set asked \<longrightarrow>
        requested + activation_delay (em_config m) \<le> a
        \<and> (h' < a \<longrightarrow> map_of (em_pending m') a
            = Some \<lparr>vsu_requested_height = requested, vsu_activation_height = a, vsu_validators = new\<rparr>)
        \<and> (h' = a \<longrightarrow> em_active m' = new))"
proof -
  have inv: "era_inv (h, m)" using era.inv_reachable [OF _ assms(2)] assms(1) by auto
  then have keys: "\<forall>k \<in> fst ` set (em_pending m). h < k" using era_pending_after by blast
  have pend: "h < k \<and> vsu_requested_height u + activation_delay (em_config m) \<le> k
      \<and> (k < 2 ^ 64 - 1 \<longrightarrow> era_length (em_config m) dvd k)" if "map_of (em_pending m) k = Some u" for k u
    using inv map_of_SomeD [OF that] unfolding era_inv_def by fast
  have accepted: "\<exists>s. bft_new (em_active m) = Ok s" using inv good_set_bft by (simp add: era_inv_def)
  have served: "requested + activation_delay (em_config m) \<le> a
      \<and> (h' < a \<longrightarrow> map_of (em_pending m') a
          = Some \<lparr>vsu_requested_height = requested, vsu_activation_height = a, vsu_validators = new\<rparr>)
      \<and> (h' = a \<longrightarrow> em_active m' = new)"
    if ask: "h \<le> requested" "era_schedule m requested new = Ok (a, m1)" and run: "era_run (h, m1) asked (h', m')" "a \<notin> set asked"
    for requested new a m1 asked h' m'
  proof -
    let ?u = "\<lparr>vsu_requested_height = requested, vsu_activation_height = a, vsu_validators = new\<rparr>"
    from era_schedule_Ok [OF ask(2)] have m1: "em_pending m1 = bt_insert a ?u (em_pending m)" "em_config m1 = em_config m" by auto
    have inv1: "era_inv (h, m1)" using inv ask by (rule era_schedule_inv)
    have here: "map_of (em_pending m1) a = Some ?u" by (simp add: m1)
    have "requested + activation_delay (em_config m) \<le> a"
      using inv1 map_of_SomeD [OF here] unfolding era_inv_def m1(2) [symmetric] by force
    with era_run_keeps [OF run(1) inv1, of a ?u] here run(2) show ?thesis by simp
  qed
  show ?thesis by (intro conjI allI impI; (elim conjE)?) (fact apply_height_next [OF keys] accepted | blast dest: pend | blast dest: served)+
qed

definition sample_set :: "validator list" where
  "sample_set = map (\<lambda>i. \<lparr>val_id = i, val_voting_power = 1\<rparr>) [''a'', ''b'', ''c'', ''d'']"

definition sample_era :: era_manager where
  "sample_era = \<lparr>em_config = \<lparr>era_length = 1, activation_delay = 1\<rparr>, em_active = sample_set,
     em_pending = [(1, \<lparr>vsu_requested_height = 0, vsu_activation_height = 1, vsu_validators = sample_set\<rparr>)]\<rparr>"

text \<open>Two updates wait; the second one outlives the activation of the first.\<close>

definition other_set :: "validator list" where
  "other_set = map (\<lambda>i. \<lparr>val_id = i, val_voting_power = 2\<rparr>) [''a'', ''b'', ''c'', ''e'']"

definition sample_era2 :: era_manager where
  "sample_era2 = sample_era\<lparr>em_pending := em_pending sample_era
     @ [(2, \<lparr>vsu_requested_height = 1, vsu_activation_height = 2, vsu_validators = other_set\<rparr>)]\<rparr>"

theorem era_on_time_witness:
  "em_active (snd (apply_height (snd (apply_height sample_era2 1)) 2)) = other_set"
proof -
  let ?m0 = "sample_era\<lparr>em_pending := []\<rparr>"
  have good: "good_set sample_set" "good_set other_set" by (simp_all add: good_set_def sample_set_def other_set_def)
  have start: "era_manager_new \<lparr>era_length = 1, activation_delay = 1\<rparr> sample_set = Ok ?m0"
    using good by (simp add: era_manager_new_def sample_era_def)
  have "era_schedule ?m0 0 sample_set = Ok (1, sample_era)"
    using good by (simp add: era_schedule_def sample_era_def checked_add_def activation_height_def
        saturating_mul_def div_ceil_def bt_insert_def)
  then have first: "era_step\<^sup>*\<^sup>* (0, ?m0) (0, sample_era)" by (intro r_into_rtranclp era_step.schedule) auto
  have second: "era_schedule sample_era 1 other_set = Ok (2, sample_era2)"
    using good by (simp add: era_schedule_def sample_era2_def sample_era_def checked_add_def activation_height_def
        saturating_mul_def div_ceil_def bt_insert_def)
  have "era_run (0, sample_era2) [] (Suc (Suc 0), snd (apply_height (snd (apply_height sample_era2 (Suc 0))) (Suc (Suc 0))))"
    by (intro era_run.intros) simp_all
  then show ?thesis
    using second era_on_time [OF start first, THEN conjunct2, THEN conjunct2, THEN conjunct2, THEN conjunct2, rule_format,
      of 1 other_set 2 sample_era2 "[]" 2] by (simp add: numeral_2_eq_2)
qed

end
