(* ===== verification/ValidatorPolicy.thy ===== *)
theory ValidatorPolicy
  imports ConsensusEra
begin

text \<open>
  The selection of validators from registered candidates (\<^verbatim>\<open>src/src/validator_policy.rs\<close>): the
  policy, the checks of a candidate, eligibility by stake, by rank within a country or by
  approval, and the ordered, truncated result with its voting powers.
\<close>

subsection \<open>Candidates, the policy and the selection\<close>

record validator_candidate =
  vc_validator_id :: string
  vc_stake_account :: string
  vc_delegated_stake :: nat
  vc_country_code :: "string option"
  vc_identity_country_verified :: bool
  vc_ownership_proof_verified :: bool
  vc_node_endpoint :: "string option"
  vc_observed_epochs :: nat
  vc_uptime_bps :: nat
  vc_administrator_approved :: bool
  vc_blocked :: bool

record validator_policy =
  vp_min_stake_bps :: nat
  vp_country_rank_limit :: nat
  vp_max_validators :: nat
  vp_min_validators :: nat
  vp_min_uptime_bps :: nat

definition validator_policy_default :: validator_policy where
  "validator_policy_default = \<lparr>vp_min_stake_bps = 100, vp_country_rank_limit = 50, vp_max_validators = 50,
     vp_min_validators = 4, vp_min_uptime_bps = 9500\<rparr>"

record selected_validator =
  sel_validator :: validator
  sel_stake :: nat

definition POLICY_BPS_DENOMINATOR :: nat where
  "POLICY_BPS_DENOMINATOR = 10000"

definition policy_validate :: "validator_policy \<Rightarrow> unit result" where
  "policy_validate p =
     (if vp_min_stake_bps p = 0 \<or> vp_min_stake_bps p > POLICY_BPS_DENOMINATOR then Err (EPolicy BadStakeBps)
      else if vp_country_rank_limit p = 0 then Err (EPolicy BadRankLimit)
      else if vp_min_validators p < 4 \<or> vp_max_validators p < vp_min_validators p then Err (EPolicy BadValidatorCounts)
      else if vp_min_uptime_bps p > 10000 then Err (EPolicy BadUptimeBps)
      else Ok ())"

definition validate_candidate :: "ext \<Rightarrow> validator_candidate \<Rightarrow> unit result" where
  "validate_candidate E c =
     (if (case hex_decode E (vc_validator_id c) of None \<Rightarrow> True | Some bytes \<Rightarrow> length bytes \<noteq> 32)
      then Err (EPolicy BadValidatorKey) else
      let account = trim_0x (vc_stake_account c) in
      if length account \<noteq> 40 \<or> hex_decode E account = None then Err (EPolicy BadStakeAccount)
      else if vc_identity_country_verified c
        \<and> length (case vc_country_code c of None \<Rightarrow> [] | Some code \<Rightarrow> code) \<noteq> 2 then Err (EPolicy BadCountryCode)
      else if vc_node_endpoint c = Some [] then Err (EPolicy EmptyEndpoint)
      else Ok ())"

definition normalize_account :: "string \<Rightarrow> string" where
  "normalize_account v = ''0x'' @ to_ascii_lowercase (trim_0x v)"

definition policy_voting_power :: "nat \<Rightarrow> nat \<Rightarrow> nat" where
  "policy_voting_power stake circulating_supply =
     (let proportional = max (if circulating_supply = 0 then 0
            else saturating_mul 128 stake 1000000 div circulating_supply) 1
      in min proportional (2 ^ 64 - 1))"

definition candidate_skipped :: "validator_policy \<Rightarrow> validator_candidate \<Rightarrow> bool" where
  "candidate_skipped p c = (vc_blocked c \<or> \<not> vc_ownership_proof_verified c \<or> vc_node_endpoint c = None
     \<or> (vc_observed_epochs c > 0 \<and> vc_uptime_bps c < vp_min_uptime_bps p))"

definition candidate_entry ::
  "validator_policy \<Rightarrow> (string, nat) hmap \<Rightarrow> nat \<Rightarrow> validator_candidate \<Rightarrow> validator_candidate \<times> nat \<times> bool" where
  "candidate_entry p balances circulating_supply c =
     (let stake = saturating_add 128 (hm_get0 balances (normalize_account (vc_stake_account c))) (vc_delegated_stake c)
      in (c, stake, saturating_mul 128 stake POLICY_BPS_DENOMINATOR
            \<ge> saturating_mul 128 circulating_supply (vp_min_stake_bps p)))"

definition policy_candidate ::
  "ext \<Rightarrow> validator_policy \<Rightarrow> (string, nat) hmap \<Rightarrow> nat \<Rightarrow> validator_candidate
   \<Rightarrow> string list \<times> string list \<times> (validator_candidate \<times> nat \<times> bool) list
   \<Rightarrow> (string list \<times> string list \<times> (validator_candidate \<times> nat \<times> bool) list) result" where
  "policy_candidate E p balances circulating_supply c = (\<lambda>(validator_ids, stake_accounts, eligible).
     rbind (validate_candidate E c) (\<lambda>_.
     if vc_validator_id c \<in> set validator_ids then Err (EPolicy DuplicateValidatorKey) else
     let account = normalize_account (vc_stake_account c) in
     if account \<in> set stake_accounts then Err (EPolicy DuplicateStakeAccount) else
     Ok (vc_validator_id c # validator_ids, account # stake_accounts,
         if candidate_skipped p c then eligible
         else eligible @ [candidate_entry p balances circulating_supply c])))"

definition country_groups ::
  "(validator_candidate \<times> nat \<times> bool) list \<Rightarrow> (string, (validator_candidate \<times> nat) list) hmap" where
  "country_groups eligible =
     foldl (\<lambda>m (c, stake, _).
       if vc_identity_country_verified c then
         (case vc_country_code c of
            None \<Rightarrow> m
          | Some country \<Rightarrow>
              hm_insert m country ((case hm_get m country of None \<Rightarrow> [] | Some xs \<Rightarrow> xs) @ [(c, stake)]))
       else m) [] eligible"

definition rank_group :: "(validator_candidate \<times> nat) list \<Rightarrow> (validator_candidate \<times> nat) list" where
  "rank_group members = sort_key (\<lambda>(c, stake). (- int stake, vc_validator_id c)) members"

definition country_ranked :: "validator_policy \<Rightarrow> (validator_candidate \<times> nat \<times> bool) list \<Rightarrow> string set" where
  "country_ranked p eligible =
     \<Union> ((\<lambda>(country, group). set (map (\<lambda>(c, _). vc_validator_id c) (take (vp_country_rank_limit p) (rank_group group))))
        ` set (country_groups eligible))"

definition to_selected :: "nat \<Rightarrow> validator_candidate \<times> nat \<times> bool \<Rightarrow> selected_validator" where
  "to_selected circulating_supply = (\<lambda>(c, stake, _).
     \<lparr>sel_validator = \<lparr>val_id = vc_validator_id c, val_voting_power = policy_voting_power stake circulating_supply\<rparr>,
      sel_stake = stake\<rparr>)"

definition selection_order :: "selected_validator \<Rightarrow> int \<times> string" where
  "selection_order v = (- int (sel_stake v), val_id (sel_validator v))"

definition policy_select ::
  "ext \<Rightarrow> validator_policy \<Rightarrow> validator_candidate list \<Rightarrow> (string, nat) hmap \<Rightarrow> nat \<Rightarrow> selected_validator list result" where
  "policy_select E p candidates balances circulating_supply =
     rbind (policy_validate p) (\<lambda>_.
     if circulating_supply = 0 then Err (EPolicy ZeroCirculation) else
     rbind (for_each (policy_candidate E p balances circulating_supply) candidates ([], [], []))
       (\<lambda>(_, _, eligible).
     let ranked = country_ranked p eligible;
         selected = map (to_selected circulating_supply)
           (filter (\<lambda>(c, _, has_minimum_stake). has_minimum_stake \<or> vc_validator_id c \<in> ranked
              \<or> vc_administrator_approved c) eligible);
         chosen = take (vp_max_validators p) (sort_key selection_order selected)
     in if length chosen < vp_min_validators p
        then Err (EPolicy (TooFewSelected (length chosen) (vp_min_validators p))) else Ok chosen))"

subsection \<open>The candidates considered\<close>

lemma policy_candidate_loop:
  "for_each (policy_candidate E p b s) cs (ids, accs, el) = Ok (ids', accs', el') \<longleftrightarrow>
     (\<forall>c \<in> set cs. validate_candidate E c = Ok ())
     \<and> distinct (map vc_validator_id cs) \<and> vc_validator_id ` set cs \<inter> set ids = {}
     \<and> distinct (map (\<lambda>c. normalize_account (vc_stake_account c)) cs)
     \<and> (\<lambda>c. normalize_account (vc_stake_account c)) ` set cs \<inter> set accs = {}
     \<and> ids' = rev (map vc_validator_id cs) @ ids \<and> accs' = rev (map (\<lambda>c. normalize_account (vc_stake_account c)) cs) @ accs
     \<and> el' = el @ map (candidate_entry p b s) (filter (\<lambda>c. \<not> candidate_skipped p c) cs)"
proof (induction cs arbitrary: ids accs el)
  case (Cons c cs)
  show ?case
  proof (cases "validate_candidate E c = Ok () \<and> vc_validator_id c \<notin> set ids
      \<and> normalize_account (vc_stake_account c) \<notin> set accs")
    case True
    then have step: "policy_candidate E p b s c (ids, accs, el) = Ok (vc_validator_id c # ids,
        normalize_account (vc_stake_account c) # accs,
        if candidate_skipped p c then el else el @ [candidate_entry p b s c])"
      by (simp add: policy_candidate_def Let_def)
    show ?thesis unfolding for_each.simps step rbind.simps Cons.IH using True by auto
  next
    case False
    then have "policy_candidate E p b s c (ids, accs, el) \<noteq> Ok r" for r
      by (cases "validate_candidate E c") (auto simp: policy_candidate_def Let_def)
    then have "for_each (policy_candidate E p b s) (c # cs) (ids, accs, el) \<noteq> Ok (ids', accs', el')" by simp
    with False show ?thesis by auto
  qed
qed auto

definition eligible_entries ::
  "validator_policy \<Rightarrow> (string, nat) hmap \<Rightarrow> nat \<Rightarrow> validator_candidate list \<Rightarrow> (validator_candidate \<times> nat \<times> bool) list" where
  "eligible_entries p b s cs = map (candidate_entry p b s) (filter (\<lambda>c. \<not> candidate_skipped p c) cs)"

definition qualified_entries ::
  "validator_policy \<Rightarrow> (validator_candidate \<times> nat \<times> bool) list \<Rightarrow> (validator_candidate \<times> nat \<times> bool) list" where
  "qualified_entries p el = filter (\<lambda>(c, _, has_minimum_stake). has_minimum_stake \<or> vc_validator_id c \<in> country_ranked p el
     \<or> vc_administrator_approved c) el"

lemma policy_select_Ok:
  "policy_select E p cs b s = Ok r \<longleftrightarrow> policy_validate p = Ok () \<and> s \<noteq> 0
     \<and> (\<forall>c \<in> set cs. validate_candidate E c = Ok ()) \<and> distinct (map vc_validator_id cs)
     \<and> distinct (map (\<lambda>c. normalize_account (vc_stake_account c)) cs)
     \<and> r = take (vp_max_validators p) (sort_key selection_order
         (map (to_selected s) (qualified_entries p (eligible_entries p b s cs))))
     \<and> vp_min_validators p \<le> length r"
proof -
  have "for_each (policy_candidate E p b s) cs ([], [], []) = Ok x \<longleftrightarrow>
      (\<forall>c \<in> set cs. validate_candidate E c = Ok ()) \<and> distinct (map vc_validator_id cs)
      \<and> distinct (map (\<lambda>c. normalize_account (vc_stake_account c)) cs)
      \<and> x = (rev (map vc_validator_id cs), rev (map (\<lambda>c. normalize_account (vc_stake_account c)) cs), eligible_entries p b s cs)" for x
    using policy_candidate_loop [of E p b s cs "[]" "[]" "[]" "fst x" "fst (snd x)" "snd (snd x)"]
    by (cases x) (auto simp: eligible_entries_def)
  then show ?thesis unfolding policy_select_def Let_def qualified_entries_def by (auto simp: not_less)
qed

subsection \<open>The ranking within a country\<close>

definition country_members ::
  "(validator_candidate \<times> nat \<times> bool) list \<Rightarrow> string \<Rightarrow> (validator_candidate \<times> nat) list" where
  "country_members el country = map (\<lambda>(c, stake, _). (c, stake))
     (filter (\<lambda>(c, _, _). vc_identity_country_verified c \<and> vc_country_code c = Some country) el)"

lemma country_groups_snoc:
  "country_groups (el @ [(c, stake, has)]) =
     (if vc_identity_country_verified c then
        (case vc_country_code c of
           None \<Rightarrow> country_groups el
         | Some country \<Rightarrow> hm_insert (country_groups el) country
             ((case hm_get (country_groups el) country of None \<Rightarrow> [] | Some xs \<Rightarrow> xs) @ [(c, stake)]))
      else country_groups el)"
  by (simp only: country_groups_def foldl_append foldl.simps prod.case)

lemma country_groups_exact:
  "hm_wf (country_groups el) \<and> hm_get (country_groups el) k =
     (if country_members el k = [] then None else Some (country_members el k))"
proof (induction el arbitrary: k rule: rev_induct)
  case (snoc e el)
  obtain c stake has where e: "e = (c, stake, has)" by (cases e)
  have wf: "hm_wf (country_groups el)" using snoc by blast
  have get: "hm_get (country_groups el) k = (if country_members el k = [] then None else Some (country_members el k))" for k
    using snoc by blast
  show ?case
    unfolding e country_groups_snoc
    by (cases "vc_country_code c") (auto simp: wf get country_members_def)
qed (simp add: country_groups_def country_members_def)

lemma country_ranked_iff:
  "v \<in> country_ranked p el \<longleftrightarrow> (\<exists>country. v \<in> set (map (\<lambda>(c, _). vc_validator_id c)
     (take (vp_country_rank_limit p) (rank_group (country_members el country)))))"
proof -
  have "(k, g) \<in> set (country_groups el) \<longleftrightarrow> g = country_members el k \<and> g \<noteq> []" for k g
    using country_groups_exact [of el k] unfolding hm_wf_def hm_get_def
    by (metis map_of_eq_Some_iff option.distinct(1) option.inject)
  note member = this
  define ids where "ids g = set (map (\<lambda>(c, _). vc_validator_id c) (take (vp_country_rank_limit p) (rank_group g)))"
    for g :: "(validator_candidate \<times> nat) list"
  have "ids [] = {}" by (simp add: ids_def rank_group_def)
  moreover have "v \<in> country_ranked p el \<longleftrightarrow> (\<exists>(k, g) \<in> set (country_groups el). v \<in> ids g)"
    unfolding country_ranked_def ids_def by (simp add: case_prod_beta)
  moreover have "(\<exists>(k, g) \<in> set (country_groups el). v \<in> ids g) \<longleftrightarrow> (\<exists>k. v \<in> ids (country_members el k))"
  proof
    assume "\<exists>(k, g) \<in> set (country_groups el). v \<in> ids g"
    then obtain k g where "(k, g) \<in> set (country_groups el)" "v \<in> ids g" by blast
    then have "v \<in> ids (country_members el k)" by (simp add: member)
    then show "\<exists>k. v \<in> ids (country_members el k)" ..
  next
    assume "\<exists>k. v \<in> ids (country_members el k)"
    then obtain k where k: "v \<in> ids (country_members el k)" by blast
    with \<open>ids [] = {}\<close> have "country_members el k \<noteq> []" by auto
    then have "(k, country_members el k) \<in> set (country_groups el)" by (simp add: member)
    with k show "\<exists>(k, g) \<in> set (country_groups el). v \<in> ids g" by blast
  qed
  ultimately show ?thesis unfolding ids_def [symmetric] by blast
qed

text \<open>Sorting by an injective key forgets the order of the input.\<close>

lemma sort_key_perm: "mset xs = mset ys \<Longrightarrow> inj_on f (set xs) \<Longrightarrow> sort_key f xs = sort_key f ys"
  by (rule sort_key_inj_key_eq) simp_all

lemma distinct_inj_key:
  assumes "distinct (map g xs)" and "\<And>x y. f x = f y \<Longrightarrow> g x = g y"
  shows "inj_on f (set xs)"
  using assms unfolding distinct_map inj_on_def by metis

lemma country_ranked_perm:
  assumes "mset el = mset el'" and "distinct (map (\<lambda>(c, _, _). vc_validator_id c) el)"
  shows "country_ranked p el = country_ranked p el'"
proof -
  have "rank_group (country_members el k) = rank_group (country_members el' k)" for k
    unfolding rank_group_def
  proof (rule sort_key_perm)
    show "mset (country_members el k) = mset (country_members el' k)"
      using assms(1) by (simp add: country_members_def)
    have "map (\<lambda>(c, _). vc_validator_id c) (country_members el k) = map (\<lambda>(c, _, _). vc_validator_id c)
        (filter (\<lambda>(c, _, _). vc_identity_country_verified c \<and> vc_country_code c = Some k) el)"
      by (simp add: country_members_def comp_def case_prod_beta)
    then have "distinct (map (\<lambda>(c, _). vc_validator_id c) (country_members el k))"
      using distinct_map_filter [OF assms(2)] by simp
    then show "inj_on (\<lambda>(c, stake). (- int stake, vc_validator_id c)) (set (country_members el k))"
      by (rule distinct_inj_key) auto
  qed
  then show ?thesis by (auto simp: country_ranked_iff)
qed

lemma eligible_ids:
  "map (\<lambda>(c, _, _). vc_validator_id c) (eligible_entries p b s cs) = map vc_validator_id (filter (\<lambda>c. \<not> candidate_skipped p c) cs)"
  by (simp add: eligible_entries_def candidate_entry_def Let_def comp_def)

lemma qualified_selected_ids:
  "map (\<lambda>v. val_id (sel_validator v)) (map (to_selected s) el) = map (\<lambda>(c, _, _). vc_validator_id c) el"
  by (simp add: to_selected_def comp_def case_prod_beta)

text \<open>
  Every node computes the same validators.  The selection does not depend on the order in
  which the candidates are listed: stakes are compared first, ties are broken by the distinct
  validator keys, in the country ranking and in the final order.
\<close>

theorem policy_order_irrelevant:
  assumes "policy_select E p cs b s = Ok r" and "mset cs = mset cs'"
  shows "policy_select E p cs' b s = Ok r"
proof -
  note ok = assms(1) [unfolded policy_select_Ok]
  let ?el = "eligible_entries p b s cs" and ?el' = "eligible_entries p b s cs'"
  have el: "mset ?el = mset ?el'" using assms(2) by (simp add: eligible_entries_def)
  have d: "distinct (map (\<lambda>(c, _, _). vc_validator_id c) ?el)"
    unfolding eligible_ids using ok distinct_map_filter by blast
  have ranked: "country_ranked p ?el = country_ranked p ?el'" by (rule country_ranked_perm [OF el d])
  have q: "mset (qualified_entries p ?el) = mset (qualified_entries p ?el')"
    unfolding qualified_entries_def ranked using el by simp
  have "distinct (map (\<lambda>(c, _, _). vc_validator_id c) (qualified_entries p ?el))"
    unfolding qualified_entries_def by (rule distinct_map_filter [OF d])
  then have dq: "distinct (map (\<lambda>v. val_id (sel_validator v)) (map (to_selected s) (qualified_entries p ?el)))"
    unfolding qualified_selected_ids .
  have sorted: "sort_key selection_order (map (to_selected s) (qualified_entries p ?el))
      = sort_key selection_order (map (to_selected s) (qualified_entries p ?el'))"
    by (rule sort_key_perm) (use q in simp, rule distinct_inj_key [OF dq], simp add: selection_order_def)
  have same: "set cs' = set cs" "distinct (map f cs') = distinct (map f cs)" for f :: "validator_candidate \<Rightarrow> string"
    using assms(2) by (metis mset_eq_setD) (intro mset_eq_imp_distinct_iff, simp add: assms(2))
  show ?thesis unfolding policy_select_Ok same sorted [symmetric] using ok by blast
qed

text \<open>Four approved candidates, for the examples.\<close>

definition sample_candidate :: "char \<Rightarrow> validator_candidate" where
  "sample_candidate d = \<lparr>vc_validator_id = replicate 63 (CHR ''0'') @ [d], vc_stake_account = replicate 39 (CHR ''0'') @ [d],
     vc_delegated_stake = 1, vc_country_code = None, vc_identity_country_verified = False,
     vc_ownership_proof_verified = True, vc_node_endpoint = Some ''quic'', vc_observed_epochs = 0, vc_uptime_bps = 0,
     vc_administrator_approved = True, vc_blocked = False\<rparr>"

definition sample_candidates :: "validator_candidate list" where
  "sample_candidates = map sample_candidate ''1234''"

lemma sample_candidates_valid: "list_all (\<lambda>c. validate_candidate toy_ext c = Ok ()) sample_candidates"
  by code_simp

lemma sample_candidates_distinct:
  "distinct (map vc_validator_id sample_candidates)"
  "distinct (map (\<lambda>c. normalize_account (vc_stake_account c)) sample_candidates)"
  by code_simp+

lemma sample_selection: "\<exists>r. policy_select toy_ext validator_policy_default sample_candidates [] 1 = Ok r"
proof -
  have "filter (\<lambda>c. \<not> candidate_skipped validator_policy_default c) sample_candidates = sample_candidates"
    by (simp add: sample_candidates_def sample_candidate_def candidate_skipped_def)
  then have el: "eligible_entries validator_policy_default [] 1 sample_candidates
      = map (candidate_entry validator_policy_default [] 1) sample_candidates" by (simp add: eligible_entries_def)
  have q: "qualified_entries validator_policy_default (map (candidate_entry validator_policy_default [] 1) sample_candidates)
      = map (candidate_entry validator_policy_default [] 1) sample_candidates"
  proof -
    have "vc_administrator_approved c" if "c \<in> set sample_candidates" for c
      using that by (auto simp: sample_candidates_def sample_candidate_def)
    moreover have "fst (candidate_entry q b t c) = c" for q b t c by (simp add: candidate_entry_def Let_def)
    ultimately show ?thesis unfolding qualified_entries_def
      by (intro filter_True) (auto simp: case_prod_beta simp del: split_paired_All)
  qed
  have "length sample_candidates = 4" "vp_max_validators validator_policy_default = 50"
    by (simp_all add: sample_candidates_def validator_policy_default_def)
  then have "length (take (vp_max_validators validator_policy_default) (sort_key selection_order (map (to_selected 1)
      (qualified_entries validator_policy_default (eligible_entries validator_policy_default [] 1 sample_candidates))))) = 4"
    unfolding el q by simp
  moreover have "policy_validate validator_policy_default = Ok ()"
    by (simp add: policy_validate_def validator_policy_default_def POLICY_BPS_DENOMINATOR_def)
  ultimately show ?thesis
    using sample_candidates_valid sample_candidates_distinct
    unfolding policy_select_Ok by (simp add: list_all_iff validator_policy_default_def)
qed

theorem policy_order_irrelevant_witness:
  "\<exists>r. policy_select toy_ext validator_policy_default sample_candidates [] 1 = Ok r
     \<and> policy_select toy_ext validator_policy_default (rev sample_candidates) [] 1 = Ok r"
  using sample_selection policy_order_irrelevant [where cs = sample_candidates and cs' = "rev sample_candidates"]
  by (metis mset_rev)

subsection \<open>What a selection gives\<close>

lemma policy_voting_power_pos: "0 < policy_voting_power stake supply_total"
  by (simp add: policy_voting_power_def Let_def)

text \<open>
  A selection is a validator set consensus can start with: between the configured bounds and
  at least four, with distinct keys and positive power; it is ordered by descending stake, and
  every selected validator is a candidate with a verified ownership proof, a reachable endpoint
  and enough uptime that is not blocked and has the minimum stake, a place in the ranking of its
  country, or an approval.
\<close>

theorem policy_select_sound:
  assumes "policy_select E p cs b s = Ok r"
  shows "vp_min_validators p \<le> length r \<and> length r \<le> vp_max_validators p \<and> 4 \<le> length r
    \<and> (\<exists>st. bft_new (map sel_validator r) = Ok st)
    \<and> sorted_wrt (\<lambda>v w. sel_stake w \<le> sel_stake v) r
    \<and> list_all (\<lambda>v. \<exists>c \<in> set cs. vc_validator_id c = val_id (sel_validator v)
        \<and> sel_stake v = fst (snd (candidate_entry p b s c)) \<and> \<not> vc_blocked c \<and> vc_ownership_proof_verified c
        \<and> vc_node_endpoint c \<noteq> None \<and> (vc_observed_epochs c = 0 \<or> vp_min_uptime_bps p \<le> vc_uptime_bps c)
        \<and> (snd (snd (candidate_entry p b s c)) \<or> vc_validator_id c \<in> country_ranked p (eligible_entries p b s cs)
           \<or> vc_administrator_approved c)) r"
proof -
  note ok = assms [unfolded policy_select_Ok]
  let ?q = "qualified_entries p (eligible_entries p b s cs)"
  let ?all = "sort_key selection_order (map (to_selected s) ?q)"
  have r: "r = take (vp_max_validators p) ?all" and len: "vp_min_validators p \<le> length r" using ok by blast+
  have four: "4 \<le> vp_min_validators p" using ok by (auto simp: policy_validate_def split: if_splits)
  have sub: "set r \<subseteq> to_selected s ` set ?q" using set_take_subset [of _ ?all] by (auto simp: r)
  have "sorted_wrt (\<lambda>v w. sel_stake w \<le> sel_stake v) ?all"
    by (rule sorted_wrt_mono_rel [OF _ sorted_sort_key [unfolded sorted_map]]) (auto simp: selection_order_def less_eq_prod_def)
  then have sorted: "sorted_wrt (\<lambda>v w. sel_stake w \<le> sel_stake v) r" unfolding r by (rule sorted_wrt_take)
  have "distinct (map vc_validator_id cs)" using ok by blast
  then have "distinct (map (\<lambda>(c, _, _). vc_validator_id c) ?q)"
    unfolding qualified_entries_def by (intro distinct_map_filter) (simp add: eligible_ids distinct_map_filter)
  then have "distinct (map (\<lambda>v. val_id (sel_validator v)) (map (to_selected s) ?q))" unfolding qualified_selected_ids .
  then have "distinct (map (\<lambda>v. val_id (sel_validator v)) ?all)" unfolding distinct_map_sort_key .
  then have ids: "distinct (map val_id (map sel_validator r))"
    unfolding r by (simp add: comp_def take_map [symmetric] distinct_take)
  have "\<forall>v \<in> set r. 0 < val_voting_power (sel_validator v)"
    using sub by (auto simp: to_selected_def policy_voting_power_pos)
  with ids four len have "good_set (map sel_validator r)" by (simp add: good_set_def)
  from good_set_bft [OF this] have start: "\<exists>st. bft_new (map sel_validator r) = Ok st" .
  have "\<exists>c \<in> set cs. vc_validator_id c = val_id (sel_validator v)
        \<and> sel_stake v = fst (snd (candidate_entry p b s c)) \<and> \<not> candidate_skipped p c
        \<and> (snd (snd (candidate_entry p b s c)) \<or> vc_validator_id c \<in> country_ranked p (eligible_entries p b s cs)
           \<or> vc_administrator_approved c)" if v: "v \<in> set r" for v
  proof -
    from v sub obtain e where e: "e \<in> set ?q" and ve: "v = to_selected s e" by blast
    from e obtain c where c: "c \<in> set cs" "\<not> candidate_skipped p c" and ec: "e = candidate_entry p b s c"
      by (auto simp: qualified_entries_def eligible_entries_def)
    have "fst e = c" by (simp add: ec candidate_entry_def Let_def)
    with e have "snd (snd e) \<or> vc_validator_id c \<in> country_ranked p (eligible_entries p b s cs) \<or> vc_administrator_approved c"
      by (auto simp: qualified_entries_def case_prod_beta)
    with c \<open>fst e = c\<close> show ?thesis 
      by (intro bexI [of _ c]) (auto simp: ve to_selected_def case_prod_beta simp flip: ec)
  qed
  then have "list_all (\<lambda>v. \<exists>c \<in> set cs. vc_validator_id c = val_id (sel_validator v)
        \<and> sel_stake v = fst (snd (candidate_entry p b s c)) \<and> \<not> vc_blocked c \<and> vc_ownership_proof_verified c
        \<and> vc_node_endpoint c \<noteq> None \<and> (vc_observed_epochs c = 0 \<or> vp_min_uptime_bps p \<le> vc_uptime_bps c)
        \<and> (snd (snd (candidate_entry p b s c)) \<or> vc_validator_id c \<in> country_ranked p (eligible_entries p b s cs)
           \<or> vc_administrator_approved c)) r"
    unfolding list_all_iff candidate_skipped_def by (metis bot_nat_0.not_eq_extremum not_le)
  with start sorted len four r show ?thesis by simp
qed

theorem policy_select_sound_witness:
  "\<exists>r st. policy_select toy_ext validator_policy_default sample_candidates [] 1 = Ok r
     \<and> bft_new (map sel_validator r) = Ok st"
  using sample_selection policy_select_sound by blast

end
