(* ===== verification/Recovery.thy ===== *)
theory Recovery
  imports Votes
begin

text \<open>
  Recovery votes (\<^verbatim>\<open>src/src/recovery.rs\<close>) and protocol upgrades (\<^verbatim>\<open>src/src/upgrade.rs\<close>).  The
  approvals of a recovery plan are a set of validator ids; the model goes through it in the order
  of first occurrence, one of the orders a \<^verbatim>\<open>HashSet\<close> may have.
\<close>

subsection \<open>Recovery approvals\<close>

datatype (plugins only: code) recovery_approval_basis = ValidatorCount | VotingPower | BothBases

record recovery_approval_result =
  rar_approved :: bool
  rar_basis :: "recovery_approval_basis option"
  rar_approved_validators :: nat
  rar_total_validators :: nat
  rar_approved_voting_power :: nat
  rar_total_voting_power :: nat

definition reaches_three_quarters :: "nat \<Rightarrow> nat \<Rightarrow> bool" where
  "reaches_three_quarters approved whole =
     (whole > 0 \<and> saturating_mul 128 approved 4 \<ge> saturating_mul 128 whole 3)"

definition recovery_register ::
  "validator \<Rightarrow> (string, nat) hmap \<times> nat \<Rightarrow> ((string, nat) hmap \<times> nat) result" where
  "recovery_register v = (\<lambda>(powers, total_power).
     if val_voting_power v = 0 then Err (ERecovery (ZeroRecoveryPower (val_id v)))
     else if hm_contains powers (val_id v) then Err (ERecovery (DuplicateRecoveryValidator (val_id v)))
     else rbind (ok_or (checked_add 64 total_power (val_voting_power v)) (ERecovery RecoveryPowerOverflow))
       (\<lambda>total_power'. Ok (hm_insert powers (val_id v) (val_voting_power v), total_power')))"

definition recovery_approve :: "(string, nat) hmap \<Rightarrow> string \<Rightarrow> nat \<Rightarrow> nat result" where
  "recovery_approve powers i approved_power =
     rbind (ok_or (hm_get powers i) (ERecovery (UnknownApprover i))) (\<lambda>power.
     ok_or (checked_add 64 approved_power power) (ERecovery RecoveryPowerOverflow))"

definition evaluate_recovery_approvals ::
  "validator list \<Rightarrow> string list \<Rightarrow> recovery_approval_result result" where
  "evaluate_recovery_approvals validators approval_ids =
     (if validators = [] then Err (ERecovery NoRecoveryValidators) else
      rbind (for_each recovery_register validators ([], 0)) (\<lambda>(powers, total_power).
      let approvals = remdups approval_ids in
      rbind (for_each (recovery_approve powers) approvals 0) (\<lambda>approved_power.
      let count_passed = reaches_three_quarters (length approvals) (length validators);
          power_passed = reaches_three_quarters approved_power total_power;
          basis = (if count_passed then Some ValidatorCount
                   else if power_passed then Some VotingPower else None)
      in Ok \<lparr>rar_approved = (basis \<noteq> None), rar_basis = basis,
             rar_approved_validators = length approvals, rar_total_validators = length validators,
             rar_approved_voting_power = approved_power, rar_total_voting_power = total_power\<rparr>)))"

definition evaluate_checkpoint_recovery_approvals ::
  "validator list \<Rightarrow> string list \<Rightarrow> recovery_approval_result result" where
  "evaluate_checkpoint_recovery_approvals validators approval_ids =
     rbind (evaluate_recovery_approvals validators approval_ids) (\<lambda>r.
     let count_passed = reaches_three_quarters (rar_approved_validators r) (rar_total_validators r);
         power_passed = reaches_three_quarters (rar_approved_voting_power r) (rar_total_voting_power r);
         both = count_passed \<and> power_passed
     in Ok (r\<lparr>rar_approved := both, rar_basis := (if both then Some BothBases else None)\<rparr>))"

subsection \<open>Protocol upgrades\<close>

record protocol_upgrade =
  upg_name :: string
  upg_activation_height :: nat
  upg_protocol_version :: nat

fun windows_ok :: "protocol_upgrade list \<Rightarrow> bool" where
  "windows_ok (a # b # us) = (upg_activation_height a \<noteq> upg_activation_height b \<and> windows_ok (b # us))"
| "windows_ok us = True"

text \<open>\<^verbatim>\<open>load\<close> after the file is parsed: the schedule is sorted, and a shared height refused.\<close>

definition upgrade_load :: "protocol_upgrade list \<Rightarrow> protocol_upgrade list result" where
  "upgrade_load parsed =
     (let upgrades = sort_key upg_activation_height parsed
      in if windows_ok upgrades then Ok upgrades else Err (EUpgrade DuplicateUpgradeHeight))"

definition version_at :: "protocol_upgrade list \<Rightarrow> nat \<Rightarrow> nat" where
  "version_at upgrades height =
     (case rev (filter (\<lambda>u. upg_activation_height u \<le> height) upgrades) of
        [] \<Rightarrow> 1
      | u # _ \<Rightarrow> upg_protocol_version u)"

definition ensure_supported :: "protocol_upgrade list \<Rightarrow> nat \<Rightarrow> nat \<Rightarrow> unit result" where
  "ensure_supported upgrades height supported =
     (let required = version_at upgrades height
      in if required > supported then Err (EUpgrade (UnsupportedVersion height required)) else Ok ())"

subsection \<open>What an approval shows\<close>

lemma recovery_register_Ok:
  "recovery_register v (m, p) = Ok (m', p') \<longleftrightarrow> 0 < val_voting_power v \<and> hm_get m (val_id v) = None
     \<and> p' = p + val_voting_power v \<and> p' < 2 ^ 64 \<and> m' = hm_insert m (val_id v) (val_voting_power v)"
  by (auto simp: recovery_register_def hm_contains_def checked_add_def)

lemma recovery_register_loop:
  "for_each recovery_register vs (m, p) = Ok (m', p') \<longleftrightarrow>
     (\<forall>v \<in> set vs. 0 < val_voting_power v) \<and> distinct (map val_id vs) \<and> (\<forall>v \<in> set vs. hm_get m (val_id v) = None)
     \<and> (vs = [] \<or> p + total_voting_power vs < 2 ^ 64) \<and> p' = p + total_voting_power vs
     \<and> m' = foldl (\<lambda>m (k, v). hm_insert m k v) m (map (\<lambda>v. (val_id v, val_voting_power v)) vs)"
proof (induction vs arbitrary: m p)
  case Nil
  show ?case by (auto simp: total_voting_power_def)
next
  case (Cons v vs)
  have "for_each recovery_register (v # vs) (m, p) = Ok (m', p') \<longleftrightarrow>
    (\<exists>m1 p1. recovery_register v (m, p) = Ok (m1, p1) \<and> for_each recovery_register vs (m1, p1) = Ok (m', p'))" by auto
  also have "\<dots> \<longleftrightarrow> 0 < val_voting_power v \<and> hm_get m (val_id v) = None \<and> p + val_voting_power v < 2 ^ 64
    \<and> for_each recovery_register vs (hm_insert m (val_id v) (val_voting_power v), p + val_voting_power v) = Ok (m', p')"
    unfolding recovery_register_Ok by blast
  finally have step: "for_each recovery_register (v # vs) (m, p) = Ok (m', p') \<longleftrightarrow>
    0 < val_voting_power v \<and> hm_get m (val_id v) = None \<and> p + val_voting_power v < 2 ^ 64
    \<and> for_each recovery_register vs (hm_insert m (val_id v) (val_voting_power v), p + val_voting_power v) = Ok (m', p')" .
  have fresh: "(\<forall>w \<in> set vs. hm_get (hm_insert m (val_id v) (val_voting_power v)) (val_id w) = None)
    \<longleftrightarrow> (\<forall>w \<in> set vs. hm_get m (val_id w) = None) \<and> val_id v \<notin> val_id ` set vs" by (auto simp: image_iff)
  have tot: "total_voting_power (v # vs) = val_voting_power v + total_voting_power vs"
    and nil: "vs = [] \<Longrightarrow> total_voting_power vs = 0" by (simp_all add: total_voting_power_def)
  have num: "p + val_voting_power v < 2 ^ 64 \<and> (vs = [] \<or> p + val_voting_power v + total_voting_power vs < 2 ^ 64)
    \<longleftrightarrow> p + (val_voting_power v + total_voting_power vs) < 2 ^ 64" using nil by linarith
  show ?case unfolding step Cons.IH fresh tot using num by (auto simp: add.assoc simp del: power_numeral)
qed

lemma recovery_approve_loop:
  assumes "hm_wf m" and "hm_total m < 2 ^ 64" and "distinct ids" and "A \<inter> set ids = {}" and "A \<subseteq> fst ` set m"
    and "finite A"
  shows "for_each (recovery_approve m) ids (\<Sum>k \<in> A. hm_get0 m k) = Ok p \<longleftrightarrow>
    set ids \<subseteq> fst ` set m \<and> p = (\<Sum>k \<in> A \<union> set ids. hm_get0 m k)"
  using assms(3-6)
proof (induction ids arbitrary: A)
  case (Cons i ids)
  have "recovery_approve m i (\<Sum>k \<in> A. hm_get0 m k) = Ok q \<longleftrightarrow>
      i \<in> fst ` set m \<and> q = (\<Sum>k \<in> insert i A. hm_get0 m k)" for q
  proof -
    have "i \<notin> A" using Cons.prems by auto
    then have s: "(\<Sum>k \<in> insert i A. hm_get0 m k) = (\<Sum>k \<in> A. hm_get0 m k) + hm_get0 m i"
      using Cons.prems(4) by (simp add: add.commute)
    have "(\<Sum>k \<in> insert i A. hm_get0 m k) < 2 ^ 64" if "i \<in> fst ` set m"
      using hm_sum_le_total [OF assms(1), of "insert i A"] that Cons.prems(3) assms(2) by (meson insert_subset le_less_trans)
    then show ?thesis unfolding s hm_get_dom [symmetric]
      by (cases "hm_get m i") (auto simp: recovery_approve_def checked_add_def hm_get0_def simp del: power_numeral)
  qed
  then have "for_each (recovery_approve m) (i # ids) (\<Sum>k \<in> A. hm_get0 m k) = Ok p \<longleftrightarrow>
      i \<in> fst ` set m \<and> for_each (recovery_approve m) ids (\<Sum>k \<in> insert i A. hm_get0 m k) = Ok p" by auto
  then show ?case using Cons.IH [of "insert i A"] Cons.prems by auto
qed auto

lemma reaches_three_quarters_iff:
  "4 * a < 2 ^ 128 - 1 \<Longrightarrow> 3 * t < 2 ^ 128 - 1 \<Longrightarrow> reaches_three_quarters a t \<longleftrightarrow> 0 < t \<and> 3 * t \<le> 4 * a"
  by (simp add: reaches_three_quarters_def saturating_mul_def min_def mult.commute)

definition recovery_set :: "validator list \<Rightarrow> bool" where
  "recovery_set vs \<longleftrightarrow> vs \<noteq> [] \<and> (\<forall>v \<in> set vs. 0 < val_voting_power v) \<and> distinct (map val_id vs)
     \<and> total_voting_power vs < 2 ^ 64"

lemma three_quarters_exact:
  assumes "length vs < 2 ^ 64" and "recovery_set vs" and "set ids \<subseteq> val_id ` set vs"
  shows "reaches_three_quarters (card (set ids)) (length vs) \<longleftrightarrow> 3 * length vs \<le> 4 * card (set ids)"
    and "reaches_three_quarters (signed_power vs (set ids)) (total_voting_power vs)
      \<longleftrightarrow> 3 * total_voting_power vs \<le> 4 * signed_power vs (set ids)"
proof -
  have q: "signed_power vs (set ids) \<le> total_voting_power vs" by (rule signed_power_le_total [OF assms(3)])
  have n: "card (set ids) \<le> length vs"
    using card_mono [OF _ assms(3)] card_image_le [of "set vs" val_id] card_length [of vs]
    by (meson finite_imageI finite_set le_trans)
  have pos: "0 < length vs" "0 < total_voting_power vs" "total_voting_power vs < 2 ^ 64"
    using assms(2) by (cases vs; auto simp: recovery_set_def total_voting_power_def simp del: power_numeral)+
  have big: "(4 :: nat) * 2 ^ 64 < 2 ^ 128 - 1" by simp
  have "4 * card (set ids) < 2 ^ 128 - 1" "3 * length vs < 2 ^ 128 - 1" using n assms(1) big by linarith+
  with pos show "reaches_three_quarters (card (set ids)) (length vs) \<longleftrightarrow> 3 * length vs \<le> 4 * card (set ids)"
    by (simp only: reaches_three_quarters_iff simp_thms)
  have "4 * signed_power vs (set ids) < 2 ^ 128 - 1" "3 * total_voting_power vs < 2 ^ 128 - 1" using q pos(3) big by linarith+
  with pos show "reaches_three_quarters (signed_power vs (set ids)) (total_voting_power vs)
      \<longleftrightarrow> 3 * total_voting_power vs \<le> 4 * signed_power vs (set ids)"
    by (simp only: reaches_three_quarters_iff simp_thms)
qed

definition recovery_result :: "validator list \<Rightarrow> string list \<Rightarrow> recovery_approval_result" where
  "recovery_result vs ids =
     (let basis = (if 3 * length vs \<le> 4 * card (set ids) then Some ValidatorCount
        else if 3 * total_voting_power vs \<le> 4 * signed_power vs (set ids) then Some VotingPower else None)
      in \<lparr>rar_approved = (basis \<noteq> None), rar_basis = basis, rar_approved_validators = card (set ids),
          rar_total_validators = length vs, rar_approved_voting_power = signed_power vs (set ids),
          rar_total_voting_power = total_voting_power vs\<rparr>)"

lemma evaluate_Ok:
  assumes "length vs < 2 ^ 64"
  shows "evaluate_recovery_approvals vs ids = Ok r \<longleftrightarrow>
    recovery_set vs \<and> set ids \<subseteq> val_id ` set vs \<and> r = recovery_result vs ids"
proof -
  let ?m = "validator_powers vs" and ?n = "card (set ids)" and ?q = "signed_power vs (set ids)"
  have reg: "for_each recovery_register vs ([], 0) = Ok s \<longleftrightarrow> s = (?m, total_voting_power vs)
      \<and> (\<forall>v \<in> set vs. 0 < val_voting_power v) \<and> distinct (map val_id vs) \<and> (vs = [] \<or> total_voting_power vs < 2 ^ 64)" for s
    using recovery_register_loop [of vs "[]" 0 "fst s" "snd s"]
    by (cases s) (auto simp: validator_powers_def hm_from_list_def simp del: power_numeral)
  have app: "for_each (recovery_approve ?m) (remdups ids) 0 = Ok q \<longleftrightarrow> set ids \<subseteq> val_id ` set vs \<and> q = ?q"
    if "total_voting_power vs < 2 ^ 64" for q
  proof -
    have "hm_total ?m < 2 ^ 64" using validator_powers_total [of vs] that by (rule le_less_trans)
    from recovery_approve_loop [OF validator_powers_wf this distinct_remdups, of "{}" ids] show ?thesis
      by (simp add: validator_powers_keys signed_power_def)
  qed
  note three = three_quarters_exact [OF assms, of ids]
  have "evaluate_recovery_approvals vs ids = Ok r \<longleftrightarrow> recovery_set vs \<and> set ids \<subseteq> val_id ` set vs
    \<and> r = (let basis = (if reaches_three_quarters ?n (length vs) then Some ValidatorCount
              else if reaches_three_quarters ?q (total_voting_power vs) then Some VotingPower else None)
           in \<lparr>rar_approved = (basis \<noteq> None), rar_basis = basis, rar_approved_validators = ?n,
               rar_total_validators = length vs, rar_approved_voting_power = ?q,
               rar_total_voting_power = total_voting_power vs\<rparr>)"
    unfolding evaluate_recovery_approvals_def Let_def recovery_set_def
    by (auto simp: reg app length_remdups_card_conv simp del: power_numeral)
  then show ?thesis using three by (auto simp: recovery_result_def)
qed

text \<open>
  Recovery votes.  For a registered validator list a recovery plan is approved exactly when
  the distinct approvers are all registered and make up three quarters of the validators or of the
  voting power; a checkpoint rollback needs both, so a single validator, whatever its power, never
  rolls a chain back on its own.
\<close>

theorem recovery_approval_exact:
  assumes "length vs < 2 ^ 64"
  shows "((\<exists>r. evaluate_recovery_approvals vs ids = Ok r \<and> rar_approved r) \<longleftrightarrow>
      recovery_set vs \<and> set ids \<subseteq> val_id ` set vs
      \<and> (3 * length vs \<le> 4 * card (set ids) \<or> 3 * total_voting_power vs \<le> 4 * signed_power vs (set ids)))
    \<and> ((\<exists>r. evaluate_checkpoint_recovery_approvals vs ids = Ok r \<and> rar_approved r) \<longleftrightarrow>
      recovery_set vs \<and> set ids \<subseteq> val_id ` set vs
      \<and> 3 * length vs \<le> 4 * card (set ids) \<and> 3 * total_voting_power vs \<le> 4 * signed_power vs (set ids))"
proof
  show "(\<exists>r. evaluate_recovery_approvals vs ids = Ok r \<and> rar_approved r) \<longleftrightarrow>
      recovery_set vs \<and> set ids \<subseteq> val_id ` set vs
      \<and> (3 * length vs \<le> 4 * card (set ids) \<or> 3 * total_voting_power vs \<le> 4 * signed_power vs (set ids))"
    unfolding evaluate_Ok [OF assms] by (auto simp: recovery_result_def Let_def)
  show "(\<exists>r. evaluate_checkpoint_recovery_approvals vs ids = Ok r \<and> rar_approved r) \<longleftrightarrow>
      recovery_set vs \<and> set ids \<subseteq> val_id ` set vs
      \<and> 3 * length vs \<le> 4 * card (set ids) \<and> 3 * total_voting_power vs \<le> 4 * signed_power vs (set ids)"
    unfolding evaluate_checkpoint_recovery_approvals_def Let_def
    using three_quarters_exact [OF assms, of ids]
    by (auto simp: evaluate_Ok [OF assms] recovery_result_def Let_def simp del: power_numeral)
qed

theorem recovery_approval_exact_witness:
  "\<exists>r. evaluate_checkpoint_recovery_approvals sample_validators [val_id (hd sample_validators)] = Ok r \<and> rar_approved r"
proof -
  let ?id = "val_id (hd sample_validators)"
  have "length sample_validators < 2 ^ 64" by (simp add: sample_validators_def)
  moreover have "signed_power sample_validators {?id} = 1" and "recovery_set sample_validators"
    by (simp_all add: signed_power_def sample_validators_def validator_powers_def hm_from_list_def hm_get0_def
        hm_get_def hm_insert_def recovery_set_def total_voting_power_def)
  ultimately show ?thesis
    using recovery_approval_exact [of sample_validators "[?id]"] sample_total
    by (simp add: sample_validators_def)
qed

subsection \<open>Versions\<close>

text \<open>
  A loaded schedule is strictly ascending, so the version in force is the one of the latest
  upgrade activated.
\<close>

lemma windows_ok_sorted:
  "sorted (map upg_activation_height us) \<Longrightarrow> windows_ok us \<Longrightarrow> sorted_wrt (<) (map upg_activation_height us)"
proof (induction us rule: windows_ok.induct)
  case (1 a b us)
  then have "upg_activation_height a < upg_activation_height b" by auto
  moreover have "sorted_wrt (<) (map upg_activation_height (b # us))" using 1 by simp
  ultimately show ?case by auto
qed auto

lemma version_at_latest:
  assumes "upgrade_load parsed = Ok us" and "u \<in> set parsed" and "upg_activation_height u \<le> height"
    and "\<And>u'. u' \<in> set parsed \<Longrightarrow> upg_activation_height u' \<le> height \<Longrightarrow> upg_activation_height u' \<le> upg_activation_height u"
  shows "version_at us height = upg_protocol_version u"
proof -
  have us: "us = sort_key upg_activation_height parsed" and w: "windows_ok us"
    using assms(1) by (auto simp: upgrade_load_def Let_def split: if_splits)
  let ?f = "filter (\<lambda>u. upg_activation_height u \<le> height) us"
  have sorted: "sorted_wrt (<) (map upg_activation_height us)" using windows_ok_sorted [OF _ w] by (simp add: us)
  then have sf: "sorted_wrt (\<lambda>a b. upg_activation_height a < upg_activation_height b) ?f"
    by (simp add: sorted_wrt_map sorted_wrt_filter)
  have uin: "u \<in> set ?f" using assms(2,3) by (simp add: us)
  then obtain xs x where x: "?f = xs @ [x]" by (metis append_butlast_last_id empty_iff list.set(1))
  have "x \<in> set ?f" unfolding x by simp
  then have "upg_activation_height x \<le> upg_activation_height u" using assms(4) by (auto simp: us)
  moreover have "u = x \<or> upg_activation_height u < upg_activation_height x"
    using uin sf unfolding x by (auto simp: sorted_wrt_append)
  ultimately have "u = x" by auto
  then show ?thesis by (simp add: version_at_def x)
qed

end
