(* ===== verification/Signer.thy ===== *)
theory Signer
  imports Wallet
begin

text \<open>
  Signing for a validator (\<^verbatim>\<open>src/src/signer.rs\<close>): a local wallet, or external programs that
  are asked in turn until one returns a signature that verifies.  A program is a parameter of the
  model: a function from the request it reads to the text it prints (decoded and trimmed), or an
  error when it cannot be started, refuses, or exceeds its time limit.  The minimum interval
  between two requests only delays a call and is not modelled.
\<close>

record sign_request =
  req_version :: nat
  req_public_key :: string
  req_payload_hex :: string

record external_signer =
  exs_programs :: "(sign_request \<Rightarrow> string result) list"
  exs_public_key :: string

datatype validator_signer = Local wallet | External external_signer

definition signer_key_ok :: "ext \<Rightarrow> string \<Rightarrow> bool" where
  "signer_key_ok E public_key \<longleftrightarrow>
     (case hex_decode E public_key of None \<Rightarrow> 0 | Some bytes \<Rightarrow> length bytes) = 32"

text \<open>The flag that comes with a program is \<^verbatim>\<open>program.exists()\<close>.\<close>

definition external_signer_new ::
  "ext \<Rightarrow> bool \<times> (sign_request \<Rightarrow> string result) \<Rightarrow> string \<Rightarrow> external_signer result" where
  "external_signer_new E program public_key =
     (if \<not> fst program then Err (ESigner SignerMissing)
      else if \<not> signer_key_ok E public_key then Err (ESigner SignerKeyLength)
      else Ok \<lparr>exs_programs = [snd program], exs_public_key = public_key\<rparr>)"

definition with_failover ::
  "ext \<Rightarrow> (bool \<times> (sign_request \<Rightarrow> string result)) list \<Rightarrow> string \<Rightarrow> external_signer result" where
  "with_failover E programs public_key =
     (if programs = [] \<or> list_ex (\<lambda>p. \<not> fst p) programs then Err (ESigner NoSigners)
      else if \<not> signer_key_ok E public_key then Err (ESigner SignerKeyLength)
      else Ok \<lparr>exs_programs = map snd programs, exs_public_key = public_key\<rparr>)"

definition try_program ::
  "ext \<Rightarrow> external_signer \<Rightarrow> (sign_request \<Rightarrow> string result) \<Rightarrow> sign_request \<Rightarrow> u8 list \<Rightarrow> string result" where
  "try_program E s program request payload =
     rbind (program request) (\<lambda>signature.
     rbind (verify_signature E (exs_public_key s) payload signature) (\<lambda>_. Ok signature))"

fun try_programs ::
  "ext \<Rightarrow> external_signer \<Rightarrow> sign_request \<Rightarrow> u8 list \<Rightarrow> (sign_request \<Rightarrow> string result) list \<Rightarrow> string result" where
  "try_programs E s request payload [] = Err (ESigner SignerFailed)"
| "try_programs E s request payload (program # programs) =
     (case try_program E s program request payload of
        Ok signature \<Rightarrow> Ok signature
      | Err _ \<Rightarrow> try_programs E s request payload programs)"

definition external_sign_bytes :: "ext \<Rightarrow> external_signer \<Rightarrow> u8 list \<Rightarrow> string result" where
  "external_sign_bytes E s payload =
     try_programs E s
       \<lparr>req_version = 1, req_public_key = exs_public_key s, req_payload_hex = hex_encode E payload\<rparr>
       payload (exs_programs s)"

fun signer_address :: "ext \<Rightarrow> validator_signer \<Rightarrow> string" where
  "signer_address E (Local w) = wallet_address E w"
| "signer_address E (External s) = exs_public_key s"

fun signer_sign_bytes :: "ext \<Rightarrow> validator_signer \<Rightarrow> u8 list \<Rightarrow> string result" where
  "signer_sign_bytes E (Local w) payload = Ok (wallet_sign_bytes E w payload)"
| "signer_sign_bytes E (External s) payload = external_sign_bytes E s payload"

text \<open>
  An external signer is not trusted: whatever its programs do, a signature that comes back
  verifies under the configured key, and one working program is enough.
\<close>

lemma try_programs_sound:
  "try_programs E s request payload programs = Ok sig \<Longrightarrow>
     verify_signature E (exs_public_key s) payload sig = Ok ()"
  by (induction programs) (auto simp: try_program_def split: result.splits)

lemma try_programs_complete:
  assumes "program \<in> set programs" and "try_program E s program request payload = Ok sig"
  shows "\<exists>sig'. try_programs E s request payload programs = Ok sig'"
  using assms by (induction programs) (auto split: result.splits)

lemma external_signature_verifies:
  "signer_sign_bytes E (External s) payload = Ok sig \<Longrightarrow>
     verify_signature E (signer_address E (External s)) payload sig = Ok ()"
  by (auto simp: external_sign_bytes_def dest: try_programs_sound)

end
