(* ===== verification/Snapshot.thy ===== *)
theory Snapshot
  imports Chain Votes Signer
begin

text \<open>
  State snapshots (\<^verbatim>\<open>src/src/snapshot_sync.rs\<close>, \<^verbatim>\<open>src/src/checkpoint.rs\<close> and the snapshot
  structure of \<^verbatim>\<open>src/src/archive.rs\<close>): attestations and certificates over a state root, the
  manifest and its chunks, the resumable download, and the choice of a tip by several peers.  JSON
  and zstd are parameters (\<open>snapshot_codec\<close>); the files of a download are a table in its state.
\<close>

subsection \<open>Snapshots, attestations and certificates\<close>

record state_snapshot =
  snap_chain_id :: nat
  snap_genesis_commitment :: string
  snap_height :: nat
  snap_block_hash :: string
  snap_state_hash :: string
  snap_balances :: "(string, nat) hmap"
  snap_next_nonces :: "(string, nat) hmap"
  snap_executed_events :: "string set"
  snap_staking :: staking_state

definition snapshot_from_chain :: "ext \<Rightarrow> blockchain \<Rightarrow> state_snapshot" where
  "snapshot_from_chain E c =
     \<lparr>snap_chain_id = ch_chain_id c, snap_genesis_commitment = ch_genesis_commitment c,
      snap_height = tip_height c, snap_block_hash = tip_hash c, snap_state_hash = state_hash E c,
      snap_balances = ch_balances c, snap_next_nonces = ch_next_nonces c,
      snap_executed_events = ch_executed_events c, snap_staking = ch_staking c\<rparr>"

record checkpoint =
  cp_height :: nat
  cp_block_hash :: string
  cp_state_hash :: string

text \<open>\<^verbatim>\<open>expect\<close> panics on a chain without blocks: the value is None.\<close>

definition checkpoint_from_chain :: "ext \<Rightarrow> blockchain \<Rightarrow> checkpoint option" where
  "checkpoint_from_chain E c =
     (if ch_blocks c = [] then None
      else Some \<lparr>cp_height = blk_height (last (ch_blocks c)), cp_block_hash = blk_hash (last (ch_blocks c)),
                 cp_state_hash = state_hash E c\<rparr>)"

record snapshot_attestation =
  sa_validator_id :: string
  sa_height :: nat
  sa_block_hash :: string
  sa_state_root :: string
  sa_signature :: string

definition snapshot_attestation_bytes :: "nat \<Rightarrow> string \<Rightarrow> string \<Rightarrow> u8 list" where
  "snapshot_attestation_bytes height block_hash state_root =
     as_bytes ''IEUM-SNAPSHOT-V1'' @ be_bytes 8 height
     @ be_bytes 4 (length block_hash mod 2 ^ 32) @ as_bytes block_hash
     @ be_bytes 4 (length state_root mod 2 ^ 32) @ as_bytes state_root"

definition attestation_sign :: "ext \<Rightarrow> state_snapshot \<Rightarrow> validator_signer \<Rightarrow> snapshot_attestation result" where
  "attestation_sign E snapshot signer =
     rbind (signer_sign_bytes E signer
        (snapshot_attestation_bytes (snap_height snapshot) (snap_block_hash snapshot) (snap_state_hash snapshot)))
       (\<lambda>signature.
     Ok \<lparr>sa_validator_id = signer_address E signer, sa_height = snap_height snapshot,
         sa_block_hash = snap_block_hash snapshot, sa_state_root = snap_state_hash snapshot,
         sa_signature = signature\<rparr>)"

definition snapshot_attestation_verify :: "ext \<Rightarrow> snapshot_attestation \<Rightarrow> unit result" where
  "snapshot_attestation_verify E a =
     verify_signature E (sa_validator_id a)
       (snapshot_attestation_bytes (sa_height a) (sa_block_hash a) (sa_state_root a)) (sa_signature a)"

record snapshot_certificate =
  sc_height :: nat
  sc_block_hash :: string
  sc_state_root :: string
  sc_attestations :: "snapshot_attestation list"

definition from_attestations :: "snapshot_attestation list \<Rightarrow> snapshot_certificate result" where
  "from_attestations attestations =
     (case attestations of
        [] \<Rightarrow> Err (ESync EmptyAttestations)
      | first # _ \<Rightarrow>
          if list_ex (\<lambda>vote. sa_height vote \<noteq> sa_height first \<or> sa_block_hash vote \<noteq> sa_block_hash first
               \<or> sa_state_root vote \<noteq> sa_state_root first) attestations
          then Err (ESync MixedAttestations)
          else Ok \<lparr>sc_height = sa_height first, sc_block_hash = sa_block_hash first,
                   sc_state_root = sa_state_root first, sc_attestations = attestations\<rparr>)"

definition snapshot_vote ::
  "ext \<Rightarrow> snapshot_certificate \<Rightarrow> (string, nat) hmap \<Rightarrow> snapshot_attestation
   \<Rightarrow> string list \<times> nat \<Rightarrow> (string list \<times> nat) result" where
  "snapshot_vote E c powers vote = (\<lambda>(voters, signed).
     if sa_height vote \<noteq> sc_height c \<or> sa_block_hash vote \<noteq> sc_block_hash c
       \<or> sa_state_root vote \<noteq> sc_state_root c
     then Err (ESync MixedAttestations) else
     rbind (snapshot_attestation_verify E vote) (\<lambda>_.
     rbind (ok_or (hm_get powers (sa_validator_id vote)) (ESync UnknownAttester)) (\<lambda>power.
     if sa_validator_id vote \<in> set voters then Ok (voters, signed) else
     rbind (ok_or (checked_add 128 signed power) (ESync SnapshotPowerOverflow)) (\<lambda>signed'.
     Ok (sa_validator_id vote # voters, signed')))))"

definition snapshot_certificate_verify :: "ext \<Rightarrow> snapshot_certificate \<Rightarrow> validator list \<Rightarrow> unit result" where
  "snapshot_certificate_verify E c validators =
     (let total_power = wrapping_sum 128 (map val_voting_power validators) in
      if total_power = 0 then Err (ESync SnapshotZeroPower) else
      let powers = validator_powers validators in
      rbind (for_each (snapshot_vote E c powers) (sc_attestations c) ([], 0)) (\<lambda>(voters, signed).
      if wrapping_mul 128 signed 3 \<le> wrapping_mul 128 total_power 2
      then Err (ESync AttestationQuorum) else Ok ()))"

definition verify_snapshot ::
  "ext \<Rightarrow> snapshot_certificate \<Rightarrow> state_snapshot \<Rightarrow> validator list \<Rightarrow> unit result" where
  "verify_snapshot E c snapshot validators =
     rbind (snapshot_certificate_verify E c validators) (\<lambda>_.
     if sc_height c \<noteq> snap_height snapshot \<or> sc_block_hash c \<noteq> snap_block_hash snapshot
       \<or> sc_state_root c \<noteq> snap_state_hash snapshot
     then Err (ESync SnapshotMismatch) else Ok ())"

subsection \<open>Manifests, chunks and downloads\<close>

text \<open>What the sources use of serde and zstd.\<close>

record snapshot_codec =
  snapshot_to_json :: "state_snapshot \<Rightarrow> u8 list"
  snapshot_from_json :: "u8 list \<Rightarrow> state_snapshot option"
  zstd_encode :: "u8 list \<Rightarrow> u8 list"
  zstd_decode :: "u8 list \<Rightarrow> u8 list option"

record sync_tip =
  tip_at :: nat
  tip_block_hash :: string
  tip_state_root :: string

record snapshot_manifest =
  man_snapshot_id :: string
  man_tip :: sync_tip
  man_chunk_count :: nat
  man_compressed_bytes :: nat
  man_chunk_hashes :: "string list"

record snapshot_chunk =
  chk_snapshot_id :: string
  chk_index :: nat
  chk_bytes :: "u8 list"

record snapshot_download =
  dl_manifest :: snapshot_manifest
  dl_received :: "nat set"
  dl_files :: "(nat, u8 list) hmap"

definition digest_hex :: "ext \<Rightarrow> u8 list \<Rightarrow> string" where
  "digest_hex E bs = hex_encode E (sha256 E bs)"

text \<open>\<^verbatim>\<open>slice::chunks(n)\<close> for positive \<open>n\<close>.\<close>

function chunks_of :: "nat \<Rightarrow> 'a list \<Rightarrow> 'a list list" where
  "chunks_of n xs = (if xs = [] \<or> n = 0 then [] else take n xs # chunks_of n (drop n xs))"
  by pat_completeness auto
termination by (relation "measure (\<lambda>(n, xs). length xs)") auto

declare chunks_of.simps [simp del]

definition manifest_build ::
  "ext \<Rightarrow> snapshot_codec \<Rightarrow> state_snapshot \<Rightarrow> nat \<Rightarrow> (snapshot_manifest \<times> snapshot_chunk list) result" where
  "manifest_build E C snapshot chunk_bytes =
     (if chunk_bytes = 0 then Err (ESync ZeroChunkBytes) else
      let plain = snapshot_to_json C snapshot;
          compressed = zstd_encode C plain;
          snapshot_id = digest_hex E compressed;
          chunks = map (\<lambda>(index, bytes). \<lparr>chk_snapshot_id = snapshot_id, chk_index = index mod 2 ^ 32, chk_bytes = bytes\<rparr>)
            (enumerate 0 (chunks_of chunk_bytes compressed))
      in Ok (\<lparr>man_snapshot_id = snapshot_id,
              man_tip = \<lparr>tip_at = snap_height snapshot, tip_block_hash = snap_block_hash snapshot,
                         tip_state_root = snap_state_hash snapshot\<rparr>,
              man_chunk_count = length chunks mod 2 ^ 32, man_compressed_bytes = length compressed,
              man_chunk_hashes = map (\<lambda>c. digest_hex E (chk_bytes c)) chunks\<rparr>, chunks))"

definition manifest_verify :: "snapshot_manifest \<Rightarrow> unit result" where
  "manifest_verify m =
     (if man_chunk_count m = 0 \<or> man_chunk_count m \<noteq> length (man_chunk_hashes m) then Err (ESync BadChunkCount)
      else if length (man_snapshot_id m) \<noteq> 64 \<or> list_ex (\<lambda>v. length v \<noteq> 64) (man_chunk_hashes m)
      then Err (ESync BadHashLength) else Ok ())"

text \<open>
  \<^verbatim>\<open>open\<close> finds either no progress file or the manifest and the set stored by an earlier run; the
  chunk files on disk stay.
\<close>

definition download_open ::
  "snapshot_manifest \<Rightarrow> (snapshot_manifest \<times> nat set) option \<Rightarrow> (nat, u8 list) hmap \<Rightarrow> snapshot_download result" where
  "download_open manifest stored files =
     rbind (manifest_verify manifest) (\<lambda>_.
     case stored of
       None \<Rightarrow> Ok \<lparr>dl_manifest = manifest, dl_received = {}, dl_files = files\<rparr>
     | Some (m, received) \<Rightarrow>
         if m \<noteq> manifest then Err (ESync ManifestChanged)
         else Ok \<lparr>dl_manifest = m, dl_received = received, dl_files = files\<rparr>)"

definition is_complete :: "snapshot_download \<Rightarrow> bool" where
  "is_complete d = (card (dl_received d) = man_chunk_count (dl_manifest d))"

definition download_accept :: "ext \<Rightarrow> snapshot_download \<Rightarrow> snapshot_chunk \<Rightarrow> (bool \<times> snapshot_download) result" where
  "download_accept E d chunk =
     (if chk_snapshot_id chunk \<noteq> man_snapshot_id (dl_manifest d) then Err (ESync OtherSnapshotChunk)
      else if chk_index chunk \<ge> length (man_chunk_hashes (dl_manifest d)) then Err (ESync ChunkIndexRange)
      else if digest_hex E (chk_bytes chunk) \<noteq> man_chunk_hashes (dl_manifest d) ! chk_index chunk
      then Err (ESync ChunkHashMismatch)
      else let d1 = d\<lparr>dl_files := hm_insert (dl_files d) (chk_index chunk) (chk_bytes chunk),
                      dl_received := insert (chk_index chunk) (dl_received d)\<rparr>
           in Ok (is_complete d1, d1))"

definition download_missing :: "snapshot_download \<Rightarrow> nat list" where
  "download_missing d = filter (\<lambda>i. i \<notin> dl_received d) [0..<man_chunk_count (dl_manifest d)]"

definition read_chunk :: "snapshot_download \<Rightarrow> nat \<Rightarrow> u8 list \<Rightarrow> u8 list result" where
  "read_chunk d index compressed =
     (case hm_get (dl_files d) index of
        None \<Rightarrow> Err (ESync ChunkFileMissing)
      | Some bytes \<Rightarrow> Ok (compressed @ bytes))"

definition download_finish :: "ext \<Rightarrow> snapshot_codec \<Rightarrow> snapshot_download \<Rightarrow> state_snapshot result" where
  "download_finish E C d =
     (if \<not> is_complete d then Err (ESync ChunksMissing) else
      rbind (for_each (read_chunk d) [0..<man_chunk_count (dl_manifest d)] []) (\<lambda>compressed.
      if length compressed \<noteq> man_compressed_bytes (dl_manifest d) then Err (ESync CompressedSize) else
      if digest_hex E compressed \<noteq> man_snapshot_id (dl_manifest d) then Err (ESync SnapshotIdMismatch) else
      rbind (ok_or (zstd_decode C compressed) (ESync SnapshotDecompress)) (\<lambda>bytes.
      rbind (ok_or (snapshot_from_json C bytes) (ESync SnapshotDecode)) (\<lambda>snapshot.
      if snap_height snapshot \<noteq> tip_at (man_tip (dl_manifest d))
        \<or> snap_block_hash snapshot \<noteq> tip_block_hash (man_tip (dl_manifest d))
        \<or> snap_state_hash snapshot \<noteq> tip_state_root (man_tip (dl_manifest d))
      then Err (ESync TipMismatch) else Ok snapshot))))"

subsection \<open>Agreement on the tip\<close>

record tip_quorum =
  tq_minimum_peers :: nat
  tq_votes :: "(string, sync_tip) hmap"

definition tip_quorum_new :: "nat \<Rightarrow> tip_quorum result" where
  "tip_quorum_new minimum_peers =
     (if \<not> (2 \<le> minimum_peers \<and> minimum_peers \<le> 3) then Err (ESync BadPeerCount)
      else Ok \<lparr>tq_minimum_peers = minimum_peers, tq_votes = []\<rparr>)"

definition tip_key :: "sync_tip \<Rightarrow> nat \<times> string \<times> string" where
  "tip_key t = (tip_at t, tip_block_hash t, tip_state_root t)"

definition tip_counts :: "(string, sync_tip) hmap \<Rightarrow> ((nat \<times> string \<times> string) \<times> nat) list" where
  "tip_counts votes = foldl (\<lambda>m (peer, v). bt_entry (tip_key v) 0 (\<lambda>n. n + 1) m) [] votes"

text \<open>\<^verbatim>\<open>max_by_key\<close> returns the last of the maximal elements.\<close>

fun max_by_last :: "('a \<Rightarrow> nat) \<Rightarrow> 'a list \<Rightarrow> 'a option" where
  "max_by_last f [] = None"
| "max_by_last f (x # xs) =
     (case max_by_last f xs of None \<Rightarrow> Some x | Some y \<Rightarrow> if f y \<ge> f x then Some y else Some x)"

definition tip_observe :: "tip_quorum \<Rightarrow> string \<Rightarrow> sync_tip \<Rightarrow> sync_tip option \<times> tip_quorum" where
  "tip_observe q peer_id tip =
     (let votes = hm_insert (tq_votes q) peer_id tip;
          agreed = filter (\<lambda>(_, n). n \<ge> tq_minimum_peers q) (tip_counts votes)
      in (map_option (\<lambda>((height, block_hash, state_root), _).
            \<lparr>tip_at = height, tip_block_hash = block_hash, tip_state_root = state_root\<rparr>)
            (max_by_last (\<lambda>((height, _, _), _). height) agreed),
          q\<lparr>tq_votes := votes\<rparr>))"

subsection \<open>Certified snapshots\<close>

definition good_attestation :: "ext \<Rightarrow> snapshot_certificate \<Rightarrow> snapshot_attestation \<Rightarrow> bool" where
  "good_attestation E c a \<longleftrightarrow> sa_height a = sc_height c \<and> sa_block_hash a = sc_block_hash c
     \<and> sa_state_root a = sc_state_root c \<and> snapshot_attestation_verify E a = Ok ()"

lemma snapshot_vote_Ok:
  "snapshot_vote E c powers a (vs, p) = Ok (vs', p') \<longleftrightarrow>
     good_attestation E c a \<and> hm_get powers (sa_validator_id a) \<noteq> None \<and>
     (if sa_validator_id a \<in> set vs then vs' = vs \<and> p' = p
      else vs' = sa_validator_id a # vs \<and> p' = p + hm_get0 powers (sa_validator_id a) \<and> p' < 2 ^ 128)"
  by (cases "snapshot_attestation_verify E a"; cases "hm_get powers (sa_validator_id a)")
    (auto simp: snapshot_vote_def good_attestation_def hm_get0_def checked_add_def)

interpretation sv: vote_tally "snapshot_vote E c" sa_validator_id "good_attestation E c" for E c
  by unfold_locales (rule snapshot_vote_Ok)

lemma snapshot_verify_iff:
  assumes "3 * total_voting_power validators < 2 ^ 128"
  shows "snapshot_certificate_verify E c validators = Ok () \<longleftrightarrow>
    (\<forall>a \<in> set (sc_attestations c). good_attestation E c a)
    \<and> power_quorum validators (sa_validator_id ` set (sc_attestations c))"
  unfolding sv.tally_iff [OF assms, symmetric] snapshot_certificate_verify_def Let_def
  by (auto simp: case_prod_beta)

text \<open>
  Two certificates accepted against one validator list share signers with more than a third of the
  power, who attested both states.
\<close>

lemma snapshot_certificates_overlap:
  assumes "3 * total_voting_power validators < 2 ^ 128"
    and "snapshot_certificate_verify E c validators = Ok ()" and "snapshot_certificate_verify E d validators = Ok ()"
  obtains D where "D \<subseteq> val_id ` set validators" and "total_voting_power validators < 3 * signed_power validators D"
    and "\<And>v. v \<in> D \<Longrightarrow> (\<exists>a \<in> set (sc_attestations c). good_attestation E c a \<and> sa_validator_id a = v)
      \<and> (\<exists>a \<in> set (sc_attestations d). good_attestation E d a \<and> sa_validator_id a = v)"
proof -
  let ?C = "sa_validator_id ` set (sc_attestations c)" and ?D = "sa_validator_id ` set (sc_attestations d)"
    and ?V = "val_id ` set validators"
  note c = assms(2) [unfolded snapshot_verify_iff [OF assms(1)]] and d = assms(3) [unfolded snapshot_verify_iff [OF assms(1)]]
  have "total_voting_power validators < 3 * signed_power validators (?C \<inter> ?D \<inter> ?V)"
    using cq.overlap [of validators ?C ?D] c d by (simp add: signed_power_def)
  then show thesis
  proof (rule that [of "?C \<inter> ?D \<inter> ?V", rotated])
    show "?C \<inter> ?D \<inter> ?V \<subseteq> ?V" by blast
    fix v assume "v \<in> ?C \<inter> ?D \<inter> ?V"
    then obtain a a' where "a \<in> set (sc_attestations c)" "sa_validator_id a = v"
      "a' \<in> set (sc_attestations d)" "sa_validator_id a' = v" by auto
    with c d show "(\<exists>a \<in> set (sc_attestations c). good_attestation E c a \<and> sa_validator_id a = v)
      \<and> (\<exists>a \<in> set (sc_attestations d). good_attestation E d a \<and> sa_validator_id a = v)" by blast
  qed
qed

subsection \<open>Transfer of a snapshot\<close>

lemma concat_chunks_of: "0 < n \<Longrightarrow> concat (chunks_of n xs) = xs"
proof (induction n xs rule: chunks_of.induct)
  case (1 n xs)
  show ?case
  proof (cases "xs = []")
    case True
    then show ?thesis by (subst chunks_of.simps) simp
  next
    case False
    with 1 show ?thesis by (subst chunks_of.simps) simp
  qed
qed

text \<open>The documented behaviour of the two crates on a snapshot \<open>s\<close>; a zstd frame is never empty.\<close>

definition codec_laws :: "snapshot_codec \<Rightarrow> state_snapshot \<Rightarrow> bool" where
  "codec_laws C s \<longleftrightarrow> snapshot_from_json C (snapshot_to_json C s) = Some s
     \<and> (\<forall>b. zstd_decode C (zstd_encode C b) = Some b) \<and> (\<forall>b. zstd_encode C b \<noteq> [])"

definition digest_law :: "ext \<Rightarrow> bool" where
  "digest_law E \<longleftrightarrow> (\<forall>bs. length (digest_hex E bs) = 64)"

definition accept_all :: "ext \<Rightarrow> snapshot_chunk list \<Rightarrow> snapshot_download \<Rightarrow> snapshot_download result" where
  "accept_all E cs d = for_each (\<lambda>c d. rbind (download_accept E d c) (\<lambda>r. Ok (snd r))) cs d"

text \<open>The pieces of the compressed snapshot, and what a download that follows its manifest has stored.\<close>

definition holds_pieces :: "snapshot_manifest \<Rightarrow> u8 list list \<Rightarrow> snapshot_download \<Rightarrow> bool" where
  "holds_pieces m pieces d \<longleftrightarrow> dl_manifest d = m
     \<and> (\<forall>i \<in> dl_received d. i < length pieces \<and> hm_get (dl_files d) i = Some (pieces ! i))"

definition pieces_chunk :: "ext \<Rightarrow> snapshot_manifest \<Rightarrow> u8 list list \<Rightarrow> snapshot_chunk \<Rightarrow> bool" where
  "pieces_chunk E m pieces c \<longleftrightarrow> chk_snapshot_id c = man_snapshot_id m \<and> chk_index c < length pieces
     \<and> chk_bytes c = pieces ! chk_index c"

lemma accept_piece:
  assumes "holds_pieces m pieces d" and "pieces_chunk E m pieces c"
    and "man_chunk_hashes m = map (digest_hex E) pieces"
  obtains d' b where "download_accept E d c = Ok (b, d')" and "holds_pieces m pieces d'"
    and "dl_received d' = insert (chk_index c) (dl_received d)"
  using assms that by (auto simp: download_accept_def holds_pieces_def pieces_chunk_def Let_def)

lemma accept_all_pieces:
  assumes "holds_pieces m pieces d" and "\<forall>c \<in> set cs. pieces_chunk E m pieces c"
    and "man_chunk_hashes m = map (digest_hex E) pieces"
  shows "\<exists>d'. accept_all E cs d = Ok d' \<and> holds_pieces m pieces d'
    \<and> dl_received d' = dl_received d \<union> chk_index ` set cs"
  using assms(1,2)
proof (induction cs arbitrary: d)
  case (Cons c cs)
  have "pieces_chunk E m pieces c" using Cons.prems(2) by simp
  from accept_piece [OF Cons.prems(1) this assms(3)] obtain d1 b where d1: "download_accept E d c = Ok (b, d1)"
    "holds_pieces m pieces d1" "dl_received d1 = insert (chk_index c) (dl_received d)" .
  have "\<forall>c \<in> set cs. pieces_chunk E m pieces c" using Cons.prems(2) by simp
  from Cons.IH [OF d1(2) this] obtain d' where d': "accept_all E cs d1 = Ok d'" "holds_pieces m pieces d'"
    and rec: "dl_received d' = dl_received d1 \<union> chk_index ` set cs" by blast
  have "accept_all E (c # cs) d = Ok d'" using d1(1) d'(1) by (simp add: accept_all_def)
  moreover have "dl_received d' = dl_received d \<union> chk_index ` set (c # cs)" using rec d1(3) by simp
  ultimately show ?case using d'(2) by (intro exI [of _ d'] conjI)
qed (simp add: accept_all_def)

lemma read_pieces:
  assumes "holds_pieces m pieces d" and "{i..<j} \<subseteq> dl_received d" and "i \<le> j"
  shows "for_each (read_chunk d) [i..<j] acc = Ok (acc @ concat (map ((!) pieces) [i..<j]))"
  using assms(2,3)
proof (induction "j - i" arbitrary: i acc)
  case (Suc n)
  then have lt: "i < j" by simp
  with Suc.prems have "i \<in> dl_received d" by auto
  then have "read_chunk d i acc = Ok (acc @ pieces ! i)"
    using assms(1) by (simp add: read_chunk_def holds_pieces_def)
  moreover have "for_each (read_chunk d) [Suc i..<j] a = Ok (a @ concat (map ((!) pieces) [Suc i..<j]))" for a
    using Suc.hyps(2) Suc.prems by (intro Suc.hyps(1)) auto
  ultimately show ?case using lt by (simp add: upt_conv_Cons)
qed simp

lemma finish_pieces:
  assumes "codec_laws C snap" and "holds_pieces m pieces d" and "dl_received d = {0..<length pieces}"
    and "concat pieces = zstd_encode C (snapshot_to_json C snap)"
    and "m = \<lparr>man_snapshot_id = digest_hex E (concat pieces),
        man_tip = \<lparr>tip_at = snap_height snap, tip_block_hash = snap_block_hash snap, tip_state_root = snap_state_hash snap\<rparr>,
        man_chunk_count = length pieces, man_compressed_bytes = length (concat pieces), man_chunk_hashes = hs\<rparr>"
  shows "download_finish E C d = Ok snap"
proof -
  have m: "dl_manifest d = m" using assms(2) by (simp add: holds_pieces_def)
  have "is_complete d" by (simp add: is_complete_def m assms(3,5))
  moreover have "for_each (read_chunk d) [0..<length pieces] [] = Ok (concat pieces)"
    using read_pieces [OF assms(2), of 0 "length pieces" "[]"] assms(3) by (simp add: map_nth)
  ultimately show ?thesis
    using assms(1) by (simp add: download_finish_def m) (simp add: assms(4,5) codec_laws_def)
qed

text \<open>
  C37.  A snapshot arrives as it was sent.  The manifest of a snapshot is accepted by a downloading
  node, its chunks are accepted in any order and any number of times, and once every chunk has
  arrived \<^verbatim>\<open>finish\<close> returns the snapshot.
\<close>

theorem snapshot_transfer_roundtrip:
  assumes "codec_laws C snap" and "digest_law E" and "manifest_build E C snap n = Ok (m, chunks)"
    and "length chunks < 2 ^ 32" and "set arrived = set chunks"
  shows "\<exists>d0 d. download_open m None [] = Ok d0 \<and> accept_all E arrived d0 = Ok d \<and> download_finish E C d = Ok snap"
proof -
  let ?z = "zstd_encode C (snapshot_to_json C snap)" and ?pieces = "chunks_of n (zstd_encode C (snapshot_to_json C snap))"
  have n: "0 < n" using assms(3) by (auto simp: manifest_build_def split: if_splits)
  have z: "concat ?pieces = ?z" by (rule concat_chunks_of [OF n])
  have chunks: "chunks = map (\<lambda>(i, bytes). \<lparr>chk_snapshot_id = digest_hex E ?z, chk_index = i mod 2 ^ 32, chk_bytes = bytes\<rparr>)
      (enumerate 0 ?pieces)"
    using assms(3) n by (simp add: manifest_build_def Let_def)
  then have len: "length chunks = length ?pieces" by simp
  have hashes: "map (\<lambda>c. digest_hex E (chk_bytes c)) chunks = map (digest_hex E) ?pieces"
    unfolding chunks by (intro nth_equalityI) (simp_all add: nth_enumerate_eq)
  have m: "m = \<lparr>man_snapshot_id = digest_hex E (concat ?pieces),
      man_tip = \<lparr>tip_at = snap_height snap, tip_block_hash = snap_block_hash snap, tip_state_root = snap_state_hash snap\<rparr>,
      man_chunk_count = length ?pieces, man_compressed_bytes = length (concat ?pieces),
      man_chunk_hashes = map (digest_hex E) ?pieces\<rparr>"
    using assms(3) n assms(4) [unfolded len]
    unfolding manifest_build_def Let_def chunks [symmetric] hashes len z by simp
  have ne: "?pieces \<noteq> []" using assms(1) z by (metis codec_laws_def concat.simps(1))
  define d0 where "d0 = \<lparr>dl_manifest = m, dl_received = {}, dl_files = []\<rparr>"
  have "manifest_verify m = Ok ()"
    using assms(2) ne by (simp add: m manifest_verify_def digest_law_def list_ex_iff)
  then have opened: "download_open m None [] = Ok d0" by (simp add: download_open_def d0_def)
  have index: "c \<in> set chunks \<longleftrightarrow> (\<exists>i < length ?pieces. c = \<lparr>chk_snapshot_id = digest_hex E ?z, chk_index = i, chk_bytes = ?pieces ! i\<rparr>)" for c
    using assms(4) len unfolding chunks by (auto simp: in_set_enumerate_eq image_iff Bex_def)
  then have "\<forall>c \<in> set arrived. pieces_chunk E m ?pieces c"
    unfolding assms(5) by (auto simp: pieces_chunk_def m z)
  moreover have "holds_pieces m ?pieces d0" and received0: "dl_received d0 = {}" by (simp_all add: holds_pieces_def d0_def)
  moreover have hashes_m: "man_chunk_hashes m = map (digest_hex E) ?pieces" by (simp add: m)
  ultimately obtain d where d: "accept_all E arrived d0 = Ok d" "holds_pieces m ?pieces d"
    and rec: "dl_received d = chk_index ` set chunks"
    using accept_all_pieces [of m ?pieces d0 arrived E] hashes_m received0 unfolding assms(5) by auto
  have "set chunks = (\<lambda>i. \<lparr>chk_snapshot_id = digest_hex E ?z, chk_index = i, chk_bytes = ?pieces ! i\<rparr>) ` {0..<length ?pieces}"
    using index by (intro set_eqI) (simp only: image_iff Bex_def atLeastLessThan_iff le0 simp_thms)
  then have "chk_index ` set chunks = {0..<length ?pieces}" by (simp add: image_image)
  then have "download_finish E C d = Ok snap"
    using finish_pieces [OF assms(1) d(2) _ z m] rec by simp
  with opened d(1) show ?thesis by blast
qed

definition toy_codec :: "state_snapshot \<Rightarrow> snapshot_codec" where
  "toy_codec s = \<lparr>snapshot_to_json = (\<lambda>_. []), snapshot_from_json = (\<lambda>_. Some s),
     zstd_encode = (\<lambda>b. 0 # b), zstd_decode = (\<lambda>b. Some (tl b))\<rparr>"

definition sample_snapshot :: state_snapshot where
  "sample_snapshot = \<lparr>snap_chain_id = 1, snap_genesis_commitment = [], snap_height = 7, snap_block_hash = ''b'',
     snap_state_hash = ''s'', snap_balances = [(''alice'', 5)], snap_next_nonces = [], snap_executed_events = {},
     snap_staking = staking_default\<rparr>"

lemma toy_codec_laws: "codec_laws (toy_codec s) s"
  by (simp add: codec_laws_def toy_codec_def)

lemma toy_digest_law: "digest_law toy_ext"
proof -
  have "length (toy_hex_encode bs) = 2 * length bs" for bs by (induction bs) auto
  then show ?thesis by (simp add: digest_law_def digest_hex_def toy_ext_def toy_hash_def del: toy_hex_encode.simps)
qed

theorem snapshot_transfer_roundtrip_witness:
  "\<exists>m chunks d0 d. manifest_build toy_ext (toy_codec sample_snapshot) sample_snapshot 1 = Ok (m, chunks)
     \<and> download_open m None [] = Ok d0 \<and> accept_all toy_ext (rev chunks) d0 = Ok d
     \<and> download_finish toy_ext (toy_codec sample_snapshot) d = Ok sample_snapshot"
proof -
  obtain m chunks where b: "manifest_build toy_ext (toy_codec sample_snapshot) sample_snapshot 1 = Ok (m, chunks)"
    by (simp add: manifest_build_def Let_def)
  have "chunks_of 1 [0 :: u8] = [[0]]" by (subst chunks_of.simps, subst chunks_of.simps) simp
  with b have "length chunks < 2 ^ 32" by (auto simp: manifest_build_def Let_def toy_codec_def)
  from snapshot_transfer_roundtrip [OF toy_codec_laws toy_digest_law b this, of "rev chunks"] b show ?thesis by auto
qed

subsection \<open>The chosen tip\<close>

lemma tip_counts_snoc [simp]:
  "tip_counts (votes @ [(p, v)]) = bt_entry (tip_key v) 0 (\<lambda>n. n + 1) (tip_counts votes)"
  by (simp add: tip_counts_def)

lemma tip_counts_exact:
  "bt_sorted (tip_counts votes) \<and>
   map_of (tip_counts votes) k =
     (let n = length (filter (\<lambda>(p, v). tip_key v = k) votes) in if n = 0 then None else Some n)"
proof (induction votes rule: rev_induct)
  case (snoc pv votes)
  obtain p v where pv: "pv = (p, v)" by (cases pv)
  from snoc have sorted: "bt_sorted (tip_counts votes)" by blast
  have "map_of (tip_counts votes) k = (if filter (\<lambda>(p, v). tip_key v = k) votes = [] then None
      else Some (length (filter (\<lambda>(p, v). tip_key v = k) votes)))"
    using snoc by (auto simp: Let_def)
  then show ?case
    using bt_entry_sorted [OF sorted] bt_entry_get [OF sorted, of "tip_key v" 0 "\<lambda>n. n + 1" k]
    by (auto simp: pv Let_def)
qed (simp add: tip_counts_def)

lemma max_by_last_Some: "max_by_last f xs = Some x \<Longrightarrow> x \<in> set xs \<and> (\<forall>y \<in> set xs. f y \<le> f x)"
proof (induction xs arbitrary: x)
  case (Cons a xs)
  show ?case
  proof (cases "max_by_last f xs")
    case None
    then have "xs = []" by (cases xs) (auto split: option.splits if_splits)
    with Cons.prems show ?thesis by simp
  next
    case (Some y)
    with Cons.prems Cons.IH [OF Some] show ?thesis by (auto split: if_splits)
  qed
qed simp

text \<open>A tip is chosen only if as many peers as required report it, and no higher one has as many.\<close>

lemma tip_observe_sound:
  assumes "tip_observe q peer tip = (Some t, q')"
  shows "tq_minimum_peers q \<le> length (filter (\<lambda>(p, v). tip_key v = tip_key t) (tq_votes q'))"
    and "tq_minimum_peers q \<le> length (filter (\<lambda>(p, v). tip_key v = tip_key t') (tq_votes q'))
      \<Longrightarrow> 0 < tq_minimum_peers q \<Longrightarrow> tip_at t' \<le> tip_at t"
proof -
  let ?votes = "hm_insert (tq_votes q) peer tip"
  let ?agreed = "filter (\<lambda>(_, n). n \<ge> tq_minimum_peers q) (tip_counts ?votes)"
  have q': "tq_votes q' = ?votes" using assms by (auto simp: tip_observe_def Let_def)
  from assms obtain n where mx: "max_by_last (\<lambda>((height, _, _), _). height) ?agreed = Some (tip_key t, n)"
    by (auto simp: tip_observe_def Let_def tip_key_def)
  note best = max_by_last_Some [OF mx]
  have dist: "distinct (map fst (tip_counts ?votes))" using tip_counts_exact bt_sorted_distinct by blast
  have "map_of (tip_counts ?votes) (tip_key t) = Some n" using best dist by (simp add: map_of_is_SomeI)
  with best show "tq_minimum_peers q \<le> length (filter (\<lambda>(p, v). tip_key v = tip_key t) (tq_votes q'))"
    using tip_counts_exact [of ?votes "tip_key t"] by (auto simp: q' Let_def split: if_splits)
  assume many: "tq_minimum_peers q \<le> length (filter (\<lambda>(p, v). tip_key v = tip_key t') (tq_votes q'))" "0 < tq_minimum_peers q"
  then have "map_of (tip_counts ?votes) (tip_key t') = Some (length (filter (\<lambda>(p, v). tip_key v = tip_key t') ?votes))"
    using tip_counts_exact [of ?votes "tip_key t'"] unfolding q' Let_def
    by (metis (no_types, lifting) le_zero_eq less_irrefl)
  then have "(tip_key t', length (filter (\<lambda>(p, v). tip_key v = tip_key t') ?votes)) \<in> set ?agreed"
    using many by (auto simp: q' dest: map_of_SomeD)
  with best show "tip_at t' \<le> tip_at t" by (fastforce simp: tip_key_def)
qed

end
