(* ===== verification/SnapshotScheduler.thy ===== *)
theory SnapshotScheduler
  imports Prelude
begin

text \<open>
  The distribution of snapshot chunks over peers (\<^verbatim>\<open>src/src/snapshot_scheduler.rs\<close>): a queue of
  missing chunks, the chunks in flight, retry counters, timeouts.  Instants and durations are
  milliseconds.
\<close>

subsection \<open>State and operations\<close>

record chunk_assignment =
  asg_peer_id :: string
  asg_chunk_index :: nat

record in_flight =
  inf_peer_id :: string
  inf_started :: nat

record snapshot_scheduler =
  sch_pending :: "nat list"
  sch_peers :: "string list"
  sch_in_flight :: "(nat, in_flight) hmap"
  sch_failures :: "(string \<times> nat, nat) hmap"
  sch_cursor :: nat
  sch_timeout :: nat
  sch_max_in_flight :: nat
  sch_max_peer_retries :: nat

definition scheduler_new ::
  "nat list \<Rightarrow> string list \<Rightarrow> nat \<Rightarrow> nat \<Rightarrow> nat \<Rightarrow> snapshot_scheduler result" where
  "scheduler_new missing peers timeout max_in_flight max_peer_retries =
     (if length peers < 2 \<or> max_in_flight = 0 \<or> max_peer_retries = 0 then Err (ESync SchedulerLimits)
      else Ok \<lparr>sch_pending = missing, sch_peers = peers, sch_in_flight = [], sch_failures = [], sch_cursor = 0,
               sch_timeout = timeout, sch_max_in_flight = max_in_flight, sch_max_peer_retries = max_peer_retries\<rparr>)"

definition scheduler_fail :: "snapshot_scheduler \<Rightarrow> string \<Rightarrow> nat \<Rightarrow> snapshot_scheduler" where
  "scheduler_fail s peer_id chunk_index =
     (case hm_get (sch_in_flight s) chunk_index of
        Some f \<Rightarrow>
          if inf_peer_id f = peer_id
          then s\<lparr>sch_in_flight := hm_remove (sch_in_flight s) chunk_index,
                 sch_failures := hm_insert (sch_failures s) (peer_id, chunk_index)
                   (wrapping_add 32 (hm_get0 (sch_failures s) (peer_id, chunk_index)) 1),
                 sch_pending := sch_pending s @ [chunk_index]\<rparr>
          else s
      | None \<Rightarrow> s)"

definition requeue_timed_out :: "snapshot_scheduler \<Rightarrow> nat \<Rightarrow> snapshot_scheduler" where
  "requeue_timed_out s now =
     (let timed_out = filter (\<lambda>(_, f). saturating_sub now (inf_started f) \<ge> sch_timeout s) (sch_in_flight s)
      in foldl (\<lambda>s (chunk, f). scheduler_fail s (inf_peer_id f) chunk) s timed_out)"

text \<open>The loop \<^verbatim>\<open>for _ in 0..self.peers.len()\<close>; its first argument counts the rounds left.\<close>

fun next_peer_loop :: "nat \<Rightarrow> snapshot_scheduler \<Rightarrow> nat \<Rightarrow> string option \<times> snapshot_scheduler" where
  "next_peer_loop 0 s chunk = (None, s)"
| "next_peer_loop (Suc n) s chunk =
     (let peer = sch_peers s ! (sch_cursor s mod length (sch_peers s));
          s1 = s\<lparr>sch_cursor := wrapping_add 64 (sch_cursor s) 1\<rparr>
      in if hm_get0 (sch_failures s) (peer, chunk) < sch_max_peer_retries s then (Some peer, s1)
         else next_peer_loop n s1 chunk)"

definition next_peer :: "snapshot_scheduler \<Rightarrow> nat \<Rightarrow> string option \<times> snapshot_scheduler" where
  "next_peer s chunk = next_peer_loop (length (sch_peers s)) s chunk"

lemma next_peer_loop_state:
  "snd (next_peer_loop n s chunk) = s\<lparr>sch_cursor := sch_cursor (snd (next_peer_loop n s chunk))\<rparr>"
proof (induction n arbitrary: s)
  case (Suc n)
  let ?s1 = "s\<lparr>sch_cursor := wrapping_add 64 (sch_cursor s) 1\<rparr>"
  have "snd (next_peer_loop n ?s1 chunk) = s\<lparr>sch_cursor := sch_cursor (snd (next_peer_loop n ?s1 chunk))\<rparr>"
    by (subst Suc.IH) simp
  then show ?case by (simp add: Let_def)
qed simp

lemma next_peer_same:
  assumes "next_peer s chunk = (p, s1)"
  shows "sch_pending s1 = sch_pending s \<and> sch_in_flight s1 = sch_in_flight s \<and> sch_peers s1 = sch_peers s
    \<and> sch_failures s1 = sch_failures s \<and> sch_max_in_flight s1 = sch_max_in_flight s
    \<and> sch_max_peer_retries s1 = sch_max_peer_retries s"
proof -
  obtain c where "s1 = s\<lparr>sch_cursor := c\<rparr>"
    using next_peer_loop_state [of "length (sch_peers s)" s chunk] assms unfolding next_peer_def by simp
  then show ?thesis by simp
qed

function assign_loop :: "snapshot_scheduler \<Rightarrow> nat \<Rightarrow> chunk_assignment list \<times> snapshot_scheduler" where
  "assign_loop s now =
     (if length (sch_in_flight s) < sch_max_in_flight s then
        (case sch_pending s of
           [] \<Rightarrow> ([], s)
         | chunk_index # rest \<Rightarrow>
             (case next_peer (s\<lparr>sch_pending := rest\<rparr>) chunk_index of
                (None, s1) \<Rightarrow> ([], s1\<lparr>sch_pending := sch_pending s1 @ [chunk_index]\<rparr>)
              | (Some peer_id, s1) \<Rightarrow>
                  (let (assigned, s2) = assign_loop
                     (s1\<lparr>sch_in_flight := hm_insert (sch_in_flight s1) chunk_index
                        \<lparr>inf_peer_id = peer_id, inf_started = now\<rparr>\<rparr>) now
                   in (\<lparr>asg_peer_id = peer_id, asg_chunk_index = chunk_index\<rparr> # assigned, s2))))
      else ([], s))"
  by pat_completeness auto
termination
  by (relation "measure (\<lambda>(s, now). length (sch_pending s))") (auto dest!: next_peer_same [OF sym])

declare assign_loop.simps [simp del]

definition scheduler_assign :: "snapshot_scheduler \<Rightarrow> nat \<Rightarrow> chunk_assignment list \<times> snapshot_scheduler" where
  "scheduler_assign s now = assign_loop (requeue_timed_out s now) now"

definition scheduler_complete :: "snapshot_scheduler \<Rightarrow> string \<Rightarrow> nat \<Rightarrow> snapshot_scheduler result" where
  "scheduler_complete s peer_id chunk_index =
     (case hm_get (sch_in_flight s) chunk_index of
        Some f \<Rightarrow>
          if inf_peer_id f = peer_id
          then Ok (s\<lparr>sch_in_flight := hm_remove (sch_in_flight s) chunk_index\<rparr>)
          else Err (ESync OtherAssignment)
      | None \<Rightarrow> Err (ESync OtherAssignment))"

definition scheduler_is_done :: "snapshot_scheduler \<Rightarrow> bool" where
  "scheduler_is_done s = (sch_pending s = [] \<and> sch_in_flight s = [])"

subsection \<open>No chunk is lost\<close>

text \<open>
  The chunks the scheduler still has to deliver: queued or in flight.  Every operation but
  \<^verbatim>\<open>complete\<close> only moves chunks between the two.
\<close>

definition outstanding :: "snapshot_scheduler \<Rightarrow> nat multiset" where
  "outstanding s = mset (sch_pending s) + mset (map fst (sch_in_flight s))"

definition sched_inv :: "snapshot_scheduler \<Rightarrow> bool" where
  "sched_inv s \<longleftrightarrow> 2 \<le> length (sch_peers s) \<and> length (sch_in_flight s) \<le> sch_max_in_flight s
     \<and> distinct (sch_pending s @ map fst (sch_in_flight s))
     \<and> (\<forall>(c, f) \<in> set (sch_in_flight s). inf_peer_id f \<in> set (sch_peers s))"

lemma hm_remove_keys:
  assumes "hm_wf m" and "hm_get m k = Some v"
  shows "mset (map fst m) = add_mset k (mset (map fst (hm_remove m k)))" and "set (hm_remove m k) \<subseteq> set m"
    and "length (hm_remove m k) \<le> length m"
proof -
  have "mset (map fst m) = add_mset k (mset (map fst (hm_remove m k)))" if "k \<in> fst ` set m"
    using assms(1) that
  proof (induction m)
    case (Cons e m)
    obtain k' v where e: "e = (k', v)" by (cases e)
    show ?case
    proof (cases "k' = k")
      case True
      with Cons.prems e have "k \<notin> fst ` set m" by (simp add: hm_wf_def)
      then have "AList.delete k m = m" by (rule delete_id)
      with True show ?thesis by (simp add: hm_remove_def e)
    next
      case False
      with Cons e show ?thesis by (simp add: hm_remove_def hm_wf_def)
    qed
  qed simp
  then show "mset (map fst m) = add_mset k (mset (map fst (hm_remove m k)))"
    using assms(2) hm_get_dom [of m k] by simp
  show "set (hm_remove m k) \<subseteq> set m" by (auto simp: hm_remove_def AList.delete_eq)
  show "length (hm_remove m k) \<le> length m" by (simp add: hm_remove_def AList.delete_eq)
qed

lemma hm_insert_fresh: "hm_get m k = None \<Longrightarrow> hm_insert m k v = m @ [(k, v)]"
  by (simp add: hm_get_def hm_insert_def map_of_eq_None_iff update_nonempty) (induction m, auto)

lemma scheduler_fail_keeps:
  assumes "sched_inv s"
  shows "outstanding (scheduler_fail s p c) = outstanding s \<and> sched_inv (scheduler_fail s p c)
    \<and> sch_max_in_flight (scheduler_fail s p c) = sch_max_in_flight s"
proof (cases "\<exists>f. hm_get (sch_in_flight s) c = Some f \<and> inf_peer_id f = p")
  case True
  then obtain f where f: "hm_get (sch_in_flight s) c = Some f" "inf_peer_id f = p" by blast
  have wf: "hm_wf (sch_in_flight s)" using assms by (simp add: sched_inv_def hm_wf_def)
  note k = hm_remove_keys [OF wf f(1)]
  let ?s = "scheduler_fail s p c"
  have s: "sch_pending ?s = sch_pending s @ [c]" "sch_in_flight ?s = hm_remove (sch_in_flight s) c"
    "sch_peers ?s = sch_peers s" "sch_max_in_flight ?s = sch_max_in_flight s"
    using f by (simp_all add: scheduler_fail_def)
  have out: "outstanding ?s = outstanding s" unfolding outstanding_def s k(1) by simp
  then have "distinct (sch_pending ?s @ map fst (sch_in_flight ?s))"
    using assms unfolding sched_inv_def outstanding_def by (metis mset_append mset_eq_imp_distinct_iff)
  with out assms k s show ?thesis unfolding sched_inv_def by auto
next
  case False
  then have "scheduler_fail s p c = s" by (auto simp: scheduler_fail_def split: option.splits)
  with assms show ?thesis by simp
qed

lemma requeue_keeps:
  assumes "sched_inv s"
  shows "outstanding (requeue_timed_out s now) = outstanding s \<and> sched_inv (requeue_timed_out s now)
    \<and> sch_max_in_flight (requeue_timed_out s now) = sch_max_in_flight s"
proof -
  have "outstanding (foldl (\<lambda>s (chunk, f). scheduler_fail s (inf_peer_id f) chunk) t xs) = outstanding t
    \<and> sched_inv (foldl (\<lambda>s (chunk, f). scheduler_fail s (inf_peer_id f) chunk) t xs)
    \<and> sch_max_in_flight (foldl (\<lambda>s (chunk, f). scheduler_fail s (inf_peer_id f) chunk) t xs) = sch_max_in_flight t"
    if "sched_inv t" for t xs
    using that
  proof (induction xs arbitrary: t)
    case (Cons x xs)
    obtain c f where x: "x = (c, f)" by (cases x)
    note one = scheduler_fail_keeps [OF Cons.prems, of "inf_peer_id f" c]
    with Cons.IH [of "scheduler_fail t (inf_peer_id f) c"] show ?case by (simp add: x)
  qed simp
  with assms show ?thesis by (simp add: requeue_timed_out_def Let_def)
qed

lemma next_peer_loop_Some:
  "next_peer_loop n s chunk = (Some p, s1) \<Longrightarrow> sch_peers s \<noteq> []
   \<Longrightarrow> p \<in> set (sch_peers s) \<and> hm_get0 (sch_failures s) (p, chunk) < sch_max_peer_retries s"
proof (induction n arbitrary: s)
  case (Suc n)
  let ?p = "sch_peers s ! (sch_cursor s mod length (sch_peers s))"
  show ?case
  proof (cases "hm_get0 (sch_failures s) (?p, chunk) < sch_max_peer_retries s")
    case True
    with Suc.prems show ?thesis by (auto simp: Let_def)
  next
    case False
    with Suc.prems Suc.IH [of "s\<lparr>sch_cursor := wrapping_add 64 (sch_cursor s) 1\<rparr>"] show ?thesis by (simp add: Let_def)
  qed
qed simp

lemma assign_step_keeps:
  assumes "sched_inv s" and "sch_pending s = c # rest" and "length (sch_in_flight s) < sch_max_in_flight s"
    and "next_peer (s\<lparr>sch_pending := rest\<rparr>) c = (Some p, s1)"
    and s2_def: "s2 = s1\<lparr>sch_in_flight := hm_insert (sch_in_flight s1) c \<lparr>inf_peer_id = p, inf_started = now\<rparr>\<rparr>"
  shows "sched_inv s2" and "outstanding s2 = outstanding s"
proof -
  note same = next_peer_same [OF assms(4)]
  have "c \<notin> fst ` set (sch_in_flight s)" using assms(1,2) by (simp add: sched_inv_def)
  then have "hm_get (sch_in_flight s) c = None" using hm_get_dom [of "sch_in_flight s" c] by auto
  then have fl: "sch_in_flight s2 = sch_in_flight s @ [(c, \<lparr>inf_peer_id = p, inf_started = now\<rparr>)]"
    using same by (simp add: s2_def hm_insert_fresh)
  have pend: "sch_pending s2 = rest" "sch_peers s2 = sch_peers s" "sch_max_in_flight s2 = sch_max_in_flight s"
    using same by (simp_all add: s2_def)
  show out: "outstanding s2 = outstanding s" by (simp add: outstanding_def fl pend assms(2))
  have "sch_peers s \<noteq> []" using assms(1) by (auto simp: sched_inv_def)
  then have "p \<in> set (sch_peers s)"
    using next_peer_loop_Some [of "length (sch_peers s)" "s\<lparr>sch_pending := rest\<rparr>" c p s1] assms(4)
    by (simp add: next_peer_def)
  moreover have "distinct (sch_pending s2 @ map fst (sch_in_flight s2))"
    using assms(1,2) by (auto simp: sched_inv_def fl pend)
  ultimately show "sched_inv s2" using assms(1,3) by (auto simp: sched_inv_def fl pend)
qed

lemma assign_loop_keeps:
  "sched_inv s \<Longrightarrow> outstanding (snd (assign_loop s now)) = outstanding s \<and> sched_inv (snd (assign_loop s now))"
proof (induction s now rule: assign_loop.induct)
  case (1 s now)
  show ?case
  proof (cases "length (sch_in_flight s) < sch_max_in_flight s \<and> sch_pending s \<noteq> []")
    case True
    then obtain c rest where pend: "sch_pending s = c # rest" by (cases "sch_pending s") auto
    obtain op s1 where np: "next_peer (s\<lparr>sch_pending := rest\<rparr>) c = (op, s1)" by fastforce
    note same = next_peer_same [OF np]
    show ?thesis
    proof (cases op)
      case None
      then have eq: "assign_loop s now = ([], s1\<lparr>sch_pending := sch_pending s1 @ [c]\<rparr>)"
        using True pend np by (subst assign_loop.simps) simp
      show ?thesis using "1.prems" same unfolding eq by (auto simp: outstanding_def sched_inv_def pend)
    next
      case (Some p)
      let ?s2 = "s1\<lparr>sch_in_flight := hm_insert (sch_in_flight s1) c \<lparr>inf_peer_id = p, inf_started = now\<rparr>\<rparr>"
      have eq: "snd (assign_loop s now) = snd (assign_loop ?s2 now)"
        using True pend np Some by (subst assign_loop.simps) (simp add: case_prod_beta Let_def)
      have np': "next_peer (s\<lparr>sch_pending := rest\<rparr>) c = (Some p, s1)" using np Some by simp
      note step = assign_step_keeps [OF "1.prems" pend conjunct1 [OF True] np' refl, of now]
      from "1.IH" [OF conjunct1 [OF True] pend np' [symmetric] refl step(1)] step(2)
      show ?thesis unfolding eq by simp
    qed
  next
    case False
    then have "assign_loop s now = ([], s)" by (subst assign_loop.simps) (auto split: list.splits)
    with "1.prems" show ?thesis by simp
  qed
qed

inductive sched_step :: "snapshot_scheduler \<times> nat list \<Rightarrow> snapshot_scheduler \<times> nat list \<Rightarrow> bool" where
  assign: "sched_step (s, delivered) (snd (scheduler_assign s now), delivered)"
| complete: "scheduler_complete s p c = Ok s' \<Longrightarrow> sched_step (s, delivered) (s', c # delivered)"
| fail: "sched_step (s, delivered) (scheduler_fail s p c, delivered)"

lemma scheduler_complete_keeps:
  assumes "sched_inv s" and "scheduler_complete s p c = Ok s'"
  shows "sched_inv s'" and "outstanding s = add_mset c (outstanding s')"
proof -
  obtain f where f: "hm_get (sch_in_flight s) c = Some f"
    and s': "s' = s\<lparr>sch_in_flight := hm_remove (sch_in_flight s) c\<rparr>"
    using assms(2) by (auto simp: scheduler_complete_def split: option.splits if_splits)
  have wf: "hm_wf (sch_in_flight s)" using assms(1) by (simp add: sched_inv_def hm_wf_def)
  note k = hm_remove_keys [OF wf f]
  show out: "outstanding s = add_mset c (outstanding s')" unfolding outstanding_def k(1) s' by simp
  have "distinct (map fst (hm_remove (sch_in_flight s) c))" using wf by (metis hm_wf_def hm_wf_remove)
  moreover have "fst ` set (hm_remove (sch_in_flight s) c) \<subseteq> fst ` set (sch_in_flight s)" by (rule image_mono [OF k(2)])
  ultimately have "distinct (sch_pending s @ map fst (hm_remove (sch_in_flight s) c))"
    using assms(1) by (auto simp: sched_inv_def)
  moreover have "\<forall>(c, f) \<in> set (hm_remove (sch_in_flight s) c). inf_peer_id f \<in> set (sch_peers s)"
    using assms(1) k(2) unfolding sched_inv_def by blast
  ultimately show "sched_inv s'" using assms(1) k(3) by (simp add: sched_inv_def s')
qed

definition sched_all :: "nat list \<Rightarrow> snapshot_scheduler \<times> nat list \<Rightarrow> bool" where
  "sched_all missing = (\<lambda>(s, delivered). sched_inv s \<and> outstanding s + mset delivered = mset missing)"

interpretation sched: safety "\<lambda>(s, delivered). delivered = [] \<and> distinct missing
    \<and> (\<exists>peers timeout m r. scheduler_new missing peers timeout m r = Ok s)"
  sched_step "sched_all missing" for missing
proof
  show "sched_all missing x" if "case x of (s, delivered) \<Rightarrow> delivered = [] \<and> distinct missing
    \<and> (\<exists>peers timeout m r. scheduler_new missing peers timeout m r = Ok s)" for x
    using that by (auto simp: sched_all_def scheduler_new_def sched_inv_def outstanding_def split: if_splits)
  show "sched_all missing y" if "sched_all missing x" "sched_step x y" for x y
    using that(2,1)
  proof cases
    case (assign s delivered now)
    with that(1) show ?thesis
      using requeue_keeps [of s now] assign_loop_keeps [of "requeue_timed_out s now" now]
      by (simp add: sched_all_def scheduler_assign_def)
  next
    case (complete s p c s' delivered)
    with that(1) scheduler_complete_keeps [of s p c s'] show ?thesis by (simp add: sched_all_def)
  next
    case (fail s delivered p c)
    with that(1) scheduler_fail_keeps [of s p c] show ?thesis by (simp add: sched_all_def)
  qed
qed

text \<open>
  C38.  No chunk is lost and none is delivered twice.  Whatever sequence of assignments, timeouts,
  failures and completions runs, each missing chunk is queued, in flight at a known peer, or
  delivered, exactly one of them; at most the configured number is in flight; and when the
  scheduler is done, every missing chunk was delivered exactly once.
\<close>

theorem scheduler_no_chunk_lost:
  assumes "scheduler_new missing peers timeout m r = Ok s0" and "distinct missing"
    and "sched_step\<^sup>*\<^sup>* (s0, []) (s, delivered)"
  shows "mset (sch_pending s) + mset (map fst (sch_in_flight s)) + mset delivered = mset missing
    \<and> length (sch_in_flight s) \<le> sch_max_in_flight s
    \<and> list_all (\<lambda>(c, f). inf_peer_id f \<in> set (sch_peers s)) (sch_in_flight s)
    \<and> (scheduler_is_done s \<longrightarrow> mset delivered = mset missing)"
proof -
  have "sched_all missing (s, delivered)"
    using sched.inv_reachable [OF _ assms(3), of missing] assms(1,2) by auto
  then show ?thesis
    by (auto simp: sched_all_def outstanding_def sched_inv_def scheduler_is_done_def list_all_iff)
qed

theorem scheduler_no_chunk_lost_witness:
  "\<exists>s0 s. scheduler_new [4, 7] [''p'', ''q''] 10 1 1 = Ok s0 \<and> sched_step\<^sup>*\<^sup>* (s0, []) (s, [])
     \<and> mset (sch_pending s) + mset (map fst (sch_in_flight s)) = {#4, 7#}"
proof -
  obtain s0 where s0: "scheduler_new [4, 7] [''p'', ''q''] 10 1 1 = Ok s0" by (simp add: scheduler_new_def)
  have step: "sched_step\<^sup>*\<^sup>* (s0, []) (snd (scheduler_assign s0 0), [])" by (intro r_into_rtranclp sched_step.assign)
  from scheduler_no_chunk_lost [OF s0 _ step] s0 step show ?thesis by auto
qed

end
