(* ===== verification/Stores.thy ===== *)
theory Stores
  imports Votes
begin

text \<open>
  The append-only stores of consensus: the vote log written before a vote is broadcast
  (\<^verbatim>\<open>src/src/consensus_wal.rs\<close>), finality certificates (\<^verbatim>\<open>src/src/finality_store.rs\<close>) and
  double-vote evidence (\<^verbatim>\<open>src/src/evidence_store.rs\<close>).  The file of the vote log is its text, so that
  a write can be cut anywhere by an error or a crash; the other two files are the lists of the
  records in them, an absent file the empty list, and errors of the file system are not modelled
  there.
\<close>

subsection \<open>The vote log\<close>

type_synonym wal_key = "nat \<times> nat \<times> vote_type"

text \<open>The text at \<^verbatim>\<open>path\<close> is an argument of the operations: it outlives the process that has the handle.\<close>

record consensus_wal =
  wal_signed :: "(wal_key, string) hmap"

text \<open>The JSON of one record (\<^verbatim>\<open>serde_json::to_string\<close> and \<^verbatim>\<open>from_str\<close> on \<^verbatim>\<open>WalVote\<close>).\<close>

record wal_codec =
  vote_to_line :: "consensus_message \<Rightarrow> string option"
  line_to_vote :: "string \<Rightarrow> consensus_message option"

abbreviation newline :: char where
  "newline \<equiv> CHR 0x0A"

text \<open>\<^verbatim>\<open>str::lines\<close>: a line ends at a newline, with a carriage return before it, or with the text.\<close>

definition strip_cr :: "string \<Rightarrow> string" where
  "strip_cr l = (if l \<noteq> [] \<and> last l = CHR 0x0D then butlast l else l)"

function str_lines :: "string \<Rightarrow> string list" where
  "str_lines s =
     (if s = [] then []
      else let l = takeWhile (\<lambda>c. c \<noteq> newline) s in
        if l = s then [s] else strip_cr l # str_lines (drop (Suc (length l)) s))"
  by auto
termination
  by (relation "measure length") auto

declare str_lines.simps [simp del]

definition message_key :: "consensus_message \<Rightarrow> wal_key" where
  "message_key m = (msg_height m, msg_round m, msg_vote_type m)"

definition reload_line ::
  "ext \<Rightarrow> wal_codec \<Rightarrow> nat \<times> string \<Rightarrow> (wal_key, string) hmap \<Rightarrow> (wal_key, string) hmap result" where
  "reload_line E C = (\<lambda>(index, line) table.
     if is_blank line then Ok table else
     rbind (ok_or (line_to_vote C line) (EConsensus (WalRecord (index + 1)))) (\<lambda>m.
     rbind (message_verify E m) (\<lambda>_.
     case hm_get table (message_key m) of
       Some previous \<Rightarrow>
         if previous \<noteq> msg_block_hash m then Err (EConsensus WalHistoryConflict)
         else Ok (hm_insert table (message_key m) (msg_block_hash m))
     | None \<Rightarrow> Ok (hm_insert table (message_key m) (msg_block_hash m)))))"

text \<open>
  Opening the log.  None is a failure of \<^verbatim>\<open>read_to_string\<close>, because the file does not exist or for any
  other reason: both give an empty table.
\<close>

definition wal_open :: "ext \<Rightarrow> wal_codec \<Rightarrow> string option \<Rightarrow> consensus_wal result" where
  "wal_open E C contents =
     (case contents of
        None \<Rightarrow> Ok \<lparr>wal_signed = []\<rparr>
      | Some text \<Rightarrow>
          rbind (for_each (reload_line E C) (enumerate 0 (str_lines text)) []) (\<lambda>table. Ok \<lparr>wal_signed = table\<rparr>))"

text \<open>
  How the appending of a line ends: it is on the disk (\<^verbatim>\<open>writeln!\<close> and \<^verbatim>\<open>sync_data\<close> succeed), or one of the
  calls fails when only its first characters, possibly none or all, have been written.
\<close>

datatype append_outcome = Synced | FailedAfter nat

definition record_before_broadcast ::
  "ext \<Rightarrow> wal_codec \<Rightarrow> append_outcome \<Rightarrow> string \<Rightarrow> consensus_wal \<Rightarrow> consensus_message
   \<Rightarrow> (string \<times> consensus_wal) \<times> unit result" where
  "record_before_broadcast E C io text w m =
     (case message_verify E m of Err e \<Rightarrow> ((text, w), Err e) | Ok _ \<Rightarrow>
      case hm_get (wal_signed w) (message_key m) of
        Some previous \<Rightarrow>
          if previous \<noteq> msg_block_hash m then ((text, w), Err (EConsensus WalDoubleVote)) else ((text, w), Ok ())
      | None \<Rightarrow>
          (case vote_to_line C m of None \<Rightarrow> ((text, w), Err (EConsensus WalEncode)) | Some line \<Rightarrow>
           case io of
             FailedAfter n \<Rightarrow> ((text @ take n (line @ [newline]), w), Err (EConsensus WalIo))
           | Synced \<Rightarrow>
               ((text @ line @ [newline],
                 w\<lparr>wal_signed := hm_insert (wal_signed w) (message_key m) (msg_block_hash m)\<rparr>), Ok ())))"

subsection \<open>Finality certificates\<close>

definition finality_append :: "finality_certificate list \<Rightarrow> finality_certificate \<Rightarrow> finality_certificate list" where
  "finality_append recs certificate = recs @ [certificate]"

fun conflicting_pair :: "finality_certificate list \<Rightarrow> nat option" where
  "conflicting_pair (a # b # cs) =
     (if blk_height (cert_block a) = blk_height (cert_block b) \<and> blk_hash (cert_block a) \<noteq> blk_hash (cert_block b)
      then Some (blk_height (cert_block a)) else conflicting_pair (b # cs))"
| "conflicting_pair cs = None"

definition load_certificate ::
  "ext \<Rightarrow> validator list \<Rightarrow> finality_certificate \<Rightarrow> finality_certificate list \<Rightarrow> finality_certificate list result" where
  "load_certificate E validators c cs = rbind (certificate_verify E c validators) (\<lambda>_. Ok (cs @ [c]))"

definition finality_load :: "ext \<Rightarrow> finality_certificate list \<Rightarrow> validator list \<Rightarrow> finality_certificate list result" where
  "finality_load E recs validators =
     rbind (for_each (load_certificate E validators) recs []) (\<lambda>cs.
     let certificates = sort_key (\<lambda>c. blk_height (cert_block c)) cs in
     case conflicting_pair certificates of
       Some height \<Rightarrow> Err (EConsensus (FinalityConflict height))
     | None \<Rightarrow> Ok certificates)"

subsection \<open>Evidence\<close>

definition load_evidence ::
  "ext \<Rightarrow> double_vote_evidence \<Rightarrow> double_vote_evidence list \<times> string list
   \<Rightarrow> (double_vote_evidence list \<times> string list) result" where
  "load_evidence E item = (\<lambda>(evidence, ids).
     rbind (evidence_verify E item) (\<lambda>_.
     if evidence_id item \<in> set ids then Ok (evidence, ids)
     else Ok (evidence @ [item], evidence_id item # ids)))"

definition evidence_load :: "ext \<Rightarrow> double_vote_evidence list \<Rightarrow> double_vote_evidence list result" where
  "evidence_load E recs = rbind (for_each (load_evidence E) recs ([], [])) (\<lambda>(evidence, ids). Ok evidence)"

definition evidence_load_ids :: "ext \<Rightarrow> double_vote_evidence list \<Rightarrow> string set result" where
  "evidence_load_ids E recs = rbind (evidence_load E recs) (\<lambda>items. Ok (evidence_id ` set items))"

definition evidence_append ::
  "ext \<Rightarrow> double_vote_evidence list \<Rightarrow> double_vote_evidence \<Rightarrow> (bool \<times> double_vote_evidence list) result" where
  "evidence_append E recs e =
     rbind (evidence_verify E e) (\<lambda>_.
     rbind (evidence_load_ids E recs) (\<lambda>known.
     if evidence_id e \<in> known then Ok (False, recs) else Ok (True, recs @ [e])))"

subsection \<open>A logged validator never votes twice\<close>

text \<open>
  What the log relies on of the JSON of a record: it is read back, starts with a brace and holds no
  line break; and pieces of lines, written one after the other without a newline, are read only when
  they are a single one, a whole line.
\<close>

definition piece :: "wal_codec \<Rightarrow> string \<Rightarrow> bool" where
  "piece C p \<longleftrightarrow> p \<noteq> [] \<and> (\<exists>m l n. vote_to_line C m = Some l \<and> p = take n l)"

definition wal_codec_ok :: "wal_codec \<Rightarrow> bool" where
  "wal_codec_ok C \<longleftrightarrow>
     (\<forall>m l. vote_to_line C m = Some l \<longrightarrow>
        line_to_vote C l = Some m \<and> (\<exists>rest. l = CHR ''{'' # rest) \<and> newline \<notin> set l \<and> CHR 0x0D \<notin> set l)
     \<and> (\<forall>ps m. list_all (piece C) ps \<and> line_to_vote C (concat ps) = Some m \<longrightarrow> (\<exists>l. ps = [l] \<and> vote_to_line C m = Some l))"

text \<open>
  A run of a validator: the text of its log and how much of it is known to be on the disk, the open
  log if the process is up, the votes it has broadcast, and whether an append ever failed half way.
\<close>

record wal_run =
  run_file :: string
  run_synced :: nat
  run_wal :: "consensus_wal option"
  run_sent :: "consensus_message list"
  run_failed :: bool

definition wal_run_start :: wal_run where
  "wal_run_start = \<lparr>run_file = [], run_synced = 0, run_wal = None, run_sent = [], run_failed = False\<rparr>"

definition wal_recorded :: "wal_run \<Rightarrow> string \<Rightarrow> consensus_wal \<Rightarrow> wal_run" where
  "wal_recorded r text w =
     r\<lparr>run_file := text, run_synced := (if text = run_file r then run_synced r else length text), run_wal := Some w\<rparr>"

text \<open>
  The process opens the log, whose file can be read; it logs a vote and broadcasts it, or stops in
  between; logging fails, possibly with a part of the line written, and the process goes on; or it
  crashes, which loses its memory and any part of the text not yet synchronised.
\<close>

inductive wal_step :: "ext \<Rightarrow> wal_codec \<Rightarrow> wal_run \<Rightarrow> wal_run \<Rightarrow> bool" for E C where
  opened: "run_wal r = None \<Longrightarrow> wal_open E C (Some (run_file r)) = Ok w \<Longrightarrow> wal_step E C r (r\<lparr>run_wal := Some w\<rparr>)"
| broadcast: "run_wal r = Some w \<Longrightarrow> record_before_broadcast E C Synced (run_file r) w m = ((text, w'), Ok ())
    \<Longrightarrow> wal_step E C r ((wal_recorded r text w')\<lparr>run_sent := m # run_sent r\<rparr>)"
| interrupted: "run_wal r = Some w \<Longrightarrow> record_before_broadcast E C Synced (run_file r) w m = ((text, w'), Ok ())
    \<Longrightarrow> wal_step E C r (wal_recorded r text w')"
| failed: "run_wal r = Some w \<Longrightarrow> record_before_broadcast E C (FailedAfter n) (run_file r) w m = ((text, w'), Err e)
    \<Longrightarrow> wal_step E C r (r\<lparr>run_file := text, run_wal := Some w', run_failed := (run_failed r \<or> text \<noteq> run_file r)\<rparr>)"
| crash: "run_synced r \<le> n
    \<Longrightarrow> wal_step E C r (r\<lparr>run_file := take n (run_file r), run_synced := min n (length (run_file r)), run_wal := None\<rparr>)"

lemma codec_line:
  assumes "wal_codec_ok C" and "vote_to_line C m = Some l"
  shows "line_to_vote C l = Some m" and "l \<noteq> []" and "hd l = CHR ''{''" and "newline \<notin> set l" and "CHR 0x0D \<notin> set l"
  using assms unfolding wal_codec_ok_def by (metis list.distinct(1) list.sel(1))+

lemma codec_pieces:
  assumes "wal_codec_ok C" and "list_all (piece C) ps" and "line_to_vote C (concat ps) = Some m"
  obtains l where "ps = [l]" and "vote_to_line C m = Some l"
  using assms unfolding wal_codec_ok_def by metis

subsubsection \<open>Lines\<close>

lemma first_line: "newline \<notin> set l \<Longrightarrow> takeWhile (\<lambda>c. c \<noteq> newline) (l @ newline # s) = l"
  by (induction l) auto

lemma str_lines_line:
  assumes "newline \<notin> set l"
  shows "str_lines (l @ newline # s) = strip_cr l # str_lines s"
  unfolding str_lines.simps [of "l @ newline # s"] Let_def first_line [OF assms] by simp

lemma str_lines_last:
  assumes "newline \<notin> set l" and "l \<noteq> []"
  shows "str_lines l = [l]"
proof -
  have "takeWhile (\<lambda>c. c \<noteq> newline) l = l" using assms(1) by (induction l) auto
  then show ?thesis using assms(2) unfolding str_lines.simps [of l] Let_def by simp
qed

lemma str_lines_append:
  "a = [] \<or> last a = newline \<Longrightarrow> str_lines (a @ s) = str_lines a @ str_lines s"
proof (induction "length a" arbitrary: a rule: less_induct)
  case less
  show ?case
  proof (cases "a = []")
    case True
    then show ?thesis by (simp add: str_lines.simps [of "[]"])
  next
    case False
    with less.prems have "newline \<in> set a" using last_in_set by metis
    then obtain l rest where a: "a = l @ newline # rest" and l: "newline \<notin> set l" by (meson split_list_first)
    have "rest = [] \<or> last rest = newline" using less.prems False a by (auto split: if_splits)
    then show ?thesis using less.hyps [of rest] by (simp add: a str_lines_line [OF l])
  qed
qed

lemma strip_cr_none [simp]: "CHR 0x0D \<notin> set l \<Longrightarrow> strip_cr l = l"
  by (auto simp: strip_cr_def dest: last_in_set)

lemma brace_not_blank: "l \<noteq> [] \<Longrightarrow> hd l = CHR ''{'' \<Longrightarrow> \<not> is_blank (l @ s)"
  by (cases l) (auto simp: is_blank_def split: list.split)

lemma pieces_text:
  assumes "wal_codec_ok C" and "list_all (piece C) ps"
  shows "newline \<notin> set (concat ps)" and "CHR 0x0D \<notin> set (concat ps)" and "ps \<noteq> [] \<Longrightarrow> \<not> is_blank (concat ps)"
    and "ps \<noteq> [] \<Longrightarrow> concat ps \<noteq> []"
proof -
  have p: "newline \<notin> set p \<and> CHR 0x0D \<notin> set p \<and> p \<noteq> [] \<and> hd p = CHR ''{''" if "p \<in> set ps" for p
  proof -
    have "piece C p" using that assms(2) by (simp add: list_all_iff)
    then obtain m l n where l: "p \<noteq> []" "vote_to_line C m = Some l" "p = take n l"
      unfolding piece_def by (elim conjE exE)
    have "set p \<subseteq> set l" "hd p = hd l" using l(1,3) by (simp_all add: set_take_subset hd_take)
    with codec_line [OF assms(1) l(2)] l(1) show ?thesis by auto
  qed
  then show "newline \<notin> set (concat ps)" "CHR 0x0D \<notin> set (concat ps)" "ps \<noteq> [] \<Longrightarrow> concat ps \<noteq> []" by auto
  show "\<not> is_blank (concat ps)" if "ps \<noteq> []"
    using that p [of "hd ps"] brace_not_blank [of "hd ps" "concat (tl ps)"] by (cases ps) auto
qed

subsubsection \<open>What opening the log reads\<close>

lemma reload_keeps:
  assumes "for_each (reload_line E C) xs t = Ok t'" and "hm_get t k = Some h"
  shows "hm_get t' k = Some h"
  using assms(1) assms(2)
proof (rule for_each_invariant [where P = "\<lambda>t. hm_get t k = Some h"])
  fix x t t'
  show "hm_get t k = Some h \<Longrightarrow> reload_line E C x t = Ok t' \<Longrightarrow> hm_get t' k = Some h"
    by (cases x) (auto simp: reload_line_def hm_get_insert split: if_splits option.splits result.splits)
qed

lemma reload_line_vote:
  assumes "reload_line E C (i, line) t = Ok t'" and "\<not> is_blank line"
  obtains m where "line_to_vote C line = Some m" and "t' = hm_insert t (message_key m) (msg_block_hash m)"
  using assms by (cases "line_to_vote C line") (auto simp: reload_line_def split: option.splits if_splits)

lemma reload_reads:
  assumes "for_each (reload_line E C) xs t = Ok t'" and "line \<in> snd ` set xs" and "\<not> is_blank line"
  shows "\<exists>m. line_to_vote C line = Some m \<and> hm_get t' (message_key m) = Some (msg_block_hash m)"
  using assms(1,2)
proof (induction xs arbitrary: t)
  case (Cons x xs)
  obtain i l where x: "x = (i, l)" by (cases x)
  obtain t1 where t1: "reload_line E C (i, l) t = Ok t1" "for_each (reload_line E C) xs t1 = Ok t'"
    using Cons.prems(1) x by auto
  show ?case
  proof (cases "l = line")
    case True
    with t1(1) assms(3) obtain m where m: "line_to_vote C line = Some m" "t1 = hm_insert t (message_key m) (msg_block_hash m)"
      by (auto elim: reload_line_vote)
    with reload_keeps [OF t1(2), of "message_key m" "msg_block_hash m"] show ?thesis by simp
  next
    case False
    with Cons.IH [OF t1(2)] Cons.prems(2) x show ?thesis by auto
  qed
qed simp

lemma reload_only:
  assumes "for_each (reload_line E C) xs t = Ok t'" and "hm_get t' k = Some h" and "hm_get t k = None"
  shows "\<exists>line \<in> snd ` set xs. \<exists>m. \<not> is_blank line \<and> line_to_vote C line = Some m \<and> message_key m = k \<and> msg_block_hash m = h"
  using assms(1,3)
proof (induction xs arbitrary: t)
  case Nil
  with assms(2) show ?case by simp
next
  case (Cons x xs)
  obtain i l where x: "x = (i, l)" by (cases x)
  obtain t1 where t1: "reload_line E C (i, l) t = Ok t1" "for_each (reload_line E C) xs t1 = Ok t'"
    using Cons.prems(1) x by auto
  show ?case
  proof (cases "hm_get t1 k")
    case None
    with Cons.IH [OF t1(2)] x show ?thesis by auto
  next
    case (Some h1)
    have "\<not> is_blank l" using t1(1) Some Cons.prems(2) by (auto simp: reload_line_def)
    with t1(1) obtain m where m: "line_to_vote C l = Some m" "t1 = hm_insert t (message_key m) (msg_block_hash m)"
      by (auto elim: reload_line_vote)
    have "message_key m = k" "msg_block_hash m = h1" using m(2) Some Cons.prems(2) by (auto split: if_splits)
    moreover have "h1 = h" using reload_keeps [OF t1(2) Some] assms(2) by simp
    ultimately show ?thesis using x m(1) \<open>\<not> is_blank l\<close> by auto
  qed
qed

lemma wal_open_table:
  "wal_open E C (Some text) = Ok w \<longleftrightarrow> for_each (reload_line E C) (enumerate 0 (str_lines text)) [] = Ok (wal_signed w)"
  by (cases w) (auto simp: wal_open_def rbind_Ok_iff)

lemma enumerate_lines: "snd ` set (enumerate n xs) = set xs"
  using list.set_map [of snd "enumerate n xs"] by simp

lemma wal_open_reads:
  assumes "wal_open E C (Some text) = Ok w" and "line \<in> set (str_lines text)" and "\<not> is_blank line"
  shows "\<exists>m. line_to_vote C line = Some m \<and> hm_get (wal_signed w) (message_key m) = Some (msg_block_hash m)"
  using reload_reads assms unfolding wal_open_table enumerate_lines by (metis enumerate_lines)

lemma wal_open_only:
  assumes "wal_open E C (Some text) = Ok w" and "hm_get (wal_signed w) k = Some h"
  shows "\<exists>line \<in> set (str_lines text). \<exists>m. \<not> is_blank line \<and> line_to_vote C line = Some m \<and> message_key m = k \<and> msg_block_hash m = h"
  using reload_only [OF assms(1) [unfolded wal_open_table] assms(2)] by (simp add: enumerate_lines)

subsubsection \<open>What appends leave in the file\<close>

definition chunk :: "wal_codec \<Rightarrow> string \<Rightarrow> bool" where
  "chunk C c \<longleftrightarrow> (\<exists>m l n. vote_to_line C m = Some l \<and> c = take n (l @ [newline]))"

lemma chunk_cases:
  assumes "wal_codec_ok C" and "chunk C c"
  obtains (empty) "c = []" | (cut) "piece C c" | (whole) l where "piece C l" and "c = l @ [newline]"
proof -
  obtain m l n where l: "vote_to_line C m = Some l" and c: "c = take n (l @ [newline])"
    using assms(2) unfolding chunk_def by (elim exE conjE)
  have "l \<noteq> []" using codec_line [OF assms(1) l] by simp
  then have "piece C l" unfolding piece_def using l by (metis take_all_iff order_refl)
  moreover have "piece C (take n l)" if "n \<noteq> 0" unfolding piece_def using l that \<open>l \<noteq> []\<close> by auto
  ultimately consider "n = 0" | "piece C (take n l)" "n \<le> length l" | "piece C l" "length l < n" by linarith
  then show thesis
  proof cases
    case 1
    then show thesis using c by (intro empty) simp
  next
    case 2
    with c cut show thesis by simp
  next
    case 3
    with c whole [of l] show thesis by simp
  qed
qed

lemma chunks_tail:
  assumes "wal_codec_ok C" and "list_all (chunk C) cs"
  shows "\<exists>a ps. concat cs = a @ concat ps \<and> (a = [] \<or> last a = newline) \<and> list_all (piece C) ps"
  using assms(2)
proof (induction cs rule: rev_induct)
  case Nil
  show ?case by (rule exI [of _ "[]"], rule exI [of _ "[]"]) simp
next
  case (snoc c cs)
  then obtain a ps where ih: "concat cs = a @ concat ps" "a = [] \<or> last a = newline" "list_all (piece C) ps" by auto
  have "chunk C c" using snoc.prems by simp
  with assms(1) show ?case
  proof (cases rule: chunk_cases)
    case empty
    with ih show ?thesis by auto
  next
    case cut
    with ih show ?thesis by (intro exI [of _ a] exI [of _ "ps @ [c]"]) simp
  next
    case (whole l)
    with ih show ?thesis by (intro exI [of _ "a @ concat ps @ c"] exI [of _ "[]"]) simp
  qed
qed

lemma chunks_head:
  assumes "wal_codec_ok C" and "list_all (chunk C) cs"
  shows "\<exists>ps rest. concat cs = concat ps @ rest \<and> list_all (piece C) ps \<and> (rest = [] \<or> (\<exists>r. rest = newline # r))
    \<and> (ps = [] \<longrightarrow> rest = [])"
  using assms(2)
proof (induction cs)
  case Nil
  show ?case by (rule exI [of _ "[]"], rule exI [of _ "[]"]) simp
next
  case (Cons c cs)
  then obtain ps rest where ih: "concat cs = concat ps @ rest" "list_all (piece C) ps"
    "rest = [] \<or> (\<exists>r. rest = newline # r)" "ps = [] \<longrightarrow> rest = []" by auto
  have "chunk C c" using Cons.prems by simp
  with assms(1) show ?case
  proof (cases rule: chunk_cases)
    case empty
    with ih show ?thesis by auto
  next
    case cut
    with ih show ?thesis by (intro exI [of _ "c # ps"] exI [of _ rest]) simp
  next
    case (whole l)
    then show ?thesis by (intro exI [of _ "[l]"] exI [of _ "newline # concat cs"]) simp
  qed
qed

lemma chunks_take: "list_all (chunk C) cs \<Longrightarrow> \<exists>cs'. list_all (chunk C) cs' \<and> concat cs' = take n (concat cs)"
proof (induction cs arbitrary: n)
  case Nil
  show ?case by (rule exI [of _ "[]"]) simp
next
  case (Cons c cs)
  then obtain cs' where cs': "list_all (chunk C) cs'" "concat cs' = take (n - length c) (concat cs)" by auto
  have "chunk C c" using Cons.prems by simp
  then obtain m l k where "vote_to_line C m = Some l" "c = take k (l @ [newline])"
    unfolding chunk_def by (elim conjE exE)
  then have "chunk C (take n c)" unfolding chunk_def by (metis take_take)
  with cs' show ?case by (intro exI [of _ "take n c # cs'"]) simp
qed

text \<open>
  A vote is durable in a text when the log, however it is extended by complete or cut appends, is
  read back with the vote or not at all.
\<close>

definition durable :: "ext \<Rightarrow> wal_codec \<Rightarrow> string \<Rightarrow> wal_key \<Rightarrow> string \<Rightarrow> bool" where
  "durable E C text k h \<longleftrightarrow>
     (\<forall>cs w. list_all (chunk C) cs \<and> wal_open E C (Some (text @ concat cs)) = Ok w \<longrightarrow> hm_get (wal_signed w) k = Some h)"

lemma durableD:
  "durable E C text k h \<Longrightarrow> list_all (chunk C) cs \<Longrightarrow> wal_open E C (Some (text @ concat cs)) = Ok w \<Longrightarrow> hm_get (wal_signed w) k = Some h"
  unfolding durable_def by blast

lemma durable_more: "durable E C text k h \<Longrightarrow> list_all (chunk C) cs \<Longrightarrow> durable E C (text @ concat cs) k h"
  unfolding durable_def
proof (intro allI impI)
  fix ds w
  assume d: "\<forall>cs w. list_all (chunk C) cs \<and> wal_open E C (Some (text @ concat cs)) = Ok w \<longrightarrow> hm_get (wal_signed w) k = Some h"
    and cs: "list_all (chunk C) cs" and ds: "list_all (chunk C) ds \<and> wal_open E C (Some ((text @ concat cs) @ concat ds)) = Ok w"
  from d [rule_format, of "cs @ ds" w] cs ds show "hm_get (wal_signed w) k = Some h" by simp
qed

lemma durable_line:
  assumes codec: "wal_codec_ok C" and cs: "list_all (chunk C) cs" and m: "vote_to_line C m = Some l"
  shows "durable E C (concat cs @ l @ [newline]) (message_key m) (msg_block_hash m)"
  unfolding durable_def
proof (intro allI impI)
  fix ds w
  assume ds: "list_all (chunk C) ds \<and> wal_open E C (Some ((concat cs @ l @ [newline]) @ concat ds)) = Ok w"
  obtain a ps where a: "concat cs = a @ concat ps" "a = [] \<or> last a = newline" "list_all (piece C) ps"
    using chunks_tail [OF codec cs] by blast
  have "piece C l" unfolding piece_def using codec_line [OF codec m] m by (metis take_all_iff order_refl)
  then have ps: "list_all (piece C) (ps @ [l])" using a(3) by simp
  note chars = pieces_text [OF codec ps, simplified]
  have "str_lines ((concat cs @ l @ [newline]) @ concat ds) = str_lines a @ (concat ps @ l) # str_lines (concat ds)"
    using str_lines_append [OF a(2), of "(concat ps @ l) @ newline # concat ds"] str_lines_line [of "concat ps @ l" "concat ds"] chars(1,2)
    by (simp add: a(1))
  then obtain m1 where m1: "line_to_vote C (concat (ps @ [l])) = Some m1" "hm_get (wal_signed w) (message_key m1) = Some (msg_block_hash m1)"
    using wal_open_reads [of E C "(concat cs @ l @ [newline]) @ concat ds" w "concat ps @ l"] ds chars(3) by auto
  obtain l' where "ps @ [l] = [l']" "vote_to_line C m1 = Some l'" using codec_pieces [OF codec ps m1(1)] .
  then have "m1 = m" using codec_line(1) [OF codec, of m1 l'] codec_line(1) [OF codec m] by simp
  with m1(2) show "hm_get (wal_signed w) (message_key m) = Some (msg_block_hash m)" by simp
qed

lemma durable_opened:
  assumes codec: "wal_codec_ok C" and cs: "list_all (chunk C) cs" and read: "wal_open E C (Some (concat cs)) = Ok w"
    and entry: "hm_get (wal_signed w) k = Some h"
  shows "durable E C (concat cs) k h"
  unfolding durable_def
proof (intro allI impI)
  fix ds w'
  assume ds: "list_all (chunk C) ds \<and> wal_open E C (Some (concat cs @ concat ds)) = Ok w'"
  obtain a ps where a: "concat cs = a @ concat ps" "a = [] \<or> last a = newline" "list_all (piece C) ps"
    using chunks_tail [OF codec cs] by blast
  obtain line m where line: "line \<in> set (str_lines (concat cs))" "\<not> is_blank line" "line_to_vote C line = Some m"
    and m: "message_key m = k" "msg_block_hash m = h" using wal_open_only [OF read entry] by blast
  have lines: "str_lines (concat cs @ s) = str_lines a @ str_lines (concat ps @ s)" for s
    using str_lines_append [OF a(2)] by (simp add: a(1))
  show "hm_get (wal_signed w') k = Some h"
  proof (cases "line \<in> set (str_lines a)")
    case True
    with wal_open_reads [of E C _ w' line] ds line(2,3) m lines show ?thesis by fastforce
  next
    case False
    then have tail: "line \<in> set (str_lines (concat ps))" using line(1) lines [of "[]"] by simp
    then have "ps \<noteq> []" by (auto simp: str_lines.simps [of "[]"])
    obtain qs rest where q: "concat ds = concat qs @ rest" "list_all (piece C) qs" "rest = [] \<or> (\<exists>r. rest = newline # r)"
      "qs = [] \<longrightarrow> rest = []" using chunks_head [OF codec] ds by blast
    have pq: "list_all (piece C) (ps @ qs)" using a(3) q(2) by simp
    note chars = pieces_text [OF codec pq, simplified]
    have "concat ps @ concat qs \<in> set (str_lines (concat cs @ concat ds))"
      using q(3) chars \<open>ps \<noteq> []\<close> str_lines_line [of "concat ps @ concat qs"] str_lines_last [of "concat ps @ concat qs"]
      by (auto simp: lines q(1))
    then obtain m1 where "line_to_vote C (concat (ps @ qs)) = Some m1"
      using wal_open_reads [of E C _ w' "concat ps @ concat qs"] ds chars(3) \<open>ps \<noteq> []\<close> by auto
    then obtain l where "ps @ qs = [l]" using codec_pieces [OF codec pq] by blast
    with \<open>ps \<noteq> []\<close> q(1,4) have "concat ds = []" by (cases ps) auto
    with ds read entry show ?thesis by simp
  qed
qed

subsubsection \<open>The invariant of a run\<close>

definition votes_agree :: "consensus_message list \<Rightarrow> bool" where
  "votes_agree sent \<longleftrightarrow> (\<forall>m \<in> set sent. \<forall>m' \<in> set sent. message_key m = message_key m' \<longrightarrow> msg_block_hash m = msg_block_hash m')"

definition table_has :: "consensus_wal \<Rightarrow> consensus_message list \<Rightarrow> bool" where
  "table_has w sent \<longleftrightarrow> (\<forall>m \<in> set sent. hm_get (wal_signed w) (message_key m) = Some (msg_block_hash m))"

definition log_reads :: "ext \<Rightarrow> wal_codec \<Rightarrow> wal_run \<Rightarrow> bool" where
  "log_reads E C r \<longleftrightarrow> (run_file r = [] \<or> last (run_file r) = newline) \<and> run_synced r = length (run_file r)
     \<and> (\<exists>w. wal_open E C (Some (run_file r)) = Ok w \<and> run_wal r \<in> {None, Some w})"

text \<open>The synchronised part of the file keeps what was broadcast and what the open log knows.\<close>

definition wal_parts :: "ext \<Rightarrow> wal_codec \<Rightarrow> string list \<Rightarrow> string list \<Rightarrow> wal_run \<Rightarrow> bool" where
  "wal_parts E C cs ds r \<longleftrightarrow> list_all (chunk C) (cs @ ds) \<and> run_file r = concat (cs @ ds) \<and> run_synced r = length (concat cs)
     \<and> (\<forall>m \<in> set (run_sent r). durable E C (concat cs) (message_key m) (msg_block_hash m))
     \<and> (case run_wal r of
          None \<Rightarrow> concat ds = []
        | Some w \<Rightarrow> table_has w (run_sent r) \<and> (\<forall>k h. hm_get (wal_signed w) k = Some h \<longrightarrow> durable E C (concat cs) k h))"

definition wal_inv :: "ext \<Rightarrow> wal_codec \<Rightarrow> wal_run \<Rightarrow> bool" where
  "wal_inv E C r \<longleftrightarrow> (wal_codec_ok C \<longrightarrow>
     votes_agree (run_sent r) \<and> (\<exists>cs ds. wal_parts E C cs ds r) \<and> (run_failed r \<or> log_reads E C r))"

lemma record_cases:
  assumes "record_before_broadcast E C io text w m = ((text', w'), r)"
  obtains (same) "text' = text" and "w' = w" and "is_ok r \<Longrightarrow> hm_get (wal_signed w) (message_key m) = Some (msg_block_hash m)"
  | (written) l where "message_verify E m = Ok ()" and "hm_get (wal_signed w) (message_key m) = None" and "vote_to_line C m = Some l"
      and "io = Synced" and "text' = text @ l @ [newline]"
      and "w' = w\<lparr>wal_signed := hm_insert (wal_signed w) (message_key m) (msg_block_hash m)\<rparr>"
  | (torn) l n where "vote_to_line C m = Some l" and "io = FailedAfter n" and "text' = text @ take n (l @ [newline])" and "w' = w" and "\<not> is_ok r"
proof (cases "message_verify E m")
  case (Err e)
  with assms have "text' = text" "w' = w" "r = Err e" by (simp_all add: record_before_broadcast_def)
  then show thesis using same by simp
next
  case (Ok u)
  with assms show thesis using same written torn
    by (auto simp: record_before_broadcast_def split: option.splits if_splits append_outcome.splits)
qed

lemma table_has_agree: "table_has w sent \<Longrightarrow> votes_agree sent"
  unfolding table_has_def votes_agree_def by (metis option.inject)

lemma table_has_recorded:
  assumes "table_has w sent" and "record_before_broadcast E C io text w m = ((text', w'), Ok ())"
  shows "table_has w' (m # sent)"
  using assms(2) by (cases rule: record_cases) (use assms(1) in \<open>auto simp: table_has_def\<close>)

lemma parts_opened:
  assumes "wal_codec_ok C" and "wal_parts E C cs ds r" and "run_wal r = None" and "wal_open E C (Some (run_file r)) = Ok w"
  shows "wal_parts E C cs ds (r\<lparr>run_wal := Some w\<rparr>)"
proof -
  have parts: "list_all (chunk C) cs" "run_file r = concat cs"
    and sent: "\<forall>m \<in> set (run_sent r). durable E C (concat cs) (message_key m) (msg_block_hash m)"
    using assms(2,3) by (auto simp: wal_parts_def)
  have read: "wal_open E C (Some (concat cs)) = Ok w" using assms(4) parts(2) by simp
  have "table_has w (run_sent r)"
    unfolding table_has_def using sent durableD [of E C "concat cs" _ _ "[]" w] read by auto
  moreover have "hm_get (wal_signed w) k = Some h \<Longrightarrow> durable E C (concat cs) k h" for k h
    by (rule durable_opened [OF assms(1) parts(1) read])
  ultimately show ?thesis using assms(2) by (simp add: wal_parts_def)
qed

lemma parts_recorded:
  assumes codec: "wal_codec_ok C" and parts: "wal_parts E C cs ds r" and open_log: "run_wal r = Some w"
    and run: "record_before_broadcast E C Synced (run_file r) w m = ((text, w'), Ok ())"
  shows "\<exists>cs ds. wal_parts E C cs ds ((wal_recorded r text w')\<lparr>run_sent := m # run_sent r\<rparr>)"
    and "\<exists>cs ds. wal_parts E C cs ds (wal_recorded r text w')"
proof -
  have chunks: "list_all (chunk C) (cs @ ds)" and text0: "run_file r = concat (cs @ ds)" and table: "table_has w (run_sent r)"
    and keeps: "hm_get (wal_signed w) k = Some h \<Longrightarrow> durable E C (concat cs) k h" for k h
    using parts open_log by (simp_all add: wal_parts_def del: split_paired_All)
  show "\<exists>cs ds. wal_parts E C cs ds ((wal_recorded r text w')\<lparr>run_sent := m # run_sent r\<rparr>)"
    using run
  proof (cases rule: record_cases)
    case same
    then have "wal_parts E C cs ds ((wal_recorded r text w')\<lparr>run_sent := m # run_sent r\<rparr>)"
      using parts open_log keeps by (auto simp: wal_parts_def wal_recorded_def table_has_def)
    then show ?thesis by blast
  next
    case (written l)
    let ?all = "cs @ ds @ [l @ [newline]]"
    have "chunk C (l @ [newline])" unfolding chunk_def using written(3) by (metis take_all_iff order_refl)
    then have all: "list_all (chunk C) (?all @ [])" "list_all (chunk C) (ds @ [l @ [newline]])" using chunks by simp_all
    have new: "durable E C (concat ?all) (message_key m) (msg_block_hash m)"
      using durable_line [OF codec chunks written(3)] by simp
    have old: "durable E C (concat ?all) k h" if "hm_get (wal_signed w) k = Some h" for k h
      using durable_more [OF keeps [OF that] all(2)] by simp
    have "durable E C (concat ?all) k h" if "hm_get (wal_signed w') k = Some h" for k h
      using that new old written(6) by (auto split: if_splits)
    moreover have "table_has w' (m # run_sent r)" by (rule table_has_recorded [OF table run])
    moreover have "\<forall>m \<in> set (run_sent r). durable E C (concat ?all) (message_key m) (msg_block_hash m)"
      using table old by (simp add: table_has_def)
    ultimately have "wal_parts E C ?all [] ((wal_recorded r text w')\<lparr>run_sent := m # run_sent r\<rparr>)"
      using all(1) new text0 written(5) by (simp add: wal_parts_def wal_recorded_def)
    then show ?thesis by blast
  qed simp_all
  then obtain cs' ds' where "wal_parts E C cs' ds' ((wal_recorded r text w')\<lparr>run_sent := m # run_sent r\<rparr>)" by blast
  then have "wal_parts E C cs' ds' (wal_recorded r text w')"
    by (auto simp: wal_parts_def wal_recorded_def table_has_def split: if_splits)
  then show "\<exists>cs ds. wal_parts E C cs ds (wal_recorded r text w')" by blast
qed

lemma parts_failed:
  assumes "wal_parts E C cs ds r" and "run_wal r = Some w"
    and run: "record_before_broadcast E C (FailedAfter n) (run_file r) w m = ((text, w'), Err e)"
  shows "w' = w" and "\<exists>ds. wal_parts E C cs ds (r\<lparr>run_file := text, run_failed := b\<rparr>)"
proof -
  have "w' = w \<and> (\<exists>ds. wal_parts E C cs ds (r\<lparr>run_file := text, run_failed := b\<rparr>))"
    using run
  proof (cases rule: record_cases)
    case (torn l k)
    have "chunk C (take k (l @ [newline]))" unfolding chunk_def using torn(1) by blast
    with assms(1,2) torn have "wal_parts E C cs (ds @ [take k (l @ [newline])]) (r\<lparr>run_file := text, run_failed := b\<rparr>)"
      by (simp add: wal_parts_def)
    with torn(4) show ?thesis by blast
  next
    case same
    with assms(1,2) have "wal_parts E C cs ds (r\<lparr>run_file := text, run_failed := b\<rparr>)" by (simp add: wal_parts_def)
    with same show ?thesis by blast
  qed simp
  then show "w' = w" and "\<exists>ds. wal_parts E C cs ds (r\<lparr>run_file := text, run_failed := b\<rparr>)" by blast+
qed

lemma parts_crash:
  assumes "wal_parts E C cs ds r" and "run_synced r \<le> n"
  shows "\<exists>cs. wal_parts E C cs [] (r\<lparr>run_file := take n (run_file r), run_synced := min n (length (run_file r)), run_wal := None\<rparr>)"
proof -
  have p: "list_all (chunk C) cs" "list_all (chunk C) ds" "run_file r = concat cs @ concat ds" "run_synced r = length (concat cs)"
    and sent: "\<forall>m \<in> set (run_sent r). durable E C (concat cs) (message_key m) (msg_block_hash m)"
    using assms(1) by (simp_all add: wal_parts_def)
  obtain ds' where ds': "list_all (chunk C) ds'" "concat ds' = take (n - run_synced r) (concat ds)" using chunks_take [OF p(2)] by blast
  have kept: "take n (run_file r) = concat (cs @ ds')" using assms(2) p(3,4) ds'(2) by simp
  then have "min n (length (run_file r)) = length (concat (cs @ ds'))" by (metis length_take min.commute)
  moreover have "\<forall>m \<in> set (run_sent r). durable E C (concat (cs @ ds')) (message_key m) (msg_block_hash m)"
    using sent durable_more [OF _ ds'(1)] by simp
  ultimately have "wal_parts E C (cs @ ds') [] (r\<lparr>run_file := take n (run_file r), run_synced := min n (length (run_file r)), run_wal := None\<rparr>)"
    using p(1) ds'(1) kept by (simp add: wal_parts_def)
  then show ?thesis by blast
qed

lemma log_reads_recorded:
  assumes codec: "wal_codec_ok C" and reads: "log_reads E C r" and "run_wal r = Some w"
    and run: "record_before_broadcast E C Synced (run_file r) w m = ((text, w'), Ok ())"
  shows "log_reads E C (wal_recorded r text w')"
  using run
proof (cases rule: record_cases)
  case same
  with reads assms(3) show ?thesis by (simp add: log_reads_def wal_recorded_def)
next
  case (written l)
  note l = codec_line [OF codec written(3)]
  have tail: "run_file r = [] \<or> last (run_file r) = newline" and w: "wal_open E C (Some (run_file r)) = Ok w"
    using reads assms(3) by (auto simp: log_reads_def)
  have lines: "str_lines text = str_lines (run_file r) @ [l]"
    using str_lines_append [OF tail] str_lines_line [OF l(4), of "[]"] l(5) by (simp add: written(5) str_lines.simps [of "[]"])
  have "\<not> is_blank l" using brace_not_blank [OF l(2,3), of "[]"] by simp
  then have "reload_line E C (n, l) (wal_signed w) = Ok (wal_signed w')" for n
    using l(1) written(1,2,6) by (simp add: reload_line_def)
  then have "wal_open E C (Some text) = Ok w'"
    using w unfolding wal_open_table lines by (simp add: enumerate_append_eq for_each_append)
  then show ?thesis using written(5) by (simp add: log_reads_def wal_recorded_def)
qed simp

interpretation wal: safety "\<lambda>r. r = wal_run_start" "wal_step E C" "wal_inv E C" for E C
proof
  show "wal_inv E C r" if "r = wal_run_start" for r
  proof -
    have "wal_open E C (Some []) = Ok \<lparr>wal_signed = []\<rparr>" by (simp add: wal_open_def str_lines.simps [of "[]"])
    moreover have "wal_parts E C [] [] r" using that by (simp add: wal_parts_def wal_run_start_def)
    ultimately show ?thesis using that unfolding wal_inv_def by (auto simp: votes_agree_def log_reads_def wal_run_start_def)
  qed
  show "wal_inv E C r'" if inv: "wal_inv E C r" and step: "wal_step E C r r'" for r r'
    unfolding wal_inv_def
  proof
    assume codec: "wal_codec_ok C"
    then obtain cs ds where agree: "votes_agree (run_sent r)" and parts: "wal_parts E C cs ds r"
      and reads: "run_failed r \<or> log_reads E C r" using inv by (auto simp: wal_inv_def)
    have table: "table_has w (run_sent r)" if "run_wal r = Some w" for w using parts that by (simp add: wal_parts_def)
    show "votes_agree (run_sent r') \<and> (\<exists>cs ds. wal_parts E C cs ds r') \<and> (run_failed r' \<or> log_reads E C r')"
      using step
    proof cases
      case (opened w)
      with reads have "run_failed r' \<or> log_reads E C r'" by (auto simp: log_reads_def)
      with parts_opened [OF codec parts opened(2,3)] agree opened(1) show ?thesis by auto
    next
      case (broadcast w m s w')
      have "run_failed r' \<or> log_reads E C r'"
        using log_reads_recorded [OF codec _ broadcast(2,3)] reads broadcast(1) by (auto simp: log_reads_def wal_recorded_def)
      with parts_recorded(1) [OF codec parts broadcast(2,3)] table_has_agree [OF table_has_recorded [OF table [OF broadcast(2)] broadcast(3)]]
      show ?thesis by (simp add: broadcast(1))
    next
      case (interrupted w m s w')
      have "run_failed r' \<or> log_reads E C r'"
        using log_reads_recorded [OF codec _ interrupted(2,3)] reads interrupted(1) by (auto simp: wal_recorded_def)
      with parts_recorded(2) [OF codec parts interrupted(2,3)] agree show ?thesis by (simp add: interrupted(1) wal_recorded_def)
    next
      case (failed w n m s w' e)
      note f = parts_failed [OF parts failed(2,3)]
      let ?torn = "run_failed r \<or> s \<noteq> run_file r"
      have r': "r' = r\<lparr>run_file := s, run_failed := ?torn\<rparr>" using failed(1,2) f(1) by simp
      moreover have "?torn \<or> log_reads E C r'" using reads unfolding r' by (auto simp: log_reads_def)
      ultimately show ?thesis using f(2) [of ?torn] agree by fastforce
    next
      case (crash n)
      have "run_failed r \<or> log_reads E C r'" using reads crash by (auto simp: log_reads_def)
      with parts_crash [OF parts crash(2)] agree crash(1) show ?thesis by auto
    qed
  qed
qed

text \<open>
  C31.  A validator that logs its votes never broadcasts two different blocks for the same height,
  round and vote type, in every run in which the log is read when the process starts: appends may
  fail after any part of the line, and a crash may cut what is not yet on the disk, also in the
  middle of a line.  While no append has failed half way, the log can be read back and gives the table of
  the running process; after such a failure opening it may fail, and then the validator does not vote.
\<close>

theorem wal_no_double_vote:
  assumes "wal_codec_ok C" and "(wal_step E C)\<^sup>*\<^sup>* wal_run_start r"
    and "m \<in> set (run_sent r)" and "m' \<in> set (run_sent r)"
    and "msg_height m = msg_height m'" and "msg_round m = msg_round m'" and "msg_vote_type m = msg_vote_type m'"
  shows "msg_block_hash m = msg_block_hash m'
    \<and> (run_failed r \<or> (\<exists>w. wal_open E C (Some (run_file r)) = Ok w \<and> run_wal r \<in> {None, Some w}))"
proof -
  have "wal_inv E C r" using wal.inv_reachable [OF refl assms(2)] .
  then have inv: "votes_agree (run_sent r)" "run_failed r \<or> log_reads E C r" using assms(1) by (simp_all add: wal_inv_def)
  have "message_key m = message_key m'" using assms(5-7) by (simp add: message_key_def)
  with inv(1) assms(3,4) have "msg_block_hash m = msg_block_hash m'" unfolding votes_agree_def by blast
  with inv(2) show ?thesis unfolding log_reads_def by blast
qed

text \<open>A codec for two votes of one key, and a run that crashes in the middle of writing.\<close>

definition first_vote :: consensus_message where
  "first_vote = message_signed toy_ext 1 0 sample_wallet Prevote ''h''"

definition second_vote :: consensus_message where
  "second_vote = message_signed toy_ext 1 0 sample_wallet Precommit ''h''"

definition two_vote_codec :: wal_codec where
  "two_vote_codec = \<lparr>
     vote_to_line = (\<lambda>m. if m = first_vote then Some ''{1}'' else if m = second_vote then Some ''{2}'' else None),
     line_to_vote = (\<lambda>l. if l = ''{1}'' then Some first_vote else if l = ''{2}'' then Some second_vote else None)\<rparr>"

lemma two_votes: "first_vote \<noteq> second_vote" "message_key first_vote \<noteq> message_key second_vote"
  "message_verify toy_ext first_vote = Ok ()" "message_verify toy_ext second_vote = Ok ()"
proof -
  show "message_key first_vote \<noteq> message_key second_vote"
    by (simp add: first_vote_def second_vote_def message_key_def message_signed_def Let_def)
  then show "first_vote \<noteq> second_vote" by metis
  show "message_verify toy_ext first_vote = Ok ()" "message_verify toy_ext second_vote = Ok ()"
    unfolding first_vote_def second_vote_def
    by (rule message_signed_verify [OF hex_laws_toy ed25519_laws_toy], simp add: sample_wallet_def)+
qed

lemma two_vote_codec_ok: "wal_codec_ok two_vote_codec"
proof -
  have braces: "count_list p CHR ''{'' = 1" if part: "piece two_vote_codec p" for p
  proof -
    obtain m l n where l: "vote_to_line two_vote_codec m = Some l" and p: "p \<noteq> []" "p = take n l"
      using part unfolding piece_def by (elim conjE exE)
    from l have "l = ''{1}'' \<or> l = ''{2}''" by (auto simp: two_vote_codec_def split: if_splits)
    then have "count_list (take n l) CHR ''{'' = 1 \<or> take n l = []" by (auto simp: take_Cons split: nat.splits)
    then show ?thesis using p by simp
  qed
  have single: "\<exists>l. ps = [l]" if "list_all (piece two_vote_codec) ps" "concat ps \<in> {''{1}'', ''{2}''}" for ps
  proof -
    have "count_list (concat ps) CHR ''{'' = length ps" using that(1) by (induction ps) (simp_all add: braces)
    with that(2) have "length ps = 1" by auto
    then show ?thesis by (simp add: length_Suc_conv)
  qed
  show ?thesis
    unfolding wal_codec_ok_def
  proof (intro conjI allI impI)
    fix ps m
    assume ps: "list_all (piece two_vote_codec) ps \<and> line_to_vote two_vote_codec (concat ps) = Some m"
    then have "concat ps \<in> {''{1}'', ''{2}''}" by (auto simp: two_vote_codec_def split: if_splits)
    with single ps obtain l where "ps = [l]" by blast
    with ps two_votes(1) show "\<exists>l. ps = [l] \<and> vote_to_line two_vote_codec m = Some l"
      by (auto simp: two_vote_codec_def split: if_splits)
  qed (auto simp: two_vote_codec_def two_votes(1) split: if_splits)
qed

definition logged_run :: wal_run where
  "logged_run = \<lparr>run_file = ''{1}'' @ [newline], run_synced = 4, run_wal = Some \<lparr>wal_signed = [(message_key first_vote, ''h'')]\<rparr>,
     run_sent = [first_vote], run_failed = False\<rparr>"

lemma first_vote_hash: "msg_block_hash first_vote = ''h''"
  by (simp add: first_vote_def message_signed_def Let_def)

lemma logged_run_reached: "(wal_step toy_ext two_vote_codec)\<^sup>*\<^sup>* wal_run_start logged_run"
proof -
  let ?r = "wal_run_start\<lparr>run_wal := Some \<lparr>wal_signed = []\<rparr>\<rparr>"
  have "wal_open toy_ext two_vote_codec (Some (run_file wal_run_start)) = Ok \<lparr>wal_signed = []\<rparr>"
    by (simp add: wal_open_def wal_run_start_def str_lines.simps [of "[]"])
  then have first: "wal_step toy_ext two_vote_codec wal_run_start ?r" by (intro wal_step.opened) (simp_all add: wal_run_start_def)
  have "record_before_broadcast toy_ext two_vote_codec Synced (run_file ?r) \<lparr>wal_signed = []\<rparr> first_vote
      = ((''{1}'' @ [newline], \<lparr>wal_signed = [(message_key first_vote, ''h'')]\<rparr>), Ok ())"
    by (simp add: record_before_broadcast_def two_votes(3) two_vote_codec_def wal_run_start_def hm_insert_def first_vote_hash)
  from wal_step.broadcast [OF _ this] have "wal_step toy_ext two_vote_codec ?r logged_run"
    by (simp add: logged_run_def wal_recorded_def wal_run_start_def eval_nat_numeral)
  with first show ?thesis by (meson rtranclp.rtrancl_into_rtrancl rtranclp.rtrancl_refl)
qed

theorem wal_no_double_vote_witness:
  "\<exists>w. wal_open toy_ext two_vote_codec (Some (run_file logged_run)) = Ok w
     \<and> hm_get (wal_signed w) (message_key first_vote) = Some ''h''"
  using wal_no_double_vote [OF two_vote_codec_ok logged_run_reached, of first_vote first_vote]
  by (auto simp: logged_run_def hm_get_def)

text \<open>
  A log that a crash has cut in the middle of a line is not read any more: the start of the process
  fails until somebody repairs the file.
\<close>

lemma torn_log_refused:
  "\<exists>r. (wal_step toy_ext two_vote_codec)\<^sup>*\<^sup>* wal_run_start r \<and> run_wal r = None
     \<and> wal_open toy_ext two_vote_codec (Some (run_file r)) = Err (EConsensus (WalRecord 2))"
proof -
  let ?torn = "logged_run\<lparr>run_file := ''{1}'' @ newline # ''{2'', run_failed := True\<rparr>"
  have "record_before_broadcast toy_ext two_vote_codec (FailedAfter 2) (run_file logged_run) (the (run_wal logged_run)) second_vote
      = ((''{1}'' @ newline # ''{2'', the (run_wal logged_run)), Err (EConsensus WalIo))"
    using two_votes
    by (simp add: record_before_broadcast_def logged_run_def two_vote_codec_def hm_get_def)
  from wal_step.failed [OF _ this] have torn: "wal_step toy_ext two_vote_codec logged_run ?torn" by (simp add: logged_run_def)
  let ?down = "?torn\<lparr>run_file := take 6 (run_file ?torn), run_synced := min 6 (length (run_file ?torn)), run_wal := None\<rparr>"
  have down: "wal_step toy_ext two_vote_codec ?torn ?down" by (rule wal_step.crash) (simp add: logged_run_def)
  have "str_lines (''{1}'' @ newline # ''{2'') = [''{1}'', ''{2'']"
    using str_lines_line [of "''{1}''" "''{2''"] str_lines_last [of "''{2''"] by simp
  then have "wal_open toy_ext two_vote_codec (Some (run_file ?down)) = Err (EConsensus (WalRecord 2))"
    using two_votes(3) by (simp add: wal_open_def reload_line_def two_vote_codec_def is_blank_def)
  moreover have "(wal_step toy_ext two_vote_codec)\<^sup>*\<^sup>* wal_run_start ?down"
    using logged_run_reached torn down by (meson rtranclp.rtrancl_into_rtrancl)
  ultimately show ?thesis by (intro exI [of _ ?down]) simp
qed

subsection \<open>What the other stores load\<close>

lemma load_certificates:
  "for_each (load_certificate E validators) recs cs = Ok cs' \<longleftrightarrow>
     cs' = cs @ recs \<and> (\<forall>c \<in> set recs. certificate_verify E c validators = Ok ())"
proof (induction recs arbitrary: cs)
  case (Cons c recs)
  then show ?case by (cases "certificate_verify E c validators") (auto simp: load_certificate_def)
qed auto

lemma no_conflicting_pair:
  "sorted (map (\<lambda>c. blk_height (cert_block c)) cs) \<Longrightarrow> conflicting_pair cs = None
   \<Longrightarrow> a \<in> set cs \<Longrightarrow> b \<in> set cs \<Longrightarrow> blk_height (cert_block a) = blk_height (cert_block b)
   \<Longrightarrow> blk_hash (cert_block a) = blk_hash (cert_block b)"
proof (induction cs arbitrary: a b rule: conflicting_pair.induct)
  case (1 x y cs)
  have eq: "blk_height (cert_block x) = blk_height (cert_block y) \<Longrightarrow> blk_hash (cert_block x) = blk_hash (cert_block y)"
    and none: "conflicting_pair (y # cs) = None" using "1.prems"(2) by (auto split: if_splits)
  have later: "blk_hash (cert_block x) = blk_hash (cert_block c)"
    if "c \<in> set (y # cs)" "blk_height (cert_block x) = blk_height (cert_block c)" for c
  proof -
    have "blk_height (cert_block x) \<le> blk_height (cert_block y)" "blk_height (cert_block y) \<le> blk_height (cert_block c)"
      using "1.prems"(1) that(1) by auto
    with that(2) have h: "blk_height (cert_block x) = blk_height (cert_block y)" "blk_height (cert_block y) = blk_height (cert_block c)" by auto
    have "blk_hash (cert_block y) = blk_hash (cert_block c)"
      using "1.IH" [of y c] "1.prems"(1) none h(2) that(1) eq h(1) by auto
    with eq [OF h(1)] show ?thesis by simp
  qed
  have rest: "blk_hash (cert_block a) = blk_hash (cert_block b)" if "a \<in> set (y # cs)" "b \<in> set (y # cs)"
    using "1.IH" [OF _ _ none that "1.prems"(5)] "1.prems"(1,2) by (auto split: if_splits)
  consider "a = x" "b = x" | "a = x" "b \<in> set (y # cs)" | "b = x" "a \<in> set (y # cs)"
    | "a \<in> set (y # cs)" "b \<in> set (y # cs)" using "1.prems"(3,4) by auto
  then show ?case
  proof cases
    case 2
    from later [OF 2(2)] "1.prems"(5) 2(1) show ?thesis by metis
  next
    case 3
    from later [OF 3(2)] "1.prems"(5) 3(1) show ?thesis by metis
  qed (use rest in simp_all)
qed auto

text \<open>
  A load succeeds only on verified certificates in order of height, and never with two blocks at
  one height: equal heights are adjacent after sorting, so comparing neighbours is enough.
\<close>

lemma finality_load_sound:
  assumes "finality_load E recs validators = Ok cs"
  shows "mset cs = mset recs" and "sorted (map (\<lambda>c. blk_height (cert_block c)) cs)"
    and "\<And>c. c \<in> set cs \<Longrightarrow> certificate_verify E c validators = Ok ()"
    and "\<And>a b. a \<in> set cs \<Longrightarrow> b \<in> set cs \<Longrightarrow> blk_height (cert_block a) = blk_height (cert_block b)
      \<Longrightarrow> blk_hash (cert_block a) = blk_hash (cert_block b)"
proof -
  have cs: "cs = sort_key (\<lambda>c. blk_height (cert_block c)) recs" and none: "conflicting_pair cs = None"
    and ok: "\<forall>c \<in> set recs. certificate_verify E c validators = Ok ()"
    using assms by (auto simp: finality_load_def load_certificates Let_def split: option.splits)
  show "mset cs = mset recs" and sorted: "sorted (map (\<lambda>c. blk_height (cert_block c)) cs)" by (simp_all add: cs)
  show "\<And>c. c \<in> set cs \<Longrightarrow> certificate_verify E c validators = Ok ()" using ok by (simp add: cs)
  show "\<And>a b. a \<in> set cs \<Longrightarrow> b \<in> set cs \<Longrightarrow> blk_height (cert_block a) = blk_height (cert_block b)
      \<Longrightarrow> blk_hash (cert_block a) = blk_hash (cert_block b)"
    by (rule no_conflicting_pair [OF sorted none])
qed

text \<open>Evidence appended to a file of distinct, verified evidence keeps it such, and is read back as it is.\<close>

definition evidence_file_ok :: "ext \<Rightarrow> double_vote_evidence list \<Rightarrow> bool" where
  "evidence_file_ok E recs \<longleftrightarrow> distinct (map evidence_id recs) \<and> (\<forall>e \<in> set recs. evidence_verify E e = Ok ())"

lemma load_evidence_loop:
  assumes "evidence_file_ok E recs" and "evidence_id ` set recs \<inter> set ids = {}"
  shows "for_each (load_evidence E) recs (acc, ids) = Ok (acc @ recs, rev (map evidence_id recs) @ ids)"
  using assms
proof (induction recs arbitrary: acc ids)
  case (Cons e recs)
  have "load_evidence E e (acc, ids) = Ok (acc @ [e], evidence_id e # ids)"
    using Cons.prems by (auto simp: load_evidence_def evidence_file_ok_def)
  moreover have "for_each (load_evidence E) recs (acc @ [e], evidence_id e # ids)
      = Ok ((acc @ [e]) @ recs, rev (map evidence_id recs) @ evidence_id e # ids)"
    using Cons.prems by (intro Cons.IH) (auto simp: evidence_file_ok_def)
  ultimately show ?case by simp
qed simp

lemma evidence_load_exact: "evidence_file_ok E recs \<Longrightarrow> evidence_load E recs = Ok recs"
  using load_evidence_loop [of E recs "[]" "[]"] by (simp add: evidence_load_def)

lemma evidence_append_ok:
  assumes "evidence_file_ok E recs" and "evidence_append E recs e = Ok (new, recs')"
  shows "evidence_file_ok E recs' \<and> (new \<longleftrightarrow> evidence_id e \<notin> evidence_id ` set recs)
    \<and> evidence_id e \<in> evidence_id ` set recs'"
  using assms by (auto simp: evidence_append_def evidence_load_ids_def evidence_load_exact evidence_file_ok_def split: if_splits)

end
