(* ===== verification/Runtime.thy ===== *)
theory Runtime
  imports Snapshot ConsensusEra Recovery
begin

text \<open>
  The consensus runtime (\<^verbatim>\<open>src/src/consensus_runtime.rs\<close>), which drives the state machine of
  \<^verbatim>\<open>consensus.rs\<close> with the proposals, votes, round changes, certificates and snapshots a node
  receives, signs the node's own votes, and applies finalized blocks to the ledger.

  An operation on \<^verbatim>\<open>&mut self\<close> returns the new runtime with its result, because most of them
  change the state before they fail.  The clock is an argument: \<open>clk_instant\<close> is
  \<^verbatim>\<open>Instant::now()\<close> and \<open>clk_unix\<close> the system time in seconds (\<open>None\<close> when it lies before the
  epoch); one operation reads one clock.  The JSON encodings the runtime needs beyond those of
  \<open>ext\<close> are the record \<open>runtime_codec\<close>.
\<close>

subsection \<open>State\<close>

record runtime_codec =
  json_interest_policy :: "validator_interest_policy \<Rightarrow> u8 list"
  json_holder_policy :: "holder_reward_policy \<Rightarrow> u8 list"
  json_certificate :: "finality_certificate \<Rightarrow> u8 list option"

record clock =
  clk_instant :: nat
  clk_unix :: "nat option"

record consensus_timeouts =
  to_propose :: nat
  to_prevote :: nat
  to_precommit :: nat

definition uniform :: "nat \<Rightarrow> consensus_timeouts" where
  "uniform timeout = \<lparr>to_propose = timeout, to_prevote = timeout, to_precommit = timeout\<rparr>"

definition for_phase :: "consensus_timeouts \<Rightarrow> consensus_phase \<Rightarrow> nat" where
  "for_phase t phase =
     (case phase of
        Waiting \<Rightarrow> to_propose t | Propose \<Rightarrow> to_propose t
      | PrevotePhase \<Rightarrow> to_prevote t
      | PrecommitPhase \<Rightarrow> to_precommit t | Finalized \<Rightarrow> to_precommit t)"

record runtime =
  rt_chain :: blockchain
  rt_consensus :: bft
  rt_validator :: validator_signer
  rt_pending :: "block option"
  rt_valid_block :: "block option"
  rt_valid_round_prevotes :: "consensus_message list"
  rt_deadline :: nat
  rt_timeouts :: consensus_timeouts
  rt_validators :: "validator list"
  rt_validator_peer_ids :: "string list"
  rt_precommits :: "consensus_message list"
  rt_deferred_votes :: "consensus_message list"
  rt_round_change_votes :: "(nat \<times> nat, signed_round_change list) hmap"
  rt_finalized :: "finality_certificate list"
  rt_pending_finalized :: "finality_certificate list"
  rt_event_schedule :: event_schedule
  rt_interest_policy :: validator_interest_policy
  rt_holder_policy :: holder_reward_policy
  rt_upgrade_schedule :: "protocol_upgrade list"

type_synonym 'a rt_action = "runtime \<times> 'a result"

text \<open>The height after the last block; \<^verbatim>\<open>with_signer\<close> takes 1 when there is none.\<close>

definition next_height :: "blockchain \<Rightarrow> nat" where
  "next_height c = (if ch_blocks c = [] then 1 else wrapping_add 64 (blk_height (last (ch_blocks c))) 1)"

definition with_signer ::
  "clock \<Rightarrow> blockchain \<Rightarrow> validator list \<Rightarrow> validator_signer \<Rightarrow> consensus_timeouts \<Rightarrow> runtime result" where
  "with_signer clk chain validators validator timeouts =
     rbind (bft_new validators) (\<lambda>consensus.
     case start_round consensus (next_height chain) 0 of
       (_, Err e) \<Rightarrow> Err e
     | (consensus', Ok _) \<Rightarrow> Ok
         \<lparr>rt_chain = chain, rt_consensus = consensus', rt_validator = validator, rt_pending = None,
          rt_valid_block = None, rt_valid_round_prevotes = [],
          rt_deadline = clk_instant clk + to_propose timeouts, rt_timeouts = timeouts,
          rt_validators = validators, rt_validator_peer_ids = [], rt_precommits = [],
          rt_deferred_votes = [], rt_round_change_votes = [], rt_finalized = [],
          rt_pending_finalized = [], rt_event_schedule = [],
          rt_interest_policy = validator_interest_default,
          rt_holder_policy = holder_reward_default, rt_upgrade_schedule = []\<rparr>)"

definition with_timeouts ::
  "clock \<Rightarrow> blockchain \<Rightarrow> validator list \<Rightarrow> wallet \<Rightarrow> consensus_timeouts \<Rightarrow> runtime result" where
  "with_timeouts clk chain validators validator timeouts =
     with_signer clk chain validators (Local validator) timeouts"

definition runtime_new ::
  "clock \<Rightarrow> blockchain \<Rightarrow> validator list \<Rightarrow> wallet \<Rightarrow> nat \<Rightarrow> runtime result" where
  "runtime_new clk chain validators validator timeout =
     with_timeouts clk chain validators validator (uniform timeout)"

definition set_upgrade_schedule :: "runtime \<Rightarrow> protocol_upgrade list \<Rightarrow> runtime" where
  "set_upgrade_schedule rt schedule = rt\<lparr>rt_upgrade_schedule := schedule\<rparr>"

definition set_validator_peer_ids :: "runtime \<Rightarrow> string list \<Rightarrow> runtime" where
  "set_validator_peer_ids rt peer_ids = rt\<lparr>rt_validator_peer_ids := peer_ids\<rparr>"

definition set_event_schedule :: "ext \<Rightarrow> runtime \<Rightarrow> event_schedule \<Rightarrow> unit rt_action" where
  "set_event_schedule E rt schedule =
     (case schedule_validate E schedule of
        Err e \<Rightarrow> (rt, Err e)
      | Ok _ \<Rightarrow> (rt\<lparr>rt_event_schedule := schedule\<rparr>, Ok ()))"

definition set_holder_reward_policy :: "runtime \<Rightarrow> holder_reward_policy \<Rightarrow> unit rt_action" where
  "set_holder_reward_policy rt policy =
     (case holder_policy_validate policy of
        Err e \<Rightarrow> (rt, Err e)
      | Ok _ \<Rightarrow> (rt\<lparr>rt_holder_policy := policy\<rparr>, Ok ()))"

definition set_validator_interest_policy :: "runtime \<Rightarrow> validator_interest_policy \<Rightarrow> unit rt_action" where
  "set_validator_interest_policy rt policy =
     (case interest_policy_validate policy of
        Err e \<Rightarrow> (rt, Err e)
      | Ok _ \<Rightarrow> (rt\<lparr>rt_interest_policy := policy\<rparr>, Ok ()))"

definition reset_deadline :: "clock \<Rightarrow> runtime \<Rightarrow> runtime" where
  "reset_deadline clk rt =
     rt\<lparr>rt_deadline := clk_instant clk + for_phase (rt_timeouts rt) (bft_phase (rt_consensus rt))\<rparr>"

definition restart_phase_timeout :: "runtime \<Rightarrow> nat \<Rightarrow> runtime" where
  "restart_phase_timeout rt now =
     rt\<lparr>rt_deadline := now + for_phase (rt_timeouts rt) (bft_phase (rt_consensus rt))\<rparr>"

subsection \<open>Signing\<close>

definition sign_snapshot_attestation :: "ext \<Rightarrow> runtime \<Rightarrow> state_snapshot \<Rightarrow> snapshot_attestation result" where
  "sign_snapshot_attestation E rt snapshot =
     rbind (ok_or (block_by_height (rt_chain rt) (snap_height snapshot)) (ERuntime SnapshotBlockMissing))
       (\<lambda>canonical.
     if snap_block_hash snapshot \<noteq> blk_hash canonical then Err (ERuntime NotCanonical)
     else attestation_sign E snapshot (rt_validator rt))"

definition sign_node_service_attestation ::
  "ext \<Rightarrow> runtime \<Rightarrow> string \<Rightarrow> string \<Rightarrow> nat \<Rightarrow> nat \<Rightarrow> string \<Rightarrow> node_service_attestation result" where
  "sign_node_service_attestation E rt peer_id reward_address observed_at uptime_bps network_group =
     (let attestation = \<lparr>att_peer_id = peer_id, att_reward_address = reward_address,
        att_epoch = observed_at div REWARD_EPOCH_SECONDS, att_observed_at = observed_at,
        att_uptime_bps = uptime_bps, att_network_group = network_group,
        att_validator_id = signer_address E (rt_validator rt), att_signature_hex = []\<rparr>
      in rbind (signer_sign_bytes E (rt_validator rt) (attestation_bytes attestation)) (\<lambda>signature.
         Ok (attestation\<lparr>att_signature_hex := signature\<rparr>)))"

definition sign_vote ::
  "ext \<Rightarrow> runtime \<Rightarrow> nat \<Rightarrow> nat \<Rightarrow> vote_type \<Rightarrow> string \<Rightarrow> consensus_message result" where
  "sign_vote E rt height round vote_type block_hash =
     (let validator_id = signer_address E (rt_validator rt) in
      rbind (signer_sign_bytes E (rt_validator rt)
               (message_unsigned_bytes height round validator_id vote_type block_hash)) (\<lambda>signature.
      message_from_signature E height round validator_id vote_type block_hash signature))"

text \<open>The block, valid round and proof a proposer must use: its valid value when it has one.\<close>

definition proposal_content ::
  "runtime \<Rightarrow> block \<Rightarrow> (block \<times> nat option \<times> consensus_message list) result" where
  "proposal_content rt block =
     (case (rt_valid_block rt, valid_value (rt_consensus rt)) of
        (_, None) \<Rightarrow> Ok (block, None, [])
      | (None, Some _) \<Rightarrow> Err (ERuntime ValidBlockMissing)
      | (Some valid_block, Some (valid_hash, valid_round)) \<Rightarrow>
          if blk_hash valid_block = valid_hash then
            let reconstructed = prevote_certificate (rt_consensus rt) valid_hash valid_round;
                proof_votes = (if reconstructed = [] then rt_valid_round_prevotes rt else reconstructed)
            in if proof_votes = [] then Err (ERuntime NoPrevoteProof)
               else Ok (valid_block, Some valid_round, proof_votes)
          else Err (ERuntime ValidBlockMismatch))"

definition make_proposal :: "ext \<Rightarrow> runtime \<Rightarrow> block \<Rightarrow> signed_proposal result" where
  "make_proposal E rt block =
     (if bft_phase (rt_consensus rt) \<noteq> Propose then Err (ERuntime NotProposePhase)
      else if signer_address E (rt_validator rt) \<noteq> expected_proposer (rt_consensus rt)
      then Err (ERuntime NotMyTurn) else
      rbind (proposal_content rt block) (\<lambda>(block', valid_round, prevotes).
      let proposer_id = signer_address E (rt_validator rt);
          round = bft_round (rt_consensus rt) in
      rbind (signer_sign_bytes E (rt_validator rt)
               (proposal_unsigned_bytes (blk_height block') round proposer_id (blk_hash block')
                 valid_round prevotes)) (\<lambda>signature.
      proposal_from_signature E (blk_height block') round proposer_id block' valid_round prevotes signature)))"

definition can_make_proposal :: "ext \<Rightarrow> runtime \<Rightarrow> bool" where
  "can_make_proposal E rt \<longleftrightarrow> bft_phase (rt_consensus rt) = Propose
     \<and> signer_address E (rt_validator rt) = expected_proposer (rt_consensus rt)"

subsection \<open>Checking the schedule of a block\<close>

definition MAX_CLOCK_DRIFT_SECONDS :: nat where
  "MAX_CLOCK_DRIFT_SECONDS = 30"

fun protocol_v3_action :: "scheduled_event_action \<Rightarrow> bool" where
  "protocol_v3_action (DoubleVoteSlash _ _) = True"
| "protocol_v3_action (DelegationDailyReward _ _ _ _) = True"
| "protocol_v3_action (NodeServiceDailyReward _ _ _ _) = True"
| "protocol_v3_action _ = False"

fun builtin_action :: "scheduled_event_action \<Rightarrow> bool" where
  "builtin_action (BootstrapValidatorReward _ _) = True"
| "builtin_action (NodeMilestoneReward _ _) = True"
| "builtin_action (ValidatorDailyInterest _ _ _ _) = True"
| "builtin_action (HolderDailyReward _ _ _ _) = True"
| "builtin_action (DoubleVoteSlash _ _) = True"
| "builtin_action (DelegationDailyReward _ _ _ _) = True"
| "builtin_action (NodeServiceDailyReward _ _ _ _) = True"
| "builtin_action _ = False"

text \<open>\<^verbatim>\<open>validate_scheduled_block\<close> up to the loop over the events: times, protocol version, delegations.\<close>

definition check_block_frame :: "clock \<Rightarrow> runtime \<Rightarrow> block \<Rightarrow> unit result" where
  "check_block_frame clk rt b =
     (if ch_blocks (rt_chain rt) = [] then Err (ERuntime NoTip)
      else if blk_timestamp b < blk_timestamp (last (ch_blocks (rt_chain rt)))
      then Err (ERuntime TimeBeforePrevious) else
      rbind (ok_or (clk_unix clk) (ERuntime ClockBeforeEpoch)) (\<lambda>now.
      if blk_timestamp b > saturating_add 64 now MAX_CLOCK_DRIFT_SECONDS
      then Err (ERuntime TimeInFuture)
      else if version_at (rt_upgrade_schedule rt) (blk_height b) < 3
        \<and> (list_ex (\<lambda>tx. \<not> is_transfer (tx_action tx)) (blk_transactions b)
           \<or> list_ex (\<lambda>ev. protocol_v3_action (ev_action ev)) (blk_system_events b))
      then Err (ERuntime ProtocolTooOld)
      else if list_ex (\<lambda>tx. case tx_action tx of
            Delegate v \<Rightarrow> v \<notin> val_id ` set (rt_validators rt) | _ \<Rightarrow> False) (blk_transactions b)
      then Err (ERuntime DelegateInactive) else Ok ()))"

text \<open>
  The \<^verbatim>\<open>match\<close> of the loop over the events: the events the node computes itself must be the ones
  its own policies give.  The result says whether the checks after the \<^verbatim>\<open>match\<close> follow
  (\<^verbatim>\<open>continue\<close> skips them).
\<close>

fun check_builtin ::
  "ext \<Rightarrow> runtime_codec \<Rightarrow> runtime \<Rightarrow> block \<Rightarrow> string \<Rightarrow> scheduled_event_action \<Rightarrow> bool result" where
  "check_builtin E J rt b i (BootstrapValidatorReward registrations _) =
     (if i \<noteq> ''ieum-bootstrap-validator-reward-v1'' then Err (ERuntime BuiltinEventId)
      else if sort (map vreg_validator_id registrations) \<noteq> sort (map val_id (rt_validators rt))
      then Err (ERuntime BootstrapTargets) else Ok True)"
| "check_builtin E J rt b i (NodeMilestoneReward _ _) =
     (if i \<noteq> ''ieum-node-100-reward-v1'' then Err (ERuntime BuiltinEventId) else Ok True)"
| "check_builtin E J rt b i (ValidatorDailyInterest snapshot_height policy_hash annual_rate_bps payments) =
     (if i \<noteq> interest_event_id (blk_timestamp b) then Err (ERuntime InterestEventId)
      else if snapshot_height \<noteq> tip_height (rt_chain rt)
        \<or> \<not> mainnet_daily_reward_active (ch_chain_id (rt_chain rt)) (blk_timestamp b)
        \<or> policy_hash \<noteq> interest_policy_hash E (json_interest_policy J) (rt_interest_policy rt)
        \<or> annual_rate_bps \<noteq> vip_annual_rate_bps (rt_interest_policy rt)
        \<or> payments \<noteq> interest_payments (rt_interest_policy rt) (rt_validators rt) (ch_balances (rt_chain rt))
      then Err (ERuntime InterestMismatch) else Ok True)"
| "check_builtin E J rt b i (HolderDailyReward snapshot_height policy_hash annual_rate_bps payments) =
     (if i \<noteq> holder_event_id (blk_timestamp b) then Err (ERuntime HolderEventId)
      else if snapshot_height \<noteq> tip_height (rt_chain rt)
        \<or> \<not> mainnet_daily_reward_active (ch_chain_id (rt_chain rt)) (blk_timestamp b)
        \<or> \<not> holder_policy_active (rt_holder_policy rt) (blk_timestamp b)
        \<or> policy_hash \<noteq> holder_policy_hash E (json_holder_policy J) (rt_holder_policy rt)
        \<or> annual_rate_bps \<noteq> hrp_annual_rate_bps (rt_holder_policy rt)
        \<or> payments \<noteq> holder_payments (rt_holder_policy rt) (ch_balances (rt_chain rt)) {FOUNDATION_FEE_ADDRESS}
      then Err (ERuntime HolderMismatch) else Ok True)"
| "check_builtin E J rt b i (DoubleVoteSlash evidence penalty_bps) =
     (if i \<noteq> slash_event_id E evidence then Err (ERuntime SlashEventId)
      else if penalty_bps \<noteq> DOUBLE_VOTE_SLASH_BPS
        \<or> msg_validator_id (evd_first evidence) \<notin> val_id ` set (rt_validators rt)
      then Err (ERuntime SlashTarget)
      else rbind (evidence_verify E evidence) (\<lambda>_. Ok True))"
| "check_builtin E J rt b i (DelegationDailyReward snapshot_height policy_hash annual_rate_bps payments) =
     (if i \<noteq> reward_event_id (blk_timestamp b) then Err (ERuntime DelegationEventId)
      else if snapshot_height \<noteq> tip_height (rt_chain rt)
        \<or> \<not> mainnet_daily_reward_active (ch_chain_id (rt_chain rt)) (blk_timestamp b)
        \<or> policy_hash \<noteq> interest_policy_hash E (json_interest_policy J) (rt_interest_policy rt)
        \<or> annual_rate_bps \<noteq> vip_annual_rate_bps (rt_interest_policy rt)
        \<or> payments \<noteq> calculate_rewards (ch_staking (rt_chain rt)) annual_rate_bps
            (vip_maximum_daily_total (rt_interest_policy rt))
      then Err (ERuntime DelegationMismatch) else Ok True)"
| "check_builtin E J rt b i (NodeServiceDailyReward snapshot_height epoch attestations payments) =
     (if i \<noteq> service_event_id epoch then Err (ERuntime ServiceEventId) else
      rbind (calculate_service_payments E (blk_timestamp b) attestations (rt_validators rt)
               (rt_validator_peer_ids rt) (ch_staking (rt_chain rt))
               (balance_of (rt_chain rt) FOUNDATION_FEE_ADDRESS)) (\<lambda>expected.
      if snapshot_height \<noteq> tip_height (rt_chain rt) \<or> epoch \<noteq> blk_timestamp b div REWARD_EPOCH_SECONDS
        \<or> payments \<noteq> expected
      then Err (ERuntime ServiceMismatch) else Ok True))"
| "check_builtin E J rt b i _ = Ok False"

definition check_scheduled_event ::
  "ext \<Rightarrow> runtime_codec \<Rightarrow> runtime \<Rightarrow> block \<Rightarrow> scheduled_event \<Rightarrow> unit \<Rightarrow> unit result" where
  "check_scheduled_event E J rt b ev u =
     rbind (check_builtin E J rt b (ev_id ev) (ev_action ev)) (\<lambda>builtin.
     if \<not> builtin then Ok () else
     rbind (event_validate E ev) (\<lambda>_.
     if ev_id ev \<in> ch_executed_events (rt_chain rt)
     then Err (EChain (EventAlreadyExecuted (ev_id ev))) else Ok ()))"

definition validate_scheduled_block :: "ext \<Rightarrow> runtime_codec \<Rightarrow> clock \<Rightarrow> runtime \<Rightarrow> block \<Rightarrow> unit result" where
  "validate_scheduled_block E J clk rt b =
     rbind (check_block_frame clk rt b) (\<lambda>_.
     rbind (validate_block_events (rt_event_schedule rt) (blk_timestamp b)
              (filter (\<lambda>ev. \<not> builtin_action (ev_action ev)) (blk_system_events b))
              (ch_executed_events (rt_chain rt))) (\<lambda>_.
     for_each (check_scheduled_event E J rt b) (blk_system_events b) ()))"

subsection \<open>Proposals and votes\<close>

definition receive_proposal ::
  "ext \<Rightarrow> runtime_codec \<Rightarrow> clock \<Rightarrow> runtime \<Rightarrow> signed_proposal \<Rightarrow> consensus_message rt_action" where
  "receive_proposal E J clk rt p =
     (if ch_blocks (rt_chain rt) = [] then (rt, Err (ERuntime NoTip)) else
      let previous = last (ch_blocks (rt_chain rt)) in
      if blk_previous_hash (prop_block p) \<noteq> blk_hash previous
        \<or> blk_height (prop_block p) \<noteq> wrapping_add 64 (blk_height previous) 1
      then (rt, Err (ERuntime NotNextProposal)) else
      case validate_scheduled_block E J clk rt (prop_block p) of Err e \<Rightarrow> (rt, Err e) | Ok _ \<Rightarrow>
      case handle_proposal E (rt_consensus rt) p of
        (consensus, Err e) \<Rightarrow> (rt\<lparr>rt_consensus := consensus\<rparr>, Err e)
      | (consensus, Ok _) \<Rightarrow>
          let rt' = reset_deadline clk (rt\<lparr>rt_consensus := consensus, rt_pending := Some (prop_block p)\<rparr>)
          in (rt', sign_vote E rt' (prop_height p) (prop_round p) Prevote (blk_hash (prop_block p))))"

text \<open>
  \<^verbatim>\<open>receive_vote\<close> in the order of the source: what happens to the runtime once the state machine
  took the vote, then the two phases that have something to return or to apply.
\<close>

definition note_precommit :: "runtime \<Rightarrow> consensus_message \<Rightarrow> runtime" where
  "note_precommit rt vote =
     (if msg_vote_type vote = Precommit
        \<and> \<not> list_ex (\<lambda>existing. msg_height existing = msg_height vote \<and> msg_round existing = msg_round vote
             \<and> msg_validator_id existing = msg_validator_id vote) (rt_precommits rt)
      then rt\<lparr>rt_precommits := rt_precommits rt @ [vote]\<rparr> else rt)"

definition note_phase :: "clock \<Rightarrow> consensus_phase \<Rightarrow> runtime \<Rightarrow> runtime" where
  "note_phase clk previous_phase rt =
     (let phase = bft_phase (rt_consensus rt) in
      if previous_phase = phase then rt else
      reset_deadline clk
        (if previous_phase = PrevotePhase \<and> phase = PrecommitPhase then
           let rt1 = rt\<lparr>rt_valid_block := rt_pending rt\<rparr> in
           (case valid_value (rt_consensus rt) of
              Some (block_hash, valid_round) \<Rightarrow>
                rt1\<lparr>rt_valid_round_prevotes := prevote_certificate (rt_consensus rt) block_hash valid_round\<rparr>
            | None \<Rightarrow> rt1)
         else rt))"

definition finalize_pending :: "ext \<Rightarrow> runtime \<Rightarrow> consensus_message option rt_action" where
  "finalize_pending E rt =
     (case rt_pending rt of
        None \<Rightarrow> (rt, Ok None)
      | Some block \<Rightarrow>
          let rt1 = rt\<lparr>rt_pending := None\<rparr> in
          if bft_finalized (rt_consensus rt) \<noteq> Some (blk_hash block)
          then (rt1, Err (ERuntime FinalizedHashMismatch)) else
          let certificate = \<lparr>cert_block = block, cert_round = bft_round (rt_consensus rt),
                cert_precommits = rt_precommits rt\<rparr> in
          case certificate_verify E certificate (rt_validators rt) of Err e \<Rightarrow> (rt1, Err e) | Ok _ \<Rightarrow>
          case apply_block E (rt_chain rt) block of Err e \<Rightarrow> (rt1, Err e) | Ok chain \<Rightarrow>
          (rt1\<lparr>rt_chain := chain, rt_valid_block := None, rt_valid_round_prevotes := [],
               rt_finalized := rt_finalized rt @ [certificate],
               rt_pending_finalized := rt_pending_finalized rt @ [certificate]\<rparr>, Ok None))"

definition receive_vote ::
  "ext \<Rightarrow> clock \<Rightarrow> runtime \<Rightarrow> consensus_message \<Rightarrow> consensus_message option rt_action" where
  "receive_vote E clk rt vote =
     (let previous_phase = bft_phase (rt_consensus rt) in
      case handle E (rt_consensus rt) vote of
        (consensus, Err e) \<Rightarrow> (rt\<lparr>rt_consensus := consensus\<rparr>, Err e)
      | (consensus, Ok _) \<Rightarrow>
          let rt1 = note_phase clk previous_phase (note_precommit (rt\<lparr>rt_consensus := consensus\<rparr>) vote) in
          if bft_phase (rt_consensus rt1) = PrecommitPhase then
            (case rt_pending rt1 of
               None \<Rightarrow> (rt1, Err (ERuntime NoCandidate))
             | Some block \<Rightarrow>
                 (rt1, rbind (sign_vote E rt1 (blk_height block) (bft_round (rt_consensus rt1)) Precommit
                                (blk_hash block)) (\<lambda>m. Ok (Some m))))
          else if bft_phase (rt_consensus rt1) = Finalized then finalize_pending E rt1
          else (rt1, Ok None))"

subsection \<open>Round changes and timeouts\<close>

definition MAX_FUTURE_ROUND_DISTANCE :: nat where
  "MAX_FUTURE_ROUND_DISTANCE = 4096"

definition MAX_TRACKED_ROUNDS :: nat where
  "MAX_TRACKED_ROUNDS = 128"

text \<open>The part of \<^verbatim>\<open>receive_round_change\<close> that takes over the valid value of the message.\<close>

definition adopt_round_change_value ::
  "ext \<Rightarrow> runtime_codec \<Rightarrow> clock \<Rightarrow> runtime \<Rightarrow> signed_round_change \<Rightarrow> unit rt_action" where
  "adopt_round_change_value E J clk rt vote =
     (case rc_valid_value vote of
        None \<Rightarrow> (rt, Ok ())
      | Some valid \<Rightarrow>
          if rcv_valid_round valid > rc_round vote then (rt, Err (ERuntime ValidRoundInFuture))
          else if ch_blocks (rt_chain rt) = [] then (rt, Err (ERuntime NoTip))
          else if blk_height (rcv_block valid) \<noteq> rc_height vote
            \<or> blk_previous_hash (rcv_block valid) \<noteq> blk_hash (last (ch_blocks (rt_chain rt)))
          then (rt, Err (ERuntime ValidValueNotNext)) else
          case validate_scheduled_block E J clk rt (rcv_block valid) of Err e \<Rightarrow> (rt, Err e) | Ok _ \<Rightarrow>
          case adopt_valid_value E (rt_consensus rt) (blk_hash (rcv_block valid)) (rcv_valid_round valid)
                 (rcv_prevotes valid) of
            (consensus, Err e) \<Rightarrow> (rt\<lparr>rt_consensus := consensus\<rparr>, Err e)
          | (consensus, Ok _) \<Rightarrow>
              (if valid_value consensus = Some (blk_hash (rcv_block valid), rcv_valid_round valid)
               then rt\<lparr>rt_consensus := consensus, rt_valid_block := Some (rcv_block valid),
                       rt_valid_round_prevotes := rcv_prevotes valid\<rparr>
               else rt\<lparr>rt_consensus := consensus\<rparr>, Ok ()))"

definition add_round_change ::
  "signed_round_change \<Rightarrow> signed_round_change list \<Rightarrow> signed_round_change list" where
  "add_round_change vote votes =
     (if list_ex (\<lambda>known. rc_validator_id known = rc_validator_id vote) votes then votes else votes @ [vote])"

definition round_change_power :: "validator list \<Rightarrow> signed_round_change list \<Rightarrow> nat" where
  "round_change_power validators votes =
     wrapping_sum 64 (List.map_filter (\<lambda>m. map_option val_voting_power
       (find (\<lambda>v. val_id v = rc_validator_id m) validators)) votes)"

definition drop_oldest_round :: "(nat \<times> nat, signed_round_change list) hmap \<Rightarrow> (nat \<times> nat, signed_round_change list) hmap" where
  "drop_oldest_round tracked =
     (if length tracked > MAX_TRACKED_ROUNDS
      then hm_remove tracked (fold min (map fst (tl tracked)) (fst (hd tracked))) else tracked)"

text \<open>
  The rest of \<^verbatim>\<open>receive_round_change\<close>: store the message, add up the power behind its round, and
  catch up when the power suffices.
\<close>

definition round_change_votes_for :: "runtime \<Rightarrow> signed_round_change \<Rightarrow> signed_round_change list" where
  "round_change_votes_for rt vote =
     add_round_change vote
       (case hm_get (rt_round_change_votes rt) (rc_height vote, rc_round vote) of None \<Rightarrow> [] | Some known \<Rightarrow> known)"

definition track_round_change :: "runtime \<Rightarrow> signed_round_change \<Rightarrow> runtime" where
  "track_round_change rt vote =
     rt\<lparr>rt_round_change_votes := drop_oldest_round
       (hm_insert (rt_round_change_votes rt) (rc_height vote, rc_round vote) (round_change_votes_for rt vote))\<rparr>"

definition enter_round :: "clock \<Rightarrow> runtime \<Rightarrow> nat \<Rightarrow> nat \<Rightarrow> bool rt_action" where
  "enter_round clk rt height target_round =
     (case start_round (rt_consensus rt) height target_round of
        (consensus, Err e) \<Rightarrow> (rt\<lparr>rt_consensus := consensus\<rparr>, Err e)
      | (consensus, Ok _) \<Rightarrow>
          (reset_deadline clk (rt\<lparr>rt_consensus := consensus, rt_pending := None, rt_precommits := [],
             rt_deferred_votes := filter (\<lambda>m. msg_height m = height \<and> msg_round m \<ge> target_round)
               (rt_deferred_votes rt),
             rt_round_change_votes := filter (\<lambda>((h, r), _). h = height \<and> saturating_add 32 r 1 \<ge> target_round)
               (rt_round_change_votes rt)\<rparr>), Ok True))"

definition count_round_change :: "clock \<Rightarrow> runtime \<Rightarrow> signed_round_change \<Rightarrow> bool rt_action" where
  "count_round_change clk rt vote =
     (let signed_power = round_change_power (rt_validators rt) (round_change_votes_for rt vote);
          total_power = wrapping_sum 64 (map val_voting_power (rt_validators rt));
          rt1 = track_round_change rt vote;
          catch_up = (saturating_mul 64 signed_power 3 > total_power);
          quorum = (saturating_mul 64 signed_power 3 > saturating_mul 64 total_power 2)
      in case (if quorum then ok_or (checked_add 32 (rc_round vote) 1) (ERuntime RoundNumberOverflow)
               else Ok (rc_round vote)) of
           Err e \<Rightarrow> (rt1, Err e)
         | Ok target_round \<Rightarrow>
             if catch_up \<and> target_round > bft_round (rt_consensus rt1)
             then enter_round clk rt1 (rc_height vote) target_round
             else (rt1, Ok False))"

definition receive_round_change ::
  "ext \<Rightarrow> runtime_codec \<Rightarrow> clock \<Rightarrow> runtime \<Rightarrow> signed_round_change \<Rightarrow> bool rt_action" where
  "receive_round_change E J clk rt vote =
     (case round_change_verify E vote of Err e \<Rightarrow> (rt, Err e) | Ok _ \<Rightarrow>
      if rc_chain_id vote \<noteq> ch_chain_id (rt_chain rt)
        \<or> rc_genesis_commitment vote \<noteq> ch_genesis_commitment (rt_chain rt)
      then (rt, Err (ERuntime OtherChainRoundChange))
      else if rc_height vote \<noteq> bft_height (rt_consensus rt) then (rt, Err (ERuntime RoundChangeHeight))
      else if rc_validator_id vote \<notin> val_id ` set (rt_validators rt)
      then (rt, Err (ERuntime UnregisteredRoundChange))
      else if rc_round vote > saturating_add 32 (bft_round (rt_consensus rt)) MAX_FUTURE_ROUND_DISTANCE
      then (rt, Err (ERuntime RoundTooFar)) else
      case adopt_round_change_value E J clk rt vote of
        (rt1, Err e) \<Rightarrow> (rt1, Err e)
      | (rt1, Ok _) \<Rightarrow> count_round_change clk rt1 vote)"

text \<open>The round change a node signs when its time is up.\<close>

definition timeout_message :: "ext \<Rightarrow> runtime \<Rightarrow> signed_round_change result" where
  "timeout_message E rt =
     (let c = rt_consensus rt;
          carried = (case (rt_valid_block rt, valid_value c) of
            (Some block, Some (hash, valid_round)) \<Rightarrow>
              if blk_hash block = hash then
                let prevotes = prevote_certificate c hash valid_round in
                if prevotes = [] then None
                else Some \<lparr>rcv_block = block, rcv_valid_round = valid_round, rcv_prevotes = prevotes\<rparr>
              else None
          | _ \<Rightarrow> None);
          validator_id = signer_address E (rt_validator rt);
          chain_id = ch_chain_id (rt_chain rt);
          commitment = ch_genesis_commitment (rt_chain rt)
      in rbind (signer_sign_bytes E (rt_validator rt)
                  (bytes_to_sign chain_id commitment (bft_height c) (bft_round c) validator_id carried))
           (\<lambda>signature.
         round_change_from_signature_with_valid_value E chain_id commitment (bft_height c) (bft_round c)
           validator_id carried signature))"

definition timeout_if_due_with_round_change ::
  "ext \<Rightarrow> runtime_codec \<Rightarrow> clock \<Rightarrow> runtime \<Rightarrow> nat \<Rightarrow> (bool \<times> signed_round_change option) rt_action" where
  "timeout_if_due_with_round_change E J clk rt now =
     (if now < rt_deadline rt \<or> bft_phase (rt_consensus rt) = Finalized then (rt, Ok (False, None)) else
      case timeout_message E rt of Err e \<Rightarrow> (rt, Err e) | Ok message \<Rightarrow>
      case receive_round_change E J clk rt message of
        (rt1, Err e) \<Rightarrow> (rt1, Err e)
      | (rt1, Ok _) \<Rightarrow>
          (case (if bft_round (rt_consensus rt1) = rc_round message then on_timeout (rt_consensus rt1)
                 else (rt_consensus rt1, Ok 0)) of
             (consensus, Err e) \<Rightarrow> (rt1\<lparr>rt_consensus := consensus\<rparr>, Err e)
           | (consensus, Ok _) \<Rightarrow>
               (rt1\<lparr>rt_consensus := consensus, rt_pending := None, rt_precommits := [],
                    rt_deadline := now + to_propose (rt_timeouts rt1)\<rparr>, Ok (True, Some message))))"

definition timeout_if_due :: "ext \<Rightarrow> runtime_codec \<Rightarrow> clock \<Rightarrow> runtime \<Rightarrow> nat \<Rightarrow> bool rt_action" where
  "timeout_if_due E J clk rt now =
     (case timeout_if_due_with_round_change E J clk rt now of
        (rt', Err e) \<Rightarrow> (rt', Err e) | (rt', Ok (timed_out, _)) \<Rightarrow> (rt', Ok timed_out))"

definition force_timeout_for_test :: "runtime \<Rightarrow> nat rt_action" where
  "force_timeout_for_test rt =
     (case on_timeout (rt_consensus rt) of
        (consensus, r) \<Rightarrow> (rt\<lparr>rt_pending := None, rt_consensus := consensus\<rparr>, r))"

text \<open>Messages of the current height, latest rounds first, at most 64.\<close>

definition round_change_snapshot :: "runtime \<Rightarrow> signed_round_change list" where
  "round_change_snapshot rt =
     take 64 (rev (sort_key rc_round (concat (map snd
       (filter (\<lambda>((known_height, _), _). known_height = bft_height (rt_consensus rt))
          (rt_round_change_votes rt))))))"

definition pending_transactions :: "runtime \<Rightarrow> transaction list" where
  "pending_transactions rt = (case rt_pending rt of None \<Rightarrow> [] | Some block \<Rightarrow> blk_transactions block)"

definition rt_take_evidence :: "runtime \<Rightarrow> runtime \<times> double_vote_evidence list" where
  "rt_take_evidence rt =
     (case take_evidence (rt_consensus rt) of (consensus, evidence) \<Rightarrow> (rt\<lparr>rt_consensus := consensus\<rparr>, evidence))"

subsection \<open>Deferred votes\<close>

definition MAX_DEFERRED_VOTES :: nat where
  "MAX_DEFERRED_VOTES = 1024"

definition same_vote :: "consensus_message \<Rightarrow> consensus_message \<Rightarrow> bool" where
  "same_vote known vote \<longleftrightarrow> msg_height known = msg_height vote \<and> msg_round known = msg_round vote
     \<and> msg_vote_type known = msg_vote_type vote \<and> msg_validator_id known = msg_validator_id vote
     \<and> msg_block_hash known = msg_block_hash vote"

definition defer_vote :: "runtime \<Rightarrow> consensus_message \<Rightarrow> runtime" where
  "defer_vote rt vote =
     (if list_ex (\<lambda>known. same_vote known vote) (rt_deferred_votes rt) then rt else
      rt\<lparr>rt_deferred_votes :=
        (if length (rt_deferred_votes rt) \<ge> MAX_DEFERRED_VOTES then tl (rt_deferred_votes rt)
         else rt_deferred_votes rt) @ [vote]\<rparr>)"

text \<open>The error texts are compared in the source; this is the one text it matches.\<close>

definition is_deferable_vote_error :: "error \<Rightarrow> bool" where
  "is_deferable_vote_error e \<longleftrightarrow> (case e of EConsensus WrongPhaseForVote \<Rightarrow> True | _ \<Rightarrow> False)"

text \<open>
  One pass over the deferred votes.  The accumulator holds the votes to send, those to keep, and
  whether a vote was taken.  An error of the node's own precommit ends the replay, and the votes
  not yet looked at are gone.
\<close>

fun replay_pass ::
  "ext \<Rightarrow> clock \<Rightarrow> consensus_message list \<Rightarrow> runtime \<Rightarrow> consensus_message list \<times> consensus_message list \<times> bool
   \<Rightarrow> (consensus_message list \<times> consensus_message list \<times> bool) rt_action" where
  "replay_pass E clk [] rt acc = (rt, Ok acc)"
| "replay_pass E clk (vote # votes) rt (outbound, remaining, progressed) =
     (case receive_vote E clk rt vote of
        (rt1, Ok (Some precommit)) \<Rightarrow>
          (case receive_vote E clk rt1 precommit of
             (rt2, Err e) \<Rightarrow> (rt2, Err e)
           | (rt2, Ok _) \<Rightarrow> replay_pass E clk votes rt2 (outbound @ [precommit], remaining, True))
      | (rt1, Ok None) \<Rightarrow> replay_pass E clk votes rt1 (outbound, remaining, True)
      | (rt1, Err e) \<Rightarrow>
          replay_pass E clk votes rt1
            (outbound, if is_deferable_vote_error e then remaining @ [vote] else remaining, progressed))"

lemma replay_pass_length:
  assumes "replay_pass E clk votes rt (outbound, remaining, progressed) = (rt', Ok (outbound', remaining', progressed'))"
  shows "length remaining' + (if progressed' \<and> \<not> progressed then 1 else 0) \<le> length remaining + length votes"
  using assms
proof (induction votes arbitrary: rt outbound remaining progressed)
  case (Cons vote votes)
  obtain rt1 r where first: "receive_vote E clk rt vote = (rt1, r)" by (cases "receive_vote E clk rt vote")
  show ?case
  proof (cases r)
    case (Err e)
    with Cons.prems first have "replay_pass E clk votes rt1
        (outbound, if is_deferable_vote_error e then remaining @ [vote] else remaining, progressed)
        = (rt', Ok (outbound', remaining', progressed'))" by simp
    from Cons.IH [OF this] show ?thesis by (auto split: if_splits)
  next
    case (Ok v)
    show ?thesis
    proof (cases v)
      case None
      with Ok first Cons.prems have "replay_pass E clk votes rt1 (outbound, remaining, True)
          = (rt', Ok (outbound', remaining', progressed'))" by simp
      from Cons.IH [OF this] show ?thesis by auto
    next
      case (Some precommit)
      obtain rt2 r2 where second: "receive_vote E clk rt1 precommit = (rt2, r2)"
        by (cases "receive_vote E clk rt1 precommit")
      with Ok Some first Cons.prems have "replay_pass E clk votes rt2 (outbound @ [precommit], remaining, True)
          = (rt', Ok (outbound', remaining', progressed'))" by (cases r2) simp_all
      from Cons.IH [OF this] show ?thesis by auto
    qed
  qed
qed simp

text \<open>The outer \<^verbatim>\<open>loop\<close>: it ends because a pass that takes a vote leaves fewer votes.\<close>

function replay_loop ::
  "ext \<Rightarrow> clock \<Rightarrow> runtime \<Rightarrow> consensus_message list \<Rightarrow> consensus_message list \<Rightarrow> consensus_message list rt_action" where
  "replay_loop E clk rt votes outbound =
     (case replay_pass E clk votes rt (outbound, [], False) of
        (rt', Err e) \<Rightarrow> (rt', Err e)
      | (rt', Ok (outbound', remaining, progressed)) \<Rightarrow>
          if progressed then replay_loop E clk rt' remaining outbound'
          else (rt'\<lparr>rt_deferred_votes := remaining\<rparr>, Ok outbound'))"
  by pat_completeness auto
termination
  by (relation "measure (\<lambda>(E, clk, rt, votes, outbound). length votes)")
    (auto dest!: replay_pass_length [OF sym])

declare replay_loop.simps [simp del]

definition replay_deferred_votes :: "ext \<Rightarrow> clock \<Rightarrow> runtime \<Rightarrow> consensus_message list rt_action" where
  "replay_deferred_votes E clk rt = replay_loop E clk (rt\<lparr>rt_deferred_votes := []\<rparr>) (rt_deferred_votes rt) []"

subsection \<open>Synchronisation\<close>

definition blocks_from :: "runtime \<Rightarrow> nat \<Rightarrow> block list" where
  "blocks_from rt from_height =
     take 128 (filter (\<lambda>b. blk_height b \<ge> from_height) (ch_blocks (rt_chain rt)))"

definition MAX_SYNC_BYTES :: nat where
  "MAX_SYNC_BYTES = 1500000"

fun select_certificates ::
  "runtime_codec \<Rightarrow> nat \<Rightarrow> finality_certificate list \<Rightarrow> finality_certificate list \<Rightarrow> finality_certificate list" where
  "select_certificates J bytes selected [] = selected"
| "select_certificates J bytes selected (c # cs) =
     (let sz = (case json_certificate J c of None \<Rightarrow> MAX_SYNC_BYTES + 1 | Some value \<Rightarrow> length value) in
      if selected \<noteq> [] \<and> saturating_add 64 bytes sz > MAX_SYNC_BYTES then selected
      else select_certificates J (saturating_add 64 bytes sz) (selected @ [c]) cs)"

definition certificates_from :: "runtime_codec \<Rightarrow> runtime \<Rightarrow> nat \<Rightarrow> finality_certificate list" where
  "certificates_from J rt from_height =
     select_certificates J 0 []
       (take 128 (filter (\<lambda>c. blk_height (cert_block c) \<ge> from_height) (rt_finalized rt)))"

fun contiguous :: "nat \<Rightarrow> finality_certificate list \<Rightarrow> finality_certificate list" where
  "contiguous expected [] = []"
| "contiguous expected (c # cs) =
     (if blk_height (cert_block c) \<noteq> expected then []
      else c # contiguous (saturating_add 64 expected 1) cs)"

definition contiguous_certificates_from :: "runtime_codec \<Rightarrow> runtime \<Rightarrow> nat \<Rightarrow> finality_certificate list" where
  "contiguous_certificates_from J rt from_height =
     contiguous from_height (certificates_from J rt from_height)"

text \<open>What every change of height resets.\<close>

definition clear_height :: "runtime \<Rightarrow> runtime" where
  "clear_height rt = rt\<lparr>rt_pending := None, rt_valid_block := None, rt_valid_round_prevotes := [],
     rt_precommits := [], rt_round_change_votes := []\<rparr>"

definition install_certified_snapshot ::
  "ext \<Rightarrow> clock \<Rightarrow> runtime \<Rightarrow> state_snapshot \<Rightarrow> snapshot_certificate \<Rightarrow> unit rt_action" where
  "install_certified_snapshot E clk rt snapshot certificate =
     (case verify_snapshot E certificate snapshot (rt_validators rt) of Err e \<Rightarrow> (rt, Err e) | Ok _ \<Rightarrow>
      if snap_chain_id snapshot \<noteq> ch_chain_id (rt_chain rt)
        \<or> snap_genesis_commitment snapshot \<noteq> ch_genesis_commitment (rt_chain rt)
      then (rt, Err (ERuntime OtherChainSnapshot))
      else if snap_height snapshot \<le> tip_height (rt_chain rt) then (rt, Ok ()) else
      case from_snapshot_with_staking (snap_chain_id snapshot) (snap_genesis_commitment snapshot)
             (snap_height snapshot) (snap_block_hash snapshot) (snap_balances snapshot)
             (snap_next_nonces snapshot) (snap_executed_events snapshot) (snap_staking snapshot) of
        Err e \<Rightarrow> (rt, Err e)
      | Ok chain \<Rightarrow>
          if state_hash E chain \<noteq> snap_state_hash snapshot then (rt, Err (ERuntime SnapshotRootMismatch)) else
          (case start_round (rt_consensus rt) (wrapping_add 64 (snap_height snapshot) 1) 0 of
             (consensus, Err e) \<Rightarrow> (rt\<lparr>rt_chain := chain, rt_consensus := consensus\<rparr>, Err e)
           | (consensus, Ok _) \<Rightarrow>
               (reset_deadline clk ((clear_height (rt\<lparr>rt_chain := chain, rt_consensus := consensus\<rparr>))
                  \<lparr>rt_deferred_votes := []\<rparr>), Ok ())))"

fun import_loop :: "ext \<Rightarrow> runtime \<Rightarrow> nat \<Rightarrow> finality_certificate list \<Rightarrow> nat rt_action" where
  "import_loop E rt imported [] =
     (rt\<lparr>rt_finalized := sort_key (\<lambda>c. blk_height (cert_block c)) (rt_finalized rt)\<rparr>, Ok imported)"
| "import_loop E rt imported (c # cs) =
     (case certificate_verify E c (rt_validators rt) of Err e \<Rightarrow> (rt, Err e) | Ok _ \<Rightarrow>
      case block_by_height (rt_chain rt) (blk_height (cert_block c)) of
        None \<Rightarrow> import_loop E rt imported cs
      | Some block \<Rightarrow>
          if blk_hash block \<noteq> blk_hash (cert_block c) then (rt, Err (ERuntime CertificateHashMismatch))
          else if list_ex (\<lambda>known. blk_height (cert_block known) = blk_height (cert_block c)) (rt_finalized rt)
          then import_loop E rt imported cs
          else import_loop E (rt\<lparr>rt_finalized := rt_finalized rt @ [c]\<rparr>) (imported + 1) cs)"

definition import_certificate_history :: "ext \<Rightarrow> runtime \<Rightarrow> finality_certificate list \<Rightarrow> nat rt_action" where
  "import_certificate_history E rt certificates = import_loop E rt 0 certificates"

definition take_finalized :: "runtime \<Rightarrow> runtime \<times> finality_certificate list" where
  "take_finalized rt = (rt\<lparr>rt_pending_finalized := []\<rparr>, rt_pending_finalized rt)"

text \<open>
  The loop of \<^verbatim>\<open>apply_sync_certificates\<close>.  The chain is never empty there (\<^verbatim>\<open>unwrap\<close> on the
  last block); the tip of an empty chain is never read.
\<close>

fun sync_certificates_loop ::
  "ext \<Rightarrow> runtime_codec \<Rightarrow> clock \<Rightarrow> runtime \<Rightarrow> nat \<Rightarrow> finality_certificate list \<Rightarrow> nat rt_action" where
  "sync_certificates_loop E J clk rt applied [] = (rt, Ok applied)"
| "sync_certificates_loop E J clk rt applied (c # cs) =
     (case certificate_verify E c (rt_validators rt) of Err e \<Rightarrow> (rt, Err e) | Ok _ \<Rightarrow>
      let next = next_height (rt_chain rt); h = blk_height (cert_block c) in
      if h < next then
        (case block_by_height (rt_chain rt) h of
           None \<Rightarrow> (rt, Err (ERuntime CanonicalMissing))
         | Some canonical \<Rightarrow>
             if blk_hash canonical \<noteq> blk_hash (cert_block c) then (rt, Err (ERuntime (FinalityViolation h)))
             else sync_certificates_loop E J clk rt applied cs)
      else if h \<noteq> next then (rt, Err (ERuntime SyncGap)) else
      case validate_scheduled_block E J clk rt (cert_block c) of Err e \<Rightarrow> (rt, Err e) | Ok _ \<Rightarrow>
      case apply_block E (rt_chain rt) (cert_block c) of Err e \<Rightarrow> (rt, Err e) | Ok chain \<Rightarrow>
      sync_certificates_loop E J clk (rt\<lparr>rt_chain := chain, rt_finalized := rt_finalized rt @ [c]\<rparr>)
        (applied + 1) cs)"

definition start_next_height :: "clock \<Rightarrow> runtime \<Rightarrow> unit rt_action" where
  "start_next_height clk rt =
     (case start_round (rt_consensus rt) (next_height (rt_chain rt)) 0 of
        (consensus, Err e) \<Rightarrow> (rt\<lparr>rt_consensus := consensus\<rparr>, Err e)
      | (consensus, Ok _) \<Rightarrow> (reset_deadline clk (clear_height (rt\<lparr>rt_consensus := consensus\<rparr>)), Ok ()))"

definition apply_sync_certificates ::
  "ext \<Rightarrow> runtime_codec \<Rightarrow> clock \<Rightarrow> runtime \<Rightarrow> finality_certificate list \<Rightarrow> nat rt_action" where
  "apply_sync_certificates E J clk rt certificates =
     (case sync_certificates_loop E J clk rt 0 certificates of
        (rt1, Err e) \<Rightarrow> (rt1, Err e)
      | (rt1, Ok applied) \<Rightarrow>
          if applied = 0 then (rt1, Ok applied) else
          (case start_next_height clk rt1 of
             (rt2, Err e) \<Rightarrow> (rt2, Err e) | (rt2, Ok _) \<Rightarrow> (rt2, Ok applied)))"

definition advance_after_finalization :: "clock \<Rightarrow> runtime \<Rightarrow> unit rt_action" where
  "advance_after_finalization clk rt =
     (if bft_phase (rt_consensus rt) \<noteq> Finalized then (rt, Err (ERuntime NotFinalized))
      else start_next_height clk rt)"

fun sync_batch_loop ::
  "ext \<Rightarrow> runtime_codec \<Rightarrow> clock \<Rightarrow> runtime \<Rightarrow> nat \<Rightarrow> block list \<Rightarrow> nat rt_action" where
  "sync_batch_loop E J clk rt applied [] = (rt, Ok applied)"
| "sync_batch_loop E J clk rt applied (b # bs) =
     (let next = next_height (rt_chain rt) in
      if blk_height b < next then sync_batch_loop E J clk rt applied bs
      else if blk_height b \<noteq> next then (rt, Err (ERuntime SyncGap)) else
      case validate_scheduled_block E J clk rt b of Err e \<Rightarrow> (rt, Err e) | Ok _ \<Rightarrow>
      case apply_block E (rt_chain rt) b of Err e \<Rightarrow> (rt, Err e) | Ok chain \<Rightarrow>
      sync_batch_loop E J clk (rt\<lparr>rt_chain := chain\<rparr>) (applied + 1) bs)"

definition apply_sync_batch ::
  "ext \<Rightarrow> runtime_codec \<Rightarrow> clock \<Rightarrow> runtime \<Rightarrow> block list \<Rightarrow> nat rt_action" where
  "apply_sync_batch E J clk rt blocks = sync_batch_loop E J clk rt 0 blocks"

definition replace_bootstrap_validators :: "clock \<Rightarrow> runtime \<Rightarrow> validator list \<Rightarrow> unit rt_action" where
  "replace_bootstrap_validators clk rt validators =
     (if tip_height (rt_chain rt) \<noteq> 0 \<or> rt_pending rt \<noteq> None then (rt, Err (ERuntime ValidatorSetFixed)) else
      case bft_new validators of Err e \<Rightarrow> (rt, Err e) | Ok consensus \<Rightarrow>
      case start_round consensus 1 0 of
        (_, Err e) \<Rightarrow> (rt, Err e)
      | (consensus', Ok _) \<Rightarrow>
          (reset_deadline clk (rt\<lparr>rt_consensus := consensus', rt_validators := validators,
             rt_valid_block := None, rt_valid_round_prevotes := [], rt_precommits := [],
             rt_round_change_votes := []\<rparr>), Ok ()))"

end
