(* ===== verification/Agreement.thy ===== *)
theory Agreement
  imports Votes
begin

text \<open>
  Agreement across rounds, as an interface.  It says what a protocol with locked values has to
  guarantee of the votes of its correct members: a member prevotes once per round, precommits only
  what a quorum prevoted in the same round, and after a precommit prevotes another value only if a
  quorum prevoted that value in between.  From that it follows that two values are never decided
  at one height, in whatever rounds.
\<close>

text \<open>A quorum all of whose correct members satisfy a predicate.\<close>

definition backed :: "('s \<Rightarrow> 'v set \<Rightarrow> bool) \<Rightarrow> 's \<Rightarrow> 'v set \<Rightarrow> ('v \<Rightarrow> bool) \<Rightarrow> bool" where
  "backed quorum s correct P \<longleftrightarrow> (\<exists>Q. quorum s Q \<and> (\<forall>v \<in> Q \<inter> correct. P v))"

lemma backed_mono: "backed quorum s correct P \<Longrightarrow> (\<And>v. v \<in> correct \<Longrightarrow> P v \<Longrightarrow> P' v) \<Longrightarrow> backed quorum s correct P'"
  unfolding backed_def by blast

locale locked_voting = weighted_quorum members power total quorum
  for members :: "'s \<Rightarrow> 'v set" and power :: "'s \<Rightarrow> 'v \<Rightarrow> nat" and total :: "'s \<Rightarrow> nat"
    and quorum :: "'s \<Rightarrow> 'v set \<Rightarrow> bool" +
  fixes ok :: "'n \<Rightarrow> bool"
    and valset :: "'n \<Rightarrow> 's"
    and correct :: "'n \<Rightarrow> 'v set"
    and prevoted :: "'n \<Rightarrow> 'v \<Rightarrow> nat \<Rightarrow> 'b \<Rightarrow> bool"
    and precommitted :: "'n \<Rightarrow> 'v \<Rightarrow> nat \<Rightarrow> 'b \<Rightarrow> bool"
  assumes prevote_once: "ok n \<Longrightarrow> v \<in> correct n \<Longrightarrow> prevoted n v r x \<Longrightarrow> prevoted n v r y \<Longrightarrow> x = y"
    and precommit_backed: "ok n \<Longrightarrow> v \<in> correct n \<Longrightarrow> precommitted n v r x \<Longrightarrow>
      backed quorum (valset n) (correct n) (\<lambda>u. prevoted n u r x)"
    and lock_released: "ok n \<Longrightarrow> v \<in> correct n \<Longrightarrow> precommitted n v r x \<Longrightarrow> prevoted n v r' y \<Longrightarrow>
      r < r' \<Longrightarrow> x \<noteq> y \<Longrightarrow>
      \<exists>vr. r \<le> vr \<and> vr < r' \<and> backed quorum (valset n) (correct n) (\<lambda>u. prevoted n u vr y)"
begin

lemma backed_overlap:
  assumes "backed quorum s C P" and "backed quorum s C P'"
    and "3 * sum (power s) (members s - C) \<le> total s"
  obtains v where "v \<in> C" and "P v" and "P' v"
proof -
  obtain A B where A: "quorum s A" "\<forall>v \<in> A \<inter> C. P v" and B: "quorum s B" "\<forall>v \<in> B \<inter> C. P' v"
    using assms(1,2) unfolding backed_def by blast
  have "3 * sum (power s) ((- C) \<inter> members s) \<le> total s" using assms(3) by (simp add: Diff_eq Int_commute)
  with A(1) B(1) obtain v where "v \<in> A" "v \<in> B" "v \<notin> - C" by (rule honest_overlap)
  then show thesis using A B by (intro that [of v]) auto
qed

text \<open>After a decision no later quorum of prevotes is for another value.\<close>

lemma no_later_backing:
  assumes "ok n" and few: "3 * sum (power (valset n)) (members (valset n) - correct n) \<le> total (valset n)"
    and decided: "backed quorum (valset n) (correct n) (\<lambda>u. precommitted n u r x)"
  shows "r \<le> r' \<Longrightarrow> backed quorum (valset n) (correct n) (\<lambda>u. prevoted n u r' y) \<Longrightarrow> y = x"
proof (induction r' arbitrary: y rule: less_induct)
  case (less r')
  obtain v where v: "v \<in> correct n" "precommitted n v r x" "prevoted n v r' y"
    using decided less.prems(2) few by (rule backed_overlap)
  show ?case
  proof (rule ccontr)
    assume "y \<noteq> x"
    show False
    proof (cases "r = r'")
      case True
      have "backed quorum (valset n) (correct n) (\<lambda>u. prevoted n u r x)"
        using \<open>ok n\<close> v by (intro precommit_backed)
      then obtain u where "u \<in> correct n" "prevoted n u r x" "prevoted n u r' y"
        using less.prems(2) few by (rule backed_overlap)
      with True \<open>y \<noteq> x\<close> \<open>ok n\<close> prevote_once show False by blast
    next
      case False
      with less.prems(1) have "r < r'" by simp
      then obtain vr where "r \<le> vr" "vr < r'"
        and "backed quorum (valset n) (correct n) (\<lambda>u. prevoted n u vr y)"
        using lock_released [OF \<open>ok n\<close> v(1,2,3)] \<open>y \<noteq> x\<close> by blast
      with less.IH \<open>y \<noteq> x\<close> show False by blast
    qed
  qed
qed

lemma decided_backed:
  assumes "ok n" and few: "3 * sum (power (valset n)) (members (valset n) - correct n) \<le> total (valset n)"
    and decided: "backed quorum (valset n) (correct n) (\<lambda>u. precommitted n u r x)"
  shows "backed quorum (valset n) (correct n) (\<lambda>u. prevoted n u r x)"
proof -
  obtain v where "v \<in> correct n" "precommitted n v r x"
    using decided decided few by (rule backed_overlap)
  with \<open>ok n\<close> show ?thesis by (rule precommit_backed)
qed

theorem agreement:
  assumes "ok n" and few: "3 * sum (power (valset n)) (members (valset n) - correct n) \<le> total (valset n)"
    and dx: "backed quorum (valset n) (correct n) (\<lambda>u. precommitted n u r x)"
    and dy: "backed quorum (valset n) (correct n) (\<lambda>u. precommitted n u r' y)"
  shows "x = y"
proof (cases "r \<le> r'")
  case True
  from no_later_backing [OF assms(1,2) dx True decided_backed [OF assms(1,2) dy]] show ?thesis by simp
next
  case False
  then have "r' \<le> r" by simp
  from no_later_backing [OF assms(1,2) dy this decided_backed [OF assms(1,2) dx]] show ?thesis .
qed

end

end
