(* ===== verification/LockSafety.thy ===== *)
theory LockSafety
  imports BftSafety Agreement
begin

text \<open>
  What the state machine of one correct validator guarantees of the votes that validator signs,
  given the set of votes that the correct validators have signed so far.  The invariant ties the
  machine's lock and its counted votes to that set; every operation keeps it, and a proposal that
  is accepted or a quorum that is reached leaves a state in which the next vote may be signed.
\<close>

subsection \<open>Signed votes\<close>

text \<open>Validator, height, round, kind and block hash.\<close>

type_synonym vote = "string \<times> nat \<times> nat \<times> vote_type \<times> string"

definition vote_of :: "consensus_message \<Rightarrow> vote" where
  "vote_of m = (msg_validator_id m, msg_height m, msg_round m, msg_vote_type m, msg_block_hash m)"

text \<open>Signatures are not forged: a message that verifies for a correct validator was signed by it.\<close>

definition authentic :: "ext \<Rightarrow> string set \<Rightarrow> vote set \<Rightarrow> consensus_message \<Rightarrow> bool" where
  "authentic E H S m \<longleftrightarrow> (message_verify E m = Ok () \<and> msg_validator_id m \<in> H \<longrightarrow> vote_of m \<in> S)"

definition polka :: "validator list \<Rightarrow> string set \<Rightarrow> vote set \<Rightarrow> nat \<Rightarrow> nat \<Rightarrow> string \<Rightarrow> bool" where
  "polka vs H S h r x \<longleftrightarrow> backed power_quorum vs H (\<lambda>u. (u, h, r, Prevote, x) \<in> S)"

lemma polka_mono: "polka vs H S h r x \<Longrightarrow> S \<subseteq> S' \<Longrightarrow> polka vs H S' h r x"
  unfolding polka_def by (erule backed_mono) auto

lemma authentic_mono: "authentic E H S m \<Longrightarrow> S \<subseteq> S' \<Longrightarrow> authentic E H S' m"
  by (auto simp: authentic_def)

subsection \<open>The invariant\<close>

definition votes_auth :: "string set \<Rightarrow> vote set \<Rightarrow> bft \<Rightarrow> bool" where
  "votes_auth H S s \<longleftrightarrow> (\<forall>t x ids u. hm_get (bft_votes s) (t, x) = Some ids \<and> u \<in> set ids \<and> u \<in> H
     \<longrightarrow> (u, bft_height s, bft_round s, t, x) \<in> S)"

definition lock_auth :: "validator list \<Rightarrow> string set \<Rightarrow> vote set \<Rightarrow> bft \<Rightarrow> bool" where
  "lock_auth vs H S s \<longleftrightarrow> (\<forall>x r. locked_value s = Some (x, r) \<longrightarrow> polka vs H S (bft_height s) r x)"

text \<open>The votes of the machine's own validator: none from the future, and what the current ones say.\<close>

definition own_past :: "vote set \<Rightarrow> string \<Rightarrow> bft \<Rightarrow> bool" where
  "own_past S v s \<longleftrightarrow> (\<forall>h r t x. (v, h, r, t, x) \<in> S \<longrightarrow>
     h \<le> bft_height s \<and> (h = bft_height s \<longrightarrow> r \<le> bft_round s))"

definition own_prevote :: "vote set \<Rightarrow> string \<Rightarrow> bft \<Rightarrow> bool" where
  "own_prevote S v s \<longleftrightarrow> (\<forall>x. (v, bft_height s, bft_round s, Prevote, x) \<in> S \<longrightarrow>
     (if bft_phase s = Propose then locked_value s = Some (x, bft_round s) else bft_proposal s = Some x))"

definition own_precommit :: "vote set \<Rightarrow> string \<Rightarrow> bft \<Rightarrow> bool" where
  "own_precommit S v s \<longleftrightarrow> (\<forall>r x. (v, bft_height s, r, Precommit, x) \<in> S \<longrightarrow>
     (\<exists>z lr. locked_value s = Some (z, lr) \<and> r \<le> lr \<and> (lr = r \<longrightarrow> z = x)))"

definition lock_round :: "bft \<Rightarrow> bool" where
  "lock_round s \<longleftrightarrow> (\<forall>z lr. locked_value s = Some (z, lr) \<longrightarrow>
     lr \<le> bft_round s
     \<and> (bft_phase s = Propose \<longrightarrow> lr < bft_round s \<or> bft_round s = 0)
     \<and> (bft_phase s = PrevotePhase \<and> lr = bft_round s \<longrightarrow> bft_proposal s = Some z))"

definition machine_inv :: "ext \<Rightarrow> validator list \<Rightarrow> string set \<Rightarrow> vote set \<Rightarrow> string \<Rightarrow> bft \<Rightarrow> bool" where
  "machine_inv E vs H S v s \<longleftrightarrow> bft_inv E s \<and> bft_validators s = validator_powers vs
     \<and> hm_total (validator_powers vs) = total_voting_power vs
     \<and> votes_auth H S s \<and> lock_auth vs H S s \<and> own_past S v s \<and> own_prevote S v s
     \<and> own_precommit S v s \<and> lock_round s"

lemmas own_defs = own_past_def own_prevote_def own_precommit_def

lemma locked_value_Some:
  "locked_value s = Some (x, r) \<longleftrightarrow> bft_locked_value s = Some x \<and> bft_locked_round s = Some r"
  by (auto simp: locked_value_def split: option.splits)

lemma power_quorumI:
  assumes "bft_validators s = validator_powers vs" and "hm_total (validator_powers vs) = total_voting_power vs"
    and "Q \<subseteq> fst ` set (bft_validators s)"
    and "2 * hm_total (bft_validators s) < 3 * (\<Sum>v \<in> Q. hm_get0 (bft_validators s) v)"
  shows "power_quorum vs Q"
  using assms by (simp add: power_quorum_def signed_power_def validator_powers_keys)

lemma check_prevotes_polka:
  assumes "machine_inv E vs H S v s" and ok: "check_prevotes E s h r x prevotes = Ok ()"
    and auth: "\<forall>m \<in> set prevotes. authentic E H S m"
  shows "polka vs H S h r x"
proof -
  have total: "bft_total_power s = hm_total (bft_validators s)"
    using assms(1) by (simp add: machine_inv_def bft_inv_def validators_inv_def)
  note q = check_prevotes_quorum [OF ok total]
  have "power_quorum vs (signers prevotes)"
    using assms(1) q(2,3) by (intro power_quorumI [of s]) (auto simp: machine_inv_def signers_def)
  moreover have "(u, h, r, Prevote, x) \<in> S" if "u \<in> signers prevotes" "u \<in> H" for u
    using that q(2) auth by (auto simp: signers_def authentic_def good_vote_def vote_of_def)
  ultimately show ?thesis unfolding polka_def backed_def by blast
qed

lemma has_quorum_polka:
  assumes "machine_inv E vs H S v s" and "has_quorum s (Prevote, x)"
  shows "polka vs H S (bft_height s) (bft_round s) x"
proof -
  have inv: "validators_inv s" "votes_inv E s" using assms(1) by (simp_all add: machine_inv_def bft_inv_def)
  obtain ids where ids: "hm_get (bft_votes s) (Prevote, x) = Some ids"
    and power: "2 * hm_total (bft_validators s) < 3 * (\<Sum>v \<in> set ids. hm_get0 (bft_validators s) v)"
    using has_quorum_power [OF assms(2) inv] .
  have "power_quorum vs (set ids)"
    using assms(1) ids power inv(2) by (intro power_quorumI [of s]) (auto simp: machine_inv_def votes_inv_def)
  moreover have "(u, bft_height s, bft_round s, Prevote, x) \<in> S" if "u \<in> set ids" "u \<in> H" for u
    using that ids assms(1) unfolding machine_inv_def votes_auth_def by blast
  ultimately show ?thesis unfolding polka_def backed_def by blast
qed

subsection \<open>Operations\<close>

text \<open>States that agree in the fields the invariant of the signed votes reads.\<close>

definition same_machine :: "bft \<Rightarrow> bft \<Rightarrow> bool" where
  "same_machine s t \<longleftrightarrow> bft_validators t = bft_validators s \<and> bft_votes t = bft_votes s
     \<and> bft_height t = bft_height s \<and> bft_round t = bft_round s \<and> bft_locked_value t = bft_locked_value s
     \<and> bft_locked_round t = bft_locked_round s"

lemma same_machine_locked: "same_machine s t \<Longrightarrow> locked_value t = locked_value s"
  by (simp add: same_machine_def locked_value_def)

lemma machine_inv_same:
  assumes "machine_inv E vs H S v s" and "bft_inv E t" and same: "same_machine s t"
    and "bft_phase t = bft_phase s" and "bft_proposal t = bft_proposal s"
  shows "machine_inv E vs H S v t"
proof -
  note eq = same [unfolded same_machine_def] same_machine_locked [OF same] assms(4,5)
  have "votes_auth H S t = votes_auth H S s" "lock_auth vs H S t = lock_auth vs H S s"
    "own_past S v t = own_past S v s" "own_prevote S v t = own_prevote S v s"
    "own_precommit S v t = own_precommit S v s" "lock_round t = lock_round s"
    using eq by (simp_all only: votes_auth_def lock_auth_def own_defs lock_round_def)
  with assms(1,2) eq show ?thesis by (simp add: machine_inv_def)
qed

lemma start_round_machine:
  assumes "machine_inv E vs H S v s"
    and "h = bft_height s \<and> r = bft_round s \<longrightarrow> r = 0 \<and> bft_phase s = Finalized"
  shows "machine_inv E vs H S v (fst (start_round s h r))"
proof (cases "h < bft_height s \<or> (h = bft_height s \<and> r < bft_round s)")
  case False
  let ?s = "fst (start_round s h r)"
  have inv: "bft_inv E ?s" using assms(1) by (intro start_round_inv) (simp add: machine_inv_def)
  have f: "bft_height ?s = h" "bft_round ?s = r" "bft_phase ?s = Propose" "bft_votes ?s = []"
    "bft_validators ?s = bft_validators s"
    using False by (auto simp: start_round_def Let_def)
  have lock: "locked_value ?s = (if h > bft_height s then None else locked_value s)"
    using False by (cases "h > bft_height s") (simp_all add: start_round_def Let_def locked_value_def)
  note f = f lock
  have fin: "locked_value s = Some (x, bft_round s)" if "bft_phase s = Finalized" "bft_proposal s = Some x" for x
    using assms(1) that by (auto simp: machine_inv_def bft_inv_def phase_inv_def locked_value_def)
  have same: "h = bft_height s" if "\<not> h > bft_height s" using that False by auto
  from assms(1) have own: "own_past S v s" "own_prevote S v s" "own_precommit S v s" "lock_round s"
    "lock_auth vs H S s" by (simp_all add: machine_inv_def)
  have past: "k \<le> bft_height s \<and> (k = bft_height s \<longrightarrow> q \<le> bft_round s)" if "(v, k, q, t, x) \<in> S" for k q t x
    using own(1) that unfolding own_past_def by blast
  have cur: "h = bft_height s \<and> q \<le> bft_round s" if "(v, h, q, t, x) \<in> S" for q t x
    using past [OF that] False by auto
  have "own_past S v ?s"
    unfolding own_past_def f using past False by fastforce
  moreover have "own_prevote S v ?s"
    unfolding own_prevote_def f
  proof (intro allI impI)
    fix x assume *: "(v, h, r, Prevote, x) \<in> S"
    with cur [OF *] False have now: "h = bft_height s" "r = bft_round s" by auto
    with assms(2) have "bft_phase s = Finalized" by simp
    moreover have "bft_proposal s = Some x"
      using own(2) * now calculation unfolding own_prevote_def by auto
    ultimately show "if Propose = Propose then (if bft_height s < h then None else locked_value s) = Some (x, r)
      else bft_proposal ?s = Some x" using fin now by simp
  qed
  moreover have "own_precommit S v ?s"
    using own(3) cur unfolding own_precommit_def f by (metis less_irrefl)
  moreover have "lock_round ?s"
    unfolding lock_round_def f
  proof (intro allI impI)
    fix z lr assume "(if bft_height s < h then None else locked_value s) = Some (z, lr)"
    then have z: "locked_value s = Some (z, lr)" "h = bft_height s" using same by (auto split: if_splits)
    then have "lr \<le> bft_round s" using own(4) unfolding lock_round_def by blast
    moreover have "bft_round s < r \<or> r = 0" using assms(2) z(2) False by auto
    ultimately show "lr \<le> r \<and> (Propose = Propose \<longrightarrow> lr < r \<or> r = 0)
      \<and> (Propose = PrevotePhase \<and> lr = r \<longrightarrow> bft_proposal ?s = Some z)"
      using False z(2) by auto
  qed
  moreover have "lock_auth vs H S ?s"
    using own(5) same by (auto simp: lock_auth_def f)
  ultimately show ?thesis
    using inv assms(1) by (simp add: machine_inv_def votes_auth_def f)
qed (use assms in \<open>simp add: start_round_def\<close>)

text \<open>What an accepted proposal satisfies.\<close>

definition proposal_accepted :: "ext \<Rightarrow> bft \<Rightarrow> signed_proposal \<Rightarrow> bft \<Rightarrow> bool" where
  "proposal_accepted E s p t \<longleftrightarrow> bft_phase s = Propose \<and> bft_phase t = PrevotePhase
     \<and> bft_proposal t = Some (blk_hash (prop_block p)) \<and> prop_height p = bft_height s \<and> prop_round p = bft_round s
     \<and> blk_height (prop_block p) = bft_height s \<and> \<not> lock_blocks s p
     \<and> (\<forall>vr. prop_valid_round p = Some vr \<longrightarrow> verify_valid_round_certificate E s p vr = Ok ())"

lemma propose_result:
  assumes "propose s q x = (t, r)"
  shows "same_machine s t \<and> (if r = Ok () then bft_phase s = Propose \<and> bft_phase t = PrevotePhase \<and> bft_proposal t = Some x
    else bft_phase t = bft_phase s \<and> bft_proposal t = bft_proposal s)"
  using assms by (auto simp: propose_def same_machine_def split: if_splits)

lemma handle_proposal_result:
  assumes "handle_proposal E s p = (t, r)"
  shows "same_machine s t \<and> (if r = Ok () then proposal_accepted E s p t
    else bft_phase t = bft_phase s \<and> bft_proposal t = bft_proposal s)"
proof -
  let ?x = "blk_hash (prop_block p)"
  define cert where "cert = (case prop_valid_round p of
    Some valid_round \<Rightarrow> verify_valid_round_certificate E s p valid_round
    | None \<Rightarrow> if prop_valid_round_prevotes p \<noteq> [] then Err (EConsensus PrevotesWithoutRound) else Ok ())"
  define s1 where "s1 = (case prop_valid_round p of
    Some valid_round \<Rightarrow> s\<lparr>bft_valid_value := Some ?x, bft_valid_round := Some valid_round\<rparr> | None \<Rightarrow> s)"
  have s1: "same_machine s s1" "bft_phase s1 = bft_phase s" "bft_proposal s1 = bft_proposal s"
    by (simp_all add: s1_def same_machine_def split: option.splits)
  note step = assms [unfolded handle_proposal_def Let_def cert_def [symmetric] s1_def [symmetric]]
  show ?thesis
  proof (cases "prop_height p = bft_height s \<and> prop_round p = bft_round s
      \<and> hm_contains (bft_validators s) (prop_proposer_id p) \<and> proposal_verify E p = Ok () \<and> cert = Ok ()
      \<and> \<not> lock_blocks s p")
    case True
    then have call: "propose s1 (prop_proposer_id p) ?x = (t, r)" using step by simp
    have "blk_height (prop_block p) = bft_height s" using True by (simp add: proposal_verify_def split: if_splits)
    moreover have "\<forall>vr. prop_valid_round p = Some vr \<longrightarrow> verify_valid_round_certificate E s p vr = Ok ()"
      using True by (auto simp: cert_def)
    ultimately show ?thesis
      using propose_result [OF call] s1 True
      by (cases "r = Ok ()") (simp_all add: same_machine_def proposal_accepted_def)
  next
    case False
    then have "t = s \<and> r \<noteq> Ok ()" using step by (auto split: if_splits result.splits)
    then show ?thesis by (simp add: same_machine_def)
  qed
qed

lemma unlocked_polka:
  assumes "machine_inv E vs H S v s" and "proposal_accepted E s p t"
    and "locked_value s = Some (z, lr)" and "z \<noteq> blk_hash (prop_block p)"
    and "\<forall>m \<in> set (prop_valid_round_prevotes p). authentic E H S m"
  obtains vr where "lr \<le> vr" and "vr < bft_round s" and "polka vs H S (bft_height s) vr (blk_hash (prop_block p))"
proof -
  obtain vr where vr: "prop_valid_round p = Some vr" "lr \<le> vr"
    using assms(2,3,4)
    by (auto simp: proposal_accepted_def lock_blocks_def unlock_allowed_def locked_value_Some split: option.splits)
  with assms(2) have cert: "verify_valid_round_certificate E s p vr = Ok ()" by (simp add: proposal_accepted_def)
  then have "vr < bft_round s" using assms(2)
    by (simp add: verify_valid_round_certificate_def proposal_accepted_def)
  moreover have "polka vs H S (bft_height s) vr (blk_hash (prop_block p))"
    using cert assms(2) by (intro check_prevotes_polka [OF assms(1) _ assms(5)])
      (simp add: verify_valid_round_certificate_def proposal_accepted_def)
  ultimately show thesis using vr(2) that by blast
qed

text \<open>The state in which a validator may sign a prevote for \<open>x\<close> and what it owes for it.\<close>

definition may_prevote :: "validator list \<Rightarrow> string set \<Rightarrow> vote set \<Rightarrow> string \<Rightarrow> bft \<Rightarrow> string \<Rightarrow> bool" where
  "may_prevote vs H S v s x \<longleftrightarrow> bft_phase s = PrevotePhase \<and> bft_proposal s = Some x
     \<and> (\<forall>r y. (v, bft_height s, r, Precommit, y) \<in> S \<and> r < bft_round s \<and> y \<noteq> x \<longrightarrow>
          (\<exists>vr. r \<le> vr \<and> vr < bft_round s \<and> polka vs H S (bft_height s) vr x))"

lemma handle_proposal_machine:
  assumes inv: "machine_inv E vs H S v s" and auth: "\<forall>m \<in> set (prop_valid_round_prevotes p). authentic E H S m"
    and step: "handle_proposal E s p = (t, r)"
  shows "machine_inv E vs H S v t \<and> (r = Ok () \<longrightarrow> may_prevote vs H S v t (blk_hash (prop_block p)))"
proof (cases "r = Ok ()")
  case False
  have "bft_inv E t" using handle_proposal_inv [of E s p] inv step by (simp add: machine_inv_def)
  with inv have "machine_inv E vs H S v t"
    by (rule machine_inv_same) (use handle_proposal_result [OF step] False in simp_all)
  with False show ?thesis by simp
next
  case True
  let ?x = "blk_hash (prop_block p)"
  have same: "same_machine s t" and acc: "proposal_accepted E s p t"
    using handle_proposal_result [OF step] True by simp_all
  from inv have own: "own_past S v s" "own_prevote S v s" "own_precommit S v s" "lock_round s"
    "votes_auth H S s" "lock_auth vs H S s" by (simp_all add: machine_inv_def)
  have bft: "bft_inv E t" using handle_proposal_inv [of E s p] inv step by (simp add: machine_inv_def)
  have locked: "z = ?x" if l: "locked_value s = Some (z, bft_round s)" for z
  proof (rule ccontr)
    assume "z \<noteq> ?x"
    obtain vr where "bft_round s \<le> vr" "vr < bft_round s" "polka vs H S (bft_height s) vr ?x"
      using unlocked_polka [OF inv acc l \<open>z \<noteq> ?x\<close> auth] .
    then show False by simp
  qed
  have f: "bft_height t = bft_height s" "bft_round t = bft_round s" "bft_votes t = bft_votes s"
    "locked_value t = locked_value s" "bft_validators t = bft_validators s"
    using same same_machine_locked [OF same] by (simp_all add: same_machine_def)
  have ph: "bft_phase s = Propose" "bft_phase t = PrevotePhase" "bft_proposal t = Some ?x"
    using acc by (simp_all add: proposal_accepted_def)
  have "votes_auth H S t" "lock_auth vs H S t" "own_past S v t" "own_precommit S v t"
    using own by (simp_all add: votes_auth_def lock_auth_def own_past_def own_precommit_def f)
  moreover have "own_prevote S v t"
    using own(2) locked by (simp add: own_prevote_def f ph)
  moreover have "lock_round t"
    using own(4) locked by (auto simp: lock_round_def f ph)
  ultimately have "machine_inv E vs H S v t" using inv bft by (simp add: machine_inv_def f)
  moreover have "may_prevote vs H S v t ?x"
    unfolding may_prevote_def f
  proof (intro conjI allI impI)
    fix r y assume *: "(v, bft_height s, r, Precommit, y) \<in> S \<and> r < bft_round s \<and> y \<noteq> ?x"
    then obtain z lr where lock: "locked_value s = Some (z, lr)" "r \<le> lr" "lr = r \<longrightarrow> z = y"
      using own(3) unfolding own_precommit_def by blast
    show "\<exists>vr. r \<le> vr \<and> vr < bft_round s \<and> polka vs H S (bft_height s) vr ?x"
    proof (cases "z = ?x")
      case True
      have "lr < bft_round s" using own(4) lock(1) * ph(1) unfolding lock_round_def by fastforce
      moreover have "polka vs H S (bft_height s) lr ?x" using own(6) lock(1) True unfolding lock_auth_def by blast
      ultimately show ?thesis using lock(2) by blast
    next
      case False
      obtain vr where "lr \<le> vr" "vr < bft_round s" "polka vs H S (bft_height s) vr ?x"
        using unlocked_polka [OF inv acc lock(1) False auth] .
      with lock(2) show ?thesis by (meson order_trans)
    qed
  qed (use ph in simp_all)
  ultimately show ?thesis by simp
qed

lemma record_vote_machine:
  assumes "machine_inv E vs H S v s" and "bft_inv E (record_vote s m)"
  shows "machine_inv E vs H S v (record_vote s m)"
  using assms by (rule machine_inv_same) (simp_all add: record_vote_def same_machine_def)

lemma record_evidence_machine:
  assumes "machine_inv E vs H S v s"
  shows "machine_inv E vs H S v (record_evidence E s m)"
proof -
  have "bft_inv E (record_evidence E s m)" using assms by (intro record_evidence_inv) (simp add: machine_inv_def)
  with assms show ?thesis
    by (rule machine_inv_same) (auto simp: record_evidence_def same_machine_def split: option.splits result.splits)
qed

lemma count_vote_machine:
  assumes "machine_inv E vs H S v s"
    and good: "good_vote E (bft_height s) (bft_round s) (msg_vote_type m) (msg_block_hash m) m"
    and reg: "msg_validator_id m \<in> fst ` set (bft_validators s)" and auth: "authentic E H S m"
  shows "machine_inv E vs H S v (count_vote s m)"
proof -
  let ?t = "count_vote s m"
  have inv: "bft_inv E ?t" using assms(1) good reg by (intro count_vote_inv) (simp_all add: machine_inv_def)
  have f: "bft_validators ?t = bft_validators s" "bft_height ?t = bft_height s" "bft_round ?t = bft_round s"
    "bft_phase ?t = bft_phase s" "bft_proposal ?t = bft_proposal s" "locked_value ?t = locked_value s"
    by (simp_all add: count_vote_def Let_def locked_value_def)
  from assms(1) have old: "votes_auth H S s" "lock_auth vs H S s" "own_past S v s" "own_prevote S v s"
    "own_precommit S v s" "lock_round s" by (simp_all add: machine_inv_def)
  have "votes_auth H S ?t"
    unfolding votes_auth_def f
  proof (intro allI impI)
    fix t x ids u assume *: "hm_get (bft_votes ?t) (t, x) = Some ids \<and> u \<in> set ids \<and> u \<in> H"
    show "(u, bft_height s, bft_round s, t, x) \<in> S"
    proof (cases "(t, x) = (msg_vote_type m, msg_block_hash m) \<and> u = msg_validator_id m")
      case True
      with auth good * show ?thesis by (simp add: authentic_def good_vote_def vote_of_def)
    next
      case False
      with * have "\<exists>ids'. hm_get (bft_votes s) (t, x) = Some ids' \<and> u \<in> set ids'"
        by (auto simp: count_vote_def Let_def split: option.splits if_splits)
      with old(1) * show ?thesis unfolding votes_auth_def by blast
    qed
  qed
  moreover have "lock_auth vs H S ?t" "own_past S v ?t" "own_prevote S v ?t" "own_precommit S v ?t" "lock_round ?t"
    using old by (simp_all only: lock_auth_def own_defs lock_round_def f)
  ultimately show ?thesis using assms(1) inv by (simp add: machine_inv_def f)
qed

lemma advance_phase_machine:
  assumes inv: "machine_inv E vs H S v s" and acc: "phase_accepts (bft_phase s) (msg_vote_type m)"
    and cand: "bft_proposal s = Some (msg_block_hash m)"
  shows "machine_inv E vs H S v (advance_phase s m)"
proof -
  let ?t = "advance_phase s m" and ?x = "msg_block_hash m"
  have bft: "bft_inv E ?t" using inv acc cand by (intro advance_phase_inv) (simp_all add: machine_inv_def)
  from inv have own: "own_past S v s" "own_prevote S v s" "own_precommit S v s" "lock_round s"
    "votes_auth H S s" "lock_auth vs H S s" by (simp_all add: machine_inv_def)
  have f: "bft_validators ?t = bft_validators s" "bft_height ?t = bft_height s" "bft_round ?t = bft_round s"
    "bft_proposal ?t = bft_proposal s" "bft_votes ?t = bft_votes s"
    by (auto simp: advance_phase_def split: vote_type.splits)
  have np: "bft_phase s \<noteq> Propose" "bft_phase ?t \<noteq> Propose"
    using acc by (auto simp: phase_accepts_def advance_phase_def split: vote_type.splits consensus_phase.splits)
  have basic: "votes_auth H S ?t" "own_past S v ?t" "own_prevote S v ?t"
    using own np by (simp_all add: votes_auth_def own_past_def own_prevote_def f)
  consider (lock) "locked_value ?t = Some (?x, bft_round s)" "has_quorum s (Prevote, ?x)" "bft_phase s = PrevotePhase"
      "bft_phase ?t = PrecommitPhase"
    | (keep) "locked_value ?t = locked_value s" "bft_phase ?t = PrevotePhase \<longrightarrow> bft_phase s = PrevotePhase"
  proof (cases "has_quorum s (Prevote, ?x) \<and> bft_phase s = PrevotePhase \<and> msg_vote_type m = Prevote")
    case True
    then have "?t = s\<lparr>bft_valid_value := Some ?x, bft_valid_round := Some (bft_round s),
      bft_locked_value := Some ?x, bft_locked_round := Some (bft_round s), bft_phase := PrecommitPhase\<rparr>"
      by (simp add: advance_phase_def)
    with True lock show thesis by (simp add: locked_value_def)
  next
    case False
    then have "bft_locked_value ?t = bft_locked_value s \<and> bft_locked_round ?t = bft_locked_round s
      \<and> (bft_phase ?t = PrevotePhase \<longrightarrow> bft_phase s = PrevotePhase)"
      by (cases "msg_vote_type m") (auto simp: advance_phase_def)
    with keep show thesis by (simp add: locked_value_def)
  qed
  then show ?thesis
  proof cases
    case lock
    have "lock_auth vs H S ?t"
      using has_quorum_polka [OF inv lock(2)] by (simp add: lock_auth_def lock(1) f)
    moreover have "own_precommit S v ?t"
      unfolding own_precommit_def f lock(1)
    proof (intro allI impI)
      fix r y assume "(v, bft_height s, r, Precommit, y) \<in> S"
      then obtain z lr where z: "locked_value s = Some (z, lr)" "r \<le> lr" "lr = r \<longrightarrow> z = y"
        using own(3) unfolding own_precommit_def by blast
      then have "lr \<le> bft_round s" and "lr = bft_round s \<longrightarrow> z = ?x"
        using own(4) lock(3) cand unfolding lock_round_def by fastforce+
      with z show "\<exists>z lr. Some (?x, bft_round s) = Some (z, lr) \<and> r \<le> lr \<and> (lr = r \<longrightarrow> z = y)" by fastforce
    qed
    moreover have "lock_round ?t" by (simp add: lock_round_def lock f)
    ultimately show ?thesis using inv bft basic by (simp add: machine_inv_def f)
  next
    case keep
    have "lock_round ?t" using own(4) np keep(2) by (auto simp: lock_round_def keep(1) f)
    moreover have "lock_auth vs H S ?t" "own_precommit S v ?t"
      using own by (simp_all only: lock_auth_def own_precommit_def keep(1) f)
    ultimately show ?thesis using inv bft basic by (simp add: machine_inv_def f)
  qed
qed

lemma handle_machine:
  assumes inv: "machine_inv E vs H S v s" and auth: "authentic E H S m"
  shows "machine_inv E vs H S v (fst (handle E s m))"
proof (cases "msg_height m = bft_height s \<and> msg_round m = bft_round s
    \<and> hm_contains (bft_validators s) (msg_validator_id m) \<and> message_verify E m = Ok ()
    \<and> phase_accepts (bft_phase s) (msg_vote_type m)")
  case True
  then have reg: "msg_validator_id m \<in> fst ` set (bft_validators s)"
    and good: "good_vote E (bft_height s) (bft_round s) (msg_vote_type m) (msg_block_hash m) m"
    by (simp_all add: hm_contains_def good_vote_def hm_get_dom [symmetric])
  have accept: "machine_inv E vs H S v (advance_phase (count_vote s1 m) m)"
    if "machine_inv E vs H S v s1" "bft_height s1 = bft_height s" "bft_round s1 = bft_round s"
      "bft_phase s1 = bft_phase s" "bft_validators s1 = bft_validators s"
      "bft_proposal s1 = Some (msg_block_hash m)" for s1
  proof (rule advance_phase_machine)
    show "machine_inv E vs H S v (count_vote s1 m)"
      using that(1) by (rule count_vote_machine) (use that reg good auth in simp_all)
  qed (use True that in \<open>simp_all add: count_vote_def Let_def\<close>)
  have "bft_inv E (record_vote s m)"
    using True reg inv by (intro record_vote_inv) (simp_all add: machine_inv_def)
  with inv have rec: "machine_inv E vs H S v (record_vote s m)" by (rule record_vote_machine)
  show ?thesis
  proof (cases "hm_get (bft_vote_history s) (history_key m)")
    case None
    with True rec accept [of "record_vote s m"] show ?thesis by (simp add: handle_def Let_def record_vote_def)
  next
    case (Some x)
    with True inv record_evidence_machine [OF inv] accept [of s] show ?thesis by (simp add: handle_def)
  qed
qed (use inv in \<open>auto simp: handle_def split: result.splits\<close>)

lemma handle_fields:
  assumes "handle E s m = (t, r)"
  shows "bft_height t = bft_height s" and "bft_round t = bft_round s" and "bft_proposal t = bft_proposal s"
    and "bft_validators t = bft_validators s"
    and "bft_phase t = PrevotePhase \<longrightarrow> bft_phase s = PrevotePhase"
    and "bft_phase t = PrecommitPhase \<longrightarrow> bft_phase s = PrevotePhase \<or> bft_phase s = PrecommitPhase"
    and "bft_phase t = Propose \<longleftrightarrow> bft_phase s = Propose"
    and "bft_phase s = Finalized \<longrightarrow> bft_phase t = Finalized"
proof -
  have rec: "same_machine s (record_vote s m)" "same_machine s (record_evidence E s m)"
    "bft_phase (record_vote s m) = bft_phase s" "bft_phase (record_evidence E s m) = bft_phase s"
    "bft_proposal (record_vote s m) = bft_proposal s" "bft_proposal (record_evidence E s m) = bft_proposal s"
    by (auto simp: record_vote_def record_evidence_def same_machine_def split: option.splits result.splits)
  define ok where "ok u \<longleftrightarrow> bft_height u = bft_height s \<and> bft_round u = bft_round s \<and> bft_proposal u = bft_proposal s
    \<and> bft_validators u = bft_validators s \<and> (bft_phase u = PrevotePhase \<longrightarrow> bft_phase s = PrevotePhase)
    \<and> (bft_phase u = PrecommitPhase \<longrightarrow> bft_phase s = PrevotePhase \<or> bft_phase s = PrecommitPhase)
    \<and> (bft_phase u = Propose \<longleftrightarrow> bft_phase s = Propose) \<and> (bft_phase s = Finalized \<longrightarrow> bft_phase u = Finalized)" for u :: bft
  have same: "ok u" if "same_machine s u" "bft_phase u = bft_phase s" "bft_proposal u = bft_proposal s" for u
    using that by (simp add: ok_def same_machine_def)
  have adv: "ok (advance_phase (count_vote u m) m)"
    if "ok u" "bft_phase u = bft_phase s" "phase_accepts (bft_phase s) (msg_vote_type m)" for u
    using that by (cases "msg_vote_type m"; cases "bft_phase s")
      (auto simp: ok_def advance_phase_def count_vote_def Let_def phase_accepts_def)
  have "ok t"
    using assms same [OF rec(1,3,5)] same [OF rec(2,4,6)] same [of s] adv [of s] adv [of "record_vote s m"] rec
    by (auto simp: handle_def Let_def same_machine_def split: if_splits result.splits option.splits)
  then show "bft_height t = bft_height s" and "bft_round t = bft_round s" and "bft_proposal t = bft_proposal s"
    and "bft_validators t = bft_validators s"
    and "bft_phase t = PrevotePhase \<longrightarrow> bft_phase s = PrevotePhase"
    and "bft_phase t = PrecommitPhase \<longrightarrow> bft_phase s = PrevotePhase \<or> bft_phase s = PrecommitPhase"
    and "bft_phase t = Propose \<longleftrightarrow> bft_phase s = Propose"
    and "bft_phase s = Finalized \<longrightarrow> bft_phase t = Finalized"
    by (simp_all add: ok_def)
qed

lemma foldl_record_vote_same: "same_machine s (foldl record_vote s ms) \<and> bft_phase (foldl record_vote s ms) = bft_phase s
    \<and> bft_proposal (foldl record_vote s ms) = bft_proposal s"
  by (induction ms arbitrary: s) (simp_all add: record_vote_def same_machine_def)

lemma adopt_same:
  assumes "adopt_valid_value E s x r prevotes = (t, res)"
  shows "same_machine s t" and "bft_phase t = bft_phase s" and "bft_proposal t = bft_proposal s"
proof -
  let ?s = "s\<lparr>bft_valid_value := Some x, bft_valid_round := Some r\<rparr>"
  have "t = s \<or> t = foldl record_vote ?s prevotes"
    using assms by (auto simp: adopt_valid_value_def split: result.splits if_splits)
  moreover have "same_machine s ?s" by (simp add: same_machine_def)
  ultimately show "same_machine s t" and "bft_phase t = bft_phase s" and "bft_proposal t = bft_proposal s"
    using foldl_record_vote_same [of ?s prevotes] by (auto simp: same_machine_def)
qed

lemma adopt_machine:
  assumes "machine_inv E vs H S v s" and step: "adopt_valid_value E s x r prevotes = (t, res)"
  shows "machine_inv E vs H S v t"
proof -
  have "bft_inv E t" using adopt_valid_value_inv [of E s x r prevotes] assms by (simp add: machine_inv_def)
  with assms(1) show ?thesis by (rule machine_inv_same) (rule adopt_same [OF step])+
qed

lemma take_evidence_machine:
  assumes "machine_inv E vs H S v s"
  shows "machine_inv E vs H S v (fst (take_evidence s))"
proof -
  have "bft_inv E (fst (take_evidence s))" using assms by (intro take_evidence_inv) (simp add: machine_inv_def)
  with assms show ?thesis by (rule machine_inv_same) (simp_all add: take_evidence_def same_machine_def)
qed

lemma on_timeout_result:
  assumes "on_timeout s = (t, r)"
  shows "t = s \<and> r \<noteq> Ok 0 \<and> (\<forall>q. r \<noteq> Ok q) \<or> t = fst (start_round s (bft_height s) (bft_round s + 1))"
  using assms by (auto simp: on_timeout_def split: option.splits prod.splits result.splits)

lemma on_timeout_machine:
  assumes "machine_inv E vs H S v s"
  shows "machine_inv E vs H S v (fst (on_timeout s))"
proof -
  obtain t r where step: "on_timeout s = (t, r)" by (cases "on_timeout s")
  have "machine_inv E vs H S v (fst (start_round s (bft_height s) (bft_round s + 1)))"
    using assms by (rule start_round_machine) simp
  with on_timeout_result [OF step] assms step show ?thesis by auto
qed

subsection \<open>Signing\<close>

lemma machine_inv_others:
  assumes "machine_inv E vs H S v s" and "S \<subseteq> S'" and "\<forall>h r t x. (v, h, r, t, x) \<in> S' \<longrightarrow> (v, h, r, t, x) \<in> S"
  shows "machine_inv E vs H S' v s"
proof -
  from assms(1) have own: "own_past S v s" "own_prevote S v s" "own_precommit S v s"
    "votes_auth H S s" "lock_auth vs H S s" by (simp_all add: machine_inv_def)
  have "own_past S' v s" using own(1) assms(3) unfolding own_past_def by blast
  moreover have "own_prevote S' v s" using own(2) assms(3) unfolding own_prevote_def by blast
  moreover have "own_precommit S' v s" using own(3) assms(3) unfolding own_precommit_def by blast
  moreover have "votes_auth H S' s" using own(4) assms(2) unfolding votes_auth_def by blast
  moreover have "lock_auth vs H S' s" using own(5) polka_mono [OF _ assms(2)] unfolding lock_auth_def by blast
  ultimately show ?thesis using assms(1) by (simp add: machine_inv_def)
qed

lemma machine_inv_own:
  assumes "machine_inv E vs H S v s" and "S' = insert (v, bft_height s, bft_round s, t, x) S"
    and "bft_phase s \<noteq> Propose" and "bft_proposal s = Some x"
    and "t = Precommit \<longrightarrow> locked_value s = Some (x, bft_round s)"
  shows "machine_inv E vs H S' v s"
proof -
  from assms(1) have own: "own_past S v s" "own_prevote S v s" "own_precommit S v s"
    "votes_auth H S s" "lock_auth vs H S s" by (simp_all add: machine_inv_def)
  have sub: "S \<subseteq> S'" using assms(2) by blast
  have "own_past S' v s" using own(1) unfolding own_past_def assms(2) by auto
  moreover have "own_prevote S' v s" using own(2) assms(3,4) unfolding own_prevote_def assms(2) by auto
  moreover have "own_precommit S' v s" using own(3) assms(5) unfolding own_precommit_def assms(2) by auto
  moreover have "votes_auth H S' s" using own(4) sub unfolding votes_auth_def by blast
  moreover have "lock_auth vs H S' s" using own(5) polka_mono [OF _ sub] unfolding lock_auth_def by blast
  ultimately show ?thesis using assms(1) by (simp add: machine_inv_def)
qed

text \<open>What the votes signed by the correct validators satisfy together, at every height.\<close>

definition signed_ok :: "validator list \<Rightarrow> string set \<Rightarrow> vote set \<Rightarrow> bool" where
  "signed_ok vs H S \<longleftrightarrow> (\<forall>v \<in> H. \<forall>h.
     (\<forall>r x y. (v, h, r, Prevote, x) \<in> S \<and> (v, h, r, Prevote, y) \<in> S \<longrightarrow> x = y)
     \<and> (\<forall>r x. (v, h, r, Precommit, x) \<in> S \<longrightarrow> polka vs H S h r x)
     \<and> (\<forall>r x r' y. (v, h, r, Precommit, x) \<in> S \<and> (v, h, r', Prevote, y) \<in> S \<and> r < r' \<and> x \<noteq> y \<longrightarrow>
          (\<exists>vr. r \<le> vr \<and> vr < r' \<and> polka vs H S h vr y)))"

lemma signed_okD:
  assumes "signed_ok vs H S" and "v \<in> H"
  shows "(v, h, r, Prevote, x) \<in> S \<Longrightarrow> (v, h, r, Prevote, y) \<in> S \<Longrightarrow> x = y"
    and "(v, h, r, Precommit, x) \<in> S \<Longrightarrow> polka vs H S h r x"
    and "(v, h, r, Precommit, x) \<in> S \<Longrightarrow> (v, h, r', Prevote, y) \<in> S \<Longrightarrow> r < r' \<Longrightarrow> x \<noteq> y \<Longrightarrow>
      \<exists>vr. r \<le> vr \<and> vr < r' \<and> polka vs H S h vr y"
  using assms unfolding signed_ok_def by blast+

lemma sign_prevote:
  assumes ok: "signed_ok vs H S" and inv: "machine_inv E vs H S v s" and may: "may_prevote vs H S v s x"
    and S': "S' = insert (v, bft_height s, bft_round s, Prevote, x) S"
  shows "signed_ok vs H S' \<and> machine_inv E vs H S' v s"
proof -
  have sub: "S \<subseteq> S'" using S' by blast
  have once: "y = x" if "(v, bft_height s, bft_round s, Prevote, y) \<in> S" for y
    using inv that may by (auto simp: machine_inv_def own_prevote_def may_prevote_def)
  have rel: "\<exists>vr. r \<le> vr \<and> vr < bft_round s \<and> polka vs H S' (bft_height s) vr x"
    if "(v, bft_height s, r, Precommit, y) \<in> S" "r < bft_round s" "y \<noteq> x" for r y
    using may that polka_mono [OF _ sub] unfolding may_prevote_def by blast
  have "signed_ok vs H S'"
    unfolding signed_ok_def
  proof (intro ballI allI conjI impI)
    fix u h r y z assume "u \<in> H" "(u, h, r, Prevote, y) \<in> S' \<and> (u, h, r, Prevote, z) \<in> S'"
    then show "y = z" using signed_okD(1) [OF ok] once S' by auto
  next
    fix u h r y assume "u \<in> H" "(u, h, r, Precommit, y) \<in> S'"
    then show "polka vs H S' h r y" using signed_okD(2) [OF ok] polka_mono [OF _ sub] S' by auto
  next
    fix u h r y r' z
    assume "u \<in> H" and *: "(u, h, r, Precommit, y) \<in> S' \<and> (u, h, r', Prevote, z) \<in> S' \<and> r < r' \<and> y \<noteq> z"
    then have pre: "(u, h, r, Precommit, y) \<in> S" using S' by auto
    show "\<exists>vr. r \<le> vr \<and> vr < r' \<and> polka vs H S' h vr z"
    proof (cases "(u, h, r', Prevote, z) \<in> S")
      case True
      with signed_okD(3) [OF ok \<open>u \<in> H\<close> pre] * polka_mono [OF _ sub] show ?thesis by blast
    next
      case False
      then have "u = v" "h = bft_height s" "r' = bft_round s" "z = x" using * S' by auto
      with rel pre * show ?thesis by blast
    qed
  qed
  moreover have "machine_inv E vs H S' v s"
    using inv S' by (rule machine_inv_own) (use may in \<open>simp_all add: may_prevote_def\<close>)
  ultimately show ?thesis ..
qed

lemma sign_precommit:
  assumes ok: "signed_ok vs H S" and inv: "machine_inv E vs H S v s"
    and phase: "bft_phase s = PrecommitPhase" and cand: "bft_proposal s = Some x"
    and S': "S' = insert (v, bft_height s, bft_round s, Precommit, x) S"
  shows "signed_ok vs H S' \<and> machine_inv E vs H S' v s"
proof -
  have sub: "S \<subseteq> S'" using S' by blast
  have lock: "locked_value s = Some (x, bft_round s)"
    using inv phase cand by (simp add: machine_inv_def bft_inv_def phase_inv_def locked_value_Some)
  then have pol: "polka vs H S (bft_height s) (bft_round s) x"
    using inv unfolding machine_inv_def lock_auth_def by blast
  have past: "r \<le> bft_round s" if "(v, bft_height s, r, t, y) \<in> S" for r t y
    using inv that unfolding machine_inv_def own_past_def by blast
  have "signed_ok vs H S'"
    unfolding signed_ok_def
  proof (intro ballI allI conjI impI)
    fix u h r y z assume "u \<in> H" "(u, h, r, Prevote, y) \<in> S' \<and> (u, h, r, Prevote, z) \<in> S'"
    then show "y = z" using signed_okD(1) [OF ok] S' by auto
  next
    fix u h r y assume "u \<in> H" "(u, h, r, Precommit, y) \<in> S'"
    then have "polka vs H S h r y" using signed_okD(2) [OF ok] pol S' by auto
    then show "polka vs H S' h r y" using sub by (rule polka_mono)
  next
    fix u h r y r' z
    assume "u \<in> H" and *: "(u, h, r, Precommit, y) \<in> S' \<and> (u, h, r', Prevote, z) \<in> S' \<and> r < r' \<and> y \<noteq> z"
    then have pre: "(u, h, r', Prevote, z) \<in> S" using S' by auto
    have "(u, h, r, Precommit, y) \<in> S" using * S' past pre by fastforce
    with signed_okD(3) [OF ok \<open>u \<in> H\<close> this pre] * polka_mono [OF _ sub]
    show "\<exists>vr. r \<le> vr \<and> vr < r' \<and> polka vs H S' h vr z" by blast
  qed
  moreover have "machine_inv E vs H S' v s"
    using inv S' by (rule machine_inv_own) (use phase cand lock in simp_all)
  ultimately show ?thesis ..
qed

text \<open>The votes of the model are an instance of the interface, at every height.\<close>

interpretation lv: locked_voting "\<lambda>validators. val_id ` set validators"
  "\<lambda>validators. hm_get0 (validator_powers validators)" total_voting_power power_quorum
  "\<lambda>(vs, H, S). signed_ok vs H S" fst "\<lambda>(vs, H, S). H"
  "\<lambda>(vs, H, S) v r x. (v, h, r, Prevote, x) \<in> S" "\<lambda>(vs, H, S) v r x. (v, h, r, Precommit, x) \<in> S" for h :: nat
proof
  fix n :: "validator list \<times> string set \<times> vote set" and v r x y r'
  obtain vs H S where n: "n = (vs, H, S)" by (cases n)
  assume "case n of (vs, H, S) \<Rightarrow> signed_ok vs H S" and "v \<in> (case n of (vs, H, S) \<Rightarrow> H)"
  then have ok: "signed_ok vs H S" and v: "v \<in> H" by (simp_all add: n)
  show "x = y" if "(case n of (vs, H, S) \<Rightarrow> \<lambda>v r x. (v, h, r, Prevote, x) \<in> S) v r x"
    and "(case n of (vs, H, S) \<Rightarrow> \<lambda>v r x. (v, h, r, Prevote, x) \<in> S) v r y"
    using that signed_okD(1) [OF ok v] by (simp add: n)
  show "backed power_quorum (fst n) (case n of (vs, H, S) \<Rightarrow> H)
      (\<lambda>u. (case n of (vs, H, S) \<Rightarrow> \<lambda>v r x. (v, h, r, Prevote, x) \<in> S) u r x)"
    if "(case n of (vs, H, S) \<Rightarrow> \<lambda>v r x. (v, h, r, Precommit, x) \<in> S) v r x"
    using that signed_okD(2) [OF ok v] by (simp add: n polka_def)
  show "\<exists>vr. r \<le> vr \<and> vr < r' \<and> backed power_quorum (fst n) (case n of (vs, H, S) \<Rightarrow> H)
      (\<lambda>u. (case n of (vs, H, S) \<Rightarrow> \<lambda>v r x. (v, h, r, Prevote, x) \<in> S) u vr y)"
    if "(case n of (vs, H, S) \<Rightarrow> \<lambda>v r x. (v, h, r, Precommit, x) \<in> S) v r x"
      and "(case n of (vs, H, S) \<Rightarrow> \<lambda>v r x. (v, h, r, Prevote, x) \<in> S) v r' y" and "r < r'" and "x \<noteq> y"
    using that signed_okD(3) [OF ok v] by (simp add: n polka_def)
qed

text \<open>Two certificates for one height whose correct signers are on record certify one block.\<close>

lemma certificates_agree:
  assumes ok: "signed_ok vs H S" and few: "3 * signed_power vs (val_id ` set vs - H) \<le> total_voting_power vs"
    and total: "3 * total_voting_power vs < 2 ^ 128"
    and c: "certificate_verify E c vs = Ok ()" "\<forall>m \<in> set (cert_precommits c). authentic E H S m"
    and d: "certificate_verify E d vs = Ok ()" "\<forall>m \<in> set (cert_precommits d). authentic E H S m"
    and "blk_height (cert_block c) = blk_height (cert_block d)"
  shows "blk_hash (cert_block c) = blk_hash (cert_block d)"
proof -
  have dec: "backed power_quorum vs H (\<lambda>u. (u, blk_height (cert_block k), cert_round k, Precommit, blk_hash (cert_block k)) \<in> S)"
    if "certificate_verify E k vs = Ok ()" "\<forall>m \<in> set (cert_precommits k). authentic E H S m" for k
  proof -
    have good: "\<forall>m \<in> set (cert_precommits k). cert_good_vote E k m" and q: "power_quorum vs (signers (cert_precommits k))"
      using that(1) unfolding certificate_verify_iff [OF total] by blast+
    have "(u, blk_height (cert_block k), cert_round k, Precommit, blk_hash (cert_block k)) \<in> S"
      if "u \<in> signers (cert_precommits k)" "u \<in> H" for u
      using that good \<open>\<forall>m \<in> set (cert_precommits k). authentic E H S m\<close>
      by (auto simp: signers_def authentic_def good_vote_def vote_of_def)
    with q show ?thesis unfolding backed_def by blast
  qed
  show ?thesis
    using lv.agreement [of "(vs, H, S)" "blk_height (cert_block c)" "cert_round c" "blk_hash (cert_block c)"
        "cert_round d" "blk_hash (cert_block d)"] ok few dec [OF c] dec [OF d] assms(8)
    by (simp add: signed_power_def)
qed

end
