(* ===== verification/NodeInvariant.thy ===== *)
theory NodeInvariant
  imports Runtime LockSafety
begin

text \<open>
  The invariant of one node that runs the consensus runtime.  It joins what \<open>LockSafety\<close> shows of
  the state machine with the fields of the runtime: the candidate block is the one voted on, the
  chain grows by certified blocks only, and every vote that is kept or counted is authentic.
  Every operation of the runtime keeps it, and the votes an operation signs keep the rules that
  agreement needs.
\<close>

subsection \<open>The invariant of a node\<close>

definition candidate_ok :: "bft \<Rightarrow> block option \<Rightarrow> bool" where
  "candidate_ok s pending \<longleftrightarrow> (bft_phase s = PrevotePhase \<or> bft_phase s = PrecommitPhase \<longrightarrow>
     (\<exists>b. pending = Some b \<and> bft_proposal s = Some (blk_hash b) \<and> blk_height b = bft_height s))"

text \<open>Consecutive heights that stay below the largest 64-bit number.\<close>

definition heights_linked :: "block list \<Rightarrow> bool" where
  "heights_linked bs \<longleftrightarrow> bs \<noteq> [] \<and> (\<forall>i < length bs. blk_height (bs ! i) = blk_height (hd bs) + i)"

definition roomy :: "block list \<Rightarrow> bool" where
  "roomy bs \<longleftrightarrow> blk_height (hd bs) + length bs < 2 ^ 64"

definition certified :: "finality_certificate list \<Rightarrow> block list \<Rightarrow> bool" where
  "certified cs bs \<longleftrightarrow> (\<forall>b \<in> set bs. \<exists>c \<in> set cs. cert_block c = b)"

text \<open>
  The chain of a node continues the chain it started from, or a snapshot above it, with certified
  blocks only.
\<close>

definition chain_ok :: "block list \<Rightarrow> nat \<Rightarrow> block list \<Rightarrow> finality_certificate list \<Rightarrow> bool" where
  "chain_ok bs0 height bs cs \<longleftrightarrow> heights_linked bs0 \<and> heights_linked bs \<and> roomy bs \<and> height \<le> blk_height (hd bs) + length bs
     \<and> ((\<exists>new. bs = bs0 @ new \<and> certified cs new)
        \<or> (blk_height (hd bs0) + length bs0 \<le> blk_height (hd bs) \<and> certified cs (tl bs)))"

definition certs_ok :: "ext \<Rightarrow> validator list \<Rightarrow> string set \<Rightarrow> vote set \<Rightarrow> finality_certificate list \<Rightarrow> bool" where
  "certs_ok E vs H S cs \<longleftrightarrow> (\<forall>c \<in> set cs. certificate_verify E c vs = Ok ()
     \<and> (\<forall>m \<in> set (cert_precommits c). authentic E H S m))"

definition node_inv ::
  "ext \<Rightarrow> validator list \<Rightarrow> string set \<Rightarrow> blockchain \<Rightarrow> vote set \<Rightarrow> string \<Rightarrow> runtime \<Rightarrow> bool" where
  "node_inv E vs H c0 S v rt \<longleftrightarrow> machine_inv E vs H S v (rt_consensus rt)
     \<and> rt_validators rt = vs \<and> signer_address E (rt_validator rt) = v
     \<and> candidate_ok (rt_consensus rt) (rt_pending rt)
     \<and> chain_ok (ch_blocks c0) (bft_height (rt_consensus rt)) (ch_blocks (rt_chain rt)) (rt_finalized rt)
     \<and> list_all (authentic E H S) (rt_precommits rt) \<and> list_all (authentic E H S) (rt_deferred_votes rt)
     \<and> certs_ok E vs H S (rt_finalized rt)"

definition good :: "ext \<Rightarrow> validator list \<Rightarrow> string set \<Rightarrow> blockchain \<Rightarrow> vote set \<Rightarrow> string \<Rightarrow> runtime \<Rightarrow> bool" where
  "good E vs H c0 S v rt \<longleftrightarrow> signed_ok vs H S \<and> node_inv E vs H c0 S v rt"

text \<open>Fields the invariant does not read.\<close>

lemma reset_deadline_fields [simp]:
  "rt_consensus (reset_deadline clk rt) = rt_consensus rt" "rt_chain (reset_deadline clk rt) = rt_chain rt"
  "rt_validator (reset_deadline clk rt) = rt_validator rt" "rt_validators (reset_deadline clk rt) = rt_validators rt"
  "rt_pending (reset_deadline clk rt) = rt_pending rt" "rt_precommits (reset_deadline clk rt) = rt_precommits rt"
  "rt_deferred_votes (reset_deadline clk rt) = rt_deferred_votes rt"
  "rt_finalized (reset_deadline clk rt) = rt_finalized rt"
  by (simp_all add: reset_deadline_def)

lemma node_inv_frame [simp]:
  "node_inv E vs H c0 S v (rt\<lparr>rt_deadline := d\<rparr>) = node_inv E vs H c0 S v rt"
  "node_inv E vs H c0 S v (rt\<lparr>rt_valid_block := vb\<rparr>) = node_inv E vs H c0 S v rt"
  "node_inv E vs H c0 S v (rt\<lparr>rt_valid_round_prevotes := vp\<rparr>) = node_inv E vs H c0 S v rt"
  "node_inv E vs H c0 S v (rt\<lparr>rt_round_change_votes := rc\<rparr>) = node_inv E vs H c0 S v rt"
  "node_inv E vs H c0 S v (rt\<lparr>rt_pending_finalized := pf\<rparr>) = node_inv E vs H c0 S v rt"
  "node_inv E vs H c0 S v (reset_deadline clk rt) = node_inv E vs H c0 S v rt"
  by (simp_all add: node_inv_def)

lemma list_all_authentic_mono:
  "list_all (authentic E H S) ms \<Longrightarrow> S \<subseteq> S' \<Longrightarrow> list_all (authentic E H S') ms"
  by (auto simp: list_all_iff intro: authentic_mono)

lemma certs_ok_mono: "certs_ok E vs H S cs \<Longrightarrow> S \<subseteq> S' \<Longrightarrow> certs_ok E vs H S' cs"
  by (auto simp: certs_ok_def intro: authentic_mono)

lemma node_inv_machine:
  assumes "node_inv E vs H c0 S v rt" and "machine_inv E vs H S' v (rt_consensus rt)" and "S \<subseteq> S'"
  shows "node_inv E vs H c0 S' v rt"
  using assms by (simp add: node_inv_def list_all_authentic_mono [where S = S] certs_ok_mono [where S = S])

text \<open>Votes of others do not disturb a node.\<close>

lemma node_inv_others:
  assumes "node_inv E vs H c0 S v rt" and "S \<subseteq> S'" and "\<forall>h r t x. (v, h, r, t, x) \<in> S' \<longrightarrow> (v, h, r, t, x) \<in> S"
  shows "node_inv E vs H c0 S' v rt"
proof -
  have "machine_inv E vs H S' v (rt_consensus rt)"
    using assms(1) by (intro machine_inv_others [OF _ assms(2,3)]) (simp add: node_inv_def)
  with assms(1) show ?thesis using assms(2) by (rule node_inv_machine)
qed

lemma sign_vote_result:
  assumes "sign_vote E rt h r t x = Ok m"
  shows "vote_of m = (signer_address E (rt_validator rt), h, r, t, x)" and "message_verify E m = Ok ()"
  using assms by (auto simp: sign_vote_def message_from_signature_def Let_def vote_of_def)

text \<open>A change of the state machine that leaves height and candidate as they are.\<close>

lemma node_inv_consensus:
  assumes "node_inv E vs H c0 S v rt" and "machine_inv E vs H S v s"
    and "bft_height s = bft_height (rt_consensus rt)" and "candidate_ok s (rt_pending rt)"
  shows "node_inv E vs H c0 S v (rt\<lparr>rt_consensus := s\<rparr>)"
  using assms by (simp add: node_inv_def)

subsection \<open>Proposals\<close>

lemma receive_proposal_good:
  assumes good: "good E vs H c0 S v rt" and auth: "list_all (authentic E H S) (prop_valid_round_prevotes p)"
    and step: "receive_proposal E J clk rt p = (rt', r)"
  shows "case r of Ok m \<Rightarrow> fst (vote_of m) = v \<and> good E vs H c0 (insert (vote_of m) S) v rt'
    | Err _ \<Rightarrow> good E vs H c0 S v rt'"
proof -
  let ?s = "rt_consensus rt" and ?x = "blk_hash (prop_block p)"
  have inv: "node_inv E vs H c0 S v rt" and ok: "signed_ok vs H S" using good by (simp_all add: good_def)
  then have mach: "machine_inv E vs H S v ?s" by (simp add: node_inv_def)
  obtain s r1 where h: "handle_proposal E ?s p = (s, r1)" by (cases "handle_proposal E ?s p")
  have m: "machine_inv E vs H S v s" and may: "r1 = Ok () \<longrightarrow> may_prevote vs H S v s ?x"
    using handle_proposal_machine [OF mach _ h] auth by (simp_all add: list_all_iff)
  note res = handle_proposal_result [OF h]
  consider (stay) e where "rt' = rt" "r = Err e"
    | (refused) e where "rt' = rt\<lparr>rt_consensus := s\<rparr>" "r = Err e" "r1 \<noteq> Ok ()"
    | (accepted) "r1 = Ok ()" "rt' = reset_deadline clk (rt\<lparr>rt_consensus := s, rt_pending := Some (prop_block p)\<rparr>)"
        "r = sign_vote E rt' (prop_height p) (prop_round p) Prevote ?x"
    using step unfolding receive_proposal_def h by (auto simp: Let_def split: if_splits result.splits)
  then show ?thesis
  proof cases
    case stay
    with good show ?thesis by simp
  next
    case refused
    have "candidate_ok s (rt_pending rt)"
      using inv res refused(3) by (simp add: node_inv_def candidate_ok_def same_machine_def)
    moreover have "bft_height s = bft_height ?s" using res by (simp add: same_machine_def)
    ultimately have "node_inv E vs H c0 S v rt'" using node_inv_consensus [OF inv m] refused(1) by simp
    with ok refused show ?thesis by (simp add: good_def)
  next
    case accepted
    have acc: "proposal_accepted E ?s p s" and same: "same_machine ?s s" using res accepted(1) by simp_all
    have "candidate_ok s (Some (prop_block p))"
      using acc same by (simp add: candidate_ok_def proposal_accepted_def same_machine_def)
    then have inv': "node_inv E vs H c0 S v rt'"
      using inv m same accepted(2) by (simp add: node_inv_def same_machine_def)
    show ?thesis
    proof (cases r)
      case (Err e)
      with ok inv' show ?thesis by (simp add: good_def)
    next
      case (Ok msg)
      have cons: "rt_consensus rt' = s" by (simp add: accepted(2) reset_deadline_def)
      have "signer_address E (rt_validator rt') = v" using inv' by (simp add: node_inv_def)
      with accepted(3) Ok have vote: "vote_of msg = (v, prop_height p, prop_round p, Prevote, ?x)"
        using sign_vote_result(1) [of E rt' "prop_height p" "prop_round p" Prevote ?x msg] by simp
      have "prop_height p = bft_height s" "prop_round p = bft_round s"
        using acc same by (simp_all add: proposal_accepted_def same_machine_def)
      then have S': "insert (vote_of msg) S = insert (v, bft_height s, bft_round s, Prevote, ?x) S" by (simp add: vote)
      from sign_prevote [OF ok m _ S'] may accepted(1)
      have "signed_ok vs H (insert (vote_of msg) S)" "machine_inv E vs H (insert (vote_of msg) S) v s" by simp_all
      with inv' cons have "node_inv E vs H c0 (insert (vote_of msg) S) v rt'"
        by (intro node_inv_machine [OF inv']) auto
      with \<open>signed_ok vs H (insert (vote_of msg) S)\<close> Ok vote show ?thesis by (simp add: good_def)
    qed
  qed
qed

subsection \<open>Votes\<close>

lemma linked_tip:
  assumes "heights_linked bs" and "roomy bs"
  shows "wrapping_add 64 (blk_height (last bs)) 1 = blk_height (hd bs) + length bs"
    and "blk_height (last bs) + 1 = blk_height (hd bs) + length bs"
proof -
  have "blk_height (last bs) = blk_height (hd bs) + (length bs - 1)"
    using assms(1) by (simp add: heights_linked_def last_conv_nth)
  moreover have "0 < length bs" using assms(1) by (simp add: heights_linked_def)
  ultimately show tip: "blk_height (last bs) + 1 = blk_height (hd bs) + length bs" by linarith
  show "wrapping_add 64 (blk_height (last bs)) 1 = blk_height (hd bs) + length bs"
    using assms(2) tip unfolding wrapping_add_def roomy_def by simp
qed

lemma linked_append:
  assumes "heights_linked bs" and "blk_height b = blk_height (hd bs) + length bs"
  shows "heights_linked (bs @ [b])"
  using assms by (auto simp: heights_linked_def nth_append less_Suc_eq)

lemma certified_mono: "certified cs bs \<Longrightarrow> set cs \<subseteq> set cs' \<Longrightarrow> certified cs' bs"
  by (auto simp: certified_def)

lemma chain_ok_append:
  assumes ok: "chain_ok bs0 h bs cs" and b: "blk_height b = wrapping_add 64 (blk_height (last bs)) 1"
    and room: "roomy (bs @ [b])" and c: "cert_block c = b"
  shows "chain_ok bs0 h (bs @ [b]) (cs @ [c])"
proof -
  from ok have l: "heights_linked bs0" "heights_linked bs" "roomy bs" "h \<le> blk_height (hd bs) + length bs" by (simp_all add: chain_ok_def)
  have hd: "hd (bs @ [b]) = hd bs" "bs \<noteq> []" using l(2) by (simp_all add: heights_linked_def)
  have "heights_linked (bs @ [b])" using l(2) b linked_tip(1) [OF l(2,3)] by (intro linked_append) simp_all
  moreover have new: "certified (cs @ [c]) (bs' @ [b])" if "certified cs bs'" for bs'
    using that c by (auto simp: certified_def)
  have "(\<exists>new. bs @ [b] = bs0 @ new \<and> certified (cs @ [c]) new)
      \<or> (blk_height (hd bs0) + length bs0 \<le> blk_height (hd bs) \<and> certified (cs @ [c]) (tl (bs @ [b])))"
    using ok new hd(2) unfolding chain_ok_def by auto
  ultimately show ?thesis using l room hd by (simp add: chain_ok_def)
qed

lemma apply_block_blocks:
  assumes "apply_block E c b = Ok c'"
  shows "ch_blocks c' = ch_blocks c @ [b]" and "blk_height b = wrapping_add 64 (blk_height (last (ch_blocks c))) 1"
  using assms by (auto simp: apply_block_def Let_def split: if_splits prod.splits)

lemma finalize_pending_good:
  assumes good: "good E vs H c0 S v rt" and phase: "bft_phase (rt_consensus rt) = Finalized"
    and step: "finalize_pending E rt = (rt', r)" and room: "roomy (ch_blocks (rt_chain rt'))"
  shows "good E vs H c0 S v rt'" and "r = Ok None \<or> (\<exists>e. r = Err e)"
proof -
  have inv: "node_inv E vs H c0 S v rt" and ok: "signed_ok vs H S" using good by (simp_all add: good_def)
  have cand: "candidate_ok (rt_consensus rt) p" for p using phase by (simp add: candidate_ok_def)
  have none: "node_inv E vs H c0 S v (rt\<lparr>rt_pending := None\<rparr>)" using inv cand by (simp add: node_inv_def)
  show "r = Ok None \<or> (\<exists>e. r = Err e)"
    using step by (auto simp: finalize_pending_def Let_def split: option.splits if_splits result.splits)
  consider "rt' = rt" | "rt' = rt\<lparr>rt_pending := None\<rparr>"
    | (app) b c k where "certificate_verify E k (rt_validators rt) = Ok ()" "cert_block k = b"
        "cert_precommits k = rt_precommits rt" "apply_block E (rt_chain rt) b = Ok c"
        "rt' = rt\<lparr>rt_pending := None, rt_chain := c, rt_valid_block := None, rt_valid_round_prevotes := [],
           rt_finalized := rt_finalized rt @ [k], rt_pending_finalized := rt_pending_finalized rt @ [k]\<rparr>"
    using step by (fastforce simp: finalize_pending_def Let_def split: option.splits if_splits result.splits)
  then have "node_inv E vs H c0 S v rt'"
  proof cases
    case app
    note blocks = apply_block_blocks [OF app(4)]
    have "chain_ok (ch_blocks c0) (bft_height (rt_consensus rt)) (ch_blocks (rt_chain rt) @ [b]) (rt_finalized rt @ [k])"
      using inv room app blocks by (intro chain_ok_append) (simp_all add: node_inv_def)
    moreover have "certs_ok E vs H S (rt_finalized rt @ [k])"
      using inv app(1,3) by (auto simp: node_inv_def certs_ok_def list_all_iff)
    ultimately show ?thesis using inv cand blocks app(5) by (simp add: node_inv_def)
  qed (use inv none in simp_all)
  with ok show "good E vs H c0 S v rt'" by (simp add: good_def)
qed

lemma note_precommit_inv:
  "node_inv E vs H c0 S v rt \<Longrightarrow> authentic E H S m \<Longrightarrow> node_inv E vs H c0 S v (note_precommit rt m)"
  by (simp add: note_precommit_def node_inv_def)

lemma note_phase_inv [simp]: "node_inv E vs H c0 S v (note_phase clk ph rt) = node_inv E vs H c0 S v rt"
  by (simp add: note_phase_def Let_def split: option.splits)

lemma note_fields [simp]:
  "rt_consensus (note_phase clk ph rt) = rt_consensus rt" "rt_pending (note_phase clk ph rt) = rt_pending rt"
  "rt_consensus (note_precommit rt m) = rt_consensus rt" "rt_pending (note_precommit rt m) = rt_pending rt"
  "rt_validator (note_phase clk ph rt) = rt_validator rt" "rt_validator (note_precommit rt m) = rt_validator rt"
  by (simp_all add: note_phase_def note_precommit_def Let_def split: option.splits)

lemma receive_vote_good:
  assumes good: "good E vs H c0 S v rt" and auth: "authentic E H S m"
    and step: "receive_vote E clk rt m = (rt', r)" and room: "roomy (ch_blocks (rt_chain rt'))"
  shows "case r of Ok (Some pc) \<Rightarrow> fst (vote_of pc) = v \<and> good E vs H c0 (insert (vote_of pc) S) v rt'
    | _ \<Rightarrow> good E vs H c0 S v rt'"
proof -
  have inv: "node_inv E vs H c0 S v rt" and ok: "signed_ok vs H S" using good by (simp_all add: good_def)
  obtain s r1 where h: "handle E (rt_consensus rt) m = (s, r1)" by (cases "handle E (rt_consensus rt) m")
  have mach: "machine_inv E vs H S v s"
    using handle_machine [of E vs H S v "rt_consensus rt" m] inv auth h by (simp add: node_inv_def)
  note f = handle_fields [OF h]
  have cand: "candidate_ok s (rt_pending rt)"
    using inv f unfolding node_inv_def candidate_ok_def by metis
  have inv0: "node_inv E vs H c0 S v (rt\<lparr>rt_consensus := s\<rparr>)"
    using inv mach f(1) cand by (rule node_inv_consensus)
  define rt1 where "rt1 = note_phase clk (bft_phase (rt_consensus rt)) (note_precommit (rt\<lparr>rt_consensus := s\<rparr>) m)"
  have inv1: "node_inv E vs H c0 S v rt1" using note_precommit_inv [OF inv0 auth] by (simp add: rt1_def)
  have c1: "rt_consensus rt1 = s" "rt_pending rt1 = rt_pending rt" by (simp_all add: rt1_def)
  show ?thesis
  proof (cases r1)
    case (Err e)
    then have "rt' = rt\<lparr>rt_consensus := s\<rparr>" "r = Err e" using step h by (simp_all add: receive_vote_def)
    with inv0 ok show ?thesis by (simp add: good_def)
  next
    case (Ok u)
    note step' = step [unfolded receive_vote_def h Let_def, simplified Ok, simplified, folded rt1_def, unfolded c1]
    show ?thesis
    proof (cases "bft_phase s = PrecommitPhase")
      case True
      then obtain b where b: "rt_pending rt = Some b" "bft_proposal s = Some (blk_hash b)" "blk_height b = bft_height s"
        using cand by (auto simp: candidate_ok_def)
      have rt': "rt' = rt1" and r: "r = rbind (sign_vote E rt1 (blk_height b) (bft_round s) Precommit (blk_hash b)) (\<lambda>m. Ok (Some m))"
        using step' True b c1 by auto
      show ?thesis
      proof (cases "sign_vote E rt1 (blk_height b) (bft_round s) Precommit (blk_hash b)")
        case (Err e)
        with r rt' inv1 ok show ?thesis by (simp add: good_def)
      next
        case (Ok pc)
        have "signer_address E (rt_validator rt1) = v" using inv1 by (simp add: node_inv_def)
        with sign_vote_result(1) [OF Ok] have vote: "vote_of pc = (v, bft_height s, bft_round s, Precommit, blk_hash b)"
          by (simp add: b(3))
        have S': "insert (vote_of pc) S = insert (v, bft_height s, bft_round s, Precommit, blk_hash b) S" by (simp add: vote)
        from sign_precommit [OF ok mach True b(2) S']
        have "signed_ok vs H (insert (vote_of pc) S)" and m': "machine_inv E vs H (insert (vote_of pc) S) v s" by simp_all
        moreover have "node_inv E vs H c0 (insert (vote_of pc) S) v rt1"
          using inv1 by (rule node_inv_machine) (use m' c1 in auto)
        ultimately show ?thesis using r rt' Ok vote by (simp add: good_def)
      qed
    next
      case False
      have g1: "good E vs H c0 S v rt1" using inv1 ok by (simp add: good_def)
      show ?thesis
      proof (cases "bft_phase s = Finalized")
        case True
        then have fin: "finalize_pending E rt1 = (rt', r)" using step' by simp
        have "bft_phase (rt_consensus rt1) = Finalized" using True c1 by simp
        from finalize_pending_good [OF g1 this fin room] show ?thesis by (auto split: result.splits option.splits)
      next
        case False
        with \<open>bft_phase s \<noteq> PrecommitPhase\<close> have "rt' = rt1" "r = Ok None" using step' by simp_all
        with g1 show ?thesis by simp
      qed
    qed
  qed
qed

subsection \<open>Deferred votes\<close>

text \<open>
  The votes a replay signs, in order.  The runtime returns them only when the replay succeeds, but
  they count in its own state at once.
\<close>

definition signed_now :: "consensus_message option result \<Rightarrow> consensus_message list" where
  "signed_now r = (case r of Ok (Some m) \<Rightarrow> [m] | _ \<Rightarrow> [])"

fun replay_pass_signed :: "ext \<Rightarrow> clock \<Rightarrow> consensus_message list \<Rightarrow> runtime \<Rightarrow> consensus_message list" where
  "replay_pass_signed E clk [] rt = []"
| "replay_pass_signed E clk (vote # votes) rt =
     (case receive_vote E clk rt vote of
        (rt1, Ok (Some precommit)) \<Rightarrow>
          (case receive_vote E clk rt1 precommit of
             (rt2, Err e) \<Rightarrow> [precommit]
           | (rt2, Ok again) \<Rightarrow> precommit # signed_now (Ok again) @ replay_pass_signed E clk votes rt2)
      | (rt1, _) \<Rightarrow> replay_pass_signed E clk votes rt1)"

function replay_signed :: "ext \<Rightarrow> clock \<Rightarrow> runtime \<Rightarrow> consensus_message list \<Rightarrow> consensus_message list \<Rightarrow> consensus_message list" where
  "replay_signed E clk rt votes outbound = replay_pass_signed E clk votes rt @
     (case replay_pass E clk votes rt (outbound, [], False) of
        (rt', Err e) \<Rightarrow> []
      | (rt', Ok (outbound', remaining, progressed)) \<Rightarrow>
          if progressed then replay_signed E clk rt' remaining outbound' else [])"
  by pat_completeness auto
termination
  by (relation "measure (\<lambda>(E, clk, rt, votes, outbound). length votes)")
    (auto dest!: replay_pass_length [OF sym])

declare replay_signed.simps [simp del]

definition votes_by :: "string \<Rightarrow> consensus_message list \<Rightarrow> bool" where
  "votes_by v ms \<longleftrightarrow> (\<forall>m \<in> set ms. fst (vote_of m) = v)"

lemma roomy_prefix: "roomy (bs @ new) \<Longrightarrow> bs \<noteq> [] \<Longrightarrow> roomy bs"
  by (simp add: roomy_def)

lemma receive_vote_blocks: "\<exists>new. ch_blocks (rt_chain (fst (receive_vote E clk rt m))) = ch_blocks (rt_chain rt) @ new"
proof -
  have chain: "rt_chain (note_phase clk ph (note_precommit rt m)) = rt_chain rt" for rt ph
    by (simp add: note_phase_def note_precommit_def Let_def split: option.splits)
  have fin: "\<exists>new. ch_blocks (rt_chain (fst (finalize_pending E rt))) = ch_blocks (rt_chain rt) @ new" for rt
    using apply_block_blocks(1) [of E "rt_chain rt"]
    by (fastforce simp: finalize_pending_def Let_def split: option.splits if_splits result.splits)
  show ?thesis
    using fin [of "note_phase clk (bft_phase (rt_consensus rt))
      (note_precommit (rt\<lparr>rt_consensus := fst (handle E (rt_consensus rt) m)\<rparr>) m)"]
    by (auto simp: receive_vote_def Let_def chain split: prod.splits result.splits option.splits)
qed

lemma good_blocks: "good E vs H c0 S v rt \<Longrightarrow> ch_blocks (rt_chain rt) \<noteq> []"
  by (simp add: good_def node_inv_def chain_ok_def heights_linked_def)

lemma replay_pass_blocks:
  "\<exists>new. ch_blocks (rt_chain (fst (replay_pass E clk votes rt acc))) = ch_blocks (rt_chain rt) @ new"
proof (induction votes arbitrary: rt acc)
  case (Cons vote votes)
  obtain rt1 r1 where v1: "receive_vote E clk rt vote = (rt1, r1)" by (cases "receive_vote E clk rt vote")
  obtain o1 o2 o3 where acc: "acc = (o1, o2, o3)" by (cases acc)
  have n1: "\<exists>new. ch_blocks (rt_chain rt1) = ch_blocks (rt_chain rt) @ new"
    using receive_vote_blocks [of E clk rt vote] v1 by simp
  have n2: "\<exists>new. ch_blocks (rt_chain (fst (receive_vote E clk rt1 m))) = ch_blocks (rt_chain rt) @ new" for m
    using receive_vote_blocks [of E clk rt1 m] n1 by auto
  have rest: "\<exists>new. ch_blocks (rt_chain (fst (replay_pass E clk votes rt2 a))) = ch_blocks (rt_chain rt) @ new"
    if "\<exists>new. ch_blocks (rt_chain rt2) = ch_blocks (rt_chain rt) @ new" for rt2 a
    using Cons.IH [of rt2 a] that by auto
  show ?case
  proof (cases r1)
    case (Err e)
    then show ?thesis using rest [OF n1] by (simp add: v1 acc)
  next
    case (Ok res)
    show ?thesis
    proof (cases res)
      case None
      then show ?thesis using rest [OF n1] Ok by (simp add: v1 acc)
    next
      case (Some pc)
      obtain rt2 r2 where v2: "receive_vote E clk rt1 pc = (rt2, r2)" by (cases "receive_vote E clk rt1 pc")
      with n2 [of pc] have n: "\<exists>new. ch_blocks (rt_chain rt2) = ch_blocks (rt_chain rt) @ new" by simp
      then show ?thesis using rest [OF n] Ok Some v2 by (cases r2) (simp_all add: v1 acc)
    qed
  qed
qed simp

lemma replay_pass_good:
  assumes "good E vs H c0 S v rt" and "list_all (authentic E H S) votes" and "list_all (authentic E H S) remaining"
    and "replay_pass E clk votes rt (outbound, remaining, progressed) = (rt', r)"
    and "roomy (ch_blocks (rt_chain rt'))" and "S' = S \<union> vote_of ` set (replay_pass_signed E clk votes rt)"
  shows "good E vs H c0 S' v rt' \<and> votes_by v (replay_pass_signed E clk votes rt)
    \<and> (\<forall>a b c. r = Ok (a, b, c) \<longrightarrow> list_all (authentic E H S') b)"
  using assms
proof (induction votes arbitrary: S rt outbound remaining progressed)
  case (Cons vote votes)
  obtain rt1 r1 where v1: "receive_vote E clk rt vote = (rt1, r1)" by (cases "receive_vote E clk rt vote")
  have auth: "authentic E H S vote" "list_all (authentic E H S) votes" using Cons.prems(2) by simp_all
  show ?case
  proof (cases "\<exists>pc. r1 = Ok (Some pc)")
    case False
    then have signed: "replay_pass_signed E clk (vote # votes) rt = replay_pass_signed E clk votes rt1"
      by (auto simp: v1 split: result.splits option.splits)
    from False obtain rem pr where rest: "replay_pass E clk votes rt1 (outbound, rem, pr) = (rt', r)"
      and rem: "list_all (authentic E H S) rem"
      using Cons.prems(3,4) auth(1) by (auto simp: v1 split: result.splits option.splits if_splits)
    have "roomy (ch_blocks (rt_chain rt1))"
      using replay_pass_blocks [of E clk votes rt1 "(outbound, rem, pr)"] rest Cons.prems(5)
        receive_vote_blocks [of E clk rt vote] v1 good_blocks [OF Cons.prems(1)] by (auto intro: roomy_prefix)
    from receive_vote_good [OF Cons.prems(1) auth(1) v1 this] False
    have "good E vs H c0 S v rt1" by (auto split: result.splits option.splits)
    moreover have "S' = S \<union> vote_of ` set (replay_pass_signed E clk votes rt1)"
      using Cons.prems(6) unfolding signed .
    ultimately show ?thesis unfolding signed using Cons.IH [OF _ auth(2) rem rest Cons.prems(5)] by blast
  next
    case True
    then obtain pc where r1: "r1 = Ok (Some pc)" by blast
    obtain rt2 r2 where v2: "receive_vote E clk rt1 pc = (rt2, r2)" by (cases "receive_vote E clk rt1 pc")
    let ?S1 = "insert (vote_of pc) S" and ?out = "pc # signed_now r2"
    let ?S2 = "S \<union> vote_of ` set ?out"
    have grow: "\<exists>new. ch_blocks (rt_chain rt') = ch_blocks (rt_chain rt2) @ new"
      using Cons.prems(4) replay_pass_blocks [of E clk votes rt2 "(outbound @ [pc], remaining, True)"]
      by (cases r2) (auto simp: v1 v2 r1)
    moreover have b1: "\<exists>new. ch_blocks (rt_chain rt1) = ch_blocks (rt_chain rt) @ new"
      and b2: "\<exists>new. ch_blocks (rt_chain rt2) = ch_blocks (rt_chain rt1) @ new"
      using receive_vote_blocks [of E clk rt vote] receive_vote_blocks [of E clk rt1 pc] v1 v2 by simp_all
    ultimately have rooms: "roomy (ch_blocks (rt_chain rt1))" "roomy (ch_blocks (rt_chain rt2))"
      using Cons.prems(5) good_blocks [OF Cons.prems(1)] by (auto intro: roomy_prefix)
    have g1: "good E vs H c0 ?S1 v rt1" and pc: "fst (vote_of pc) = v"
      using receive_vote_good [OF Cons.prems(1) auth(1) v1 rooms(1)] by (simp_all add: r1)
    have "authentic E H ?S1 pc" by (simp add: authentic_def)
    from receive_vote_good [OF g1 this v2 rooms(2)] pc
    have g2: "good E vs H c0 ?S2 v rt2" and mine: "votes_by v ?out"
      by (auto simp: signed_now_def votes_by_def insert_commute split: result.splits option.splits)
    have sub: "S \<subseteq> ?S2" by blast
    show ?thesis
    proof (cases r2)
      case (Err e)
      then show ?thesis using Cons.prems(4,6) g2 mine by (auto simp: v1 v2 r1 signed_now_def)
    next
      case (Ok again)
      then have rest: "replay_pass E clk votes rt2 (outbound @ [pc], remaining, True) = (rt', r)"
        and signed: "replay_pass_signed E clk (vote # votes) rt = ?out @ replay_pass_signed E clk votes rt2"
        using Cons.prems(4) by (simp_all add: v1 v2 r1)
      have "S' = ?S2 \<union> vote_of ` set (replay_pass_signed E clk votes rt2)"
        using Cons.prems(6) unfolding signed by (simp add: Un_assoc image_Un)
      from Cons.IH [OF g2 list_all_authentic_mono [OF auth(2) sub] list_all_authentic_mono [OF Cons.prems(3) sub]
          rest Cons.prems(5) this] mine
      show ?thesis unfolding signed votes_by_def by auto
    qed
  qed
qed (auto simp: votes_by_def)

lemma replay_loop_unfold:
  assumes "replay_pass E clk votes rt (outbound, [], False) = (rt1, r1)"
  shows "replay_loop E clk rt votes outbound = (case r1 of Err e \<Rightarrow> (rt1, Err e)
    | Ok (a, b, c) \<Rightarrow> if c then replay_loop E clk rt1 b a else (rt1\<lparr>rt_deferred_votes := b\<rparr>, Ok a))"
  by (subst replay_loop.simps) (simp add: assms split: result.splits)

lemma replay_loop_blocks:
  "\<exists>new. ch_blocks (rt_chain (fst (replay_loop E clk rt votes outbound))) = ch_blocks (rt_chain rt) @ new"
proof (induction E clk rt votes outbound rule: replay_loop.induct)
  case (1 E clk rt votes outbound)
  obtain rt1 r1 where pass: "replay_pass E clk votes rt (outbound, [], False) = (rt1, r1)"
    by (cases "replay_pass E clk votes rt (outbound, [], False)")
  have n1: "\<exists>new. ch_blocks (rt_chain rt1) = ch_blocks (rt_chain rt) @ new"
    using replay_pass_blocks [of E clk votes rt "(outbound, [], False)"] pass by simp
  have n2: "\<exists>new. ch_blocks (rt_chain (fst (replay_loop E clk rt1 b a))) = ch_blocks (rt_chain rt) @ new"
    if "r1 = Ok (a, b, True)" for a b
    using 1 [OF pass [symmetric] that, of a "(b, True)" b True] n1 by auto
  show ?case
    using n1 n2 by (auto simp: replay_loop_unfold [OF pass] split: result.splits prod.splits)
qed

lemma replay_loop_good:
  assumes "good E vs H c0 S v rt" and "list_all (authentic E H S) votes"
    and "replay_loop E clk rt votes outbound = (rt', r)" and "roomy (ch_blocks (rt_chain rt'))"
  shows "good E vs H c0 (S \<union> vote_of ` set (replay_signed E clk rt votes outbound)) v rt'
    \<and> votes_by v (replay_signed E clk rt votes outbound)"
  using assms
proof (induction E clk rt votes outbound arbitrary: S rule: replay_loop.induct)
  case (1 E clk rt votes outbound)
  let ?p = "replay_pass_signed E clk votes rt"
  let ?S = "S \<union> vote_of ` set ?p"
  obtain rt1 r1 where pass: "replay_pass E clk votes rt (outbound, [], False) = (rt1, r1)"
    by (cases "replay_pass E clk votes rt (outbound, [], False)")
  have "\<exists>new. ch_blocks (rt_chain rt') = ch_blocks (rt_chain rt1) @ new"
    using "1.prems"(3) replay_loop_blocks [of E clk rt1]
    by (auto simp: replay_loop_unfold [OF pass] split: result.splits prod.splits if_splits) (metis fst_conv)
  moreover have "\<exists>new. ch_blocks (rt_chain rt1) = ch_blocks (rt_chain rt) @ new"
    using replay_pass_blocks [of E clk votes rt "(outbound, [], False)"] pass by simp
  ultimately have room: "roomy (ch_blocks (rt_chain rt1))"
    using "1.prems"(4) good_blocks [OF "1.prems"(1)] by (auto intro: roomy_prefix)
  have pg: "good E vs H c0 ?S v rt1" "votes_by v ?p" "\<And>a b c. r1 = Ok (a, b, c) \<Longrightarrow> list_all (authentic E H ?S) b"
    using replay_pass_good [OF "1.prems"(1,2) _ pass room refl] by simp_all
  note sig = replay_signed.simps [of E clk rt votes outbound]
  consider (loop) a b where "r1 = Ok (a, b, True)" | (stop) a b where "r1 = Ok (a, b, False)" | (err) e where "r1 = Err e"
    by (cases r1) auto
  then show ?case
  proof cases
    case loop
    then have rest: "replay_loop E clk rt1 b a = (rt', r)"
      using "1.prems"(3) by (simp add: replay_loop_unfold [OF pass])
    have s: "replay_signed E clk rt votes outbound = ?p @ replay_signed E clk rt1 b a"
      using loop by (simp add: sig pass)
    from "1.IH" [OF pass [symmetric] loop, of a "(b, True)" b True ?S] loop pg rest "1.prems"(4)
    have "good E vs H c0 (?S \<union> vote_of ` set (replay_signed E clk rt1 b a)) v rt'
        \<and> votes_by v (replay_signed E clk rt1 b a)" by simp
    then show ?thesis unfolding s using pg(2) by (auto simp: image_Un Un_assoc votes_by_def)
  next
    case stop
    then have "rt' = rt1\<lparr>rt_deferred_votes := b\<rparr>"
      using "1.prems"(3) by (simp add: replay_loop_unfold [OF pass])
    moreover have "replay_signed E clk rt votes outbound = ?p" using stop by (simp add: sig pass)
    ultimately show ?thesis using pg(1,2) pg(3) [OF stop] by (simp add: good_def node_inv_def)
  next
    case err
    then have "rt' = rt1" using "1.prems"(3) by (simp add: replay_loop_unfold [OF pass])
    moreover have "replay_signed E clk rt votes outbound = ?p" using err by (simp add: sig pass)
    ultimately show ?thesis using pg by simp
  qed
qed

subsection \<open>Rounds and heights\<close>

lemma start_round_result:
  assumes "start_round s h r = (t, res)"
  shows "(\<exists>e. res = Err e) \<and> t = s \<or> res = Ok () \<and> bft_height t = h \<and> bft_round t = r \<and> bft_phase t = Propose"
  using assms by (auto simp: start_round_def Let_def split: if_splits)

text \<open>Entering a round leaves no candidate behind.\<close>

lemma good_start_round:
  assumes good: "good E vs H c0 S v rt" and step: "start_round (rt_consensus rt) h r = (s, res)"
    and new: "h = bft_height (rt_consensus rt) \<and> r = bft_round (rt_consensus rt) \<longrightarrow>
      r = 0 \<and> bft_phase (rt_consensus rt) = Finalized"
    and room: "h \<le> blk_height (hd (ch_blocks (rt_chain rt))) + length (ch_blocks (rt_chain rt))"
  shows "res = Ok () \<Longrightarrow> good E vs H c0 S v (rt\<lparr>rt_consensus := s, rt_pending := p, rt_precommits := []\<rparr>)"
    and "good E vs H c0 S v (rt\<lparr>rt_consensus := s\<rparr>)"
proof -
  have inv: "node_inv E vs H c0 S v rt" and ok: "signed_ok vs H S" using good by (simp_all add: good_def)
  have mach: "machine_inv E vs H S v s"
    using start_round_machine [of E vs H S v "rt_consensus rt" h r] inv new step by (simp add: node_inv_def)
  have cand: "candidate_ok s q" if "res = Ok ()" for q
    using start_round_result [OF step] that by (auto simp: candidate_ok_def)
  have chain: "chain_ok (ch_blocks c0) (bft_height s) (ch_blocks (rt_chain rt)) (rt_finalized rt)"
    using start_round_result [OF step] inv room by (auto simp: node_inv_def chain_ok_def)
  show "res = Ok () \<Longrightarrow> good E vs H c0 S v (rt\<lparr>rt_consensus := s, rt_pending := p, rt_precommits := []\<rparr>)"
    using inv ok mach cand chain by (simp add: good_def node_inv_def)
  show "good E vs H c0 S v (rt\<lparr>rt_consensus := s\<rparr>)"
    using start_round_result [OF step] good inv ok mach cand chain by (auto simp: good_def node_inv_def)
qed

lemma good_frame [simp]:
  "good E vs H c0 S v (rt\<lparr>rt_deadline := d\<rparr>) = good E vs H c0 S v rt"
  "good E vs H c0 S v (rt\<lparr>rt_valid_block := vb\<rparr>) = good E vs H c0 S v rt"
  "good E vs H c0 S v (rt\<lparr>rt_valid_round_prevotes := vp\<rparr>) = good E vs H c0 S v rt"
  "good E vs H c0 S v (rt\<lparr>rt_round_change_votes := rc\<rparr>) = good E vs H c0 S v rt"
  "good E vs H c0 S v (rt\<lparr>rt_pending_finalized := pf\<rparr>) = good E vs H c0 S v rt"
  "good E vs H c0 S v (reset_deadline clk rt) = good E vs H c0 S v rt"
  by (simp_all add: good_def)

lemma good_deferred:
  "good E vs H c0 S v rt \<Longrightarrow> set ms \<subseteq> set (rt_deferred_votes rt) \<Longrightarrow> good E vs H c0 S v (rt\<lparr>rt_deferred_votes := ms\<rparr>)"
  by (auto simp: good_def node_inv_def list_all_iff)

lemma adopt_round_change_good:
  assumes good: "good E vs H c0 S v rt" and step: "adopt_round_change_value E J clk rt m = (rt', r)"
  shows "good E vs H c0 S v rt' \<and> bft_height (rt_consensus rt') = bft_height (rt_consensus rt)
    \<and> bft_round (rt_consensus rt') = bft_round (rt_consensus rt) \<and> rt_chain rt' = rt_chain rt
    \<and> rt_validators rt' = rt_validators rt \<and> rt_deadline rt' = rt_deadline rt
    \<and> bft_phase (rt_consensus rt') = bft_phase (rt_consensus rt)"
proof (cases "rt' = rt")
  case False
  then obtain valid where valid: "rc_valid_value m = Some valid"
    using step by (cases "rc_valid_value m") (simp_all add: adopt_round_change_value_def)
  obtain s res where adopt: "adopt_valid_value E (rt_consensus rt) (blk_hash (rcv_block valid))
      (rcv_valid_round valid) (rcv_prevotes valid) = (s, res)" by fastforce
  have rt': "rt' = rt\<lparr>rt_consensus := s\<rparr> \<or> rt' = rt\<lparr>rt_consensus := s, rt_valid_block := Some (rcv_block valid),
      rt_valid_round_prevotes := rcv_prevotes valid\<rparr>"
    using step False by (auto simp: adopt_round_change_value_def valid adopt split: if_splits result.splits)
  have inv: "node_inv E vs H c0 S v rt" using good by (simp add: good_def)
  have same: "same_machine (rt_consensus rt) s" "bft_phase s = bft_phase (rt_consensus rt)"
    "bft_proposal s = bft_proposal (rt_consensus rt)" using adopt_same [OF adopt] by simp_all
  have "machine_inv E vs H S v s" using adopt_machine [OF _ adopt] inv by (simp add: node_inv_def)
  then have "node_inv E vs H c0 S v (rt\<lparr>rt_consensus := s\<rparr>)"
    using inv same by (intro node_inv_consensus) (simp_all add: node_inv_def same_machine_def candidate_ok_def)
  with good have g: "good E vs H c0 S v (rt\<lparr>rt_consensus := s\<rparr>)" by (simp add: good_def)
  from rt' show ?thesis
  proof
    assume "rt' = rt\<lparr>rt_consensus := s\<rparr>"
    with g same show ?thesis by (simp add: same_machine_def)
  next
    assume *: "rt' = rt\<lparr>rt_consensus := s, rt_valid_block := Some (rcv_block valid),
      rt_valid_round_prevotes := rcv_prevotes valid\<rparr>"
    have "good E vs H c0 S v rt'" using g unfolding * good_def node_inv_def by simp
    with same * show ?thesis by (simp add: same_machine_def)
  qed
qed (use good in simp)

lemma enter_round_good:
  assumes good: "good E vs H c0 S v rt" and new: "r > bft_round (rt_consensus rt)"
    and height: "h = bft_height (rt_consensus rt)" and step: "enter_round clk rt h r = (rt', res)"
  shows "good E vs H c0 S v rt'"
proof -
  obtain s q where start: "start_round (rt_consensus rt) h r = (s, q)" by (cases "start_round (rt_consensus rt) h r")
  have room: "h \<le> blk_height (hd (ch_blocks (rt_chain rt))) + length (ch_blocks (rt_chain rt))"
    using good height by (simp add: good_def node_inv_def chain_ok_def)
  have "h = bft_height (rt_consensus rt) \<and> r = bft_round (rt_consensus rt) \<longrightarrow>
    r = 0 \<and> bft_phase (rt_consensus rt) = Finalized" using new by simp
  note start_good = good_start_round [OF good start this room]
  show ?thesis
  proof (cases q)
    case (Err e)
    with step start start_good(2) show ?thesis by (simp add: enter_round_def)
  next
    case (Ok u)
    have "good E vs H c0 S v (rt\<lparr>rt_consensus := s, rt_pending := None, rt_precommits := []\<rparr>)"
      using start_good(1) [of None] Ok by simp
    with step start Ok show ?thesis by (auto simp: enter_round_def good_def node_inv_def list_all_iff)
  qed
qed

lemma count_round_change_cases:
  assumes "count_round_change clk rt m = (rt', r)"
  obtains "rt' = track_round_change rt m"
  | n where "n > bft_round (rt_consensus rt)" and "enter_round clk (track_round_change rt m) (rc_height m) n = (rt', r)"
  using assms by (fastforce simp: count_round_change_def Let_def track_round_change_def split: result.splits if_splits)

lemma count_round_change_good:
  assumes good: "good E vs H c0 S v rt" and height: "rc_height m = bft_height (rt_consensus rt)"
    and step: "count_round_change clk rt m = (rt', r)"
  shows "good E vs H c0 S v rt'"
proof -
  have g: "good E vs H c0 S v (track_round_change rt m)" using good by (simp add: track_round_change_def)
  show ?thesis
    using step
  proof (cases rule: count_round_change_cases)
    case (2 n)
    with g height show ?thesis by (intro enter_round_good [OF g _ _ 2(2)]) (simp_all add: track_round_change_def)
  qed (use g in simp)
qed

lemma receive_round_change_good:
  assumes good: "good E vs H c0 S v rt" and step: "receive_round_change E J clk rt m = (rt', r)"
  shows "good E vs H c0 S v rt'"
proof (cases "rt' = rt")
  case False
  obtain rt1 r1 where adopt: "adopt_round_change_value E J clk rt m = (rt1, r1)"
    by (cases "adopt_round_change_value E J clk rt m")
  note a = adopt_round_change_good [OF good adopt]
  from False step have "rc_height m = bft_height (rt_consensus rt)"
    and "rt' = rt1 \<or> count_round_change clk rt1 m = (rt', r)"
    by (auto simp: receive_round_change_def adopt split: result.splits if_splits)
  with a count_round_change_good [of E vs H c0 S v rt1 m clk rt' r] show ?thesis by auto
qed (use good in simp)

lemma on_timeout_cases:
  assumes "on_timeout s = (t, r)"
  shows "(\<exists>e. r = Err e) \<and> t = s
    \<or> start_round s (bft_height s) (bft_round s + 1) = (t, Ok ()) \<and> r = Ok (bft_round s + 1)"
proof (cases "checked_add 32 (bft_round s) 1")
  case None
  with assms show ?thesis by (auto simp: on_timeout_def)
next
  case (Some n)
  then have n: "n = bft_round s + 1" by simp
  obtain u res where start: "start_round s (bft_height s) n = (u, res)" by (cases "start_round s (bft_height s) n")
  show ?thesis
    using assms [unfolded on_timeout_def Some option.case start] start start_round_result [OF start] n
    by (cases res) auto
qed

lemma enter_round_phase:
  assumes "enter_round clk rt h r = (rt', res)"
  shows "rt_consensus rt' = rt_consensus rt \<and> (\<exists>e. res = Err e)
    \<or> res = Ok True \<and> bft_height (rt_consensus rt') = h \<and> bft_round (rt_consensus rt') = r
      \<and> bft_phase (rt_consensus rt') = Propose"
proof -
  obtain s q where start: "start_round (rt_consensus rt) h r = (s, q)" by (cases "start_round (rt_consensus rt) h r")
  from start_round_result [OF start] assms show ?thesis by (cases q) (auto simp: enter_round_def start)
qed

lemma count_round_change_round:
  assumes "count_round_change clk rt m = (rt', r)"
  shows "bft_round (rt_consensus rt') = bft_round (rt_consensus rt) \<or> bft_phase (rt_consensus rt') = Propose"
  using assms
proof (cases rule: count_round_change_cases)
  case (2 n)
  from enter_round_phase [OF 2(2)] show ?thesis by (auto simp: track_round_change_def)
qed (simp add: track_round_change_def)

lemma receive_round_change_round:
  assumes good: "good E vs H c0 S v rt" and step: "receive_round_change E J clk rt m = (rt', r)"
  shows "bft_round (rt_consensus rt') = bft_round (rt_consensus rt) \<or> bft_phase (rt_consensus rt') = Propose"
proof -
  obtain rt1 r1 where adopt: "adopt_round_change_value E J clk rt m = (rt1, r1)"
    by (cases "adopt_round_change_value E J clk rt m")
  note a = adopt_round_change_good [OF good adopt]
  from step have "rt' = rt \<or> rt' = rt1 \<or> count_round_change clk rt1 m = (rt', r)"
    by (auto simp: receive_round_change_def adopt split: result.splits if_splits)
  then show ?thesis using a count_round_change_round [of clk rt1 m rt' r] by auto
qed

lemma timeout_message_fields:
  assumes "timeout_message E rt = Ok m"
  shows "rc_height m = bft_height (rt_consensus rt)" and "rc_round m = bft_round (rt_consensus rt)"
    and "rc_chain_id m = ch_chain_id (rt_chain rt)" and "rc_genesis_commitment m = ch_genesis_commitment (rt_chain rt)"
    and "rc_validator_id m = signer_address E (rt_validator rt)" and "round_change_verify E m = Ok ()"
  using assms
  by (auto simp: timeout_message_def Let_def round_change_from_signature_with_valid_value_def)

lemma timeout_good:
  assumes good: "good E vs H c0 S v rt" and step: "timeout_if_due_with_round_change E J clk rt now = (rt', r)"
  shows "good E vs H c0 S v rt'"
proof (cases "timeout_message E rt")
  case (Err e)
  then have "rt' = rt" using step by (auto simp: timeout_if_due_with_round_change_def split: if_splits)
  with good show ?thesis by simp
next
  case (Ok msg)
  obtain rt1 r1 where rc: "receive_round_change E J clk rt msg = (rt1, r1)"
    by (cases "receive_round_change E J clk rt msg")
  have g1: "good E vs H c0 S v rt1" using receive_round_change_good [OF good rc] .
  have room: "bft_height (rt_consensus rt1) \<le> blk_height (hd (ch_blocks (rt_chain rt1))) + length (ch_blocks (rt_chain rt1))"
    using g1 by (simp add: good_def node_inv_def chain_ok_def)
  define tm where "tm = (if bft_round (rt_consensus rt1) = rc_round msg then on_timeout (rt_consensus rt1)
    else (rt_consensus rt1, Ok 0))"
  have tm_good: "good E vs H c0 S v (case tm of (s, Err e) \<Rightarrow> rt1\<lparr>rt_consensus := s\<rparr>
    | (s, Ok _) \<Rightarrow> rt1\<lparr>rt_consensus := s, rt_pending := None, rt_precommits := []\<rparr>)"
  proof (cases "bft_round (rt_consensus rt1) = rc_round msg")
    case True
    obtain s q where ot: "on_timeout (rt_consensus rt1) = (s, q)" by (cases "on_timeout (rt_consensus rt1)")
    from on_timeout_cases [OF ot] show ?thesis
    proof
      assume "(\<exists>e. q = Err e) \<and> s = rt_consensus rt1"
      with g1 True ot show ?thesis by (auto simp: tm_def)
    next
      assume *: "start_round (rt_consensus rt1) (bft_height (rt_consensus rt1)) (bft_round (rt_consensus rt1) + 1) = (s, Ok ())
        \<and> q = Ok (bft_round (rt_consensus rt1) + 1)"
      from good_start_round(1) [OF g1 conjunct1 [OF *] _ room refl, of None] * True ot show ?thesis by (simp add: tm_def)
    qed
  next
    case False
    then have "bft_phase (rt_consensus rt1) = Propose"
      using receive_round_change_round [OF good rc] timeout_message_fields(2) [OF Ok] by simp
    with g1 False show ?thesis by (simp add: tm_def good_def node_inv_def candidate_ok_def)
  qed
  have "rt' = rt \<or> rt' = rt1 \<or> rt' = (case tm of (s, Err e) \<Rightarrow> rt1\<lparr>rt_consensus := s\<rparr>
    | (s, Ok _) \<Rightarrow> rt1\<lparr>rt_consensus := s, rt_pending := None, rt_precommits := [],
        rt_deadline := now + to_propose (rt_timeouts rt1)\<rparr>)"
    using step Ok rc unfolding timeout_if_due_with_round_change_def tm_def [symmetric]
    by (auto split: result.splits if_splits prod.splits simp flip: tm_def)
  then show ?thesis using good g1 tm_good
    by (auto simp: good_def node_inv_def split: result.splits prod.splits)
qed

subsection \<open>Synchronisation\<close>

lemma good_room:
  assumes "good E vs H c0 S v rt"
  shows "next_height (rt_chain rt) = blk_height (hd (ch_blocks (rt_chain rt))) + length (ch_blocks (rt_chain rt))"
    and "tip_height (rt_chain rt) + 1 = blk_height (hd (ch_blocks (rt_chain rt))) + length (ch_blocks (rt_chain rt))"
    and "bft_height (rt_consensus rt) \<le> blk_height (hd (ch_blocks (rt_chain rt))) + length (ch_blocks (rt_chain rt))"
proof -
  have l: "heights_linked (ch_blocks (rt_chain rt))" "roomy (ch_blocks (rt_chain rt))" and
    "bft_height (rt_consensus rt) \<le> blk_height (hd (ch_blocks (rt_chain rt))) + length (ch_blocks (rt_chain rt))"
    using assms by (simp_all add: good_def node_inv_def chain_ok_def)
  then show "bft_height (rt_consensus rt) \<le> blk_height (hd (ch_blocks (rt_chain rt))) + length (ch_blocks (rt_chain rt))"
    by simp
  show "next_height (rt_chain rt) = blk_height (hd (ch_blocks (rt_chain rt))) + length (ch_blocks (rt_chain rt))"
    using linked_tip(1) [OF l] good_blocks [OF assms] by (simp add: next_height_def)
  show "tip_height (rt_chain rt) + 1 = blk_height (hd (ch_blocks (rt_chain rt))) + length (ch_blocks (rt_chain rt))"
    using linked_tip(2) [OF l] good_blocks [OF assms] by (simp add: tip_height_def)
qed

lemma start_next_height_good:
  assumes good: "good E vs H c0 S v rt" and step: "start_next_height clk rt = (rt', r)"
    and new: "bft_height (rt_consensus rt) < next_height (rt_chain rt) \<or> bft_phase (rt_consensus rt) = Finalized"
  shows "good E vs H c0 S v rt'"
proof -
  obtain s q where start: "start_round (rt_consensus rt) (next_height (rt_chain rt)) 0 = (s, q)"
    by (cases "start_round (rt_consensus rt) (next_height (rt_chain rt)) 0")
  have "next_height (rt_chain rt) = bft_height (rt_consensus rt) \<and> 0 = bft_round (rt_consensus rt) \<longrightarrow>
    0 = (0 :: nat) \<and> bft_phase (rt_consensus rt) = Finalized" using new by auto
  note start_good = good_start_round [OF good start this good_room(1) [OF good, THEN eq_refl]]
  show ?thesis
  proof (cases q)
    case (Err e)
    with step start start_good(2) show ?thesis by (simp add: start_next_height_def)
  next
    case (Ok u)
    have "good E vs H c0 S v (rt\<lparr>rt_consensus := s, rt_pending := None, rt_precommits := []\<rparr>)"
      using start_good(1) [of None] Ok by simp
    with step start Ok show ?thesis by (auto simp: start_next_height_def clear_height_def good_def node_inv_def)
  qed
qed

lemma sync_loop_blocks:
  "\<exists>new. ch_blocks (rt_chain (fst (sync_certificates_loop E J clk rt n cs))) = ch_blocks (rt_chain rt) @ new"
proof (induction cs arbitrary: rt n)
  case (Cons c cs)
  have "\<exists>new. ch_blocks (rt_chain (fst (sync_certificates_loop E J clk (rt\<lparr>rt_chain := chain, rt_finalized := fs\<rparr>) k cs)))
      = ch_blocks (rt_chain rt) @ new" if "apply_block E (rt_chain rt) (cert_block c) = Ok chain" for chain fs k
    using Cons.IH [of "rt\<lparr>rt_chain := chain, rt_finalized := fs\<rparr>" k] apply_block_blocks(1) [OF that] by auto
  then show ?case using Cons.IH [of rt n] by (auto simp: Let_def split: result.splits option.splits)
qed simp

lemma sync_loop_good:
  assumes "good E vs H c0 S v rt" and "\<forall>c \<in> set cs. list_all (authentic E H S) (cert_precommits c)"
    and "sync_certificates_loop E J clk rt n cs = (rt', r)" and "roomy (ch_blocks (rt_chain rt'))"
  shows "good E vs H c0 S v rt' \<and> rt_consensus rt' = rt_consensus rt
    \<and> (\<forall>k. r = Ok k \<longrightarrow> next_height (rt_chain rt') = next_height (rt_chain rt) + (k - n) \<and> n \<le> k)"
  using assms
proof (induction cs arbitrary: rt n)
  case (Cons c cs)
  have auth: "list_all (authentic E H S) (cert_precommits c)"
    "\<forall>c \<in> set cs. list_all (authentic E H S) (cert_precommits c)" using Cons.prems(2) by simp_all
  show ?case
  proof (cases "\<exists>chain. certificate_verify E c (rt_validators rt) = Ok () \<and> blk_height (cert_block c) = next_height (rt_chain rt)
      \<and> validate_scheduled_block E J clk rt (cert_block c) = Ok () \<and> apply_block E (rt_chain rt) (cert_block c) = Ok chain")
    case True
    then obtain chain where v: "certificate_verify E c (rt_validators rt) = Ok ()"
      and h: "blk_height (cert_block c) = next_height (rt_chain rt)"
      and w: "validate_scheduled_block E J clk rt (cert_block c) = Ok ()"
      and a: "apply_block E (rt_chain rt) (cert_block c) = Ok chain" by blast
    let ?rt = "rt\<lparr>rt_chain := chain, rt_finalized := rt_finalized rt @ [c]\<rparr>"
    have rest: "sync_certificates_loop E J clk ?rt (n + 1) cs = (rt', r)"
      using Cons.prems(3) v h w a by simp
    note blocks = apply_block_blocks [OF a]
    have room: "roomy (ch_blocks chain)"
      using sync_loop_blocks [of E J clk ?rt "n + 1" cs] rest Cons.prems(4) blocks(1) by (auto intro: roomy_prefix)
    have inv: "node_inv E vs H c0 S v rt" using Cons.prems(1) by (simp add: good_def)
    have "chain_ok (ch_blocks c0) (bft_height (rt_consensus rt)) (ch_blocks (rt_chain rt) @ [cert_block c]) (rt_finalized rt @ [c])"
      using inv room blocks by (intro chain_ok_append) (simp_all add: node_inv_def)
    moreover have "certs_ok E vs H S (rt_finalized rt @ [c])"
      using inv v auth(1) by (auto simp: node_inv_def certs_ok_def list_all_iff)
    ultimately have g: "good E vs H c0 S v ?rt" using inv blocks Cons.prems(1) by (simp add: good_def node_inv_def)
    have step: "next_height chain = next_height (rt_chain rt) + 1"
      using good_room(1) [OF g] good_room(1) [OF Cons.prems(1)] blocks(1) good_blocks [OF Cons.prems(1)] by simp
    have "good E vs H c0 S v rt' \<and> rt_consensus rt' = rt_consensus ?rt
      \<and> (\<forall>k. r = Ok k \<longrightarrow> next_height (rt_chain rt') = next_height (rt_chain ?rt) + (k - (n + 1)) \<and> n + 1 \<le> k)"
      by (rule Cons.IH [OF g auth(2) rest Cons.prems(4)])
    then show ?thesis using step by auto
  next
    case False
    have "rt' = rt \<and> (\<exists>e. r = Err e) \<or> sync_certificates_loop E J clk rt n cs = (rt', r)"
      using Cons.prems(3) False by (auto simp: Let_def split: result.splits option.splits if_splits)
    then show ?thesis
    proof
      assume "sync_certificates_loop E J clk rt n cs = (rt', r)"
      from Cons.IH [OF Cons.prems(1) auth(2) this Cons.prems(4)] show ?thesis .
    qed (use Cons.prems(1) in auto)
  qed
qed auto

lemma start_next_height_blocks: "ch_blocks (rt_chain (fst (start_next_height clk rt))) = ch_blocks (rt_chain rt)"
  by (simp add: start_next_height_def clear_height_def split: prod.splits result.splits)

lemma apply_sync_good:
  assumes good: "good E vs H c0 S v rt" and auth: "\<forall>c \<in> set cs. list_all (authentic E H S) (cert_precommits c)"
    and step: "apply_sync_certificates E J clk rt cs = (rt', r)" and room: "roomy (ch_blocks (rt_chain rt'))"
  shows "good E vs H c0 S v rt'"
proof -
  obtain rt1 q where loop: "sync_certificates_loop E J clk rt 0 cs = (rt1, q)"
    by (cases "sync_certificates_loop E J clk rt 0 cs")
  obtain rt2 q2 where start: "start_next_height clk rt1 = (rt2, q2)" by (cases "start_next_height clk rt1")
  have rt': "rt' = rt1 \<or> (\<exists>n. q = Ok n \<and> n \<noteq> 0 \<and> rt' = rt2)"
    using step by (auto simp: apply_sync_certificates_def loop start split: result.splits if_splits)
  have "roomy (ch_blocks (rt_chain rt1))" using rt' room start_next_height_blocks [of clk rt1] start by auto
  note g = sync_loop_good [OF good auth loop this]
  from rt' show ?thesis
  proof
    assume "\<exists>n. q = Ok n \<and> n \<noteq> 0 \<and> rt' = rt2"
    then obtain n where n: "q = Ok n" "n \<noteq> 0" "rt' = rt2" by blast
    have "bft_height (rt_consensus rt1) < next_height (rt_chain rt1)"
      using g n good_room(1,3) [OF good] by simp
    with start_next_height_good [OF _ start] g n show ?thesis by simp
  qed (use g in simp)
qed

lemma advance_good:
  assumes "good E vs H c0 S v rt" and "advance_after_finalization clk rt = (rt', r)"
  shows "good E vs H c0 S v rt'"
  using assms start_next_height_good [OF assms(1), of clk rt' r]
  by (auto simp: advance_after_finalization_def split: if_splits)

lemma install_snapshot_good:
  assumes good: "good E vs H c0 S v rt" and step: "install_certified_snapshot E clk rt snap cert = (rt', r)"
    and room: "roomy (ch_blocks (rt_chain rt'))"
  shows "good E vs H c0 S v rt'"
proof (cases "rt' = rt")
  case False
  obtain chain where chain: "from_snapshot_with_staking (snap_chain_id snap) (snap_genesis_commitment snap) (snap_height snap)
      (snap_block_hash snap) (snap_balances snap) (snap_next_nonces snap) (snap_executed_events snap) (snap_staking snap) = Ok chain"
    and above: "tip_height (rt_chain rt) < snap_height snap"
    using step False
    by (auto simp: install_certified_snapshot_def split: result.splits if_splits)
  define h where "h = wrapping_add 64 (snap_height snap) 1"
  obtain s q where start: "start_round (rt_consensus rt) h 0 = (s, q)" by (cases "start_round (rt_consensus rt) h 0")
  have rt': "rt' = rt\<lparr>rt_chain := chain, rt_consensus := s\<rparr> \<and> (\<exists>e. q = Err e)
    \<or> rt' = reset_deadline clk ((clear_height (rt\<lparr>rt_chain := chain, rt_consensus := s\<rparr>))\<lparr>rt_deferred_votes := []\<rparr>) \<and> q = Ok ()"
    using step False chain above start
    by (auto simp: install_certified_snapshot_def h_def split: result.splits if_splits)
  obtain anchor where anchor: "ch_blocks chain = [anchor]" "blk_height anchor = snap_height snap"
    using chain by (auto simp: from_snapshot_with_staking_def from_snapshot_with_events_def Let_def split: if_splits)
  have "ch_blocks (rt_chain rt') = [anchor]" using rt' anchor(1) by (auto simp: clear_height_def)
  then have room': "roomy [anchor]" and h: "h = snap_height snap + 1"
    using room anchor(2) by (simp_all add: roomy_def h_def wrapping_add_def)
  have inv: "node_inv E vs H c0 S v rt" and ok: "signed_ok vs H S" using good by (simp_all add: good_def)
  note rm = good_room [OF good]
  have high: "bft_height (rt_consensus rt) < h" using rm(2,3) above h by simp
  then have mach: "machine_inv E vs H S v s"
    using start_round_machine [of E vs H S v "rt_consensus rt" h 0] inv start by (simp add: node_inv_def)
  have "blk_height (hd (ch_blocks c0)) + length (ch_blocks c0) \<le> snap_height snap"
  proof -
    have "blk_height (hd (ch_blocks c0)) + length (ch_blocks c0)
        \<le> blk_height (hd (ch_blocks (rt_chain rt))) + length (ch_blocks (rt_chain rt))"
      using inv good_blocks [OF good] by (auto simp: node_inv_def chain_ok_def heights_linked_def hd_append)
    with rm(2) above show ?thesis by simp
  qed
  then have chain_ok: "chain_ok (ch_blocks c0) k [anchor] cs" if "k \<le> snap_height snap + 1" for k cs
    using inv room' anchor(2) that by (simp add: node_inv_def chain_ok_def heights_linked_def certified_def)
  from rt' show ?thesis
  proof
    assume *: "rt' = rt\<lparr>rt_chain := chain, rt_consensus := s\<rparr> \<and> (\<exists>e. q = Err e)"
    then have "s = rt_consensus rt" using start_round_result [OF start] by auto
    with * inv ok anchor(1) chain_ok high h show ?thesis by (simp add: good_def node_inv_def)
  next
    assume *: "rt' = reset_deadline clk ((clear_height (rt\<lparr>rt_chain := chain, rt_consensus := s\<rparr>))\<lparr>rt_deferred_votes := []\<rparr>)
      \<and> q = Ok ()"
    then have "bft_height s = h" "bft_phase s = Propose" using start_round_result [OF start] by auto
    with * inv ok anchor(1) chain_ok mach h show ?thesis
      by (simp add: good_def node_inv_def clear_height_def candidate_ok_def)
  qed
qed (use good in simp)

lemma import_loop_good:
  assumes "good E vs H c0 S v rt" and "\<forall>c \<in> set cs. list_all (authentic E H S) (cert_precommits c)"
    and "import_loop E rt n cs = (rt', r)"
  shows "good E vs H c0 S v rt'"
  using assms
proof (induction cs arbitrary: rt n)
  case (Cons c cs)
  have inv: "node_inv E vs H c0 S v rt" using Cons.prems(1) by (simp add: good_def)
  have "good E vs H c0 S v (rt\<lparr>rt_finalized := rt_finalized rt @ [c]\<rparr>)"
    if v: "certificate_verify E c (rt_validators rt) = Ok ()"
  proof -
    have "chain_ok (ch_blocks c0) (bft_height (rt_consensus rt)) (ch_blocks (rt_chain rt)) (rt_finalized rt @ [c])"
      using inv certified_mono [of "rt_finalized rt" _ "rt_finalized rt @ [c]"]
      by (auto simp: node_inv_def chain_ok_def)
    moreover have "certs_ok E vs H S (rt_finalized rt @ [c])"
      using inv v Cons.prems(2) by (auto simp: node_inv_def certs_ok_def list_all_iff)
    ultimately show ?thesis using Cons.prems(1) by (simp add: good_def node_inv_def)
  qed
  then show ?case
    using Cons.prems Cons.IH [of rt] Cons.IH [of "rt\<lparr>rt_finalized := rt_finalized rt @ [c]\<rparr>"]
    by (auto split: result.splits option.splits if_splits)
next
  case Nil
  then have "rt' = rt\<lparr>rt_finalized := sort_key (\<lambda>c. blk_height (cert_block c)) (rt_finalized rt)\<rparr>" by auto
  with Nil(1) show ?case by (simp add: good_def node_inv_def chain_ok_def certs_ok_def certified_def)
qed

end
