(* ===== verification/Network.thy ===== *)
theory Network
  imports NodeInvariant ChainSafety
begin

text \<open>
  Many nodes.  Every correct validator runs the runtime of \<^verbatim>\<open>consensus_runtime.rs\<close>; the network
  and the other validators are free to deliver, drop, reorder and invent messages, except that a
  vote that verifies under the key of a correct validator is one that validator signed.  The
  theory shows that the ledgers of the correct nodes never disagree, whatever happens.
\<close>

subsection \<open>Runs of the network\<close>

text \<open>
  What the main loop of a node calls on its runtime.  \<^verbatim>\<open>replace_bootstrap_validators\<close> is left
  out (the validators of a run are fixed), and so is \<^verbatim>\<open>apply_sync_batch\<close>, which applies blocks
  without certificates and which the node never calls.
\<close>

datatype input =
    InProposal signed_proposal
  | InVote consensus_message
  | InDeferred consensus_message
  | InReplay
  | InRoundChange signed_round_change
  | InTimeout nat
  | InRestartTimeout nat
  | InCertificates "finality_certificate list"
  | InHistory "finality_certificate list"
  | InSnapshot state_snapshot snapshot_certificate
  | InAdvance
  | InTakeFinalized
  | InTakeEvidence
  | InEvents event_schedule
  | InHolderPolicy holder_reward_policy
  | InInterestPolicy validator_interest_policy
  | InUpgrades "protocol_upgrade list"
  | InPeers "string list"

text \<open>The new runtime and the votes that were signed.\<close>

fun deliver :: "ext \<Rightarrow> runtime_codec \<Rightarrow> clock \<Rightarrow> input \<Rightarrow> runtime \<Rightarrow> runtime \<times> consensus_message list" where
  "deliver E J clk (InProposal p) rt =
     (case receive_proposal E J clk rt p of (rt', Ok m) \<Rightarrow> (rt', [m]) | (rt', Err _) \<Rightarrow> (rt', []))"
| "deliver E J clk (InVote m) rt = (case receive_vote E clk rt m of (rt', r) \<Rightarrow> (rt', signed_now r))"
| "deliver E J clk (InDeferred m) rt = (defer_vote rt m, [])"
| "deliver E J clk InReplay rt = (fst (replay_deferred_votes E clk rt),
     replay_signed E clk (rt\<lparr>rt_deferred_votes := []\<rparr>) (rt_deferred_votes rt) [])"
| "deliver E J clk (InRoundChange m) rt = (fst (receive_round_change E J clk rt m), [])"
| "deliver E J clk (InTimeout now) rt = (fst (timeout_if_due_with_round_change E J clk rt now), [])"
| "deliver E J clk (InRestartTimeout now) rt = (restart_phase_timeout rt now, [])"
| "deliver E J clk (InCertificates cs) rt = (fst (apply_sync_certificates E J clk rt cs), [])"
| "deliver E J clk (InHistory cs) rt = (fst (import_certificate_history E rt cs), [])"
| "deliver E J clk (InSnapshot snapshot certificate) rt = (fst (install_certified_snapshot E clk rt snapshot certificate), [])"
| "deliver E J clk InAdvance rt = (fst (advance_after_finalization clk rt), [])"
| "deliver E J clk InTakeFinalized rt = (fst (take_finalized rt), [])"
| "deliver E J clk InTakeEvidence rt = (fst (rt_take_evidence rt), [])"
| "deliver E J clk (InEvents schedule) rt = (fst (set_event_schedule E rt schedule), [])"
| "deliver E J clk (InHolderPolicy policy) rt = (fst (set_holder_reward_policy rt policy), [])"
| "deliver E J clk (InInterestPolicy policy) rt = (fst (set_validator_interest_policy rt policy), [])"
| "deliver E J clk (InUpgrades schedule) rt = (set_upgrade_schedule rt schedule, [])"
| "deliver E J clk (InPeers peer_ids) rt = (set_validator_peer_ids rt peer_ids, [])"

text \<open>The votes an input carries.  Those of round changes do not matter for agreement.\<close>

fun input_votes :: "input \<Rightarrow> consensus_message list" where
  "input_votes (InProposal p) = prop_valid_round_prevotes p"
| "input_votes (InVote m) = [m]"
| "input_votes (InDeferred m) = [m]"
| "input_votes (InCertificates cs) = concat (map cert_precommits cs)"
| "input_votes (InHistory cs) = concat (map cert_precommits cs)"
| "input_votes _ = []"

type_synonym network = "(string \<Rightarrow> runtime) \<times> vote set"

inductive net_step :: "ext \<Rightarrow> runtime_codec \<Rightarrow> string set \<Rightarrow> network \<Rightarrow> network \<Rightarrow> bool" for E J H where
  net_step: "v \<in> H \<Longrightarrow> list_all (authentic E H S) (input_votes i) \<Longrightarrow>
     deliver E J clk i (N v) = (rt, signed_votes) \<Longrightarrow> roomy (ch_blocks (rt_chain rt)) \<Longrightarrow>
     net_step E J H (N, S) (N(v := rt), S \<union> vote_of ` set signed_votes)"

definition net_start :: "ext \<Rightarrow> validator list \<Rightarrow> string set \<Rightarrow> blockchain \<Rightarrow> network \<Rightarrow> bool" where
  "net_start E vs H c0 n \<longleftrightarrow> snd n = {} \<and> heights_linked (ch_blocks c0) \<and> roomy (ch_blocks c0)
     \<and> total_voting_power vs < 2 ^ 64
     \<and> (\<forall>v \<in> H. \<exists>clk signer timeouts. signer_address E signer = v
          \<and> with_signer clk c0 vs signer timeouts = Ok (fst n v))"

definition net_inv :: "ext \<Rightarrow> validator list \<Rightarrow> string set \<Rightarrow> blockchain \<Rightarrow> network \<Rightarrow> bool" where
  "net_inv E vs H c0 n \<longleftrightarrow> signed_ok vs H (snd n) \<and> total_voting_power vs < 2 ^ 64
     \<and> (\<forall>v \<in> H. node_inv E vs H c0 (snd n) v (fst n v))"

lemma in_set_tlD: "x \<in> set (tl xs) \<Longrightarrow> x \<in> set xs"
  by (cases xs) auto

lemma deliver_good:
  assumes good: "good E vs H c0 S v rt" and auth: "list_all (authentic E H S) (input_votes i)"
    and step: "deliver E J clk i rt = (rt', out)" and room: "roomy (ch_blocks (rt_chain rt'))"
  shows "good E vs H c0 (S \<union> vote_of ` set out) v rt' \<and> votes_by v out"
proof (cases i)
  case (InProposal p)
  obtain rt1 r where p: "receive_proposal E J clk rt p = (rt1, r)" by (cases "receive_proposal E J clk rt p")
  show ?thesis
    using receive_proposal_good [OF good _ p] auth step
    by (cases r) (auto simp: InProposal p votes_by_def)
next
  case (InVote m)
  obtain rt1 r where p: "receive_vote E clk rt m = (rt1, r)" by (cases "receive_vote E clk rt m")
  with step InVote have rt': "rt1 = rt'" "out = signed_now r" by simp_all
  with receive_vote_good [OF good _ p] auth room show ?thesis
    by (auto simp: InVote signed_now_def votes_by_def split: result.splits option.splits)
next
  case (InDeferred m)
  have "list_all (authentic E H S) (rt_deferred_votes rt)" using good by (simp add: good_def node_inv_def)
  then have "list_all (authentic E H S) (rt_deferred_votes (defer_vote rt m))"
    using auth in_set_tlD by (fastforce simp: InDeferred defer_vote_def list_all_iff)
  moreover have "rt' = rt\<lparr>rt_deferred_votes := rt_deferred_votes (defer_vote rt m)\<rparr>" "out = []"
    using step by (auto simp: InDeferred defer_vote_def)
  ultimately show ?thesis using good by (simp add: good_def node_inv_def votes_by_def)
next
  case InReplay
  have "good E vs H c0 S v (rt\<lparr>rt_deferred_votes := []\<rparr>)" using good by (rule good_deferred) simp
  moreover have "list_all (authentic E H S) (rt_deferred_votes rt)" using good by (simp add: good_def node_inv_def)
  moreover obtain r where "replay_loop E clk (rt\<lparr>rt_deferred_votes := []\<rparr>) (rt_deferred_votes rt) [] = (rt', r)"
    using step by (cases "replay_loop E clk (rt\<lparr>rt_deferred_votes := []\<rparr>) (rt_deferred_votes rt) []")
      (simp add: InReplay replay_deferred_votes_def)
  ultimately show ?thesis
    using replay_loop_good [OF _ _ _ room] step by (auto simp: InReplay)
next
  case (InRoundChange m)
  with step receive_round_change_good [OF good] show ?thesis
    by (cases "receive_round_change E J clk rt m") (auto simp: votes_by_def)
next
  case (InTimeout now)
  with step timeout_good [OF good] show ?thesis
    by (cases "timeout_if_due_with_round_change E J clk rt now") (auto simp: votes_by_def)
next
  case (InRestartTimeout now)
  with step good show ?thesis by (auto simp: restart_phase_timeout_def votes_by_def)
next
  case (InCertificates cs)
  have "\<forall>c \<in> set cs. list_all (authentic E H S) (cert_precommits c)" using auth by (auto simp: InCertificates list_all_iff)
  with step room apply_sync_good [OF good] InCertificates show ?thesis
    by (cases "apply_sync_certificates E J clk rt cs") (auto simp: votes_by_def)
next
  case (InHistory cs)
  have "\<forall>c \<in> set cs. list_all (authentic E H S) (cert_precommits c)" using auth by (auto simp: InHistory list_all_iff)
  with step import_loop_good [OF good] InHistory show ?thesis
    by (cases "import_loop E rt 0 cs") (auto simp: votes_by_def import_certificate_history_def)
next
  case (InSnapshot snapshot certificate)
  with step room install_snapshot_good [OF good] show ?thesis
    by (cases "install_certified_snapshot E clk rt snapshot certificate") (auto simp: votes_by_def)
next
  case InAdvance
  with step advance_good [OF good] show ?thesis
    by (cases "advance_after_finalization clk rt") (auto simp: votes_by_def)
next
  case InTakeFinalized
  with step good show ?thesis by (auto simp: take_finalized_def votes_by_def)
next
  case InTakeEvidence
  have "machine_inv E vs H S v (fst (take_evidence (rt_consensus rt)))"
    using good by (intro take_evidence_machine) (simp add: good_def node_inv_def)
  with step good InTakeEvidence show ?thesis
    by (auto simp: rt_take_evidence_def take_evidence_def good_def node_inv_def candidate_ok_def votes_by_def)
next
  case (InEvents schedule)
  with step good show ?thesis
    by (auto simp: set_event_schedule_def good_def node_inv_def votes_by_def split: result.splits)
next
  case (InHolderPolicy policy)
  with step good show ?thesis
    by (auto simp: set_holder_reward_policy_def good_def node_inv_def votes_by_def split: result.splits)
next
  case (InInterestPolicy policy)
  with step good show ?thesis
    by (auto simp: set_validator_interest_policy_def good_def node_inv_def votes_by_def split: result.splits)
next
  case (InUpgrades schedule)
  with step good show ?thesis by (auto simp: set_upgrade_schedule_def good_def node_inv_def votes_by_def)
next
  case (InPeers peers)
  with step good show ?thesis by (auto simp: set_validator_peer_ids_def good_def node_inv_def votes_by_def)
qed

lemma with_signer_inv:
  assumes start: "with_signer clk c0 vs signer timeouts = Ok rt" and v: "signer_address E signer = v"
    and total: "total_voting_power vs < 2 ^ 64" and chain: "heights_linked (ch_blocks c0)" "roomy (ch_blocks c0)"
  shows "node_inv E vs H c0 {} v rt"
proof -
  obtain s0 where new: "bft_new vs = Ok s0" using start by (auto simp: with_signer_def)
  obtain s q where round': "start_round s0 (next_height c0) 0 = (s, q)" by (cases "start_round s0 (next_height c0) 0")
  have q: "q = Ok ()" using start by (cases q) (simp_all add: with_signer_def new round')
  note round = round' [unfolded q]
  have rt: "rt_chain rt = c0" "rt_consensus rt = s" "rt_validator rt = signer" "rt_validators rt = vs"
      "rt_precommits rt = []" "rt_deferred_votes rt = []" "rt_finalized rt = []" "rt_pending rt = None"
    using start by (auto simp: with_signer_def new round)
  have "bft_start s0" using new total unfolding bft_start_def by blast
  then have inv: "bft_inv E (fst (start_round s0 (next_height c0) 0))" by (intro start_round_inv bft_start_inv)
  have zero: "bft_locked_value s0 = None" "bft_height s0 = 0" using new by (auto simp: bft_new_def)
  have s: "bft_height s = next_height c0" "bft_phase s = Propose" using start_round_result [OF round] by simp_all
  have s': "bft_votes s = []" "bft_locked_value s = None" "bft_validators s = bft_validators s0"
    using round zero(1) by (auto simp: start_round_def Let_def split: if_splits)
  have "machine_inv E vs H {} v s"
    using inv round bft_new_validators [OF new] bft_new_total [OF new] s s'
    by (simp add: machine_inv_def votes_auth_def lock_auth_def own_defs lock_round_def locked_value_def)
  moreover have "chain_ok (ch_blocks c0) (bft_height s) (ch_blocks c0) []"
    using chain linked_tip(1) [OF chain] by (simp add: chain_ok_def s next_height_def heights_linked_def certified_def)
  ultimately show ?thesis using v s(2) by (simp add: node_inv_def rt candidate_ok_def certs_ok_def)
qed

lemma net_step_inv:
  assumes inv: "net_inv E vs H c0 n" and step: "net_step E J H n n'"
  shows "net_inv E vs H c0 n'"
  using step
proof (cases rule: net_step.cases)
  case (net_step v S i clk N rt out)
  have ok: "signed_ok vs H S" and nodes: "\<forall>u \<in> H. node_inv E vs H c0 S u (N u)"
    using inv net_step(1) by (simp_all add: net_inv_def)
  then have "good E vs H c0 S v (N v)" using net_step(3) by (simp add: good_def)
  from deliver_good [OF this net_step(4,5,6)]
  have g: "good E vs H c0 (S \<union> vote_of ` set out) v rt" and mine: "votes_by v out" by simp_all
  have "node_inv E vs H c0 (S \<union> vote_of ` set out) u ((N(v := rt)) u)" if "u \<in> H" for u
  proof (cases "u = v")
    case True
    with g show ?thesis by (simp add: good_def)
  next
    case False
    have "\<forall>h r t x. (u, h, r, t, x) \<in> S \<union> vote_of ` set out \<longrightarrow> (u, h, r, t, x) \<in> S"
      using mine False unfolding votes_by_def by (metis Un_iff fst_conv imageE)
    with nodes that have "node_inv E vs H c0 (S \<union> vote_of ` set out) u (N u)"
      by (intro node_inv_others [of E vs H c0 S u "N u" "S \<union> vote_of ` set out"]) simp_all
    with False show ?thesis by simp
  qed
  with g inv net_step(2) show ?thesis by (simp add: net_inv_def good_def)
qed

interpretation net: safety "net_start E vs H c0" "net_step E J H" "net_inv E vs H c0" for E J vs H c0
proof
  show "net_inv E vs H c0 n" if "net_start E vs H c0 n" for n
  proof -
    have "node_inv E vs H c0 {} v (fst n v)" if "v \<in> H" for v
      using \<open>net_start E vs H c0 n\<close> that with_signer_inv unfolding net_start_def by blast
    with that show ?thesis by (simp add: net_start_def net_inv_def signed_ok_def)
  qed
  show "net_inv E vs H c0 n'" if "net_inv E vs H c0 n" and "net_step E J H n n'" for n n'
    using that by (rule net_step_inv)
qed

subsection \<open>What every run guarantees\<close>

lemma linked_bounds:
  assumes "heights_linked bs" and "b \<in> set bs"
  shows "blk_height (hd bs) \<le> blk_height b" and "blk_height b < blk_height (hd bs) + length bs"
  using assms by (auto simp: heights_linked_def in_set_conv_nth)

lemma linked_unique:
  assumes "heights_linked bs" and "b \<in> set bs" and "b' \<in> set bs" and "blk_height b = blk_height b'"
  shows "b = b'"
  using assms by (auto simp: heights_linked_def in_set_conv_nth)

lemma linked_suffix:
  assumes "heights_linked (bs @ new)" and "b \<in> set new" and "bs \<noteq> []"
  shows "blk_height (hd bs) + length bs \<le> blk_height b"
proof -
  obtain i where i: "i < length new" "b = new ! i" using assms(2) by (auto simp: in_set_conv_nth)
  have all: "\<forall>k < length (bs @ new). blk_height ((bs @ new) ! k) = blk_height (hd (bs @ new)) + k"
    using assms(1) unfolding heights_linked_def by blast
  have "blk_height ((bs @ new) ! (length bs + i)) = blk_height (hd (bs @ new)) + (length bs + i)"
    by (rule all [rule_format]) (use i(1) in simp)
  with i assms(3) show ?thesis by (simp add: nth_append)
qed

text \<open>A block of a node's chain is one of the starting chain, or certified and above it.\<close>

lemma chain_ok_cases:
  assumes ok: "chain_ok bs0 h bs cs" and b: "b \<in> set (tl bs)"
  obtains "b \<in> set (tl bs0)"
  | c where "c \<in> set cs" and "cert_block c = b" and "blk_height (hd bs0) + length bs0 \<le> blk_height b"
proof -
  have l: "heights_linked bs0" "heights_linked bs" using ok by (simp_all add: chain_ok_def)
  then have ne: "bs0 \<noteq> []" "bs \<noteq> []" by (simp_all add: heights_linked_def)
  from ok consider (grown) new where "bs = bs0 @ new" "certified cs new"
    | (snap) "blk_height (hd bs0) + length bs0 \<le> blk_height (hd bs)" "certified cs (tl bs)"
    unfolding chain_ok_def by blast
  then show thesis
  proof cases
    case grown
    then have "b \<in> set (tl bs0) \<or> b \<in> set new" using b ne(1) by auto
    with grown that linked_suffix [of bs0 new b] l(2) ne(1) show ?thesis by (auto simp: certified_def)
  next
    case snap
    have "blk_height (hd bs) \<le> blk_height b" using linked_bounds(1) [OF l(2)] b by (simp add: in_set_tlD)
    with snap b that show ?thesis by (fastforce simp: certified_def)
  qed
qed

lemma chains_agree:
  assumes inv: "net_inv E vs H c0 (N, S)" and few: "3 * signed_power vs (val_id ` set vs - H) \<le> total_voting_power vs"
    and u: "u \<in> H" "b \<in> set (tl (ch_blocks (rt_chain (N u))))"
    and v: "v \<in> H" "b' \<in> set (tl (ch_blocks (rt_chain (N v))))"
    and height: "blk_height b = blk_height b'"
  shows "blk_hash b = blk_hash b' \<and> (b = b' \<or> blk_hash b = calculate_hash E b \<and> blk_hash b' = calculate_hash E b')"
proof -
  let ?bs0 = "ch_blocks c0"
  have ok: "signed_ok vs H S" and nu: "node_inv E vs H c0 S u (N u)" and nv: "node_inv E vs H c0 S v (N v)"
    using inv u(1) v(1) by (simp_all add: net_inv_def)
  have cu: "chain_ok ?bs0 (bft_height (rt_consensus (N u))) (ch_blocks (rt_chain (N u))) (rt_finalized (N u))"
    and cv: "chain_ok ?bs0 (bft_height (rt_consensus (N v))) (ch_blocks (rt_chain (N v))) (rt_finalized (N v))"
    using nu nv by (simp_all add: node_inv_def)
  have l0: "heights_linked ?bs0" using cu by (simp add: chain_ok_def)
  have old: "x \<in> set (tl ?bs0) \<Longrightarrow> blk_height x < blk_height (hd ?bs0) + length ?bs0 \<and> x \<in> set ?bs0" for x
    using linked_bounds(2) [OF l0] in_set_tlD by metis
  have "3 * total_voting_power vs < 3 * 2 ^ 64" using inv by (simp add: net_inv_def)
  also have "(3 :: nat) * 2 ^ 64 \<le> 2 ^ 128" by simp
  finally have total: "3 * total_voting_power vs < 2 ^ 128" .
  from cu u(2) show ?thesis
  proof (cases rule: chain_ok_cases)
    case 1
    from cv v(2) show ?thesis
    proof (cases rule: chain_ok_cases)
      case 1
      with \<open>b \<in> set (tl ?bs0)\<close> old linked_unique [OF l0] height show ?thesis by blast
    qed (use 1 old height in fastforce)
  next
    case (2 c)
    from cv v(2) show ?thesis
    proof (cases rule: chain_ok_cases)
      case (2 d)
      have certs: "certs_ok E vs H S (rt_finalized (N u))" "certs_ok E vs H S (rt_finalized (N v))"
        using nu nv by (simp_all add: node_inv_def)
      then have "certificate_verify E c vs = Ok ()" "certificate_verify E d vs = Ok ()"
        using \<open>c \<in> set (rt_finalized (N u))\<close> 2(1) by (simp_all add: certs_ok_def)
      then have "blk_hash b = calculate_hash E b" "blk_hash b' = calculate_hash E b'"
        using \<open>cert_block c = b\<close> 2(2) certificate_verify_iff [OF total] by auto
      with certs certificates_agree [OF ok few total, of E c d] \<open>c \<in> set (rt_finalized (N u))\<close> \<open>cert_block c = b\<close> 2 height
      show ?thesis by (simp add: certs_ok_def)
    qed (use 2 old height in fastforce)
  qed
qed

subsection \<open>A run of one validator\<close>

definition toy_runtime_codec :: runtime_codec where
  "toy_runtime_codec = \<lparr>json_interest_policy = (\<lambda>_. []), json_holder_policy = (\<lambda>_. []), json_certificate = (\<lambda>_. Some [])\<rparr>"

definition sample_clock :: clock where
  "sample_clock = \<lparr>clk_instant = 0, clk_unix = Some 5\<rparr>"

definition sample_hash :: string where
  "sample_hash = blk_hash sample_next"

definition sample_machine :: "consensus_phase \<Rightarrow> bft" where
  "sample_machine ph = sample_start\<lparr>bft_height := 1, bft_phase := ph\<rparr>"

definition sample_node :: runtime where
  "sample_node = \<lparr>rt_chain = sample_chain, rt_consensus = sample_start\<lparr>bft_height := 1, bft_phase := Propose\<rparr>,
     rt_validator = Local sample_wallet, rt_pending = None, rt_valid_block = None, rt_valid_round_prevotes = [],
     rt_deadline = 10, rt_timeouts = uniform 10, rt_validators = sample_validators,
     rt_validator_peer_ids = [], rt_precommits = [], rt_deferred_votes = [], rt_round_change_votes = [],
     rt_finalized = [], rt_pending_finalized = [], rt_event_schedule = [],
     rt_interest_policy = validator_interest_default, rt_holder_policy = holder_reward_default,
     rt_upgrade_schedule = []\<rparr>"

lemma sample_tip: "ch_blocks sample_chain = [block_genesis toy_ext]" "blk_height (block_genesis toy_ext) = 0"
  "blk_timestamp (block_genesis toy_ext) = 0"
  by (simp_all add: sample_chain_def with_chain_id_def Let_def block_genesis_def genesis_at_def)

lemma sample_node_new: "with_signer sample_clock sample_chain sample_validators (Local sample_wallet) (uniform 10) = Ok sample_node"
  by (simp add: with_signer_def sample_new next_height_def sample_tip wrapping_add_def start_round_def Let_def
      sample_start_def sample_node_def sample_clock_def uniform_def)

definition net_proposal :: signed_proposal where
  "net_proposal = proposal_with_certificate toy_ext 1 0 sample_wallet sample_next None []"

lemma sample_next_fields:
  "blk_height sample_next = 1" "blk_previous_hash sample_next = blk_hash (block_genesis toy_ext)"
  "blk_timestamp sample_next = 5" "blk_transactions sample_next = [sample_tx]" "blk_system_events sample_next = []"
  "calculate_hash toy_ext sample_next = blk_hash sample_next"
  by (simp_all add: sample_next_def block_new_def Let_def calculate_hash_def block_preimage_def)

lemma net_proposal_fields:
  "prop_height net_proposal = 1" "prop_round net_proposal = 0" "prop_proposer_id net_proposal = sample_id"
  "prop_valid_round net_proposal = None" "prop_valid_round_prevotes net_proposal = []"
  "prop_block net_proposal = sample_next"
  by (simp_all add: net_proposal_def proposal_with_certificate_def Let_def sample_id_def)

lemma net_proposal_verify: "proposal_verify toy_ext net_proposal = Ok ()"
  using verify_signature_signed [OF hex_laws_toy ed25519_laws_toy, of sample_wallet]
  by (simp add: proposal_verify_def net_proposal_fields sample_next_fields)
    (simp add: net_proposal_def proposal_with_certificate_def Let_def sample_id_def sample_wallet_def)

lemma sample_schedule: "validate_scheduled_block toy_ext J sample_clock sample_node sample_next = Ok ()"
  by (simp add: validate_scheduled_block_def check_block_frame_def sample_node_def sample_tip sample_next_fields
      sample_clock_def saturating_add_def MAX_CLOCK_DRIFT_SECONDS_def version_at_def sample_tx_fields
      validate_block_events_def due_def)

lemma sample_hash_nonempty: "blk_hash sample_next \<noteq> []"
  by (simp add: sample_next_def block_new_def Let_def calculate_hash_def toy_ext_def toy_hash_def)

lemma sample_handle_proposal:
  "handle_proposal toy_ext (rt_consensus sample_node) net_proposal
    = (sample_start\<lparr>bft_height := 1, bft_phase := PrevotePhase, bft_proposal := Some sample_hash\<rparr>, Ok ())"
  by (simp add: handle_proposal_def sample_node_def net_proposal_fields net_proposal_verify lock_blocks_def
     propose_def expected_proposer_def sample_start_def hm_contains_def hm_get_def Let_def sample_hash_def sample_hash_nonempty)

lemma sample_sign: "sign_vote toy_ext rt 1 0 t x = Ok (sample_vote t x)" if "rt_validator rt = Local sample_wallet"
  using that sample_vote_fields(6) [of t x]
  by (simp add: sign_vote_def message_from_signature_def Let_def sample_vote_def message_signed_def)

definition sample_node1 :: runtime where
  "sample_node1 = sample_node\<lparr>rt_consensus := sample_start\<lparr>bft_height := 1, bft_phase := PrevotePhase,
       bft_proposal := Some sample_hash\<rparr>, rt_pending := Some sample_next\<rparr>"

lemma sample_node_fields:
  "rt_chain sample_node = sample_chain" "rt_validator sample_node = Local sample_wallet"
  "rt_validator sample_node1 = Local sample_wallet" "rt_validators sample_node = sample_validators"
  by (simp_all add: sample_node_def sample_node1_def)

lemma sample_node1_eq:
  "reset_deadline sample_clock (sample_node\<lparr>rt_consensus := sample_start\<lparr>bft_height := 1, bft_phase := PrevotePhase,
     bft_proposal := Some sample_hash\<rparr>, rt_pending := Some sample_next\<rparr>) = sample_node1"
  by (simp add: reset_deadline_def sample_node1_def sample_node_def sample_clock_def for_phase_def uniform_def)

lemma sample_receive_proposal:
  "receive_proposal toy_ext J sample_clock sample_node net_proposal = (sample_node1, Ok (sample_vote Prevote sample_hash))"
  unfolding receive_proposal_def net_proposal_fields sample_schedule sample_handle_proposal result.case prod.case
    sample_node_fields sample_tip Let_def sample_node1_eq sample_next_fields last.simps sample_hash_def [symmetric]
    sample_sign [OF sample_node_fields(3)]
  by (simp add: sample_tip wrapping_add_def)

text \<open>The prevote and the precommit of the only validator are quorums.\<close>

definition sample_voted :: "vote_type \<Rightarrow> bft" where
  "sample_voted t = fst (handle toy_ext (case t of Prevote \<Rightarrow> rt_consensus sample_node1
     | Precommit \<Rightarrow> fst (handle toy_ext (rt_consensus sample_node1) (sample_vote Prevote sample_hash))) (sample_vote t sample_hash))"

lemma sample_handle_prevote:
  "handle toy_ext (rt_consensus sample_node1) (sample_vote Prevote sample_hash) = (sample_voted Prevote, Ok ())"
  "bft_phase (sample_voted Prevote) = PrecommitPhase" "bft_round (sample_voted Prevote) = 0"
  "bft_height (sample_voted Prevote) = 1"
  by (simp_all add: sample_voted_def sample_node1_def sample_eval sample_start_def List.map_filter_simps)

lemma sample_handle_precommit:
  "handle toy_ext (sample_voted Prevote) (sample_vote Precommit sample_hash) = (sample_voted Precommit, Ok ())"
  "bft_phase (sample_voted Precommit) = Finalized" "bft_finalized (sample_voted Precommit) = Some sample_hash"
  "bft_round (sample_voted Precommit) = 0"
  by (simp_all add: sample_voted_def sample_node1_def sample_eval sample_start_def List.map_filter_simps)

definition sample_node2 :: runtime where
  "sample_node2 = fst (receive_vote toy_ext sample_clock sample_node1 (sample_vote Prevote sample_hash))"

definition sample_node3 :: runtime where
  "sample_node3 = fst (receive_vote toy_ext sample_clock sample_node2 (sample_vote Precommit sample_hash))"

lemma note_more [simp]:
  "rt_chain (note_phase clk ph rt) = rt_chain rt" "rt_validators (note_phase clk ph rt) = rt_validators rt"
  "rt_precommits (note_phase clk ph rt) = rt_precommits rt" "rt_chain (note_precommit rt m) = rt_chain rt"
  "rt_validators (note_precommit rt m) = rt_validators rt"
  by (simp_all add: note_phase_def note_precommit_def Let_def reset_deadline_def split: option.splits)

lemma sample_node1_fields:
  "rt_pending sample_node1 = Some sample_next" "rt_chain sample_node1 = sample_chain"
  "rt_validators sample_node1 = sample_validators" "rt_precommits sample_node1 = []"
  by (simp_all add: sample_node1_def sample_node_def)

lemma sample_receive_prevote:
  "receive_vote toy_ext sample_clock sample_node1 (sample_vote Prevote sample_hash)
     = (sample_node2, Ok (Some (sample_vote Precommit sample_hash)))"
proof -
  have "snd (receive_vote toy_ext sample_clock sample_node1 (sample_vote Prevote sample_hash))
      = Ok (Some (sample_vote Precommit sample_hash))"
    by (simp add: receive_vote_def Let_def sample_handle_prevote sample_node1_fields sample_next_fields sample_sign [simplified]
        sample_node_fields sample_hash_def [symmetric])
  then show ?thesis by (simp add: sample_node2_def prod_eq_iff)
qed

lemma sample_node2_fields:
  "rt_pending sample_node2 = Some sample_next" "rt_chain sample_node2 = sample_chain"
  "rt_validators sample_node2 = sample_validators" "rt_precommits sample_node2 = []"
  "rt_consensus sample_node2 = sample_voted Prevote"
  by (simp_all add: sample_node2_def receive_vote_def Let_def sample_handle_prevote sample_node1_fields note_precommit_def)

lemma sample_net_certificate:
  "certificate_verify toy_ext \<lparr>cert_block = sample_next, cert_round = 0,
     cert_precommits = [sample_vote Precommit sample_hash]\<rparr> sample_validators = Ok ()"
proof -
  have "3 * total_voting_power sample_validators < 2 ^ 128" by (simp add: sample_total)
  from certificate_verify_iff [OF this] show ?thesis
    by (simp add: sample_next_fields good_vote_def sample_hash_def signers_def power_quorum_def sample_total
        signed_power_def sample_validators_def sample_id_def validator_powers_def hm_from_list_def hm_get0_def hm_get_def hm_insert_def total_voting_power_def)
qed

lemma sample_finalize:
  "rt_chain sample_node3 = sample_after"
  "receive_vote toy_ext sample_clock sample_node2 (sample_vote Precommit sample_hash) = (sample_node3, Ok None)"
proof -
  let ?rt = "note_phase sample_clock (bft_phase (sample_voted Prevote))
    (note_precommit (sample_node2\<lparr>rt_consensus := sample_voted Precommit\<rparr>) (sample_vote Precommit sample_hash))"
  have "rt_precommits ?rt = [sample_vote Precommit sample_hash]"
    by (simp add: note_precommit_def sample_node2_fields)
  then have "rt_chain (fst (finalize_pending toy_ext ?rt)) = sample_after
      \<and> snd (finalize_pending toy_ext ?rt) = Ok None"
    using sample_net_certificate sample_apply
    by (simp add: finalize_pending_def sample_node2_fields sample_handle_precommit sample_hash_def Let_def)
  then show "rt_chain sample_node3 = sample_after"
    "receive_vote toy_ext sample_clock sample_node2 (sample_vote Precommit sample_hash) = (sample_node3, Ok None)"
    by (simp_all add: sample_node3_def receive_vote_def Let_def sample_node2_fields sample_handle_precommit prod_eq_iff)
qed

text \<open>The run as steps of a network of one node.\<close>

abbreviation sample_signed :: "vote_type set \<Rightarrow> vote set" where
  "sample_signed ts \<equiv> (\<lambda>t. vote_of (sample_vote t sample_hash)) ` ts"

lemma sample_rooms: "roomy (ch_blocks sample_chain)" "roomy (ch_blocks sample_after)" "heights_linked (ch_blocks sample_chain)"
  by (simp_all add: roomy_def heights_linked_def sample_tip sample_after_def)

text \<open>Beside the validator, an observer that runs the same code with a key of its own and has no vote.\<close>

definition outsider :: wallet where
  "outsider = \<lparr>wal_signing_key = replicate 32 2\<rparr>"

abbreviation outsider_id :: string where
  "outsider_id \<equiv> wallet_address toy_ext outsider"

lemma ed25519_toy: "ed25519_public toy_ext k = k"
  by (simp add: toy_ext_def)

lemma outsider_not_sample: "outsider_id \<noteq> sample_id"
proof
  assume "outsider_id = sample_id"
  then have "wal_signing_key outsider = wal_signing_key sample_wallet"
    using hex_laws_toy unfolding wallet_address_def sample_id_def hex_laws_def
    by (metis ed25519_toy option.inject)
  then show False by (simp add: outsider_def sample_wallet_def replicate_eq_replicate)
qed

definition observer_node :: runtime where
  "observer_node = sample_node\<lparr>rt_validator := Local outsider\<rparr>"

definition sample_net :: "string \<Rightarrow> runtime" where
  "sample_net = (\<lambda>_. sample_node)(outsider_id := observer_node)"

lemma observer_node_new: "with_signer sample_clock sample_chain sample_validators (Local outsider) (uniform 10) = Ok observer_node"
  by (simp add: with_signer_def sample_new next_height_def sample_tip wrapping_add_def start_round_def Let_def
      sample_start_def observer_node_def sample_node_def sample_clock_def uniform_def)

lemma sample_net_start:
  "net_start toy_ext sample_validators {sample_id, outsider_id} sample_chain (sample_net, {})"
proof -
  have "\<exists>clk signer timeouts. signer_address toy_ext signer = v
      \<and> with_signer clk sample_chain sample_validators signer timeouts = Ok (sample_net v)" if "v \<in> {sample_id, outsider_id}" for v
  proof (cases "v = outsider_id")
    case True
    with observer_node_new show ?thesis
      by (intro exI [of _ sample_clock] exI [of _ "Local outsider"] exI [of _ "uniform 10"]) (simp add: sample_net_def)
  next
    case False
    with that sample_node_new show ?thesis
      by (intro exI [of _ sample_clock] exI [of _ "Local sample_wallet"] exI [of _ "uniform 10"]) (simp add: sample_net_def sample_id_def)
  qed
  then show ?thesis using sample_total_64 sample_rooms by (simp add: net_start_def)
qed

text \<open>The validator finalizes a block; the observer catches up with its certificate.\<close>

definition sample_finality :: finality_certificate where
  "sample_finality = \<lparr>cert_block = sample_next, cert_round = 0, cert_precommits = [sample_vote Precommit sample_hash]\<rparr>"

definition observer_synced :: "runtime_codec \<Rightarrow> runtime" where
  "observer_synced J = fst (apply_sync_certificates toy_ext J sample_clock observer_node [sample_finality])"

lemma observer_synced_chain: "rt_chain (observer_synced J) = sample_after"
proof -
  have schedule: "validate_scheduled_block toy_ext J sample_clock observer_node sample_next = Ok ()"
    using sample_schedule [of J]
    by (simp add: observer_node_def validate_scheduled_block_def check_block_frame_def sample_next_fields sample_tx_fields)
  have fields: "rt_chain observer_node = sample_chain" "rt_validators observer_node = sample_validators"
    by (simp_all add: observer_node_def sample_node_def)
  have "next_height sample_chain = 1" by (simp add: next_height_def sample_tip wrapping_add_def)
  then have loop: "sync_certificates_loop toy_ext J sample_clock observer_node 0 [sample_finality]
      = (observer_node\<lparr>rt_chain := sample_after, rt_finalized := rt_finalized observer_node @ [sample_finality]\<rparr>, Ok 1)"
    using sample_net_certificate sample_apply schedule
    by (simp add: sample_finality_def fields sample_next_fields)
  let ?rt = "observer_node\<lparr>rt_chain := sample_after, rt_finalized := rt_finalized observer_node @ [sample_finality]\<rparr>"
  obtain rt r where next_round: "start_next_height sample_clock ?rt = (rt, r)" by (cases "start_next_height sample_clock ?rt")
  then have "rt_chain rt = sample_after"
    by (auto simp: start_next_height_def clear_height_def reset_deadline_def Let_def split: result.splits prod.splits)
  then show ?thesis
    unfolding observer_synced_def apply_sync_certificates_def loop prod.case result.case next_round by (cases r) simp_all
qed

definition sample_net_done :: "runtime_codec \<Rightarrow> string \<Rightarrow> runtime" where
  "sample_net_done J = sample_net(sample_id := sample_node3, outsider_id := observer_synced J)"

lemma sample_net_run:
  "(net_step toy_ext J {sample_id, outsider_id})\<^sup>*\<^sup>* (sample_net, {}) (sample_net_done J, sample_signed {Prevote, Precommit})"
proof -
  let ?step = "net_step toy_ext J {sample_id, outsider_id}"
  have here: "sample_net sample_id = sample_node" "sample_net outsider_id = observer_node"
    using outsider_not_sample by (auto simp: sample_net_def)
  have "?step (sample_net, {}) (sample_net(sample_id := sample_node1), {} \<union> vote_of ` set [sample_vote Prevote sample_hash])"
    by (rule net_step [where i = "InProposal net_proposal" and clk = sample_clock])
      (simp_all add: here net_proposal_fields sample_receive_proposal sample_node1_fields sample_rooms)
  moreover have "?step (sample_net(sample_id := sample_node1), sample_signed {Prevote})
      (sample_net(sample_id := sample_node1, sample_id := sample_node2),
       sample_signed {Prevote} \<union> vote_of ` set [sample_vote Precommit sample_hash])"
    by (rule net_step [where i = "InVote (sample_vote Prevote sample_hash)" and clk = sample_clock])
      (simp_all add: sample_receive_prevote signed_now_def authentic_def sample_node2_fields sample_rooms)
  moreover have "?step (sample_net(sample_id := sample_node2), sample_signed {Prevote, Precommit})
      (sample_net(sample_id := sample_node2, sample_id := sample_node3), sample_signed {Prevote, Precommit} \<union> vote_of ` set [])"
    by (rule net_step [where i = "InVote (sample_vote Precommit sample_hash)" and clk = sample_clock])
      (simp_all add: signed_now_def authentic_def sample_finalize sample_rooms)
  moreover have "?step (sample_net(sample_id := sample_node3), sample_signed {Prevote, Precommit})
      (sample_net(sample_id := sample_node3, outsider_id := observer_synced J), sample_signed {Prevote, Precommit} \<union> vote_of ` set [])"
    by (rule net_step [where i = "InCertificates [sample_finality]" and clk = sample_clock])
      (use outsider_not_sample in \<open>simp_all add: sample_finality_def here authentic_def observer_synced_def [unfolded sample_finality_def]
         observer_synced_chain [unfolded observer_synced_def sample_finality_def] sample_rooms\<close>)
  ultimately show ?thesis
    by (simp add: insert_commute sample_net_done_def)
qed

lemma sample_few:
  "3 * signed_power sample_validators (val_id ` set sample_validators - {sample_id, outsider_id}) \<le> total_voting_power sample_validators"
  by (simp add: sample_validators_def sample_id_def signed_power_def)

lemma sample_net_done_nodes: "sample_net_done J sample_id = sample_node3" "sample_net_done J outsider_id = observer_synced J"
  using outsider_not_sample by (auto simp: sample_net_done_def)

subsection \<open>Properties\<close>

text \<open>
  C1.  Correct nodes never fork.  The correct nodes run this runtime without a restart (a node that
  restarts forgets its votes and locks and counts as faulty), from one chain and with one validator
  set; the validators that are not correct hold at most a third of the voting power.  Messages are
  lost, delayed, reordered and invented at will, rounds time out, nodes catch up by certificates and
  by certified snapshots; only votes of correct validators cannot be forged.  Then any two blocks of
  the same height in the chains of any two correct nodes, the first block of each chain apart, have
  the same hash; and they are the same block, or both carry the hash that their contents have, so
  that two different ones are a collision of the block hash.  (The first block can be the anchor of
  a snapshot, which carries no hash of its own.  Heights stay below the largest 64-bit number.)
\<close>

theorem no_fork:
  assumes "net_start E vs H c0 n0" and "(net_step E J H)\<^sup>*\<^sup>* n0 (N, S)"
    and "3 * signed_power vs (val_id ` set vs - H) \<le> total_voting_power vs"
    and "u \<in> H" and "b \<in> set (tl (ch_blocks (rt_chain (N u))))"
    and "v \<in> H" and "b' \<in> set (tl (ch_blocks (rt_chain (N v))))"
    and "blk_height b = blk_height b'"
  shows "blk_hash b = blk_hash b' \<and> (b = b' \<or> blk_hash b = calculate_hash E b \<and> blk_hash b' = calculate_hash E b')"
  using net.inv_reachable [OF assms(1,2)] assms(3-8) by (rule chains_agree)

text \<open>The validator and the observer end with the same block, each on its own path.\<close>

theorem no_fork_witness:
  "length (ch_blocks (rt_chain sample_node3)) = 2 \<and> length (ch_blocks (rt_chain (observer_synced toy_runtime_codec))) = 2
     \<and> blk_hash (ch_blocks (rt_chain sample_node3) ! 1) = blk_hash (ch_blocks (rt_chain (observer_synced toy_runtime_codec)) ! 1)"
proof -
  have chains: "ch_blocks (rt_chain sample_node3) = [block_genesis toy_ext, sample_next]"
    "ch_blocks (rt_chain (observer_synced toy_runtime_codec)) = [block_genesis toy_ext, sample_next]"
    by (simp_all add: sample_finalize observer_synced_chain sample_after_def)
  then show ?thesis
    using no_fork [OF sample_net_start sample_net_run [of toy_runtime_codec] sample_few, of sample_id
        "ch_blocks (rt_chain sample_node3) ! 1" outsider_id "ch_blocks (rt_chain (observer_synced toy_runtime_codec)) ! 1"]
    by (simp add: sample_net_done_nodes)
qed

text \<open>
  C2.  The ledger of a correct node holds certified blocks only: every block above the chain the
  node started with (or above the certified snapshot it installed) is the block of a finality
  certificate the node keeps, and that certificate verifies against the validator set.
\<close>

theorem runtime_chain_certified:
  assumes "net_start E vs H c0 n0" and "(net_step E J H)\<^sup>*\<^sup>* n0 (N, S)"
    and "v \<in> H" and "b \<in> set (tl (ch_blocks (rt_chain (N v))))" and "b \<notin> set (tl (ch_blocks c0))"
  shows "\<exists>c \<in> set (rt_finalized (N v)). cert_block c = b \<and> certificate_verify E c vs = Ok ()"
proof -
  have "node_inv E vs H c0 S v (N v)" using net.inv_reachable [OF assms(1,2)] assms(3) by (simp add: net_inv_def)
  then have ok: "chain_ok (ch_blocks c0) (bft_height (rt_consensus (N v))) (ch_blocks (rt_chain (N v))) (rt_finalized (N v))"
    and certs: "certs_ok E vs H S (rt_finalized (N v))" by (simp_all add: node_inv_def)
  from ok assms(4) show ?thesis
    by (cases rule: chain_ok_cases) (use assms(5) certs in \<open>auto simp: certs_ok_def\<close>)
qed

theorem runtime_chain_certified_witness:
  "\<exists>c \<in> set (rt_finalized sample_node3). cert_block c = sample_next \<and> certificate_verify toy_ext c sample_validators = Ok ()"
proof -
  have "sample_next \<in> set (tl (ch_blocks (rt_chain sample_node3)))" by (simp add: sample_finalize sample_after_def)
  then show ?thesis
    using runtime_chain_certified [OF sample_net_start sample_net_run, of sample_id sample_next]
    by (simp add: sample_tip sample_net_done_nodes)
qed

text \<open>
  C3.  A correct validator cannot be convicted of a double vote.  In a run in which the validators
  that misbehave hold at most a third of the voting power, and the correct ones run this runtime
  without a restart and with one validator set, evidence that verifies against a correct validator
  holds a vote, prevote or precommit, that this validator has never signed: it never signs two
  different votes for one height, round and type, so only a forged signature can get it slashed.
\<close>

theorem correct_never_slashed:
  assumes "net_start E vs H c0 n0" and "(net_step E J H)\<^sup>*\<^sup>* n0 (N, S)"
    and "3 * signed_power vs (val_id ` set vs - H) \<le> total_voting_power vs"
    and "evidence_verify E e = Ok ()" and v: "msg_validator_id (evd_first e) \<in> H"
  shows "vote_of (evd_first e) \<notin> S \<or> vote_of (evd_second e) \<notin> S"
proof (rule ccontr)
  let ?m = "evd_first e" and ?k = "evd_second e"
  let ?v = "msg_validator_id ?m" and ?h = "msg_height ?m" and ?r = "msg_round ?m"
  assume "\<not> ?thesis"
  then have both: "vote_of ?m \<in> S" "vote_of ?k \<in> S" by simp_all
  have ok: "signed_ok vs H S" using net.inv_reachable [OF assms(1,2)] by (simp add: net_inv_def)
  have same: "msg_validator_id ?k = ?v" "msg_height ?k = ?h" "msg_round ?k = ?r" "msg_vote_type ?k = msg_vote_type ?m"
    and diff: "msg_block_hash ?m \<noteq> msg_block_hash ?k"
    using assms(4) by (auto simp: evidence_verify_def split: if_splits)
  then have signed: "(?v, ?h, ?r, msg_vote_type ?m, msg_block_hash ?m) \<in> S"
    "(?v, ?h, ?r, msg_vote_type ?m, msg_block_hash ?k) \<in> S"
    using both by (auto simp: vote_of_def)
  show False
  proof (cases "msg_vote_type ?m")
    case Prevote
    with signed show False using signed_okD(1) [OF ok v] diff by metis
  next
    case Precommit
    have few: "3 * sum (hm_get0 (validator_powers vs)) (val_id ` set vs - H) \<le> total_voting_power vs"
      using assms(3) by (simp add: signed_power_def)
    have "polka vs H S ?h ?r (msg_block_hash ?m)" "polka vs H S ?h ?r (msg_block_hash ?k)"
      using signed signed_okD(2) [OF ok v] Precommit by simp_all
    from this [unfolded polka_def] few obtain u where "u \<in> H" "(u, ?h, ?r, Prevote, msg_block_hash ?m) \<in> S"
      "(u, ?h, ?r, Prevote, msg_block_hash ?k) \<in> S"
      by (rule lv.backed_overlap)
    with signed_okD(1) [OF ok] diff show False by blast
  qed
qed

text \<open>The precommit the validator signed in the run, beside one made with a stolen key.\<close>

definition framing_evidence :: double_vote_evidence where
  "framing_evidence = \<lparr>evd_first = sample_vote Precommit sample_hash, evd_second = sample_vote Precommit []\<rparr>"

lemma framing_evidence_ok: "evidence_verify toy_ext framing_evidence = Ok ()"
  using sample_hash_nonempty
  by (simp add: evidence_verify_def framing_evidence_def sample_vote_fields sample_hash_def)

theorem correct_never_slashed_witness:
  "evidence_verify toy_ext framing_evidence = Ok () \<and> vote_of (evd_first framing_evidence) \<in> sample_signed {Prevote, Precommit}
     \<and> vote_of (evd_second framing_evidence) \<notin> sample_signed {Prevote, Precommit}"
proof -
  have "msg_validator_id (evd_first framing_evidence) \<in> {sample_id, outsider_id}"
    by (simp add: framing_evidence_def sample_vote_fields)
  from correct_never_slashed [OF sample_net_start sample_net_run sample_few framing_evidence_ok this] framing_evidence_ok
  show ?thesis by (simp add: framing_evidence_def)
qed

end
