(* ===== verification/Progress.thy ===== *)
theory Progress
  imports Network
begin

text \<open>
  Progress of the runtime: a timeout leaves its round, unless the node's own certificate for the
  value it carries along is refused by the node itself.
\<close>

subsection \<open>The value a round change carries\<close>

text \<open>
  The valid block a node keeps can be carried to the next round: it is the next block, it passes
  the schedule check, and the prevotes the node has kept for it are a quorum.
\<close>

definition value_carried :: "ext \<Rightarrow> runtime_codec \<Rightarrow> clock \<Rightarrow> runtime \<Rightarrow> bool" where
  "value_carried E J clk rt \<longleftrightarrow>
     (case (rt_valid_block rt, valid_value (rt_consensus rt)) of
        (Some b, Some (x, r)) \<Rightarrow>
          blk_hash b = x \<and> prevote_certificate (rt_consensus rt) x r \<noteq> [] \<longrightarrow>
          ch_blocks (rt_chain rt) \<noteq> [] \<and> r \<le> bft_round (rt_consensus rt)
          \<and> blk_height b = bft_height (rt_consensus rt)
          \<and> blk_previous_hash b = blk_hash (last (ch_blocks (rt_chain rt)))
          \<and> validate_scheduled_block E J clk rt b = Ok ()
          \<and> check_prevotes E (rt_consensus rt) (bft_height (rt_consensus rt)) r x
              (prevote_certificate (rt_consensus rt) x r) = Ok ()
      | _ \<Rightarrow> True)"

lemma timeout_message_local:
  assumes "hex_laws E" and "ed25519_laws E" and "rt_validator rt = Local w" and "length (wal_signing_key w) = 32"
  obtains m where "timeout_message E rt = Ok m"
proof -
  have "\<exists>m. timeout_message E rt = Ok m"
    using verify_signature_signed [OF assms(1,2,4)] assms(3)
    by (simp add: timeout_message_def Let_def round_change_from_signature_with_valid_value_def round_change_verify_def)
  with that show ?thesis by blast
qed

lemma timeout_message_value:
  assumes "timeout_message E rt = Ok m" and "rc_valid_value m = Some c"
  obtains b x r where "rt_valid_block rt = Some b" and "valid_value (rt_consensus rt) = Some (x, r)" and "blk_hash b = x"
    and "c = \<lparr>rcv_block = b, rcv_valid_round = r, rcv_prevotes = prevote_certificate (rt_consensus rt) x r\<rparr>"
    and "prevote_certificate (rt_consensus rt) x r \<noteq> []"
  using assms
  by (auto simp: timeout_message_def Let_def round_change_from_signature_with_valid_value_def
      split: option.splits if_splits)

lemma adopt_own_value:
  assumes "timeout_message E rt = Ok m" and "value_carried E J clk rt"
  shows "snd (adopt_round_change_value E J clk rt m) = Ok ()"
proof (cases "rc_valid_value m")
  case (Some c)
  note c = this
  obtain b x r where b: "rt_valid_block rt = Some b" "valid_value (rt_consensus rt) = Some (x, r)" "blk_hash b = x"
    and c': "c = \<lparr>rcv_block = b, rcv_valid_round = r, rcv_prevotes = prevote_certificate (rt_consensus rt) x r\<rparr>"
    and "prevote_certificate (rt_consensus rt) x r \<noteq> []"
    using timeout_message_value [OF assms(1) Some] by blast
  with assms(2) have ok: "ch_blocks (rt_chain rt) \<noteq> []" "r \<le> bft_round (rt_consensus rt)"
    "blk_height b = bft_height (rt_consensus rt)" "blk_previous_hash b = blk_hash (last (ch_blocks (rt_chain rt)))"
    "validate_scheduled_block E J clk rt b = Ok ()"
    and adopt: "check_prevotes E (rt_consensus rt) (bft_height (rt_consensus rt)) r x
      (prevote_certificate (rt_consensus rt) x r) = Ok ()"
    by (simp_all add: value_carried_def)
  have "snd (adopt_valid_value E (rt_consensus rt) x r (prevote_certificate (rt_consensus rt) x r)) = Ok ()"
    using adopt by (simp add: adopt_valid_value_def)
  then show ?thesis
    using ok timeout_message_fields(1,2) [OF assms(1)] b c c'
    by (auto simp: adopt_round_change_value_def split: prod.splits result.splits)
qed (simp add: adopt_round_change_value_def)

lemma adopt_round_change_same:
  assumes "adopt_round_change_value E J clk rt m = (rt', r)"
  shows "bft_height (rt_consensus rt') = bft_height (rt_consensus rt)" and "bft_round (rt_consensus rt') = bft_round (rt_consensus rt)"
    and "rt_validators rt' = rt_validators rt"
proof -
  have "rt_validators rt' = rt_validators rt \<and> (rt_consensus rt' = rt_consensus rt
    \<or> (\<exists>x n vs q. adopt_valid_value E (rt_consensus rt) x n vs = (rt_consensus rt', q)))"
    using assms by (auto simp: adopt_round_change_value_def split: option.splits if_splits result.splits prod.splits)
  then show "bft_height (rt_consensus rt') = bft_height (rt_consensus rt)" "bft_round (rt_consensus rt') = bft_round (rt_consensus rt)"
    "rt_validators rt' = rt_validators rt"
    using adopt_same(1) unfolding same_machine_def by metis+
qed

lemma count_round_change_ok:
  assumes "rc_height m = bft_height (rt_consensus rt)" and "rc_round m = bft_round (rt_consensus rt)"
    and "bft_round (rt_consensus rt) + 1 < 2 ^ 32"
  obtains rt' f where "count_round_change clk rt m = (rt', Ok f)"
    and "bft_height (rt_consensus rt') = bft_height (rt_consensus rt)"
    and "bft_round (rt_consensus rt') = bft_round (rt_consensus rt) \<or> bft_round (rt_consensus rt') = bft_round (rt_consensus rt) + 1
      \<and> bft_phase (rt_consensus rt') = Propose"
proof -
  let ?n = "bft_round (rt_consensus rt)"
  obtain rt' res where c: "count_round_change clk rt m = (rt', res)" by (cases "count_round_change clk rt m")
  have add: "checked_add 32 ?n 1 = Some (?n + 1)" using assms(3) by (simp only: checked_add_def if_True)
  have "count_round_change clk rt m = (track_round_change rt m, Ok False)
    \<or> count_round_change clk rt m = enter_round clk (track_round_change rt m) (rc_height m) (?n + 1)"
    unfolding count_round_change_def Let_def assms(2) add ok_or.simps by (simp add: track_round_change_def)
  with c consider "rt' = track_round_change rt m" "res = Ok False"
    | "enter_round clk (track_round_change rt m) (rc_height m) (?n + 1) = (rt', res)" by (metis prod.inject)
  then show ?thesis
  proof cases
    case 1
    have "rt_consensus (track_round_change rt m) = rt_consensus rt" by (simp add: track_round_change_def)
    with 1 c show ?thesis by (intro that [of rt' False]) simp_all
  next
    case 2
    have "start_round (rt_consensus (track_round_change rt m)) (rc_height m) (?n + 1) \<noteq> (s, Err e)" for s e
      using assms(1) by (simp add: start_round_def track_round_change_def)
    with 2 have "res = Ok True \<and> bft_height (rt_consensus rt') = rc_height m \<and> bft_round (rt_consensus rt') = ?n + 1
      \<and> bft_phase (rt_consensus rt') = Propose"
      by (auto simp: enter_round_def start_round_def track_round_change_def Let_def assms(1) split: result.splits if_splits)
    with c assms(1) show ?thesis by (intro that [of rt' True]) simp_all
  qed
qed

lemma own_round_change_received:
  assumes m: "timeout_message E rt = Ok m" and carried: "value_carried E J clk rt"
    and own: "signer_address E (rt_validator rt) \<in> val_id ` set (rt_validators rt)"
    and round: "bft_round (rt_consensus rt) + 1 < 2 ^ 32"
  obtains rt' f where "receive_round_change E J clk rt m = (rt', Ok f)"
    and "bft_height (rt_consensus rt') = bft_height (rt_consensus rt)"
    and "bft_round (rt_consensus rt') = bft_round (rt_consensus rt) \<or> bft_round (rt_consensus rt') = bft_round (rt_consensus rt) + 1
      \<and> bft_phase (rt_consensus rt') = Propose"
proof -
  obtain rt1 where adopt: "adopt_round_change_value E J clk rt m = (rt1, Ok ())"
    using adopt_own_value [OF m carried] by (cases "adopt_round_change_value E J clk rt m") simp
  note same = adopt_round_change_same [OF adopt] and f = timeout_message_fields [OF m]
  obtain rt' b where count: "count_round_change clk rt1 m = (rt', Ok b)"
    and end_state: "bft_height (rt_consensus rt') = bft_height (rt_consensus rt)"
    "bft_round (rt_consensus rt') = bft_round (rt_consensus rt) \<or> bft_round (rt_consensus rt') = bft_round (rt_consensus rt) + 1
      \<and> bft_phase (rt_consensus rt') = Propose"
    using count_round_change_ok [of m rt1] same f(1,2) round by metis
  have "\<not> bft_round (rt_consensus rt) > saturating_add 32 (bft_round (rt_consensus rt)) MAX_FUTURE_ROUND_DISTANCE"
    using round unfolding saturating_add_def by linarith
  then have "receive_round_change E J clk rt m = (rt', Ok b)"
    using adopt count f own by (simp add: receive_round_change_def)
  with end_state that show ?thesis by blast
qed

subsection \<open>Timeouts\<close>

lemma on_timeout_advances:
  assumes "bft_round s + 1 < 2 ^ 32"
  obtains t where "on_timeout s = (t, Ok (bft_round s + 1))" and "bft_height t = bft_height s"
    and "bft_round t = bft_round s + 1" and "bft_phase t = Propose"
proof -
  have "checked_add 32 (bft_round s) 1 = Some (bft_round s + 1)" using assms by (simp only: checked_add_def if_True)
  then have "\<exists>t. on_timeout s = (t, Ok (bft_round s + 1)) \<and> bft_height t = bft_height s \<and> bft_round t = bft_round s + 1
      \<and> bft_phase t = Propose"
    unfolding on_timeout_def by (simp only: option.case) (simp add: start_round_def Let_def)
  with that show ?thesis by blast
qed

text \<open>
  C4.  Timeouts make progress.  When the deadline of a phase has passed and the height is not
  finalized, a registered validator with a local key leaves its round: the call succeeds, returns
  a round change for the other nodes that verifies, and the node waits for a proposal of a later
  round of the same height with a new deadline.  The condition is that the valid value the node
  carries along, if it has one, still passes the checks the node makes on such values; the next
  property shows what happens otherwise.
\<close>

theorem timeout_advances:
  assumes "hex_laws E" and "ed25519_laws E"
    and "rt_validator rt = Local w" and "length (wal_signing_key w) = 32"
    and "wallet_address E w \<in> val_id ` set (rt_validators rt)"
    and "rt_deadline rt \<le> now" and "bft_phase (rt_consensus rt) \<noteq> Finalized"
    and "bft_round (rt_consensus rt) + 1 < 2 ^ 32" and "value_carried E J clk rt"
  shows "\<exists>rt' m. timeout_if_due_with_round_change E J clk rt now = (rt', Ok (True, Some m))
    \<and> round_change_verify E m = Ok () \<and> rc_round m = bft_round (rt_consensus rt)
    \<and> bft_height (rt_consensus rt') = bft_height (rt_consensus rt)
    \<and> bft_round (rt_consensus rt') = bft_round (rt_consensus rt) + 1 \<and> bft_phase (rt_consensus rt') = Propose
    \<and> rt_deadline rt' = now + to_propose (rt_timeouts rt')"
proof -
  let ?n = "bft_round (rt_consensus rt)"
  obtain m where m: "timeout_message E rt = Ok m" using assms(1-4) by (rule timeout_message_local)
  obtain rt1 f where rc: "receive_round_change E J clk rt m = (rt1, Ok f)"
    and h: "bft_height (rt_consensus rt1) = bft_height (rt_consensus rt)"
    and r: "bft_round (rt_consensus rt1) = ?n \<or> bft_round (rt_consensus rt1) = ?n + 1 \<and> bft_phase (rt_consensus rt1) = Propose"
    using own_round_change_received [OF m assms(9) _ assms(8)] assms(3,5) by auto
  note f = timeout_message_fields [OF m]
  have due: "\<not> (now < rt_deadline rt \<or> bft_phase (rt_consensus rt) = Finalized)" using assms(6,7) by simp
  obtain t q where t: "(if bft_round (rt_consensus rt1) = rc_round m then on_timeout (rt_consensus rt1) else (rt_consensus rt1, Ok 0))
      = (t, Ok q)" "bft_height t = bft_height (rt_consensus rt)" "bft_round t = ?n + 1" "bft_phase t = Propose"
  proof (cases "bft_round (rt_consensus rt1) = ?n")
    case True
    with on_timeout_advances [of "rt_consensus rt1"] assms(8) f(2) h that show ?thesis by (metis (mono_tags))
  next
    case False
    with r h f(2) that show ?thesis by simp
  qed
  have "timeout_if_due_with_round_change E J clk rt now = (rt1\<lparr>rt_consensus := t, rt_pending := None, rt_precommits := [],
      rt_deadline := now + to_propose (rt_timeouts rt1)\<rparr>, Ok (True, Some m))"
    unfolding timeout_if_due_with_round_change_def if_not_P [OF due] m result.case rc prod.case t(1) ..
  with t f show ?thesis by simp
qed

theorem timeout_advances_witness:
  "\<exists>rt' m. timeout_if_due_with_round_change toy_ext toy_runtime_codec sample_clock sample_node 10 = (rt', Ok (True, Some m))
    \<and> bft_round (rt_consensus rt') = 1"
proof -
  have fields: "rt_validator sample_node = Local sample_wallet" "wallet_address toy_ext sample_wallet \<in> val_id ` set (rt_validators sample_node)"
    "rt_deadline sample_node \<le> 10" "bft_phase (rt_consensus sample_node) \<noteq> Finalized"
    "bft_round (rt_consensus sample_node) = 0" "rt_valid_block sample_node = None"
    by (simp_all add: sample_node_def sample_start_def sample_validators_def)
  then have "value_carried toy_ext toy_runtime_codec sample_clock sample_node" by (simp add: value_carried_def)
  moreover have "length (wal_signing_key sample_wallet) = 32" by (simp add: sample_wallet_def)
  moreover have "bft_round (rt_consensus sample_node) + 1 < 2 ^ 32" by (simp add: fields)
  ultimately show ?thesis
    using timeout_advances [where J = toy_runtime_codec and clk = sample_clock, OF hex_laws_toy ed25519_laws_toy fields(1) _ fields(2-4)]
      fields(5) by auto
qed

text \<open>
  A proposal that carries the prevotes of an earlier round replaces the valid value of the node, also
  when the node knows a later one, and the prevotes it came with are not kept.
\<close>

lemma handle_proposal_valid_value:
  assumes "handle_proposal E s p = (s', Ok ())" and "prop_valid_round p = Some r"
  shows "valid_value s' = Some (blk_hash (prop_block p), r)" and "prevote_certificate s' = prevote_certificate s"
  using assms
  by (auto simp: handle_proposal_def propose_def valid_value_def prevote_certificate_def fun_eq_iff Let_def
      split: if_splits result.splits)

text \<open>
  C40.  What blocks a timeout.  When the prevotes a node has kept for its valid value are some but
  no quorum, the node refuses its own round change: the timeout fails, the node stays in its round
  and the deadline stays in the past, so the next timeout fails in the same way.
\<close>

theorem timeout_blocked:
  assumes "rt_valid_block rt = Some b" and "valid_value (rt_consensus rt) = Some (blk_hash b, r)"
    and "prevote_certificate (rt_consensus rt) (blk_hash b) r \<noteq> []"
    and "check_prevotes E (rt_consensus rt) (bft_height (rt_consensus rt)) r (blk_hash b)
      (prevote_certificate (rt_consensus rt) (blk_hash b) r) = Err e"
    and "rt_deadline rt \<le> now" and "bft_phase (rt_consensus rt) \<noteq> Finalized"
  shows "\<exists>e'. timeout_if_due_with_round_change E J clk rt now = (rt, Err e')"
proof (cases "timeout_message E rt")
  case (Ok m)
  have "rc_valid_value m = Some \<lparr>rcv_block = b, rcv_valid_round = r,
      rcv_prevotes = prevote_certificate (rt_consensus rt) (blk_hash b) r\<rparr>"
    using Ok assms(1-3)
    by (auto simp: timeout_message_def Let_def round_change_from_signature_with_valid_value_def)
  moreover have "adopt_valid_value E (rt_consensus rt) (blk_hash b) r
      (prevote_certificate (rt_consensus rt) (blk_hash b) r) = (rt_consensus rt, Err e)"
    using assms(4) by (simp add: adopt_valid_value_def)
  ultimately have "\<exists>e'. adopt_round_change_value E J clk rt m = (rt, Err e')"
    by (auto simp: adopt_round_change_value_def split: result.splits)
  then have "\<exists>e'. receive_round_change E J clk rt m = (rt, Err e')"
    by (auto simp: receive_round_change_def split: result.splits)
  with Ok assms(5,6) show ?thesis by (auto simp: timeout_if_due_with_round_change_def)
qed (use assms(5,6) in \<open>auto simp: timeout_if_due_with_round_change_def\<close>)

text \<open>
  Two validators of equal power.  In round 0 the node saw one prevote for the block; in round 1 it
  saw both; in round 2 the other validator, which saw both prevotes of round 0, proposes the block
  with them.
\<close>

definition blocked_machine :: bft where
  "blocked_machine = sample_start\<lparr>bft_validators := [(sample_id, 1), (wallet_address toy_ext outsider, 1)],
     bft_total_power := 2, bft_height := 1, bft_round := 2, bft_phase := PrevotePhase,
     bft_vote_messages := [((1, 0, Prevote, sample_id), sample_vote Prevote sample_hash)],
     bft_valid_value := Some sample_hash, bft_valid_round := Some 0\<rparr>"

definition blocked_node :: runtime where
  "blocked_node = sample_node\<lparr>rt_consensus := blocked_machine, rt_valid_block := Some sample_next\<rparr>"

theorem timeout_blocked_witness:
  "\<exists>e'. timeout_if_due_with_round_change toy_ext toy_runtime_codec sample_clock blocked_node 10 = (blocked_node, Err e')"
proof -
  have fields: "rt_valid_block blocked_node = Some sample_next" "rt_consensus blocked_node = blocked_machine"
    "rt_deadline blocked_node \<le> 10" by (simp_all add: blocked_node_def sample_node_def)
  have v: "valid_value blocked_machine = Some (blk_hash sample_next, 0)" "bft_phase blocked_machine \<noteq> Finalized"
    "bft_height blocked_machine = 1"
    by (simp_all add: blocked_machine_def valid_value_def sample_hash_def)
  have c: "prevote_certificate blocked_machine (blk_hash sample_next) 0 = [sample_vote Prevote sample_hash]"
    by (simp add: prevote_certificate_def blocked_machine_def sample_hash_def)
  have "check_prevotes toy_ext blocked_machine 1 0 (blk_hash sample_next) [sample_vote Prevote sample_hash]
      = Err (EConsensus NoPrevoteQuorum)"
    by (simp add: check_prevotes_def prevote_step_def blocked_machine_def hm_get_def sample_hash_def checked_add_def saturating_mul_def)
  with c v fields show ?thesis by (intro timeout_blocked [of _ sample_next 0]) simp_all
qed

subsection \<open>A finalized block that cannot be executed\<close>

text \<open>
  A proposal is voted on after the schedule check, not after executing its transactions.  When the
  finalized block does not execute, the node has given up its candidate, has neither block nor
  certificate, and every later timeout does nothing.
\<close>

lemma invalid_block_stalls:
  assumes "rt_pending rt = Some b" and "handle E (rt_consensus rt) m = (s, Ok ())" and "bft_phase s = Finalized"
    and "apply_block E (rt_chain rt) b = Err e" and "receive_vote E clk rt m = (rt', r)"
  shows "(\<exists>e'. r = Err e') \<and> rt_pending rt' = None \<and> rt_chain rt' = rt_chain rt \<and> rt_finalized rt' = rt_finalized rt
    \<and> (\<forall>now. timeout_if_due_with_round_change E J clk rt' now = (rt', Ok (False, None)))"
proof -
  let ?rt = "note_phase clk (bft_phase (rt_consensus rt)) (note_precommit (rt\<lparr>rt_consensus := s\<rparr>) m)"
  have keep: "rt_pending ?rt = Some b" "rt_chain ?rt = rt_chain rt" "rt_finalized ?rt = rt_finalized rt" "rt_consensus ?rt = s"
    using assms(1) by (simp_all add: note_phase_def note_precommit_def Let_def reset_deadline_def split: option.splits)
  have "finalize_pending E ?rt = (rt', r)"
    using assms(2,3,5) keep(4) by (simp add: receive_vote_def Let_def)
  then have "rt' = ?rt\<lparr>rt_pending := None\<rparr> \<and> (\<exists>e'. r = Err e')"
    using assms(4) keep by (auto simp: finalize_pending_def Let_def split: if_splits result.splits)
  with keep assms(3) show ?thesis by (auto simp: timeout_if_due_with_round_change_def)
qed

end
