(* ===== verification/AccountSecurity.thy ===== *)
theory AccountSecurity
  imports Prelude
begin

text \<open>
  Accounts with several keys (\<^verbatim>\<open>src/src/account_security.rs\<close>): weighted keys with permissions, a
  threshold per permission, and the recovery of an account after a waiting time.  Signatures are
  not checked in this file; the caller passes the public keys whose signatures it verified.
\<close>

datatype permission = TransferPermission | HighValueTransfer | ValidatorPermission | AccountRecovery

record account_key =
  key_public_key :: string
  key_weight :: nat
  key_permissions :: "permission set"

record account_policy =
  pol_keys :: "account_key list"
  pol_thresholds :: "(permission, nat) hmap"
  pol_high_value_amount :: nat
  pol_policy_nonce :: nat

record authorization =
  auth_policy_nonce :: nat
  auth_signer_keys :: "string list"

text \<open>\<^verbatim>\<open>any\<close> stops at the first key with no weight or with a public key that was seen before.\<close>

fun bad_key :: "string set \<Rightarrow> account_key list \<Rightarrow> bool" where
  "bad_key unique [] = False"
| "bad_key unique (k # ks) =
     (key_weight k = 0 \<or> key_public_key k \<in> unique \<or> bad_key (insert (key_public_key k) unique) ks)"

text \<open>The weight of the keys that a condition selects, a sum of \<^verbatim>\<open>u16\<close> weights in 32 bits.\<close>

definition weight_of :: "account_policy \<Rightarrow> (account_key \<Rightarrow> bool) \<Rightarrow> nat" where
  "weight_of p selects = wrapping_sum 32 (map key_weight (filter selects (pol_keys p)))"

definition account_policy_validate :: "account_policy \<Rightarrow> unit result" where
  "account_policy_validate p =
     (if pol_keys p = [] then Err (EAccount NoKeys)
      else if bad_key {} (pol_keys p) then Err (EAccount BadKeys)
      else if list_ex (\<lambda>(permission, threshold). threshold = 0
          \<or> threshold > weight_of p (\<lambda>k. permission \<in> key_permissions k)) (pol_thresholds p)
      then Err (EAccount BadThreshold) else Ok ())"

definition authorize :: "account_policy \<Rightarrow> permission \<Rightarrow> authorization \<Rightarrow> unit result" where
  "authorize p permission authorization =
     rbind (account_policy_validate p) (\<lambda>_.
     if auth_policy_nonce authorization \<noteq> pol_policy_nonce p then Err (EAccount StalePolicy) else
     rbind (ok_or (hm_get (pol_thresholds p) permission) (EAccount NoThreshold)) (\<lambda>threshold.
     if weight_of p (\<lambda>k. key_public_key k \<in> set (auth_signer_keys authorization)
          \<and> permission \<in> key_permissions k) < threshold
     then Err (EAccount WeightTooLow) else Ok ()))"

definition transfer_permission :: "account_policy \<Rightarrow> nat \<Rightarrow> permission" where
  "transfer_permission p amount =
     (if amount \<ge> pol_high_value_amount p then HighValueTransfer else TransferPermission)"

record recovery_request =
  rq_account :: string
  rq_new_keys :: "account_key list"
  rq_execute_after_height :: nat
  rq_authorization :: authorization

definition recovery_request_verify :: "recovery_request \<Rightarrow> account_policy \<Rightarrow> nat \<Rightarrow> unit result" where
  "recovery_request_verify rq policy current_height =
     (if current_height < rq_execute_after_height rq then Err (EAccount RecoveryTooEarly)
      else if rq_new_keys rq = [] then Err (EAccount NoNewKeys)
      else authorize policy AccountRecovery (rq_authorization rq))"

subsection \<open>What a valid policy guarantees\<close>

definition small_weights :: "account_policy \<Rightarrow> bool" where
  "small_weights p \<longleftrightarrow> (\<Sum>k \<leftarrow> pol_keys p. key_weight k) < 2 ^ 32"

lemma bad_key_iff:
  "\<not> bad_key seen ks \<longleftrightarrow> (\<forall>k \<in> set ks. key_weight k \<noteq> 0 \<and> key_public_key k \<notin> seen)
     \<and> distinct (map key_public_key ks)"
  by (induction ks arbitrary: seen) (auto simp: image_iff)

lemma weight_of_exact:
  assumes "small_weights p"
  shows "weight_of p P = (\<Sum>k \<leftarrow> filter P (pol_keys p). key_weight k)"
proof -
  have "(\<Sum>k \<leftarrow> filter P ks. key_weight k) \<le> (\<Sum>k \<leftarrow> ks. key_weight k)" for ks
    by (induction ks) auto
  then have "(\<Sum>k \<leftarrow> filter P (pol_keys p). key_weight k) < 2 ^ 32"
    using assms unfolding small_weights_def by (rule le_less_trans)
  then show ?thesis unfolding weight_of_def by (rule wrapping_sum_exact)
qed

text \<open>The weight behind an authorization, each registered key counted once.\<close>

definition signer_weight :: "account_policy \<Rightarrow> permission \<Rightarrow> string set \<Rightarrow> nat" where
  "signer_weight p permission signers =
     (\<Sum>k \<in> {k \<in> set (pol_keys p). key_public_key k \<in> signers \<and> permission \<in> key_permissions k}. key_weight k)"

lemma weight_of_signers:
  assumes "small_weights p" and "account_policy_validate p = Ok ()"
  shows "weight_of p (\<lambda>k. key_public_key k \<in> S \<and> permission \<in> key_permissions k) = signer_weight p permission S"
proof -
  have "distinct (map key_public_key (pol_keys p))"
    using assms(2) bad_key_iff [of "{}" "pol_keys p"] by (auto simp: account_policy_validate_def split: if_splits)
  then have "distinct (pol_keys p)" by (simp add: distinct_map)
  then show ?thesis
    unfolding weight_of_exact [OF assms(1)] signer_weight_def
    by (simp add: sum_list_distinct_conv_sum_set flip: set_filter)
qed

text \<open>
  Authorization is exact.  For a policy whose weights fit 32 bits, an action is allowed if and
  only if the policy is valid, the authorization names the current policy, the permission has a
  threshold, and the registered keys among the signers that hold the permission reach it; repeated
  or unregistered signers add nothing.
\<close>

theorem authorize_exact:
  assumes "small_weights p"
  shows "authorize p permission a = Ok () \<longleftrightarrow> account_policy_validate p = Ok ()
    \<and> auth_policy_nonce a = pol_policy_nonce p
    \<and> (\<exists>t. hm_get (pol_thresholds p) permission = Some t
         \<and> t \<le> signer_weight p permission (set (auth_signer_keys a)))"
  using weight_of_signers [OF assms]
  by (cases "hm_get (pol_thresholds p) permission"; cases "account_policy_validate p") (auto simp: authorize_def)

text \<open>The policy of the tests: three keys of weight 1, high values need two.\<close>

definition sample_policy :: account_policy where
  "sample_policy = \<lparr>pol_keys = map (\<lambda>i. \<lparr>key_public_key = i, key_weight = 1,
       key_permissions = {TransferPermission, HighValueTransfer, AccountRecovery}\<rparr>) [''key-1'', ''key-2'', ''key-3''],
     pol_thresholds = [(TransferPermission, 1), (HighValueTransfer, 2), (AccountRecovery, 2)],
     pol_high_value_amount = 1000, pol_policy_nonce = 7\<rparr>"

theorem authorize_exact_witness:
  "authorize sample_policy HighValueTransfer \<lparr>auth_policy_nonce = 7, auth_signer_keys = [''key-1'', ''key-1'']\<rparr> \<noteq> Ok ()"
proof -
  have "signer_weight sample_policy HighValueTransfer {''key-1''} = 1"
  proof -
    have "{k \<in> set (pol_keys sample_policy). key_public_key k \<in> {''key-1''} \<and> HighValueTransfer \<in> key_permissions k}
        = {\<lparr>key_public_key = ''key-1'', key_weight = 1, key_permissions = {TransferPermission, HighValueTransfer, AccountRecovery}\<rparr>}"
      by (auto simp: sample_policy_def)
    then show ?thesis unfolding signer_weight_def by simp
  qed
  moreover have "small_weights sample_policy" by (simp add: small_weights_def sample_policy_def)
  moreover have "hm_get (pol_thresholds sample_policy) HighValueTransfer = Some 2" by (simp add: sample_policy_def hm_get_def)
  ultimately show ?thesis using authorize_exact [of sample_policy HighValueTransfer] by simp
qed

text \<open>A permission with a threshold in a valid policy can be exercised: all keys together suffice.\<close>

lemma authorize_possible:
  assumes "account_policy_validate p = Ok ()" and "hm_get (pol_thresholds p) permission = Some t"
  shows "authorize p permission \<lparr>auth_policy_nonce = pol_policy_nonce p,
    auth_signer_keys = map key_public_key (pol_keys p)\<rparr> = Ok ()"
proof -
  have "(permission, t) \<in> set (pol_thresholds p)" using assms(2) by (rule hm_get_in_set)
  then have "t \<le> weight_of p (\<lambda>k. permission \<in> key_permissions k)"
    using assms(1) by (fastforce simp: account_policy_validate_def list_ex_iff split: if_splits)
  moreover have "filter (\<lambda>k. key_public_key k \<in> key_public_key ` set (pol_keys p) \<and> permission \<in> key_permissions k) (pol_keys p)
      = filter (\<lambda>k. permission \<in> key_permissions k) (pol_keys p)"
    by (rule filter_cong) auto
  ultimately show ?thesis using assms by (simp add: authorize_def weight_of_def)
qed

end
