(* ===== verification/PeerServices.thy ===== *)
theory PeerServices
  imports Model "HOL-Library.Sublist"
begin

text \<open>
  Two services around the peer-to-peer network: the inbox of encrypted signalling messages between
  wallets (\<^verbatim>\<open>src/src/communication.rs\<close>), and the guard that blocks misbehaving peers for a while
  (\<^verbatim>\<open>src/src/peer_guard.rs\<close>).  Times are seconds or instants as natural numbers; the clock is an
  argument.
\<close>

subsection \<open>Signalling messages\<close>

definition MAX_ENCRYPTED_SIGNAL_BYTES :: nat where
  "MAX_ENCRYPTED_SIGNAL_BYTES = 64 * 1024"

definition MAX_SIGNAL_TTL_SECONDS :: nat where
  "MAX_SIGNAL_TTL_SECONDS = 120"

definition MAX_PENDING_SIGNALS :: nat where
  "MAX_PENDING_SIGNALS = 256"

definition MAX_SEEN_SIGNAL_IDS :: nat where
  "MAX_SEEN_SIGNAL_IDS = 1024"

datatype communication_kind =
    CallInvite | CallAccept | CallReject | WebRtcOffer | WebRtcAnswer | IceCandidate | Hangup | EncryptedChat

record communication_envelope =
  env_id :: string
  env_sender_peer_id :: string
  env_target_peer_id :: string
  env_kind :: communication_kind
  env_created_at :: nat
  env_expires_at :: nat
  env_encrypted_payload_hex :: string

definition ascii_alphanumeric :: "char \<Rightarrow> bool" where
  "ascii_alphanumeric c =
     (let n = of_char c :: nat
      in 48 \<le> n \<and> n \<le> 57 \<or> 65 \<le> n \<and> n \<le> 90 \<or> 97 \<le> n \<and> n \<le> 122)"

definition is_safe_id :: "string \<Rightarrow> bool" where
  "is_safe_id text = list_all (\<lambda>c. ascii_alphanumeric c \<or> c = CHR ''-'' \<or> c = CHR ''_'') text"

definition envelope_validate :: "ext \<Rightarrow> communication_envelope \<Rightarrow> nat \<Rightarrow> unit result" where
  "envelope_validate E m now =
     (if length (env_id m) < 16 \<or> length (env_id m) > 128 \<or> \<not> is_safe_id (env_id m)
      then Err (ESignal BadSignalId)
      else if env_target_peer_id m = [] \<or> length (env_target_peer_id m) > 128
      then Err (ESignal BadSignalTarget)
      else if env_expires_at m \<le> env_created_at m
        \<or> saturating_sub (env_expires_at m) (env_created_at m) > MAX_SIGNAL_TTL_SECONDS
        \<or> env_expires_at m < now
      then Err (ESignal SignalExpired)
      else if length (env_encrypted_payload_hex m) mod 2 \<noteq> 0
        \<or> length (env_encrypted_payload_hex m) div 2 > MAX_ENCRYPTED_SIGNAL_BYTES
        \<or> hex_decode E (env_encrypted_payload_hex m) = None
      then Err (ESignal BadSignalPayload) else Ok ())"

record communication_inbox =
  inb_items :: "communication_envelope list"
  inb_seen :: "string set"
  inb_seen_order :: "string list"

definition inbox_default :: communication_inbox where
  "inbox_default = \<lparr>inb_items = [], inb_seen = {}, inb_seen_order = []\<rparr>"

text \<open>\<^verbatim>\<open>while seen_order.len() > MAX { pop_front; seen.remove }\<close>\<close>

function forget_old :: "string set \<Rightarrow> string list \<Rightarrow> string set \<times> string list" where
  "forget_old seen [] = (seen, [])"
| "forget_old seen (i # order) =
     (if length (i # order) > MAX_SEEN_SIGNAL_IDS then forget_old (seen - {i}) order else (seen, i # order))"
  by pat_completeness auto
termination by (relation "measure (length \<circ> snd)") auto

text \<open>\<^verbatim>\<open>while items.len() >= MAX { pop_front }\<close>\<close>

function make_room :: "communication_envelope list \<Rightarrow> communication_envelope list" where
  "make_room [] = []"
| "make_room (m # items) =
     (if length (m # items) \<ge> MAX_PENDING_SIGNALS then make_room items else m # items)"
  by pat_completeness auto
termination by (relation "measure length") auto

definition inbox_push ::
  "ext \<Rightarrow> communication_inbox \<Rightarrow> communication_envelope \<Rightarrow> nat \<Rightarrow> communication_inbox \<times> unit result" where
  "inbox_push E inbox m now =
     (case envelope_validate E m now of Err e \<Rightarrow> (inbox, Err e) | Ok _ \<Rightarrow>
      if env_id m \<in> inb_seen inbox then (inbox, Err (ESignal SignalSeen)) else
      let (seen, order) = forget_old (insert (env_id m) (inb_seen inbox)) (inb_seen_order inbox @ [env_id m])
      in (\<lparr>inb_items = make_room (inb_items inbox) @ [m], inb_seen = seen, inb_seen_order = order\<rparr>, Ok ()))"

definition inbox_drain :: "communication_inbox \<Rightarrow> communication_inbox \<times> communication_envelope list" where
  "inbox_drain inbox = (inbox\<lparr>inb_items := []\<rparr>, inb_items inbox)"

subsection \<open>The peer guard\<close>

definition BAN_SCORE :: int where
  "BAN_SCORE = 100"

datatype peer_decision = Allow | TemporarilyBlocked

record peer_record =
  pr_score :: int
  pr_blocked_until :: "nat option"

record peer_guard =
  pg_peers :: "(string, peer_record) hmap"
  pg_ban_duration :: nat

definition peer_guard_new :: "nat \<Rightarrow> peer_guard" where
  "peer_guard_new ban_duration = \<lparr>pg_peers = [], pg_ban_duration = ban_duration\<rparr>"

definition guard_check :: "peer_guard \<Rightarrow> string \<Rightarrow> nat \<Rightarrow> peer_guard \<times> peer_decision" where
  "guard_check g peer now =
     (case hm_get (pg_peers g) peer of
        None \<Rightarrow> (g, Allow)
      | Some r \<Rightarrow>
          (case pr_blocked_until r of
             None \<Rightarrow> (g, Allow)
           | Some until \<Rightarrow>
               if now < until then (g, TemporarilyBlocked)
               else (g\<lparr>pg_peers := hm_insert (pg_peers g) peer \<lparr>pr_score = 0, pr_blocked_until = None\<rparr>\<rparr>, Allow)))"

text \<open>\<^verbatim>\<open>i32::saturating_add\<close> of a score and points that are not negative.\<close>

definition saturating_add_i32 :: "int \<Rightarrow> int \<Rightarrow> int" where
  "saturating_add_i32 a b = max (- (2 ^ 31)) (min (2 ^ 31 - 1) (a + b))"

definition penalize :: "peer_guard \<Rightarrow> string \<Rightarrow> int \<Rightarrow> nat \<Rightarrow> peer_guard \<times> peer_decision" where
  "penalize g peer points now =
     (let r = (case hm_get (pg_peers g) peer of None \<Rightarrow> \<lparr>pr_score = 0, pr_blocked_until = None\<rparr> | Some r \<Rightarrow> r);
          r1 = r\<lparr>pr_score := saturating_add_i32 (pr_score r) (max points 0)\<rparr>
      in if pr_score r1 \<ge> BAN_SCORE
         then (g\<lparr>pg_peers := hm_insert (pg_peers g) peer (r1\<lparr>pr_blocked_until := Some (now + pg_ban_duration g)\<rparr>)\<rparr>,
               TemporarilyBlocked)
         else (g\<lparr>pg_peers := hm_insert (pg_peers g) peer r1\<rparr>, Allow))"

definition guard_reward :: "peer_guard \<Rightarrow> string \<Rightarrow> peer_guard" where
  "guard_reward g peer =
     (case hm_get (pg_peers g) peer of
        None \<Rightarrow> g
      | Some r \<Rightarrow> g\<lparr>pg_peers := hm_insert (pg_peers g) peer (r\<lparr>pr_score := max (pr_score r - 1) 0\<rparr>)\<rparr>)"

subsection \<open>Laws\<close>

lemma make_room_drop: "make_room items = drop (length items - (MAX_PENDING_SIGNALS - 1)) items"
proof (induction items)
  case (Cons m items)
  show ?case
  proof (cases "MAX_PENDING_SIGNALS \<le> length (m # items)")
    case True
    then obtain k where "length items = k + (MAX_PENDING_SIGNALS - 1)"
      by (metis One_nat_def diff_Suc_eq_diff_pred le_add_diff_inverse2 length_Cons le_diff_conv add.commute plus_1_eq_Suc)
    with Cons True show ?thesis by (simp add: MAX_PENDING_SIGNALS_def)
  qed (use Cons in \<open>auto simp: MAX_PENDING_SIGNALS_def\<close>)
qed simp

lemma forget_old_drop:
  assumes "distinct order"
  shows "forget_old (set order) order
    = (set (drop (length order - MAX_SEEN_SIGNAL_IDS) order), drop (length order - MAX_SEEN_SIGNAL_IDS) order)"
  using assms
proof (induction order)
  case (Cons i order)
  have "set (i # order) - {i} = set order" using Cons.prems by auto
  with Cons show ?case by (simp add: Suc_diff_le del: set_simps)
qed simp

text \<open>
  An inbox together with the ids of all messages it ever took, oldest first: messages arrive in any
  order, repeated or invalid, and are drained at any time.
\<close>

inductive inbox_run :: "ext \<Rightarrow> communication_inbox \<Rightarrow> string list \<Rightarrow> bool" for E where
  start: "inbox_run E inbox_default []"
| push: "inbox_run E inbox taken \<Longrightarrow> inbox_push E inbox m now = (inbox', Ok ()) \<Longrightarrow>
     inbox_run E inbox' (taken @ [env_id m])"
| refuse: "inbox_run E inbox taken \<Longrightarrow> inbox_push E inbox m now = (inbox', Err e) \<Longrightarrow> inbox_run E inbox' taken"
| drain: "inbox_run E inbox taken \<Longrightarrow> inbox_run E (fst (inbox_drain inbox)) taken"

definition inbox_inv :: "communication_inbox \<Rightarrow> string list \<Rightarrow> bool" where
  "inbox_inv inbox taken \<longleftrightarrow> inb_seen_order inbox = drop (length taken - MAX_SEEN_SIGNAL_IDS) taken
     \<and> inb_seen inbox = set (inb_seen_order inbox) \<and> distinct (inb_seen_order inbox)
     \<and> length (inb_items inbox) \<le> MAX_PENDING_SIGNALS
     \<and> suffix (map env_id (inb_items inbox)) (inb_seen_order inbox)"

lemma inbox_invD:
  assumes "inbox_inv inbox taken"
  shows "inb_seen_order inbox = drop (length taken - MAX_SEEN_SIGNAL_IDS) taken"
    and "inb_seen inbox = set (inb_seen_order inbox)" and "distinct (inb_seen_order inbox)"
    and "length (inb_items inbox) \<le> MAX_PENDING_SIGNALS"
    and "suffix (map env_id (inb_items inbox)) (inb_seen_order inbox)"
  using assms unfolding inbox_inv_def by blast+

lemma inbox_push_Ok:
  assumes "inbox_push E inbox m now = (inbox', Ok ())"
  shows "envelope_validate E m now = Ok ()" and "env_id m \<notin> inb_seen inbox"
    and "inb_items inbox' = make_room (inb_items inbox) @ [m]"
    and "(inb_seen inbox', inb_seen_order inbox')
      = forget_old (insert (env_id m) (inb_seen inbox)) (inb_seen_order inbox @ [env_id m])"
  using assms by (auto simp: inbox_push_def split: result.splits if_splits prod.splits)

lemma inbox_push_Err: "inbox_push E inbox m now = (inbox', Err e) \<Longrightarrow> inbox' = inbox"
  by (auto simp: inbox_push_def split: result.splits if_splits prod.splits)

lemma suffix_snoc_drop:
  assumes "suffix xs ys" and "length xs \<le> n" and "n \<le> m" and "0 < n"
  shows "suffix (drop (length xs - (n - 1)) xs @ [z]) (drop (length ys + 1 - m) (ys @ [z]))"
proof -
  obtain zs where ys: "ys = zs @ xs" using assms(1) by (auto simp: suffix_def)
  show ?thesis
  proof (cases "length ys + 1 - m \<le> length zs")
    case True
    then have "drop (length ys + 1 - m) (ys @ [z]) = drop (length ys + 1 - m) zs @ xs @ [z]" by (simp add: ys)
    moreover have "suffix (drop k xs @ [z]) (zs' @ xs @ [z])" for k zs'
      by (metis append.assoc append_take_drop_id suffix_def)
    ultimately show ?thesis by simp
  next
    case False
    then have "length zs = length ys - length xs" "length ys + 1 - m > length ys - length xs" by (simp_all add: ys)
    with assms(2,3) have k: "length ys + 1 - m - length zs = length xs + 1 - m" "m = n" "length xs = n" by auto
    then have "drop (length ys + 1 - m) (ys @ [z]) = drop (length xs - (n - 1)) xs @ [z]"
      using False assms(4) by (cases n) (auto simp: ys Suc_diff_le not_le)
    then show ?thesis by simp
  qed
qed

lemma inbox_push_inv:
  assumes "inbox_inv inbox taken" and "inbox_push E inbox m now = (inbox', Ok ())"
  shows "inbox_inv inbox' (taken @ [env_id m])"
proof -
  note p = inbox_push_Ok [OF assms(2)]
  let ?order = "inb_seen_order inbox"
  note ord = inbox_invD [OF assms(1)]
  have d: "distinct (?order @ [env_id m])" using ord p(2) by simp
  have set: "insert (env_id m) (inb_seen inbox) = set (?order @ [env_id m])" using ord by simp
  have n: "inb_seen_order inbox' = drop (length ?order + 1 - MAX_SEEN_SIGNAL_IDS) (?order @ [env_id m])"
    "inb_seen inbox' = set (inb_seen_order inbox')"
    using p(4) forget_old_drop [OF d] unfolding set by simp_all
  have "length ?order = min (length taken) MAX_SEEN_SIGNAL_IDS" by (simp add: ord(1))
  then have "inb_seen_order inbox' = drop (length (taken @ [env_id m]) - MAX_SEEN_SIGNAL_IDS) (taken @ [env_id m])"
    unfolding n(1) ord(1) by (cases "length taken < MAX_SEEN_SIGNAL_IDS") (simp_all add: not_less Suc_diff_le)
  moreover have "suffix (map env_id (inb_items inbox')) (inb_seen_order inbox')"
    using suffix_snoc_drop [OF ord(5), of MAX_PENDING_SIGNALS MAX_SEEN_SIGNAL_IDS "env_id m"] ord(4)
    by (simp add: p(3) n(1) make_room_drop drop_map MAX_PENDING_SIGNALS_def MAX_SEEN_SIGNAL_IDS_def)
  moreover have "distinct (inb_seen_order inbox')" using d unfolding n(1) by (rule distinct_drop)
  moreover have "length (inb_items inbox') \<le> MAX_PENDING_SIGNALS"
    by (simp add: p(3) make_room_drop MAX_PENDING_SIGNALS_def)
  ultimately show ?thesis using n(2) by (simp add: inbox_inv_def)
qed

lemma inbox_run_inv: "inbox_run E inbox taken \<Longrightarrow> inbox_inv inbox taken"
proof (induction rule: inbox_run.induct)
  case start
  show ?case by (simp add: inbox_inv_def inbox_default_def)
next
  case (push inbox taken m now inbox')
  then show ?case by (blast intro: inbox_push_inv)
next
  case (refuse inbox taken m now inbox' e)
  then show ?case using inbox_push_Err by blast
next
  case (drain inbox taken)
  note inv = inbox_invD [OF drain.IH]
  show ?case unfolding inbox_inv_def inbox_drain_def fst_conv by (intro conjI) (simp_all add: inv(2,3) flip: inv(1))
qed

text \<open>
  Signals are not replayed.  Whatever arrives and whenever it is drained, the inbox holds at most
  256 messages with different ids, and it refuses a message whose id is among the last 1024 it took.
\<close>

theorem inbox_no_replay:
  assumes "inbox_run E inbox taken"
  shows "length (inb_items inbox) \<le> MAX_PENDING_SIGNALS \<and> distinct (map env_id (inb_items inbox))
    \<and> (\<forall>m now. env_id m \<in> set (drop (length taken - MAX_SEEN_SIGNAL_IDS) taken)
         \<longrightarrow> (\<exists>e. inbox_push E inbox m now = (inbox, Err e)))"
proof -
  note inv = inbox_invD [OF inbox_run_inv [OF assms]]
  have "distinct (map env_id (inb_items inbox))" using inv(3,5) by (auto simp: suffix_def)
  moreover have "\<exists>e. inbox_push E inbox m now = (inbox, Err e)" if "env_id m \<in> inb_seen inbox" for m now
    using that by (cases "envelope_validate E m now") (simp_all add: inbox_push_def)
  ultimately show ?thesis using inv(1,2,4) by metis
qed

text \<open>
  A peer whose score reaches the limit is blocked for the whole ban, also when it earns points back
  meanwhile, and starts again with no score afterwards.
\<close>

definition blocked_until :: "peer_guard \<Rightarrow> string \<Rightarrow> nat option" where
  "blocked_until g peer = Option.bind (hm_get (pg_peers g) peer) pr_blocked_until"

lemma penalize_blocks:
  "penalize g peer points now = (g', TemporarilyBlocked) \<Longrightarrow> blocked_until g' peer = Some (now + pg_ban_duration g)"
  by (auto simp: penalize_def blocked_until_def Let_def split: if_splits)

lemma guard_reward_blocked: "blocked_until (guard_reward g peer) p = blocked_until g p"
  by (auto simp: guard_reward_def blocked_until_def split: option.splits)

lemma guard_check_blocked:
  "snd (guard_check g peer now) = TemporarilyBlocked \<longleftrightarrow> (\<exists>t. blocked_until g peer = Some t \<and> now < t)"
  by (auto simp: guard_check_def blocked_until_def split: option.splits)

lemma guard_check_forgives:
  assumes "blocked_until g peer = Some t" and "t \<le> now"
  shows "hm_get (pg_peers (fst (guard_check g peer now))) peer = Some \<lparr>pr_score = 0, pr_blocked_until = None\<rparr>"
  using assms by (auto simp: guard_check_def blocked_until_def bind_eq_Some_conv)

end
