(* ===== verification/Modules.thy ===== *)
theory Modules
  imports Model
begin

text \<open>
  Application modules and their state (\<^verbatim>\<open>src/src/modules.rs\<close>) and the pruning policy of a node
  (\<^verbatim>\<open>src/src/operations.rs\<close>).  A module is an object of the trait \<^verbatim>\<open>AppModule\<close>, a record of its
  functions; a migration likewise.  A function that fails may already have changed the context it
  was given, so it returns the context and the result.
\<close>

subsection \<open>Context and modules\<close>

record module_context =
  mc_chain_id :: nat
  mc_height :: nat
  mc_state :: "(string, u8 list) hmap"
  mc_events :: "string list"

definition module_key_char :: "char \<Rightarrow> bool" where
  "module_key_char c =
     (let n = of_char c :: nat
      in 48 \<le> n \<and> n \<le> 57 \<or> 65 \<le> n \<and> n \<le> 90 \<or> 97 \<le> n \<and> n \<le> 122 \<or> c \<in> set ''-_:.'')"

definition module_put :: "module_context \<Rightarrow> string \<Rightarrow> string \<Rightarrow> u8 list \<Rightarrow> module_context \<times> unit result" where
  "module_put context prefix_text key data =
     (if \<not> list_all module_key_char key then (context, Err (EModule BadModuleKey))
      else (context\<lparr>mc_state := hm_insert (mc_state context) (prefix_text @ key) data\<rparr>, Ok ()))"

text \<open>The bytes that \<^verbatim>\<open>state_root\<close> hashes: the entries in the order of their keys, with lengths.\<close>

definition state_entry_bytes :: "string \<times> u8 list \<Rightarrow> u8 list" where
  "state_entry_bytes = (\<lambda>(key, data).
     be_bytes 8 (length key) @ as_bytes key @ be_bytes 8 (length data) @ data)"

definition state_root_bytes :: "module_context \<Rightarrow> u8 list" where
  "state_root_bytes context = concat (map state_entry_bytes (sort_key fst (mc_state context)))"

definition module_state_root :: "ext \<Rightarrow> module_context \<Rightarrow> string" where
  "module_state_root E context = hex_encode E (sha256 E (state_root_bytes context))"

record app_module =
  am_name :: string
  am_prefix :: string
  am_validate :: "u8 list \<Rightarrow> module_context \<Rightarrow> unit result"
  am_execute :: "u8 list \<Rightarrow> module_context \<Rightarrow> module_context \<times> unit result"

type_synonym module_router = "(string, app_module) hmap"

definition register_module :: "module_router \<Rightarrow> app_module \<Rightarrow> module_router result" where
  "register_module router m =
     (if am_prefix m = [] \<or> last (am_prefix m) \<noteq> CHR ''/'' \<or> hm_contains router (am_name m)
      then Err (EModule BadModule)
      else Ok (hm_insert router (am_name m) m))"

definition dispatch ::
  "module_router \<Rightarrow> string \<Rightarrow> u8 list \<Rightarrow> module_context \<Rightarrow> module_context \<times> unit result" where
  "dispatch router name payload context =
     (case hm_get router name of
        None \<Rightarrow> (context, Err (EModule UnknownModule))
      | Some handler \<Rightarrow>
          (case am_validate handler payload context of
             Err e \<Rightarrow> (context, Err e)
           | Ok _ \<Rightarrow> am_execute handler payload context))"

subsection \<open>Migrations\<close>

record state_migration =
  mg_module :: string
  mg_source_version :: nat
  mg_to_version :: nat
  mg_migrate :: "module_context \<Rightarrow> module_context \<times> unit result"

text \<open>The loop of \<^verbatim>\<open>apply_migrations\<close>; it ends because the version grows towards the target.\<close>

function migrate_loop ::
  "string \<Rightarrow> nat \<Rightarrow> state_migration list \<Rightarrow> nat \<Rightarrow> module_context \<Rightarrow> module_context \<times> nat result" where
  "migrate_loop name target migrations version context =
     (if version \<ge> target then (context, Ok version) else
      case find (\<lambda>m. mg_module m = name \<and> mg_source_version m = version) migrations of
        None \<Rightarrow> (context, Err (EModule NoMigration))
      | Some m \<Rightarrow>
          if mg_to_version m \<le> version then (context, Err (EModule MigrationNotForward)) else
          (case mg_migrate m context of
             (context', Err e) \<Rightarrow> (context', Err e)
           | (context', Ok _) \<Rightarrow> migrate_loop name target migrations (mg_to_version m) context'))"
  by pat_completeness auto
termination by (relation "measure (\<lambda>(_, target, _, version, _). target - version)") auto

declare migrate_loop.simps [simp del]

definition apply_migrations ::
  "string \<Rightarrow> nat \<Rightarrow> nat \<Rightarrow> state_migration list \<Rightarrow> module_context \<Rightarrow> module_context \<times> nat result" where
  "apply_migrations name current target migrations context =
     (case migrate_loop name target migrations current context of
        (context', Err e) \<Rightarrow> (context', Err e)
      | (context', Ok version) \<Rightarrow>
          if version \<noteq> target then (context', Err (EModule MigrationOvershoot)) else (context', Ok version))"

subsection \<open>Pruning\<close>

datatype node_storage_mode = Pruned | ArchiveMode

record pruning_policy =
  prn_mode :: node_storage_mode
  prn_keep_recent_heights :: nat
  prn_keep_checkpoint_interval :: nat

definition pruning_validate :: "pruning_policy \<Rightarrow> unit result" where
  "pruning_validate p =
     (case prn_mode p of
        ArchiveMode \<Rightarrow> Ok ()
      | Pruned \<Rightarrow>
          if prn_keep_recent_heights p > 0 \<and> prn_keep_checkpoint_interval p > 0 then Ok ()
          else Err (EUpgrade BadPruningPolicy))"

definition should_keep :: "pruning_policy \<Rightarrow> nat \<Rightarrow> nat \<Rightarrow> bool" where
  "should_keep p current candidate \<longleftrightarrow>
     prn_mode p = ArchiveMode \<or> saturating_add 64 candidate (prn_keep_recent_heights p) \<ge> current
     \<or> candidate mod max (prn_keep_checkpoint_interval p) 1 = 0"

subsection \<open>Laws\<close>

text \<open>An encoding that never gives no bytes can also be split into a list of unknown length.\<close>

context prefix_code
begin

lemma concat_inj_nonempty:
  assumes "\<forall>x \<in> set xs. ok x" and "\<forall>y \<in> set ys. ok y" and "\<And>x. enc x \<noteq> []"
    and "concat (map enc xs) = concat (map enc ys)"
  shows "xs = ys"
  using assms
proof (induction xs arbitrary: ys)
  case Nil
  then show ?case by (cases ys) auto
next
  case (Cons x xs)
  obtain y ys' where ys: "ys = y # ys'" using Cons.prems(4) Cons.prems(3) [of x] by (cases ys) simp_all
  with Cons.prems have "x = y \<and> concat (map enc xs) = concat (map enc ys')" by (intro prefix) simp_all
  moreover from this have "xs = ys'" using Cons.prems(1,2) ys by (intro Cons.IH assms(3)) simp_all
  ultimately show ?case using ys by simp
qed

end

definition entry_ok :: "string \<times> u8 list \<Rightarrow> bool" where
  "entry_ok = (\<lambda>(key, data). length key < 2 ^ 64 \<and> length data < 2 ^ 64)"

lemma as_bytes_str_of: "as_bytes (str_of bs) = bs"
proof -
  have "(of_char (char_of (unat b)) :: u8) = b" for b :: u8
  proof -
    have "unat b < 256" using unsigned_less [of b, where ?'a = nat] by simp
    then have "(of_char (char_of (unat b)) :: nat) = unat b" by simp
    then have "(word_of_nat (of_char (char_of (unat b))) :: u8) = word_of_nat (unat b)" by (rule arg_cong)
    then show ?thesis unfolding of_nat_of_char by simp
  qed
  then show ?thesis by (simp add: as_bytes_def str_of_def comp_def)
qed

lemma state_entry_nonempty: "state_entry_bytes x \<noteq> []"
proof -
  have "8 \<le> length (state_entry_bytes x)" by (cases x) (simp add: state_entry_bytes_def)
  then show ?thesis by auto
qed

lemma length_str_of: "length (str_of bs) = length bs"
  by (simp add: str_of_def)

lemma state_entry_text: "state_entry_bytes (key, data) = push_text key @ push_text (str_of data)"
  by (simp add: state_entry_bytes_def push_text_def as_bytes_str_of length_str_of)

interpretation entry: prefix_code state_entry_bytes entry_ok
proof
  fix x y r s
  assume ok: "entry_ok x" "entry_ok y" and eq: "state_entry_bytes x @ r = state_entry_bytes y @ s"
  obtain k d k' d' where x: "x = (k, d)" "y = (k', d')" by (cases x; cases y)
  have len: "text_ok k" "text_ok k'" "text_ok (str_of d)" "text_ok (str_of d')"
    using ok unfolding x entry_ok_def text_ok_def by (simp_all only: prod.case length_str_of)
  have "k = k' \<and> push_text (str_of d) @ r = push_text (str_of d') @ s"
    using eq unfolding x state_entry_text append_assoc by (rule ptext.prefix [OF len(1,2)])
  moreover from this have "str_of d = str_of d' \<and> r = s" using ptext.prefix [OF len(3,4)] by blast
  ultimately show "x = y \<and> r = s" unfolding x using as_bytes_str_of by metis
qed

definition state_ok :: "module_context \<Rightarrow> bool" where
  "state_ok context \<longleftrightarrow> hm_wf (mc_state context) \<and> (\<forall>e \<in> set (mc_state context). entry_ok e)"

text \<open>
  The root commits to the state: two contexts with the same hashed bytes have the same value under
  every key, however their keys and values are cut.
\<close>

theorem module_root_binding:
  assumes "state_ok c" and "state_ok c'" and "state_root_bytes c = state_root_bytes c'"
  shows "hm_get (mc_state c) = hm_get (mc_state c')"
proof -
  have "sort_key fst (mc_state c) = sort_key fst (mc_state c')"
    using assms unfolding state_ok_def state_root_bytes_def
    by (intro entry.concat_inj_nonempty state_entry_nonempty) simp_all
  then have "set (mc_state c) = set (mc_state c')" by (metis set_sort)
  with assms(1,2) have "map_of (mc_state c) = map_of (mc_state c')"
    unfolding state_ok_def hm_wf_def by (simp add: map_of_inject_set)
  then show ?thesis by (simp add: hm_get_def fun_eq_iff)
qed

text \<open>
  Migrations end at the target or fail: the loop always returns, the version it reports is the
  target, and each migration that ran started from the version the one before it left.
\<close>

inductive migrated :: "string \<Rightarrow> state_migration list \<Rightarrow> nat \<times> module_context \<Rightarrow> nat \<times> module_context \<Rightarrow> bool"
  for name migrations where
  migrated: "m \<in> set migrations \<Longrightarrow> mg_module m = name \<Longrightarrow> mg_source_version m < mg_to_version m \<Longrightarrow>
    mg_migrate m context = (context', Ok ()) \<Longrightarrow>
    migrated name migrations (mg_source_version m, context) (mg_to_version m, context')"

lemma migrate_loop_path:
  "migrate_loop name target migrations version cx = (cx', Ok v) \<Longrightarrow>
     (migrated name migrations)\<^sup>*\<^sup>* (version, cx) (v, cx') \<and> target \<le> v"
proof (induction name target migrations version cx rule: migrate_loop.induct)
  case (1 name target migrations version cx)
  show ?case
  proof (cases "target \<le> version")
    case True
    with "1.prems" show ?thesis by (simp add: migrate_loop.simps)
  next
    case False
    with "1.prems" obtain m c where m: "find (\<lambda>m. mg_module m = name \<and> mg_source_version m = version) migrations = Some m"
      and forward: "\<not> mg_to_version m \<le> version" and run: "mg_migrate m cx = (c, Ok ())"
      and rest: "migrate_loop name target migrations (mg_to_version m) c = (cx', Ok v)"
      by (auto simp: migrate_loop.simps [of name target migrations version] split: option.splits if_splits prod.splits result.splits)
    have "m \<in> set migrations" "mg_module m = name" "mg_source_version m = version"
      using m by (auto simp: find_Some_iff)
    with forward run have "migrated name migrations (version, cx) (mg_to_version m, c)"
      using migrated.intros [of m migrations name cx c] by simp
    moreover have "(migrated name migrations)\<^sup>*\<^sup>* (mg_to_version m, c) (v, cx') \<and> target \<le> v"
      using "1.IH" [OF False m forward _ _ rest] run by simp
    ultimately show ?thesis by (metis converse_rtranclp_into_rtranclp)
  qed
qed

theorem apply_migrations_sound:
  assumes "apply_migrations name current target migrations cx = (cx', Ok v)"
  shows "v = target \<and> (migrated name migrations)\<^sup>*\<^sup>* (current, cx) (target, cx')"
  using assms migrate_loop_path [of name target migrations current cx]
  by (auto simp: apply_migrations_def split: prod.splits result.splits if_splits)

text \<open>A pruned node keeps the recent heights and the checkpoints; which ones does not depend on when it is asked.\<close>

lemma should_keep_recent: "current \<le> candidate + prn_keep_recent_heights p \<Longrightarrow> current < 2 ^ 64 \<Longrightarrow> should_keep p current candidate"
  unfolding should_keep_def saturating_add_def by linarith

lemma should_keep_antimono: "should_keep p later candidate \<Longrightarrow> current \<le> later \<Longrightarrow> should_keep p current candidate"
  by (auto simp: should_keep_def)

end
