(* ===== verification/Storage.thy ===== *)
theory Storage
  imports Snapshot
begin

text \<open>
  The database of a node (\<^verbatim>\<open>src/src/embedded_db.rs\<close>), the store of the finalized state on top of
  it (\<^verbatim>\<open>src/src/state_store.rs\<close>), and the file a chain is saved to (\<^verbatim>\<open>src/src/storage.rs\<close>).

  SQLite is not part of the sources: its statements are parameters of the model, each of which can
  fail and return a changed connection all the same.  A connection has the contents of the file, as
  every other connection and the next start of the node see them, the contents that it sees itself,
  and whether a transaction is open.  What a transaction keeps from the file is a law about these
  parameters (\<open>sqlite_laws\<close>), not part of the model.  The JSON codecs are parameters too.
\<close>

subsection \<open>The database\<close>

record 'db connection =
  con_file :: 'db
  con_view :: 'db
  con_open :: bool

type_synonym 'db statement = "'db connection \<Rightarrow> 'db connection \<times> unit result"

record 'db sqlite =
  sql_initialize :: "'db \<Rightarrow> 'db result"
  sql_select :: "'db \<Rightarrow> string \<Rightarrow> u8 list option result"
  sql_scan :: "'db \<Rightarrow> string \<Rightarrow> (string \<times> u8 list) list result"
  sql_metadata :: "'db \<Rightarrow> string \<Rightarrow> int option result"
  sql_connect :: "'db \<Rightarrow> 'db connection result"
  sql_begin :: "'db statement"
  sql_prepare_upsert :: "'db statement"
  sql_prepare_delete :: "'db statement"
  sql_upsert :: "string \<Rightarrow> u8 list \<Rightarrow> 'db statement"
  sql_delete :: "string \<Rightarrow> 'db statement"
  sql_set_generation :: "nat \<Rightarrow> 'db statement"
  sql_commit :: "'db statement"
  sql_rollback :: "'db statement"

definition SCHEMA_VERSION :: nat where
  "SCHEMA_VERSION = 2"

text \<open>The pending writes are a \<^verbatim>\<open>BTreeMap\<close>; an entry without a value is a deletion.\<close>

record 'db embedded_db =
  edb_file :: 'db
  edb_pending :: "(string, u8 list option) hmap"

record legacy_image =
  leg_schema_version :: nat
  leg_generation :: nat
  leg_values :: "(string \<times> u8 list) list"

definition edb_metadata :: "'db sqlite \<Rightarrow> 'db \<Rightarrow> string \<Rightarrow> nat result" where
  "edb_metadata S db name =
     rbind (sql_metadata S db name) (\<lambda>row.
     rbind (ok_or row (EStorage (MetadataMissing name))) (\<lambda>n.
     if n < 0 then Err (EStorage (MetadataNegative name)) else Ok (nat n)))"

definition edb_initialize :: "'db sqlite \<Rightarrow> 'db \<Rightarrow> 'db result" where
  "edb_initialize S db =
     rbind (sql_initialize S db) (\<lambda>db1.
     rbind (edb_metadata S db1 ''schema_version'') (\<lambda>schema.
     if schema \<noteq> SCHEMA_VERSION then Err (EStorage (UnsupportedSchema schema)) else Ok db1))"

definition edb_put :: "'db embedded_db \<Rightarrow> string \<Rightarrow> u8 list \<Rightarrow> 'db embedded_db" where
  "edb_put d key data = d\<lparr>edb_pending := hm_insert (edb_pending d) key (Some data)\<rparr>"

definition edb_remove :: "'db embedded_db \<Rightarrow> string \<Rightarrow> 'db embedded_db" where
  "edb_remove d key = d\<lparr>edb_pending := hm_insert (edb_pending d) key None\<rparr>"

definition edb_get :: "'db sqlite \<Rightarrow> 'db embedded_db \<Rightarrow> string \<Rightarrow> u8 list option result" where
  "edb_get S d key =
     (case hm_get (edb_pending d) key of
        Some entry \<Rightarrow> Ok entry
      | None \<Rightarrow> sql_select S (edb_file d) key)"

text \<open>The loop over the pending writes of \<^verbatim>\<open>scan_prefix\<close>.\<close>

definition overlay_entry ::
  "string \<Rightarrow> (string \<times> u8 list) list \<Rightarrow> string \<times> u8 list option \<Rightarrow> (string \<times> u8 list) list" where
  "overlay_entry start rows = (\<lambda>(key, entry).
     if take (length start) key \<noteq> start then rows else
     let rest = filter (\<lambda>(stored, _). stored \<noteq> key) rows
     in case entry of Some data \<Rightarrow> rest @ [(key, data)] | None \<Rightarrow> rest)"

definition scan_prefix :: "'db sqlite \<Rightarrow> 'db embedded_db \<Rightarrow> string \<Rightarrow> (string \<times> u8 list) list result" where
  "scan_prefix S d start =
     rbind (sql_scan S (edb_file d) start) (\<lambda>rows.
     Ok (sort_key fst (foldl (overlay_entry start) rows (sort_key fst (edb_pending d)))))"

text \<open>Statements one after the other; the first error ends the function (\<^verbatim>\<open>?\<close>).\<close>

definition then_do :: "'db statement \<Rightarrow> 'db statement \<Rightarrow> 'db statement" where
  "then_do f g c = (case f c of (c1, Err e) \<Rightarrow> (c1, Err e) | (c1, Ok _) \<Rightarrow> g c1)"

definition write_entry :: "'db sqlite \<Rightarrow> string \<times> u8 list option \<Rightarrow> 'db statement" where
  "write_entry S = (\<lambda>(key, entry). case entry of Some data \<Rightarrow> sql_upsert S key data | None \<Rightarrow> sql_delete S key)"

fun write_entries :: "'db sqlite \<Rightarrow> (string \<times> u8 list option) list \<Rightarrow> 'db statement" where
  "write_entries S [] = (\<lambda>c. (c, Ok ()))"
| "write_entries S (e # es) = then_do (write_entry S e) (write_entries S es)"

definition apply_pending :: "'db sqlite \<Rightarrow> 'db embedded_db \<Rightarrow> nat \<Rightarrow> 'db statement" where
  "apply_pending S d generation =
     then_do (sql_prepare_upsert S) (then_do (sql_prepare_delete S)
       (then_do (write_entries S (sort_key fst (edb_pending d))) (sql_set_generation S generation)))"

text \<open>The connection is closed when the function returns; what remains is the file.\<close>

definition commit_with_generation :: "'db sqlite \<Rightarrow> 'db embedded_db \<Rightarrow> nat \<Rightarrow> 'db embedded_db \<times> unit result" where
  "commit_with_generation S d generation =
     (case sql_connect S (edb_file d) of Err e \<Rightarrow> (d, Err e) | Ok c0 \<Rightarrow>
      case sql_begin S c0 of
        (c1, Err e) \<Rightarrow> (d\<lparr>edb_file := con_file c1\<rparr>, Err e)
      | (c1, Ok _) \<Rightarrow>
          (case apply_pending S d generation c1 of
             (c2, Ok _) \<Rightarrow>
               (case sql_commit S c2 of
                  (c3, Err e) \<Rightarrow> (d\<lparr>edb_file := con_file c3\<rparr>, Err e)
                | (c3, Ok _) \<Rightarrow> (d\<lparr>edb_file := con_file c3, edb_pending := []\<rparr>, Ok ()))
           | (c2, Err e) \<Rightarrow> (d\<lparr>edb_file := con_file (fst (sql_rollback S c2))\<rparr>, Err e)))"

definition edb_generation :: "'db sqlite \<Rightarrow> 'db embedded_db \<Rightarrow> nat result" where
  "edb_generation S d = edb_metadata S (edb_file d) ''generation''"

definition edb_commit :: "'db sqlite \<Rightarrow> 'db embedded_db \<Rightarrow> 'db embedded_db \<times> nat result" where
  "edb_commit S d =
     (case edb_generation S d of Err e \<Rightarrow> (d, Err e) | Ok current \<Rightarrow>
      let generation = saturating_add 64 current 1 in
      case commit_with_generation S d generation of
        (d', Err e) \<Rightarrow> (d', Err e)
      | (d', Ok _) \<Rightarrow> (d', Ok generation))"

text \<open>
  The import of the database of an older release; the image is what its file parses to.  The clone
  that \<^verbatim>\<open>import_legacy\<close> commits shares the file with the new handle.
\<close>

definition import_legacy ::
  "'db sqlite \<Rightarrow> 'db embedded_db \<Rightarrow> legacy_image option \<Rightarrow> 'db embedded_db \<times> unit result" where
  "import_legacy S d parsed =
     (case parsed of None \<Rightarrow> (d, Err (EStorage LegacyCorrupt)) | Some legacy \<Rightarrow>
      if leg_schema_version legacy \<noteq> 1 then (d, Err (EStorage LegacySchema)) else
      case commit_with_generation S (foldl (\<lambda>m (key, data). edb_put m key data) d (leg_values legacy))
             (leg_generation legacy) of
        (migrated, Err e) \<Rightarrow> (d\<lparr>edb_file := edb_file migrated\<rparr>, Err e)
      | (migrated, Ok _) \<Rightarrow> (d\<lparr>edb_file := edb_file migrated\<rparr>, Ok ()))"

text \<open>
  The files of a database: SQLite's, and the one of the older release while the new file does not
  exist (None afterwards: the new file exists from the first successful initialization on).
\<close>

record 'db db_files =
  dbf_sqlite :: 'db
  dbf_legacy :: "legacy_image option option"

definition edb_open :: "'db sqlite \<Rightarrow> 'db db_files \<Rightarrow> 'db db_files \<times> 'db embedded_db result" where
  "edb_open S f =
     (case edb_initialize S (dbf_sqlite f) of Err e \<Rightarrow> (f, Err e) | Ok db \<Rightarrow>
      let d = \<lparr>edb_file = db, edb_pending = []\<rparr> in
      case dbf_legacy f of
        None \<Rightarrow> (f\<lparr>dbf_sqlite := db\<rparr>, Ok d)
      | Some parsed \<Rightarrow>
          (case import_legacy S d parsed of
             (d', Err e) \<Rightarrow> (\<lparr>dbf_sqlite = edb_file d', dbf_legacy = None\<rparr>, Err e)
           | (d', Ok _) \<Rightarrow> (\<lparr>dbf_sqlite = edb_file d', dbf_legacy = None\<rparr>, Ok d')))"

subsection \<open>The finalized state\<close>

record canonical_state =
  cs_schema_version :: nat
  cs_chain_id :: nat
  cs_genesis_commitment :: string
  cs_height :: nat
  cs_block_hash :: string
  cs_state_root :: string
  cs_balances :: "(string, nat) hmap"
  cs_nonces :: "(string, nat) hmap"
  cs_executed_events :: "string set"
  cs_staking :: staking_state
  cs_height_to_hash :: "(nat, string) hmap"
  cs_transaction_index :: "(string, nat \<times> nat) hmap"

definition index_block :: "ext \<Rightarrow> (string, nat \<times> nat) hmap \<Rightarrow> block \<Rightarrow> (string, nat \<times> nat) hmap" where
  "index_block E table b =
     foldl (\<lambda>t (i, tx). hm_insert t (tx_id E tx) (blk_height b, i)) table
       (enumerate 0 (blk_transactions b))"

definition canonical_from_chain :: "ext \<Rightarrow> blockchain \<Rightarrow> canonical_state" where
  "canonical_from_chain E c =
     \<lparr>cs_schema_version = 3, cs_chain_id = ch_chain_id c, cs_genesis_commitment = ch_genesis_commitment c,
      cs_height = tip_height c, cs_block_hash = tip_hash c, cs_state_root = state_hash E c,
      cs_balances = ch_balances c, cs_nonces = ch_next_nonces c,
      cs_executed_events = ch_executed_events c, cs_staking = ch_staking c,
      cs_height_to_hash = hm_from_list (map (\<lambda>b. (blk_height b, blk_hash b)) (ch_blocks c)),
      cs_transaction_index = foldl (index_block E) [] (ch_blocks c)\<rparr>"

text \<open>The JSON of the three kinds of values; reading is only needed for the state.\<close>

record state_codec =
  state_to_json :: "canonical_state \<Rightarrow> u8 list option"
  state_from_json :: "u8 list \<Rightarrow> canonical_state option"
  pair_to_json :: "string \<times> string \<Rightarrow> u8 list option"
  location_to_json :: "nat \<times> nat \<Rightarrow> u8 list option"

text \<open>The store on disk: the database and the JSON mirror, None when the file does not exist.\<close>

record 'db state_store =
  sts_files :: "'db db_files"
  sts_mirror :: "u8 list option"

text \<open>\<^verbatim>\<open>{:020}\<close> and the like: decimal digits, padded with zeros to a width.\<close>

definition padded :: "nat \<Rightarrow> nat \<Rightarrow> string" where
  "padded w n = replicate (w - length (decimal n)) (CHR ''0'') @ decimal n"

definition put_location ::
  "state_codec \<Rightarrow> string \<times> nat \<times> nat \<Rightarrow> 'db embedded_db \<Rightarrow> 'db embedded_db result" where
  "put_location C = (\<lambda>(transaction_id, location) d.
     rbind (ok_or (location_to_json C location) (EStorage StateEncode)) (\<lambda>bytes.
     Ok (edb_put d (''transaction/'' @ transaction_id) bytes)))"

definition canonical_writes ::
  "state_codec \<Rightarrow> canonical_state \<Rightarrow> u8 list \<Rightarrow> 'db embedded_db \<Rightarrow> 'db embedded_db result" where
  "canonical_writes C state bytes d =
     rbind (ok_or (pair_to_json C (cs_block_hash state, cs_state_root state)) (EStorage StateEncode)) (\<lambda>pair.
     for_each (put_location C) (cs_transaction_index state)
       (edb_put (edb_put d ''canonical/current'' bytes) (''canonical/height/'' @ padded 20 (cs_height state)) pair))"

definition state_store_commit ::
  "ext \<Rightarrow> 'db sqlite \<Rightarrow> state_codec \<Rightarrow> 'db state_store \<Rightarrow> blockchain \<Rightarrow> 'db state_store \<times> canonical_state result" where
  "state_store_commit E S C store chain =
     (let state = canonical_from_chain E chain in
      case state_to_json C state of None \<Rightarrow> (store, Err (EStorage StateEncode)) | Some bytes \<Rightarrow>
      case edb_open S (sts_files store) of
        (f, Err e) \<Rightarrow> (store\<lparr>sts_files := f\<rparr>, Err e)
      | (f, Ok d) \<Rightarrow>
          (case canonical_writes C state bytes d of
             Err e \<Rightarrow> (store\<lparr>sts_files := f\<rparr>, Err e)
           | Ok d1 \<Rightarrow>
               (case edb_commit S d1 of
                  (d2, Err e) \<Rightarrow> (store\<lparr>sts_files := f\<lparr>dbf_sqlite := edb_file d2\<rparr>\<rparr>, Err e)
                | (d2, Ok _) \<Rightarrow>
                    (store\<lparr>sts_files := f\<lparr>dbf_sqlite := edb_file d2\<rparr>, sts_mirror := Some bytes\<rparr>, Ok state))))"

definition validate_schema :: "canonical_state \<Rightarrow> unit result" where
  "validate_schema state =
     (if cs_schema_version state \<in> {1, 2, 3} then Ok () else Err (EStorage StateSchema))"

definition decode_state :: "state_codec \<Rightarrow> u8 list \<Rightarrow> canonical_state option result" where
  "decode_state C bytes =
     rbind (ok_or (state_from_json C bytes) (EStorage StateDecode)) (\<lambda>state.
     rbind (validate_schema state) (\<lambda>_. Ok (Some state)))"

definition state_store_load ::
  "'db sqlite \<Rightarrow> state_codec \<Rightarrow> 'db state_store \<Rightarrow> 'db state_store \<times> canonical_state option result" where
  "state_store_load S C store =
     (case edb_open S (sts_files store) of
        (f, Err e) \<Rightarrow> (store\<lparr>sts_files := f\<rparr>, Err e)
      | (f, Ok d) \<Rightarrow>
          (store\<lparr>sts_files := f\<rparr>,
           rbind (edb_get S d ''canonical/current'') (\<lambda>row.
           case row of
             Some bytes \<Rightarrow> decode_state C bytes
           | None \<Rightarrow> (case sts_mirror store of None \<Rightarrow> Ok None | Some bytes \<Rightarrow> decode_state C bytes))))"

subsection \<open>The chain file\<close>

text \<open>What the file parses to is checked again from the first block; None is a file that does not parse.\<close>

definition storage_load :: "ext \<Rightarrow> blockchain option \<Rightarrow> blockchain result" where
  "storage_load E parsed = rbind (ok_or parsed (EStorage StateDecode)) (verify_and_rebuild E)"

subsection \<open>What reads return\<close>

text \<open>
  What the code relies on, as the documentation of SQLite has it.  A new connection is in autocommit
  mode, where every statement changes the file at once.  After \<^verbatim>\<open>BEGIN\<close> statements change only what the
  connection sees, whether they succeed or not, until \<^verbatim>\<open>COMMIT\<close> succeeds and makes that the file; a
  \<^verbatim>\<open>COMMIT\<close> that fails and a \<^verbatim>\<open>ROLLBACK\<close> leave the file.
\<close>

definition in_transaction :: "'db statement \<Rightarrow> bool" where
  "in_transaction f \<longleftrightarrow> (\<forall>c c' r. f c = (c', r) \<and> con_open c \<longrightarrow> con_file c' = con_file c \<and> (is_ok r \<longrightarrow> con_open c'))"

definition transaction_laws :: "'db sqlite \<Rightarrow> bool" where
  "transaction_laws S \<longleftrightarrow>
     (\<forall>db c. sql_connect S db = Ok c \<longrightarrow> con_file c = db \<and> con_view c = db \<and> \<not> con_open c)
     \<and> (\<forall>c c' r. sql_begin S c = (c', r) \<longrightarrow> con_file c' = con_file c \<and> (is_ok r \<longrightarrow> con_open c' \<and> con_view c' = con_file c))
     \<and> in_transaction (sql_prepare_upsert S) \<and> in_transaction (sql_prepare_delete S)
     \<and> (\<forall>key data. in_transaction (sql_upsert S key data)) \<and> (\<forall>key. in_transaction (sql_delete S key))
     \<and> (\<forall>n. in_transaction (sql_set_generation S n))
     \<and> (\<forall>c c' r. sql_commit S c = (c', r) \<and> con_open c \<longrightarrow> con_file c' = (if is_ok r then con_view c else con_file c))
     \<and> (\<forall>c. con_file (fst (sql_rollback S c)) = con_file c)"

text \<open>
  Rows: what a connection reads after a write or a deletion, the generation row apart from the
  others, and that preparing a statement and opening a database again change no row.
\<close>

definition row_laws :: "'db sqlite \<Rightarrow> bool" where
  "row_laws S \<longleftrightarrow>
     (\<forall>c key data c'. sql_upsert S key data c = (c', Ok ()) \<longrightarrow>
        (\<forall>k. sql_select S (con_view c') k = (if k = key then Ok (Some data) else sql_select S (con_view c) k)))
     \<and> (\<forall>c key c'. sql_delete S key c = (c', Ok ()) \<longrightarrow>
        (\<forall>k. sql_select S (con_view c') k = (if k = key then Ok None else sql_select S (con_view c) k)))
     \<and> (\<forall>c n c'. sql_set_generation S n c = (c', Ok ()) \<longrightarrow>
        (\<forall>k. sql_select S (con_view c') k = sql_select S (con_view c) k))
     \<and> (\<forall>c c'. sql_prepare_upsert S c = (c', Ok ()) \<or> sql_prepare_delete S c = (c', Ok ()) \<longrightarrow> con_view c' = con_view c)
     \<and> (\<forall>db db'. sql_initialize S db = Ok db' \<longrightarrow> (\<forall>k. sql_select S db' k = sql_select S db k))"

definition sqlite_laws :: "'db sqlite \<Rightarrow> bool" where
  "sqlite_laws S \<longleftrightarrow> transaction_laws S \<and> row_laws S"

lemma transactionD:
  assumes "sqlite_laws S"
  shows "sql_connect S db = Ok c \<Longrightarrow> con_file c = db"
    and "sql_begin S c = (c', r) \<Longrightarrow> con_file c' = con_file c \<and> (is_ok r \<longrightarrow> con_open c' \<and> con_view c' = con_file c)"
    and "sql_commit S c = (c', r) \<Longrightarrow> con_open c \<Longrightarrow> con_file c' = (if is_ok r then con_view c else con_file c)"
    and "con_file (fst (sql_rollback S c)) = con_file c"
  using assms unfolding sqlite_laws_def transaction_laws_def by blast+

lemma in_transactionD:
  assumes "sqlite_laws S"
  shows "in_transaction (sql_prepare_upsert S)" and "in_transaction (sql_prepare_delete S)"
    and "in_transaction (sql_upsert S key data)" and "in_transaction (sql_delete S key)" and "in_transaction (sql_set_generation S n)"
  using assms unfolding sqlite_laws_def transaction_laws_def by blast+

lemma rowD:
  assumes "sqlite_laws S"
  shows "sql_upsert S key data c = (c', Ok ()) \<Longrightarrow>
      sql_select S (con_view c') k = (if k = key then Ok (Some data) else sql_select S (con_view c) k)"
    and "sql_delete S key c = (c', Ok ()) \<Longrightarrow>
      sql_select S (con_view c') k = (if k = key then Ok None else sql_select S (con_view c) k)"
    and "sql_set_generation S n c = (c', Ok ()) \<Longrightarrow> sql_select S (con_view c') k = sql_select S (con_view c) k"
    and "sql_prepare_upsert S c = (c', Ok ()) \<Longrightarrow> con_view c' = con_view c"
    and "sql_prepare_delete S c = (c', Ok ()) \<Longrightarrow> con_view c' = con_view c"
    and "sql_initialize S db = Ok db' \<Longrightarrow> sql_select S db' k = sql_select S db k"
  using assms unfolding sqlite_laws_def row_laws_def by blast+

lemma then_do_cases:
  assumes "then_do f g c = (c', r)"
  obtains (failed) e where "f c = (c', Err e)" and "r = Err e"
  | (both) c1 where "f c = (c1, Ok ())" and "g c1 = (c', r)"
  using assms by (auto simp: then_do_def split: prod.splits result.splits)

lemma in_transaction_then:
  assumes f: "in_transaction f" and g: "in_transaction g"
  shows "in_transaction (then_do f g)"
  unfolding in_transaction_def
proof (intro allI impI)
  fix c c' r
  assume "then_do f g c = (c', r) \<and> con_open c"
  then have run: "then_do f g c = (c', r)" and "con_open c" by blast+
  from run show "con_file c' = con_file c \<and> (is_ok r \<longrightarrow> con_open c')"
  proof (cases rule: then_do_cases)
    case (failed e)
    with f \<open>con_open c\<close> show ?thesis unfolding in_transaction_def by force
  next
    case (both c1)
    with f \<open>con_open c\<close> have "con_file c1 = con_file c" "con_open c1" unfolding in_transaction_def by force+
    with g both(2) show ?thesis unfolding in_transaction_def by metis
  qed
qed

lemma write_entry_in: "sqlite_laws S \<Longrightarrow> in_transaction (write_entry S e)"
  using in_transactionD by (cases e) (auto simp: write_entry_def split: option.splits)

lemma write_entries_in: "sqlite_laws S \<Longrightarrow> in_transaction (write_entries S es)"
  by (induction es) (auto simp: in_transaction_then write_entry_in, simp add: in_transaction_def)

lemma apply_pending_in: "sqlite_laws S \<Longrightarrow> in_transaction (apply_pending S d n)"
  unfolding apply_pending_def by (intro in_transaction_then in_transactionD write_entries_in)

lemma edb_get_put: "edb_get S (edb_put d key data) k = (if k = key then Ok (Some data) else edb_get S d k)"
  by (simp add: edb_get_def edb_put_def split: option.split)

lemma edb_get_remove: "edb_get S (edb_remove d key) k = (if k = key then Ok None else edb_get S d k)"
  by (simp add: edb_get_def edb_remove_def split: option.split)

lemma write_entry_select:
  assumes "sqlite_laws S" and "write_entry S (key, entry) c = (c', Ok ())"
  shows "sql_select S (con_view c') k = (if k = key then Ok entry else sql_select S (con_view c) k)"
proof (cases entry)
  case None
  with assms(2) show ?thesis using rowD(2) [OF assms(1)] by (simp add: write_entry_def)
next
  case (Some data)
  with assms(2) show ?thesis using rowD(1) [OF assms(1)] by (simp add: write_entry_def)
qed

lemma write_entries_select:
  assumes "sqlite_laws S" and "write_entries S es c = (c', Ok ())" and "distinct (map fst es)"
  shows "sql_select S (con_view c') k = (case map_of es k of Some entry \<Rightarrow> Ok entry | None \<Rightarrow> sql_select S (con_view c) k)"
  using assms(2,3)
proof (induction es arbitrary: c)
  case (Cons e es)
  obtain key entry where e: "e = (key, entry)" by (cases e)
  with Cons.prems(1) obtain c1 where c1: "write_entry S (key, entry) c = (c1, Ok ())" "write_entries S es c1 = (c', Ok ())"
    by (auto elim: then_do_cases)
  have "map_of es key = None" using Cons.prems(2) e by (auto simp: map_of_eq_None_iff)
  with Cons.IH [OF c1(2)] Cons.prems(2) write_entry_select [OF assms(1) c1(1)] e
  show ?case by (auto split: option.splits)
qed simp

lemma sort_key_map_of:
  assumes "distinct (map fst xs)"
  shows "map_of (sort_key fst xs) = map_of xs" and "distinct (map fst (sort_key fst xs))"
proof -
  show d: "distinct (map fst (sort_key fst xs))"
    using assms by (metis distinct_map distinct_sort set_sort)
  show "map_of (sort_key fst xs) = map_of xs" using d assms by (intro map_of_inject_set [THEN iffD2]) simp_all
qed

lemma apply_pending_select:
  assumes "sqlite_laws S" and "hm_wf (edb_pending d)" and "apply_pending S d n c = (c', Ok ())" and "con_view c = edb_file d"
  shows "sql_select S (con_view c') key = edb_get S d key"
proof -
  have pending: "distinct (map fst (edb_pending d))" using assms(2) by (simp add: hm_wf_def)
  from assms(3) obtain c1 c2 c3 where p: "sql_prepare_upsert S c = (c1, Ok ())" "sql_prepare_delete S c1 = (c2, Ok ())"
    and w: "write_entries S (sort_key fst (edb_pending d)) c2 = (c3, Ok ())" and g: "sql_set_generation S n c3 = (c', Ok ())"
    unfolding apply_pending_def by (elim then_do_cases) auto
  have "con_view c2 = edb_file d" using rowD(4,5) [OF assms(1)] p assms(4) by metis
  then show ?thesis
    using write_entries_select [OF assms(1) w sort_key_map_of(2) [OF pending], of key] rowD(3) [OF assms(1) g]
    by (simp add: sort_key_map_of(1) [OF pending] edb_get_def hm_get_def split: option.splits)
qed

lemma edb_commit_view:
  assumes "sqlite_laws S" and "hm_wf (edb_pending d)" and "edb_commit S d = (d', r)"
  shows "if is_ok r then edb_pending d' = [] \<and> sql_select S (edb_file d') key = edb_get S d key else d' = d"
proof -
  note t = transactionD [OF assms(1)]
  consider (early) "\<not> is_ok r" "d' = d"
    | (run) n q where "commit_with_generation S d n = (d', q)" "is_ok q \<longleftrightarrow> is_ok r"
  proof (cases "edb_generation S d")
    case (Err e)
    with assms(3) have "r = Err e" "d' = d" by (simp_all add: edb_commit_def)
    then show ?thesis using that(1) by simp
  next
    case (Ok g)
    with assms(3) show ?thesis using that(2) by (auto simp: edb_commit_def Let_def split: result.splits prod.splits)
  qed
  then show ?thesis
  proof cases
    case run
    show ?thesis
    proof (cases "sql_connect S (edb_file d)")
      case (Ok c0)
      obtain c1 r1 where b: "sql_begin S c0 = (c1, r1)" by (cases "sql_begin S c0")
      obtain c2 r2 where a: "apply_pending S d n c1 = (c2, r2)" by (cases "apply_pending S d n c1")
      obtain c3 r3 where c: "sql_commit S c2 = (c3, r3)" by (cases "sql_commit S c2")
      have c1: "con_file c1 = edb_file d" "is_ok r1 \<Longrightarrow> con_open c1 \<and> con_view c1 = edb_file d"
        using t(1) [OF Ok] t(2) [OF b] by simp_all
      have c2: "con_file c2 = edb_file d" "is_ok r2 \<Longrightarrow> con_open c2" if "is_ok r1"
        using apply_pending_in [OF assms(1)] a c1 that unfolding in_transaction_def by metis+
      have c3: "con_file c3 = (if is_ok r3 then con_view c2 else edb_file d)" if "is_ok r1" "is_ok r2"
        using t(3) [OF c] c2 that by simp
      have view: "sql_select S (con_view c2) key = edb_get S d key" if "is_ok r1" "r2 = Ok ()"
        using apply_pending_select [OF assms(1,2)] a c1(2) that by blast
      show ?thesis using run Ok b a c c1 c2 c3 view t(4) [of c2]
        by (cases r1; cases r2; cases r3) (auto simp: commit_with_generation_def)
    qed (use run in \<open>auto simp: commit_with_generation_def\<close>)
  qed simp
qed

text \<open>
  C20.  Commits are atomic, on a database that keeps the documented rules of transactions.  A commit
  that fails, at whatever statement, leaves the file and the pending writes as they were, although
  some writes had been made; one that succeeds has written all of them: the file alone answers
  every read as file and pending writes did before, and nothing is pending.
\<close>

theorem edb_commit_atomic:
  assumes "sqlite_laws S" and "hm_wf (edb_pending d)" and "edb_commit S d = (d', r)"
  shows "if is_ok r then edb_pending d' = [] \<and> sql_select S (edb_file d') key = edb_get S d key else d' = d"
  using assms by (rule edb_commit_view)

text \<open>A database in memory, a table of rows and a table of metadata.\<close>

definition mem_change :: "('db \<Rightarrow> 'db) \<Rightarrow> 'db statement" where
  "mem_change f c = (if con_open c then c\<lparr>con_view := f (con_view c)\<rparr>
     else c\<lparr>con_file := f (con_view c), con_view := f (con_view c)\<rparr>, Ok ())"

definition mem_sqlite :: "((string, u8 list) hmap \<times> (string, int) hmap) sqlite" where
  "mem_sqlite = \<lparr>
     sql_initialize = (\<lambda>(rows, meta). Ok (rows, if hm_contains meta ''schema_version'' then meta
        else [(''schema_version'', 2), (''generation'', 0)])),
     sql_select = (\<lambda>(rows, meta) key. Ok (hm_get rows key)),
     sql_scan = (\<lambda>(rows, meta) start. Ok (sort_key fst (filter (\<lambda>(key, _). take (length start) key = start) rows))),
     sql_metadata = (\<lambda>(rows, meta) name. Ok (hm_get meta name)),
     sql_connect = (\<lambda>db. Ok \<lparr>con_file = db, con_view = db, con_open = False\<rparr>),
     sql_begin = (\<lambda>c. (c\<lparr>con_view := con_file c, con_open := True\<rparr>, Ok ())),
     sql_prepare_upsert = (\<lambda>c. (c, Ok ())), sql_prepare_delete = (\<lambda>c. (c, Ok ())),
     sql_upsert = (\<lambda>key data. mem_change (\<lambda>(rows, meta). (hm_insert rows key data, meta))),
     sql_delete = (\<lambda>key. mem_change (\<lambda>(rows, meta). (hm_remove rows key, meta))),
     sql_set_generation = (\<lambda>n. mem_change (\<lambda>(rows, meta). (rows, hm_insert meta ''generation'' (int n)))),
     sql_commit = (\<lambda>c. if con_open c then (c\<lparr>con_file := con_view c, con_open := False\<rparr>, Ok ())
        else (c, Err (EStorage (SqliteFailed ''full'')))),
     sql_rollback = (\<lambda>c. (c\<lparr>con_view := con_file c, con_open := False\<rparr>, Ok ()))\<rparr>"

text \<open>The same on a full disk: the generation can no longer be written.\<close>

definition full_sqlite :: "((string, u8 list) hmap \<times> (string, int) hmap) sqlite" where
  "full_sqlite = mem_sqlite\<lparr>sql_set_generation := (\<lambda>n c. (c, Err (EStorage (SqliteFailed ''full''))))\<rparr>"

lemma mem_change_in: "in_transaction (mem_change f)"
  by (auto simp: in_transaction_def mem_change_def)

lemma mem_change_view: "mem_change f c = (c', r) \<Longrightarrow> con_view c' = f (con_view c)"
  by (auto simp: mem_change_def)

lemma mem_sqlite_laws: "sqlite_laws mem_sqlite" "sqlite_laws full_sqlite"
proof -
  have idle: "in_transaction (\<lambda>c. (c, r))" for r :: "unit result" by (simp add: in_transaction_def)
  have "transaction_laws mem_sqlite" "transaction_laws full_sqlite"
    by (auto simp: transaction_laws_def mem_sqlite_def full_sqlite_def mem_change_in idle split: if_splits)
  moreover have "row_laws mem_sqlite" "row_laws full_sqlite"
    by (auto simp: row_laws_def mem_sqlite_def full_sqlite_def dest!: mem_change_view split: prod.splits)
  ultimately show "sqlite_laws mem_sqlite" "sqlite_laws full_sqlite" by (simp_all add: sqlite_laws_def)
qed

definition sample_db :: "((string, u8 list) hmap \<times> (string, int) hmap) embedded_db" where
  "sample_db = \<lparr>edb_file = ([(''a'', [1])], [(''schema_version'', 2), (''generation'', 0)]),
     edb_pending = [(''b'', Some [2]), (''a'', None)]\<rparr>"

lemma mem_calls:
  "sql_connect mem_sqlite db = Ok \<lparr>con_file = db, con_view = db, con_open = False\<rparr>"
  "sql_begin mem_sqlite c = (c\<lparr>con_view := con_file c, con_open := True\<rparr>, Ok ())"
  "sql_prepare_upsert mem_sqlite c = (c, Ok ())" "sql_prepare_delete mem_sqlite c = (c, Ok ())"
  "sql_set_generation mem_sqlite n = mem_change (\<lambda>(rows, meta). (rows, hm_insert meta ''generation'' (int n)))"
  "sql_commit mem_sqlite c = (if con_open c then (c\<lparr>con_file := con_view c, con_open := False\<rparr>, Ok ())
     else (c, Err (EStorage (SqliteFailed ''full''))))"
  by (simp_all add: mem_sqlite_def)

lemma mem_write_entries:
  "\<exists>rows'. write_entries mem_sqlite es \<lparr>con_file = db, con_view = (rows, meta), con_open = True\<rparr>
     = (\<lparr>con_file = db, con_view = (rows', meta), con_open = True\<rparr>, Ok ())"
proof (induction es arbitrary: rows)
  case (Cons e es)
  obtain rows1 where "write_entry mem_sqlite e \<lparr>con_file = db, con_view = (rows, meta), con_open = True\<rparr>
      = (\<lparr>con_file = db, con_view = (rows1, meta), con_open = True\<rparr>, Ok ())"
    by (cases e; cases "snd e") (auto simp: write_entry_def mem_sqlite_def mem_change_def)
  with Cons.IH [of rows1] show ?case by (simp add: then_do_def)
qed simp

lemma mem_apply_pending:
  assumes "edb_file d = (rows, meta)"
  shows "\<exists>rows'. apply_pending mem_sqlite d n \<lparr>con_file = edb_file d, con_view = edb_file d, con_open = True\<rparr>
     = (\<lparr>con_file = edb_file d, con_view = (rows', hm_insert meta ''generation'' (int n)), con_open = True\<rparr>, Ok ())"
  using mem_write_entries [of "sort_key fst (edb_pending d)" "edb_file d" rows meta] assms
  by (auto simp: apply_pending_def then_do_def mem_calls mem_change_def)

lemma mem_commit:
  assumes "edb_file d = (rows, meta)" and "hm_get meta ''generation'' = Some (int g)"
  shows "\<exists>rows'. edb_commit mem_sqlite d = (d\<lparr>edb_file := (rows', hm_insert meta ''generation'' (int (saturating_add 64 g 1))),
     edb_pending := []\<rparr>, Ok (saturating_add 64 g 1))"
proof -
  have "edb_generation mem_sqlite d = Ok g"
    using assms by (simp add: edb_generation_def edb_metadata_def mem_sqlite_def)
  with mem_apply_pending [OF assms(1), of "saturating_add 64 g 1"] show ?thesis
    by (auto simp: edb_commit_def commit_with_generation_def mem_calls Let_def)
qed

theorem edb_commit_atomic_witness:
  "sql_select mem_sqlite (edb_file (fst (edb_commit mem_sqlite sample_db))) ''b'' = Ok (Some [2])
     \<and> edb_commit full_sqlite sample_db = (sample_db, Err (EStorage (SqliteFailed ''full'')))"
proof -
  have wf: "hm_wf (edb_pending sample_db)" by (simp add: sample_db_def hm_wf_def)
  have read: "edb_get mem_sqlite sample_db ''b'' = Ok (Some [2])" by (simp add: edb_get_def sample_db_def hm_get_def)
  have stored: "edb_file sample_db = ([(''a'', [1])], [(''schema_version'', 2), (''generation'', 0)])" by (simp add: sample_db_def)
  obtain d' g where ok: "edb_commit mem_sqlite sample_db = (d', Ok g)" using mem_commit [OF stored, of 0] by (auto simp: hm_get_def)
  have full: "sql_connect full_sqlite = sql_connect mem_sqlite" "sql_begin full_sqlite = sql_begin mem_sqlite"
    "sql_prepare_upsert full_sqlite = sql_prepare_upsert mem_sqlite" "sql_prepare_delete full_sqlite = sql_prepare_delete mem_sqlite"
    "sql_metadata full_sqlite = sql_metadata mem_sqlite" "sql_set_generation full_sqlite n c = (c, Err (EStorage (SqliteFailed ''full'')))" for n c
    by (simp_all add: full_sqlite_def)
  have "write_entry full_sqlite = write_entry mem_sqlite" by (intro ext) (simp add: write_entry_def full_sqlite_def split: prod.split option.split)
  then have writes: "write_entries full_sqlite es = write_entries mem_sqlite es" for es by (induction es) simp_all
  have "edb_generation full_sqlite sample_db = Ok 0"
    by (simp add: edb_generation_def edb_metadata_def full stored) (simp add: mem_sqlite_def hm_get_def)
  then obtain d'' where failed: "edb_commit full_sqlite sample_db = (d'', Err (EStorage (SqliteFailed ''full'')))"
    using mem_write_entries [of "sort_key fst (edb_pending sample_db)" "edb_file sample_db" "fst (edb_file sample_db)" "snd (edb_file sample_db)"]
    by (auto simp: edb_commit_def commit_with_generation_def apply_pending_def then_do_def full mem_calls writes Let_def)
  from edb_commit_atomic [OF mem_sqlite_laws(1) wf ok, of "''b''"] edb_commit_atomic [OF mem_sqlite_laws(2) wf failed]
  show ?thesis by (simp add: ok failed read)
qed

subsection \<open>The finalized state survives a restart\<close>

definition state_codec_ok :: "state_codec \<Rightarrow> bool" where
  "state_codec_ok C \<longleftrightarrow> (\<forall>state bytes. state_to_json C state = Some bytes \<longrightarrow> state_from_json C bytes = Some state)"

lemma edb_put_wf: "hm_wf (edb_pending d) \<Longrightarrow> hm_wf (edb_pending (edb_put d key data))"
  by (simp add: edb_put_def)

lemma put_locations:
  assumes "for_each (put_location C) table d = Ok d'" and "hm_wf (edb_pending d)"
  shows "edb_get S d' ''canonical/current'' = edb_get S d ''canonical/current'' \<and> hm_wf (edb_pending d')"
  using assms
proof (induction table arbitrary: d)
  case (Cons e table)
  obtain i l where e: "e = (i, l)" by (cases e)
  with Cons.prems(1) obtain bytes where "for_each (put_location C) table (edb_put d (''transaction/'' @ i) bytes) = Ok d'"
    by (cases "location_to_json C l") (auto simp: put_location_def)
  from Cons.IH [OF this edb_put_wf [OF Cons.prems(2)]] show ?case by (simp add: edb_get_put)
qed simp

lemma canonical_writes_current:
  assumes "canonical_writes C state bytes d = Ok d'" and "hm_wf (edb_pending d)"
  shows "edb_get S d' ''canonical/current'' = Ok (Some bytes)" and "hm_wf (edb_pending d')"
proof -
  obtain pair where "for_each (put_location C) (cs_transaction_index state)
      (edb_put (edb_put d ''canonical/current'' bytes) (''canonical/height/'' @ padded 20 (cs_height state)) pair) = Ok d'"
    using assms(1) unfolding canonical_writes_def
    by (cases "pair_to_json C (cs_block_hash state, cs_state_root state)") simp_all
  from put_locations [OF this, of S] assms(2)
  show "edb_get S d' ''canonical/current'' = Ok (Some bytes)" and "hm_wf (edb_pending d')"
    by (simp_all add: edb_put_wf edb_get_put)
qed

lemma edb_open_Ok:
  assumes "edb_open S f = (f', Ok d)"
  shows "edb_pending d = []" and "edb_file d = dbf_sqlite f'" and "dbf_legacy f' = None"
proof -
  have "edb_pending (fst (import_legacy S \<lparr>edb_file = db, edb_pending = []\<rparr> parsed)) = []" for db parsed
    by (auto simp: import_legacy_def split: option.split result.split prod.split)
  then show "edb_pending d = []" and "edb_file d = dbf_sqlite f'" and "dbf_legacy f' = None"
    using assms by (auto simp: edb_open_def Let_def split: result.splits option.splits prod.splits) (metis fst_conv)+
qed

text \<open>
  The finalized state is read back.  When the store has committed the state of a chain and the
  database can be opened again, loading it returns exactly that state.
\<close>

theorem state_store_roundtrip:
  assumes "sqlite_laws S" and "state_codec_ok C"
    and "state_store_commit E S C store chain = (store', Ok state)"
    and "edb_initialize S (dbf_sqlite (sts_files store')) = Ok db"
  shows "snd (state_store_load S C store') = Ok (Some (canonical_from_chain E chain))"
proof -
  let ?state = "canonical_from_chain E chain"
  obtain bytes f d d1 d2 g where json: "state_to_json C ?state = Some bytes"
    and open1: "edb_open S (sts_files store) = (f, Ok d)" and writes: "canonical_writes C ?state bytes d = Ok d1"
    and commit: "edb_commit S d1 = (d2, Ok g)"
    and store': "store' = store\<lparr>sts_files := f\<lparr>dbf_sqlite := edb_file d2\<rparr>, sts_mirror := Some bytes\<rparr>"
    using assms(3) unfolding state_store_commit_def
    by (auto simp: Let_def split: option.splits result.splits prod.splits)
  have "hm_wf (edb_pending d)" by (simp add: edb_open_Ok [OF open1])
  note w = canonical_writes_current [OF writes this]
  have "sql_select S (edb_file d2) ''canonical/current'' = Ok (Some bytes)"
    using edb_commit_view [OF assms(1) w(2) commit, of "''canonical/current''"] w(1) [of S] by simp
  moreover obtain db1 where "sql_initialize S (edb_file d2) = Ok db1" and "db = db1"
    using assms(4) store' by (cases "sql_initialize S (edb_file d2)") (auto simp: edb_initialize_def split: result.splits if_splits)
  ultimately have "edb_get S \<lparr>edb_file = db, edb_pending = []\<rparr> ''canonical/current'' = Ok (Some bytes)"
    using rowD(6) [OF assms(1)] by (simp add: edb_get_def)
  moreover have "edb_open S (sts_files store') = ((sts_files store')\<lparr>dbf_sqlite := db\<rparr>, Ok \<lparr>edb_file = db, edb_pending = []\<rparr>)"
    using assms(4) store' edb_open_Ok(3) [OF open1] by (simp add: edb_open_def Let_def)
  moreover have "decode_state C bytes = Ok (Some ?state)"
    using assms(2) json by (simp add: decode_state_def state_codec_ok_def validate_schema_def canonical_from_chain_def)
  ultimately show ?thesis by (simp add: state_store_load_def)
qed

text \<open>The state of a new chain, stored in an empty database.\<close>

definition one_state_codec :: "canonical_state \<Rightarrow> state_codec" where
  "one_state_codec s0 = \<lparr>state_to_json = (\<lambda>s. if s = s0 then Some [1] else None), state_from_json = (\<lambda>_. Some s0),
     pair_to_json = (\<lambda>_. Some []), location_to_json = (\<lambda>_. Some [])\<rparr>"

definition empty_store :: "((string, u8 list) hmap \<times> (string, int) hmap) state_store" where
  "empty_store = \<lparr>sts_files = \<lparr>dbf_sqlite = ([], []), dbf_legacy = None\<rparr>, sts_mirror = None\<rparr>"

definition new_chain :: blockchain where
  "new_chain = with_chain_id toy_ext 7 []"

definition stored_new_chain :: "((string, u8 list) hmap \<times> (string, int) hmap) state_store" where
  "stored_new_chain = fst (state_store_commit toy_ext mem_sqlite (one_state_codec (canonical_from_chain toy_ext new_chain)) empty_store new_chain)"

lemma mem_edb_initialize:
  "hm_get meta ''schema_version'' = Some 2 \<Longrightarrow> edb_initialize mem_sqlite (rows, meta) = Ok (rows, meta)"
  by (simp add: edb_initialize_def edb_metadata_def mem_sqlite_def SCHEMA_VERSION_def hm_contains_def)

lemma one_state_writes:
  fixes d :: "'db embedded_db"
  shows "\<exists>d1. canonical_writes (one_state_codec s0) s0 [1] d = Ok d1 \<and> edb_file d1 = edb_file d"
proof -
  let ?height = "''canonical/height/'' @ padded 20 (cs_height s0)"
  have locations: "\<exists>d1. for_each (put_location (one_state_codec s0)) table d = Ok d1 \<and> edb_file d1 = edb_file d" for table and d :: "'db embedded_db"
  proof (induction table arbitrary: d)
    case (Cons e table)
    obtain i l where e: "e = (i, l)" by (cases e)
    from Cons [of "edb_put d (''transaction/'' @ i) []"] show ?case
      by (simp add: e put_location_def one_state_codec_def edb_put_def)
  qed simp
  have "pair_to_json (one_state_codec s0) p = Some []" for p by (simp add: one_state_codec_def)
  then show ?thesis
    using locations [of "cs_transaction_index s0" "edb_put (edb_put d ''canonical/current'' [1]) ?height []"]
    by (simp add: canonical_writes_def) (simp add: edb_put_def)
qed

lemma empty_store_commit:
  fixes E chain
  defines "s0 \<equiv> canonical_from_chain E chain"
  shows "\<exists>store'. state_store_commit E mem_sqlite (one_state_codec s0) empty_store chain = (store', Ok s0)
    \<and> is_ok (edb_initialize mem_sqlite (dbf_sqlite (sts_files store')))"
proof -
  let ?C = "one_state_codec s0"
  let ?meta = "[(''schema_version'', 2), (''generation'', 0)] :: (string, int) hmap"
  let ?d = "\<lparr>edb_file = ([], ?meta), edb_pending = []\<rparr> :: ((string, u8 list) hmap \<times> (string, int) hmap) embedded_db"
  let ?meta1 = "hm_insert ?meta ''generation'' (int (saturating_add 64 0 1))"
  have opened: "edb_open mem_sqlite (sts_files empty_store) = (\<lparr>dbf_sqlite = ([], ?meta), dbf_legacy = None\<rparr>, Ok ?d)"
    by (simp add: edb_open_def edb_initialize_def empty_store_def edb_metadata_def mem_sqlite_def SCHEMA_VERSION_def hm_get_def hm_contains_def)
  obtain d1 where d1: "canonical_writes ?C s0 [1] ?d = Ok d1" "edb_file d1 = ([], ?meta)" using one_state_writes [of s0 ?d] by auto
  obtain rows where "edb_commit mem_sqlite d1 = (d1\<lparr>edb_file := (rows, ?meta1), edb_pending := []\<rparr>, Ok (saturating_add 64 0 1))"
    using mem_commit [OF d1(2), of 0] by (auto simp: hm_get_def)
  moreover have "state_to_json ?C s0 = Some [1]" by (simp add: one_state_codec_def)
  moreover have "is_ok (edb_initialize mem_sqlite (rows, ?meta1))"
    using mem_edb_initialize [of ?meta1 rows] by (simp add: hm_insert_def hm_get_def)
  ultimately show ?thesis using d1(1) by (simp add: state_store_commit_def Let_def opened flip: s0_def)
qed

lemma stored_new_chain_ok:
  "state_store_commit toy_ext mem_sqlite (one_state_codec (canonical_from_chain toy_ext new_chain)) empty_store new_chain
     = (stored_new_chain, Ok (canonical_from_chain toy_ext new_chain))"
  "\<exists>db. edb_initialize mem_sqlite (dbf_sqlite (sts_files stored_new_chain)) = Ok db"
  using empty_store_commit [of toy_ext new_chain] by (auto simp: stored_new_chain_def elim: is_ok.elims)

theorem state_store_roundtrip_witness:
  "snd (state_store_load mem_sqlite (one_state_codec (canonical_from_chain toy_ext new_chain)) stored_new_chain)
     = Ok (Some (canonical_from_chain toy_ext new_chain))"
proof -
  obtain db where "edb_initialize mem_sqlite (dbf_sqlite (sts_files stored_new_chain)) = Ok db"
    using stored_new_chain_ok(2) by blast
  moreover have "state_codec_ok (one_state_codec s0)" for s0 by (simp add: state_codec_ok_def one_state_codec_def)
  ultimately show ?thesis using state_store_roundtrip [OF mem_sqlite_laws(1)] stored_new_chain_ok(1) by blast
qed

end
