(* ===== verification/Archive.thy ===== *)
theory Archive
  imports Storage "HOL-Library.Multiset"
begin

text \<open>
  The archive of finalized blocks (\<^verbatim>\<open>src/src/archive.rs\<close>): a bounded active file, backups by month
  and year, checkpoints and certified snapshots.  A directory is a map from file names to contents
  (a compressed file is its contents), an absent file is None; errors of the file system are not
  modelled.  The length of a block's JSON is a parameter, None when it cannot be written.
\<close>

subsection \<open>Months\<close>

text \<open>
  Year and month of a time in seconds, with the arithmetic of \<^verbatim>\<open>period_from_timestamp\<close> (the number
  of days is never negative, so the divisions round down).
\<close>

definition civil_month :: "nat \<Rightarrow> int \<times> int" where
  "civil_month timestamp =
     (let days = int (timestamp div 86400);
          z = days + 719468;
          era = (if z \<ge> 0 then z else z - 146096) div 146097;
          doe = z - era * 146097;
          yoe = (doe - doe div 1460 + doe div 36524 - doe div 146096) div 365;
          year = yoe + era * 400;
          doy = doe - (365 * yoe + yoe div 4 - yoe div 100);
          mp = (5 * doy + 2) div 153;
          month = mp + (if mp < 10 then 3 else - 9)
      in (year + (if month \<le> 2 then 1 else 0), month))"

definition period_from_timestamp :: "nat \<Rightarrow> string" where
  "period_from_timestamp timestamp =
     (let (year, month) = civil_month timestamp
      in padded 4 (nat year) @ padded 2 (nat month) @ ''M'')"

subsection \<open>State\<close>

definition MAX_ACTIVE_BLOCK_BYTES :: nat where
  "MAX_ACTIVE_BLOCK_BYTES = 100000000"

definition RETAIN_CERTIFIED_SNAPSHOTS :: nat where
  "RETAIN_CERTIFIED_SNAPSHOTS = 6"

record certified_snapshot =
  cert_snapshot :: state_snapshot
  cert_certificate :: snapshot_certificate

record archive_store =
  arc_max_active_bytes :: nat
  arc_active :: "block list option"
  arc_period :: "string option"
  arc_backups :: "(string, block list) hmap"
  arc_checkpoints :: "(string, state_snapshot) hmap"
  arc_certified :: "(string, certified_snapshot) hmap"

record archive_status =
  ars_active_bytes :: nat
  ars_max_active_bytes :: nat
  ars_active_period :: string
  ars_latest_checkpoint :: "string option"
  ars_latest_checkpoint_height :: "nat option"
  ars_certified_snapshot_count :: nat
  ars_latest_certified_snapshot_height :: "nat option"
  ars_backups :: "string list"

text \<open>\<^verbatim>\<open>ArchiveStore::new\<close> on the files of an earlier run.\<close>

definition archive_new :: "nat \<Rightarrow> archive_store \<Rightarrow> archive_store result" where
  "archive_new max_active_bytes disk =
     (if max_active_bytes = 0 \<or> max_active_bytes > MAX_ACTIVE_BLOCK_BYTES then Err (EStorage ActiveLimit)
      else Ok (disk\<lparr>arc_max_active_bytes := max_active_bytes\<rparr>))"

definition empty_archive :: "nat \<Rightarrow> archive_store" where
  "empty_archive max_active_bytes = \<lparr>arc_max_active_bytes = max_active_bytes, arc_active = None, arc_period = None,
     arc_backups = [], arc_checkpoints = [], arc_certified = []\<rparr>"

subsection \<open>Appending\<close>

definition record_bytes :: "(block \<Rightarrow> u8 list option) \<Rightarrow> block \<Rightarrow> nat" where
  "record_bytes J b = (case J b of None \<Rightarrow> 0 | Some bytes \<Rightarrow> length bytes + 1)"

definition active_blocks :: "archive_store \<Rightarrow> block list" where
  "active_blocks a = (case arc_active a of None \<Rightarrow> [] | Some blocks \<Rightarrow> blocks)"

text \<open>\<^verbatim>\<open>directory_bytes\<close> of the active directory: the block file and the period file.\<close>

definition active_bytes :: "(block \<Rightarrow> u8 list option) \<Rightarrow> archive_store \<Rightarrow> nat" where
  "active_bytes J a =
     saturating_add 64 (sum_list (map (record_bytes J) (active_blocks a)))
       (case arc_period a of None \<Rightarrow> 0 | Some period \<Rightarrow> length period)"

text \<open>\<^verbatim>\<open>unique_backup_path\<close>: among more parts than there are files, one is free.\<close>

definition backup_part :: "string \<Rightarrow> nat \<Rightarrow> string" where
  "backup_part period part = period @ ''-part'' @ padded 2 part @ ''.jsonl.zst''"

definition unique_backup_name :: "archive_store \<Rightarrow> string \<Rightarrow> string" where
  "unique_backup_name a period =
     (if \<not> hm_contains (arc_backups a) (period @ ''.jsonl.zst'') then period @ ''.jsonl.zst'' else
      backup_part period (hd (filter (\<lambda>part. \<not> hm_contains (arc_backups a) (backup_part period part))
        [2..<length (arc_backups a) + 3])))"

definition checkpoint_name :: "string \<Rightarrow> nat \<Rightarrow> string" where
  "checkpoint_name period height = period @ ''-h'' @ padded 12 height @ ''.json''"

definition rollover :: "ext \<Rightarrow> archive_store \<Rightarrow> blockchain \<Rightarrow> string \<Rightarrow> archive_store" where
  "rollover E a chain period =
     (case arc_active a of
        None \<Rightarrow> a
      | Some blocks \<Rightarrow>
          let snapshot = snapshot_from_chain E chain in
          a\<lparr>arc_checkpoints := hm_insert (arc_checkpoints a) (checkpoint_name period (snap_height snapshot)) snapshot,
            arc_backups := hm_insert (arc_backups a) (unique_backup_name a period) blocks,
            arc_active := None, arc_period := None\<rparr>)"

definition append_finalized ::
  "ext \<Rightarrow> (block \<Rightarrow> u8 list option) \<Rightarrow> archive_store \<Rightarrow> block \<Rightarrow> blockchain \<Rightarrow> archive_store \<times> unit result" where
  "append_finalized E J a b chain_before =
     (let period = period_from_timestamp (blk_timestamp b) in
      case J b of None \<Rightarrow> (a, Err (EStorage StateEncode)) | Some bytes \<Rightarrow>
      let n = length bytes + 1 in
      if n > arc_max_active_bytes a then (a, Err (EStorage BlockTooLarge)) else
      let current = arc_period a;
          a1 = (if (case current of None \<Rightarrow> False | Some p \<Rightarrow> p \<noteq> period)
                  \<or> wrapping_add 64 (active_bytes J a) n > arc_max_active_bytes a
                then rollover E a chain_before (case current of None \<Rightarrow> period | Some p \<Rightarrow> p) else a)
      in (a1\<lparr>arc_active := Some (active_blocks a1 @ [b]), arc_period := Some period\<rparr>, Ok ()))"

subsection \<open>Snapshots\<close>

definition ascii_digit :: "char \<Rightarrow> bool" where
  "ascii_digit c = (let n = of_char c :: nat in 48 \<le> n \<and> n \<le> 57)"

definition checkpoint_height :: "string \<Rightarrow> nat option" where
  "checkpoint_height name =
     (case dropWhile (\<lambda>c. c \<noteq> CHR ''h'') name of
        [] \<Rightarrow> None
      | _ # rest \<Rightarrow>
          let digits = takeWhile ascii_digit rest; n = decimal_value 0 digits
          in if digits = [] \<or> n \<ge> 2 ^ 64 then None else Some n)"

definition latest :: "(string, 'a) hmap \<Rightarrow> (string \<times> 'a) option" where
  "latest files = (if files = [] then None else Some (last (sort_key fst files)))"

definition load_latest_snapshot :: "archive_store \<Rightarrow> state_snapshot option" where
  "load_latest_snapshot a = map_option snd (latest (arc_checkpoints a))"

definition archive_status_of :: "(block \<Rightarrow> u8 list option) \<Rightarrow> archive_store \<Rightarrow> archive_status" where
  "archive_status_of J a =
     \<lparr>ars_active_bytes = active_bytes J a, ars_max_active_bytes = arc_max_active_bytes a,
      ars_active_period = (case arc_period a of None \<Rightarrow> [] | Some p \<Rightarrow> p),
      ars_latest_checkpoint = map_option fst (latest (arc_checkpoints a)),
      ars_latest_checkpoint_height = Option.bind (latest (arc_checkpoints a)) (checkpoint_height \<circ> fst),
      ars_certified_snapshot_count = length (arc_certified a),
      ars_latest_certified_snapshot_height = Option.bind (latest (arc_certified a)) (checkpoint_height \<circ> fst),
      ars_backups = sort (map fst (arc_backups a))\<rparr>"

definition pending_certification :: "(block \<Rightarrow> u8 list option) \<Rightarrow> archive_store \<Rightarrow> state_snapshot option" where
  "pending_certification J a =
     (case load_latest_snapshot a of
        None \<Rightarrow> None
      | Some snapshot \<Rightarrow>
          if ars_latest_certified_snapshot_height (archive_status_of J a) \<noteq> Some (snap_height snapshot)
          then Some snapshot else None)"

definition certified_name :: "state_snapshot \<Rightarrow> string" where
  "certified_name s = ''h'' @ padded 12 (snap_height s) @ ''-'' @ take 12 (snap_state_hash s) @ ''.json''"

definition persist_certified_snapshot ::
  "archive_store \<Rightarrow> state_snapshot \<Rightarrow> snapshot_certificate \<Rightarrow> archive_store" where
  "persist_certified_snapshot a snapshot certificate =
     (let certified = hm_insert (arc_certified a) (certified_name snapshot)
            \<lparr>cert_snapshot = snapshot, cert_certificate = certificate\<rparr>;
          remove_count = saturating_sub (length certified) RETAIN_CERTIFIED_SNAPSHOTS;
          old = take remove_count (sort (map fst certified))
      in a\<lparr>arc_certified := filter (\<lambda>(name, _). name \<notin> set old) certified\<rparr>)"

subsection \<open>Reading\<close>

definition load_active_blocks :: "archive_store \<Rightarrow> block list" where
  "load_active_blocks a = active_blocks a"

definition ends_with :: "string \<Rightarrow> string \<Rightarrow> bool" where
  "ends_with text ending = (take (length ending) (rev text) = rev ending)"

definition read_backup_blocks :: "archive_store \<Rightarrow> block list" where
  "read_backup_blocks a =
     sort_key blk_height (concat (map snd (filter (\<lambda>(name, _).
       ends_with name ''.jsonl'' \<or> ends_with name ''.jsonl.zst'') (arc_backups a))))"

text \<open>\<^verbatim>\<open>dedup_by_key\<close> keeps the first of neighbours with the same height.\<close>

fun dedup_by_height :: "block list \<Rightarrow> block list" where
  "dedup_by_height (a # b # bs) =
     (if blk_height a = blk_height b then dedup_by_height (a # bs) else a # dedup_by_height (b # bs))"
| "dedup_by_height bs = bs"

definition load_all_blocks :: "archive_store \<Rightarrow> block list" where
  "load_all_blocks a = dedup_by_height (sort_key blk_height (read_backup_blocks a @ load_active_blocks a))"

definition archive_block_by_height :: "archive_store \<Rightarrow> nat \<Rightarrow> block option" where
  "archive_block_by_height a height = find (\<lambda>b. blk_height b = height) (load_all_blocks a)"

definition archive_block_by_hash :: "archive_store \<Rightarrow> string \<Rightarrow> block option" where
  "archive_block_by_hash a hash = find (\<lambda>b. blk_hash b = trim_0x hash) (load_all_blocks a)"

definition archive_transaction_by_hash :: "ext \<Rightarrow> archive_store \<Rightarrow> string \<Rightarrow> (block \<times> nat \<times> transaction) option" where
  "archive_transaction_by_hash E a hash = find_in_blocks E (trim_0x hash) (load_all_blocks a)"

subsection \<open>Compaction\<close>

definition monthly_name :: "nat \<Rightarrow> string \<Rightarrow> bool" where
  "monthly_name year name \<longleftrightarrow> take (length (padded 4 year)) name = padded 4 year \<and> CHR ''M'' \<in> set name"

definition compact_year :: "archive_store \<times> string list \<Rightarrow> nat \<Rightarrow> archive_store \<times> string list" where
  "compact_year = (\<lambda>(a, created) year.
     let annual = padded 4 year @ ''.jsonl.zst'';
         monthly = sort_key fst (filter (\<lambda>(name, _). monthly_name year name) (arc_backups a))
     in if monthly = [] then (a, created)
        else (a\<lparr>arc_backups := filter (\<lambda>(name, _). name \<notin> fst ` set monthly)
                  (hm_insert (arc_backups a) annual (concat (map snd monthly)))\<rparr>, created @ [annual]))"

definition compact_old_backups :: "archive_store \<Rightarrow> int \<Rightarrow> archive_store \<times> string list" where
  "compact_old_backups a current_year =
     foldl compact_year (a, []) [1970..<nat (current_year - 1)]"

subsection \<open>Names\<close>

lemma decimal_value_zeros: "decimal_value 0 (replicate k (CHR ''0'') @ s) = decimal_value 0 s"
  by (induction k) simp_all

lemma padded_value: "decimal_value 0 (padded w n) = n"
  by (simp add: padded_def decimal_value_zeros decimal_value_decimal)

lemma padded_inj: "padded w m = padded w n \<longleftrightarrow> m = n"
  by (metis padded_value)

lemma backup_part_inj: "backup_part period m = backup_part period n \<longleftrightarrow> m = n"
  by (simp add: backup_part_def padded_inj)

lemma free_part:
  assumes "finite names" and "card names \<le> k"
  shows "\<exists>part \<in> {2..<k + 3}. backup_part period part \<notin> names"
proof (rule ccontr)
  assume "\<not> ?thesis"
  then have "backup_part period ` {2..<k + 3} \<subseteq> names" by auto
  then have "card (backup_part period ` {2..<k + 3}) \<le> card names" using assms(1) by (intro card_mono)
  moreover have "inj_on (backup_part period) {2..<k + 3}" by (auto simp: inj_on_def backup_part_inj)
  ultimately show False using assms(2) by (simp add: card_image)
qed

lemma unique_backup_name_fresh: "\<not> hm_contains (arc_backups a) (unique_backup_name a period)"
proof (cases "hm_contains (arc_backups a) (period @ ''.jsonl.zst'')")
  case True
  let ?free = "filter (\<lambda>part. \<not> hm_contains (arc_backups a) (backup_part period part)) [2..<length (arc_backups a) + 3]"
  have "card (fst ` set (arc_backups a)) \<le> length (arc_backups a)"
    by (metis card_length image_set length_map)
  then have "?free \<noteq> []"
    using free_part [of "fst ` set (arc_backups a)" "length (arc_backups a)" period]
    unfolding filter_empty_conv hm_contains_def hm_get_dom by auto
  then have "hd ?free \<in> set ?free" by (rule hd_in_set)
  with True show ?thesis by (simp add: unique_backup_name_def)
qed (simp add: unique_backup_name_def)

lemma unique_backup_name_ends: "ends_with (unique_backup_name a period) ''.jsonl.zst''"
  by (simp add: unique_backup_name_def backup_part_def ends_with_def)

subsection \<open>Nothing is lost\<close>

text \<open>All blocks on disk, in the order of the files.\<close>

definition stored_blocks :: "archive_store \<Rightarrow> block list" where
  "stored_blocks a = concat (map snd (arc_backups a)) @ active_blocks a"

definition backups_ok :: "archive_store \<Rightarrow> bool" where
  "backups_ok a \<longleftrightarrow> hm_wf (arc_backups a) \<and> (\<forall>(name, _) \<in> set (arc_backups a). ends_with name ''.jsonl.zst'')"

lemma hm_insert_new: "\<not> hm_contains m k \<Longrightarrow> hm_insert m k v = m @ [(k, v)]"
  by (induction m) (auto simp: hm_insert_def hm_contains_def hm_get_def split: if_splits)

lemma rollover_stored:
  assumes "backups_ok a"
  shows "stored_blocks (rollover E a chain period) = stored_blocks a \<and> backups_ok (rollover E a chain period)"
proof (cases "arc_active a")
  case (Some blocks)
  note insert = hm_insert_new [OF unique_backup_name_fresh [of a period]]
  have "hm_wf (hm_insert (arc_backups a) (unique_backup_name a period) blocks)"
    using assms by (simp add: backups_ok_def)
  with assms Some show ?thesis
    by (auto simp: rollover_def Let_def stored_blocks_def active_blocks_def backups_ok_def insert unique_backup_name_ends)
qed (use assms in \<open>simp add: rollover_def\<close>)

lemma append_stored:
  assumes "backups_ok a" and "append_finalized E J a b chain = (a', Ok ())"
  shows "stored_blocks a' = stored_blocks a @ [b] \<and> backups_ok a'"
proof -
  obtain a1 where "a1 = a \<or> (\<exists>period. a1 = rollover E a chain period)"
    and "a' = a1\<lparr>arc_active := Some (active_blocks a1 @ [b]), arc_period := Some (period_from_timestamp (blk_timestamp b))\<rparr>"
    using assms(2) by (auto simp: append_finalized_def Let_def split: option.splits if_splits)
  with assms(1) rollover_stored [OF assms(1), of E chain] show ?thesis
    by (auto simp: stored_blocks_def active_blocks_def backups_ok_def)
qed

text \<open>
  An archive and the blocks appended to it, oldest first.  Appending can fail, snapshots are
  certified in between, and the node may roll the active file over at any time.
\<close>

inductive archive_run :: "ext \<Rightarrow> (block \<Rightarrow> u8 list option) \<Rightarrow> archive_store \<Rightarrow> block list \<Rightarrow> bool" for E J where
  start: "archive_run E J (empty_archive max_bytes) []"
| append: "archive_run E J a bs \<Longrightarrow> append_finalized E J a b chain = (a', Ok ()) \<Longrightarrow> archive_run E J a' (bs @ [b])"
| refuse: "archive_run E J a bs \<Longrightarrow> append_finalized E J a b chain = (a', Err e) \<Longrightarrow> archive_run E J a' bs"
| certify: "archive_run E J a bs \<Longrightarrow> archive_run E J (persist_certified_snapshot a snapshot certificate) bs"
| roll: "archive_run E J a bs \<Longrightarrow> archive_run E J (rollover E a chain period) bs"

lemma append_refused: "append_finalized E J a b chain = (a', Err e) \<Longrightarrow> a' = a"
  by (auto simp: append_finalized_def Let_def split: option.splits if_splits)

lemma archive_run_stored: "archive_run E J a bs \<Longrightarrow> stored_blocks a = bs \<and> backups_ok a"
proof (induction rule: archive_run.induct)
  case (start max_bytes)
  show ?case by (simp add: stored_blocks_def active_blocks_def empty_archive_def backups_ok_def)
next
  case (append a bs b chain a')
  then show ?case using append_stored [of a E J b chain a'] by simp
next
  case (refuse a bs b chain a' e)
  then show ?case using append_refused by metis
next
  case (certify a bs snapshot certificate)
  then show ?case by (simp add: persist_certified_snapshot_def Let_def stored_blocks_def active_blocks_def backups_ok_def)
next
  case (roll a bs chain period)
  then show ?case using rollover_stored [of a E chain period] by simp
qed

lemma dedup_by_height_strict: "sorted_wrt (<) (map blk_height bs) \<Longrightarrow> dedup_by_height bs = bs"
  by (induction bs rule: dedup_by_height.induct) auto

lemma sort_key_sorted_mset:
  assumes "sorted_wrt (<) (map f ys)" and "mset xs = mset ys"
  shows "sort_key f xs = ys"
proof (rule properties_for_sort_key)
  show "mset ys = mset xs" using assms(2) by simp
  show "sorted (map f ys)" using assms(1) by (rule strict_sorted_imp_sorted)
  have inj: "distinct (map f ys)" using assms(1) strict_sorted_iff by blast
  fix k
  assume "k \<in> set ys"
  have one: "filter (\<lambda>x. f k = f x) ys = [k]"
    using inj \<open>k \<in> set ys\<close>
  proof (induction ys)
    case (Cons y ys)
    then show ?case by (cases "k = y") (auto simp: filter_empty_conv image_iff)
  qed simp
  have "mset (filter (\<lambda>x. f k = f x) xs) = mset (filter (\<lambda>x. f k = f x) ys)" using assms(2) by (simp add: mset_filter)
  also have "\<dots> = {#k#}" unfolding one by simp
  finally have "filter (\<lambda>x. f k = f x) xs = [k]" unfolding mset_single_iff .
  with one show "filter (\<lambda>x. f k = f x) ys = filter (\<lambda>x. f k = f x) xs" by simp
qed

text \<open>
  C19.  The archive keeps the whole history.  Whatever the sizes and months of the blocks, however
  often the active file is moved to the backups and whichever snapshots are certified, reading all
  blocks returns exactly the appended ones, in the order of their heights.
\<close>

theorem archive_keeps_history:
  assumes "archive_run E J a bs" and "sorted_wrt (<) (map blk_height bs)"
  shows "load_all_blocks a = bs"
proof -
  have stored: "stored_blocks a = bs" and ok: "backups_ok a" using archive_run_stored [OF assms(1)] by simp_all
  have "filter (\<lambda>(name, _). ends_with name ''.jsonl'' \<or> ends_with name ''.jsonl.zst'') (arc_backups a) = arc_backups a"
    using ok by (auto simp: backups_ok_def intro!: filter_True)
  then have "mset (read_backup_blocks a @ load_active_blocks a) = mset (stored_blocks a)"
    by (simp add: read_backup_blocks_def load_active_blocks_def stored_blocks_def)
  then have "sort_key blk_height (read_backup_blocks a @ load_active_blocks a) = bs"
    unfolding stored by (rule sort_key_sorted_mset [OF assms(2)])
  then show ?thesis using dedup_by_height_strict [OF assms(2)] by (simp add: load_all_blocks_def)
qed

text \<open>A block in January 1970 and one in February.\<close>

definition month_block :: "nat \<Rightarrow> block" where
  "month_block h = \<lparr>blk_height = h, blk_previous_hash = [], blk_timestamp = 2678400 * h, blk_producer = [],
     blk_transactions = [], blk_system_events = [], blk_hash = []\<rparr>"

definition month_archive :: "nat \<Rightarrow> archive_store" where
  "month_archive n = (if n = 0 then empty_archive 1000 else
     fst (append_finalized toy_ext (\<lambda>_. Some [1]) (if n = 1 then empty_archive 1000
       else fst (append_finalized toy_ext (\<lambda>_. Some [1]) (empty_archive 1000) (month_block 0) new_chain)) (month_block (n - 1)) new_chain))"

theorem archive_keeps_history_witness:
  "load_all_blocks (month_archive 2) = [month_block 0, month_block 1]"
proof (rule archive_keeps_history)
  let ?J = "\<lambda>_ :: block. Some [1 :: u8]"
  have max: "arc_max_active_bytes (empty_archive 1000) = 1000" "arc_max_active_bytes (month_archive 1) = 1000"
    by (simp_all add: empty_archive_def month_archive_def append_finalized_def Let_def rollover_def)
  have ok: "snd (append_finalized toy_ext ?J a b c) = Ok ()" if "2 \<le> arc_max_active_bytes a" for a b c
    using that by (simp add: append_finalized_def Let_def)
  have "archive_run toy_ext ?J (month_archive 1) ([] @ [month_block 0])"
    by (rule archive_run.append [OF archive_run.start [of _ _ 1000], where chain = new_chain])
      (use ok max in \<open>simp add: month_archive_def prod_eq_iff\<close>)
  moreover have "append_finalized toy_ext ?J (month_archive 1) (month_block 1) new_chain = (month_archive 2, Ok ())"
    using ok max by (simp add: month_archive_def prod_eq_iff)
  ultimately show "archive_run toy_ext ?J (month_archive 2) [month_block 0, month_block 1]"
    using archive_run.append by fastforce
  show "sorted_wrt (<) (map blk_height [month_block 0, month_block 1])" by (simp add: month_block_def)
qed

text \<open>
  Compaction keeps the blocks of a year that was not compacted before; the annual file of an
  earlier compaction is replaced, and its blocks are gone unless they are in other files.
\<close>

lemma compact_year_keeps:
  assumes "hm_wf (arc_backups a)" and "\<not> hm_contains (arc_backups a) (padded 4 year @ ''.jsonl.zst'')"
    and "\<not> monthly_name year (padded 4 year @ ''.jsonl.zst'')"
  shows "mset (stored_blocks (fst (compact_year (a, created) year))) = mset (stored_blocks a)"
proof -
  let ?m = "\<lambda>(name :: string, _ :: block list). monthly_name year name"
  have "filter (\<lambda>(name, _). name \<notin> fst ` set (filter ?m (arc_backups a))) (arc_backups a) = filter (\<lambda>e. \<not> ?m e) (arc_backups a)"
    by (rule filter_cong) (auto simp: image_iff)
  moreover have "mset (concat (map snd (filter ?m fs))) + mset (concat (map snd (filter (\<lambda>e. \<not> ?m e) fs))) = mset (concat (map snd fs))" for fs
    by (induction fs) auto
  moreover have "mset (concat (map snd (sort_key fst fs))) = mset (concat (map snd fs))" for fs :: "(string \<times> block list) list"
  proof -
    have "sum_list (map (mset \<circ> snd) (sort_key fst fs)) = sum_list (map (mset \<circ> snd) fs)"
      by (simp flip: sum_mset_sum_list)
    then show ?thesis by (simp add: mset_concat)
  qed
  moreover have "arc_backups (fst (compact_year (a, created) year)) = (if filter ?m (arc_backups a) = [] then arc_backups a else
      filter (\<lambda>(name, _). name \<notin> fst ` set (filter ?m (arc_backups a))) (arc_backups a)
        @ [(padded 4 year @ ''.jsonl.zst'', concat (map snd (sort_key fst (filter ?m (arc_backups a)))))])"
    using assms(2,3) by (auto simp: compact_year_def Let_def hm_insert_new simp flip: set_empty)
  moreover have "arc_active (fst (compact_year (a, created) year)) = arc_active a" by (simp add: compact_year_def Let_def)
  ultimately show ?thesis
    by (cases "filter ?m (arc_backups a) = []") (simp_all add: stored_blocks_def active_blocks_def add.commute)
qed

lemma compact_year_replaces:
  assumes "filter (\<lambda>(name, _). monthly_name year name) (arc_backups a) \<noteq> []"
    and "\<not> monthly_name year (padded 4 year @ ''.jsonl.zst'')"
  shows "hm_get (arc_backups (fst (compact_year (a, created) year))) (padded 4 year @ ''.jsonl.zst'')
    = Some (concat (map snd (sort_key fst (filter (\<lambda>(name, _). monthly_name year name) (arc_backups a)))))"
proof -
  have get: "hm_get (filter (\<lambda>(name, _). P name) fs) k = (if P k then hm_get fs k else None)" for P k and fs :: "(string, block list) hmap"
    by (induction fs) (auto simp: hm_get_def)
  have "padded 4 year @ ''.jsonl.zst'' \<notin> fst ` set (filter (\<lambda>(name, _). monthly_name year name) (arc_backups a))"
    using assms(2) by auto
  moreover have "sort_key fst (filter (\<lambda>(name, _). monthly_name year name) (arc_backups a)) \<noteq> []"
    using assms(1) by (metis set_empty set_sort)
  ultimately show ?thesis by (simp add: compact_year_def Let_def get)
qed

end
