(* ===== verification/NodeState.thy ===== *)
theory NodeState
  imports Archive ChainSafety Mempool PeerServices Recovery Runtime
begin

text \<open>
  The shared state of a node and the handle the main loop uses (\<^verbatim>\<open>RpcState\<close>, \<^verbatim>\<open>RpcNodeHandle\<close>
  and \<^verbatim>\<open>RpcServer::new\<close> of \<^verbatim>\<open>src/src/rpc.rs\<close>): the ledger that queries see, the pool, the stores
  on disk, and how a node finds its ledger again when it starts.  Poisoned locks are not modelled;
  the assertions and \<^verbatim>\<open>expect\<close>s of the start are errors.
\<close>

subsection \<open>State\<close>

record rpc_peer_info =
  pi_address :: string
  pi_remote_ip :: "string option"
  pi_direction :: string
  pi_connections :: nat
  pi_connected_at :: nat

record 'db rpc_state =
  rs_chain :: blockchain
  rs_pool :: mempool
  rs_wallets :: "(string, account_wallet) hmap"
  rs_faucet_alias :: string
  rs_chain_id :: nat
  rs_archive :: archive_store
  rs_state_store :: "'db state_store"
  rs_peer_count :: nat
  rs_peers :: "(string, rpc_peer_info) hmap"
  rs_sync_current :: nat
  rs_sync_highest :: nat
  rs_sync_active :: bool
  rs_communication_inbox :: communication_inbox
  rs_communication_outbox :: communication_inbox
  rs_communication_rpc_enabled :: bool
  rs_personal_rpc_enabled :: bool
  rs_validators :: "validator list"
  rs_locked_addresses :: "string set"
  rs_finality_history :: "finality_certificate list"
  rs_block_time_ms :: nat
  rs_interest_policy :: validator_interest_policy
  rs_holder_policy :: holder_reward_policy
  rs_upgrade_schedule :: "protocol_upgrade list"

type_synonym ('db, 'a) rpc_action = "'db rpc_state \<times> 'a result"

text \<open>What the sources use of the world outside: the crates, SQLite, JSON.\<close>

record 'db environment =
  en_ext :: ext
  en_sqlite :: "'db sqlite"
  en_state_codec :: state_codec
  en_block_json :: "block \<Rightarrow> u8 list option"

subsection \<open>The handle of the main loop\<close>

definition pending_snapshot_certification :: "'db environment \<Rightarrow> 'db rpc_state \<Rightarrow> state_snapshot option" where
  "pending_snapshot_certification W s = pending_certification (en_block_json W) (rs_archive s)"

definition certify_snapshot :: "'db environment \<Rightarrow> 'db rpc_state \<Rightarrow> snapshot_certificate \<Rightarrow> ('db, unit) rpc_action" where
  "certify_snapshot W s certificate =
     (case load_latest_snapshot (rs_archive s) of
        None \<Rightarrow> (s, Err (EStorage NoLocalSnapshot))
      | Some snapshot \<Rightarrow>
          (case verify_snapshot (en_ext W) certificate snapshot (rs_validators s) of
             Err e \<Rightarrow> (s, Err e)
           | Ok _ \<Rightarrow> (s\<lparr>rs_archive := persist_certified_snapshot (rs_archive s) snapshot certificate\<rparr>, Ok ())))"

definition FINALITY_HISTORY_LIMIT :: nat where
  "FINALITY_HISTORY_LIMIT = 10000"

definition record_finality :: "'db rpc_state \<Rightarrow> finality_certificate \<Rightarrow> 'db rpc_state" where
  "record_finality s certificate =
     (let history = rs_finality_history s @ [certificate]
      in s\<lparr>rs_finality_history := drop (length history - FINALITY_HISTORY_LIMIT) history\<rparr>)"

definition drain_outbound_communication :: "'db rpc_state \<Rightarrow> 'db rpc_state \<times> communication_envelope list" where
  "drain_outbound_communication s =
     (case inbox_drain (rs_communication_outbox s) of
        (outbox, items) \<Rightarrow> (s\<lparr>rs_communication_outbox := outbox\<rparr>, items))"

definition receive_communication ::
  "'db environment \<Rightarrow> 'db rpc_state \<Rightarrow> communication_envelope \<Rightarrow> nat \<Rightarrow> ('db, unit) rpc_action" where
  "receive_communication W s envelope now =
     (case inbox_push (en_ext W) (rs_communication_inbox s) envelope now of
        (inbox, r) \<Rightarrow> (s\<lparr>rs_communication_inbox := inbox\<rparr>, r))"

definition drain_transactions :: "'db environment \<Rightarrow> 'db rpc_state \<Rightarrow> nat \<Rightarrow> 'db rpc_state \<times> transaction list" where
  "drain_transactions W s limit =
     (case mempool_drain (en_ext W) (rs_pool s) limit of (txs, pool) \<Rightarrow> (s\<lparr>rs_pool := pool\<rparr>, txs))"

definition has_pending_transactions :: "'db rpc_state \<Rightarrow> bool" where
  "has_pending_transactions s = (\<not> mempool_is_empty (rs_pool s))"

definition pending_transactions_snapshot :: "'db rpc_state \<Rightarrow> nat \<Rightarrow> transaction list" where
  "pending_transactions_snapshot s limit = mempool_snapshot (rs_pool s) limit"

definition debit_of :: "transaction \<Rightarrow> nat" where
  "debit_of tx = (case tx_action tx of Transfer \<Rightarrow> tx_amount tx | Delegate _ \<Rightarrow> tx_amount tx | _ \<Rightarrow> 0)"

definition can_pay :: "blockchain \<Rightarrow> transaction \<Rightarrow> bool" where
  "can_pay chain tx =
     (case checked_add 128 (debit_of tx) (tx_fee tx) of
        None \<Rightarrow> False
      | Some required \<Rightarrow> balance_of chain (tx_from tx) \<ge> required)"

definition transaction_is_admissible :: "ext \<Rightarrow> blockchain \<Rightarrow> transaction \<Rightarrow> bool" where
  "transaction_is_admissible E chain tx \<longleftrightarrow>
     \<not> (tx_nonce tx < chain_next_nonce chain (tx_from tx) \<or> \<not> is_ok (verify_transaction E tx)) \<and> can_pay chain tx"

definition restore_transactions :: "'db environment \<Rightarrow> 'db rpc_state \<Rightarrow> transaction list \<Rightarrow> 'db rpc_state" where
  "restore_transactions W s txs =
     s\<lparr>rs_pool := foldl (\<lambda>pool tx. if transaction_is_admissible (en_ext W) (rs_chain s) tx
                                  then add_ignoring (en_ext W) pool tx else pool) (rs_pool s) txs\<rparr>"

definition set_chain :: "'db rpc_state \<Rightarrow> blockchain \<Rightarrow> 'db rpc_state" where
  "set_chain s chain =
     s\<lparr>rs_chain := chain, rs_sync_current := tip_height chain,
       rs_sync_active := tip_height chain < rs_sync_highest s\<rparr>"

definition still_valid :: "ext \<Rightarrow> blockchain \<Rightarrow> transaction \<Rightarrow> bool" where
  "still_valid E chain tx \<longleftrightarrow>
     tx_nonce tx \<ge> chain_next_nonce chain (tx_from tx) \<and> can_pay chain tx \<and> is_ok (verify_transaction E tx)"

definition install_finalized ::
  "'db environment \<Rightarrow> 'db rpc_state \<Rightarrow> blockchain \<Rightarrow> blockchain \<Rightarrow> block \<Rightarrow> ('db, unit) rpc_action" where
  "install_finalized W s chain_before chain_after b =
     (case append_finalized (en_ext W) (en_block_json W) (rs_archive s) b chain_before of
        (archive, Err e) \<Rightarrow> (s\<lparr>rs_archive := archive\<rparr>, Err e)
      | (archive, Ok _) \<Rightarrow>
          let s1 = s\<lparr>rs_archive := archive\<rparr> in
          (case state_store_commit (en_ext W) (en_sqlite W) (en_state_codec W) (rs_state_store s1) chain_after of
             (store, Err e) \<Rightarrow> (s1\<lparr>rs_state_store := store\<rparr>, Err e)
           | (store, Ok _) \<Rightarrow>
               let s2 = set_chain (s1\<lparr>rs_state_store := store\<rparr>) chain_after
               in (s2\<lparr>rs_pool := retain_valid (en_ext W) (still_valid (en_ext W) chain_after) (rs_pool s2)\<rparr>, Ok ())))"

definition install_synced_chain :: "'db environment \<Rightarrow> 'db rpc_state \<Rightarrow> blockchain \<Rightarrow> ('db, unit) rpc_action" where
  "install_synced_chain W s chain =
     (case state_store_commit (en_ext W) (en_sqlite W) (en_state_codec W) (rs_state_store s) chain of
        (store, Err e) \<Rightarrow> (s\<lparr>rs_state_store := store\<rparr>, Err e)
      | (store, Ok _) \<Rightarrow> (set_chain (s\<lparr>rs_state_store := store\<rparr>) chain, Ok ()))"

definition chain_from_state_snapshot :: "state_snapshot \<Rightarrow> blockchain result" where
  "chain_from_state_snapshot snapshot =
     from_snapshot_with_staking (snap_chain_id snapshot) (snap_genesis_commitment snapshot) (snap_height snapshot)
       (snap_block_hash snapshot) (snap_balances snapshot) (snap_next_nonces snapshot)
       (snap_executed_events snapshot) (snap_staking snapshot)"

definition rpc_install_certified_snapshot ::
  "'db environment \<Rightarrow> 'db rpc_state \<Rightarrow> state_snapshot \<Rightarrow> snapshot_certificate \<Rightarrow> ('db, unit) rpc_action" where
  "rpc_install_certified_snapshot W s snapshot certificate =
     (case verify_snapshot (en_ext W) certificate snapshot (rs_validators s) of Err e \<Rightarrow> (s, Err e) | Ok _ \<Rightarrow>
      if snap_chain_id snapshot \<noteq> ch_chain_id (rs_chain s)
        \<or> snap_genesis_commitment snapshot \<noteq> ch_genesis_commitment (rs_chain s)
      then (s, Err (EStorage OtherChainState)) else
      case chain_from_state_snapshot snapshot of Err e \<Rightarrow> (s, Err e) | Ok chain \<Rightarrow>
      if state_hash (en_ext W) chain \<noteq> snap_state_hash snapshot then (s, Err (EStorage StateRootMismatch)) else
      let s1 = s\<lparr>rs_archive := persist_certified_snapshot (rs_archive s) snapshot certificate\<rparr>
      in install_synced_chain W s1 chain)"

definition set_peer_count :: "'db rpc_state \<Rightarrow> nat \<Rightarrow> 'db rpc_state" where
  "set_peer_count s n = s\<lparr>rs_peer_count := n\<rparr>"

definition peer_connected ::
  "'db rpc_state \<Rightarrow> string \<Rightarrow> string \<Rightarrow> string option \<Rightarrow> string \<Rightarrow> nat \<Rightarrow> nat \<Rightarrow> 'db rpc_state" where
  "peer_connected s peer_id address remote_ip direction connections now =
     (let peers = hm_insert (rs_peers s) peer_id \<lparr>pi_address = address, pi_remote_ip = remote_ip,
            pi_direction = direction, pi_connections = connections, pi_connected_at = now\<rparr>
      in s\<lparr>rs_peers := peers, rs_peer_count := length peers\<rparr>)"

definition peer_disconnected :: "'db rpc_state \<Rightarrow> string \<Rightarrow> nat \<Rightarrow> 'db rpc_state" where
  "peer_disconnected s peer_id remaining =
     (let peers = (if remaining = 0 then hm_remove (rs_peers s) peer_id
                   else case hm_get (rs_peers s) peer_id of
                          None \<Rightarrow> rs_peers s
                        | Some peer \<Rightarrow> hm_insert (rs_peers s) peer_id (peer\<lparr>pi_connections := remaining\<rparr>))
      in s\<lparr>rs_peers := peers, rs_peer_count := length peers\<rparr>)"

definition begin_sync :: "'db rpc_state \<Rightarrow> nat \<Rightarrow> 'db rpc_state" where
  "begin_sync s highest =
     (let target = max (rs_sync_highest s) highest
      in s\<lparr>rs_sync_highest := target, rs_sync_current := tip_height (rs_chain s),
           rs_sync_active := tip_height (rs_chain s) < target\<rparr>)"

subsection \<open>Starting a node\<close>

record rpc_config =
  cfg_listen_loopback :: bool
  cfg_chain_id :: nat
  cfg_genesis :: "genesis_config option"
  cfg_validators :: "validator list"
  cfg_locked_addresses :: "string list"
  cfg_block_time_ms :: nat
  cfg_interest_policy :: validator_interest_policy
  cfg_holder_policy :: holder_reward_policy
  cfg_upgrade_schedule :: "protocol_upgrade list"

text \<open>The stores a node finds on disk, or leaves there.\<close>

record 'db node_disk =
  dsk_archive :: archive_store
  dsk_state :: "'db state_store"

definition expect :: "string \<Rightarrow> 'a result \<Rightarrow> 'a result" where
  "expect message r = (case r of Ok x \<Rightarrow> Ok x | Err _ \<Rightarrow> Err (EStorage (StartFailed message)))"

definition DEV_FAUCET_KEY :: "u8 list" where
  "DEV_FAUCET_KEY = replicate 32 42"

definition initial_chain :: "ext \<Rightarrow> rpc_config \<Rightarrow> string \<Rightarrow> blockchain result" where
  "initial_chain E cfg faucet_address =
     (case cfg_genesis cfg of
        Some g \<Rightarrow> expect ''genesis'' (from_genesis E g)
      | None \<Rightarrow> Ok (with_chain_id E (cfg_chain_id cfg) [(faucet_address, 1000000000000000000)]))"

definition restore_state :: "ext \<Rightarrow> nat \<Rightarrow> blockchain \<Rightarrow> canonical_state \<Rightarrow> blockchain result" where
  "restore_state E chain_id chain state =
     (if cs_chain_id state \<noteq> chain_id then Err (EStorage (StartFailed ''chain id''))
      else if cs_genesis_commitment state \<noteq> ch_genesis_commitment chain then Err (EStorage (StartFailed ''genesis hash''))
      else rbind (expect ''state'' (from_snapshot_with_staking chain_id (ch_genesis_commitment chain) (cs_height state)
             (cs_block_hash state) (cs_balances state) (cs_nonces state) (cs_executed_events state) (cs_staking state)))
        (\<lambda>c. if state_hash E c \<noteq> cs_state_root state then Err (EStorage (StartFailed ''state root'')) else Ok c))"

definition restore_checkpoint :: "ext \<Rightarrow> nat \<Rightarrow> blockchain \<Rightarrow> state_snapshot \<Rightarrow> block list \<Rightarrow> blockchain result" where
  "restore_checkpoint E chain_id chain snapshot active =
     (if snap_chain_id snapshot \<noteq> chain_id then Err (EStorage (StartFailed ''chain id''))
      else if snap_genesis_commitment snapshot \<noteq> ch_genesis_commitment chain then Err (EStorage (StartFailed ''genesis hash''))
      else rbind (expect ''checkpoint'' (from_snapshot_with_staking chain_id (ch_genesis_commitment chain)
             (snap_height snapshot) (snap_block_hash snapshot) (snap_balances snapshot) (snap_next_nonces snapshot)
             (snap_executed_events snapshot) (snap_staking snapshot)))
        (\<lambda>c. if state_hash E c \<noteq> snap_state_hash snapshot then Err (EStorage (StartFailed ''state hash''))
              else expect ''active blocks'' (for_each (\<lambda>b c. apply_block E c b) active c)))"

text \<open>
  The ledger of \<^verbatim>\<open>RpcServer::new\<close>: from the database, else from the latest checkpoint and the
  active blocks, else from all archived blocks, else the initial chain, whose first block is
  archived.  In the last two cases the state is committed to the database.
\<close>

definition open_ledger ::
  "'db environment \<Rightarrow> nat \<Rightarrow> blockchain \<Rightarrow> 'db node_disk \<Rightarrow> ('db node_disk \<times> blockchain) result" where
  "open_ledger W chain_id chain disk =
     (let E = en_ext W in
      case state_store_load (en_sqlite W) (en_state_codec W) (dsk_state disk) of
        (_, Err _) \<Rightarrow> Err (EStorage (StartFailed ''database''))
      | (store, Ok (Some state)) \<Rightarrow>
          rbind (restore_state E chain_id chain state) (\<lambda>c. Ok (disk\<lparr>dsk_state := store\<rparr>, c))
      | (store, Ok None) \<Rightarrow>
          (case load_latest_snapshot (dsk_archive disk) of
             Some snapshot \<Rightarrow>
               rbind (restore_checkpoint E chain_id chain snapshot (load_active_blocks (dsk_archive disk)))
                 (\<lambda>c. Ok (disk\<lparr>dsk_state := store\<rparr>, c))
           | None \<Rightarrow>
               rbind (if load_all_blocks (dsk_archive disk) = [] then
                        (case append_finalized E (en_block_json W) (dsk_archive disk) (hd (ch_blocks chain)) chain of
                           (_, Err _) \<Rightarrow> Err (EStorage (StartFailed ''genesis block''))
                         | (archive, Ok _) \<Rightarrow> Ok (archive, chain))
                      else rbind (expect ''archive'' (for_each (\<lambda>b c. apply_block E c b)
                             (filter (\<lambda>b. blk_height b > 0) (load_all_blocks (dsk_archive disk))) chain))
                        (\<lambda>c. Ok (dsk_archive disk, c)))
                 (\<lambda>(archive, c).
               case state_store_commit E (en_sqlite W) (en_state_codec W) store c of
                 (_, Err _) \<Rightarrow> Err (EStorage (StartFailed ''commit''))
               | (store', Ok _) \<Rightarrow> Ok (\<lparr>dsk_archive = archive, dsk_state = store'\<rparr>, c))))"

definition rpc_server_new :: "'db environment \<Rightarrow> rpc_config \<Rightarrow> 'db node_disk \<Rightarrow> 'db rpc_state result" where
  "rpc_server_new W cfg disk =
     (let E = en_ext W;
          chain_id = (case cfg_genesis cfg of Some g \<Rightarrow> gen_chain_id g | None \<Rightarrow> cfg_chain_id cfg);
          max_bytes = (case cfg_genesis cfg of Some g \<Rightarrow> gen_max_active_block_bytes g | None \<Rightarrow> 99000000)
      in rbind (expect ''faucet'' (account_from_private_key E DEV_FAUCET_KEY)) (\<lambda>faucet.
         rbind (expect ''archive'' (archive_new max_bytes (dsk_archive disk))) (\<lambda>archive.
         rbind (initial_chain E cfg (account_address E faucet)) (\<lambda>chain.
         rbind (open_ledger W chain_id chain (disk\<lparr>dsk_archive := archive\<rparr>)) (\<lambda>(disk', c).
         Ok \<lparr>rs_chain = c, rs_pool = mempool_default, rs_wallets = [(account_address E faucet, faucet)],
             rs_faucet_alias = account_address E faucet, rs_chain_id = chain_id,
             rs_archive = dsk_archive disk', rs_state_store = dsk_state disk', rs_peer_count = 0, rs_peers = [],
             rs_sync_current = tip_height c, rs_sync_highest = tip_height c, rs_sync_active = False,
             rs_communication_inbox = inbox_default, rs_communication_outbox = inbox_default,
             rs_communication_rpc_enabled = cfg_listen_loopback cfg,
             rs_personal_rpc_enabled = cfg_listen_loopback cfg, rs_validators = cfg_validators cfg,
             rs_locked_addresses = set (map account_normalize_address (cfg_locked_addresses cfg)),
             rs_finality_history = [], rs_block_time_ms = cfg_block_time_ms cfg,
             rs_interest_policy = cfg_interest_policy cfg, rs_holder_policy = cfg_holder_policy cfg,
             rs_upgrade_schedule = cfg_upgrade_schedule cfg\<rparr>)))))"

subsection \<open>A restarted ledger behaves like the old one\<close>

text \<open>
  Two chains with the same state and the same tip.  They may differ in the blocks below the tip:
  a restored chain starts at its anchor.
\<close>

definition same_ledger :: "blockchain \<Rightarrow> blockchain \<Rightarrow> bool" where
  "same_ledger c d \<longleftrightarrow> ch_blocks c \<noteq> [] \<and> ch_blocks d \<noteq> [] \<and> ch_chain_id c = ch_chain_id d
     \<and> ch_genesis_commitment c = ch_genesis_commitment d
     \<and> blk_height (last (ch_blocks c)) = blk_height (last (ch_blocks d))
     \<and> blk_hash (last (ch_blocks c)) = blk_hash (last (ch_blocks d))
     \<and> ch_balances c = ch_balances d \<and> ch_next_nonces c = ch_next_nonces d
     \<and> ch_executed_events c = ch_executed_events d \<and> ch_staking c = ch_staking d"

lemma same_ledger_apply:
  assumes "same_ledger c d"
  shows "case apply_block E c b of Ok c' \<Rightarrow> (\<exists>d'. apply_block E d b = Ok d' \<and> same_ledger c' d')
    | Err e \<Rightarrow> apply_block E d b = Err e"
proof -
  have "chain_work c = chain_work d" using assms by (simp add: same_ledger_def chain_work_def)
  moreover obtain r where r: "run_block E (ch_chain_id d) b (chain_work d, ch_executed_events d) = r" by blast
  ultimately show ?thesis
  proof (cases r)
    case (Ok q)
    obtain w x where "q = (w, x)" by (cases q)
    with assms Ok r \<open>chain_work c = chain_work d\<close> show ?thesis
      by (cases "validate_supply_cap (wk_balances w) (wk_staking w)") (auto simp: same_ledger_def apply_block_def Let_def)
  qed (use assms in \<open>auto simp: same_ledger_def apply_block_def Let_def\<close>)
qed

lemma same_ledger_replay:
  assumes "same_ledger c d" and "for_each (\<lambda>b c. apply_block E c b) bs c = Ok c'"
  shows "\<exists>d'. for_each (\<lambda>b c. apply_block E c b) bs d = Ok d' \<and> same_ledger c' d'"
  using assms
proof (induction bs arbitrary: c d)
  case (Cons b bs)
  then obtain c1 where c1: "apply_block E c b = Ok c1" "for_each (\<lambda>b c. apply_block E c b) bs c1 = Ok c'"
    by (auto split: result.splits)
  with same_ledger_apply [OF Cons.prems(1), of E b] obtain d1 where "apply_block E d b = Ok d1" "same_ledger c1 d1" by auto
  with Cons.IH c1(2) show ?case by fastforce
qed simp

lemma same_ledger_state_hash: "same_ledger c d \<Longrightarrow> state_hash E c = state_hash E d"
  by (simp add: same_ledger_def state_hash_def state_preimage_def chain_next_nonce_def)

text \<open>A block hash: 64 characters that do not start like a prefixed number.\<close>

definition tip_ok :: "blockchain \<Rightarrow> bool" where
  "tip_ok c \<longleftrightarrow> ch_blocks c \<noteq> [] \<and> length (tip_hash c) = 64 \<and> \<not> starts_with (tip_hash c) ''0x''
     \<and> validate_supply_cap (ch_balances c) (ch_staking c) = Ok ()"

lemma snapshot_same_ledger:
  assumes "tip_ok c"
  obtains d where "from_snapshot_with_staking (ch_chain_id c) (ch_genesis_commitment c) (tip_height c) (tip_hash c)
      (ch_balances c) (ch_next_nonces c) (ch_executed_events c) (ch_staking c) = Ok d" and "same_ledger d c"
proof -
  have "trim_0x (tip_hash c) = tip_hash c" using assms by (simp add: tip_ok_def trim_0x.simps [of "tip_hash c"])
  moreover have "ch_blocks c \<noteq> []" "length (tip_hash c) = 64" "validate_supply_cap (ch_balances c) (ch_staking c) = Ok ()"
    using assms by (simp_all add: tip_ok_def)
  ultimately have "\<exists>d. from_snapshot_with_staking (ch_chain_id c) (ch_genesis_commitment c) (tip_height c) (tip_hash c)
      (ch_balances c) (ch_next_nonces c) (ch_executed_events c) (ch_staking c) = Ok d \<and> same_ledger d c"
    by (simp add: from_snapshot_with_staking_def from_snapshot_with_events_def same_ledger_def)
      (simp add: tip_height_def tip_hash_def)
  with that show ?thesis by blast
qed

lemma restore_state_same:
  assumes "tip_ok c" and "ch_genesis_commitment chain0 = ch_genesis_commitment c"
  obtains d where "restore_state E (ch_chain_id c) chain0 (canonical_from_chain E c) = Ok d" and "same_ledger d c"
proof -
  obtain d where d: "from_snapshot_with_staking (ch_chain_id c) (ch_genesis_commitment c) (tip_height c) (tip_hash c)
      (ch_balances c) (ch_next_nonces c) (ch_executed_events c) (ch_staking c) = Ok d" "same_ledger d c"
    using assms(1) by (rule snapshot_same_ledger)
  with that assms(2) same_ledger_state_hash [OF d(2)] show ?thesis
    by (simp add: restore_state_def canonical_from_chain_def expect_def)
qed

text \<open>
  C14.  A restart is invisible.  A node that installed a finalized chain and is started again on the
  stores it left behind comes up with a ledger of the same state and tip, and every sequence of
  further blocks that the old ledger would have executed is executed by the new one, to the same
  state.
\<close>

theorem restart_same_ledger:
  assumes "sqlite_laws (en_sqlite W)" and "state_codec_ok (en_state_codec W)"
    and "install_finalized W s chain_before chain b = (s', Ok ())"
    and "edb_initialize (en_sqlite W) (dbf_sqlite (sts_files (rs_state_store s'))) = Ok db"
    and "tip_ok chain" and "ch_genesis_commitment chain0 = ch_genesis_commitment chain"
  shows "\<exists>disk c. open_ledger W (ch_chain_id chain) chain0 \<lparr>dsk_archive = rs_archive s', dsk_state = rs_state_store s'\<rparr> = Ok (disk, c)
    \<and> same_ledger c chain
    \<and> (\<forall>bs d. for_each (\<lambda>b c. apply_block (en_ext W) c b) bs chain = Ok d \<longrightarrow>
         (\<exists>d'. for_each (\<lambda>b c. apply_block (en_ext W) c b) bs c = Ok d' \<and> same_ledger d d'))"
proof -
  obtain state where "state_store_commit (en_ext W) (en_sqlite W) (en_state_codec W) (rs_state_store s) chain = (rs_state_store s', Ok state)"
    using assms(3) by (auto simp: install_finalized_def set_chain_def Let_def split: prod.splits result.splits)
  then have "snd (state_store_load (en_sqlite W) (en_state_codec W) (rs_state_store s')) = Ok (Some (canonical_from_chain (en_ext W) chain))"
    using state_store_roundtrip [OF assms(1,2)] assms(4) by blast
  then obtain store where load: "state_store_load (en_sqlite W) (en_state_codec W) (rs_state_store s')
      = (store, Ok (Some (canonical_from_chain (en_ext W) chain)))" by (metis prod.collapse)
  obtain c where c: "restore_state (en_ext W) (ch_chain_id chain) chain0 (canonical_from_chain (en_ext W) chain) = Ok c" "same_ledger c chain"
    using assms(5,6) by (rule restore_state_same)
  have "same_ledger chain c" using c(2) by (simp add: same_ledger_def)
  with c load same_ledger_replay show ?thesis by (simp add: open_ledger_def Let_def)
qed

text \<open>A chain whose last block was executed has such a tip, with a hash function of 32 bytes.\<close>

lemma hex_not_prefixed:
  assumes "list_all lower_hex s"
  shows "\<not> starts_with s ''0x''"
proof
  assume "starts_with s ''0x''"
  then have "set ''0x'' \<subseteq> set s" unfolding starts_with_def by (metis set_take_subset)
  with assms have "lower_hex (CHR ''x'')" by (simp add: list_all_iff)
  then show False by (simp add: lower_hex_def is_ascii_hexdigit_def)
qed

lemma apply_block_tip_ok:
  assumes "apply_block E c b = Ok c'" and "hex_laws E" and "\<And>bs. length (hex_encode E (sha256 E bs)) = 64"
  shows "tip_ok c'"
proof -
  have hash: "tip_hash c' = calculate_hash E b" and cap: "validate_supply_cap (ch_balances c') (ch_staking c') = Ok ()"
    and "ch_blocks c' \<noteq> []"
    using assms(1) by (auto elim!: apply_block_Ok simp: tip_hash_def validate_supply_cap_iff)
  moreover have "list_all lower_hex (calculate_hash E b)" using assms(2) by (simp add: calculate_hash_def hex_laws_def)
  then have "\<not> starts_with (calculate_hash E b) ''0x''" by (rule hex_not_prefixed)
  moreover have "length (calculate_hash E b) = 64" using assms(3) by (simp add: calculate_hash_def)
  ultimately show ?thesis by (simp add: tip_ok_def)
qed

definition mem_environment :: "((string, u8 list) hmap \<times> (string, int) hmap) environment" where
  "mem_environment = \<lparr>en_ext = toy_ext, en_sqlite = mem_sqlite,
     en_state_codec = one_state_codec (canonical_from_chain toy_ext new_chain), en_block_json = (\<lambda>_. Some [1])\<rparr>"

definition new_node :: "((string, u8 list) hmap \<times> (string, int) hmap) rpc_state" where
  "new_node = \<lparr>rs_chain = new_chain, rs_pool = mempool_default, rs_wallets = [], rs_faucet_alias = [], rs_chain_id = 7,
     rs_archive = empty_archive 1000, rs_state_store = empty_store, rs_peer_count = 0, rs_peers = [],
     rs_sync_current = 0, rs_sync_highest = 0, rs_sync_active = False, rs_communication_inbox = inbox_default,
     rs_communication_outbox = inbox_default, rs_communication_rpc_enabled = True, rs_personal_rpc_enabled = True,
     rs_validators = [], rs_locked_addresses = {}, rs_finality_history = [], rs_block_time_ms = 5000,
     rs_interest_policy = validator_interest_default, rs_holder_policy = holder_reward_default, rs_upgrade_schedule = []\<rparr>"

definition new_node_installed :: "((string, u8 list) hmap \<times> (string, int) hmap) rpc_state" where
  "new_node_installed = fst (install_finalized mem_environment new_node new_chain new_chain (block_genesis toy_ext))"

lemma new_node_install:
  "install_finalized mem_environment new_node new_chain new_chain (block_genesis toy_ext) = (new_node_installed, Ok ())"
  "rs_state_store new_node_installed = stored_new_chain"
proof -
  have append: "\<exists>a. append_finalized toy_ext (\<lambda>_. Some [1]) (empty_archive 1000) (block_genesis toy_ext) new_chain = (a, Ok ())"
    by (simp add: append_finalized_def Let_def empty_archive_def)
  show "install_finalized mem_environment new_node new_chain new_chain (block_genesis toy_ext) = (new_node_installed, Ok ())"
    "rs_state_store new_node_installed = stored_new_chain"
    using append stored_new_chain_ok(1) by (auto simp: new_node_installed_def install_finalized_def mem_environment_def new_node_def set_chain_def Let_def)
qed

lemma new_chain_tip: "tip_ok new_chain"
proof -
  have "tip_hash new_chain = blk_hash (block_genesis toy_ext)" "ch_blocks new_chain \<noteq> []" "ch_balances new_chain = []" "ch_staking new_chain = staking_default"
    by (simp_all add: new_chain_def with_chain_id_def Let_def tip_hash_def hm_from_list_def)
  moreover have "length (blk_hash (block_genesis toy_ext)) = 64" "\<not> starts_with (blk_hash (block_genesis toy_ext)) ''0x''"
  proof -
    have hash: "blk_hash (block_genesis toy_ext) = toy_hex_encode (toy_hash (block_preimage toy_ext (block_genesis toy_ext)))"
      by (simp add: block_genesis_def genesis_at_def block_new_def Let_def calculate_hash_def block_preimage_def toy_ext_def)
    have "length (toy_hex_encode bs) = 2 * length bs" for bs by (induction bs) simp_all
    then show "length (blk_hash (block_genesis toy_ext)) = 64" by (simp add: hash toy_hash_def)
    show "\<not> starts_with (blk_hash (block_genesis toy_ext)) ''0x''"
      unfolding hash using hex_laws_toy by (intro hex_not_prefixed) (simp add: hex_laws_def toy_ext_def)
  qed
  moreover have "validate_supply_cap [] staking_default = Ok ()" by (simp add: validate_supply_cap_def checked_sum_def staking_default_def checked_add_def)
  ultimately show ?thesis by (simp add: tip_ok_def)
qed

theorem restart_same_ledger_witness:
  "\<exists>disk c. open_ledger mem_environment 7 new_chain \<lparr>dsk_archive = rs_archive new_node_installed, dsk_state = rs_state_store new_node_installed\<rparr> = Ok (disk, c)
    \<and> same_ledger c new_chain"
proof -
  obtain db where "edb_initialize (en_sqlite mem_environment) (dbf_sqlite (sts_files (rs_state_store new_node_installed))) = Ok db"
    using stored_new_chain_ok(2) by (auto simp: new_node_install(2) mem_environment_def)
  moreover have "sqlite_laws (en_sqlite mem_environment)" "state_codec_ok (en_state_codec mem_environment)"
    using mem_sqlite_laws by (simp_all add: mem_environment_def state_codec_ok_def one_state_codec_def)
  moreover have "ch_chain_id new_chain = 7" by (simp add: new_chain_def with_chain_id_def Let_def)
  ultimately show ?thesis
    using restart_same_ledger [of mem_environment new_node new_chain new_chain "block_genesis toy_ext" new_node_installed db new_chain]
      new_node_install(1) new_chain_tip by auto
qed

end
