(* ===== verification/Rpc.thy ===== *)
theory Rpc
  imports NodeState RawTransaction
begin

text \<open>
  The JSON-RPC methods (\<^verbatim>\<open>src/src/rpc.rs\<close>) that read the ledger, the archive, the pool and the
  staking state, and those that submit transactions and signalling messages.  A method is a
  function from the shared state and the parameters of the request to its answer: the value, or
  the error with its JSON-RPC code.  The serializers that serde derives are parameters
  (\<open>rpc_codec\<close>); the fields of an object are listed in the order of the source.
\<close>

subsection \<open>Values, parameters and quantities\<close>

datatype json =
    JNull
  | JBool bool
  | JInt int
  | JFloat string
  | JStr string
  | JArr "json list"
  | JObj "(string \<times> json) list"

type_synonym 'a answer = "(int \<times> error) + 'a"

fun abind :: "'a answer \<Rightarrow> ('a \<Rightarrow> 'b answer) \<Rightarrow> 'b answer" where
  "abind (Inl e) f = Inl e"
| "abind (Inr x) f = f x"

definition coded :: "int \<Rightarrow> 'a result \<Rightarrow> 'a answer" where
  "coded code r = (case r of Err e \<Rightarrow> Inl (code, e) | Ok x \<Rightarrow> Inr x)"

definition found :: "int \<Rightarrow> error \<Rightarrow> 'a option \<Rightarrow> 'a answer" where
  "found code e x = (case x of None \<Rightarrow> Inl (code, e) | Some y \<Rightarrow> Inr y)"

fun as_str :: "json \<Rightarrow> string option" where
  "as_str (JStr s) = Some s"
| "as_str _ = None"

fun as_bool :: "json \<Rightarrow> bool option" where
  "as_bool (JBool b) = Some b"
| "as_bool _ = None"

fun as_u64 :: "json \<Rightarrow> nat option" where
  "as_u64 (JInt n) = (if 0 \<le> n \<and> n < 2 ^ 64 then Some (nat n) else None)"
| "as_u64 _ = None"

fun json_get :: "string \<Rightarrow> json \<Rightarrow> json option" where
  "json_get key (JObj entries) = map_of entries key"
| "json_get key _ = None"

definition param :: "json list \<Rightarrow> nat \<Rightarrow> json option" where
  "param params i = (if i < length params then Some (params ! i) else None)"

definition param_str :: "json list \<Rightarrow> nat \<Rightarrow> string option" where
  "param_str params i = Option.bind (param params i) as_str"

definition string_param :: "json list \<Rightarrow> nat \<Rightarrow> string answer" where
  "string_param params i = found (-32602) (ERpc (MissingParam i)) (param_str params i)"

definition u64_param :: "json list \<Rightarrow> nat \<Rightarrow> nat \<Rightarrow> nat" where
  "u64_param params i fallback = (case Option.bind (param params i) as_u64 of None \<Rightarrow> fallback | Some n \<Rightarrow> n)"

text \<open>\<^verbatim>\<open>format!("0x{value:x}")\<close>: lower-case digits without leading zeros.\<close>

definition lower_digit :: "nat \<Rightarrow> char" where
  "lower_digit n = (if n < 10 then char_of (48 + n) else char_of (87 + n))"

fun lower_hex_digits :: "nat \<Rightarrow> string" where
  "lower_hex_digits n = (if n < 16 then [lower_digit n] else lower_hex_digits (n div 16) @ [lower_digit (n mod 16)])"

declare lower_hex_digits.simps [simp del]

definition quantity :: "nat \<Rightarrow> string" where
  "quantity n = ''0x'' @ lower_hex_digits n"

definition quantity_u128 :: "nat \<Rightarrow> string" where
  "quantity_u128 n = ''0x'' @ lower_hex_digits n"

text \<open>
  \<^verbatim>\<open>from_str_radix(_, 16)\<close> of an unsigned type of \<open>w\<close> bits: a plus sign may precede the digits,
  each step is checked for overflow.
\<close>

definition hex_digit_of :: "char \<Rightarrow> nat option" where
  "hex_digit_of c =
     (let n = of_char c :: nat
      in if 48 \<le> n \<and> n \<le> 57 then Some (n - 48)
         else if 97 \<le> n \<and> n \<le> 102 then Some (n - 87)
         else if 65 \<le> n \<and> n \<le> 70 then Some (n - 55) else None)"

fun radix_loop :: "nat \<Rightarrow> nat \<Rightarrow> string \<Rightarrow> nat option" where
  "radix_loop w acc [] = Some acc"
| "radix_loop w acc (c # cs) =
     (case hex_digit_of c of None \<Rightarrow> None | Some d \<Rightarrow>
      case checked_mul w acc 16 of None \<Rightarrow> None | Some m \<Rightarrow>
      case checked_add w m d of None \<Rightarrow> None | Some a \<Rightarrow> radix_loop w a cs)"

definition from_hex_radix :: "nat \<Rightarrow> string \<Rightarrow> nat option" where
  "from_hex_radix w s =
     (if s = [] \<or> s = ''+'' \<or> s = ''-'' then None
      else if hd s = CHR ''+'' then radix_loop w 0 (tl s)
      else radix_loop w 0 s)"

definition parse_quantity :: "nat \<Rightarrow> string \<Rightarrow> nat answer" where
  "parse_quantity w value =
     (case strip_prefix ''0x'' value of
        None \<Rightarrow> Inl (-32602, ERpc BadQuantity)
      | Some hex \<Rightarrow> found (-32602) (ERpc BadQuantity) (from_hex_radix w (if hex = [] then ''0'' else hex)))"

definition parse_quantity_u64 :: "string \<Rightarrow> nat answer" where
  "parse_quantity_u64 = parse_quantity 64"

definition parse_quantity_u128 :: "string \<Rightarrow> nat answer" where
  "parse_quantity_u128 = parse_quantity 128"

definition rpc_normalize_address :: "string \<Rightarrow> string" where
  "rpc_normalize_address address = ''0x'' @ to_ascii_lowercase (trim_0x address)"

definition resolve_ledger_address :: "'db environment \<Rightarrow> 'db rpc_state \<Rightarrow> string \<Rightarrow> string" where
  "resolve_ledger_address W s address =
     (let normalized = rpc_normalize_address address
      in case hm_get (rs_wallets s) normalized of
           Some wallet \<Rightarrow> account_address (en_ext W) wallet
         | None \<Rightarrow> normalized)"

text \<open>Derived serializers of serde, and the environment of a method.\<close>

record rpc_codec =
  rj_event :: "scheduled_event \<Rightarrow> json"
  rj_action :: "transaction_action \<Rightarrow> json"
  rj_action_vec :: "transaction_action \<Rightarrow> u8 list"
  rj_status :: "archive_status \<Rightarrow> json"
  rj_envelope :: "communication_envelope \<Rightarrow> json"
  rj_to_envelope :: "json \<Rightarrow> communication_envelope option"
  rj_to_transaction :: "json \<Rightarrow> transaction option"

subsection \<open>Blocks and transactions as JSON\<close>

definition input_json :: "'db environment \<Rightarrow> rpc_codec \<Rightarrow> transaction_action \<Rightarrow> json" where
  "input_json W J action =
     (case action of Transfer \<Rightarrow> JStr ''0x'' | _ \<Rightarrow> JStr (''0x'' @ hex_encode (en_ext W) (rj_action_vec J action)))"

definition transaction_json :: "'db environment \<Rightarrow> rpc_codec \<Rightarrow> block \<Rightarrow> nat \<Rightarrow> transaction \<Rightarrow> json" where
  "transaction_json W J b i tx =
     (case ethereum_fee_terms (en_ext W) tx of (gas_price, gas_limit) \<Rightarrow>
      JObj [(''hash'', JStr (''0x'' @ tx_id (en_ext W) tx)), (''nonce'', JStr (quantity (tx_nonce tx))),
        (''blockHash'', JStr (''0x'' @ blk_hash b)), (''blockNumber'', JStr (quantity (blk_height b))),
        (''transactionIndex'', JStr (quantity i)), (''from'', JStr (tx_from tx)), (''to'', JStr (tx_to tx)),
        (''value'', JStr (quantity_u128 (tx_amount tx))), (''gas'', JStr (quantity_u128 gas_limit)),
        (''gasPrice'', JStr (quantity_u128 gas_price)), (''input'', input_json W J (tx_action tx)),
        (''ieumAction'', rj_action J (tx_action tx))])"

definition pending_transaction_json :: "'db environment \<Rightarrow> rpc_codec \<Rightarrow> transaction \<Rightarrow> json" where
  "pending_transaction_json W J tx =
     (case ethereum_fee_terms (en_ext W) tx of (gas_price, gas_limit) \<Rightarrow>
      JObj [(''hash'', JStr (''0x'' @ tx_id (en_ext W) tx)), (''nonce'', JStr (quantity (tx_nonce tx))),
        (''blockHash'', JNull), (''blockNumber'', JNull), (''transactionIndex'', JNull),
        (''from'', JStr (tx_from tx)), (''to'', JStr (tx_to tx)),
        (''value'', JStr (quantity_u128 (tx_amount tx))), (''gas'', JStr (quantity_u128 gas_limit)),
        (''gasPrice'', JStr (quantity_u128 gas_price)), (''input'', input_json W J (tx_action tx)),
        (''ieumAction'', rj_action J (tx_action tx)), (''ieumPending'', JBool True)])"

definition block_json :: "'db environment \<Rightarrow> rpc_codec \<Rightarrow> block \<Rightarrow> bool \<Rightarrow> json" where
  "block_json W J b full =
     JObj [(''number'', JStr (quantity (blk_height b))), (''hash'', JStr (''0x'' @ blk_hash b)),
       (''parentHash'', JStr (''0x'' @ blk_previous_hash b)), (''timestamp'', JStr (quantity (blk_timestamp b))),
       (''miner'', JStr (blk_producer b)),
       (''transactions'', JArr
          (if full then map (\<lambda>(i, tx). transaction_json W J b i tx) (enumerate 0 (blk_transactions b))
           else map (\<lambda>tx. JStr (''0x'' @ tx_id (en_ext W) tx)) (blk_transactions b))),
       (''ieumSystemEvents'', JArr (map (rj_event J) (blk_system_events b))),
       (''transactionsRoot'', JStr (''0x'' @ blk_hash b)),
       (''size'', JStr (quantity (case en_block_json W b of None \<Rightarrow> 0 | Some bytes \<Rightarrow> length bytes)))]"

subsection \<open>Reading the ledger\<close>

definition eth_syncing :: "'db rpc_state \<Rightarrow> json" where
  "eth_syncing s =
     (if \<not> rs_sync_active s then JBool False
      else JObj [(''startingBlock'', JStr ''0x0''), (''currentBlock'', JStr (quantity (rs_sync_current s))),
             (''highestBlock'', JStr (quantity (rs_sync_highest s)))])"

definition eth_get_balance :: "'db environment \<Rightarrow> 'db rpc_state \<Rightarrow> json list \<Rightarrow> json answer" where
  "eth_get_balance W s params =
     abind (string_param params 0) (\<lambda>address.
     Inr (JStr (quantity_u128 (balance_of (rs_chain s) (resolve_ledger_address W s address)))))"

definition eth_get_transaction_count :: "'db environment \<Rightarrow> 'db rpc_state \<Rightarrow> json list \<Rightarrow> json answer" where
  "eth_get_transaction_count W s params =
     abind (string_param params 0) (\<lambda>address.
     let ledger_address = resolve_ledger_address W s address;
         finalized_nonce = chain_next_nonce (rs_chain s) ledger_address;
         nonce = (if param_str params 1 = Some ''pending''
                  then mempool_next_nonce (rs_pool s) ledger_address finalized_nonce else finalized_nonce)
     in Inr (JStr (quantity nonce)))"

definition find_block :: "'db rpc_state \<Rightarrow> nat \<Rightarrow> block option" where
  "find_block s height =
     (case archive_block_by_height (rs_archive s) height of
        Some b \<Rightarrow> Some b
      | None \<Rightarrow> block_by_height (rs_chain s) height)"

definition selected_height :: "'db rpc_state \<Rightarrow> string \<Rightarrow> nat answer" where
  "selected_height s selector =
     (if selector = ''latest'' then Inr (tip_height (rs_chain s)) else parse_quantity_u64 selector)"

definition eth_get_block_by_number :: "'db environment \<Rightarrow> rpc_codec \<Rightarrow> 'db rpc_state \<Rightarrow> json list \<Rightarrow> json answer" where
  "eth_get_block_by_number W J s params =
     abind (string_param params 0) (\<lambda>selector.
     let full = (case Option.bind (param params 1) as_bool of None \<Rightarrow> False | Some b \<Rightarrow> b) in
     abind (if selector = ''latest''
            then Inr (if ch_blocks (rs_chain s) = [] then None else Some (blk_height (last (ch_blocks (rs_chain s)))))
            else abind (parse_quantity_u64 selector) (\<lambda>h. Inr (Some h))) (\<lambda>height.
     Inr (case Option.bind height (find_block s) of None \<Rightarrow> JNull | Some b \<Rightarrow> block_json W J b full)))"

definition eth_get_block_by_hash :: "'db environment \<Rightarrow> rpc_codec \<Rightarrow> 'db rpc_state \<Rightarrow> json list \<Rightarrow> json answer" where
  "eth_get_block_by_hash W J s params =
     abind (string_param params 0) (\<lambda>hash.
     let full = (case Option.bind (param params 1) as_bool of None \<Rightarrow> False | Some b \<Rightarrow> b);
         b = (case archive_block_by_hash (rs_archive s) hash of
                Some b \<Rightarrow> Some b | None \<Rightarrow> block_by_hash (rs_chain s) hash)
     in Inr (case b of None \<Rightarrow> JNull | Some b \<Rightarrow> block_json W J b full))"

definition find_included :: "'db environment \<Rightarrow> 'db rpc_state \<Rightarrow> string \<Rightarrow> (block \<times> nat \<times> transaction) option" where
  "find_included W s hash =
     (case archive_transaction_by_hash (en_ext W) (rs_archive s) hash of
        Some r \<Rightarrow> Some r
      | None \<Rightarrow> transaction_by_hash (en_ext W) (rs_chain s) hash)"

definition eth_get_transaction_by_hash ::
  "'db environment \<Rightarrow> rpc_codec \<Rightarrow> 'db rpc_state \<Rightarrow> json list \<Rightarrow> json answer" where
  "eth_get_transaction_by_hash W J s params =
     abind (string_param params 0) (\<lambda>hash.
     case find_included W s hash of
       Some (b, i, tx) \<Rightarrow> Inr (transaction_json W J b i tx)
     | None \<Rightarrow> Inr (case mempool_transaction_by_hash (en_ext W) (rs_pool s) hash of
         None \<Rightarrow> JNull | Some tx \<Rightarrow> pending_transaction_json W J tx))"

definition eth_get_block_transaction_count :: "'db rpc_state \<Rightarrow> json list \<Rightarrow> json answer" where
  "eth_get_block_transaction_count s params =
     abind (string_param params 0) (\<lambda>selector.
     abind (selected_height s selector) (\<lambda>height.
     Inr (case find_block s height of None \<Rightarrow> JNull | Some b \<Rightarrow> JStr (quantity (length (blk_transactions b))))))"

definition eth_get_transaction_by_block_number_and_index ::
  "'db environment \<Rightarrow> rpc_codec \<Rightarrow> 'db rpc_state \<Rightarrow> json list \<Rightarrow> json answer" where
  "eth_get_transaction_by_block_number_and_index W J s params =
     abind (string_param params 0) (\<lambda>selector.
     abind (string_param params 1) (\<lambda>text.
     abind (parse_quantity_u64 text) (\<lambda>i.
     abind (selected_height s selector) (\<lambda>height.
     Inr (case find_block s height of
            None \<Rightarrow> JNull
          | Some b \<Rightarrow> if i < length (blk_transactions b) then transaction_json W J b i (blk_transactions b ! i) else JNull)))))"

definition saturating_sum :: "nat \<Rightarrow> nat list \<Rightarrow> nat" where
  "saturating_sum w xs = foldl (saturating_add w) 0 xs"

definition eth_get_transaction_receipt :: "'db environment \<Rightarrow> 'db rpc_state \<Rightarrow> json list \<Rightarrow> json answer" where
  "eth_get_transaction_receipt W s params =
     abind (string_param params 0) (\<lambda>hash.
     Inr (case find_included W s hash of None \<Rightarrow> JNull | Some (b, i, tx) \<Rightarrow>
       (case ethereum_fee_terms (en_ext W) tx of (gas_price, gas_limit) \<Rightarrow>
        JObj [(''transactionHash'', JStr (''0x'' @ tx_id (en_ext W) tx)), (''transactionIndex'', JStr (quantity i)),
          (''blockHash'', JStr (''0x'' @ blk_hash b)), (''blockNumber'', JStr (quantity (blk_height b))),
          (''from'', JStr (tx_from tx)), (''to'', JStr (tx_to tx)),
          (''cumulativeGasUsed'', JStr (quantity_u128 (saturating_sum 128
             (map (\<lambda>t. snd (ethereum_fee_terms (en_ext W) t)) (take (i + 1) (blk_transactions b)))))),
          (''gasUsed'', JStr (quantity_u128 gas_limit)), (''effectiveGasPrice'', JStr (quantity_u128 gas_price)),
          (''logs'', JArr []), (''logsBloom'', JStr (''0x'' @ replicate 512 (CHR ''0''))), (''status'', JStr ''0x1'')])))"

definition ieum_get_storage_status :: "rpc_codec \<Rightarrow> 'db environment \<Rightarrow> 'db rpc_state \<Rightarrow> json answer" where
  "ieum_get_storage_status J W s = Inr (rj_status J (archive_status_of (en_block_json W) (rs_archive s)))"

subsection \<open>Supply and staking\<close>

record supply_totals =
  sup_all :: nat
  sup_circulating :: nat
  sup_locked :: nat
  sup_genesis :: nat
  sup_remaining :: nat
  sup_interest_paid :: nat
  sup_foundation :: nat
  sup_staking_locked :: nat

text \<open>
  The fold over the set of locked addresses, whose order is unspecified; a checked sum fails in
  every order or in none.
\<close>

definition checked_set_sum :: "nat \<Rightarrow> ('a \<Rightarrow> nat) \<Rightarrow> 'a set \<Rightarrow> nat option" where
  "checked_set_sum w f A = (if sum f A < 2 ^ w then Some (sum f A) else None)"

definition interest_payments_of :: "scheduled_event \<Rightarrow> nat list" where
  "interest_payments_of ev =
     (case ev_action ev of
        ValidatorDailyInterest _ _ _ payments \<Rightarrow> map pay_amount payments
      | DelegationDailyReward _ _ _ payments \<Rightarrow> map pay_amount payments
      | _ \<Rightarrow> [])"

definition interest_paid :: "block list \<Rightarrow> nat list" where
  "interest_paid blocks = concat (map (\<lambda>b. concat (map interest_payments_of (blk_system_events b))) blocks)"

definition supply_totals_of :: "'db rpc_state \<Rightarrow> supply_totals answer" where
  "supply_totals_of s =
     (let chain = rs_chain s; balances = ch_balances chain; overflow = found (-32603) (ERpc SupplyOverflow) in
      abind (overflow (checked_sum 128 (map snd balances))) (\<lambda>liquid_all.
      abind (overflow (checked_set_sum 128 (hm_get0 balances) (rs_locked_addresses s))) (\<lambda>genesis_locked.
      abind (overflow (checked_sum 128 (map dep_amount (stk_delegations (ch_staking chain))
                @ map unb_amount (stk_unbonding (ch_staking chain))))) (\<lambda>staking_locked.
      abind (overflow (checked_add 128 genesis_locked staking_locked)) (\<lambda>bal_lock_all.
      abind (overflow (checked_add 128 liquid_all staking_locked)) (\<lambda>bal_all.
      abind (overflow (checked_sum 128 (map snd (ch_initial_balances chain)))) (\<lambda>bal_genesis_all.
      abind (overflow (checked_sum 128 (interest_paid (ch_blocks chain)))) (\<lambda>paid.
      Inr \<lparr>sup_all = bal_all, sup_circulating = saturating_sub bal_all bal_lock_all, sup_locked = bal_lock_all,
           sup_genesis = bal_genesis_all, sup_remaining = saturating_sub MAX_SUPPLY bal_all,
           sup_interest_paid = paid, sup_foundation = hm_get0 balances FOUNDATION_FEE_ADDRESS,
           sup_staking_locked = staking_locked\<rparr>))))))))"

definition ieum_supply_status :: "'db rpc_state \<Rightarrow> json answer" where
  "ieum_supply_status s =
     abind (supply_totals_of s) (\<lambda>t.
     Inr (JObj [(''Bal_All'', JStr (decimal (sup_all t))), (''Bal_Utong_All'', JStr (decimal (sup_circulating t))),
       (''Bal_Lock_All'', JStr (decimal (sup_locked t))), (''Bal_Genesis_All'', JStr (decimal (sup_genesis t))),
       (''Bal_MaxSupply'', JStr (decimal MAX_SUPPLY)),
       (''Bal_RemainingMintable'', JStr (decimal (sup_remaining t))),
       (''Bal_Ija_Paid_All'', JStr (decimal (sup_interest_paid t))), (''Bal_Ija_Minted_All'', JStr ''0''),
       (''Bal_NodeReward_Minted_All'', JStr ''0''), (''Bal_Foundation'', JStr (decimal (sup_foundation t))),
       (''unit'', JStr ''wei''), (''decimals'', JInt 18),
       (''lockedAddressCount'', JInt (int (card (rs_locked_addresses s)))),
       (''stakingLocked'', JStr (decimal (sup_staking_locked t))),
       (''height'', JInt (int (tip_height (rs_chain s))))]))"

definition ieum_staking_status :: "'db rpc_state \<Rightarrow> nat \<Rightarrow> json list \<Rightarrow> json answer" where
  "ieum_staking_status s now params =
     (let wanted = map_option rpc_normalize_address (param_str params 0);
          st = ch_staking (rs_chain s);
          mine = (\<lambda>delegator. case wanted of None \<Rightarrow> True | Some a \<Rightarrow> delegator = a);
          delegations = map (\<lambda>p. JObj [(''delegator'', JStr (dep_delegator p)), (''validator'', JStr (dep_validator p)),
              (''amount'', JStr (decimal (dep_amount p)))]) (filter (mine \<circ> dep_delegator) (stk_delegations st));
          unbonding = map (\<lambda>e. JObj [(''delegator'', JStr (unb_delegator e)), (''validator'', JStr (unb_validator e)),
              (''amount'', JStr (decimal (unb_amount e))), (''releaseAt'', JInt (int (unb_release_at e))),
              (''claimable'', JBool (unb_release_at e \<le> now))]) (filter (mine \<circ> unb_delegator) (stk_unbonding st));
          validators = map (\<lambda>v. JObj [(''id'', JStr (val_id v)), (''consensusVotingPower'', JInt (int (val_voting_power v))),
              (''delegated'', JStr (decimal (total_delegated_to st (val_id v))))]) (rs_validators s)
      in Inr (JObj [(''height'', JInt (int (tip_height (rs_chain s)))), (''systemAddress'', JStr STAKING_SYSTEM_ADDRESS),
           (''minimumDelegation'', JStr (decimal MINIMUM_DELEGATION)), (''unbondingSeconds'', JInt (int UNBONDING_SECONDS)),
           (''doubleVoteSlashBps'', JInt (int DOUBLE_VOTE_SLASH_BPS)), (''delegations'', JArr delegations),
           (''unbonding'', JArr unbonding), (''validators'', JArr validators), (''votingPowerAffected'', JBool False)]))"

text \<open>The payload of a staking call; the text of the amount rule for the caller is left out.\<close>

definition staking_call_payload :: "json list \<Rightarrow> string answer" where
  "staking_call_payload params =
     abind (string_param params 0) (\<lambda>action.
     if action = ''claim'' then Inr ''claim''
     else if action = ''delegate'' \<or> action = ''undelegate'' then
       abind (string_param params 1) (\<lambda>validator.
       abind (coded (-32602) (validate_validator validator)) (\<lambda>_. Inr (action @ '':'' @ validator)))
     else Inl (-32602, ERpc BadAction))"

definition staking_call_data :: "'db environment \<Rightarrow> json list \<Rightarrow> (string \<times> string) answer" where
  "staking_call_data W params =
     abind (staking_call_payload params) (\<lambda>payload.
     Inr (STAKING_SYSTEM_ADDRESS, ''0x'' @ hex_encode (en_ext W) (as_bytes payload)))"

definition ieum_address_balances :: "'db rpc_state \<Rightarrow> json list \<Rightarrow> json answer" where
  "ieum_address_balances s params =
     (let offset = u64_param params 0 0;
          limit = min (u64_param params 1 100) 1000;
          entries = sort_key fst (filter (\<lambda>(_, balance). balance > 0) (ch_balances (rs_chain s)));
          accounts = map (\<lambda>(address, balance). JObj [(''address'', JStr address), (''balance'', JStr (decimal balance)),
              (''locked'', JBool (address \<in> rs_locked_addresses s))]) (take limit (drop offset entries))
      in Inr (JObj [(''height'', JInt (int (tip_height (rs_chain s)))), (''offset'', JInt (int offset)),
           (''limit'', JInt (int limit)), (''total'', JInt (int (length entries))), (''accounts'', JArr accounts)]))"

subsection \<open>The state of the node\<close>

definition txpool_status :: "'db rpc_state \<Rightarrow> json answer" where
  "txpool_status s =
     Inr (JObj [(''pending'', JStr (quantity (mempool_len (rs_pool s)))), (''queued'', JStr ''0x0''),
       (''bytes'', JStr (quantity (mp_total_bytes (rs_pool s))))])"

definition ieum_peer_info :: "'db rpc_state \<Rightarrow> nat \<Rightarrow> json answer" where
  "ieum_peer_info s now =
     Inr (JObj [(''version'', JInt 1), (''count'', JInt (int (length (rs_peers s)))),
       (''height'', JInt (int (tip_height (rs_chain s)))),
       (''peers'', JArr (map (\<lambda>(peer_id, peer). JObj [(''peerId'', JStr peer_id), (''address'', JStr (pi_address peer)),
          (''remoteIp'', case pi_remote_ip peer of None \<Rightarrow> JNull | Some ip \<Rightarrow> JStr ip),
          (''direction'', JStr (pi_direction peer)), (''connections'', JInt (int (pi_connections peer))),
          (''connectedAt'', JInt (int (pi_connected_at peer))),
          (''connectedSeconds'', JInt (int (saturating_sub now (pi_connected_at peer))))]) (sort_key fst (rs_peers s))))])"

definition ieum_finalized_block :: "'db environment \<Rightarrow> 'db rpc_state \<Rightarrow> json answer" where
  "ieum_finalized_block W s =
     (let chain = rs_chain s; root = JStr (''0x'' @ state_hash (en_ext W) chain)
      in Inr (if ch_blocks chain = []
         then JObj [(''height'', JInt 0), (''hash'', JStr (''0x'' @ tip_hash chain)), (''stateRoot'', root),
                (''transactionCount'', JInt 0)]
         else let b = last (ch_blocks chain)
              in JObj [(''height'', JInt (int (blk_height b))), (''hash'', JStr (''0x'' @ blk_hash b)), (''stateRoot'', root),
                   (''transactionCount'', JInt (int (length (blk_transactions b))))]))"

definition PROTOCOL_VERSION :: string where
  "PROTOCOL_VERSION = ''3''"

definition ieum_network_identity :: "'db rpc_state \<Rightarrow> json answer" where
  "ieum_network_identity s =
     Inr (JObj [(''chainId'', JInt (int (rs_chain_id s))),
       (''genesisHash'', JStr (''0x'' @ ch_genesis_commitment (rs_chain s))), (''protocolVersion'', JStr PROTOCOL_VERSION)])"

text \<open>Recovery records are what the file \<^verbatim>\<open>recovery/records.json\<close> parses to.\<close>

definition status_is :: "string \<Rightarrow> json \<Rightarrow> bool" where
  "status_is status r \<longleftrightarrow> Option.bind (json_get ''status'' r) as_str = Some status"

definition recovery_status :: "json list \<Rightarrow> json answer" where
  "recovery_status records =
     (let pending = length (filter (status_is ''pending'') records)
      in Inr (JObj [(''active'', JBool (pending > 0)), (''pendingPlans'', JInt (int pending)),
           (''appliedRecords'', JInt (int (length (filter (status_is ''applied'') records)))),
           (''latest'', if records = [] then JNull else last records)]))"

definition recovery_by_transaction :: "json list \<Rightarrow> string \<Rightarrow> json answer" where
  "recovery_by_transaction records transaction_hash =
     (let normalized = to_ascii_lowercase (trim_0x transaction_hash)
      in if length normalized \<noteq> 64 \<or> \<not> list_all is_ascii_hexdigit normalized then Inl (-32602, ERpc BadTransactionHash)
         else Inr (case find (\<lambda>r. case Option.bind (json_get ''transactionHash'' r) as_str of
                       None \<Rightarrow> False | Some value \<Rightarrow> eq_ignore_ascii_case (trim_0x value) normalized) records of
                     None \<Rightarrow> JNull | Some r \<Rightarrow> r))"

subsection \<open>Submitting\<close>

type_synonym 'db submission = "'db rpc_state \<times> json answer"

definition add_to_pool :: "'db environment \<Rightarrow> 'db rpc_state \<Rightarrow> transaction \<Rightarrow> 'db submission" where
  "add_to_pool W s tx =
     (case mempool_add (en_ext W) (rs_pool s) tx of
        Err e \<Rightarrow> (s, Inl (-32000, e))
      | Ok pool \<Rightarrow> (s\<lparr>rs_pool := pool\<rparr>, Inr (JStr (''0x'' @ tx_id (en_ext W) tx))))"

definition refuse_or :: "'db rpc_state \<Rightarrow> 'a answer \<Rightarrow> ('a \<Rightarrow> 'db submission) \<Rightarrow> 'db submission" where
  "refuse_or s r f = (case r of Inl e \<Rightarrow> (s, Inl e) | Inr x \<Rightarrow> f x)"

definition staking_allowed :: "'db rpc_state \<Rightarrow> transaction \<Rightarrow> unit answer" where
  "staking_allowed s tx =
     (if \<not> is_transfer (tx_action tx)
        \<and> version_at (rs_upgrade_schedule s) (saturating_add 64 (tip_height (rs_chain s)) 1) < 3
      then Inl (-32000, ERpc DelegationTooEarly)
      else case tx_action tx of
        Delegate validator \<Rightarrow>
          if \<not> list_ex (\<lambda>active. val_id active = validator) (rs_validators s)
          then Inl (-32000, ERpc InactiveValidator) else Inr ()
      | _ \<Rightarrow> Inr ())"

definition send_raw_transaction :: "'db environment \<Rightarrow> 'db rpc_state \<Rightarrow> json list \<Rightarrow> 'db submission" where
  "send_raw_transaction W s params =
     refuse_or s (string_param params 0) (\<lambda>raw.
     refuse_or s (coded (-32000) (decode_legacy (en_ext W) raw (rs_chain_id s))) (\<lambda>tx.
     refuse_or s (staking_allowed s tx) (\<lambda>_. add_to_pool W s tx)))"

definition send_signed_transaction :: "'db environment \<Rightarrow> rpc_codec \<Rightarrow> 'db rpc_state \<Rightarrow> json list \<Rightarrow> 'db submission" where
  "send_signed_transaction W J s params =
     refuse_or s (found (-32602) (ERpc (MissingParam 0)) (param params 0)) (\<lambda>v.
     refuse_or s (found (-32602) (ERpc MalformedRequest) (rj_to_transaction J v)) (\<lambda>tx.
     refuse_or s (coded (-32000) (verify_transaction (en_ext W) tx)) (\<lambda>_.
     refuse_or s (staking_allowed s tx) (\<lambda>_. add_to_pool W s tx))))"

definition request_quantity :: "json \<Rightarrow> string \<Rightarrow> string \<Rightarrow> nat answer" where
  "request_quantity request key fallback =
     parse_quantity_u128 (case Option.bind (json_get key request) as_str of None \<Rightarrow> fallback | Some v \<Rightarrow> v)"

definition request_str :: "json \<Rightarrow> string \<Rightarrow> string answer" where
  "request_str request key = found (-32602) (ERpc MalformedRequest) (Option.bind (json_get key request) as_str)"

definition request_object :: "json list \<Rightarrow> json answer" where
  "request_object params =
     found (-32602) (ERpc MalformedRequest)
       (case param params 0 of Some (JObj entries) \<Rightarrow> Some (JObj entries) | _ \<Rightarrow> None)"

definition request_nonce :: "'db environment \<Rightarrow> 'db rpc_state \<Rightarrow> json \<Rightarrow> account_wallet \<Rightarrow> nat answer" where
  "request_nonce W s request wallet =
     (case Option.bind (json_get ''nonce'' request) as_str of
        Some v \<Rightarrow> parse_quantity_u64 v
      | None \<Rightarrow> let address = account_address (en_ext W) wallet
                in Inr (mempool_next_nonce (rs_pool s) address (chain_next_nonce (rs_chain s) address)))"

definition send_transaction :: "'db environment \<Rightarrow> 'db rpc_state \<Rightarrow> json list \<Rightarrow> 'db submission" where
  "send_transaction W s params =
     refuse_or s (request_object params) (\<lambda>request.
     refuse_or s (request_str request ''from'') (\<lambda>from_account.
     refuse_or s (request_str request ''to'') (\<lambda>to_account.
     refuse_or s (request_quantity request ''value'' ''0x0'') (\<lambda>amount.
     refuse_or s (request_quantity request ''gasPrice'' ''0x1'') (\<lambda>gas_price.
     refuse_or s (request_quantity request ''gas'' ''0x5208'') (\<lambda>gas_limit.
     refuse_or s (found (-32602) (ERpc FeeOverflow) (checked_mul 128 gas_price gas_limit)) (\<lambda>fee.
     refuse_or s (found (-32000) (ERpc UnmanagedAccount) (hm_get (rs_wallets s) (rpc_normalize_address from_account))) (\<lambda>wallet.
     let to_ledger = resolve_ledger_address W s to_account in
     refuse_or s (request_nonce W s request wallet) (\<lambda>nonce.
     add_to_pool W s (account_sign_action (en_ext W) wallet to_ledger amount fee nonce Transfer))))))))))"

definition send_communication :: "'db environment \<Rightarrow> rpc_codec \<Rightarrow> 'db rpc_state \<Rightarrow> nat \<Rightarrow> json list \<Rightarrow> 'db submission" where
  "send_communication W J s now params =
     (if \<not> rs_communication_rpc_enabled s then (s, Inl (-32000, ERpc LocalOnly)) else
      refuse_or s (found (-32602) (ERpc (MissingParam 0)) (param params 0)) (\<lambda>v.
      refuse_or s (found (-32602) (ERpc MalformedRequest) (rj_to_envelope J v)) (\<lambda>envelope.
      case inbox_push (en_ext W) (rs_communication_outbox s) envelope now of
        (outbox, r) \<Rightarrow> (s\<lparr>rs_communication_outbox := outbox\<rparr>,
            abind (coded (-32602) r) (\<lambda>_. Inr (JStr (env_id envelope)))))))"

definition poll_communication :: "rpc_codec \<Rightarrow> 'db rpc_state \<Rightarrow> 'db submission" where
  "poll_communication J s =
     (if \<not> rs_communication_rpc_enabled s then (s, Inl (-32000, ERpc LocalOnly)) else
      case inbox_drain (rs_communication_inbox s) of
        (inbox, messages) \<Rightarrow> (s\<lparr>rs_communication_inbox := inbox\<rparr>, Inr (JArr (map (rj_envelope J) messages))))"

definition is_audited_method :: "string \<Rightarrow> bool" where
  "is_audited_method name \<longleftrightarrow> name \<in> {''personal_newAccount'', ''personal_importRawKey'', ''ieum_newMnemonic'',
     ''ieum_importMnemonic'', ''personal_unlockAccount'', ''eth_sendTransaction'', ''personal_sendTransaction'',
     ''eth_sendRawTransaction'', ''ieum_sendSignedTransaction''}"

subsection \<open>Quantities\<close>

text \<open>The value of a string of digits, and what the overflow-checked loop computes of it.\<close>

fun hex_value :: "nat \<Rightarrow> string \<Rightarrow> nat" where
  "hex_value acc [] = acc"
| "hex_value acc (c # cs) = hex_value (16 * acc + the (hex_digit_of c)) cs"

lemma hex_value_le: "acc \<le> hex_value acc s"
proof (induction s arbitrary: acc)
  case (Cons c cs)
  show ?case using Cons.IH [of "16 * acc + the (hex_digit_of c)"] by simp
qed simp

lemma hex_value_append: "hex_value acc (s @ t) = hex_value (hex_value acc s) t"
  by (induction s arbitrary: acc) simp_all

lemma radix_loop_Some:
  assumes "acc < 2 ^ w"
  shows "radix_loop w acc s = Some v \<longleftrightarrow> list_all (\<lambda>c. hex_digit_of c \<noteq> None) s \<and> v = hex_value acc s \<and> v < 2 ^ w"
  using assms
proof (induction s arbitrary: acc)
  case (Cons c cs)
  show ?case
  proof (cases "hex_digit_of c")
    case (Some d)
    show ?thesis
    proof (cases "16 * acc + d < 2 ^ w")
      case True
      with Some Cons.IH [of "16 * acc + d"] show ?thesis
        by (simp add: checked_mul_def checked_add_def mult.commute)
    next
      case False
      then have "\<not> hex_value (16 * acc + d) cs < 2 ^ w" using hex_value_le [of "16 * acc + d" cs] by linarith
      with Some False show ?thesis by (auto simp: checked_mul_def checked_add_def mult.commute)
    qed
  qed simp
qed auto

lemma hex_digit_of_lower: "n < 16 \<Longrightarrow> hex_digit_of (lower_digit n) = Some n"
  by (auto simp: hex_digit_of_def lower_digit_def Let_def)

lemma hex_value_digits: "list_all (\<lambda>c. hex_digit_of c \<noteq> None) (lower_hex_digits n) \<and> hex_value 0 (lower_hex_digits n) = n"
proof (induction n rule: lower_hex_digits.induct)
  case (1 n)
  show ?case
  proof (cases "n < 16")
    case True
    then show ?thesis by (simp add: lower_hex_digits.simps [of n] hex_digit_of_lower)
  next
    case False
    then show ?thesis using 1
      by (simp add: lower_hex_digits.simps [of n] hex_digit_of_lower hex_value_append)
  qed
qed

lemma lower_hex_digits_form: "lower_hex_digits n \<noteq> []" "\<not> set (lower_hex_digits n) \<subseteq> {CHR ''+'', CHR ''-''}" "hd (lower_hex_digits n) \<noteq> CHR ''+''"
proof -
  show *: "lower_hex_digits n \<noteq> []" by (simp add: lower_hex_digits.simps [of n])
  have "hex_digit_of (CHR ''+'') = None" "hex_digit_of (CHR ''-'') = None" by (simp_all add: hex_digit_of_def)
  then have no: "CHR ''+'' \<notin> set (lower_hex_digits n)" "CHR ''-'' \<notin> set (lower_hex_digits n)"
    using hex_value_digits [of n] by (auto simp: list_all_iff)
  with * show "\<not> set (lower_hex_digits n) \<subseteq> {CHR ''+'', CHR ''-''}" "hd (lower_hex_digits n) \<noteq> CHR ''+''"
    by (cases "lower_hex_digits n"; auto)+
qed

lemma quantity_parse:
  "parse_quantity w (quantity n) = (if n < 2 ^ w then Inr n else Inl (-32602, ERpc BadQuantity))"
proof -
  have strip: "strip_prefix ''0x'' (quantity n) = Some (lower_hex_digits n)"
    by (simp add: quantity_def strip_prefix_def starts_with_def)
  have "from_hex_radix w (lower_hex_digits n) = radix_loop w 0 (lower_hex_digits n)"
    using lower_hex_digits_form [of n] by (auto simp: from_hex_radix_def)
  moreover have "radix_loop w 0 (lower_hex_digits n) = (if n < 2 ^ w then Some n else None)"
    using radix_loop_Some [of 0 w "lower_hex_digits n"] hex_value_digits [of n]
    by (cases "radix_loop w 0 (lower_hex_digits n)") auto
  ultimately show ?thesis
    using lower_hex_digits_form(1) [of n] unfolding parse_quantity_def strip by (simp add: found_def)
qed

lemmas quantity_parse_u64 = quantity_parse [of 64, folded parse_quantity_u64_def]

lemma quantity_parse_u128:
  "parse_quantity_u128 (quantity_u128 n) = (if n < 2 ^ 128 then Inr n else Inl (-32602, ERpc BadQuantity))"
  using quantity_parse [of 128 n] by (simp add: parse_quantity_u128_def quantity_def quantity_u128_def)

subsection \<open>Supply\<close>

lemma hm_get0_sum_le:
  assumes "hm_wf m"
  shows "sum (hm_get0 m) A \<le> hm_total m"
proof (cases "finite A")
  case True
  have "sum (hm_get0 m) A = sum (hm_get0 m) (A \<inter> fst ` set m)"
    using True by (intro sum.mono_neutral_right) (auto simp: hm_get0_def hm_get_def intro: rev_image_eqI dest: map_of_SomeD split: option.splits)
  with hm_sum_le_total [OF assms, of "A \<inter> fst ` set m"] show ?thesis by simp
qed simp


lemma supply_totals_ok:
  assumes "hm_wf (ch_balances c)" and "hm_total (ch_balances c) + stake_total (ch_staking c) < 2 ^ 128"
    and "hm_total (ch_initial_balances c) < 2 ^ 128" and "sum_list (interest_paid (ch_blocks c)) < 2 ^ 128"
    and "rs_chain s = c"
  obtains t where "supply_totals_of s = Inr t"
    and "sup_all t = hm_total (ch_balances c) + stake_total (ch_staking c)"
    and "sup_locked t = sum (hm_get0 (ch_balances c)) (rs_locked_addresses s) + stake_total (ch_staking c)"
    and "sup_genesis t = hm_total (ch_initial_balances c)" and "sup_circulating t = sup_all t - sup_locked t"
    and "sup_remaining t = MAX_SUPPLY - sup_all t" and "sup_interest_paid t = sum_list (interest_paid (ch_blocks c))"
    and "sup_foundation t = hm_get0 (ch_balances c) FOUNDATION_FEE_ADDRESS" and "sup_staking_locked t = stake_total (ch_staking c)"
proof -
  have locked: "sum (hm_get0 (ch_balances c)) (rs_locked_addresses s) \<le> hm_total (ch_balances c)"
    using assms(1) by (rule hm_get0_sum_le)
  have bounds: "hm_total (ch_balances c) < 2 ^ 128" "stake_total (ch_staking c) < 2 ^ 128"
    "sum (hm_get0 (ch_balances c)) (rs_locked_addresses s) < 2 ^ 128"
    "sum (hm_get0 (ch_balances c)) (rs_locked_addresses s) + stake_total (ch_staking c) < 2 ^ 128"
    using locked assms(2) by linarith+
  have sums: "checked_sum 128 (map snd (ch_balances c)) = Some (hm_total (ch_balances c))"
    "checked_sum 128 (map snd (ch_initial_balances c)) = Some (hm_total (ch_initial_balances c))"
    "checked_sum 128 (map dep_amount (stk_delegations (ch_staking c)) @ map unb_amount (stk_unbonding (ch_staking c)))
       = Some (stake_total (ch_staking c))"
    "checked_sum 128 (interest_paid (ch_blocks c)) = Some (sum_list (interest_paid (ch_blocks c)))"
    using bounds(1,2) assms(3,4) unfolding hm_total_def stake_total_def stake_delegated_def stake_unbonding_def
    by (simp_all add: checked_sum_complete del: power_numeral)
  let ?all = "hm_total (ch_balances c) + stake_total (ch_staking c)"
    and ?locked = "sum (hm_get0 (ch_balances c)) (rs_locked_addresses s) + stake_total (ch_staking c)"
  have "supply_totals_of s = Inr \<lparr>sup_all = ?all, sup_circulating = ?all - ?locked, sup_locked = ?locked,
      sup_genesis = hm_total (ch_initial_balances c), sup_remaining = MAX_SUPPLY - ?all,
      sup_interest_paid = sum_list (interest_paid (ch_blocks c)),
      sup_foundation = hm_get0 (ch_balances c) FOUNDATION_FEE_ADDRESS, sup_staking_locked = stake_total (ch_staking c)\<rparr>"
    using sums bounds assms(2,5)
    by (simp add: supply_totals_of_def Let_def found_def checked_set_sum_def checked_add_def saturating_sub_def
        del: power_numeral)
  then show thesis by (rule that) simp_all
qed

text \<open>
  C21.  The supply report is exact.  On a ledger reachable from a genesis within the supply cap, with
  one balance per account and the interest ever paid below 2^128, \<^verbatim>\<open>ieum_supplyStatus\<close> answers, and
  every amount of the answer is the right one: the total is the genesis supply; locked is the money
  of the locked addresses and all stakes, within the total; circulating is the total less locked;
  what can still be minted is the cap less the total; then the interest paid, the balance of the
  foundation and the stakes, and beside the amounts the number of locked addresses and the height.
\<close>

theorem supply_status_exact:
  assumes "chain_start E c0" and "(chain_step E)\<^sup>*\<^sup>* c0 (rs_chain s)" and "hm_wf (ch_balances (rs_chain s))"
    and "sum_list (interest_paid (ch_blocks (rs_chain s))) < 2 ^ 128"
  shows "let c = rs_chain s; everything = hm_total (ch_initial_balances c0); staked = stake_total (ch_staking c);
      locked = sum (hm_get0 (ch_balances c)) (rs_locked_addresses s) + staked
    in locked \<le> everything \<and> everything \<le> MAX_SUPPLY
      \<and> (\<exists>j. ieum_supply_status s = Inr j
        \<and> list_all (\<lambda>(key, amount). json_get key j = Some (JStr (decimal amount)))
            [(''Bal_All'', everything), (''Bal_Utong_All'', everything - locked), (''Bal_Lock_All'', locked),
             (''Bal_Genesis_All'', everything), (''Bal_MaxSupply'', MAX_SUPPLY),
             (''Bal_RemainingMintable'', MAX_SUPPLY - everything),
             (''Bal_Ija_Paid_All'', sum_list (interest_paid (ch_blocks c))),
             (''Bal_Foundation'', hm_get0 (ch_balances c) FOUNDATION_FEE_ADDRESS), (''stakingLocked'', staked)]
        \<and> json_get ''lockedAddressCount'' j = Some (JInt (int (card (rs_locked_addresses s))))
        \<and> json_get ''height'' j = Some (JInt (int (tip_height c))))"
proof -
  let ?c = "rs_chain s"
  have inv: "chain_inv E ?c" using assms(1,2) by (rule chain.inv_reachable)
  have init: "ch_initial_balances ?c = ch_initial_balances c0" using assms(2) by (rule chain_steps_initial)
  have total: "hm_total (ch_balances ?c) + stake_total (ch_staking ?c) = hm_total (ch_initial_balances c0)"
    using chain_inv_work [OF inv] by (simp add: work_ok_def work_money_def money_def chain_work_def init)
  have cap: "hm_total (ch_initial_balances c0) \<le> MAX_SUPPLY" and "MAX_SUPPLY < 2 ^ 128"
    using assms(1) by (simp_all add: chain_start_def MAX_SUPPLY_def IEUM_def IEUM_MAX_SUPPLY_def IEUM_BASE_UNIT_def)
  then have small: "hm_total (ch_balances ?c) + stake_total (ch_staking ?c) < 2 ^ 128" "hm_total (ch_initial_balances ?c) < 2 ^ 128"
    unfolding total init by linarith+
  have locked: "sum (hm_get0 (ch_balances ?c)) (rs_locked_addresses s) \<le> hm_total (ch_balances ?c)"
    using assms(3) by (rule hm_get0_sum_le)
  obtain t where t: "supply_totals_of s = Inr t"
    "sup_all t = hm_total (ch_balances ?c) + stake_total (ch_staking ?c)"
    "sup_locked t = sum (hm_get0 (ch_balances ?c)) (rs_locked_addresses s) + stake_total (ch_staking ?c)"
    "sup_genesis t = hm_total (ch_initial_balances ?c)" "sup_circulating t = sup_all t - sup_locked t"
    "sup_remaining t = MAX_SUPPLY - sup_all t" "sup_interest_paid t = sum_list (interest_paid (ch_blocks ?c))"
    "sup_foundation t = hm_get0 (ch_balances ?c) FOUNDATION_FEE_ADDRESS" "sup_staking_locked t = stake_total (ch_staking ?c)"
    using assms(3) small assms(4) refl by (rule supply_totals_ok)
  show ?thesis using locked total cap by (simp add: Let_def ieum_supply_status_def t init flip: total)
qed

definition supply_node :: "((string, u8 list) hmap \<times> (string, int) hmap) rpc_state" where
  "supply_node = new_node\<lparr>rs_chain := sample_after, rs_locked_addresses := {''bob''}\<rparr>"

lemma short_addresses: "''bob'' \<noteq> FOUNDATION_FEE_ADDRESS" "''prod'' \<noteq> FOUNDATION_FEE_ADDRESS"
  by (simp_all add: FOUNDATION_FEE_ADDRESS_def IEUM_FOUNDATION_ADDRESS_def)

theorem supply_status_exact_witness:
  "\<exists>j. ieum_supply_status supply_node = Inr j
    \<and> list_all (\<lambda>(key, amount). json_get key j = Some (JStr (decimal amount)))
        [(''Bal_All'', 1000), (''Bal_Utong_All'', 990), (''Bal_Lock_All'', 10), (''Bal_Genesis_All'', 1000),
         (''Bal_MaxSupply'', MAX_SUPPLY), (''Bal_RemainingMintable'', MAX_SUPPLY - 1000), (''Bal_Ija_Paid_All'', 0),
         (''Bal_Foundation'', 2), (''stakingLocked'', 0)]"
proof -
  have chain: "rs_chain supply_node = sample_after" "rs_locked_addresses supply_node = {''bob''}" by (simp_all add: supply_node_def)
  have distinct: "hm_wf (ch_balances sample_after)"
    using payer_distinct by (auto simp: sample_after_def hm_wf_def short_addresses)
  have paid: "sum_list (interest_paid (ch_blocks sample_after)) = 0"
    by (simp add: sample_after_def interest_paid_def block_genesis_def genesis_at_def sample_next_def block_new_def Let_def)
  have genesis: "hm_total (ch_initial_balances sample_chain) = 1000"
    by (simp add: sample_chain_def with_chain_id_def Let_def hm_from_list_def hm_insert_def hm_total_def)
  have held: "hm_get0 (ch_balances sample_after) ''bob'' = 10" "hm_get0 (ch_balances sample_after) FOUNDATION_FEE_ADDRESS = 2"
    "stake_total (ch_staking sample_after) = 0"
    using payer_distinct short_addresses
    by (simp_all add: sample_after_def sample_chain_def with_chain_id_def Let_def hm_get0_def hm_get_def)
  have "(chain_step toy_ext)\<^sup>*\<^sup>* sample_chain (rs_chain supply_node)" using sample_steps by (simp add: chain)
  from supply_status_exact [OF sample_chain_start this] show ?thesis
    by (simp add: chain distinct paid genesis held Let_def) blast
qed

subsection \<open>Submitted transactions\<close>

lemma lower_hex_same: "list_all lower_hex s \<Longrightarrow> to_ascii_lowercase s = s"
  by (induction s) (auto simp: to_ascii_lowercase_def lower_hex_def)

lemma find_unique: "distinct (map f xs) \<Longrightarrow> x \<in> set xs \<Longrightarrow> find (\<lambda>y. f y = f x) xs = Some x"
  by (induction xs) (auto simp: rev_image_eqI)

lemma pool_find_id:
  assumes "hex_laws E" and "distinct (map (tx_id E) (mp_transactions m))" and "tx \<in> set (mp_transactions m)"
  shows "mempool_transaction_by_hash E m (''0x'' @ tx_id E tx) = Some tx"
proof -
  have same: "eq_ignore_ascii_case (tx_id E t) (tx_id E tx) \<longleftrightarrow> tx_id E t = tx_id E tx" for t
    using assms(1) by (simp add: eq_ignore_ascii_case_def lower_hex_same tx_id_def hex_laws_def)
  have strip: "strip_prefix ''0x'' (''0x'' @ tx_id E tx) = Some (tx_id E tx)" by (simp add: strip_prefix_def starts_with_def)
  have "find (\<lambda>t. tx_id E t = tx_id E tx) (mp_transactions m) = Some tx"
    using assms(2,3) by (rule find_unique)
  then show ?thesis by (simp only: mempool_transaction_by_hash_def strip same Let_def option.case)
qed

lemma add_to_pool_Inr:
  assumes "add_to_pool W s tx = (s', Inr answer)"
  obtains pool where "mempool_add (en_ext W) (rs_pool s) tx = Ok pool" and "s' = s\<lparr>rs_pool := pool\<rparr>"
    and "answer = JStr (''0x'' @ tx_id (en_ext W) tx)"
  using assms that by (auto simp: add_to_pool_def split: result.splits)

lemma refuse_or_Inr: "refuse_or s r f = (s', Inr answer) \<longleftrightarrow> (\<exists>x. r = Inr x \<and> f x = (s', Inr answer))"
  by (auto simp: refuse_or_def split: sum.splits)

lemma submitted_adds:
  assumes "(s', Inr answer) \<in> {send_transaction W s params, send_raw_transaction W s params, send_signed_transaction W J s params}"
  obtains tx where "add_to_pool W s tx = (s', Inr answer)"
proof -
  consider "send_transaction W s params = (s', Inr answer)" | "send_raw_transaction W s params = (s', Inr answer)"
    | "send_signed_transaction W J s params = (s', Inr answer)" using assms by force
  then show thesis
  proof cases
    case 1
    then show ?thesis unfolding send_transaction_def refuse_or_Inr Let_def using that by blast
  next
    case 2
    then show ?thesis unfolding send_raw_transaction_def refuse_or_Inr using that by blast
  next
    case 3
    then show ?thesis unfolding send_signed_transaction_def refuse_or_Inr using that by blast
  qed
qed

lemma pending_query:
  assumes "find_included W s h = None" and "mempool_transaction_by_hash (en_ext W) (rs_pool s) h = Some tx"
  shows "eth_get_transaction_by_hash W J s [JStr h] = Inr (pending_transaction_json W J tx)"
  using assms by (simp add: eth_get_transaction_by_hash_def string_param_def param_str_def param_def found_def)

text \<open>
  C22.  A submitted transaction waits in the pool.  Whichever method accepts it, the answer is the
  hash of one transaction, which now is in the pool and is what a query for that hash returns, with
  no block, as long as no block contains it; the ledger, the stores and the pool's invariant are
  untouched.
\<close>

theorem submitted_is_pending:
  assumes "hex_laws (en_ext W)" and "mempool_inv (en_ext W) (rs_pool s)"
    and "(s', Inr answer) \<in> {send_transaction W s params, send_raw_transaction W s params, send_signed_transaction W J s params}"
  shows "\<exists>tx. answer = JStr (''0x'' @ tx_id (en_ext W) tx) \<and> tx \<in> set (mp_transactions (rs_pool s'))
    \<and> s' = s\<lparr>rs_pool := rs_pool s'\<rparr> \<and> mempool_inv (en_ext W) (rs_pool s')
    \<and> mempool_transaction_by_hash (en_ext W) (rs_pool s') (''0x'' @ tx_id (en_ext W) tx) = Some tx
    \<and> (find_included W s (''0x'' @ tx_id (en_ext W) tx) = None \<longrightarrow>
         eth_get_transaction_by_hash W J s' [answer] = Inr (pending_transaction_json W J tx))"
proof -
  from assms(3) obtain tx where "add_to_pool W s tx = (s', Inr answer)" by (rule submitted_adds)
  then obtain pool where add: "mempool_add (en_ext W) (rs_pool s) tx = Ok pool" and s': "s' = s\<lparr>rs_pool := pool\<rparr>"
    and answer: "answer = JStr (''0x'' @ tx_id (en_ext W) tx)" by (rule add_to_pool_Inr)
  have inv: "mempool_inv (en_ext W) pool" using add assms(2) by (rule mempool_add_inv)
  have mem: "tx \<in> set (mp_transactions pool)" using add by (rule mempool_add_Ok) (simp add: insert_tx_def)
  have found: "mempool_transaction_by_hash (en_ext W) pool (''0x'' @ tx_id (en_ext W) tx) = Some tx"
    using inv mem by (intro pool_find_id assms(1)) (auto simp: mempool_inv_def index_inv_def)
  have kept: "rs_pool s' = pool" "s' = s\<lparr>rs_pool := rs_pool s'\<rparr>" by (simp_all add: s')
  have "find_included W s' h = find_included W s h" for h
    by (cases "archive_transaction_by_hash (en_ext W) (rs_archive s) h") (simp_all add: find_included_def s')
  then have query: "eth_get_transaction_by_hash W J s' [answer] = Inr (pending_transaction_json W J tx)"
    if "find_included W s (''0x'' @ tx_id (en_ext W) tx) = None"
    unfolding answer using that found by (intro pending_query) (simp_all only: kept(1))
  note facts = answer mem [folded kept(1)] kept(2) inv [folded kept(1)] found [folded kept(1)]
  show ?thesis by (intro exI [of _ tx] conjI impI) (fact facts | rule query, assumption)+
qed

text \<open>A node with an empty small pool that knows one account, and the request of a transfer from it.\<close>

definition small_node :: "((string, u8 list) hmap \<times> (string, int) hmap) rpc_state" where
  "small_node = new_node\<lparr>rs_pool := with_limits 2 1000\<rparr>"

definition marked_tx :: transaction where
  "marked_tx = (sample_transfer ''ethraw:'')\<lparr>tx_action := Transfer\<rparr>"

definition marked_codec :: rpc_codec where
  "marked_codec = \<lparr>rj_event = (\<lambda>_. JNull), rj_action = (\<lambda>_. JNull), rj_action_vec = (\<lambda>_. []), rj_status = (\<lambda>_. JNull),
     rj_envelope = (\<lambda>_. JNull), rj_to_envelope = (\<lambda>_. None), rj_to_transaction = (\<lambda>_. Some marked_tx)\<rparr>"

lemma small_pool: "mempool_inv toy_ext (with_limits 2 1000)" "mp_transactions (with_limits 2 1000) = []" "mp_max_bytes (with_limits 2 1000) = 1000"
  by (rule with_limits_inv, simp, simp_all add: with_limits_def)

lemma small_node_simps: "rs_pool small_node = with_limits 2 1000" "en_ext mem_environment = toy_ext"
  by (simp_all add: small_node_def mem_environment_def)

lemma marked_accepted:
  obtains s' where "send_signed_transaction mem_environment marked_codec small_node [JNull] = (s', Inr (JStr (''0x'' @ tx_id toy_ext marked_tx)))"
proof -
  obtain pool where "mempool_add toy_ext (with_limits 2 1000) marked_tx = Ok pool"
    by (rule mempool_add_accepts [OF small_pool(1), of marked_tx]) (simp_all add: small_pool toy_tx_size)
  then have "add_to_pool mem_environment small_node marked_tx
      = (small_node\<lparr>rs_pool := pool\<rparr>, Inr (JStr (''0x'' @ tx_id toy_ext marked_tx)))"
    by (simp add: add_to_pool_def small_node_simps)
  moreover have "verify_transaction toy_ext marked_tx = Ok ()" "is_transfer (tx_action marked_tx)" "tx_action marked_tx = Transfer"
    by (simp_all add: verify_transaction_def marked_tx_def sample_transfer_def starts_with_def is_transfer_def)
  ultimately show thesis
    by (intro that) (simp add: send_signed_transaction_def refuse_or_def found_def param_def marked_codec_def coded_def
      staking_allowed_def small_node_simps)
qed

theorem submitted_is_pending_witness:
  "\<exists>s' tx. send_signed_transaction mem_environment marked_codec small_node [JNull] = (s', Inr (JStr (''0x'' @ tx_id toy_ext tx)))
     \<and> mempool_transaction_by_hash toy_ext (rs_pool s') (''0x'' @ tx_id toy_ext tx) = Some tx"
proof -
  obtain s' where s': "send_signed_transaction mem_environment marked_codec small_node [JNull] = (s', Inr (JStr (''0x'' @ tx_id toy_ext marked_tx)))"
    by (rule marked_accepted)
  have "hex_laws (en_ext mem_environment)" "mempool_inv (en_ext mem_environment) (rs_pool small_node)"
    using hex_laws_toy small_pool(1) by (simp_all add: small_node_simps)
  note pending = submitted_is_pending [OF this, of s' "JStr (''0x'' @ tx_id toy_ext marked_tx)" "[JNull]" marked_codec]
  from pending show ?thesis using s' unfolding small_node_simps(2) by force
qed

subsection \<open>Transactions nobody signed\<close>

lemma applied_verified:
  assumes "for_each (apply_transaction E cid p t) txs w = Ok w'" and "tx \<in> set txs"
  shows "verify_tx E cid tx = Ok ()"
  using assms
proof (induction txs arbitrary: w)
  case (Cons x xs)
  then obtain w1 where "apply_transaction E cid p t x w = Ok w1" "for_each (apply_transaction E cid p t) xs w1 = Ok w'" by auto
  with Cons.IH Cons.prems(2) show ?case by (auto elim: apply_transaction_Ok)
qed simp

lemma apply_block_verified:
  assumes "apply_block E c b = Ok c'" and "tx \<in> set (blk_transactions b)"
  shows "verify_tx E (ch_chain_id c) tx = Ok ()"
proof -
  obtain w x where "run_block E (ch_chain_id c) b (chain_work c, ch_executed_events c) = Ok (w, x)"
    using assms(1) by (rule apply_block_Ok)
  then obtain w1 where "apply_transactions E (ch_chain_id c) (blk_transactions b) (blk_producer b) (blk_timestamp b) (chain_work c) = Ok w1"
    by (rule run_block_Ok)
  then show ?thesis using assms(2) by (auto simp: apply_transactions_def intro: applied_verified)
qed

text \<open>
  C23.  The marker of raw Ethereum transactions stands in for a signature.  A transfer whose
  signature starts with \<^verbatim>\<open>ethraw:\<close> is taken by \<^verbatim>\<open>ieum_sendSignedTransaction\<close> from any sender in
  the name of any account, although no block with it can be executed when the text behind the
  marker is no signed transaction of these contents.
\<close>

theorem unsigned_transfer_admitted:
  assumes "starts_with (tx_signature tx) ''ethraw:''" and "tx_action tx = Transfer"
    and "verify_embedded (en_ext W) tx (ch_chain_id c) \<noteq> Ok ()" and "rj_to_transaction J v = Some tx"
    and "mempool_inv (en_ext W) (rs_pool s)" and "tx_id (en_ext W) tx \<notin> tx_id (en_ext W) ` set (mp_transactions (rs_pool s))"
    and "tx_size (en_ext W) tx \<le> mp_max_bytes (rs_pool s)" and "tx_key tx \<notin> tx_key ` set (mp_transactions (rs_pool s))"
  shows "\<exists>s'. send_signed_transaction W J s [v] = (s', Inr (JStr (''0x'' @ tx_id (en_ext W) tx)))
    \<and> tx \<in> set (mp_transactions (rs_pool s'))
    \<and> (\<forall>b c'. tx \<in> set (blk_transactions b) \<longrightarrow> apply_block (en_ext W) c b \<noteq> Ok c')"
proof -
  obtain pool where pool: "mempool_add (en_ext W) (rs_pool s) tx = Ok pool"
    by (rule mempool_add_accepts [OF assms(5-7)]) (use assms(8) in \<open>auto simp: image_iff\<close>)
  have mem: "tx \<in> set (mp_transactions pool)" using pool by (rule mempool_add_Ok) (simp add: insert_tx_def)
  have "verify_tx (en_ext W) (ch_chain_id c) tx \<noteq> Ok ()" using assms(1,3) by (simp add: verify_tx_def)
  then have "apply_block (en_ext W) c b \<noteq> Ok c'" if "tx \<in> set (blk_transactions b)" for b c'
    using that apply_block_verified by blast
  moreover have "send_signed_transaction W J s [v] = (s\<lparr>rs_pool := pool\<rparr>, Inr (JStr (''0x'' @ tx_id (en_ext W) tx)))"
    using assms(1,2,4) pool
    by (simp add: send_signed_transaction_def refuse_or_def found_def param_def coded_def staking_allowed_def add_to_pool_def
        verify_transaction_def is_transfer_def)
  ultimately show ?thesis using mem by auto
qed

theorem unsigned_transfer_admitted_witness:
  "\<exists>s'. send_signed_transaction mem_environment marked_codec small_node [JNull] = (s', Inr (JStr (''0x'' @ tx_id toy_ext marked_tx)))
     \<and> marked_tx \<in> set (mp_transactions (rs_pool s'))"
proof -
  have "verify_embedded toy_ext marked_tx (ch_chain_id new_chain) \<noteq> Ok ()"
    by (simp add: verify_embedded_def marked_tx_def sample_transfer_def strip_prefix_def starts_with_def toy_ext_def
        decode_list_def decode_item_def)
  moreover have "starts_with (tx_signature marked_tx) ''ethraw:''" "tx_action marked_tx = Transfer"
    by (simp_all add: marked_tx_def sample_transfer_def starts_with_def)
  moreover have "rj_to_transaction marked_codec JNull = Some marked_tx" by (simp add: marked_codec_def)
  ultimately show ?thesis
    using unsigned_transfer_admitted [of marked_tx mem_environment new_chain marked_codec JNull small_node] small_pool
    by (auto simp: small_node_simps toy_tx_size)
qed

end
