(* ===== verification/NodeLoop.thy ===== *)
theory NodeLoop
  imports Rpc NodeInvariant Stores
begin

text \<open>
  The main loop of a node (\<^verbatim>\<open>main\<close> in \<^verbatim>\<open>src/src/main.rs\<close>): the handlers of its timers and of the
  events of the network, which tie the consensus runtime, the state of the RPC server, and the
  stores together.  A handler returns the new state, the commands it sends to the network task, and
  a result; an error leaves the loop and ends the node.  Left out are log output, automatic updates
  and their announcements, the validator file that a bootstrap set is written to, and the cache that
  only avoids repeated log lines; the channel to the network task is taken to be open.
\<close>

subsection \<open>State and commands\<close>

record service_observation =
  obs_connected_since :: nat
  obs_network_group :: string

type_synonym snapshot_key = "nat \<times> string \<times> string"

text \<open>What is fixed when the loop starts.\<close>

record node_config =
  nc_is_client :: bool
  nc_upgrades :: "protocol_upgrade list"
  nc_schedule :: event_schedule
  nc_interest_policy :: validator_interest_policy
  nc_holder_policy :: holder_reward_policy
  nc_block_interval :: nat
  nc_direct_sync_block_limit :: nat
  nc_local_address :: string
  nc_local_registration :: "validator_registration option"
  nc_reward_registration :: node_reward_registration

text \<open>The variables of the loop.\<close>

record 'db node_loop =
  nl_consensus :: runtime
  nl_rpc :: "'db rpc_state"
  nl_finality :: "finality_certificate list"
  nl_evidence :: "double_vote_evidence list"
  nl_validators :: "validator list"
  nl_local_is_validator :: bool
  nl_registrations :: "(string, validator_registration) hmap"
  nl_reward_registrations :: "(string, node_reward_registration) hmap"
  nl_observations :: "(string, service_observation) hmap"
  nl_attestations :: "(nat \<times> string \<times> string, node_service_attestation) hmap"
  nl_snapshot_votes :: "(snapshot_key, snapshot_attestation list) hmap"
  nl_snapshot_candidates :: "(snapshot_key, state_snapshot) hmap"
  nl_sync_quorum :: tip_quorum
  nl_observed_tip :: nat
  nl_next_block_at :: nat
  nl_was_active :: bool
  nl_last_rebroadcast :: nat
  nl_announced :: "(string, nat) hmap"

datatype command =
    PublishConsensus consensus_message
  | PublishProposal signed_proposal
  | PublishRoundChange signed_round_change
  | PublishTransaction transaction
  | PublishBlock block
  | PublishEvidence double_vote_evidence
  | PublishSnapshotAttestation snapshot_attestation
  | PublishNodeServiceAttestation node_service_attestation
  | PublishValidatorRegistration validator_registration
  | PublishNodeRewardRegistration node_reward_registration
  | RequestSync nat
  | RespondSync string sync_tip "finality_certificate list" "state_snapshot option" "snapshot_attestation option"
  | SendCommunication communication_envelope
  | PenalizePeer string nat

type_synonym 'db handler = "'db node_loop \<Rightarrow> 'db node_loop \<times> command list \<times> unit result"

text \<open>The statements of a handler: sending, failing, changing a variable, sequencing, calling.\<close>

definition send :: "command list \<Rightarrow> 'db handler" where
  "send cs s = (s, cs, Ok ())"

definition stop_with :: "error \<Rightarrow> 'db handler" where
  "stop_with e s = (s, [], Err e)"

definition set_state :: "('db node_loop \<Rightarrow> 'db node_loop) \<Rightarrow> 'db handler" where
  "set_state f s = (f s, [], Ok ())"

definition andthen :: "'db handler \<Rightarrow> 'db handler \<Rightarrow> 'db handler" where
  "andthen f g s =
     (case f s of
        (s1, c1, Err e) \<Rightarrow> (s1, c1, Err e)
      | (s1, c1, Ok _) \<Rightarrow> (case g s1 of (s2, c2, r) \<Rightarrow> (s2, c1 @ c2, r)))"

fun each :: "('a \<Rightarrow> 'db handler) \<Rightarrow> 'a list \<Rightarrow> 'db handler" where
  "each f [] = send []"
| "each f (x # xs) = andthen (f x) (each f xs)"

definition call_consensus :: "(runtime \<Rightarrow> 'a rt_action) \<Rightarrow> ('a result \<Rightarrow> 'db handler) \<Rightarrow> 'db handler" where
  "call_consensus f k s = (case f (nl_consensus s) of (rt, r) \<Rightarrow> k r (s\<lparr>nl_consensus := rt\<rparr>))"

definition call_rpc :: "('db rpc_state \<Rightarrow> ('db, 'a) rpc_action) \<Rightarrow> ('a result \<Rightarrow> 'db handler) \<Rightarrow> 'db handler" where
  "call_rpc f k s = (case f (nl_rpc s) of (rpc, r) \<Rightarrow> k r (s\<lparr>nl_rpc := rpc\<rparr>))"

text \<open>The operator \<^verbatim>\<open>?\<close>: an error leaves the loop.\<close>

definition must :: "('a \<Rightarrow> 'db handler) \<Rightarrow> 'a result \<Rightarrow> 'db handler" where
  "must k r = (case r of Err e \<Rightarrow> stop_with e | Ok x \<Rightarrow> k x)"

definition rpc_do :: "('db rpc_state \<Rightarrow> 'db rpc_state) \<Rightarrow> 'db handler" where
  "rpc_do f = set_state (\<lambda>s. s\<lparr>nl_rpc := f (nl_rpc s)\<rparr>)"

definition now_unix :: "clock \<Rightarrow> nat" where
  "now_unix clk = (case clk_unix clk of None \<Rightarrow> 0 | Some t \<Rightarrow> t)"

definition nl_chain :: "'db node_loop \<Rightarrow> blockchain" where
  "nl_chain s = rt_chain (nl_consensus s)"

definition request_sync :: "'db handler" where
  "request_sync s = (s, [RequestSync (wrapping_add 64 (tip_height (nl_chain s)) 1)], Ok ())"

subsection \<open>Finalization, replayed votes, evidence\<close>

definition persist_evidence :: "'db environment \<Rightarrow> double_vote_evidence \<Rightarrow> 'db handler" where
  "persist_evidence W evidence s =
     (case evidence_append (en_ext W) (nl_evidence s) evidence of
        Err e \<Rightarrow> (s, [], Err e)
      | Ok (True, recs) \<Rightarrow> (s\<lparr>nl_evidence := recs\<rparr>, [PublishEvidence evidence], Ok ())
      | Ok (False, recs) \<Rightarrow> (s, [], Ok ()))"

definition persist_and_publish_evidence :: "'db environment \<Rightarrow> 'db handler" where
  "persist_and_publish_evidence W s =
     (case rt_take_evidence (nl_consensus s) of
        (rt, evidence) \<Rightarrow> each (persist_evidence W) evidence (s\<lparr>nl_consensus := rt\<rparr>))"

definition publish_replayed_votes :: "'db environment \<Rightarrow> clock \<Rightarrow> 'db handler" where
  "publish_replayed_votes W clk =
     call_consensus (replay_deferred_votes (en_ext W) clk) (must (\<lambda>votes. send (map PublishConsensus votes)))"

definition install_certificate :: "'db environment \<Rightarrow> finality_certificate \<Rightarrow> 'db handler" where
  "install_certificate W certificate s =
     call_rpc (\<lambda>rpc. install_finalized W rpc (rs_chain rpc) (nl_chain s) (cert_block certificate))
       (must (\<lambda>_. andthen (set_state (\<lambda>s. s\<lparr>nl_finality := finality_append (nl_finality s) certificate,
            nl_rpc := record_finality (nl_rpc s) certificate\<rparr>))
          (send [PublishBlock (cert_block certificate)]))) s"

definition finalize_if_ready :: "'db environment \<Rightarrow> clock \<Rightarrow> 'db handler" where
  "finalize_if_ready W clk s =
     (case take_finalized (nl_consensus s) of (rt, certificates) \<Rightarrow>
      if certificates = [] then (s\<lparr>nl_consensus := rt\<rparr>, [], Ok ())
      else andthen (each (install_certificate W) certificates)
        (call_consensus (advance_after_finalization clk) (must (\<lambda>_. send [])))
        (s\<lparr>nl_consensus := rt\<rparr>))"

subsection \<open>Events of the network\<close>

text \<open>The node's own prevote: it is sent, counted, and so is the precommit it may lead to.\<close>

definition cast_prevote :: "'db environment \<Rightarrow> clock \<Rightarrow> consensus_message \<Rightarrow> 'db handler" where
  "cast_prevote W clk prevote =
     andthen (send [PublishConsensus prevote])
       (call_consensus (\<lambda>rt. receive_vote (en_ext W) clk rt prevote) (must (\<lambda>v.
          case v of
            None \<Rightarrow> send []
          | Some precommit \<Rightarrow> andthen (send [PublishConsensus precommit])
              (call_consensus (\<lambda>rt. receive_vote (en_ext W) clk rt precommit) (must (\<lambda>_. send []))))))"

definition takes_part :: "node_config \<Rightarrow> 'db node_loop \<Rightarrow> bool" where
  "takes_part cfg s \<longleftrightarrow> \<not> nc_is_client cfg \<and> nl_local_is_validator s"

definition when_taking_part :: "node_config \<Rightarrow> 'db handler \<Rightarrow> 'db handler" where
  "when_taking_part cfg h s = (if takes_part cfg s then h s else (s, [], Ok ()))"

definition on_proposal :: "'db environment \<Rightarrow> runtime_codec \<Rightarrow> node_config \<Rightarrow> clock \<Rightarrow> signed_proposal \<Rightarrow> 'db handler" where
  "on_proposal W J cfg clk p = when_taking_part cfg
     (call_consensus (\<lambda>rt. receive_proposal (en_ext W) J clk rt p) (\<lambda>r. case r of
        Err e \<Rightarrow> send []
      | Ok prevote \<Rightarrow> andthen (cast_prevote W clk prevote)
          (andthen (publish_replayed_votes W clk) (finalize_if_ready W clk))))"

definition on_vote :: "'db environment \<Rightarrow> node_config \<Rightarrow> clock \<Rightarrow> consensus_message \<Rightarrow> 'db handler" where
  "on_vote W cfg clk m = when_taking_part cfg
     (andthen
       (call_consensus (\<lambda>rt. receive_vote (en_ext W) clk rt m) (\<lambda>r. case r of
          Ok (Some precommit) \<Rightarrow> andthen (send [PublishConsensus precommit])
            (call_consensus (\<lambda>rt. receive_vote (en_ext W) clk rt precommit) (must (\<lambda>_. send [])))
        | Ok None \<Rightarrow> send []
        | Err e \<Rightarrow> if is_deferable_vote_error e
            then set_state (\<lambda>s. s\<lparr>nl_consensus := defer_vote (nl_consensus s) m\<rparr>) else send []))
       (andthen (publish_replayed_votes W clk)
         (andthen (persist_and_publish_evidence W) (finalize_if_ready W clk))))"

definition on_round_change :: "'db environment \<Rightarrow> runtime_codec \<Rightarrow> node_config \<Rightarrow> clock \<Rightarrow> signed_round_change \<Rightarrow> 'db handler" where
  "on_round_change W J cfg clk m = when_taking_part cfg
     (call_consensus (\<lambda>rt. receive_round_change (en_ext W) J clk rt m) (\<lambda>_. send []))"

definition on_evidence :: "'db environment \<Rightarrow> double_vote_evidence \<Rightarrow> 'db handler" where
  "on_evidence W evidence s =
     (if \<not> list_ex (\<lambda>v. val_id v = msg_validator_id (evd_first evidence)) (nl_validators s) then (s, [], Ok ())
      else case evidence_append (en_ext W) (nl_evidence s) evidence of
        Err e \<Rightarrow> (s, [], Err e)
      | Ok (_, recs) \<Rightarrow> (s\<lparr>nl_evidence := recs\<rparr>, [], Ok ()))"

definition on_transaction :: "'db environment \<Rightarrow> transaction \<Rightarrow> 'db handler" where
  "on_transaction W tx = rpc_do (\<lambda>rpc. restore_transactions W rpc [tx])"

definition on_communication :: "'db environment \<Rightarrow> clock \<Rightarrow> communication_envelope \<Rightarrow> 'db handler" where
  "on_communication W clk envelope =
     call_rpc (\<lambda>rpc. receive_communication W rpc envelope (now_unix clk)) (must (\<lambda>_. send []))"

text \<open>The peer id is printed by libp2p; the network group of an address is an argument.\<close>

definition on_peer_connected ::
  "node_config \<Rightarrow> clock \<Rightarrow> string \<Rightarrow> string \<Rightarrow> string option \<Rightarrow> string option \<Rightarrow> string \<Rightarrow> nat \<Rightarrow> 'db handler" where
  "on_peer_connected cfg clk peer address remote_ip network_group direction connections =
     andthen (set_state (\<lambda>s. case network_group of
        Some g \<Rightarrow> if connections = 1 \<and> \<not> hm_contains (nl_observations s) peer
          then s\<lparr>nl_observations := hm_insert (nl_observations s) peer
                 \<lparr>obs_connected_since = now_unix clk, obs_network_group = g\<rparr>\<rparr> else s
      | None \<Rightarrow> s))
     (andthen (rpc_do (\<lambda>rpc. peer_connected rpc peer address remote_ip direction connections (now_unix clk)))
     (andthen request_sync
       (\<lambda>s. (s, map PublishRoundChange (round_change_snapshot (nl_consensus s))
               @ (case nc_local_registration cfg of None \<Rightarrow> [] | Some r \<Rightarrow> [PublishValidatorRegistration r])
               @ [PublishNodeRewardRegistration (nc_reward_registration cfg)], Ok ()))))"

definition on_peer_disconnected :: "string \<Rightarrow> nat \<Rightarrow> 'db handler" where
  "on_peer_disconnected peer connections =
     andthen (set_state (\<lambda>s. if connections = 0 then s\<lparr>nl_observations := hm_remove (nl_observations s) peer\<rparr> else s))
       (rpc_do (\<lambda>rpc. peer_disconnected rpc peer connections))"

definition verify_validator_registration :: "ext \<Rightarrow> (string \<Rightarrow> bool) \<Rightarrow> validator_registration \<Rightarrow> unit result" where
  "verify_validator_registration E peer_id_ok r =
     (if \<not> peer_id_ok (vreg_peer_id r) then Err (EEvent PeerIdMismatch)
      else verify_signature E (vreg_validator_id r)
        (validator_registration_bytes (vreg_validator_id r) (vreg_peer_id r)) (vreg_signature_hex r))"

text \<open>The peers of the current validators, and the first four registered ids in order.\<close>

definition validator_peers :: "(string, validator_registration) hmap \<Rightarrow> validator list \<Rightarrow> string list" where
  "validator_peers registrations validators =
     map vreg_peer_id (filter (\<lambda>r. list_ex (\<lambda>v. val_id v = vreg_validator_id r) validators) (map snd registrations))"

definition known_validator_peers :: "'db node_loop \<Rightarrow> string list" where
  "known_validator_peers s = validator_peers (nl_registrations s) (nl_validators s)"

definition first_registered :: "'db node_loop \<Rightarrow> validator list" where
  "first_registered s =
     map (\<lambda>i. \<lparr>val_id = i, val_voting_power = 100\<rparr>) (take 4 (sort (map fst (nl_registrations s))))"

definition adopt_bootstrap_validators :: "node_config \<Rightarrow> clock \<Rightarrow> 'db handler" where
  "adopt_bootstrap_validators cfg clk s =
     (let selected = first_registered s in
      if length (nl_registrations s) \<ge> 4 \<and> tip_height (nl_chain s) = 0
        \<and> sort (map val_id (nl_validators s)) \<noteq> map val_id selected
      then call_consensus (\<lambda>rt. replace_bootstrap_validators clk rt selected) (must (\<lambda>_.
             set_state (\<lambda>s. s\<lparr>nl_validators := selected,
               nl_local_is_validator := list_ex (\<lambda>v. val_id v = nc_local_address cfg) selected\<rparr>))) s
      else (s, [], Ok ()))"

definition on_validator_registration ::
  "'db environment \<Rightarrow> (string \<Rightarrow> bool) \<Rightarrow> node_config \<Rightarrow> clock \<Rightarrow> validator_registration \<Rightarrow> 'db handler" where
  "on_validator_registration W peer_id_ok cfg clk r s =
     (if nc_is_client cfg \<or> \<not> is_ok (verify_validator_registration (en_ext W) peer_id_ok r) then (s, [], Ok ()) else
      andthen (set_state (\<lambda>s. s\<lparr>nl_registrations := hm_insert (nl_registrations s) (vreg_validator_id r) r\<rparr>))
      (andthen (set_state (\<lambda>s. s\<lparr>nl_consensus := set_validator_peer_ids (nl_consensus s) (known_validator_peers s)\<rparr>))
        (adopt_bootstrap_validators cfg clk)) s)"

definition on_reward_registration :: "'db environment \<Rightarrow> string \<Rightarrow> node_reward_registration \<Rightarrow> 'db handler" where
  "on_reward_registration W source r s =
     (if source \<noteq> nreg_peer_id r
        \<or> \<not> is_ok (verify_signature (en_ext W) (registration_signer r)
              (node_registration_bytes (nreg_reward_address r) (nreg_peer_id r)) (nreg_signature_hex r))
        \<or> \<not> is_ok (verify_node_identity (en_ext W) r) \<or> \<not> is_ok (verify_reward_address (en_ext W) r)
      then (s, [], Ok ())
      else (s\<lparr>nl_reward_registrations := hm_insert (nl_reward_registrations s) (nreg_peer_id r) r\<rparr>, [], Ok ()))"

definition attestation_key :: "node_service_attestation \<Rightarrow> nat \<times> string \<times> string" where
  "attestation_key a = (att_epoch a, att_peer_id a, att_validator_id a)"

definition on_service_attestation ::
  "'db environment \<Rightarrow> node_config \<Rightarrow> clock \<Rightarrow> string \<Rightarrow> node_service_attestation \<Rightarrow> 'db handler" where
  "on_service_attestation W cfg clk source a s =
     (if nc_is_client cfg then (s, [], Ok ())
      else if \<not> is_ok (attestation_verify (en_ext W) a) then (s, [PenalizePeer source 25], Ok ())
      else if \<not> list_ex (\<lambda>v. val_id v = att_validator_id a) (nl_validators s)
        \<or> att_epoch a \<noteq> now_unix clk div REWARD_EPOCH_SECONDS then (s, [], Ok ())
      else (s\<lparr>nl_attestations := hm_insert (nl_attestations s) (attestation_key a) a\<rparr>, [], Ok ()))"

subsection \<open>Synchronisation and snapshots\<close>

definition snapshot_key_of :: "snapshot_attestation \<Rightarrow> snapshot_key" where
  "snapshot_key_of a = (sa_height a, sa_block_hash a, sa_state_root a)"

definition snapshot_votes_with :: "'db node_loop \<Rightarrow> snapshot_attestation \<Rightarrow> snapshot_attestation list" where
  "snapshot_votes_with s a =
     (let votes = (case hm_get (nl_snapshot_votes s) (snapshot_key_of a) of None \<Rightarrow> [] | Some known \<Rightarrow> known)
      in if list_ex (\<lambda>known. sa_validator_id known = sa_validator_id a) votes then votes else votes @ [a])"

definition note_attestation :: "snapshot_attestation \<Rightarrow> 'db handler" where
  "note_attestation a = set_state (\<lambda>s. s\<lparr>nl_snapshot_votes :=
     hm_insert (nl_snapshot_votes s) (snapshot_key_of a) (snapshot_votes_with s a)\<rparr>)"

definition keep_votes_above :: "nat \<Rightarrow> 'db handler" where
  "keep_votes_above height = set_state (\<lambda>s. s\<lparr>nl_snapshot_votes :=
     filter (\<lambda>((h, _, _), _). h > height) (nl_snapshot_votes s)\<rparr>)"

definition on_snapshot_attestation :: "'db environment \<Rightarrow> string \<Rightarrow> snapshot_attestation \<Rightarrow> 'db handler" where
  "on_snapshot_attestation W source a s =
     (if \<not> is_ok (snapshot_attestation_verify (en_ext W) a) then (s, [PenalizePeer source 100], Ok ()) else
      andthen (note_attestation a)
        (must (\<lambda>certificate.
           case snapshot_certificate_verify (en_ext W) certificate (nl_validators s) of
             Ok _ \<Rightarrow> call_rpc (\<lambda>rpc. certify_snapshot W rpc certificate) (must (\<lambda>_. keep_votes_above (sc_height certificate)))
           | Err e \<Rightarrow> if e = ESync AttestationQuorum then send [] else send [PenalizePeer source 100])
          (from_attestations (snapshot_votes_with s a))) s)"

definition snapshot_tick :: "'db environment \<Rightarrow> 'db handler" where
  "snapshot_tick W s =
     (if \<not> nl_local_is_validator s then (s, [], Ok ()) else
      case pending_snapshot_certification W (nl_rpc s) of
        None \<Rightarrow> (s, [], Ok ())
      | Some snapshot \<Rightarrow> must (\<lambda>a. andthen (note_attestation a) (send [PublishSnapshotAttestation a]))
          (sign_snapshot_attestation (en_ext W) (nl_consensus s) snapshot) s)"

definition local_tip :: "'db environment \<Rightarrow> 'db node_loop \<Rightarrow> sync_tip" where
  "local_tip W s = \<lparr>tip_at = tip_height (nl_chain s), tip_block_hash = tip_hash (nl_chain s),
     tip_state_root = state_hash (en_ext W) (nl_chain s)\<rparr>"

definition on_sync_request ::
  "'db environment \<Rightarrow> runtime_codec \<Rightarrow> node_config \<Rightarrow> string \<Rightarrow> nat \<Rightarrow> 'db handler" where
  "on_sync_request W J cfg requester from_height s =
     (if nc_is_client cfg then (s, [], Ok ()) else
      let tip = tip_height (nl_chain s);
          certificates = contiguous_certificates_from J (nl_consensus s) from_height;
          certificate_tip = (if certificates = [] then None else Some (blk_height (cert_block (last certificates))));
          small_gap = (saturating_sub tip (saturating_sub from_height 1) \<le> nc_direct_sync_block_limit cfg)
      in if small_gap \<and> certificate_tip = Some tip
         then (s, [RespondSync requester (local_tip W s) certificates None None], Ok ())
         else if from_height \<le> tip then
           must (\<lambda>a. send [RespondSync requester (local_tip W s) [] (Some (snapshot_from_chain (en_ext W) (nl_chain s))) (Some a)])
             (sign_snapshot_attestation (en_ext W) (nl_consensus s) (snapshot_from_chain (en_ext W) (nl_chain s))) s
         else (s, [RespondSync requester (local_tip W s) [] None None], Ok ()))"

text \<open>A snapshot is installed in the RPC state and then in the runtime.\<close>

definition install_candidate :: "'db environment \<Rightarrow> clock \<Rightarrow> state_snapshot \<Rightarrow> snapshot_certificate \<Rightarrow> 'db handler" where
  "install_candidate W clk candidate certificate s =
     (if snap_height candidate > tip_height (nl_chain s) then
        andthen (call_rpc (\<lambda>rpc. rpc_install_certified_snapshot W rpc candidate certificate) (must (\<lambda>_. send [])))
          (call_consensus (\<lambda>rt. install_certified_snapshot (en_ext W) clk rt candidate certificate) (must (\<lambda>_. send []))) s
      else (s, [], Ok ()))"

definition snapshot_matches :: "'db environment \<Rightarrow> sync_tip \<Rightarrow> state_snapshot \<Rightarrow> snapshot_attestation \<Rightarrow> bool" where
  "snapshot_matches W tip snapshot a \<longleftrightarrow>
     \<not> (snap_height snapshot \<noteq> tip_at tip \<or> snap_block_hash snapshot \<noteq> tip_block_hash tip
        \<or> snap_state_hash snapshot \<noteq> tip_state_root tip \<or> sa_height a \<noteq> snap_height snapshot
        \<or> sa_block_hash a \<noteq> snap_block_hash snapshot \<or> sa_state_root a \<noteq> snap_state_hash snapshot
        \<or> \<not> is_ok (snapshot_attestation_verify (en_ext W) a))"

definition remember_candidate :: "snapshot_key \<Rightarrow> state_snapshot \<Rightarrow> 'db handler" where
  "remember_candidate key snapshot = set_state (\<lambda>s. if hm_contains (nl_snapshot_candidates s) key then s
     else s\<lparr>nl_snapshot_candidates := hm_insert (nl_snapshot_candidates s) key snapshot\<rparr>)"

definition install_agreed_snapshot :: "'db environment \<Rightarrow> clock \<Rightarrow> snapshot_key \<Rightarrow> snapshot_certificate \<Rightarrow> 'db handler" where
  "install_agreed_snapshot W clk key certificate s =
     (case hm_get (nl_snapshot_candidates s) key of
        None \<Rightarrow> (s, [], Err (EStorage NoLocalSnapshot))
      | Some candidate \<Rightarrow>
          andthen (set_state (\<lambda>s. s\<lparr>nl_snapshot_candidates := hm_remove (nl_snapshot_candidates s) key\<rparr>))
          (andthen (install_candidate W clk candidate certificate)
          (andthen (\<lambda>s. keep_votes_above (tip_height (nl_chain s)) s) request_sync)) s)"

definition on_sync_snapshot ::
  "'db environment \<Rightarrow> clock \<Rightarrow> string \<Rightarrow> sync_tip \<Rightarrow> state_snapshot \<Rightarrow> snapshot_attestation \<Rightarrow> 'db handler" where
  "on_sync_snapshot W clk source tip snapshot a s =
     (if \<not> snapshot_matches W tip snapshot a \<or> \<not> list_ex (\<lambda>v. val_id v = sa_validator_id a) (nl_validators s)
      then (s, [PenalizePeer source 100], Ok ()) else
      andthen (rpc_do (\<lambda>rpc. begin_sync rpc (tip_at tip)))
      (andthen (remember_candidate (snapshot_key_of a) snapshot)
      (andthen (note_attestation a)
        (must (\<lambda>certificate.
           case snapshot_certificate_verify (en_ext W) certificate (nl_validators s) of
             Ok _ \<Rightarrow> install_agreed_snapshot W clk (snapshot_key_of a) certificate
           | Err _ \<Rightarrow> send [])
          (from_attestations (snapshot_votes_with s a))))) s)"

text \<open>The loop over the certificates of a response, with the number of blocks it applied.\<close>

fun apply_synced ::
  "'db environment \<Rightarrow> runtime_codec \<Rightarrow> clock \<Rightarrow> finality_certificate list \<Rightarrow> nat \<Rightarrow> 'db node_loop
   \<Rightarrow> 'db node_loop \<times> command list \<times> nat result" where
  "apply_synced W J clk [] applied s = (s, [], Ok applied)"
| "apply_synced W J clk (c # cs) applied s =
     (case apply_sync_certificates (en_ext W) J clk (nl_consensus s) [c] of
        (rt, Err e) \<Rightarrow> (s\<lparr>nl_consensus := rt\<rparr>, [RequestSync (wrapping_add 64 (tip_height (rt_chain rt)) 1)], Ok applied)
      | (rt, Ok n) \<Rightarrow>
          if n = 1 then
            (case install_finalized W (nl_rpc s) (nl_chain s) (rt_chain rt) (cert_block c) of
               (rpc, Err e) \<Rightarrow> (s\<lparr>nl_consensus := rt, nl_rpc := rpc\<rparr>, [], Err e)
             | (rpc, Ok _) \<Rightarrow> apply_synced W J clk cs (applied + 1)
                 (s\<lparr>nl_consensus := rt, nl_rpc := rpc, nl_finality := finality_append (nl_finality s) c\<rparr>))
          else apply_synced W J clk cs applied (s\<lparr>nl_consensus := rt\<rparr>))"

definition on_sync_certificates ::
  "'db environment \<Rightarrow> runtime_codec \<Rightarrow> clock \<Rightarrow> string \<Rightarrow> sync_tip \<Rightarrow> finality_certificate list \<Rightarrow> 'db handler" where
  "on_sync_certificates W J clk source tip certificates s =
     (case tip_observe (nl_sync_quorum s) source tip of
        (None, q) \<Rightarrow> (s\<lparr>nl_sync_quorum := q\<rparr>, [], Ok ())
      | (Some agreed, q) \<Rightarrow>
          (case apply_synced W J clk certificates 0
                  (s\<lparr>nl_sync_quorum := q, nl_rpc := begin_sync (nl_rpc s) (tip_at agreed)\<rparr>) of
             (s1, cs, Err e) \<Rightarrow> (s1, cs, Err e)
           | (s1, cs, Ok applied) \<Rightarrow>
               if applied = 0 then (s1, cs, Ok ())
               else if tip_height (nl_chain s1) = tip_at agreed
                 \<and> (tip_hash (nl_chain s1) \<noteq> tip_block_hash agreed
                    \<or> state_hash (en_ext W) (nl_chain s1) \<noteq> tip_state_root agreed)
               then (s1, cs, Err (EStorage StateRootMismatch))
               else andthen (send cs) request_sync s1))"

definition on_sync_response ::
  "'db environment \<Rightarrow> runtime_codec \<Rightarrow> clock \<Rightarrow> string \<Rightarrow> sync_tip \<Rightarrow> finality_certificate list
   \<Rightarrow> state_snapshot option \<Rightarrow> snapshot_attestation option \<Rightarrow> 'db handler" where
  "on_sync_response W J clk source tip certificates snapshot a =
     (case (snapshot, a) of
        (Some sn, Some at) \<Rightarrow> on_sync_snapshot W clk source tip sn at
      | _ \<Rightarrow> on_sync_certificates W J clk source tip certificates)"

subsection \<open>Timers\<close>

definition uptime_bps :: "nat \<Rightarrow> service_observation \<Rightarrow> nat" where
  "uptime_bps now observation =
     (let epoch_start = now div REWARD_EPOCH_SECONDS * REWARD_EPOCH_SECONDS;
          observed = saturating_sub now (max (obs_connected_since observation) epoch_start)
      in min (observed * 10000 div REWARD_EPOCH_SECONDS) 10000)"

definition attest_service :: "'db environment \<Rightarrow> clock \<Rightarrow> string \<times> service_observation \<Rightarrow> 'db handler" where
  "attest_service W clk = (\<lambda>(peer, observation) s.
     (let now = now_unix clk; uptime = uptime_bps now observation in
      if peer \<in> set (known_validator_peers s) then (s, [], Ok ()) else
      case hm_get (nl_reward_registrations s) peer of
        None \<Rightarrow> (s, [], Ok ())
      | Some r \<Rightarrow>
          if uptime < SERVICE_MINIMUM_UPTIME_BPS then (s, [], Ok ()) else
          must (\<lambda>a. andthen
              (set_state (\<lambda>s. s\<lparr>nl_attestations := hm_insert (nl_attestations s)
                 (now div REWARD_EPOCH_SECONDS, peer, att_validator_id a) a\<rparr>))
              (send [PublishNodeServiceAttestation a]))
            (sign_node_service_attestation (en_ext W) (nl_consensus s) peer (nreg_reward_address r) now uptime
               (obs_network_group observation)) s))"

definition registration_tick :: "'db environment \<Rightarrow> node_config \<Rightarrow> clock \<Rightarrow> 'db handler" where
  "registration_tick W cfg clk s =
     andthen (send ((case nc_local_registration cfg of
          Some r \<Rightarrow> if ''ieum-bootstrap-validator-reward-v1'' \<notin> ch_executed_events (nl_chain s)
            then [PublishValidatorRegistration r] else []
        | None \<Rightarrow> []) @ [PublishNodeRewardRegistration (nc_reward_registration cfg)]))
     (if nl_local_is_validator s then
        andthen (each (attest_service W clk) (nl_observations s))
          (set_state (\<lambda>s. s\<lparr>nl_attestations :=
             filter (\<lambda>((known, _, _), _). known + 1 \<ge> now_unix clk div REWARD_EPOCH_SECONDS) (nl_attestations s)\<rparr>))
      else send []) s"

definition sync_tick :: "'db handler" where
  "sync_tick = request_sync"

text \<open>The system events a proposer puts into its next block, in the order of the source.\<close>

definition event_of :: "string \<Rightarrow> nat \<Rightarrow> scheduled_event_action \<Rightarrow> scheduled_event" where
  "event_of i at action = \<lparr>ev_id = i, ev_execute_at = at, ev_action = action\<rparr>"

definition bootstrap_events :: "'db node_loop \<Rightarrow> nat \<Rightarrow> scheduled_event list" where
  "bootstrap_events s timestamp =
     (let executed = ch_executed_events (nl_chain s);
          proofs = List.map_filter (\<lambda>v. hm_get (nl_registrations s) (val_id v)) (nl_validators s);
          regs = map snd (sort_key fst (nl_reward_registrations s))
      in (if ''ieum-bootstrap-validator-reward-v1'' \<notin> executed \<and> length proofs = 4
          then [event_of ''ieum-bootstrap-validator-reward-v1'' timestamp (BootstrapValidatorReward proofs (10 * 10 ^ 18))] else [])
       @ (if ''ieum-node-100-reward-v1'' \<notin> executed \<and> length regs \<ge> 100
          then [event_of ''ieum-node-100-reward-v1'' timestamp (NodeMilestoneReward (take 100 regs) (10 ^ 18))] else []))"

definition interest_events :: "ext \<Rightarrow> runtime_codec \<Rightarrow> node_config \<Rightarrow> 'db node_loop \<Rightarrow> nat \<Rightarrow> scheduled_event list" where
  "interest_events E J cfg s timestamp =
     (let c = nl_chain s; policy = nc_interest_policy cfg; i = interest_event_id timestamp;
          payments = interest_payments policy (nl_validators s) (ch_balances c)
      in if vip_enabled policy \<and> mainnet_daily_reward_active (ch_chain_id c) timestamp
           \<and> i \<notin> ch_executed_events c \<and> ''ieum-bootstrap-validator-reward-v1'' \<in> ch_executed_events c \<and> payments \<noteq> []
         then [event_of i (interest_execute_at timestamp) (ValidatorDailyInterest (tip_height c)
                 (interest_policy_hash E (json_interest_policy J) policy) (vip_annual_rate_bps policy) payments)]
         else [])"

definition holder_events :: "ext \<Rightarrow> runtime_codec \<Rightarrow> node_config \<Rightarrow> 'db node_loop \<Rightarrow> nat \<Rightarrow> scheduled_event list" where
  "holder_events E J cfg s timestamp =
     (let c = nl_chain s; policy = nc_holder_policy cfg; i = holder_event_id timestamp;
          payments = holder_payments policy (ch_balances c) {FOUNDATION_FEE_ADDRESS}
      in if mainnet_daily_reward_active (ch_chain_id c) timestamp \<and> holder_policy_active policy timestamp
           \<and> i \<notin> ch_executed_events c \<and> payments \<noteq> []
         then [event_of i (holder_execute_at timestamp) (HolderDailyReward (tip_height c)
                 (holder_policy_hash E (json_holder_policy J) policy) (hrp_annual_rate_bps policy) payments)]
         else [])"

definition staking_events ::
  "ext \<Rightarrow> runtime_codec \<Rightarrow> node_config \<Rightarrow> 'db node_loop \<Rightarrow> nat \<Rightarrow> scheduled_event list result" where
  "staking_events E J cfg s timestamp =
     (let c = nl_chain s; policy = nc_interest_policy cfg in
      if version_at (nc_upgrades cfg) (saturating_add 64 (tip_height c) 1) < 3 then Ok [] else
      rbind (evidence_load E (nl_evidence s)) (\<lambda>evidence.
      let slashes = map (\<lambda>e. event_of (slash_event_id E e) timestamp (DoubleVoteSlash e DOUBLE_VOTE_SLASH_BPS))
            (filter (\<lambda>e. slash_event_id E e \<notin> ch_executed_events c) evidence);
          i = reward_event_id timestamp;
          payments = calculate_rewards (ch_staking c) (vip_annual_rate_bps policy) (vip_maximum_daily_total policy)
      in Ok (slashes @
         (if vip_enabled policy \<and> mainnet_daily_reward_active (ch_chain_id c) timestamp
            \<and> i \<notin> ch_executed_events c \<and> payments \<noteq> []
          then [event_of i (interest_execute_at timestamp) (DelegationDailyReward (tip_height c)
                  (interest_policy_hash E (json_interest_policy J) policy) (vip_annual_rate_bps policy) payments)]
          else []))))"

text \<open>The peers of the validators are set in the runtime when the day's service reward is still due.\<close>

definition service_due :: "'db node_loop \<Rightarrow> nat \<Rightarrow> bool" where
  "service_due s timestamp \<longleftrightarrow> service_event_id (timestamp div REWARD_EPOCH_SECONDS) \<notin> ch_executed_events (nl_chain s)"

definition service_events :: "ext \<Rightarrow> 'db node_loop \<Rightarrow> nat \<Rightarrow> scheduled_event list result" where
  "service_events E s timestamp =
     (let c = nl_chain s; epoch = timestamp div REWARD_EPOCH_SECONDS;
          proofs = filter (\<lambda>a. att_epoch a = epoch) (map snd (sort_key fst (nl_attestations s)))
      in if \<not> service_due s timestamp then Ok [] else
         rbind (calculate_service_payments E timestamp proofs (nl_validators s) (known_validator_peers s) (ch_staking c)
                  (balance_of c FOUNDATION_FEE_ADDRESS)) (\<lambda>payments.
         Ok (if payments = [] then []
             else [event_of (service_event_id epoch) timestamp (NodeServiceDailyReward (tip_height c) epoch proofs payments)])))"

definition due_events ::
  "ext \<Rightarrow> runtime_codec \<Rightarrow> node_config \<Rightarrow> 'db node_loop \<Rightarrow> nat \<Rightarrow> scheduled_event list result" where
  "due_events E J cfg s timestamp =
     rbind (staking_events E J cfg s timestamp) (\<lambda>staking.
     rbind (service_events E s timestamp) (\<lambda>service.
     Ok (due (nc_schedule cfg) timestamp (ch_executed_events (nl_chain s)) @ bootstrap_events s timestamp
         @ interest_events E J cfg s timestamp @ holder_events E J cfg s timestamp @ staking @ service)))"

definition propose_block ::
  "'db environment \<Rightarrow> runtime_codec \<Rightarrow> node_config \<Rightarrow> clock \<Rightarrow> scheduled_event list \<Rightarrow> 'db handler" where
  "propose_block W J cfg clk events s =
     (let E = en_ext W in
      if \<not> (can_make_proposal E (nl_consensus s) \<and> clk_instant clk \<ge> nl_next_block_at s
            \<and> (has_pending_transactions (nl_rpc s) \<or> events \<noteq> [])) then (s, [], Ok ()) else
      case drain_transactions W (nl_rpc s) 1000 of (rpc, pending) \<Rightarrow>
      let s1 = s\<lparr>nl_rpc := rpc\<rparr>; previous = last (ch_blocks (nl_chain s));
          b = with_system_events E (block_new E (wrapping_add 64 (blk_height previous) 1) (blk_hash previous)
                (now_unix clk) (nc_local_address cfg) pending) events
      in case make_proposal E (nl_consensus s1) b of
           Err e \<Rightarrow> andthen (send (map PublishTransaction pending)) (rpc_do (\<lambda>rpc. restore_transactions W rpc pending)) s1
         | Ok proposal \<Rightarrow>
             call_consensus (\<lambda>rt. receive_proposal E J clk rt proposal) (\<lambda>r. case r of
                 Err e \<Rightarrow> rpc_do (\<lambda>rpc. restore_transactions W rpc pending)
               | Ok prevote \<Rightarrow> andthen (send [PublishProposal proposal])
                   (andthen (cast_prevote W clk prevote) (finalize_if_ready W clk)))
               (s1\<lparr>nl_next_block_at := clk_instant clk + nc_block_interval cfg\<rparr>))"

text \<open>Times of the event loop are milliseconds; two seconds pass between two announcements.\<close>

definition announce :: "'db environment \<Rightarrow> clock \<Rightarrow> transaction \<Rightarrow> 'db handler" where
  "announce W clk tx s =
     (let i = tx_id (en_ext W) tx; now = clk_instant clk in
      if (case hm_get (nl_announced s) i of None \<Rightarrow> True | Some t \<Rightarrow> now - t \<ge> 2000)
      then (s\<lparr>nl_announced := hm_insert (nl_announced s) i now\<rparr>, [PublishTransaction tx], Ok ())
      else (s, [], Ok ()))"

definition consensus_is_active :: "'db node_loop \<Rightarrow> bool" where
  "consensus_is_active s \<longleftrightarrow> nl_local_is_validator s
     \<and> (bft_phase (rt_consensus (nl_consensus s)) \<noteq> Propose \<or> has_pending_transactions (nl_rpc s))"

definition rebroadcast :: "clock \<Rightarrow> 'db handler" where
  "rebroadcast clk s =
     (if clk_instant clk - nl_last_rebroadcast s \<ge> 2000
      then (s\<lparr>nl_last_rebroadcast := clk_instant clk\<rparr>, map PublishRoundChange (round_change_snapshot (nl_consensus s)), Ok ())
      else (s, [], Ok ()))"

definition check_timeout :: "'db environment \<Rightarrow> runtime_codec \<Rightarrow> clock \<Rightarrow> transaction list \<Rightarrow> 'db handler" where
  "check_timeout W J clk timed_out_transactions =
     call_consensus (\<lambda>rt. timeout_if_due_with_round_change (en_ext W) J clk rt (clk_instant clk)) (must (\<lambda>(timed_out, change).
       if timed_out then andthen (rpc_do (\<lambda>rpc. restore_transactions W rpc timed_out_transactions))
         (send (case change of None \<Rightarrow> [] | Some vote \<Rightarrow> [PublishRoundChange vote]))
       else send []))"

definition watch_rounds :: "'db environment \<Rightarrow> runtime_codec \<Rightarrow> clock \<Rightarrow> 'db handler" where
  "watch_rounds W J clk s =
     (let active = consensus_is_active s; pending = pending_transactions (nl_consensus s);
          restart = (\<lambda>s. if active \<and> \<not> nl_was_active s
            then s\<lparr>nl_consensus := restart_phase_timeout (nl_consensus s) (clk_instant clk)\<rparr> else s)
      in andthen (set_state restart)
         (andthen (if active then andthen (check_timeout W J clk pending) (rebroadcast clk) else send [])
            (set_state (\<lambda>s. s\<lparr>nl_was_active := active\<rparr>))) s)"

definition SUPPORTED_PROTOCOL_VERSION :: nat where
  "SUPPORTED_PROTOCOL_VERSION = 3"

definition produce :: "'db environment \<Rightarrow> runtime_codec \<Rightarrow> node_config \<Rightarrow> clock \<Rightarrow> 'db handler" where
  "produce W J cfg clk = when_taking_part cfg (\<lambda>s.
     must (\<lambda>_. andthen (each (announce W clk) (pending_transactions_snapshot (nl_rpc s) 1000))
       (\<lambda>s. must (\<lambda>events. andthen
             (set_state (\<lambda>s. if service_due s (now_unix clk)
                then s\<lparr>nl_consensus := set_validator_peer_ids (nl_consensus s) (known_validator_peers s)\<rparr> else s))
             (propose_block W J cfg clk events))
           (due_events (en_ext W) J cfg s (now_unix clk)) s))
       (ensure_supported (nc_upgrades cfg) (saturating_add 64 (tip_height (nl_chain s)) 1) SUPPORTED_PROTOCOL_VERSION) s)"

definition note_tip :: "node_config \<Rightarrow> clock \<Rightarrow> 'db handler" where
  "note_tip cfg clk = set_state (\<lambda>s. if tip_height (nl_chain s) \<noteq> nl_observed_tip s
     then s\<lparr>nl_observed_tip := tip_height (nl_chain s), nl_next_block_at := clk_instant clk + nc_block_interval cfg\<rparr> else s)"

definition forward_communication :: "'db handler" where
  "forward_communication s =
     (case drain_outbound_communication (nl_rpc s) of
        (rpc, envelopes) \<Rightarrow> (s\<lparr>nl_rpc := rpc\<rparr>, map SendCommunication envelopes, Ok ()))"

definition consensus_tick :: "'db environment \<Rightarrow> runtime_codec \<Rightarrow> node_config \<Rightarrow> clock \<Rightarrow> 'db handler" where
  "consensus_tick W J cfg clk =
     andthen (note_tip cfg clk) (andthen forward_communication (andthen (watch_rounds W J clk) (produce W J cfg clk)))"

subsection \<open>Starting, and the loop\<close>

text \<open>
  What the node starts from: its validators and key, the options, and the files it finds.  The chain
  of the RPC state has been loaded before (\<^verbatim>\<open>rpc.chain\<close>).
\<close>

record start_args =
  st_validators :: "validator list"
  st_signer :: validator_signer
  st_timeouts :: consensus_timeouts
  st_finality :: "finality_certificate list"
  st_evidence :: "double_vote_evidence list"
  st_sync_quorum_peers :: nat

definition applied :: "'a rt_action \<Rightarrow> runtime result" where
  "applied a = (case a of (rt, Err e) \<Rightarrow> Err e | (rt, Ok _) \<Rightarrow> Ok rt)"

definition initial_registrations :: "node_config \<Rightarrow> (string, validator_registration) hmap" where
  "initial_registrations cfg =
     (case nc_local_registration cfg of None \<Rightarrow> [] | Some r \<Rightarrow> hm_insert [] (vreg_validator_id r) r)"

definition configured_runtime ::
  "'db environment \<Rightarrow> clock \<Rightarrow> node_config \<Rightarrow> start_args \<Rightarrow> blockchain \<Rightarrow> runtime result" where
  "configured_runtime W clk cfg args c =
     rbind (ensure_supported (nc_upgrades cfg) (saturating_add 64 (tip_height c) 1) SUPPORTED_PROTOCOL_VERSION) (\<lambda>_.
     rbind (with_signer clk c (st_validators args) (st_signer args) (st_timeouts args)) (\<lambda>rt1.
     rbind (applied (set_event_schedule (en_ext W) rt1 (nc_schedule cfg))) (\<lambda>rt2.
     rbind (applied (set_validator_interest_policy (set_upgrade_schedule rt2 (nc_upgrades cfg)) (nc_interest_policy cfg))) (\<lambda>rt3.
     rbind (applied (set_holder_reward_policy rt3 (nc_holder_policy cfg))) (\<lambda>rt4.
     Ok (set_validator_peer_ids rt4 (validator_peers (initial_registrations cfg) (st_validators args))))))))"

definition start_node ::
  "'db environment \<Rightarrow> clock \<Rightarrow> node_config \<Rightarrow> start_args \<Rightarrow> 'db rpc_state \<Rightarrow> 'db node_loop result" where
  "start_node W clk cfg args rpc =
     rbind (configured_runtime W clk cfg args (rs_chain rpc)) (\<lambda>rt.
     rbind (evidence_load (en_ext W) (st_evidence args)) (\<lambda>_.
     rbind (finality_load (en_ext W) (st_finality args) (st_validators args)) (\<lambda>history.
     rbind (applied (import_certificate_history (en_ext W) rt history)) (\<lambda>consensus.
     rbind (tip_quorum_new (st_sync_quorum_peers args)) (\<lambda>quorum.
     Ok \<lparr>nl_consensus = consensus, nl_rpc = fold (\<lambda>c rpc. record_finality rpc c) history rpc,
         nl_finality = st_finality args, nl_evidence = st_evidence args, nl_validators = st_validators args,
         nl_local_is_validator = (\<not> nc_is_client cfg
           \<and> list_ex (\<lambda>v. val_id v = nc_local_address cfg) (st_validators args)),
         nl_registrations = initial_registrations cfg,
         nl_reward_registrations = hm_insert [] (nreg_peer_id (nc_reward_registration cfg)) (nc_reward_registration cfg),
         nl_observations = [], nl_attestations = [], nl_snapshot_votes = [], nl_snapshot_candidates = [],
         nl_sync_quorum = quorum, nl_observed_tip = tip_height (rt_chain consensus),
         nl_next_block_at = clk_instant clk + nc_block_interval cfg, nl_was_active = False,
         nl_last_rebroadcast = clk_instant clk, nl_announced = []\<rparr>)))))"

text \<open>
  The timers and events the loop selects from, and the calls of the RPC server that change the
  state it shares with the loop.  The other events are only logged.
\<close>

datatype node_event =
    SyncTick
  | RegistrationTick
  | SnapshotTick
  | ConsensusTick
  | PeerConnected string string "string option" "string option" string nat
  | PeerDisconnected string nat
  | ValidatorRegistrationReceived validator_registration
  | NodeRewardRegistrationReceived string node_reward_registration
  | NodeServiceAttestationReceived string node_service_attestation
  | TransactionReceived transaction
  | CommunicationReceived communication_envelope
  | ProposalReceived signed_proposal
  | ConsensusReceived consensus_message
  | RoundChangeReceived signed_round_change
  | EvidenceReceived double_vote_evidence
  | SyncRequested string nat
  | SyncReceived string sync_tip "finality_certificate list" "state_snapshot option" "snapshot_attestation option"
  | SnapshotAttestationReceived string snapshot_attestation
  | OtherEvent
  | RpcSend "json list"
  | RpcSendRaw "json list"
  | RpcSendSigned "json list"
  | RpcSendCommunication "json list"
  | RpcPoll

definition serve_rpc :: "('db rpc_state \<Rightarrow> 'db submission) \<Rightarrow> 'db handler" where
  "serve_rpc f = rpc_do (\<lambda>rpc. fst (f rpc))"

text \<open>The JSON codecs and the parser of peer ids are those of the crates.\<close>

record loop_codec =
  lc_runtime :: runtime_codec
  lc_rpc :: rpc_codec
  lc_peer_id_ok :: "string \<Rightarrow> bool"

fun handle_event :: "'db environment \<Rightarrow> loop_codec \<Rightarrow> node_config \<Rightarrow> clock \<Rightarrow> node_event \<Rightarrow> 'db handler" where
  "handle_event W L cfg clk SyncTick = sync_tick"
| "handle_event W L cfg clk RegistrationTick = registration_tick W cfg clk"
| "handle_event W L cfg clk SnapshotTick = snapshot_tick W"
| "handle_event W L cfg clk ConsensusTick = consensus_tick W (lc_runtime L) cfg clk"
| "handle_event W L cfg clk (PeerConnected peer address ip g direction n) = on_peer_connected cfg clk peer address ip g direction n"
| "handle_event W L cfg clk (PeerDisconnected peer n) = on_peer_disconnected peer n"
| "handle_event W L cfg clk (ValidatorRegistrationReceived r) = on_validator_registration W (lc_peer_id_ok L) cfg clk r"
| "handle_event W L cfg clk (NodeRewardRegistrationReceived source r) = on_reward_registration W source r"
| "handle_event W L cfg clk (NodeServiceAttestationReceived source a) = on_service_attestation W cfg clk source a"
| "handle_event W L cfg clk (TransactionReceived tx) = on_transaction W tx"
| "handle_event W L cfg clk (CommunicationReceived envelope) = on_communication W clk envelope"
| "handle_event W L cfg clk (ProposalReceived p) = on_proposal W (lc_runtime L) cfg clk p"
| "handle_event W L cfg clk (ConsensusReceived m) = on_vote W cfg clk m"
| "handle_event W L cfg clk (RoundChangeReceived m) = on_round_change W (lc_runtime L) cfg clk m"
| "handle_event W L cfg clk (EvidenceReceived e) = on_evidence W e"
| "handle_event W L cfg clk (SyncRequested requester h) = on_sync_request W (lc_runtime L) cfg requester h"
| "handle_event W L cfg clk (SyncReceived source tip cs snapshot a) = on_sync_response W (lc_runtime L) clk source tip cs snapshot a"
| "handle_event W L cfg clk (SnapshotAttestationReceived source a) = on_snapshot_attestation W source a"
| "handle_event W L cfg clk OtherEvent = send []"
| "handle_event W L cfg clk (RpcSend params) = serve_rpc (\<lambda>rpc. send_transaction W rpc params)"
| "handle_event W L cfg clk (RpcSendRaw params) = serve_rpc (\<lambda>rpc. send_raw_transaction W rpc params)"
| "handle_event W L cfg clk (RpcSendSigned params) = serve_rpc (\<lambda>rpc. send_signed_transaction W (lc_rpc L) rpc params)"
| "handle_event W L cfg clk (RpcSendCommunication params) = serve_rpc (\<lambda>rpc. send_communication W (lc_rpc L) rpc (now_unix clk) params)"
| "handle_event W L cfg clk RpcPoll = serve_rpc (\<lambda>rpc. poll_communication (lc_rpc L) rpc)"

end
