(* ===== verification/NodeLoopSafety.thy ===== *)
theory NodeLoopSafety
  imports NodeLoop Network
begin

text \<open>
  What the main loop guarantees: the ledger that queries see is always the ledger consensus works
  on, it changes only by blocks whose certificates are stored or by a certified snapshot, and messages
  from outside that end the node or block the certification of a snapshot.
\<close>

subsection \<open>How an operation of the runtime changes the ledger\<close>

definition low :: "blockchain \<Rightarrow> bool" where
  "low c \<longleftrightarrow> (\<forall>b \<in> set (ch_blocks c). blk_height b < 2 ^ 64 - 1)"

definition height_ok :: "runtime \<Rightarrow> bool" where
  "height_ok rt \<longleftrightarrow> ch_blocks (rt_chain rt) \<noteq> [] \<and> bft_height (rt_consensus rt) \<le> blk_height (last (ch_blocks (rt_chain rt))) + 1"

text \<open>Nothing that the ledger depends on changes.\<close>

definition calm :: "runtime \<Rightarrow> runtime \<Rightarrow> bool" where
  "calm rt rt' \<longleftrightarrow> rt_chain rt' = rt_chain rt \<and> rt_pending_finalized rt' = rt_pending_finalized rt
     \<and> (height_ok rt \<longrightarrow> height_ok rt')"

text \<open>The ledger grows by the blocks of the certificates that become pending.\<close>

definition moved :: "runtime \<Rightarrow> finality_certificate list \<Rightarrow> runtime \<Rightarrow> bool" where
  "moved rt cs rt' \<longleftrightarrow> rt_pending_finalized rt' = rt_pending_finalized rt @ cs
     \<and> ch_blocks (rt_chain rt') = ch_blocks (rt_chain rt) @ map cert_block cs
     \<and> (cs = [] \<longrightarrow> rt_chain rt' = rt_chain rt) \<and> (low (rt_chain rt') \<and> height_ok rt \<longrightarrow> height_ok rt')"

lemma low_prefix: "low c' \<Longrightarrow> ch_blocks c' = ch_blocks c @ bs \<Longrightarrow> low c"
  by (simp add: low_def)

lemma calm_moved: "calm rt rt' \<Longrightarrow> moved rt [] rt'"
  by (simp add: calm_def moved_def)

lemma calm_refl [simp]: "calm rt rt"
  by (simp add: calm_def)

lemma calm_trans [trans]: "calm rt rt1 \<Longrightarrow> calm rt1 rt2 \<Longrightarrow> calm rt rt2"
  by (simp add: calm_def)

lemma moved_trans:
  assumes "moved rt cs rt1" and "moved rt1 ds rt2"
  shows "moved rt (cs @ ds) rt2"
  using assms low_prefix [of "rt_chain rt2" "rt_chain rt1" "map cert_block ds"] by (auto simp: moved_def)

lemma calm_frame:
  "rt_chain rt' = rt_chain rt \<Longrightarrow> rt_pending_finalized rt' = rt_pending_finalized rt
   \<Longrightarrow> bft_height (rt_consensus rt') = bft_height (rt_consensus rt) \<Longrightarrow> calm rt rt'"
  by (simp add: calm_def height_ok_def)

lemma reset_deadline_pending [simp]: "rt_pending_finalized (reset_deadline clk rt) = rt_pending_finalized rt"
  by (simp add: reset_deadline_def)

lemma note_frame [simp]:
  "rt_chain (note_phase clk ph rt) = rt_chain rt" "rt_pending_finalized (note_phase clk ph rt) = rt_pending_finalized rt"
  "rt_chain (note_precommit rt m) = rt_chain rt" "rt_pending_finalized (note_precommit rt m) = rt_pending_finalized rt"
  by (simp_all add: note_phase_def note_precommit_def Let_def split: option.splits)

lemma receive_proposal_calm:
  assumes "receive_proposal E J clk rt p = (rt', r)"
  shows "calm rt rt'"
proof -
  obtain c q where h: "handle_proposal E (rt_consensus rt) p = (c, q)" by (cases "handle_proposal E (rt_consensus rt) p")
  have "bft_height c = bft_height (rt_consensus rt)" using handle_proposal_result [OF h] by (simp add: same_machine_def)
  with assms h show ?thesis
    by (auto simp: receive_proposal_def Let_def split: if_splits result.splits intro!: calm_frame)
qed

lemma finalize_pending_moved:
  assumes "finalize_pending E rt = (rt', r)"
  shows "\<exists>cs. moved rt cs rt'"
proof (cases "rt_chain rt' = rt_chain rt")
  case True
  with assms have "calm rt rt'"
    by (auto simp: finalize_pending_def Let_def split: option.splits if_splits result.splits intro!: calm_frame)
      (auto dest!: apply_block_blocks(1))
  then show ?thesis using calm_moved by blast
next
  case False
  then obtain c chain where c: "apply_block E (rt_chain rt) (cert_block c) = Ok chain" "rt_chain rt' = chain"
    "rt_pending_finalized rt' = rt_pending_finalized rt @ [c]" "rt_consensus rt' = rt_consensus rt"
    using assms by (auto simp: finalize_pending_def Let_def split: option.splits if_splits result.splits)
      (metis finality_certificate.select_convs(1))
  note blocks = apply_block_blocks [OF c(1)]
  have "height_ok rt'" if "low chain" "height_ok rt"
  proof -
    have "blk_height (last (ch_blocks (rt_chain rt))) < 2 ^ 64 - 1"
      using that blocks(1) by (simp add: low_def height_ok_def)
    then have "blk_height (cert_block c) = blk_height (last (ch_blocks (rt_chain rt))) + 1"
      using blocks(2) by (simp add: wrapping_add_def)
    then show ?thesis using that(2) c blocks(1) by (simp add: height_ok_def)
  qed
  then have "moved rt [c] rt'" using c blocks(1) by (simp add: moved_def)
  then show ?thesis by blast
qed

lemma receive_vote_moved:
  assumes "receive_vote E clk rt m = (rt', r)"
  shows "\<exists>cs. moved rt cs rt'"
proof -
  obtain c q where h: "handle E (rt_consensus rt) m = (c, q)" by (cases "handle E (rt_consensus rt) m")
  let ?rt1 = "note_phase clk (bft_phase (rt_consensus rt)) (note_precommit (rt\<lparr>rt_consensus := c\<rparr>) m)"
  have height: "bft_height c = bft_height (rt_consensus rt)" using handle_fields(1) [OF h] .
  then have first: "calm rt ?rt1" "calm rt (rt\<lparr>rt_consensus := c\<rparr>)" by (auto intro!: calm_frame)
  have "rt' = rt\<lparr>rt_consensus := c\<rparr> \<or> rt' = ?rt1 \<or> finalize_pending E ?rt1 = (rt', r)"
    using assms h by (auto simp: receive_vote_def Let_def split: result.splits if_splits option.splits)
  then show ?thesis
    using calm_moved [OF first(1)] calm_moved [OF first(2)] finalize_pending_moved [of E ?rt1 rt' r] moved_trans by blast
qed

lemma replay_pass_moved:
  assumes "replay_pass E clk votes rt acc = (rt', r)"
  shows "\<exists>cs. moved rt cs rt'"
  using assms
proof (induction votes arbitrary: rt acc)
  case Nil
  then show ?case using calm_moved [of rt rt] by auto
next
  case (Cons vote votes)
  obtain out rem prog where acc: "acc = (out, rem, prog)" by (cases acc)
  obtain rt1 r1 where first: "receive_vote E clk rt vote = (rt1, r1)" by (cases "receive_vote E clk rt vote")
  obtain cs where cs: "moved rt cs rt1" using receive_vote_moved [OF first] by blast
  have "\<exists>ds. moved rt1 ds rt'"
  proof (cases r1)
    case (Err e)
    with Cons.prems first acc Cons.IH show ?thesis by auto
  next
    case (Ok v)
    show ?thesis
    proof (cases v)
      case None
      with Ok Cons.prems first acc Cons.IH show ?thesis by auto
    next
      case (Some precommit)
      obtain rt2 r2 where second: "receive_vote E clk rt1 precommit = (rt2, r2)" by (cases "receive_vote E clk rt1 precommit")
      obtain ds where ds: "moved rt1 ds rt2" using receive_vote_moved [OF second] by blast
      have "rt' = rt2 \<or> (\<exists>es. moved rt2 es rt')"
        using Some Ok Cons.prems first second acc Cons.IH by (cases r2) auto
      then show ?thesis using ds moved_trans by blast
    qed
  qed
  then show ?case using cs moved_trans by blast
qed

lemma replay_loop_moved:
  assumes "replay_loop E clk rt votes outbound = (rt', r)"
  shows "\<exists>cs. moved rt cs rt'"
  using assms
proof (induction E clk rt votes outbound arbitrary: rt' r rule: replay_loop.induct)
  case (1 E clk rt votes outbound)
  obtain rt1 r1 where pass: "replay_pass E clk votes rt (outbound, [], False) = (rt1, r1)"
    by (cases "replay_pass E clk votes rt (outbound, [], False)")
  obtain cs where cs: "moved rt cs rt1" using replay_pass_moved [OF pass] by blast
  show ?case
  proof (cases r1)
    case (Err e)
    with 1(2) pass cs show ?thesis by (auto simp: replay_loop.simps [of E clk rt])
  next
    case (Ok x)
    obtain out rem prog where x: "x = (out, rem, prog)" by (cases x)
    show ?thesis
    proof (cases prog)
      case True
      with 1(2) Ok x pass have "replay_loop E clk rt1 rem out = (rt', r)" by (simp add: replay_loop.simps [of E clk rt])
      with 1(1) pass Ok x True obtain ds where "moved rt1 ds rt'" by force
      then show ?thesis using cs moved_trans by blast
    next
      case False
      with 1(2) Ok x pass have "rt' = rt1\<lparr>rt_deferred_votes := rem\<rparr>" by (simp add: replay_loop.simps [of E clk rt])
      then have "calm rt1 rt'" by (simp add: calm_frame)
      then show ?thesis using cs calm_moved moved_trans by blast
    qed
  qed
qed

lemma replay_deferred_moved:
  assumes "replay_deferred_votes E clk rt = (rt', r)"
  shows "\<exists>cs. moved rt cs rt'"
proof -
  obtain cs where "moved (rt\<lparr>rt_deferred_votes := []\<rparr>) cs rt'"
    using assms replay_loop_moved by (metis replay_deferred_votes_def)
  moreover have "calm rt (rt\<lparr>rt_deferred_votes := []\<rparr>)" by (simp add: calm_frame)
  ultimately show ?thesis using calm_moved moved_trans by blast
qed

lemma enter_round_calm:
  assumes "enter_round clk rt (bft_height (rt_consensus rt)) r = (rt', q)"
  shows "calm rt rt'"
  using assms by (auto simp: enter_round_def split: prod.splits result.splits intro!: calm_frame dest!: start_round_result)

lemma adopt_round_change_calm:
  assumes "adopt_round_change_value E J clk rt vote = (rt', q)"
  shows "calm rt rt'" and "bft_height (rt_consensus rt') = bft_height (rt_consensus rt)"
proof -
  have "bft_height c = bft_height (rt_consensus rt)" if "adopt_valid_value E (rt_consensus rt) x n ps = (c, res)" for x n ps c res
    using adopt_same(1) [OF that] by (simp add: same_machine_def)
  then show "bft_height (rt_consensus rt') = bft_height (rt_consensus rt)"
    using assms by (auto simp: adopt_round_change_value_def split: option.splits if_splits result.splits prod.splits)
  moreover have "rt_chain rt' = rt_chain rt" "rt_pending_finalized rt' = rt_pending_finalized rt"
    using assms by (auto simp: adopt_round_change_value_def split: option.splits if_splits result.splits prod.splits)
  ultimately show "calm rt rt'" by (simp add: calm_frame)
qed

lemma receive_round_change_calm:
  assumes "receive_round_change E J clk rt vote = (rt', q)"
  shows "calm rt rt'"
proof -
  obtain rt1 q1 where a: "adopt_round_change_value E J clk rt vote = (rt1, q1)" by (cases "adopt_round_change_value E J clk rt vote")
  note first = adopt_round_change_calm [OF a]
  have "calm rt1 rt'" if "count_round_change clk rt1 vote = (rt', q)" "rc_height vote = bft_height (rt_consensus rt)"
  proof -
    let ?t = "track_round_change rt1 vote"
    have t: "calm rt1 ?t" "bft_height (rt_consensus ?t) = rc_height vote"
      using that(2) first(2) by (simp_all add: track_round_change_def calm_frame)
    have "rt' = ?t \<or> (\<exists>r. enter_round clk ?t (rc_height vote) r = (rt', q))"
      using that(1) by (auto simp: count_round_change_def Let_def split: result.splits if_splits)
    then show ?thesis using t enter_round_calm [of clk ?t _ rt' q] calm_trans by auto
  qed
  with assms a first(1) show ?thesis
    by (auto simp: receive_round_change_def split: result.splits if_splits intro: calm_trans)
qed

lemma timeout_calm:
  assumes "timeout_if_due_with_round_change E J clk rt now = (rt', q)"
  shows "calm rt rt'"
proof -
  have step: "calm rt (rt1\<lparr>rt_consensus := c, rt_pending := p, rt_precommits := ps, rt_deadline := d\<rparr>)"
    if "receive_round_change E J clk rt m = (rt1, q1)" "bft_height c = bft_height (rt_consensus rt1)" for m rt1 q1 c p ps d
  proof -
    have "calm rt1 (rt1\<lparr>rt_consensus := c, rt_pending := p, rt_precommits := ps, rt_deadline := d\<rparr>)"
      using that(2) by (simp add: calm_frame)
    with receive_round_change_calm [OF that(1)] show ?thesis by (rule calm_trans)
  qed
  have timeout: "bft_height c = bft_height s" if "on_timeout s = (c, q2)" for s c q2
    using that by (auto simp: on_timeout_def split: option.splits prod.splits result.splits dest!: start_round_result)
  show ?thesis
  proof (cases "now < rt_deadline rt \<or> bft_phase (rt_consensus rt) = Finalized")
    case False
    show ?thesis
    proof (cases "timeout_message E rt")
      case (Ok m)
      obtain rt1 q1 where r: "receive_round_change E J clk rt m = (rt1, q1)" by (cases "receive_round_change E J clk rt m")
      obtain c q2 where c: "(if bft_round (rt_consensus rt1) = rc_round m then on_timeout (rt_consensus rt1)
          else (rt_consensus rt1, Ok 0)) = (c, q2)" by force
      have same: "bft_height c = bft_height (rt_consensus rt1)" using c timeout by (auto split: if_splits)
      then have "calm rt1 (rt1\<lparr>rt_consensus := c\<rparr>)" by (simp add: calm_frame)
      with receive_round_change_calm [OF r] have failed: "calm rt (rt1\<lparr>rt_consensus := c\<rparr>)" by (rule calm_trans)
      from assms False Ok r c show ?thesis
        using receive_round_change_calm [OF r] failed step [OF r same]
        by (cases q1; cases q2) (auto simp: timeout_if_due_with_round_change_def)
    qed (use assms False in \<open>auto simp: timeout_if_due_with_round_change_def\<close>)
  qed (use assms in \<open>auto simp: timeout_if_due_with_round_change_def\<close>)
qed

lemma small_steps_calm:
  "calm rt (defer_vote rt m)" "calm rt (set_validator_peer_ids rt ids)" "calm rt (restart_phase_timeout rt now)"
  "calm rt (fst (rt_take_evidence rt))"
  by (auto simp: defer_vote_def set_validator_peer_ids_def restart_phase_timeout_def rt_take_evidence_def take_evidence_def
      intro!: calm_frame)

lemma start_next_height_calm:
  assumes "start_next_height clk rt = (rt', q)"
  shows "calm rt rt'"
proof -
  obtain c r where c: "start_round (rt_consensus rt) (next_height (rt_chain rt)) 0 = (c, r)"
    by (cases "start_round (rt_consensus rt) (next_height (rt_chain rt)) 0")
  have frame: "rt_chain rt' = rt_chain rt" "rt_pending_finalized rt' = rt_pending_finalized rt" "rt_consensus rt' = c"
    using assms c by (auto simp: start_next_height_def clear_height_def split: result.splits)
  have "height_ok rt'" if "height_ok rt"
  proof -
    have "next_height (rt_chain rt) \<le> blk_height (last (ch_blocks (rt_chain rt))) + 1"
      using that by (simp add: next_height_def height_ok_def wrapping_add_def)
    with that frame start_round_result [OF c] show ?thesis by (auto simp: height_ok_def)
  qed
  with frame show ?thesis by (simp add: calm_def)
qed

lemma replace_bootstrap_calm:
  assumes "replace_bootstrap_validators clk rt vs = (rt', q)"
  shows "calm rt rt'"
proof -
  have "rt_chain rt' = rt_chain rt" "rt_pending_finalized rt' = rt_pending_finalized rt"
    "rt_consensus rt' = rt_consensus rt \<or> bft_height (rt_consensus rt') = 1"
    using assms by (auto simp: replace_bootstrap_validators_def split: if_splits result.splits prod.splits dest!: start_round_result)
  then show ?thesis by (auto simp: calm_def height_ok_def)
qed

lemma sync_certificate:
  assumes "apply_sync_certificates E J clk rt [c] = (rt', r)"
  shows "rt_pending_finalized rt' = rt_pending_finalized rt"
    and "\<exists>bs. ch_blocks (rt_chain rt') = ch_blocks (rt_chain rt) @ bs"
    and "height_ok rt \<Longrightarrow> low (rt_chain rt') \<Longrightarrow> height_ok rt'
      \<and> (if r = Ok 1 then ch_blocks (rt_chain rt') = ch_blocks (rt_chain rt) @ [cert_block c] else rt_chain rt' = rt_chain rt)"
proof -
  consider (same) "rt' = rt" "r \<noteq> Ok 1"
    | (applied) chain rt1 q where "apply_block E (rt_chain rt) (cert_block c) = Ok chain"
        "rt1 = rt\<lparr>rt_chain := chain, rt_finalized := rt_finalized rt @ [c]\<rparr>" "start_next_height clk rt1 = (rt', q)"
        "r = rbind q (\<lambda>_. Ok 1)"
    using assms by (auto simp: apply_sync_certificates_def Let_def split: result.splits option.splits if_splits prod.splits)
  note cases = this
  show "rt_pending_finalized rt' = rt_pending_finalized rt"
  proof (cases rule: cases)
    case applied
    then show ?thesis using start_next_height_calm [OF applied(3)] by (simp add: calm_def)
  qed simp
  show "\<exists>bs. ch_blocks (rt_chain rt') = ch_blocks (rt_chain rt) @ bs"
  proof (cases rule: cases)
    case applied
    then show ?thesis using start_next_height_calm [OF applied(3)] apply_block_blocks(1) [OF applied(1)] by (simp add: calm_def)
  qed simp
  assume ok: "height_ok rt" and low: "low (rt_chain rt')"
  show "height_ok rt' \<and> (if r = Ok 1 then ch_blocks (rt_chain rt') = ch_blocks (rt_chain rt) @ [cert_block c] else rt_chain rt' = rt_chain rt)"
  proof (cases rule: cases)
    case same
    with ok show ?thesis by simp
  next
    case applied
    note blocks = apply_block_blocks [OF applied(1)]
    note next_step = start_next_height_calm [OF applied(3)]
    have chain: "rt_chain rt' = chain" using next_step applied(2) by (simp add: calm_def)
    have "blk_height (last (ch_blocks (rt_chain rt))) < 2 ^ 64 - 1" "blk_height (cert_block c) < 2 ^ 64 - 1"
      using low blocks(1) ok unfolding chain by (simp_all add: low_def height_ok_def)
    then have heights: "blk_height (cert_block c) = blk_height (last (ch_blocks (rt_chain rt))) + 1"
      "next_height chain = blk_height (cert_block c) + 1"
      using blocks by (simp_all add: next_height_def wrapping_add_def)
    then have "q = Ok ()"
      using applied(2,3) ok by (auto simp: start_next_height_def start_round_def height_ok_def Let_def split: if_splits)
    moreover have "height_ok rt1" using applied(2) heights ok blocks(1) by (simp add: height_ok_def)
    then have "height_ok rt'" using next_step by (simp add: calm_def)
    ultimately show ?thesis using applied(4) chain blocks(1) by simp
  qed
qed

lemma snapshot_installed:
  assumes "install_certified_snapshot E clk rt snapshot certificate = (rt', Ok ())"
    and "snap_height snapshot > tip_height (rt_chain rt)"
  shows "chain_from_state_snapshot snapshot = Ok (rt_chain rt')" and "rt_pending_finalized rt' = rt_pending_finalized rt"
    and "height_ok rt'"
proof -
  obtain chain c where chain: "chain_from_state_snapshot snapshot = Ok chain"
    and c: "start_round (rt_consensus rt) (wrapping_add 64 (snap_height snapshot) 1) 0 = (c, Ok ())"
    and rt': "rt' = reset_deadline clk ((clear_height (rt\<lparr>rt_chain := chain, rt_consensus := c\<rparr>))\<lparr>rt_deferred_votes := []\<rparr>)"
    using assms by (auto simp: install_certified_snapshot_def chain_from_state_snapshot_def split: result.splits if_splits prod.splits)
  have fields: "rt_chain rt' = chain" "rt_consensus rt' = c" "rt_pending_finalized rt' = rt_pending_finalized rt"
    by (simp_all add: rt' clear_height_def)
  then show "chain_from_state_snapshot snapshot = Ok (rt_chain rt')" "rt_pending_finalized rt' = rt_pending_finalized rt"
    using chain by simp_all
  have "ch_blocks chain \<noteq> []" "blk_height (last (ch_blocks chain)) = snap_height snapshot"
    using chain by (auto simp: chain_from_state_snapshot_def from_snapshot_with_staking_def from_snapshot_with_events_def Let_def
        split: if_splits)
  moreover have "wrapping_add 64 (snap_height snapshot) 1 \<le> snap_height snapshot + 1" by (simp add: wrapping_add_def)
  ultimately show "height_ok rt'" using start_round_result [OF c] by (simp add: height_ok_def fields)
qed

subsection \<open>Handlers\<close>

text \<open>
  Between two rounds of the loop nothing is pending and both ledgers are the same.  A step is
  quiet if it leaves the RPC ledger and the certificate store alone, and still if it leaves the
  consensus ledger alone too.
\<close>

definition settled :: "'db node_loop \<Rightarrow> bool" where
  "settled s \<longleftrightarrow> rt_pending_finalized (nl_consensus s) = [] \<and> rs_chain (nl_rpc s) = nl_chain s \<and> height_ok (nl_consensus s)"

definition grown :: "'db node_loop \<Rightarrow> 'db node_loop \<Rightarrow> bool" where
  "grown s s' \<longleftrightarrow> (\<exists>cs. nl_finality s' = nl_finality s @ cs \<and> ch_blocks (nl_chain s') = ch_blocks (nl_chain s) @ map cert_block cs)"

definition same_stores :: "'db node_loop \<Rightarrow> 'db node_loop \<Rightarrow> bool" where
  "same_stores s s' \<longleftrightarrow> rs_chain (nl_rpc s') = rs_chain (nl_rpc s) \<and> nl_finality s' = nl_finality s
     \<and> rs_validators (nl_rpc s') = rs_validators (nl_rpc s)"

definition quiet :: "'db handler \<Rightarrow> bool" where
  "quiet h \<longleftrightarrow> (\<forall>s s' cs r. h s = (s', cs, r) \<longrightarrow> same_stores s s' \<and> (\<exists>ds. moved (nl_consensus s) ds (nl_consensus s')))"

definition still :: "'db handler \<Rightarrow> bool" where
  "still h \<longleftrightarrow> (\<forall>s s' cs r. h s = (s', cs, r) \<longrightarrow> same_stores s s' \<and> calm (nl_consensus s) (nl_consensus s'))"

definition settles :: "'db handler \<Rightarrow> bool" where
  "settles h \<longleftrightarrow> (\<forall>s s' cs. settled s \<and> h s = (s', cs, Ok ()) \<and> low (nl_chain s') \<longrightarrow> settled s' \<and> grown s s')"

named_theorems handler_intros

lemma same_stores_refl [simp]: "same_stores s s"
  by (simp add: same_stores_def)

lemma same_stores_trans: "same_stores s t \<Longrightarrow> same_stores t u \<Longrightarrow> same_stores s u"
  by (simp add: same_stores_def)

lemma stillD: "still h \<Longrightarrow> h s = (s', cs, r) \<Longrightarrow> same_stores s s' \<and> calm (nl_consensus s) (nl_consensus s')"
  by (simp add: still_def)

lemma quietD: "quiet h \<Longrightarrow> h s = (s', cs, r) \<Longrightarrow> same_stores s s' \<and> (\<exists>ds. moved (nl_consensus s) ds (nl_consensus s'))"
  by (simp add: quiet_def)

lemma still_quiet: "still h \<Longrightarrow> quiet h"
  unfolding still_def quiet_def using calm_moved by blast

lemma still_settled: "still h \<Longrightarrow> h s = (s', cs, r) \<Longrightarrow> settled s \<Longrightarrow> settled s' \<and> grown s s' \<and> nl_chain s' = nl_chain s"
  by (drule stillD, assumption) (auto simp: settled_def grown_def same_stores_def calm_def nl_chain_def)

lemma still_settles: "still h \<Longrightarrow> settles h"
  unfolding settles_def using still_settled by blast

lemma still_send [handler_intros]: "still (send cs)"
  by (simp add: still_def send_def)

lemma still_stop [handler_intros]: "still (stop_with e)"
  by (simp add: still_def stop_with_def)

lemma still_request_sync [handler_intros]: "still request_sync"
  by (simp add: still_def request_sync_def)

lemma andthen_cases:
  assumes "andthen f g s = (s', cs, r)"
  obtains (failed) e where "f s = (s', cs, Err e)" and "r = Err e"
  | (both) s1 c1 c2 where "f s = (s1, c1, Ok ())" and "g s1 = (s', c2, r)"
  using assms by (auto simp: andthen_def split: prod.splits result.splits)

lemma still_andthen [handler_intros]: "still f \<Longrightarrow> still g \<Longrightarrow> still (andthen f g)"
  unfolding still_def by (fastforce elim!: andthen_cases intro: calm_trans same_stores_trans)

lemma quiet_andthen: "quiet f \<Longrightarrow> quiet g \<Longrightarrow> quiet (andthen f g)"
  unfolding quiet_def by (fastforce elim!: andthen_cases intro: moved_trans same_stores_trans)

lemma still_each [handler_intros]: "(\<And>x. still (f x)) \<Longrightarrow> still (each f xs)"
  by (induction xs) (auto intro: handler_intros)

lemma still_must [handler_intros]: "(\<And>x. still (k x)) \<Longrightarrow> still (must k r)"
  by (auto simp: must_def intro: handler_intros split: result.splits)

lemma quiet_must: "(\<And>x. quiet (k x)) \<Longrightarrow> quiet (must k r)"
  by (auto simp: must_def intro: handler_intros still_quiet split: result.splits)

lemma still_set_state [handler_intros]:
  "(\<And>s. same_stores s (f s)) \<Longrightarrow> (\<And>s. calm (nl_consensus s) (nl_consensus (f s))) \<Longrightarrow> still (set_state f)"
  by (simp add: still_def set_state_def)

lemma still_rpc_do [handler_intros]: "(\<And>rpc. rs_chain (f rpc) = rs_chain rpc) \<Longrightarrow> (\<And>rpc. rs_validators (f rpc) = rs_validators rpc) \<Longrightarrow> still (rpc_do f)"
  unfolding rpc_do_def by (intro still_set_state) (simp_all add: same_stores_def)

lemma still_call_consensus:
  assumes "\<And>rt rt' r. f rt = (rt', r) \<Longrightarrow> calm rt rt'" and "\<And>r. still (k r)"
  shows "still (call_consensus f k)"
  unfolding still_def
proof (intro allI impI)
  fix s s' cs r
  assume call: "call_consensus f k s = (s', cs, r)"
  obtain rt q where f: "f (nl_consensus s) = (rt, q)" by (cases "f (nl_consensus s)")
  with call have "k q (s\<lparr>nl_consensus := rt\<rparr>) = (s', cs, r)" by (simp add: call_consensus_def)
  from stillD [OF assms(2) this] assms(1) [OF f] show "same_stores s s' \<and> calm (nl_consensus s) (nl_consensus s')"
    by (auto simp: same_stores_def intro: calm_trans)
qed

lemma quiet_call_consensus:
  assumes "\<And>rt rt' r. f rt = (rt', r) \<Longrightarrow> \<exists>ds. moved rt ds rt'" and "\<And>r. quiet (k r)"
  shows "quiet (call_consensus f k)"
  unfolding quiet_def
proof (intro allI impI)
  fix s s' cs r
  assume call: "call_consensus f k s = (s', cs, r)"
  obtain rt q where f: "f (nl_consensus s) = (rt, q)" by (cases "f (nl_consensus s)")
  with call have "k q (s\<lparr>nl_consensus := rt\<rparr>) = (s', cs, r)" by (simp add: call_consensus_def)
  from quietD [OF assms(2) this] assms(1) [OF f] show "same_stores s s' \<and> (\<exists>ds. moved (nl_consensus s) ds (nl_consensus s'))"
    by (auto simp: same_stores_def intro: moved_trans)
qed

lemma still_call_rpc:
  assumes "\<And>rpc rpc' r. f rpc = (rpc', r) \<Longrightarrow> rs_chain rpc' = rs_chain rpc \<and> rs_validators rpc' = rs_validators rpc" and "\<And>r. still (k r)"
  shows "still (call_rpc f k)"
  unfolding still_def
proof (intro allI impI)
  fix s s' cs r
  assume call: "call_rpc f k s = (s', cs, r)"
  obtain rpc q where f: "f (nl_rpc s) = (rpc, q)" by (cases "f (nl_rpc s)")
  with call have "k q (s\<lparr>nl_rpc := rpc\<rparr>) = (s', cs, r)" by (simp add: call_rpc_def)
  from stillD [OF assms(2) this] assms(1) [OF f] show "same_stores s s' \<and> calm (nl_consensus s) (nl_consensus s')"
    by (auto simp: same_stores_def)
qed

lemma settles_call_consensus:
  assumes "\<And>rt rt' r. f rt = (rt', r) \<Longrightarrow> calm rt rt'" and "\<And>r. settles (k r)"
  shows "settles (call_consensus f k)"
  unfolding settles_def
proof (intro allI impI, elim conjE)
  fix s s' cs
  assume settled: "settled s" and call: "call_consensus f k s = (s', cs, Ok ())" and low: "low (nl_chain s')"
  obtain rt q where f: "f (nl_consensus s) = (rt, q)" by (cases "f (nl_consensus s)")
  have "k q (s\<lparr>nl_consensus := rt\<rparr>) = (s', cs, Ok ())" using call f by (simp add: call_consensus_def)
  moreover have "settled (s\<lparr>nl_consensus := rt\<rparr>)" using settled assms(1) [OF f] by (simp add: settled_def nl_chain_def calm_def)
  moreover have "nl_chain (s\<lparr>nl_consensus := rt\<rparr>) = nl_chain s" using assms(1) [OF f] by (simp add: nl_chain_def calm_def)
  ultimately show "settled s' \<and> grown s s'" using assms(2) [of q] low unfolding settles_def grown_def by fastforce
qed

lemma settles_still_then:
  assumes "still f" and "settles g"
  shows "settles (andthen f g)"
  unfolding settles_def
proof (intro allI impI, elim conjE)
  fix s s' cs
  assume settled: "settled s" and call: "andthen f g s = (s', cs, Ok ())" and low: "low (nl_chain s')"
  from call obtain s1 c1 c2 where f: "f s = (s1, c1, Ok ())" and g: "g s1 = (s', c2, Ok ())" by (cases rule: andthen_cases) auto
  have "settled s1 \<and> nl_chain s1 = nl_chain s \<and> nl_finality s1 = nl_finality s"
    using still_settled [OF assms(1) f settled] stillD [OF assms(1) f] by (simp add: same_stores_def)
  with assms(2) g low show "settled s' \<and> grown s s'" unfolding settles_def grown_def by fastforce
qed

lemma install_finalized_chain:
  assumes "install_finalized W rpc before after b = (rpc', r)"
  shows "r = Ok () \<Longrightarrow> rs_chain rpc' = after" and "r \<noteq> Ok () \<Longrightarrow> rs_chain rpc' = rs_chain rpc"
  using assms by (auto simp: install_finalized_def set_chain_def Let_def split: prod.splits result.splits)

lemma record_finality_chain [simp]: "rs_chain (record_finality rpc c) = rs_chain rpc"
  by (simp add: record_finality_def Let_def)

lemma install_certificate_result:
  assumes "install_certificate W c s = (s', cs, Ok ())"
  shows "nl_consensus s' = nl_consensus s \<and> nl_finality s' = nl_finality s @ [c] \<and> rs_chain (nl_rpc s') = nl_chain s"
  using assms
  by (auto simp: install_certificate_def call_rpc_def must_def andthen_def set_state_def send_def stop_with_def finality_append_def
      split: prod.splits result.splits dest: install_finalized_chain)

lemma install_certificates_result:
  assumes "each (install_certificate W) ds s = (s', cs, Ok ())"
  shows "nl_consensus s' = nl_consensus s \<and> nl_finality s' = nl_finality s @ ds \<and> (ds \<noteq> [] \<longrightarrow> rs_chain (nl_rpc s') = nl_chain s)"
  using assms
proof (induction ds arbitrary: s cs)
  case (Cons d ds)
  from Cons.prems have "andthen (install_certificate W d) (each (install_certificate W) ds) s = (s', cs, Ok ())" by simp
  then obtain s1 c1 c2 where first: "install_certificate W d s = (s1, c1, Ok ())" and rest: "each (install_certificate W) ds s1 = (s', c2, Ok ())"
    by (cases rule: andthen_cases) auto
  show ?case using install_certificate_result [OF first] Cons.IH [OF rest] rest by (cases "ds = []") (auto simp: nl_chain_def send_def)
qed (simp add: send_def)

lemma advance_calm: "advance_after_finalization clk rt = (rt', r) \<Longrightarrow> calm rt rt'"
  by (auto simp: advance_after_finalization_def split: if_splits intro: start_next_height_calm)

lemma advance_handler: "still (call_consensus (advance_after_finalization clk) (must (\<lambda>_. send [])))"
  using advance_calm by (intro still_call_consensus handler_intros)

lemma settles_finalize:
  assumes "quiet h"
  shows "settles (andthen h (finalize_if_ready W clk))"
  unfolding settles_def
proof (intro allI impI, elim conjE)
  fix s s' cs
  assume settled: "settled s" and call: "andthen h (finalize_if_ready W clk) s = (s', cs, Ok ())" and low: "low (nl_chain s')"
  from call obtain s1 c1 c2 where h: "h s = (s1, c1, Ok ())" and fin: "finalize_if_ready W clk s1 = (s', c2, Ok ())"
    by (cases rule: andthen_cases) auto
  from quietD [OF assms h] obtain ds where same: "same_stores s s1" and ds: "moved (nl_consensus s) ds (nl_consensus s1)" by blast
  have pending: "rt_pending_finalized (nl_consensus s1) = ds" using settled ds by (simp add: settled_def moved_def)
  define s2 where "s2 = s1\<lparr>nl_consensus := (nl_consensus s1)\<lparr>rt_pending_finalized := []\<rparr>\<rparr>"
  have chain2: "nl_chain s2 = nl_chain s1" "nl_finality s2 = nl_finality s" "rs_chain (nl_rpc s2) = nl_chain s"
    using same settled by (simp_all add: s2_def nl_chain_def same_stores_def settled_def)
  have height2: "height_ok (nl_consensus s2)" if "low (nl_chain s1)"
  proof -
    have "height_ok (nl_consensus s1)" using ds settled that by (simp add: moved_def settled_def nl_chain_def)
    then show ?thesis by (simp add: s2_def height_ok_def)
  qed
  show "settled s' \<and> grown s s'"
  proof (cases "ds = []")
    case True
    with fin pending have "s' = s2" by (simp add: finalize_if_ready_def take_finalized_def s2_def)
    moreover have "nl_chain s1 = nl_chain s" using True ds by (simp add: moved_def nl_chain_def)
    ultimately show ?thesis using chain2 height2 low by (simp add: settled_def grown_def s2_def nl_chain_def)
  next
    case False
    with fin pending have "andthen (each (install_certificate W) ds)
        (call_consensus (advance_after_finalization clk) (must (\<lambda>_. send []))) s2 = (s', c2, Ok ())"
      by (simp add: finalize_if_ready_def take_finalized_def s2_def)
    then obtain s3 c3 c4 where each: "each (install_certificate W) ds s2 = (s3, c3, Ok ())"
      and adv: "call_consensus (advance_after_finalization clk) (must (\<lambda>_. send [])) s3 = (s', c4, Ok ())"
      by (cases rule: andthen_cases) auto
    note s3 = install_certificates_result [OF each]
    note last = stillD [OF advance_handler adv]
    have chains: "nl_chain s3 = nl_chain s1" "nl_chain s' = nl_chain s1"
      using s3 last chain2(1) by (simp_all add: nl_chain_def calm_def)
    have "height_ok (nl_consensus s')" using last s3 height2 low chains by (simp add: calm_def)
    moreover have "rt_pending_finalized (nl_consensus s') = []" using last s3 by (simp add: calm_def s2_def)
    moreover have "rs_chain (nl_rpc s') = nl_chain s'" using last s3 False chain2(1) chains by (simp add: same_stores_def)
    moreover have "grown s s'"
      using last s3 chain2 chains ds by (auto simp: grown_def same_stores_def moved_def nl_chain_def)
    ultimately show ?thesis by (simp add: settled_def)
  qed
qed

lemma settles_finalize_only: "settles (finalize_if_ready W clk)"
proof -
  have "andthen (send []) (finalize_if_ready W clk) = finalize_if_ready W clk"
    by (rule ext) (simp add: andthen_def send_def split: prod.splits)
  then show ?thesis using settles_finalize [of "send []"] still_quiet [OF still_send] by metis
qed

subsection \<open>Every handler settles\<close>

lemma andthen_assoc: "andthen (andthen f g) h = andthen f (andthen g h)"
  by (rule ext) (simp add: andthen_def split: prod.splits result.splits)

lemma quiet_vote: "(\<And>r. quiet (k r)) \<Longrightarrow> quiet (call_consensus (\<lambda>rt. receive_vote E clk rt m) k)"
  using receive_vote_moved by (intro quiet_call_consensus)

lemma quiet_cast_prevote: "quiet (cast_prevote W clk m)"
  unfolding cast_prevote_def
  by (intro quiet_andthen quiet_vote quiet_must)
    (auto intro!: still_quiet [OF still_send] quiet_andthen quiet_vote quiet_must split: option.splits)

lemma quiet_replay: "quiet (publish_replayed_votes W clk)"
  unfolding publish_replayed_votes_def using replay_deferred_moved
  by (intro quiet_call_consensus quiet_must still_quiet [OF still_send])

lemma still_persist: "still (persist_evidence W e)"
  by (auto simp: still_def persist_evidence_def same_stores_def split: result.splits prod.splits bool.splits)

lemma still_evidence: "still (persist_and_publish_evidence W)"
  unfolding still_def
proof (intro allI impI)
  fix s s' cs r
  assume call: "persist_and_publish_evidence W s = (s', cs, r)"
  obtain rt ev where t: "rt_take_evidence (nl_consensus s) = (rt, ev)" by (cases "rt_take_evidence (nl_consensus s)")
  have "still (each (persist_evidence W) ev)" by (intro handler_intros still_persist)
  moreover have "each (persist_evidence W) ev (s\<lparr>nl_consensus := rt\<rparr>) = (s', cs, r)"
    using call t by (simp add: persist_and_publish_evidence_def)
  moreover have "calm (nl_consensus s) rt" using small_steps_calm(4) [of "nl_consensus s"] t by simp
  ultimately show "same_stores s s' \<and> calm (nl_consensus s) (nl_consensus s')"
    using stillD by (force simp: same_stores_def intro: calm_trans)
qed

lemma settles_when: "settles h \<Longrightarrow> settles (when_taking_part cfg h)"
  by (auto simp: settles_def when_taking_part_def grown_def split: if_splits)

lemma still_when: "still h \<Longrightarrow> still (when_taking_part cfg h)"
  by (auto simp: still_def when_taking_part_def split: if_splits)

lemma settles_on_proposal: "settles (on_proposal W J cfg clk p)"
  unfolding on_proposal_def
proof (intro settles_when settles_call_consensus)
  fix r :: "consensus_message result"
  show "settles (case r of Err e \<Rightarrow> send [] | Ok prevote \<Rightarrow> andthen (cast_prevote W clk prevote)
      (andthen (publish_replayed_votes W clk) (finalize_if_ready W clk)))"
    using settles_finalize [OF quiet_andthen [OF quiet_cast_prevote quiet_replay]]
    by (cases r) (simp_all add: andthen_assoc still_settles [OF still_send])
qed (use receive_proposal_calm in blast)

lemma settles_on_vote: "settles (on_vote W cfg clk m)"
proof -
  let ?first = "call_consensus (\<lambda>rt. receive_vote (en_ext W) clk rt m) (\<lambda>r. case r of
          Ok (Some precommit) \<Rightarrow> andthen (send [PublishConsensus precommit])
            (call_consensus (\<lambda>rt. receive_vote (en_ext W) clk rt precommit) (must (\<lambda>_. send [])))
        | Ok None \<Rightarrow> send []
        | Err e \<Rightarrow> if is_deferable_vote_error e
            then set_state (\<lambda>s. s\<lparr>nl_consensus := defer_vote (nl_consensus s) m\<rparr>) else send [])"
  have deferring: "still (set_state (\<lambda>s. s\<lparr>nl_consensus := defer_vote (nl_consensus s) m\<rparr>))"
    using small_steps_calm(1) by (intro handler_intros) (simp_all add: same_stores_def)
  have "quiet ?first"
    by (intro quiet_vote) (auto intro!: still_quiet [OF still_send] still_quiet [OF deferring] quiet_andthen quiet_vote quiet_must
        split: result.splits option.splits)
  then have "quiet (andthen ?first (andthen (publish_replayed_votes W clk) (persist_and_publish_evidence W)))"
    by (intro quiet_andthen quiet_replay still_quiet [OF still_evidence])
  from settles_finalize [OF this] show ?thesis unfolding on_vote_def by (intro settles_when) (simp add: andthen_assoc)
qed

lemma still_on_round_change: "still (on_round_change W J cfg clk m)"
  unfolding on_round_change_def using receive_round_change_calm
  by (intro still_when still_call_consensus handler_intros)

lemma rpc_frames [simp]:
  "rs_chain (restore_transactions W rpc txs) = rs_chain rpc" "rs_chain (begin_sync rpc h) = rs_chain rpc"
  "rs_chain (peer_connected rpc p a ip d n t) = rs_chain rpc" "rs_chain (peer_disconnected rpc p n) = rs_chain rpc"
  "rs_validators (restore_transactions W rpc txs) = rs_validators rpc" "rs_validators (begin_sync rpc h) = rs_validators rpc"
  "rs_validators (peer_connected rpc p a ip d n t) = rs_validators rpc" "rs_validators (peer_disconnected rpc p n) = rs_validators rpc"
  by (simp_all add: restore_transactions_def begin_sync_def peer_connected_def peer_disconnected_def Let_def)

lemma still_on_evidence: "still (on_evidence W e)"
  by (auto simp: still_def on_evidence_def same_stores_def split: if_splits result.splits prod.splits)

lemma still_on_transaction: "still (on_transaction W tx)"
  unfolding on_transaction_def by (intro handler_intros) simp_all

lemma still_on_communication: "still (on_communication W clk e)"
  unfolding on_communication_def
  by (intro still_call_rpc handler_intros) (auto simp: receive_communication_def split: prod.splits)

lemma still_on_peer_connected: "still (on_peer_connected cfg clk p a ip g d n)"
  unfolding on_peer_connected_def
  by (intro handler_intros) (auto simp: same_stores_def still_def split: option.splits)

lemma still_on_peer_disconnected: "still (on_peer_disconnected p n)"
  unfolding on_peer_disconnected_def by (intro handler_intros) (simp_all add: same_stores_def)

lemma still_adopt_bootstrap: "still (adopt_bootstrap_validators cfg clk)"
proof -
  have "still (call_consensus (\<lambda>rt. replace_bootstrap_validators clk rt vs)
      (must (\<lambda>_. set_state (\<lambda>s. s\<lparr>nl_validators := vs, nl_local_is_validator := b\<rparr>))))" for vs b
    using replace_bootstrap_calm by (intro still_call_consensus handler_intros) (auto simp: same_stores_def)
  note fact_of = stillD [OF this]
  show ?thesis by (auto dest!: fact_of simp: still_def adopt_bootstrap_validators_def Let_def split: if_splits)
qed

lemma still_on_validator_registration: "still (on_validator_registration W P cfg clk r)"
proof -
  have "still (andthen (set_state (\<lambda>s. s\<lparr>nl_registrations := hm_insert (nl_registrations s) (vreg_validator_id r) r\<rparr>))
      (andthen (set_state (\<lambda>s. s\<lparr>nl_consensus := set_validator_peer_ids (nl_consensus s) (known_validator_peers s)\<rparr>))
        (adopt_bootstrap_validators cfg clk)))"
    using small_steps_calm(2) by (intro handler_intros still_adopt_bootstrap) (simp_all add: same_stores_def)
  note fact_of = stillD [OF this]
  show ?thesis by (auto dest!: fact_of simp: still_def on_validator_registration_def split: if_splits)
qed

lemma still_registrations: "still (on_reward_registration W src rr)" "still (on_service_attestation W cfg clk src a)"
  by (auto simp: still_def on_reward_registration_def on_service_attestation_def same_stores_def split: if_splits)

lemma still_note_attestation [handler_intros]: "still (note_attestation a)"
  unfolding note_attestation_def by (intro handler_intros) (simp_all add: same_stores_def)

lemma still_keep_votes [handler_intros]: "still (keep_votes_above h)"
  unfolding keep_votes_above_def by (intro handler_intros) (simp_all add: same_stores_def)

lemma still_on_snapshot_attestation: "still (on_snapshot_attestation W src a)"
proof -
  have certify: "still (call_rpc (\<lambda>rpc. certify_snapshot W rpc c) (must (\<lambda>_. keep_votes_above h)))" for c h
    by (intro still_call_rpc handler_intros) (auto simp: certify_snapshot_def split: option.splits result.splits)
  have "still (andthen (note_attestation a)
      (must (\<lambda>c. case snapshot_certificate_verify (en_ext W) c vs of
           Ok _ \<Rightarrow> call_rpc (\<lambda>rpc. certify_snapshot W rpc c) (must (\<lambda>_. keep_votes_above (sc_height c)))
         | Err e \<Rightarrow> if e = ESync AttestationQuorum then send [] else send [PenalizePeer src 100]) r))" for vs r
    by (intro handler_intros) (auto intro: certify still_send split: result.splits)
  note fact_of = stillD [OF this]
  show ?thesis by (auto dest!: fact_of simp: still_def on_snapshot_attestation_def split: if_splits)
qed

lemma still_snapshot_tick: "still (snapshot_tick W)"
proof -
  have "still (must (\<lambda>a. andthen (note_attestation a) (send [PublishSnapshotAttestation a])) r)" for r
    by (intro handler_intros)
  note fact_of = stillD [OF this]
  show ?thesis by (auto dest!: fact_of simp: still_def snapshot_tick_def split: if_splits option.splits)
qed

lemma still_on_sync_request: "still (on_sync_request W J cfg req h)"
proof -
  have "still (must (\<lambda>a. send (f a)) r)" for f and r :: "snapshot_attestation result" by (intro handler_intros)
  note fact_of = stillD [OF this]
  show ?thesis by (auto dest!: fact_of simp: still_def on_sync_request_def Let_def split: if_splits)
qed

lemma still_attest_service: "still (attest_service W clk x)"
proof -
  have "still (must (\<lambda>a. andthen (set_state (\<lambda>s. s\<lparr>nl_attestations := hm_insert (nl_attestations s) (k a) a\<rparr>))
      (send [PublishNodeServiceAttestation a])) r)" for k r
    by (intro handler_intros) (simp_all add: same_stores_def)
  note fact_of = stillD [OF this]
  show ?thesis by (cases x) (auto dest!: fact_of simp: still_def attest_service_def Let_def split: if_splits option.splits)
qed

lemma still_registration_tick: "still (registration_tick W cfg clk)"
proof -
  have "still (andthen (send cs) (if b then andthen (each (attest_service W clk) xs)
      (set_state (\<lambda>s. s\<lparr>nl_attestations := filter p (nl_attestations s)\<rparr>)) else send []))" for cs b xs p
    by (cases b) (auto intro!: handler_intros still_attest_service simp: same_stores_def)
  note fact_of = stillD [OF this]
  show ?thesis unfolding still_def registration_tick_def by (blast dest: fact_of)
qed

lemma still_announce: "still (announce W clk tx)"
  by (auto simp: still_def announce_def same_stores_def Let_def split: if_splits)

lemma still_rebroadcast: "still (rebroadcast clk)"
  by (auto simp: still_def rebroadcast_def same_stores_def split: if_splits)

lemma still_check_timeout: "still (check_timeout W J clk txs)"
  unfolding check_timeout_def using timeout_calm
  by (intro still_call_consensus handler_intros) (auto intro!: handler_intros split: prod.splits)

lemma still_watch_rounds: "still (watch_rounds W J clk)"
proof -
  have "still (andthen (set_state (\<lambda>s. if active \<and> \<not> nl_was_active s
          then s\<lparr>nl_consensus := restart_phase_timeout (nl_consensus s) (clk_instant clk)\<rparr> else s))
      (andthen (if active then andthen (check_timeout W J clk txs) (rebroadcast clk) else send [])
        (set_state (\<lambda>s. s\<lparr>nl_was_active := active\<rparr>))))" for active txs
    using small_steps_calm(3) by (cases active)
      (auto intro!: handler_intros still_check_timeout still_rebroadcast simp: same_stores_def)
  note fact_of = stillD [OF this]
  show ?thesis unfolding still_def watch_rounds_def Let_def by (blast dest: fact_of)
qed

lemma still_note_tip: "still (note_tip cfg clk)"
  unfolding note_tip_def by (intro handler_intros) (simp_all add: same_stores_def)

lemma still_forward: "still forward_communication"
  by (auto simp: still_def forward_communication_def drain_outbound_communication_def same_stores_def split: prod.splits)

lemma settles_propose: "settles (propose_block W J cfg clk events)"
proof -
  let ?E = "en_ext W"
  have propose: "settles (call_consensus (\<lambda>rt. receive_proposal ?E J clk rt p) (\<lambda>r. case r of
                 Err e \<Rightarrow> rpc_do (\<lambda>rpc. restore_transactions W rpc txs)
               | Ok prevote \<Rightarrow> andthen (send [PublishProposal p])
                   (andthen (cast_prevote W clk prevote) (finalize_if_ready W clk))))" for p txs
  proof (intro settles_call_consensus)
    fix r :: "consensus_message result"
    show "settles (case r of Err e \<Rightarrow> rpc_do (\<lambda>rpc. restore_transactions W rpc txs)
        | Ok prevote \<Rightarrow> andthen (send [PublishProposal p]) (andthen (cast_prevote W clk prevote) (finalize_if_ready W clk)))"
    proof (cases r)
      case (Err e)
      have "still (rpc_do (\<lambda>rpc. restore_transactions W rpc txs))" by (intro handler_intros) simp_all
      with Err show ?thesis by (simp add: still_settles)
    next
      case (Ok prevote)
      then show ?thesis by (auto intro: settles_still_then still_send settles_finalize quiet_cast_prevote)
    qed
  qed (use receive_proposal_calm in blast)
  have withdraw: "settles (andthen (send cs) (rpc_do (\<lambda>rpc. restore_transactions W rpc txs)))" for cs txs
    by (intro still_settles handler_intros) simp_all
  show ?thesis
    unfolding settles_def
  proof (intro allI impI, elim conjE)
    fix s s' cs
    assume settled: "settled s" and call: "propose_block W J cfg clk events s = (s', cs, Ok ())" and low: "low (nl_chain s')"
    obtain rpc txs where d: "drain_transactions W (nl_rpc s) 1000 = (rpc, txs)" by (cases "drain_transactions W (nl_rpc s) 1000")
    have rpc: "rs_chain rpc = rs_chain (nl_rpc s)" using d by (auto simp: drain_transactions_def split: prod.splits)
    have start: "settled (s\<lparr>nl_rpc := rpc\<rparr>)" "settled (s\<lparr>nl_rpc := rpc, nl_next_block_at := t\<rparr>)" for t
      using settled rpc by (simp_all add: settled_def nl_chain_def)
    have same: "grown (s\<lparr>nl_rpc := rpc\<rparr>) s' = grown s s'" "grown (s\<lparr>nl_rpc := rpc, nl_next_block_at := t\<rparr>) s' = grown s s'" for t
      by (simp_all add: grown_def nl_chain_def)
    consider (idle) "s' = s" | (withdrawn) "andthen (send (map PublishTransaction txs)) (rpc_do (\<lambda>rpc. restore_transactions W rpc txs)) (s\<lparr>nl_rpc := rpc\<rparr>) = (s', cs, Ok ())"
      | (proposed) p t where "call_consensus (\<lambda>rt. receive_proposal ?E J clk rt p) (\<lambda>r. case r of
                 Err e \<Rightarrow> rpc_do (\<lambda>rpc. restore_transactions W rpc txs)
               | Ok prevote \<Rightarrow> andthen (send [PublishProposal p])
                   (andthen (cast_prevote W clk prevote) (finalize_if_ready W clk))) (s\<lparr>nl_rpc := rpc, nl_next_block_at := t\<rparr>) = (s', cs, Ok ())"
      using call d by (auto simp: propose_block_def Let_def split: if_splits result.splits)
    then show "settled s' \<and> grown s s'"
    proof cases
      case idle
      with settled show ?thesis by (simp add: grown_def)
    next
      case withdrawn
      with withdraw start(1) low same(1) show ?thesis unfolding settles_def by blast
    next
      case proposed
      with propose start(2) low same(2) show ?thesis unfolding settles_def by blast
    qed
  qed
qed

lemma settles_must: "(\<And>x. settles (k x)) \<Longrightarrow> settles (must k r)"
  by (cases r) (auto simp: must_def intro: still_settles still_stop)

lemma settles_point:
  assumes "\<And>s. \<exists>g. settles g \<and> h s = g s"
  shows "settles h"
  unfolding settles_def
proof (intro allI impI, elim conjE)
  fix s s' cs
  assume "settled s" and "h s = (s', cs, Ok ())" and "low (nl_chain s')"
  then show "settled s' \<and> grown s s'" using assms [of s] unfolding settles_def by metis
qed

lemma settles_produce: "settles (produce W J cfg clk)"
proof -
  let ?service = "set_state (\<lambda>s. if service_due s (now_unix clk)
      then s\<lparr>nl_consensus := set_validator_peer_ids (nl_consensus s) (known_validator_peers s)\<rparr> else s)"
  let ?k = "\<lambda>events. andthen ?service (propose_block W J cfg clk events)"
  let ?events = "\<lambda>s. must ?k (due_events (en_ext W) J cfg s (now_unix clk)) s"
  have "still ?service"
    using small_steps_calm(2) by (intro handler_intros) (simp_all add: same_stores_def)
  then have k: "settles (must ?k r)" for r by (intro settles_must settles_still_then settles_propose)
  have events: "settles ?events" by (rule settles_point) (blast intro: k)
  have "still (each (announce W clk) txs)" for txs by (intro handler_intros still_announce)
  then have "settles (must (\<lambda>_. andthen (each (announce W clk) txs) ?events) r)" for txs and r :: "unit result"
    by (intro settles_must settles_still_then events)
  then show ?thesis unfolding produce_def by (intro settles_when, intro settles_point) blast
qed

lemma settles_consensus_tick: "settles (consensus_tick W J cfg clk)"
  unfolding consensus_tick_def
  by (intro settles_still_then still_note_tip still_forward still_watch_rounds settles_produce)

lemma apply_synced_blocks:
  assumes "apply_synced W J clk cs n s = (s', ds, r)"
  shows "\<exists>bs. ch_blocks (nl_chain s') = ch_blocks (nl_chain s) @ bs"
  using assms
proof (induction cs arbitrary: n s ds)
  case (Cons c cs)
  obtain rt q where a: "apply_sync_certificates (en_ext W) J clk (nl_consensus s) [c] = (rt, q)"
    by (cases "apply_sync_certificates (en_ext W) J clk (nl_consensus s) [c]")
  obtain bs where bs: "ch_blocks (rt_chain rt) = ch_blocks (nl_chain s) @ bs"
    using sync_certificate(2) [OF a] by (auto simp: nl_chain_def)
  have "\<exists>ds. ch_blocks (nl_chain s') = ch_blocks (rt_chain rt) @ ds"
  proof (cases q)
    case (Ok k)
    obtain rpc q2 where i: "install_finalized W (nl_rpc s) (nl_chain s) (rt_chain rt) (cert_block c) = (rpc, q2)"
      by (cases "install_finalized W (nl_rpc s) (nl_chain s) (rt_chain rt) (cert_block c)")
    show ?thesis
    proof (cases "k = 1")
      case True
      show ?thesis
      proof (cases q2)
        case (Ok u)
        with Cons.prems a i \<open>q = Ok k\<close> True show ?thesis by (auto simp: nl_chain_def dest!: Cons.IH)
      qed (use Cons.prems a i Ok True in \<open>auto simp: nl_chain_def\<close>)
    qed (use Cons.prems a Ok in \<open>auto simp: nl_chain_def dest!: Cons.IH\<close>)
  qed (use Cons.prems a in \<open>auto simp: nl_chain_def\<close>)
  with bs show ?case by force
qed simp

lemma apply_synced_settled:
  assumes "apply_synced W J clk cs n s = (s', ds, Ok m)" and "settled s" and "low (nl_chain s')"
  shows "settled s' \<and> grown s s'"
  using assms
proof (induction cs arbitrary: n s ds)
  case Nil
  then show ?case by (simp add: grown_def)
next
  case (Cons c cs)
  obtain rt q where a: "apply_sync_certificates (en_ext W) J clk (nl_consensus s) [c] = (rt, q)"
    by (cases "apply_sync_certificates (en_ext W) J clk (nl_consensus s) [c]")
  note single = sync_certificate [OF a]
  have start: "height_ok (nl_consensus s)" "rt_pending_finalized rt = []" "rs_chain (nl_rpc s) = rt_chain (nl_consensus s)"
    using Cons.prems(2) single(1) by (simp_all add: settled_def nl_chain_def)
  show ?case
  proof (cases "q = Ok 1")
    case True
    obtain rpc q2 where i: "install_finalized W (nl_rpc s) (nl_chain s) (rt_chain rt) (cert_block c) = (rpc, q2)"
      by (cases "install_finalized W (nl_rpc s) (nl_chain s) (rt_chain rt) (cert_block c)")
    have q2: "q2 = Ok ()" using Cons.prems(1) a i True by (cases q2) auto
    let ?s1 = "s\<lparr>nl_consensus := rt, nl_rpc := rpc, nl_finality := finality_append (nl_finality s) c\<rparr>"
    have rest: "apply_synced W J clk cs (n + 1) ?s1 = (s', ds, Ok m)" using Cons.prems(1) a i True q2 by simp
    obtain bs where "ch_blocks (nl_chain s') = ch_blocks (rt_chain rt) @ bs"
      using apply_synced_blocks [OF rest] by (auto simp: nl_chain_def)
    then have ok: "height_ok rt" "ch_blocks (rt_chain rt) = ch_blocks (nl_chain s) @ [cert_block c]"
      using single(3) [OF start(1)] low_prefix [OF Cons.prems(3)] True by (auto simp: nl_chain_def)
    then have "settled ?s1" using start install_finalized_chain(1) [OF i q2] by (simp add: settled_def nl_chain_def)
    with Cons.IH [OF rest] Cons.prems(3) have "settled s'" "grown ?s1 s'" by blast+
    then show ?thesis using ok(2) by (auto simp: grown_def finality_append_def nl_chain_def)
  next
    case False
    let ?s1 = "s\<lparr>nl_consensus := rt\<rparr>"
    have "(\<exists>d. s' = ?s1) \<or> apply_synced W J clk cs n ?s1 = (s', ds, Ok m)"
      using Cons.prems(1) a False by (cases q) auto
    then obtain bs where "ch_blocks (nl_chain s') = ch_blocks (rt_chain rt) @ bs"
      using apply_synced_blocks [of W J clk cs n ?s1 s' ds "Ok m"] by (auto simp: nl_chain_def)
    then have ok: "height_ok rt" "rt_chain rt = nl_chain s"
      using single(3) [OF start(1)] low_prefix [OF Cons.prems(3)] False by (auto simp: nl_chain_def)
    then have "settled ?s1" "nl_chain ?s1 = nl_chain s" using start by (simp_all add: settled_def nl_chain_def)
    then show ?thesis
      using \<open>(\<exists>d. s' = ?s1) \<or> _\<close> Cons.IH [of n ?s1 ds] Cons.prems(3) by (auto simp: grown_def)
  qed
qed

lemma settles_on_sync_certificates: "settles (on_sync_certificates W J clk src tip cs)"
  unfolding settles_def
proof (intro allI impI, elim conjE)
  fix s s' ds
  assume settled: "settled s" and call: "on_sync_certificates W J clk src tip cs s = (s', ds, Ok ())" and low: "low (nl_chain s')"
  obtain agreed q where t: "tip_observe (nl_sync_quorum s) src tip = (agreed, q)" by (cases "tip_observe (nl_sync_quorum s) src tip")
  show "settled s' \<and> grown s s'"
  proof (cases agreed)
    case None
    with call t settled show ?thesis by (auto simp: on_sync_certificates_def settled_def grown_def nl_chain_def)
  next
    case (Some a)
    let ?s0 = "s\<lparr>nl_sync_quorum := q, nl_rpc := begin_sync (nl_rpc s) (tip_at a)\<rparr>"
    have s0: "settled ?s0" using settled by (simp add: settled_def nl_chain_def)
    obtain s1 d1 m where run: "apply_synced W J clk cs 0 ?s0 = (s1, d1, m)" by (cases "apply_synced W J clk cs 0 ?s0")
    have "s' = s1 \<and> (\<exists>k. m = Ok k)"
      using call t Some run by (cases m) (auto simp: on_sync_certificates_def andthen_def send_def request_sync_def split: if_splits)
    with apply_synced_settled [OF _ s0] run low have "settled s'" "grown ?s0 s'" by blast+
    then show ?thesis by (simp add: grown_def nl_chain_def)
  qed
qed

subsection \<open>Snapshots\<close>

text \<open>A certified snapshot of a higher block replaces the ledger.\<close>

definition jumped :: "'db environment \<Rightarrow> 'db node_loop \<Rightarrow> 'db node_loop \<Rightarrow> bool" where
  "jumped W s s' \<longleftrightarrow> nl_finality s' = nl_finality s \<and> (\<exists>snapshot certificate.
     snap_height snapshot > tip_height (nl_chain s) \<and> chain_from_state_snapshot snapshot = Ok (nl_chain s')
     \<and> verify_snapshot (en_ext W) certificate snapshot (rs_validators (nl_rpc s)) = Ok ()
     \<and> state_hash (en_ext W) (nl_chain s') = snap_state_hash snapshot)"

definition advances :: "'db environment \<Rightarrow> 'db handler \<Rightarrow> bool" where
  "advances W h \<longleftrightarrow> (\<forall>s s' cs. settled s \<and> h s = (s', cs, Ok ()) \<and> low (nl_chain s') \<longrightarrow>
     settled s' \<and> (grown s s' \<or> jumped W s s'))"

lemma settles_advances: "settles h \<Longrightarrow> advances W h"
  unfolding settles_def advances_def by blast

lemma still_advances: "still h \<Longrightarrow> advances W h"
  by (intro settles_advances still_settles)

lemma rpc_snapshot_installed:
  assumes "rpc_install_certified_snapshot W rpc snapshot certificate = (rpc', Ok ())"
  shows "chain_from_state_snapshot snapshot = Ok (rs_chain rpc')"
    and "verify_snapshot (en_ext W) certificate snapshot (rs_validators rpc) = Ok ()"
    and "state_hash (en_ext W) (rs_chain rpc') = snap_state_hash snapshot"
  using assms by (auto simp: rpc_install_certified_snapshot_def install_synced_chain_def set_chain_def Let_def
      split: result.splits if_splits prod.splits)

lemma advances_install_candidate: "advances W (install_candidate W clk candidate certificate)"
  unfolding advances_def
proof (intro allI impI, elim conjE)
  fix s s' cs
  assume settled: "settled s" and call: "install_candidate W clk candidate certificate s = (s', cs, Ok ())"
  show "settled s' \<and> (grown s s' \<or> jumped W s s')"
  proof (cases "snap_height candidate > tip_height (nl_chain s)")
    case False
    with call settled show ?thesis by (simp add: install_candidate_def grown_def)
  next
    case True
    obtain rpc r1 where rpc: "rpc_install_certified_snapshot W (nl_rpc s) candidate certificate = (rpc, r1)"
      by (cases "rpc_install_certified_snapshot W (nl_rpc s) candidate certificate")
    obtain rt r2 where rt: "install_certified_snapshot (en_ext W) clk (nl_consensus s) candidate certificate = (rt, r2)"
      by (cases "install_certified_snapshot (en_ext W) clk (nl_consensus s) candidate certificate")
    have s': "r1 = Ok ()" "r2 = Ok ()" "s' = s\<lparr>nl_rpc := rpc, nl_consensus := rt\<rparr>"
      using call True rpc rt by (auto simp: install_candidate_def andthen_def call_rpc_def call_consensus_def must_def
          send_def stop_with_def split: result.splits)
    note installed = snapshot_installed [OF rt [unfolded s'(2)] True [unfolded nl_chain_def]]
    note queried = rpc_snapshot_installed [OF rpc [unfolded s'(1)]]
    have "settled s'" using installed queried settled by (simp add: s'(3) settled_def nl_chain_def)
    moreover have "jumped W s s'"
      using installed queried True unfolding jumped_def by (intro conjI exI [of _ candidate] exI [of _ certificate]) (simp_all add: s'(3) nl_chain_def)
    ultimately show ?thesis by blast
  qed
qed

lemma advances_still_then:
  assumes "still f" and "advances W g"
  shows "advances W (andthen f g)"
  unfolding advances_def
proof (intro allI impI, elim conjE)
  fix s s' cs
  assume settled: "settled s" and call: "andthen f g s = (s', cs, Ok ())" and low: "low (nl_chain s')"
  from call obtain s1 c1 c2 where f: "f s = (s1, c1, Ok ())" and g: "g s1 = (s', c2, Ok ())" by (cases rule: andthen_cases) auto
  have same: "settled s1" "nl_chain s1 = nl_chain s" "nl_finality s1 = nl_finality s" "rs_validators (nl_rpc s1) = rs_validators (nl_rpc s)"
    using still_settled [OF assms(1) f settled] stillD [OF assms(1) f] by (simp_all add: same_stores_def)
  have "settled s' \<and> (grown s1 s' \<or> jumped W s1 s')" using assms(2) same(1) g low unfolding advances_def by blast
  then show "settled s' \<and> (grown s s' \<or> jumped W s s')" by (simp add: grown_def jumped_def same)
qed

lemma advances_then_still:
  assumes "advances W f" and "still g"
  shows "advances W (andthen f g)"
  unfolding advances_def
proof (intro allI impI, elim conjE)
  fix s s' cs
  assume settled: "settled s" and call: "andthen f g s = (s', cs, Ok ())" and low: "low (nl_chain s')"
  from call obtain s1 c1 c2 where f: "f s = (s1, c1, Ok ())" and g: "g s1 = (s', c2, Ok ())" by (cases rule: andthen_cases) auto
  note same = stillD [OF assms(2) g]
  have chain: "nl_chain s1 = nl_chain s'" using same by (simp add: calm_def nl_chain_def)
  then have first: "settled s1 \<and> (grown s s1 \<or> jumped W s s1)" using assms(1) settled f low unfolding advances_def by metis
  then have "settled s'" using still_settled [OF assms(2) g] by blast
  moreover have "nl_finality s1 = nl_finality s'" using same by (simp add: same_stores_def)
  ultimately show "settled s' \<and> (grown s s' \<or> jumped W s s')" using first by (simp add: grown_def jumped_def chain)
qed

lemma advances_must: "(\<And>x. advances W (k x)) \<Longrightarrow> advances W (must k r)"
  by (cases r) (auto simp: must_def intro: still_advances still_stop)

lemma advances_point:
  assumes "\<And>s. \<exists>g. advances W g \<and> h s = g s"
  shows "advances W h"
  unfolding advances_def
proof (intro allI impI, elim conjE)
  fix s s' cs
  assume "settled s" and "h s = (s', cs, Ok ())" and "low (nl_chain s')"
  then show "settled s' \<and> (grown s s' \<or> jumped W s s')" using assms [of s] unfolding advances_def by metis
qed

lemma advances_agreed_snapshot: "advances W (install_agreed_snapshot W clk key certificate)"
proof -
  have clear: "still (set_state (\<lambda>s. s\<lparr>nl_snapshot_candidates := hm_remove (nl_snapshot_candidates s) key\<rparr>))"
    by (intro handler_intros) (simp_all add: same_stores_def)
  have keep: "still (\<lambda>s. keep_votes_above (tip_height (nl_chain s)) s)"
    by (auto simp: still_def keep_votes_above_def set_state_def same_stores_def)
  have some: "advances W (andthen (set_state (\<lambda>s. s\<lparr>nl_snapshot_candidates := hm_remove (nl_snapshot_candidates s) key\<rparr>))
          (andthen (install_candidate W clk candidate certificate)
          (andthen (\<lambda>s. keep_votes_above (tip_height (nl_chain s)) s) request_sync)))" for candidate
    by (intro advances_still_then advances_then_still clear keep advances_install_candidate still_andthen still_request_sync)
  have none: "advances W (stop_with e)" for e by (intro still_advances still_stop)
  show ?thesis
  proof (rule advances_point)
    fix s
    show "\<exists>g. advances W g \<and> install_agreed_snapshot W clk key certificate s = g s"
    proof (cases "hm_get (nl_snapshot_candidates s) key")
      case None
      then show ?thesis using none by (intro exI [of _ "stop_with (EStorage NoLocalSnapshot)"]) (simp add: install_agreed_snapshot_def stop_with_def)
    next
      case (Some candidate)
      with some [of candidate] show ?thesis by (auto simp: install_agreed_snapshot_def)
    qed
  qed
qed

lemma still_remember: "still (remember_candidate key snapshot)"
  unfolding remember_candidate_def by (intro handler_intros) (simp_all add: same_stores_def)

lemma advances_on_sync_snapshot: "advances W (on_sync_snapshot W clk src tip snapshot a)"
proof (rule advances_point)
  fix s :: "'a node_loop"
  let ?install = "\<lambda>certificate. case snapshot_certificate_verify (en_ext W) certificate (nl_validators s) of
      Ok _ \<Rightarrow> install_agreed_snapshot W clk (snapshot_key_of a) certificate | Err _ \<Rightarrow> send []"
  have "still (rpc_do (\<lambda>rpc. begin_sync rpc (tip_at tip)))" by (intro handler_intros) simp_all
  moreover have "advances W (?install c)" for c
    by (auto intro: advances_agreed_snapshot still_advances still_send split: result.splits)
  ultimately have "advances W (andthen (rpc_do (\<lambda>rpc. begin_sync rpc (tip_at tip)))
      (andthen (remember_candidate (snapshot_key_of a) snapshot)
      (andthen (note_attestation a) (must ?install (from_attestations (snapshot_votes_with s a))))))"
    by (intro advances_still_then still_remember still_note_attestation advances_must)
  moreover have "advances W (send cs)" for cs by (intro still_advances still_send)
  ultimately show "\<exists>g. advances W g \<and> on_sync_snapshot W clk src tip snapshot a s = g s"
    by (cases "\<not> snapshot_matches W tip snapshot a \<or> \<not> list_ex (\<lambda>v. val_id v = sa_validator_id a) (nl_validators s)")
      (force simp: on_sync_snapshot_def send_def)+
qed

lemma advances_on_sync_response: "advances W (on_sync_response W J clk src tip cs snapshot a)"
  unfolding on_sync_response_def
  by (auto intro: advances_on_sync_snapshot settles_advances settles_on_sync_certificates split: option.splits)

subsection \<open>The loop\<close>

lemma submission_frames:
  "rs_chain (fst (add_to_pool W rpc tx)) = rs_chain rpc" "rs_validators (fst (add_to_pool W rpc tx)) = rs_validators rpc"
  by (simp_all add: add_to_pool_def split: result.splits)

lemma refuse_or_frame:
  "(\<And>x. rs_chain (fst (f x)) = rs_chain rpc) \<Longrightarrow> rs_chain (fst (refuse_or rpc r f)) = rs_chain rpc"
  "(\<And>x. rs_validators (fst (f x)) = rs_validators rpc) \<Longrightarrow> rs_validators (fst (refuse_or rpc r f)) = rs_validators rpc"
  by (simp_all add: refuse_or_def split: sum.splits)

lemma still_serve:
  "still (serve_rpc (\<lambda>rpc. send_transaction W rpc params))" "still (serve_rpc (\<lambda>rpc. send_raw_transaction W rpc params))"
  "still (serve_rpc (\<lambda>rpc. send_signed_transaction W RJ rpc params))"
  "still (serve_rpc (\<lambda>rpc. send_communication W RJ rpc now params))" "still (serve_rpc (\<lambda>rpc. poll_communication RJ rpc))"
  unfolding serve_rpc_def
  by (intro still_rpc_do; auto simp: send_transaction_def send_raw_transaction_def send_signed_transaction_def
      send_communication_def poll_communication_def submission_frames Let_def intro!: refuse_or_frame split: prod.splits)+

lemma still_sync_tick: "still sync_tick"
  unfolding sync_tick_def by (rule still_request_sync)

lemma handle_event_advances: "advances W (handle_event W L cfg clk ev)"
  by (cases ev) (simp_all add: advances_on_sync_response settles_advances still_advances still_sync_tick still_registration_tick
      still_snapshot_tick settles_consensus_tick still_on_peer_connected still_on_peer_disconnected
      still_on_validator_registration still_registrations still_on_transaction still_on_communication settles_on_proposal
      settles_on_vote still_on_round_change still_on_evidence still_on_sync_request still_on_snapshot_attestation still_send
      still_serve)

text \<open>
  A round of the loop that does not end the node.  Heights stay below the largest 64-bit number.
  The RPC server runs beside the loop; its calls change the pool and the message queues only, so
  where they fall between two handlers does not matter for the ledger.
\<close>

inductive node_step :: "'db environment \<Rightarrow> loop_codec \<Rightarrow> node_config \<Rightarrow> 'db node_loop \<Rightarrow> 'db node_loop \<Rightarrow> bool"
  for W L cfg where
  handled: "handle_event W L cfg clk ev s = (s', commands, Ok ()) \<Longrightarrow> low (nl_chain s') \<Longrightarrow> node_step W L cfg s s'"

inductive_simps node_step_iff: "node_step W L cfg s s'"

definition node_start :: "'db environment \<Rightarrow> node_config \<Rightarrow> 'db node_loop \<Rightarrow> bool" where
  "node_start W cfg s \<longleftrightarrow> (\<exists>clk args rpc. ch_blocks (rs_chain rpc) \<noteq> [] \<and> start_node W clk cfg args rpc = Ok s)"

lemma applied_Ok: "applied a = Ok rt \<longleftrightarrow> (\<exists>x. a = (rt, Ok x))"
  by (auto simp: applied_def split: prod.splits result.splits)

lemma import_loop_calm: "import_loop E rt n cs = (rt', r) \<Longrightarrow> calm rt rt'"
proof (induction cs arbitrary: rt n)
  case Nil
  then show ?case by (auto intro!: calm_frame)
next
  case (Cons c cs)
  have "calm rt (rt\<lparr>rt_finalized := rt_finalized rt @ [c]\<rparr>)" by (simp add: calm_frame)
  then show ?case using Cons.prems Cons.IH calm_trans by (auto split: result.splits option.splits if_splits)
qed

definition same_core :: "runtime \<Rightarrow> runtime \<Rightarrow> bool" where
  "same_core rt rt' \<longleftrightarrow> rt_chain rt' = rt_chain rt \<and> rt_pending_finalized rt' = rt_pending_finalized rt
     \<and> rt_consensus rt' = rt_consensus rt"

lemma setters_core:
  "set_event_schedule E rt x = (rt', r1) \<Longrightarrow> same_core rt rt'"
  "set_validator_interest_policy rt y = (rt', r2) \<Longrightarrow> same_core rt rt'"
  "set_holder_reward_policy rt z = (rt', r3) \<Longrightarrow> same_core rt rt'"
  by (auto simp: same_core_def set_event_schedule_def set_validator_interest_policy_def set_holder_reward_policy_def
      split: result.splits)

lemma configured_runtime_Ok:
  assumes "configured_runtime W clk cfg args c = Ok rt" and "ch_blocks c \<noteq> []"
  shows "rt_chain rt = c" and "rt_pending_finalized rt = []" and "height_ok rt"
proof -
  obtain rt0 where new: "with_signer clk c (st_validators args) (st_signer args) (st_timeouts args) = Ok rt0"
    and same: "rt_chain rt = rt_chain rt0" "rt_pending_finalized rt = rt_pending_finalized rt0" "rt_consensus rt = rt_consensus rt0"
    using assms(1) unfolding configured_runtime_def rbind_Ok_iff applied_Ok
    by (auto dest!: setters_core simp: same_core_def set_upgrade_schedule_def set_validator_peer_ids_def)
  from new obtain b0 where "bft_new (st_validators args) = Ok b0" by (auto simp: with_signer_def)
  moreover obtain b r where b: "start_round b0 (next_height c) 0 = (b, r)" by (cases "start_round b0 (next_height c) 0")
  ultimately have r: "r = Ok ()" and fields: "rt_consensus rt0 = b" "rt_chain rt0 = c" "rt_pending_finalized rt0 = []"
    using new by (auto simp: with_signer_def split: result.splits)
  show "rt_chain rt = c" "rt_pending_finalized rt = []" by (simp_all add: same fields)
  have "bft_height b = next_height c" using start_round_result [OF b] r by auto
  then show "height_ok rt" using assms(2) by (simp add: height_ok_def same fields next_height_def wrapping_add_def)
qed

lemma record_history_chain [simp]: "rs_chain (fold (\<lambda>c rpc. record_finality rpc c) cs rpc) = rs_chain rpc"
  by (induction cs arbitrary: rpc) simp_all

lemma node_start_settled:
  assumes "node_start W cfg s"
  shows "settled s"
proof -
  from assms obtain clk args rpc where blocks: "ch_blocks (rs_chain rpc) \<noteq> []" and start: "start_node W clk cfg args rpc = Ok s"
    by (auto simp: node_start_def)
  from start obtain rt history n where rt: "configured_runtime W clk cfg args (rs_chain rpc) = Ok rt"
    and imported: "import_certificate_history (en_ext W) rt history = (nl_consensus s, Ok n)"
    and s: "rs_chain (nl_rpc s) = rs_chain rpc"
    by (auto simp: start_node_def applied_Ok)
  have "calm rt (nl_consensus s)" using imported import_loop_calm unfolding import_certificate_history_def by blast
  then show ?thesis using configured_runtime_Ok [OF rt blocks] by (simp add: settled_def nl_chain_def s calm_def)
qed

lemma node_step_advances: "settled s \<Longrightarrow> node_step W L cfg s s' \<Longrightarrow> settled s' \<and> (grown s s' \<or> jumped W s s')"
  using handle_event_advances unfolding node_step_iff advances_def by blast

interpretation node: safety "node_start W cfg" "node_step W L cfg" settled for W L cfg
  by unfold_locales (blast intro: node_start_settled dest: node_step_advances)+

text \<open>
  C15.  Queries see the ledger of consensus.  Between two rounds of the main loop the ledger behind
  the RPC server is the one the consensus runtime works on, no finalized block waits to be stored,
  and the round being decided is for the next height at most.  This holds whatever the network
  delivers and clients submit, in every order, including certificates and snapshots of other nodes.
\<close>

theorem node_ledgers_agree:
  assumes "ch_blocks (rs_chain rpc) \<noteq> []" and "start_node W clk cfg args rpc = Ok s0" and "(node_step W L cfg)\<^sup>*\<^sup>* s0 s"
  shows "rs_chain (nl_rpc s) = rt_chain (nl_consensus s) \<and> rt_pending_finalized (nl_consensus s) = []
    \<and> bft_height (rt_consensus (nl_consensus s)) \<le> tip_height (rt_chain (nl_consensus s)) + 1"
proof -
  have "node_start W cfg s0" using assms(1,2) by (auto simp: node_start_def)
  from node.inv_reachable [OF this assms(3)] show ?thesis by (simp add: settled_def nl_chain_def height_ok_def tip_height_def)
qed

text \<open>
  C16.  How the ledger of a node changes.  In a round of the main loop either the blocks of new
  certificates, which are stored in the same order, are added to it, or it is replaced by the state
  of a higher block that a quorum of the validators certified.
\<close>

theorem node_ledger_changes:
  assumes "ch_blocks (rs_chain rpc) \<noteq> []" and "start_node W clk cfg args rpc = Ok s0" and "(node_step W L cfg)\<^sup>*\<^sup>* s0 s"
    and "node_step W L cfg s s'"
  shows "(\<exists>cs. nl_finality s' = nl_finality s @ cs
        \<and> ch_blocks (rs_chain (nl_rpc s')) = ch_blocks (rs_chain (nl_rpc s)) @ map cert_block cs)
    \<or> nl_finality s' = nl_finality s \<and> (\<exists>snapshot certificate. snap_height snapshot > tip_height (rs_chain (nl_rpc s))
        \<and> verify_snapshot (en_ext W) certificate snapshot (rs_validators (nl_rpc s)) = Ok ()
        \<and> chain_from_state_snapshot snapshot = Ok (rs_chain (nl_rpc s'))
        \<and> state_hash (en_ext W) (rs_chain (nl_rpc s')) = snap_state_hash snapshot)"
proof -
  have "node_start W cfg s0" using assms(1,2) by (auto simp: node_start_def)
  then have "settled s" using assms(3) by (rule node.inv_reachable)
  with node_step_advances [OF this assms(4)] show ?thesis by (auto simp: settled_def grown_def jumped_def)
qed

text \<open>A node of one validator that has just started, and the proposal that it finalizes at once.\<close>

definition loop_environment :: "((string, u8 list) hmap \<times> (string, int) hmap) environment" where
  "loop_environment = mem_environment\<lparr>en_state_codec := one_state_codec (canonical_from_chain toy_ext sample_after)\<rparr>"

definition loop_codec_sample :: loop_codec where
  "loop_codec_sample = \<lparr>lc_runtime = toy_runtime_codec, lc_rpc = marked_codec, lc_peer_id_ok = (\<lambda>_. True)\<rparr>"

definition loop_config :: node_config where
  "loop_config = \<lparr>nc_is_client = False, nc_upgrades = [], nc_schedule = [], nc_interest_policy = validator_interest_default,
     nc_holder_policy = holder_reward_default, nc_block_interval = 5000, nc_direct_sync_block_limit = 100,
     nc_local_address = sample_id, nc_local_registration = None,
     nc_reward_registration = \<lparr>nreg_reward_address = [], nreg_peer_id = [], nreg_signature_hex = [], nreg_registration_signer = [],
       nreg_node_public_key_hex = [], nreg_node_signature_hex = [], nreg_reward_signature_hex = []\<rparr>\<rparr>"

definition loop_args :: start_args where
  "loop_args = \<lparr>st_validators = sample_validators, st_signer = Local sample_wallet, st_timeouts = uniform 10,
     st_finality = [], st_evidence = [], st_sync_quorum_peers = 2\<rparr>"

definition loop_rpc :: "((string, u8 list) hmap \<times> (string, int) hmap) rpc_state" where
  "loop_rpc = new_node\<lparr>rs_chain := sample_chain\<rparr>"

definition loop_start :: "((string, u8 list) hmap \<times> (string, int) hmap) node_loop" where
  "loop_start = \<lparr>nl_consensus = sample_node, nl_rpc = loop_rpc, nl_finality = [], nl_evidence = [],
     nl_validators = sample_validators, nl_local_is_validator = True, nl_registrations = [],
     nl_reward_registrations = hm_insert [] [] (nc_reward_registration loop_config), nl_observations = [], nl_attestations = [],
     nl_snapshot_votes = [], nl_snapshot_candidates = [], nl_sync_quorum = \<lparr>tq_minimum_peers = 2, tq_votes = []\<rparr>,
     nl_observed_tip = 0, nl_next_block_at = 5000, nl_was_active = False, nl_last_rebroadcast = 0, nl_announced = []\<rparr>"

lemma policies_valid: "interest_policy_validate validator_interest_default = Ok ()" "holder_policy_validate holder_reward_default = Ok ()"
  by (simp_all add: interest_policy_validate_def validator_interest_default_def holder_policy_validate_def holder_reward_default_def is_blank_def)

lemma loop_runtime: "configured_runtime loop_environment sample_clock loop_config loop_args sample_chain = Ok sample_node"
  using sample_node_new
  by (simp add: configured_runtime_def loop_config_def loop_args_def ensure_supported_def version_at_def applied_def
      set_event_schedule_def schedule_validate_def set_upgrade_schedule_def set_validator_interest_policy_def policies_valid
      set_holder_reward_policy_def set_validator_peer_ids_def validator_peers_def initial_registrations_def sample_node_def SUPPORTED_PROTOCOL_VERSION_def)

lemma loop_starts: "start_node loop_environment sample_clock loop_config loop_args loop_rpc = Ok loop_start"
proof -
  have rpc: "rs_chain loop_rpc = sample_chain" by (simp add: loop_rpc_def)
  have import: "import_certificate_history (en_ext loop_environment) sample_node [] = (sample_node, Ok 0)"
    by (simp add: import_certificate_history_def sample_node_def)
  have loads: "evidence_load (en_ext loop_environment) [] = Ok []" "finality_load (en_ext loop_environment) [] sample_validators = Ok []"
    by (simp_all add: evidence_load_def finality_load_def)
  have member: "list_ex (\<lambda>v. val_id v = sample_id) sample_validators" by (simp add: sample_validators_def sample_id_def)
  have tip: "tip_height sample_chain = 0" by (simp add: tip_height_def sample_tip)
  show ?thesis
    unfolding start_node_def rpc loop_runtime rbind.simps
    by (simp add: loop_args_def loads import applied_def tip_quorum_new_def loop_start_def member
        loop_config_def initial_registrations_def sample_node_fields tip sample_clock_def)
qed

lemma loop_install: "\<exists>rpc. install_finalized loop_environment loop_rpc sample_chain sample_after sample_next = (rpc, Ok ())"
proof -
  have append: "\<exists>a. append_finalized toy_ext (\<lambda>_. Some [1]) (empty_archive 1000) sample_next sample_chain = (a, Ok ())"
    by (simp add: append_finalized_def Let_def empty_archive_def)
  show ?thesis
    using append empty_store_commit [of toy_ext sample_after]
    by (auto simp: install_finalized_def loop_environment_def mem_environment_def loop_rpc_def new_node_def set_chain_def Let_def)
qed

lemma note_deferred [simp]:
  "rt_deferred_votes (note_phase clk ph rt) = rt_deferred_votes rt" "rt_deferred_votes (note_precommit rt m) = rt_deferred_votes rt"
  by (simp_all add: note_phase_def note_precommit_def reset_deadline_def Let_def split: option.splits)

lemma sample_node2_more: "rt_pending_finalized sample_node2 = []" "rt_deferred_votes sample_node2 = []" "bft_height (rt_consensus sample_node2) = 1"
proof -
  have "rt_pending_finalized sample_node1 = []" "rt_deferred_votes sample_node1 = []" by (simp_all add: sample_node1_def sample_node_def)
  then show "rt_pending_finalized sample_node2 = []" "rt_deferred_votes sample_node2 = []"
    by (simp_all add: sample_node2_def receive_vote_def Let_def sample_handle_prevote sample_node1_fields)
  show "bft_height (rt_consensus sample_node2) = 1" using sample_node2_fields(5) sample_handle_prevote(4) by simp
qed

lemma sample_node3_more:
  "rt_pending_finalized sample_node3 = [sample_finality]" "rt_deferred_votes sample_node3 = []"
  "bft_phase (rt_consensus sample_node3) = Finalized" "bft_height (rt_consensus sample_node3) = 1"
proof -
  let ?rt = "note_phase sample_clock (bft_phase (sample_voted Prevote))
    (note_precommit (sample_node2\<lparr>rt_consensus := sample_voted Precommit\<rparr>) (sample_vote Precommit sample_hash))"
  have pre: "rt_precommits ?rt = [sample_vote Precommit sample_hash]" by (simp add: note_precommit_def sample_node2_fields)
  have more: "rt_deferred_votes ?rt = []" "rt_pending_finalized ?rt = []"
    by (simp_all add: sample_node2_more)
  have "sample_node3 = fst (finalize_pending toy_ext ?rt)"
    using sample_finalize(2) by (simp add: sample_node3_def receive_vote_def Let_def sample_node2_fields sample_handle_precommit)
  moreover have "rt_pending_finalized (fst (finalize_pending toy_ext ?rt)) = [sample_finality]"
    "rt_deferred_votes (fst (finalize_pending toy_ext ?rt)) = []" "rt_consensus (fst (finalize_pending toy_ext ?rt)) = sample_voted Precommit"
    using pre more sample_net_certificate sample_apply
    by (simp_all add: finalize_pending_def sample_node2_fields sample_handle_precommit sample_hash_def Let_def sample_finality_def)
  moreover have "bft_height (sample_voted Precommit) = 1"
    using handle_fields(1) [OF sample_handle_precommit(1)] sample_handle_prevote(4) by simp
  ultimately show "rt_pending_finalized sample_node3 = [sample_finality]" "rt_deferred_votes sample_node3 = []"
    "bft_phase (rt_consensus sample_node3) = Finalized" "bft_height (rt_consensus sample_node3) = 1"
    by (simp_all add: sample_handle_precommit)
qed

lemma loop_finalizes:
  "\<exists>s commands. handle_event loop_environment loop_codec_sample loop_config sample_clock (ProposalReceived net_proposal) loop_start
     = (s, commands, Ok ()) \<and> nl_finality s = [sample_finality] \<and> nl_chain s = sample_after"
proof -
  let ?s = "\<lambda>rt. loop_start\<lparr>nl_consensus := rt\<rparr>"
  obtain rpc where rpc: "install_finalized loop_environment loop_rpc sample_chain sample_after sample_next = (rpc, Ok ())"
    using loop_install by blast
  have replay: "replay_deferred_votes toy_ext sample_clock sample_node3 = (sample_node3, Ok [])"
    using sample_node3_more(2) by (simp add: replay_deferred_votes_def replay_loop.simps)
  have "\<exists>rt. advance_after_finalization sample_clock (sample_node3\<lparr>rt_pending_finalized := []\<rparr>) = (rt, Ok ()) \<and> rt_chain rt = sample_after"
    by (simp add: advance_after_finalization_def sample_node3_more start_next_height_def sample_finalize next_height_def sample_after_def
        sample_next_fields wrapping_add_def start_round_def clear_height_def Let_def)
  then obtain rt where rt: "advance_after_finalization sample_clock (sample_node3\<lparr>rt_pending_finalized := []\<rparr>) = (rt, Ok ())"
    "rt_chain rt = sample_after" by blast
  have env: "en_ext loop_environment = toy_ext" by (simp add: loop_environment_def mem_environment_def)
  have start: "nl_consensus loop_start = sample_node" "nl_rpc loop_start = loop_rpc" "nl_finality loop_start = []"
    "rs_chain loop_rpc = sample_chain" "takes_part loop_config loop_start"
    by (simp_all add: loop_start_def loop_rpc_def takes_part_def loop_config_def)
  have cert: "cert_block sample_finality = sample_next" by (simp add: sample_finality_def)
  show ?thesis
    by (simp add: on_proposal_def when_taking_part_def start env call_consensus_def sample_receive_proposal
        cast_prevote_def publish_replayed_votes_def finalize_if_ready_def install_certificate_def call_rpc_def
        andthen_def send_def must_def set_state_def sample_receive_prevote sample_finalize replay take_finalized_def
        sample_node3_more rpc rt nl_chain_def finality_append_def cert)
qed

lemma loop_step:
  obtains s where "node_step loop_environment loop_codec_sample loop_config loop_start s"
    and "nl_finality s = [sample_finality]" and "nl_chain s = sample_after"
proof -
  have "low sample_after" by (simp add: low_def sample_after_def sample_tip sample_next_fields)
  then show thesis using loop_finalizes that unfolding node_step_iff by metis
qed

lemma loop_rpc_blocks: "ch_blocks (rs_chain loop_rpc) \<noteq> []"
  by (simp add: loop_rpc_def sample_tip)

theorem node_ledgers_agree_witness:
  "\<exists>s. (node_step loop_environment loop_codec_sample loop_config)\<^sup>*\<^sup>* loop_start s
     \<and> rs_chain (nl_rpc s) = sample_after \<and> rt_pending_finalized (nl_consensus s) = []"
proof -
  obtain s where s: "node_step loop_environment loop_codec_sample loop_config loop_start s" "nl_chain s = sample_after"
    by (rule loop_step)
  from s(1) have "(node_step loop_environment loop_codec_sample loop_config)\<^sup>*\<^sup>* loop_start s" by blast
  with node_ledgers_agree [OF loop_rpc_blocks loop_starts this] s(2) show ?thesis by (auto simp: nl_chain_def)
qed

theorem node_ledger_changes_witness:
  "\<exists>s. node_step loop_environment loop_codec_sample loop_config loop_start s
     \<and> ch_blocks (rs_chain (nl_rpc s)) = ch_blocks sample_chain @ [cert_block sample_finality]"
proof -
  obtain s where s: "node_step loop_environment loop_codec_sample loop_config loop_start s" "nl_finality s = [sample_finality]"
    by (rule loop_step)
  have "nl_finality loop_start = []" "rs_chain (nl_rpc loop_start) = sample_chain" by (simp_all add: loop_start_def loop_rpc_def)
  with node_ledger_changes [OF loop_rpc_blocks loop_starts rtranclp.rtrancl_refl s(1)] s show ?thesis by (auto intro!: exI [of _ s])
qed

subsection \<open>Messages that end the node\<close>

text \<open>
  A quorum for a snapshot that this node has not taken, or that the validators its RPC state was
  started with did not sign, ends the node as well.  The RPC state keeps these validators when the
  bootstrap set is adopted.
\<close>

lemma snapshot_quorum_stops_node:
  assumes "is_ok (snapshot_attestation_verify (en_ext W) a)" and "from_attestations (snapshot_votes_with s a) = Ok c"
    and "snapshot_certificate_verify (en_ext W) c (nl_validators s) = Ok ()"
    and "case load_latest_snapshot (rs_archive (nl_rpc s)) of None \<Rightarrow> True
      | Some snapshot \<Rightarrow> \<not> is_ok (verify_snapshot (en_ext W) c snapshot (rs_validators (nl_rpc s)))"
  shows "\<exists>s' commands e. on_snapshot_attestation W source a s = (s', commands, Err e)"
  using assms by (auto simp: on_snapshot_attestation_def andthen_def note_attestation_def set_state_def must_def call_rpc_def
      certify_snapshot_def stop_with_def is_ok_iff split: option.splits result.splits)

lemma bootstrap_keeps_rpc: "adopt_bootstrap_validators cfg clk s = (s', commands, r) \<Longrightarrow> nl_rpc s' = nl_rpc s"
  by (auto simp: adopt_bootstrap_validators_def call_consensus_def must_def set_state_def stop_with_def Let_def
      split: if_splits prod.splits result.splits)

lemma unknown_attester_refused:
  assumes "v \<in> set (sc_attestations c)" and "sa_validator_id v \<notin> val_id ` set validators"
  shows "\<not> is_ok (snapshot_certificate_verify E c validators)"
proof
  assume "is_ok (snapshot_certificate_verify E c validators)"
  then obtain x where "for_each (snapshot_vote E c (validator_powers validators)) (sc_attestations c) ([], 0) = Ok x"
    by (auto simp: snapshot_certificate_verify_def is_ok_iff Let_def split: if_splits)
  moreover obtain before after where "sc_attestations c = before @ v # after" using assms(1) by (meson split_list)
  ultimately obtain y z where "snapshot_vote E c (validator_powers validators) v y = Ok z" by (auto simp: for_each_append)
  moreover have "hm_get (validator_powers validators) (sa_validator_id v) = None"
    using assms(2) by (simp add: hm_get_def map_of_eq_None_iff validator_powers_keys)
  ultimately show False by (auto simp: snapshot_vote_def split: prod.splits if_splits)
qed

lemma from_attestations_keeps: "from_attestations vs = Ok c \<Longrightarrow> sc_attestations c = vs"
  by (auto simp: from_attestations_def split: list.splits if_splits)

text \<open>
  C18.  One stranger stops a snapshot from being certified.  An attestation is kept with the others
  for its snapshot before its signer is looked up among the validators.  Once a stranger's is kept,
  no further attestation for that snapshot, whoever sends it, changes what is stored, and the
  stranger's stays.
\<close>

theorem snapshot_vote_poisoned:
  assumes "hm_get (nl_snapshot_votes s) (snapshot_key_of a) = Some votes" and "v \<in> set votes"
    and "sa_validator_id v \<notin> val_id ` set (nl_validators s)"
    and "handle_event W L cfg clk (SnapshotAttestationReceived source a) s = (s', commands, r)"
  shows "nl_rpc s' = nl_rpc s \<and> nl_validators s' = nl_validators s
    \<and> (\<exists>votes'. hm_get (nl_snapshot_votes s') (snapshot_key_of a) = Some votes' \<and> v \<in> set votes')"
proof -
  have kept: "v \<in> set (snapshot_votes_with s a)" using assms(1,2) by (simp add: snapshot_votes_with_def Let_def)
  have refused: "\<not> is_ok (snapshot_certificate_verify (en_ext W) c (nl_validators s))"
    if "from_attestations (snapshot_votes_with s a) = Ok c" for c
    using kept assms(3) by (intro unknown_attester_refused) (simp_all add: from_attestations_keeps [OF that])
  let ?noted = "s\<lparr>nl_snapshot_votes := hm_insert (nl_snapshot_votes s) (snapshot_key_of a) (snapshot_votes_with s a)\<rparr>"
  have "s' = s \<or> s' = ?noted"
    using assms(4) refused by (auto simp: on_snapshot_attestation_def andthen_def note_attestation_def set_state_def must_def
        stop_with_def send_def is_ok_iff split: if_splits result.splits)
  then show ?thesis using assms(1,2) kept by auto
qed

text \<open>Both attestations are properly signed, the first by a key that is no validator's.\<close>

definition signed_attestation :: "wallet \<Rightarrow> snapshot_attestation" where
  "signed_attestation w = \<lparr>sa_validator_id = wallet_address toy_ext w, sa_height = 1, sa_block_hash = [], sa_state_root = [],
     sa_signature = wallet_sign_bytes toy_ext w (snapshot_attestation_bytes 1 [] [])\<rparr>"

definition poisoned_loop :: "((string, u8 list) hmap \<times> (string, int) hmap) node_loop" where
  "poisoned_loop = loop_start\<lparr>nl_snapshot_votes :=
     hm_insert [] (snapshot_key_of (signed_attestation outsider)) [signed_attestation outsider]\<rparr>"

lemma signed_attestation_ok: "length (wal_signing_key w) = 32 \<Longrightarrow> snapshot_attestation_verify toy_ext (signed_attestation w) = Ok ()"
  using verify_signature_signed [OF hex_laws_toy ed25519_laws_toy]
  by (simp add: snapshot_attestation_verify_def signed_attestation_def)

theorem snapshot_vote_poisoned_witness:
  "snapshot_attestation_verify toy_ext (signed_attestation sample_wallet) = Ok ()
     \<and> snapshot_attestation_verify toy_ext (signed_attestation outsider) = Ok ()
     \<and> nl_rpc (fst (handle_event loop_environment loop_codec_sample loop_config sample_clock
          (SnapshotAttestationReceived ''peer'' (signed_attestation sample_wallet)) poisoned_loop)) = loop_rpc"
proof -
  let ?a = "signed_attestation sample_wallet"
  obtain s' commands r where run: "handle_event loop_environment loop_codec_sample loop_config sample_clock
      (SnapshotAttestationReceived ''peer'' ?a) poisoned_loop = (s', commands, r)" by (metis prod_cases3)
  have "snapshot_key_of ?a = snapshot_key_of (signed_attestation outsider)" by (simp add: snapshot_key_of_def signed_attestation_def)
  then have votes: "hm_get (nl_snapshot_votes poisoned_loop) (snapshot_key_of ?a) = Some [signed_attestation outsider]"
    by (simp add: poisoned_loop_def)
  have "sa_validator_id (signed_attestation outsider) \<notin> val_id ` set (nl_validators poisoned_loop)"
    using outsider_not_sample by (simp add: poisoned_loop_def signed_attestation_def loop_start_def sample_validators_def sample_id_def)
  from snapshot_vote_poisoned [OF votes _ this run] run signed_attestation_ok [of sample_wallet] signed_attestation_ok [of outsider]
  show ?thesis by (simp add: poisoned_loop_def loop_start_def sample_wallet_def outsider_def)
qed

end
