(* ===== verification/NodeInbox.thy ===== *)
theory NodeInbox
  imports NodeLoopSafety
begin

text \<open>
  The inbox of signalling messages in the main loop: of all handlers only the one of a received
  message and the polling of the RPC server touch it, so what the inbox guarantees
  (\<open>PeerServices\<close>) holds along every run of the node.
\<close>

subsection \<open>Handlers that leave the inbox alone\<close>

named_theorems mute_intros

definition inbox_of :: "'db node_loop \<Rightarrow> communication_inbox" where
  "inbox_of s = rs_communication_inbox (nl_rpc s)"

definition mute :: "'db handler \<Rightarrow> bool" where
  "mute h \<longleftrightarrow> (\<forall>s. inbox_of (fst (h s)) = inbox_of s)"

definition keeps_inbox :: "('db rpc_state \<Rightarrow> 'db rpc_state) \<Rightarrow> bool" where
  "keeps_inbox f \<longleftrightarrow> (\<forall>rpc. rs_communication_inbox (f rpc) = rs_communication_inbox rpc)"

lemma muteI: "(\<And>s. inbox_of (fst (h s)) = inbox_of s) \<Longrightarrow> mute h"
  by (simp add: mute_def)

lemma mute_at: "mute h \<Longrightarrow> inbox_of (fst (h s)) = inbox_of s"
  by (simp add: mute_def)

lemma inbox_of_frames [simp]:
  "inbox_of (s\<lparr>nl_consensus := x\<rparr>) = inbox_of s" "inbox_of (s\<lparr>nl_evidence := e\<rparr>) = inbox_of s"
  "inbox_of (s\<lparr>nl_finality := cs\<rparr>) = inbox_of s" "inbox_of (s\<lparr>nl_validators := vs\<rparr>) = inbox_of s"
  "inbox_of (s\<lparr>nl_local_is_validator := b\<rparr>) = inbox_of s" "inbox_of (s\<lparr>nl_registrations := g\<rparr>) = inbox_of s"
  "inbox_of (s\<lparr>nl_reward_registrations := w\<rparr>) = inbox_of s" "inbox_of (s\<lparr>nl_observations := ob\<rparr>) = inbox_of s"
  "inbox_of (s\<lparr>nl_attestations := a\<rparr>) = inbox_of s" "inbox_of (s\<lparr>nl_snapshot_votes := v\<rparr>) = inbox_of s"
  "inbox_of (s\<lparr>nl_snapshot_candidates := k\<rparr>) = inbox_of s" "inbox_of (s\<lparr>nl_sync_quorum := q\<rparr>) = inbox_of s"
  "inbox_of (s\<lparr>nl_observed_tip := n\<rparr>) = inbox_of s" "inbox_of (s\<lparr>nl_next_block_at := n\<rparr>) = inbox_of s"
  "inbox_of (s\<lparr>nl_was_active := b\<rparr>) = inbox_of s" "inbox_of (s\<lparr>nl_last_rebroadcast := n\<rparr>) = inbox_of s"
  "inbox_of (s\<lparr>nl_announced := t\<rparr>) = inbox_of s" "inbox_of (s\<lparr>nl_rpc := rpc\<rparr>) = rs_communication_inbox rpc"
  by (simp_all add: inbox_of_def)

lemma mute_send [mute_intros]: "mute (send cs)"
  by (simp add: mute_def send_def)

lemma mute_stop [mute_intros]: "mute (stop_with e)"
  by (simp add: mute_def stop_with_def)

lemma mute_request_sync [mute_intros]: "mute request_sync"
  by (simp add: mute_def request_sync_def)

lemma mute_set_state [mute_intros]: "(\<And>s. inbox_of (f s) = inbox_of s) \<Longrightarrow> mute (set_state f)"
  by (simp add: mute_def set_state_def)

lemma mute_andthen [mute_intros]: "mute f \<Longrightarrow> mute g \<Longrightarrow> mute (andthen f g)"
  unfolding mute_def andthen_def by (auto split: prod.splits result.splits) (metis fst_conv)+

lemma mute_each [mute_intros]: "(\<And>x. mute (f x)) \<Longrightarrow> mute (each f xs)"
  by (induction xs) (simp_all add: mute_send mute_andthen)

lemma mute_must [mute_intros]: "(\<And>x. mute (k x)) \<Longrightarrow> mute (must k r)"
  by (cases r) (simp_all add: must_def mute_stop)

lemma mute_call_consensus [mute_intros]: "(\<And>r. mute (k r)) \<Longrightarrow> mute (call_consensus f k)"
  by (simp add: mute_def call_consensus_def split: prod.splits)

lemma mute_call_rpc [mute_intros]: "keeps_inbox (\<lambda>rpc. fst (f rpc)) \<Longrightarrow> (\<And>r. mute (k r)) \<Longrightarrow> mute (call_rpc f k)"
  by (simp add: mute_def keeps_inbox_def call_rpc_def inbox_of_def split: prod.splits) (metis fst_conv)

lemma mute_rpc_do [mute_intros]: "keeps_inbox f \<Longrightarrow> mute (rpc_do f)"
  by (simp add: mute_def keeps_inbox_def rpc_do_def set_state_def inbox_of_def)

lemma mute_when [mute_intros]: "mute h \<Longrightarrow> mute (when_taking_part cfg h)"
  by (simp add: mute_def when_taking_part_def)

text \<open>A statement in the middle of a handler, in a given state.\<close>

lemmas mute_ats = mute_at [of "andthen f g" for f g] mute_at [of "must k r" for k r] mute_at [of "call_rpc f k" for f k]
  mute_at [of "call_consensus f k" for f k] mute_at [of "send cs" for cs] mute_at [of "rpc_do f" for f]

lemma mute_if [mute_intros]: "(c \<Longrightarrow> mute f) \<Longrightarrow> (\<not> c \<Longrightarrow> mute g) \<Longrightarrow> mute (if c then f else g)"
  by simp

lemma mute_result [mute_intros]: "(\<And>e. mute (f e)) \<Longrightarrow> (\<And>x. mute (g x)) \<Longrightarrow> mute (case r of Err e \<Rightarrow> f e | Ok x \<Rightarrow> g x)"
  by (cases r) simp_all

lemma mute_option [mute_intros]: "mute f \<Longrightarrow> (\<And>x. mute (g x)) \<Longrightarrow> mute (case v of None \<Rightarrow> f | Some x \<Rightarrow> g x)"
  by (cases v) simp_all

subsection \<open>The operations of the RPC state\<close>

lemma install_finalized_inbox: "rs_communication_inbox (fst (install_finalized W rpc c c' b)) = rs_communication_inbox rpc"
  by (simp add: install_finalized_def set_chain_def Let_def split: result.split prod.split)

lemma keeps_inbox_rpc [mute_intros]:
  "keeps_inbox (\<lambda>rpc. fst (install_finalized W rpc (rs_chain rpc) c' b))"
  "keeps_inbox (\<lambda>rpc. fst (rpc_install_certified_snapshot W rpc snapshot certificate))"
  "keeps_inbox (\<lambda>rpc. fst (certify_snapshot W rpc certificate))"
  "keeps_inbox (\<lambda>rpc. restore_transactions W rpc txs)" "keeps_inbox (\<lambda>rpc. begin_sync rpc n)"
  "keeps_inbox (\<lambda>rpc. peer_connected rpc p a ip d k now)" "keeps_inbox (\<lambda>rpc. peer_disconnected rpc p k)"
  by (simp_all add: keeps_inbox_def install_finalized_inbox rpc_install_certified_snapshot_def install_synced_chain_def set_chain_def
      certify_snapshot_def restore_transactions_def begin_sync_def peer_connected_def peer_disconnected_def Let_def
      split: result.split prod.split option.split)

lemma refuse_or_inbox:
  "(\<And>x. rs_communication_inbox (fst (f x)) = rs_communication_inbox rpc)
   \<Longrightarrow> rs_communication_inbox (fst (refuse_or rpc r f)) = rs_communication_inbox rpc"
  by (simp add: refuse_or_def split: sum.splits)

lemma add_to_pool_inbox: "rs_communication_inbox (fst (add_to_pool W rpc tx)) = rs_communication_inbox rpc"
  by (simp add: add_to_pool_def split: result.splits)

lemma mute_serve:
  "mute (serve_rpc (\<lambda>rpc. send_transaction W rpc params))" "mute (serve_rpc (\<lambda>rpc. send_raw_transaction W rpc params))"
  "mute (serve_rpc (\<lambda>rpc. send_signed_transaction W RJ rpc params))"
  "mute (serve_rpc (\<lambda>rpc. send_communication W RJ rpc now params))"
  unfolding serve_rpc_def
  by (intro mute_rpc_do; auto simp: keeps_inbox_def send_transaction_def send_raw_transaction_def send_signed_transaction_def
      send_communication_def add_to_pool_inbox Let_def intro!: refuse_or_inbox split: prod.splits)+

subsection \<open>The handlers\<close>

lemma mute_finalize [mute_intros]: "mute (finalize_if_ready W clk)"
proof (rule muteI)
  fix s
  have "mute (install_certificate W c)" for c
    by (rule muteI, unfold install_certificate_def) (intro mute_ats mute_intros; simp add: record_finality_def Let_def inbox_of_def)
  then have "mute (andthen (each (install_certificate W) cs) (call_consensus (advance_after_finalization clk) (must (\<lambda>_. send []))))" for cs
    by (intro mute_intros)
  from mute_at [OF this] show "inbox_of (fst (finalize_if_ready W clk s)) = inbox_of s"
    by (simp add: finalize_if_ready_def split: prod.split)
qed

lemma mute_cast_prevote [mute_intros]: "mute (cast_prevote W clk m)"
  unfolding cast_prevote_def by (intro mute_intros)

lemma mute_replayed [mute_intros]: "mute (publish_replayed_votes W clk)"
  unfolding publish_replayed_votes_def by (intro mute_intros)

lemma mute_evidence [mute_intros]: "mute (persist_and_publish_evidence W)"
proof (rule muteI)
  fix s
  have "mute (persist_evidence W e)" for e
    by (rule muteI) (simp add: persist_evidence_def split: result.split prod.split bool.split)
  then have "mute (each (persist_evidence W) es)" for es by (intro mute_intros)
  from mute_at [OF this] show "inbox_of (fst (persist_and_publish_evidence W s)) = inbox_of s"
    by (simp add: persist_and_publish_evidence_def split: prod.split)
qed

lemma mute_on_proposal: "mute (on_proposal W J cfg clk p)"
  unfolding on_proposal_def by (intro mute_intros)

lemma mute_on_vote: "mute (on_vote W cfg clk m)"
  unfolding on_vote_def by (intro mute_intros) simp

lemma mute_on_round_change: "mute (on_round_change W J cfg clk m)"
  unfolding on_round_change_def by (intro mute_intros)

lemma mute_on_evidence: "mute (on_evidence W e)"
  by (rule muteI) (simp add: on_evidence_def split: result.split prod.split)

lemma mute_on_transaction: "mute (on_transaction W tx)"
  unfolding on_transaction_def by (intro mute_intros)

lemma mute_on_peer_connected: "mute (on_peer_connected cfg clk p a ip g d n)"
proof -
  have "mute (\<lambda>s. (s, f s, Ok ()))" for f :: "'a node_loop \<Rightarrow> command list" by (simp add: mute_def)
  then show ?thesis unfolding on_peer_connected_def by (intro mute_intros) (auto split: option.split)
qed

lemma mute_on_peer_disconnected: "mute (on_peer_disconnected p n)"
  unfolding on_peer_disconnected_def by (intro mute_intros) simp

lemma mute_adopt_bootstrap [mute_intros]: "mute (adopt_bootstrap_validators cfg clk)"
  by (rule muteI) (auto simp: adopt_bootstrap_validators_def Let_def intro!: mute_ats mute_intros)

lemma mute_on_validator_registration: "mute (on_validator_registration W P cfg clk r)"
  by (rule muteI) (auto simp: on_validator_registration_def intro!: mute_ats mute_intros)

lemma mute_registrations: "mute (on_reward_registration W src rr)" "mute (on_service_attestation W cfg clk src a)"
  by (simp_all add: mute_def on_reward_registration_def on_service_attestation_def)

lemma mute_note_attestation [mute_intros]: "mute (note_attestation a)"
  unfolding note_attestation_def by (intro mute_intros) simp

lemma mute_keep_votes [mute_intros]: "mute (keep_votes_above h)"
  unfolding keep_votes_above_def by (intro mute_intros) simp

lemma mute_on_snapshot_attestation: "mute (on_snapshot_attestation W src a)"
  by (rule muteI) (auto simp: on_snapshot_attestation_def intro!: mute_ats mute_intros)

lemma mute_snapshot_tick: "mute (snapshot_tick W)"
  by (rule muteI) (auto simp: snapshot_tick_def intro!: mute_ats mute_intros split: option.split)

lemma mute_on_sync_request: "mute (on_sync_request W J cfg req h)"
  by (rule muteI) (auto simp: on_sync_request_def Let_def intro!: mute_ats mute_intros)

lemma mute_install_candidate [mute_intros]: "mute (install_candidate W clk candidate certificate)"
  by (rule muteI) (auto simp: install_candidate_def intro!: mute_ats mute_intros)

lemma mute_install_agreed [mute_intros]: "mute (install_agreed_snapshot W clk key certificate)"
proof -
  have "mute (\<lambda>s. keep_votes_above (tip_height (nl_chain s)) s)" by (rule muteI) (rule mute_at [OF mute_keep_votes])
  then show ?thesis
    by (intro muteI) (auto simp: install_agreed_snapshot_def intro!: mute_ats mute_intros split: option.split)
qed

lemma mute_on_sync_snapshot: "mute (on_sync_snapshot W clk src tip snapshot a)"
proof -
  have "mute (remember_candidate (snapshot_key_of a) snapshot)" unfolding remember_candidate_def by (intro mute_intros) simp
  then show ?thesis by (intro muteI) (auto simp: on_sync_snapshot_def intro!: mute_ats mute_intros)
qed

lemma apply_synced_inbox: "inbox_of (fst (apply_synced W J clk cs n s)) = inbox_of s"
proof (induction cs arbitrary: n s)
  case (Cons c cs)
  obtain rt r where sync: "apply_sync_certificates (en_ext W) J clk (nl_consensus s) [c] = (rt, r)"
    by (cases "apply_sync_certificates (en_ext W) J clk (nl_consensus s) [c]")
  obtain rpc q where install: "install_finalized W (nl_rpc s) (nl_chain s) (rt_chain rt) (cert_block c) = (rpc, q)"
    by (cases "install_finalized W (nl_rpc s) (nl_chain s) (rt_chain rt) (cert_block c)")
  have "rs_communication_inbox rpc = inbox_of s"
    using install_finalized_inbox [of W "nl_rpc s" "nl_chain s" "rt_chain rt" "cert_block c"] install by (simp add: inbox_of_def)
  then show ?case by (simp add: sync install Cons.IH split: result.split)
qed simp

lemma mute_on_sync_certificates: "mute (on_sync_certificates W J clk src tip cs)"
proof (rule muteI)
  fix s :: "'a node_loop"
  obtain agreed q where "tip_observe (nl_sync_quorum s) src tip = (agreed, q)" by (cases "tip_observe (nl_sync_quorum s) src tip")
  then show "inbox_of (fst (on_sync_certificates W J clk src tip cs s)) = inbox_of s"
    using apply_synced_inbox [of W J clk cs 0 "s\<lparr>nl_sync_quorum := q, nl_rpc := begin_sync (nl_rpc s) (tip_at (the agreed))\<rparr>"]
    by (auto simp: on_sync_certificates_def andthen_def send_def request_sync_def begin_sync_def Let_def inbox_of_def
        split: option.split prod.split result.split)
qed

lemma mute_on_sync_response: "mute (on_sync_response W J clk src tip cs snapshot a)"
  by (simp add: on_sync_response_def mute_on_sync_snapshot mute_on_sync_certificates split: option.split)

lemma mute_registration_tick: "mute (registration_tick W cfg clk)"
proof -
  have "mute (attest_service W clk x)" for x
    by (rule muteI, cases x) (auto simp: attest_service_def Let_def intro!: mute_ats mute_intros split: option.split)
  then show ?thesis by (intro muteI) (auto simp: registration_tick_def intro!: mute_ats mute_intros)
qed

lemma mute_watch_rounds [mute_intros]: "mute (watch_rounds W J clk)"
proof -
  have "mute (rebroadcast clk)" by (simp add: mute_def rebroadcast_def)
  moreover have "mute (check_timeout W J clk txs)" for txs
    unfolding check_timeout_def by (intro mute_intros) (auto intro!: mute_intros)
  ultimately show ?thesis by (intro muteI) (auto simp: watch_rounds_def Let_def intro!: mute_ats mute_intros)
qed

lemma mute_propose_block [mute_intros]: "mute (propose_block W J cfg clk events)"
proof (rule muteI)
  fix s :: "'a node_loop"
  obtain rpc pending where d: "drain_transactions W (nl_rpc s) 1000 = (rpc, pending)" by (cases "drain_transactions W (nl_rpc s) 1000")
  then have "rs_communication_inbox rpc = inbox_of s" by (auto simp: drain_transactions_def inbox_of_def split: prod.splits)
  then show "inbox_of (fst (propose_block W J cfg clk events s)) = inbox_of s"
    by (auto simp: propose_block_def Let_def d intro!: mute_ats [THEN trans] mute_intros split: result.split)
qed

lemma mute_produce [mute_intros]: "mute (produce W J cfg clk)"
proof -
  have announce: "mute (announce W clk tx)" for tx by (rule muteI) (simp add: announce_def Let_def split: option.split)
  let ?peers = "set_state (\<lambda>s. if service_due s (now_unix clk)
      then s\<lparr>nl_consensus := set_validator_peer_ids (nl_consensus s) (known_validator_peers s)\<rparr> else s)"
  have "mute (must (\<lambda>events. andthen ?peers (propose_block W J cfg clk events)) r)" for r by (intro mute_intros) simp
  then have rest: "mute (\<lambda>s. must (\<lambda>events. andthen ?peers (propose_block W J cfg clk events)) (due_events (en_ext W) J cfg s (now_unix clk)) s)"
    by (intro muteI) (rule mute_at)
  have "mute (must (\<lambda>_. andthen (each (announce W clk) txs)
      (\<lambda>s. must (\<lambda>events. andthen ?peers (propose_block W J cfg clk events)) (due_events (en_ext W) J cfg s (now_unix clk)) s)) r)" for txs r
    by (intro mute_must mute_andthen mute_each announce rest)
  then show ?thesis unfolding produce_def by (intro mute_when muteI) (rule mute_at)
qed

lemma mute_consensus_tick: "mute (consensus_tick W J cfg clk)"
proof -
  have "mute (note_tip cfg clk)" unfolding note_tip_def by (intro mute_intros) simp
  moreover have "mute forward_communication"
    by (rule muteI) (simp add: forward_communication_def drain_outbound_communication_def inbox_of_def split: prod.split)
  ultimately show ?thesis unfolding consensus_tick_def by (intro mute_intros)
qed

lemma handle_event_mute:
  assumes "\<And>m. ev \<noteq> CommunicationReceived m" and "ev \<noteq> RpcPoll"
  shows "mute (handle_event W L cfg clk ev)"
  using assms by (cases ev) (simp_all add: mute_on_sync_response mute_request_sync sync_tick_def mute_registration_tick mute_snapshot_tick
      mute_consensus_tick mute_on_peer_connected mute_on_peer_disconnected mute_on_validator_registration mute_registrations
      mute_on_transaction mute_on_proposal mute_on_vote mute_on_round_change mute_on_evidence mute_on_sync_request
      mute_on_snapshot_attestation mute_send mute_serve, blast)

subsection \<open>Runs\<close>

text \<open>A run of the loop with the ids of the signalling messages it has accepted, oldest first.\<close>

definition accepted_id :: "node_event \<Rightarrow> string list" where
  "accepted_id ev = (case ev of CommunicationReceived m \<Rightarrow> [env_id m] | _ \<Rightarrow> [])"

inductive message_run :: "'db environment \<Rightarrow> loop_codec \<Rightarrow> node_config \<Rightarrow> 'db node_loop \<Rightarrow> string list \<Rightarrow> 'db node_loop \<Rightarrow> bool"
  for W L cfg s0 where
  started: "message_run W L cfg s0 [] s0"
| handled: "message_run W L cfg s0 ids s \<Longrightarrow> handle_event W L cfg clk ev s = (s', commands, Ok ())
    \<Longrightarrow> message_run W L cfg s0 (ids @ accepted_id ev) s'"

lemma on_communication_eq:
  "on_communication W clk m s = (case inbox_push (en_ext W) (inbox_of s) m (now_unix clk) of
     (inbox, r) \<Rightarrow> (s\<lparr>nl_rpc := (nl_rpc s)\<lparr>rs_communication_inbox := inbox\<rparr>\<rparr>, [], r))"
  by (simp add: on_communication_def call_rpc_def receive_communication_def must_def stop_with_def send_def inbox_of_def
      split: prod.split result.split)

lemma message_run_inbox:
  assumes "message_run W L cfg s0 ids s" and "inbox_of s0 = inbox_default"
  shows "inbox_run (en_ext W) (inbox_of s) ids"
  using assms(1)
proof induction
  case started
  show ?case unfolding assms(2) by (rule inbox_run.start)
next
  case (handled ids s clk ev s' commands)
  consider (message) m where "ev = CommunicationReceived m" | (poll) "ev = RpcPoll"
    | (other) "\<And>m. ev \<noteq> CommunicationReceived m" "ev \<noteq> RpcPoll" by blast
  then show ?case
  proof cases
    case (message m)
    obtain inbox where "inbox_push (en_ext W) (inbox_of s) m (now_unix clk) = (inbox, Ok ())" "inbox_of s' = inbox"
      using handled.hyps(2) message by (auto simp: on_communication_eq split: prod.splits)
    with inbox_run.push [OF handled.IH] message show ?thesis by (simp add: accepted_id_def)
  next
    case poll
    then have "inbox_of s' = inbox_of s \<or> inbox_of s' = fst (inbox_drain (inbox_of s))"
      using handled.hyps(2) by (auto simp: serve_rpc_def rpc_do_def set_state_def poll_communication_def inbox_drain_def inbox_of_def
          split: if_splits)
    with inbox_run.drain [OF handled.IH] handled.IH poll show ?thesis by (auto simp: accepted_id_def)
  next
    case other
    then have "inbox_of s' = inbox_of s" using mute_at [OF handle_event_mute [OF other]] handled.hyps(2) by (metis fst_conv)
    with handled.IH other show ?thesis by (auto simp: accepted_id_def split: node_event.split)
  qed
qed

text \<open>
  C17.  A repeated signalling message ends the node.  The peer to peer layer passes every valid
  message on.  At any time of a run that began with an empty inbox, whatever the node has handled before,
  a message is accepted exactly when it is valid and its id is not one of the last 1024 that were accepted; any
  other message is an error that leaves the main loop.  So a second copy ends the node unless 1024
  other messages were accepted since the first; after that the id is forgotten and the copy is
  accepted like a new message.
\<close>

theorem repeated_message_stops_node:
  assumes "message_run W L cfg s0 ids s" and "rs_communication_inbox (nl_rpc s0) = inbox_default"
  shows "if envelope_validate (en_ext W) m (now_unix clk) = Ok () \<and> env_id m \<notin> set (drop (length ids - MAX_SEEN_SIGNAL_IDS) ids)
    then \<exists>s'. handle_event W L cfg clk (CommunicationReceived m) s = (s', [], Ok ())
    else \<exists>e. handle_event W L cfg clk (CommunicationReceived m) s = (s, [], Err e)"
proof -
  have "inbox_run (en_ext W) (inbox_of s) ids" using assms by (intro message_run_inbox) (simp_all add: inbox_of_def)
  then have seen: "inb_seen (inbox_of s) = set (drop (length ids - MAX_SEEN_SIGNAL_IDS) ids)"
    using inbox_invD(1,2) [OF inbox_run_inv] by metis
  obtain inbox r where push: "inbox_push (en_ext W) (inbox_of s) m (now_unix clk) = (inbox, r)"
    by (cases "inbox_push (en_ext W) (inbox_of s) m (now_unix clk)")
  then have r: "is_ok r \<longleftrightarrow> envelope_validate (en_ext W) m (now_unix clk) = Ok () \<and> env_id m \<notin> inb_seen (inbox_of s)"
    by (auto simp: inbox_push_def is_ok_iff split: result.splits if_splits prod.splits)
  have run: "handle_event W L cfg clk (CommunicationReceived m) s = (s\<lparr>nl_rpc := (nl_rpc s)\<lparr>rs_communication_inbox := inbox\<rparr>\<rparr>, [], r)"
    by (simp add: on_communication_eq push)
  show ?thesis
  proof (cases r)
    case (Ok u)
    with r run show ?thesis unfolding seen by auto
  next
    case (Err e)
    then have "inbox = inbox_of s" using push inbox_push_Err by blast
    then have "s\<lparr>nl_rpc := (nl_rpc s)\<lparr>rs_communication_inbox := inbox\<rparr>\<rparr> = s" by (simp add: inbox_of_def)
    moreover have "\<not> (envelope_validate (en_ext W) m (now_unix clk) = Ok () \<and> env_id m \<notin> set (drop (length ids - MAX_SEEN_SIGNAL_IDS) ids))"
      using r Err seen by simp
    ultimately show ?thesis using run Err by (simp only: if_False) blast
  qed
qed

definition sample_signal :: communication_envelope where
  "sample_signal = \<lparr>env_id = ''call-0001-invite'', env_sender_peer_id = ''alice'', env_target_peer_id = ''bob'',
     env_kind = CallInvite, env_created_at = 5, env_expires_at = 6, env_encrypted_payload_hex = []\<rparr>"

lemma sample_signal_valid: "envelope_validate toy_ext sample_signal 5 = Ok ()"
  by (simp add: envelope_validate_def sample_signal_def is_safe_id_def ascii_alphanumeric_def MAX_SIGNAL_TTL_SECONDS_def
      saturating_sub_def toy_ext_def)

text \<open>The message is accepted, the node polls its inbox, and the copy ends it.\<close>

theorem repeated_message_stops_node_witness:
  "\<exists>s1 s2 commands e. handle_event loop_environment loop_codec_sample loop_config sample_clock (CommunicationReceived sample_signal) loop_start
       = (s1, [], Ok ())
     \<and> handle_event loop_environment loop_codec_sample loop_config sample_clock RpcPoll s1 = (s2, commands, Ok ())
     \<and> handle_event loop_environment loop_codec_sample loop_config sample_clock (CommunicationReceived sample_signal) s2 = (s2, [], Err e)"
proof -
  let ?handle = "handle_event loop_environment loop_codec_sample loop_config sample_clock"
  let ?run = "message_run loop_environment loop_codec_sample loop_config loop_start"
  have inbox: "rs_communication_inbox (nl_rpc loop_start) = inbox_default" by (simp add: loop_start_def loop_rpc_def new_node_def)
  have env: "en_ext loop_environment = toy_ext" "now_unix sample_clock = 5"
    by (simp_all add: loop_environment_def mem_environment_def now_unix_def sample_clock_def)
  obtain s1 where first: "?handle (CommunicationReceived sample_signal) loop_start = (s1, [], Ok ())"
    using repeated_message_stops_node [where W = loop_environment and L = loop_codec_sample and cfg = loop_config and m = sample_signal
        and clk = sample_clock, OF message_run.started inbox]
    by (auto simp: env sample_signal_valid)
  obtain s2 commands where poll: "?handle RpcPoll s1 = (s2, commands, Ok ())" by (simp add: serve_rpc_def rpc_do_def set_state_def)
  have "?run ([] @ accepted_id (CommunicationReceived sample_signal)) s1" by (rule message_run.handled [OF message_run.started first])
  from message_run.handled [OF this poll] have "?run [env_id sample_signal] s2" by (simp add: accepted_id_def)
  from repeated_message_stops_node [OF this inbox, of sample_signal sample_clock] first poll show ?thesis
    by (auto simp: MAX_SEEN_SIGNAL_IDS_def)
qed

end
