(* ===== verification/Spec2Isabelle.thy ===== *)
theory Spec2Isabelle
  imports
    ChainSafety BftSafety Mempool ConsensusEra ValidatorPolicy Recovery Snapshot SnapshotScheduler
    Stores TrafficRewards Network Progress AccountSecurity PeerServices Modules
    Storage Archive NodeState Rpc NodeLoopSafety NodeInbox
begin

text \<open>
  \<^bold>\<open>Verification of the IEUM chain node\<close>

  The sources under \<^verbatim>\<open>src/src/\<close> are one Rust crate: a proof-of-stake block chain whose validators
  agree on blocks with a locking BFT protocol.  A node consists of

    \<^item> a ledger (\<^verbatim>\<open>chain.rs\<close>) that executes the transactions (\<^verbatim>\<open>model.rs\<close>, \<^verbatim>\<open>raw_transaction.rs\<close>)
      and system events (\<^verbatim>\<open>scheduled_event.rs\<close>) of a block on balances, nonces and staking state
      (\<^verbatim>\<open>staking.rs\<close>), starting from a genesis (\<^verbatim>\<open>genesis.rs\<close>); rewards are system events
      (\<^verbatim>\<open>validator_interest.rs\<close>, \<^verbatim>\<open>holder_rewards.rs\<close>, \<^verbatim>\<open>node_emission.rs\<close>, \<^verbatim>\<open>traffic_rewards.rs\<close>);
    \<^item> a consensus state machine for one height (\<^verbatim>\<open>consensus.rs\<close>) and the runtime around it
      (\<^verbatim>\<open>consensus_runtime.rs\<close>), which receives proposals, votes, round changes, certificates and
      snapshots, signs with the node's key (\<^verbatim>\<open>signer.rs\<close>) and applies finalized blocks;
    \<^item> round changes and validator sets per era (\<^verbatim>\<open>consensus_era.rs\<close>, \<^verbatim>\<open>validator_policy.rs\<close>),
      recovery votes and protocol upgrades (\<^verbatim>\<open>recovery.rs\<close>, \<^verbatim>\<open>upgrade.rs\<close>);
    \<^item> the pool of pending transactions (\<^verbatim>\<open>mempool.rs\<close>), the JSON-RPC methods and the state they
      share with the main loop (\<^verbatim>\<open>rpc.rs\<close>);
    \<^item> stores: database and finalized state (\<^verbatim>\<open>embedded_db.rs\<close>, \<^verbatim>\<open>state_store.rs\<close>, \<^verbatim>\<open>storage.rs\<close>),
      block archive (\<^verbatim>\<open>archive.rs\<close>), vote log, certificates and evidence (\<^verbatim>\<open>consensus_wal.rs\<close>,
      \<^verbatim>\<open>finality_store.rs\<close>, \<^verbatim>\<open>evidence_store.rs\<close>), snapshots and their transfer
      (\<^verbatim>\<open>snapshot_sync.rs\<close>, \<^verbatim>\<open>checkpoint.rs\<close>, \<^verbatim>\<open>snapshot_scheduler.rs\<close>);
    \<^item> the main loop (\<^verbatim>\<open>main.rs\<close>), which answers timers and events of the network with calls of all of
      these and ends the node on an error;
    \<^item> services around these: account security, signalling messages, peer guard, application
      modules, pruning (\<^verbatim>\<open>account_security.rs\<close>, \<^verbatim>\<open>communication.rs\<close>, \<^verbatim>\<open>peer_guard.rs\<close>,
      \<^verbatim>\<open>modules.rs\<close>, \<^verbatim>\<open>operations.rs\<close>).

  A transaction enters through an RPC method, waits in the pool, is drained into a block by the
  proposer, is agreed on through votes, is executed by \<^verbatim>\<open>apply_block\<close> in every node, and is archived
  and committed to the database by \<^verbatim>\<open>install_finalized\<close>.  The theories follow that path.

  \<^bold>\<open>Conventions.\<close>  A struct is a record whose fields carry a prefix of its name (\<open>ch_\<close> for
  \<^verbatim>\<open>Blockchain\<close>, \<open>bft_\<close> for \<^verbatim>\<open>BftConsensus\<close>, \<open>rt_\<close> for \<^verbatim>\<open>ConsensusRuntime\<close>, \<open>mp_\<close>, \<open>rs_\<close>, ...), an
  enum a datatype.  A fallible operation returns \<open>'a result\<close> with an error constructor per error of
  the source (\<open>Prelude\<close>); an operation on \<^verbatim>\<open>&mut self\<close> that may fail after it changed the state
  returns the state and the result.  Integers are natural numbers with the width written at each
  operation (\<open>checked_add 128\<close>, \<open>saturating_mul 64\<close>, \<open>wrapping_add 64\<close>); bytes and shift loops are
  words.  A \<^verbatim>\<open>HashMap\<close> is an association list with one entry per key, a \<^verbatim>\<open>BTreeMap\<close> a sorted one.
  Strings are byte strings.  All loops are total functions: structural recursion or a measure; no
  fuel is used anywhere.

  \<^bold>\<open>Parameters.\<close>  Code outside the repository is an argument: the record \<open>ext\<close> (\<^verbatim>\<open>sha2\<close>, \<^verbatim>\<open>sha3\<close>, \<^verbatim>\<open>hex\<close>,
  \<^verbatim>\<open>ed25519-dalek\<close>, \<^verbatim>\<open>k256\<close>, \<^verbatim>\<open>libp2p\<close> and the JSON that is hashed), \<open>runtime_codec\<close>,
  \<open>snapshot_codec\<close>, \<open>state_codec\<close>, \<open>wal_codec\<close> and \<open>rpc_codec\<close> (serde and zstd), \<open>sqlite\<close> (the statements
  of the database on a connection: what it sees, the file under it, whether a transaction is open),
  the clock, and external signing programs.  What a theorem needs of them is a named
  hypothesis (\<open>hex_laws\<close>, \<open>ed25519_laws\<close>, \<open>sqlite_laws\<close>, \<open>state_codec_ok\<close>, ...), shown satisfiable by
  the small instances \<open>toy_ext\<close>, \<open>mem_sqlite\<close> and so on that the witnesses use.  No theorem assumes
  that a hash is injective except where it says so.

  \<^bold>\<open>Library.\<close>
    \<^item> \<open>Prelude\<close>: results, integers, maps, and the interfaces \<open>ledger\<close> (a table with a total; interpreted
      for the balance map) and \<open>safety\<close> (a step relation with an invariant; interpreted for the state
      machine, the ledger, the pool, staking, eras, the vote log, the chunk scheduler, the relay ledger
      the network of nodes and the main loop).
    \<^item> \<open>Bytes\<close>: strings, big-endian integers, and the interface \<open>prefix_code\<close> (self-delimiting
      encodings; interpreted for integers, length-prefixed text and module state).
    \<^item> \<open>Votes\<close> holds \<open>weighted_quorum\<close> (two quorums overlap in more than a third of the power) and
      \<open>vote_tally\<close> (what a loop over signed votes computes), interpreted for finality certificates,
      the state machine, round-change and snapshot certificates; \<open>Rewards\<close> holds \<open>capped_payout\<close>,
      interpreted for all three daily payouts; \<open>Agreement\<close> holds \<open>locked_voting\<close>, interpreted in
      \<open>LockSafety\<close> for the votes of the runtime.

  \<^bold>\<open>Ledger.\<close>  \<open>Model\<close>, \<open>Wallet\<close>, \<open>RawTransaction\<close>, \<open>Staking\<close>, \<open>Rewards\<close>, \<open>NodeEmission\<close>,
  \<open>TrafficRewards\<close>, \<open>ScheduledEvent\<close>, \<open>Genesis\<close> and \<open>Chain\<close> model the files of those names.  Signed
  bytes determine what is signed; the RLP decoder reverses the encoder; stake is locked for seven
  days and slashed by the exact share; service payments and the lottery pay what they should to whom
  they should.  \<open>ChainSafety\<close> shows for every chain reachable from a genesis within the supply cap
  (\<open>chain_start\<close>; \<^verbatim>\<open>from_genesis\<close> does not check the cap) that money is conserved and capped, that nonces are sequential, that events run once, and that \<^verbatim>\<open>verify_and_rebuild\<close>
  recomputes exactly the state that applying the blocks built.

  \<^bold>\<open>Consensus.\<close>  \<open>Votes\<close> and \<open>Bft\<close> model \<^verbatim>\<open>consensus.rs\<close>, \<open>ConsensusEra\<close> the round changes and eras,
  \<open>Signer\<close> and \<open>Runtime\<close> the runtime with all its public operations.  \<open>BftSafety\<close> shows what one
  node guarantees against arbitrary messages: no two finalized blocks in a round, certificates for
  what is finalized, evidence for every double vote, locks respected.  \<open>LockSafety\<close>, \<open>NodeInvariant\<close>
  and \<open>Network\<close> lift this to a network: an inductive step relation in which correct validators run
  the runtime and everything else is free to deliver, drop, reorder or invent messages.  With at
  most a third of the power incorrect no two ledgers disagree on the hash of a block at any height
  (\<open>no_fork\<close>), every block a node adds is certified, and no correct validator ever signs the two
  votes that would convict it.  A correct node is one that runs without a restart and with the
  validator set it started with: the runtime keeps votes and locks in memory only, so a node that
  restarts counts as faulty, and \<^verbatim>\<open>replace_bootstrap_validators\<close> is not a step of these runs.  \<open>Progress\<close> shows that
  a timeout leaves its round, and the states in which it does not.

  \<^bold>\<open>Bounds.\<close>  The network theorems assume block heights below \<^verbatim>\<open>2^64\<close> (\<open>roomy\<close>) and a total voting
  power below \<^verbatim>\<open>2^64\<close>: beyond these the unchecked additions of the sources wrap around.  The
  saturating comparison \<^verbatim>\<open>3 * signed > 2 * total\<close> of the state machine can then only refuse a quorum.
  The weights of account keys are below \<^verbatim>\<open>2^32\<close>, their type.

  \<^bold>\<open>Node.\<close>  \<open>Mempool\<close> (limits, replacement, eviction, draining), \<open>ValidatorPolicy\<close>, \<open>Recovery\<close>,
  \<open>Snapshot\<close>, \<open>SnapshotScheduler\<close>, \<open>Stores\<close>, \<open>Storage\<close>, \<open>Archive\<close>, \<open>AccountSecurity\<close>, \<open>PeerServices\<close> and
  \<open>Modules\<close> model the files listed above.  \<open>Storage\<close> derives from the rules of SQLite transactions
  that commits of the database are atomic; \<open>Archive\<close> shows that no block is lost by roll-overs; \<open>Stores\<close>
  keeps the vote log as text, which failing appends and crashes may cut anywhere, and shows that a
  logged validator never votes twice as long as its log is read at each start.  The validator sets
  per era of \<open>ConsensusEra\<close> are library code: \<^verbatim>\<open>EraManager\<close> has no caller in the node.
  \<open>NodeState\<close> models \<^verbatim>\<open>RpcState\<close>, \<^verbatim>\<open>RpcNodeHandle\<close> and \<^verbatim>\<open>RpcServer::new\<close>: a node that is started
  again on its stores has the ledger it had.  \<open>Rpc\<close> models the methods that read the ledger or
  submit transactions: the supply report is exact, a submitted transaction is pending under the
  returned hash, and a transfer that nobody signed is admitted when its signature starts with the
  marker of raw transactions.

  \<^bold>\<open>Main loop.\<close>  \<open>NodeLoop\<close> models the handlers of \<^verbatim>\<open>main\<close> in \<^verbatim>\<open>main.rs\<close>, one definition per timer and
  per event of the network (\<open>handle_event\<close>), and the start of the loop (\<open>start_node\<close>).  A handler is a
  function from the loop's variables to new ones, the commands for the network task, and a result;
  \<open>andthen\<close>, \<open>must\<close> and \<open>call_consensus\<close> are sequencing, the operator \<^verbatim>\<open>?\<close>, and a call of the runtime.
  \<open>NodeLoopSafety\<close> gives rules for handlers built from these and shows that the ledger the RPC server
  reads is the one consensus works on in every reachable state, and that it changes only by blocks
  of stored certificates or by a certified snapshot of a higher block.  It also shows that one
  attestation of a stranger keeps a snapshot from being certified.  \<open>NodeInbox\<close> shows that no other
  handler touches the inbox of signalling messages, and that a repeated message ends the node while
  its id is among the last 1024 accepted.

  \<^bold>\<open>Not modelled.\<close>
    \<^item> the command line, the preparation of files and ports, the update timer and the subcommands of
      \<^verbatim>\<open>main.rs\<close>, \<^verbatim>\<open>network.rs\<close> except the types of its events and commands, and the HTTP part of
      \<^verbatim>\<open>rpc.rs\<close>: the libp2p swarm, tokio and axum deliver events in an order that \<open>Network\<close> and
      \<open>node_step\<close> leave open.
    \<^item> \<^verbatim>\<open>keystore.rs\<close>, \<^verbatim>\<open>node_wallet_keystore.rs\<close>, \<^verbatim>\<open>node_key.rs\<close>, \<^verbatim>\<open>validator_key.rs\<close>: encryption of
      key files by third-party ciphers and file permissions; with them the account methods of the
      RPC server.
    \<^item> \<^verbatim>\<open>installation.rs\<close>, \<^verbatim>\<open>updater.rs\<close>, \<^verbatim>\<open>logger.rs\<close>, \<^verbatim>\<open>metrics.rs\<close>: effects on the operating
      system; the bindings of \<^verbatim>\<open>embedded_db.rs\<close> to the C library; \<^verbatim>\<open>governance.rs\<close>, which no module
      of the crate includes.
    \<^item> Floating-point rates in status answers, poisoned locks, and errors of the file system in the
      stores of certificates, evidence and blocks; the lines of the block archive are the blocks
      themselves (their JSON and zstd compression are taken as the identity).
\<close>

end
